(* ===== verification/Curica_Prelude.thy ===== *)
theory Curica_Prelude
  imports Main "HOL-Library.Word"
begin

text \<open>
  Shared ground of the development: the machine integer types of the C sources, the collections
  of rewrite rules that the component theories fill and use, and the generic facts on lists and
  words that more than one component needs.
\<close>

unbundle bit_operations_syntax

type_synonym u8 = "8 word"
type_synonym u16 = "16 word"
type_synonym u32 = "32 word"
type_synonym u64 = "64 word"

text \<open>
  \<open>repr\<close> collects the definitions that unfold a value representation to its bits, \<open>laws\<close> the
  characteristic equations of an operation (what a client may rewrite with).
\<close>

named_theorems repr
named_theorems laws

subsection \<open>Masks and remainders\<close>

lemma unat_and_mask: "unat (w AND mask n) = unat (w :: 'a::len word) mod 2 ^ n"
proof -
  have "unat (w AND mask n) = unat (take_bit n w)"
    by (simp only: take_bit_eq_mask)
  also have "\<dots> = take_bit n (unat w)"
    by (rule unsigned_take_bit_eq)
  finally show ?thesis
    by (simp only: take_bit_eq_mod)
qed

lemma unat_drop_bit: "unat (drop_bit n w) = unat (w :: 'a::len word) div 2 ^ n"
proof -
  have "unat (drop_bit n w) = drop_bit n (take_bit LENGTH('a) (unat w))"
    by (rule unsigned_drop_bit_eq)
  also have "take_bit LENGTH('a) (unat w) = unat w"
    by (simp only: take_bit_nat_eq_self unsigned_less)
  finally show ?thesis
    by (simp only: drop_bit_eq_div)
qed

lemma and_mask_of_power_two:
  fixes h :: "'a::len word"
  assumes "c = 2 ^ k" and "k < LENGTH('a)"
  shows "unat (h AND (c - 1)) = unat h mod 2 ^ k"
proof -
  have "c - 1 = mask k"
    using assms by (simp add: mask_eq_decr_exp)
  then show ?thesis
    by (simp only: unat_and_mask)
qed

subsection \<open>Lists as C arrays\<close>

lemma list_update_distinct_map:
  assumes "i < length xs" and "x \<notin> set xs"
  shows "set (xs[i := x]) = insert x (set (take i xs) \<union> set (drop (Suc i) xs))"
  using assms by (simp add: upd_conv_take_nth_drop Un_commute)

lemma filter_list_update_count:
  assumes "i < length xs"
  shows "length (filter P (xs[i := x])) + (if P (xs ! i) then 1 else 0)
       = length (filter P xs) + (if P x then 1 else 0)"
  using assms
proof (induction xs arbitrary: i)
  case Nil
  then show ?case by simp
next
  case (Cons y ys)
  show ?case
  proof (cases i)
    case 0
    then show ?thesis by simp
  next
    case (Suc j)
    with Cons.prems have "j < length ys" by simp
    from Cons.IH [OF this] Suc show ?thesis by (cases "P y"; simp)
  qed
qed

subsection \<open>Loops that may fail\<close>

text \<open>A loop over a list whose body returns the next state or fails.\<close>

fun opt_fold :: "('a \<Rightarrow> 's \<Rightarrow> 's option) \<Rightarrow> 'a list \<Rightarrow> 's \<Rightarrow> 's option" where
  "opt_fold f [] s = Some s"
| "opt_fold f (x # xs) s = (case f x s of None \<Rightarrow> None | Some s' \<Rightarrow> opt_fold f xs s')"

lemma opt_fold_append:
  "opt_fold f (xs @ ys) s = Option.bind (opt_fold f xs s) (opt_fold f ys)"
  by (induction xs arbitrary: s) (auto split: option.splits)

end
