(* ===== verification/Float64.thy ===== *)
theory Float64
  imports Curica_Prelude
begin

text \<open>
  The C type \<open>double\<close> as the sources use it: an IEEE 754 binary64 value is its bit pattern, a
  64-bit word. Every finite double is an integer multiple of \<open>2 ^ -1074\<close>, so a finite value is
  read as that integer (\<open>f64_scaled\<close>) and an exact result is rounded to nearest, ties to even, by
  \<open>f64_round\<close>. Comparison is comparison of the sign-magnitude integer (\<open>f64_key\<close>), which is
  the IEEE order on everything that is not a NaN and identifies the two zeros.
\<close>

type_synonym double = u64

definition f64_sign :: "double \<Rightarrow> bool" where
  "f64_sign w = bit w 63"

definition f64_exp :: "double \<Rightarrow> nat" where
  "f64_exp w = unat (drop_bit 52 w AND 0x7ff)"

definition f64_frac :: "double \<Rightarrow> int" where
  "f64_frac w = uint (w AND 0x000fffffffffffff)"

definition f64_mag :: "double \<Rightarrow> int" where
  "f64_mag w = uint (w AND 0x7fffffffffffffff)"

text \<open>The fields as remainders and quotients of the unsigned reading.\<close>

lemma f64_fields:
  "f64_exp w = unat w div 2 ^ 52 mod 2 ^ 11"
  "f64_frac w = int (unat w mod 2 ^ 52)"
  "f64_mag w = int (unat w mod 2 ^ 63)"
proof -
  have m: "(0x7ff :: u64) = mask 11" "(0x000fffffffffffff :: u64) = mask 52"
    "(0x7fffffffffffffff :: u64) = mask 63"
    by (simp_all add: mask_eq_exp_minus_1)
  show "f64_exp w = unat w div 2 ^ 52 mod 2 ^ 11"
    unfolding f64_exp_def m by (simp only: unat_and_mask unat_drop_bit)
  show "f64_frac w = int (unat w mod 2 ^ 52)"
    unfolding f64_frac_def m uint_nat by (simp only: unat_and_mask)
  show "f64_mag w = int (unat w mod 2 ^ 63)"
    unfolding f64_mag_def m uint_nat by (simp only: unat_and_mask)
qed

definition f64_is_nan :: "double \<Rightarrow> bool" where
  "f64_is_nan w \<longleftrightarrow> f64_exp w = 2047 \<and> f64_frac w \<noteq> 0"

definition f64_is_inf :: "double \<Rightarrow> bool" where
  "f64_is_inf w \<longleftrightarrow> f64_exp w = 2047 \<and> f64_frac w = 0"

definition f64_is_finite :: "double \<Rightarrow> bool" where
  "f64_is_finite w \<longleftrightarrow> f64_exp w \<noteq> 2047"

definition f64_key :: "double \<Rightarrow> int" where
  "f64_key w = (if f64_sign w then - f64_mag w else f64_mag w)"

definition f64_eq :: "double \<Rightarrow> double \<Rightarrow> bool" where
  "f64_eq a b \<longleftrightarrow> \<not> f64_is_nan a \<and> \<not> f64_is_nan b \<and> f64_key a = f64_key b"

definition f64_lt :: "double \<Rightarrow> double \<Rightarrow> bool" where
  "f64_lt a b \<longleftrightarrow> \<not> f64_is_nan a \<and> \<not> f64_is_nan b \<and> f64_key a < f64_key b"

definition f64_le :: "double \<Rightarrow> double \<Rightarrow> bool" where
  "f64_le a b \<longleftrightarrow> \<not> f64_is_nan a \<and> \<not> f64_is_nan b \<and> f64_key a \<le> f64_key b"

definition f64_nan :: double where
  "f64_nan = 0x7ff8000000000000"

definition f64_inf :: "bool \<Rightarrow> double" where
  "f64_inf neg = (if neg then 0xfff0000000000000 else 0x7ff0000000000000)"

definition f64_zero :: "bool \<Rightarrow> double" where
  "f64_zero neg = (if neg then 0x8000000000000000 else 0)"

text \<open>The value of a finite double in units of \<open>2 ^ -1074\<close>.\<close>

definition f64_scaled :: "double \<Rightarrow> int" where
  "f64_scaled w =
     (let m = (if f64_exp w = 0 then f64_frac w
               else (2 ^ 52 + f64_frac w) * 2 ^ (f64_exp w - 1))
      in if f64_sign w then - m else m)"

text \<open>Number of binary digits.\<close>

function bitlen :: "int \<Rightarrow> nat" where
  "bitlen n = (if n \<le> 0 then 0 else Suc (bitlen (n div 2)))"
  by pat_completeness auto
termination
  by (relation "measure nat") auto

declare bitlen.simps [simp del]

text \<open>Round the quotient of a non-negative and a positive integer to nearest, ties to even.\<close>

definition round_half_even :: "int \<Rightarrow> int \<Rightarrow> int" where
  "round_half_even n d =
     (let q = n div d; r = n mod d
      in if 2 * r < d then q else if 2 * r > d then q + 1
         else if even q then q else q + 1)"

text \<open>
  The double nearest to \<open>n / d\<close> units, with the given sign. The significand is brought to at most
  53 bits; the magnitude word is then the significand plus the exponent field, and a carry out of
  the significand moves into the exponent by itself.
\<close>

definition f64_round :: "bool \<Rightarrow> int \<Rightarrow> int \<Rightarrow> double" where
  "f64_round neg n d =
     (let s = bitlen (n div d) - 53;
          m = int s * 2 ^ 52 + round_half_even n (d * 2 ^ s);
          b = (if m \<ge> 2047 * 2 ^ 52 then 2047 * 2 ^ 52 else m)
      in (if neg then 0x8000000000000000 else 0) OR word_of_int b)"

definition f64_of_int :: "int \<Rightarrow> double" where
  "f64_of_int i = f64_round (i < 0) (\<bar>i\<bar> * 2 ^ 1074) 1"

text \<open>
  The conversions \<open>(int64_t) d\<close>, \<open>(uint64_t) d\<close>, \<open>(int32_t) d\<close>, \<open>(uint32_t) d\<close>: truncation towards
  zero; C leaves them undefined outside the range of the type, the model gives \<open>None\<close>.
\<close>

definition f64_trunc :: "double \<Rightarrow> int" where
  "f64_trunc w =
     (let q = \<bar>f64_scaled w\<bar> div 2 ^ 1074 in if f64_sign w then - q else q)"

definition f64_to_range :: "int \<Rightarrow> int \<Rightarrow> double \<Rightarrow> int option" where
  "f64_to_range lo hi w =
     (if \<not> f64_is_finite w then None
      else let i = f64_trunc w in if lo \<le> i \<and> i < hi then Some i else None)"

definition f64_to_int64 :: "double \<Rightarrow> int option" where
  "f64_to_int64 = f64_to_range (- (2 ^ 63)) (2 ^ 63)"

definition f64_to_uint64 :: "double \<Rightarrow> int option" where
  "f64_to_uint64 = f64_to_range 0 (2 ^ 64)"

definition f64_to_int32 :: "double \<Rightarrow> int option" where
  "f64_to_int32 = f64_to_range (- (2 ^ 31)) (2 ^ 31)"

definition f64_to_uint32 :: "double \<Rightarrow> int option" where
  "f64_to_uint32 = f64_to_range 0 (2 ^ 32)"

subsection \<open>Arithmetic\<close>

definition f64_neg :: "double \<Rightarrow> double" where
  "f64_neg a = a XOR 0x8000000000000000"

definition f64_add :: "double \<Rightarrow> double \<Rightarrow> double" where
  "f64_add a b =
     (if f64_is_nan a \<or> f64_is_nan b then f64_nan
      else if f64_is_inf a then (if f64_is_inf b \<and> f64_sign a \<noteq> f64_sign b then f64_nan else a)
      else if f64_is_inf b then b
      else let s = f64_scaled a + f64_scaled b
           in if s = 0 then f64_zero (f64_sign a \<and> f64_sign b)
              else f64_round (s < 0) \<bar>s\<bar> 1)"

definition f64_sub :: "double \<Rightarrow> double \<Rightarrow> double" where
  "f64_sub a b = (if f64_is_nan b then f64_nan else f64_add a (f64_neg b))"

definition f64_mul :: "double \<Rightarrow> double \<Rightarrow> double" where
  "f64_mul a b =
     (let neg = (f64_sign a \<noteq> f64_sign b)
      in if f64_is_nan a \<or> f64_is_nan b then f64_nan
         else if f64_is_inf a then (if f64_key b = 0 then f64_nan else f64_inf neg)
         else if f64_is_inf b then (if f64_key a = 0 then f64_nan else f64_inf neg)
         else f64_round neg (\<bar>f64_scaled a\<bar> * \<bar>f64_scaled b\<bar>) (2 ^ 1074))"

definition f64_div :: "double \<Rightarrow> double \<Rightarrow> double" where
  "f64_div a b =
     (let neg = (f64_sign a \<noteq> f64_sign b)
      in if f64_is_nan a \<or> f64_is_nan b then f64_nan
         else if f64_is_inf a then (if f64_is_inf b then f64_nan else f64_inf neg)
         else if f64_is_inf b then f64_zero neg
         else if f64_key b = 0 then (if f64_key a = 0 then f64_nan else f64_inf neg)
         else f64_round neg (\<bar>f64_scaled a\<bar> * 2 ^ 1074) \<bar>f64_scaled b\<bar>)"

text \<open>\<open>fmod\<close> is exact: the remainder keeps the sign of the dividend.\<close>

definition f64_fmod :: "double \<Rightarrow> double \<Rightarrow> double" where
  "f64_fmod a b =
     (if f64_is_nan a \<or> f64_is_nan b \<or> f64_is_inf a \<or> f64_key b = 0 then f64_nan
      else if f64_is_inf b then a
      else f64_round (f64_sign a) (\<bar>f64_scaled a\<bar> mod \<bar>f64_scaled b\<bar>) 1)"

end
