(* ===== verification/Value_Box.thy ===== *)
theory Value_Box
  imports Float64
begin

text \<open>
  Model of \<open>src/src/value.h\<close>: the NaN-boxed \<open>Value\<close>. A value is a 64-bit word; words below
  \<open>0xfff8000000000000\<close> are doubles, the others carry a tag in their upper 16 bits. Pointers are
  64-bit addresses, of which the constructors keep the low 48 bits; \<open>int32_t\<close> and \<open>uint32_t\<close>
  are 32-bit words, read with \<open>sint\<close> and \<open>uint\<close>.
\<close>

type_synonym Value = u64

section \<open>Tags\<close>

definition IS_DOUBLE :: "Value \<Rightarrow> bool" where
  "IS_DOUBLE v \<longleftrightarrow> v < 0xfff8000000000000"

definition IS_TAGGED :: "Value \<Rightarrow> bool" where
  "IS_TAGGED v \<longleftrightarrow> v \<ge> 0xfff8000000000000"

definition TAG_POINTER :: u64 where "TAG_POINTER = 0xfff8"
definition TAG_INTEGER :: u64 where "TAG_INTEGER = 0xfff9"
definition TAG_BOOLEAN :: u64 where "TAG_BOOLEAN = 0xfffa"
definition TAG_NULL :: u64 where "TAG_NULL = 0xfffb"
definition TAG_UNDEFINED :: u64 where "TAG_UNDEFINED = 0xfffc"
definition TAG_SYMBOL :: u64 where "TAG_SYMBOL = 0xfffd"
definition TAG_MAGIC :: u64 where "TAG_MAGIC = 0xfffe"

lemmas tag_defs = TAG_POINTER_def TAG_INTEGER_def TAG_BOOLEAN_def TAG_NULL_def
  TAG_UNDEFINED_def TAG_SYMBOL_def TAG_MAGIC_def

definition GET_TAG :: "Value \<Rightarrow> u64" where
  "GET_TAG v = drop_bit 48 v"

definition IS_POINTER :: "Value \<Rightarrow> bool" where
  "IS_POINTER v \<longleftrightarrow> IS_TAGGED v \<and> GET_TAG v = TAG_POINTER"

definition IS_INTEGER :: "Value \<Rightarrow> bool" where
  "IS_INTEGER v \<longleftrightarrow> IS_TAGGED v \<and> GET_TAG v = TAG_INTEGER"

definition IS_BOOLEAN :: "Value \<Rightarrow> bool" where
  "IS_BOOLEAN v \<longleftrightarrow> IS_TAGGED v \<and> GET_TAG v = TAG_BOOLEAN"

definition IS_NULL :: "Value \<Rightarrow> bool" where
  "IS_NULL v \<longleftrightarrow> IS_TAGGED v \<and> GET_TAG v = TAG_NULL"

definition IS_UNDEFINED :: "Value \<Rightarrow> bool" where
  "IS_UNDEFINED v \<longleftrightarrow> IS_TAGGED v \<and> GET_TAG v = TAG_UNDEFINED"

definition IS_SYMBOL :: "Value \<Rightarrow> bool" where
  "IS_SYMBOL v \<longleftrightarrow> IS_TAGGED v \<and> GET_TAG v = TAG_SYMBOL"

definition IS_MAGIC :: "Value \<Rightarrow> bool" where
  "IS_MAGIC v \<longleftrightarrow> IS_TAGGED v \<and> GET_TAG v = TAG_MAGIC"

section \<open>Constructors and extractors\<close>

text \<open>A \<open>double\<close> argument is its bit pattern: the union cast of the source is the identity.\<close>

definition make_double :: "double \<Rightarrow> Value" where
  "make_double u =
     (if u AND 0x7ff0000000000000 = 0x7ff0000000000000 \<and> u AND 0x000fffffffffffff \<noteq> 0
      then 0x7ff8000000000000 else u)"

definition get_double :: "Value \<Rightarrow> double" where
  "get_double v = v"

definition make_pointer :: "u64 \<Rightarrow> Value" where
  "make_pointer p = push_bit 48 TAG_POINTER OR (p AND 0x0000ffffffffffff)"

definition get_pointer :: "Value \<Rightarrow> u64" where
  "get_pointer v = v AND 0x0000ffffffffffff"

definition make_integer :: "u32 \<Rightarrow> Value" where
  "make_integer val = push_bit 48 TAG_INTEGER OR ucast val"

definition get_integer :: "Value \<Rightarrow> u32" where
  "get_integer v = ucast (v AND 0xffffffff)"

definition make_boolean :: "bool \<Rightarrow> Value" where
  "make_boolean val = push_bit 48 TAG_BOOLEAN OR (if val then 1 else 0)"

definition get_boolean :: "Value \<Rightarrow> bool" where
  "get_boolean v \<longleftrightarrow> v AND 1 \<noteq> 0"

definition make_symbol :: "u32 \<Rightarrow> Value" where
  "make_symbol i = push_bit 48 TAG_SYMBOL OR ucast i"

definition get_symbol_id :: "Value \<Rightarrow> u32" where
  "get_symbol_id v = ucast (v AND 0xffffffff)"

definition VAL_NULL :: Value where "VAL_NULL = push_bit 48 TAG_NULL"
definition VAL_UNDEFINED :: Value where "VAL_UNDEFINED = push_bit 48 TAG_UNDEFINED"
definition VAL_TRUE :: Value where "VAL_TRUE = push_bit 48 TAG_BOOLEAN OR 1"
definition VAL_FALSE :: Value where "VAL_FALSE = push_bit 48 TAG_BOOLEAN OR 0"
definition VAL_EMPTY :: Value where "VAL_EMPTY = push_bit 48 TAG_MAGIC OR 0"
definition VAL_ITER_END :: Value where "VAL_ITER_END = push_bit 48 TAG_MAGIC OR 1"
definition VAL_UNINITIALIZED :: Value where "VAL_UNINITIALIZED = push_bit 48 TAG_MAGIC OR 2"

lemmas val_defs = VAL_NULL_def VAL_UNDEFINED_def VAL_TRUE_def VAL_FALSE_def VAL_EMPTY_def
  VAL_ITER_END_def VAL_UNINITIALIZED_def

definition is_truthy :: "Value \<Rightarrow> bool" where
  "is_truthy v =
     (if IS_DOUBLE v then
        (if v AND 0x7ff0000000000000 = 0x7ff0000000000000 \<and> v AND 0x000fffffffffffff \<noteq> 0
         then False
         else let d = get_double v
              in \<not> f64_eq d 0 \<and> \<not> f64_eq d 0x8000000000000000)
      else if IS_INTEGER v then get_integer v \<noteq> 0
      else if IS_BOOLEAN v then get_boolean v
      else if IS_NULL v \<or> IS_UNDEFINED v then False
      else True)"

section \<open>Facts on the boxed words\<close>

text \<open>The masks of the source as \<open>mask\<close>, which the bitwise rules know.\<close>

lemma value_masks:
  "(0x0000ffffffffffff :: u64) = mask 48" "(0xffffffff :: u64) = mask 32"
  "(0x000fffffffffffff :: u64) = mask 52" "(0x7ff0000000000000 :: u64) = push_bit 52 (mask 11)"
  "(0x7fffffffffffffff :: u64) = mask 63" "(0x7ff :: u64) = mask 11"
  by (simp_all add: mask_eq_exp_minus_1 push_bit_eq_mult)

text \<open>
  A tagged word is a tag above 48 payload bits. The representation reduces to the two equations
  below, after which every question on tags is one on the 16-bit tag alone.
\<close>

lemma drop_bit_tagged:
  fixes t p :: u64
  assumes "take_bit 48 p = p" and "take_bit 16 t = t"
  shows "drop_bit 48 (push_bit 48 t OR p) = t"
proof (rule bit_word_eqI)
  fix n assume "n < LENGTH(64)"
  have "\<not> bit p (48 + n)"
    using assms(1) by (metis bit_take_bit_iff not_add_less1)
  moreover have "bit t n \<Longrightarrow> n < 16"
    using assms(2) by (metis bit_take_bit_iff)
  ultimately show "bit (drop_bit 48 (push_bit 48 t OR p)) n = bit t n"
    using \<open>n < LENGTH(64)\<close> by (auto simp: bit_simps)
qed

lemma take_bit_tagged:
  fixes t p :: u64
  assumes "n \<le> 48"
  shows "take_bit n (push_bit 48 t OR p) = take_bit n p"
  using assms by (auto intro!: bit_word_eqI simp: bit_simps)

lemma IS_TAGGED_iff: "IS_TAGGED v \<longleftrightarrow> 0xfff8 \<le> GET_TAG v"
  unfolding IS_TAGGED_def GET_TAG_def
  by (simp add: word_le_nat_alt drop_bit_eq_div unat_div) arith

lemma IS_DOUBLE_iff: "IS_DOUBLE v \<longleftrightarrow> \<not> IS_TAGGED v"
  by (simp add: IS_DOUBLE_def IS_TAGGED_def not_le)

lemma IS_DOUBLE_iff_tag: "IS_DOUBLE v \<longleftrightarrow> GET_TAG v < 0xfff8"
  by (simp add: IS_DOUBLE_iff IS_TAGGED_iff not_le)

lemma take_bit_payload [simp]:
  "take_bit 48 (ucast (x :: u32) :: u64) = ucast x"
  "take_bit 48 (if b then 1 else 0 :: u64) = (if b then 1 else 0)"
  by (rule bit_word_eqI) (auto simp: bit_simps dest: bit_imp_le_length)

lemma take_bit_tags [simp]:
  "take_bit 16 TAG_POINTER = TAG_POINTER" "take_bit 16 TAG_INTEGER = TAG_INTEGER"
  "take_bit 16 TAG_BOOLEAN = TAG_BOOLEAN" "take_bit 16 TAG_SYMBOL = TAG_SYMBOL"
  by (simp_all add: tag_defs)

lemma GET_TAG_make [simp]:
  "GET_TAG (make_pointer p) = TAG_POINTER"
  "GET_TAG (make_integer i) = TAG_INTEGER"
  "GET_TAG (make_boolean b) = TAG_BOOLEAN"
  "GET_TAG (make_symbol i) = TAG_SYMBOL"
  unfolding GET_TAG_def make_pointer_def make_integer_def make_boolean_def make_symbol_def
  by (rule drop_bit_tagged; simp add: value_masks flip: take_bit_eq_mask)+

lemma GET_TAG_const [simp]:
  "GET_TAG VAL_NULL = TAG_NULL" "GET_TAG VAL_UNDEFINED = TAG_UNDEFINED"
  "GET_TAG VAL_TRUE = TAG_BOOLEAN" "GET_TAG VAL_FALSE = TAG_BOOLEAN"
  "GET_TAG VAL_EMPTY = TAG_MAGIC" "GET_TAG VAL_ITER_END = TAG_MAGIC"
  "GET_TAG VAL_UNINITIALIZED = TAG_MAGIC"
  by (simp_all add: GET_TAG_def val_defs tag_defs)

lemmas tag_tests = IS_POINTER_def IS_INTEGER_def IS_BOOLEAN_def IS_NULL_def IS_UNDEFINED_def
  IS_SYMBOL_def IS_MAGIC_def

lemma kind_iff:
  "IS_POINTER v \<longleftrightarrow> GET_TAG v = TAG_POINTER"
  "IS_INTEGER v \<longleftrightarrow> GET_TAG v = TAG_INTEGER"
  "IS_BOOLEAN v \<longleftrightarrow> GET_TAG v = TAG_BOOLEAN"
  "IS_NULL v \<longleftrightarrow> GET_TAG v = TAG_NULL"
  "IS_UNDEFINED v \<longleftrightarrow> GET_TAG v = TAG_UNDEFINED"
  "IS_SYMBOL v \<longleftrightarrow> GET_TAG v = TAG_SYMBOL"
  "IS_MAGIC v \<longleftrightarrow> GET_TAG v = TAG_MAGIC"
  by (auto simp: tag_tests IS_TAGGED_iff tag_defs)

lemmas kind_simps = kind_iff tag_defs IS_DOUBLE_iff_tag

lemma kind_of_make [simp]:
  "IS_POINTER (make_pointer p)" "\<not> IS_INTEGER (make_pointer p)" "\<not> IS_BOOLEAN (make_pointer p)" "\<not> IS_NULL (make_pointer p)"
  "\<not> IS_UNDEFINED (make_pointer p)" "\<not> IS_SYMBOL (make_pointer p)" "\<not> IS_MAGIC (make_pointer p)" "\<not> IS_DOUBLE (make_pointer p)"
  "\<not> IS_POINTER (make_integer i)" "IS_INTEGER (make_integer i)" "\<not> IS_BOOLEAN (make_integer i)" "\<not> IS_NULL (make_integer i)"
  "\<not> IS_UNDEFINED (make_integer i)" "\<not> IS_SYMBOL (make_integer i)" "\<not> IS_MAGIC (make_integer i)" "\<not> IS_DOUBLE (make_integer i)"
  "\<not> IS_POINTER (make_boolean b)" "\<not> IS_INTEGER (make_boolean b)" "IS_BOOLEAN (make_boolean b)" "\<not> IS_NULL (make_boolean b)"
  "\<not> IS_UNDEFINED (make_boolean b)" "\<not> IS_SYMBOL (make_boolean b)" "\<not> IS_MAGIC (make_boolean b)" "\<not> IS_DOUBLE (make_boolean b)"
  "\<not> IS_POINTER (make_symbol i)" "\<not> IS_INTEGER (make_symbol i)" "\<not> IS_BOOLEAN (make_symbol i)" "\<not> IS_NULL (make_symbol i)"
  "\<not> IS_UNDEFINED (make_symbol i)" "IS_SYMBOL (make_symbol i)" "\<not> IS_MAGIC (make_symbol i)" "\<not> IS_DOUBLE (make_symbol i)"
  "\<not> IS_POINTER VAL_NULL" "\<not> IS_INTEGER VAL_NULL" "\<not> IS_BOOLEAN VAL_NULL" "IS_NULL VAL_NULL"
  "\<not> IS_UNDEFINED VAL_NULL" "\<not> IS_SYMBOL VAL_NULL" "\<not> IS_MAGIC VAL_NULL" "\<not> IS_DOUBLE VAL_NULL"
  "\<not> IS_POINTER VAL_UNDEFINED" "\<not> IS_INTEGER VAL_UNDEFINED" "\<not> IS_BOOLEAN VAL_UNDEFINED" "\<not> IS_NULL VAL_UNDEFINED"
  "IS_UNDEFINED VAL_UNDEFINED" "\<not> IS_SYMBOL VAL_UNDEFINED" "\<not> IS_MAGIC VAL_UNDEFINED" "\<not> IS_DOUBLE VAL_UNDEFINED"
  "\<not> IS_POINTER VAL_TRUE" "\<not> IS_INTEGER VAL_TRUE" "IS_BOOLEAN VAL_TRUE" "\<not> IS_NULL VAL_TRUE"
  "\<not> IS_UNDEFINED VAL_TRUE" "\<not> IS_SYMBOL VAL_TRUE" "\<not> IS_MAGIC VAL_TRUE" "\<not> IS_DOUBLE VAL_TRUE"
  "\<not> IS_POINTER VAL_FALSE" "\<not> IS_INTEGER VAL_FALSE" "IS_BOOLEAN VAL_FALSE" "\<not> IS_NULL VAL_FALSE"
  "\<not> IS_UNDEFINED VAL_FALSE" "\<not> IS_SYMBOL VAL_FALSE" "\<not> IS_MAGIC VAL_FALSE" "\<not> IS_DOUBLE VAL_FALSE"
  "\<not> IS_POINTER VAL_EMPTY" "\<not> IS_INTEGER VAL_EMPTY" "\<not> IS_BOOLEAN VAL_EMPTY" "\<not> IS_NULL VAL_EMPTY"
  "\<not> IS_UNDEFINED VAL_EMPTY" "\<not> IS_SYMBOL VAL_EMPTY" "IS_MAGIC VAL_EMPTY" "\<not> IS_DOUBLE VAL_EMPTY"
  "\<not> IS_POINTER VAL_ITER_END" "\<not> IS_INTEGER VAL_ITER_END" "\<not> IS_BOOLEAN VAL_ITER_END" "\<not> IS_NULL VAL_ITER_END"
  "\<not> IS_UNDEFINED VAL_ITER_END" "\<not> IS_SYMBOL VAL_ITER_END" "IS_MAGIC VAL_ITER_END" "\<not> IS_DOUBLE VAL_ITER_END"
  "\<not> IS_POINTER VAL_UNINITIALIZED" "\<not> IS_INTEGER VAL_UNINITIALIZED" "\<not> IS_BOOLEAN VAL_UNINITIALIZED" "\<not> IS_NULL VAL_UNINITIALIZED"
  "\<not> IS_UNDEFINED VAL_UNINITIALIZED" "\<not> IS_SYMBOL VAL_UNINITIALIZED" "IS_MAGIC VAL_UNINITIALIZED" "\<not> IS_DOUBLE VAL_UNINITIALIZED"
  by (simp_all add: kind_simps)

lemma kind_of_address [simp]:
  assumes "(a :: u64) < 2 ^ 48"
  shows "\<not> IS_POINTER a" "IS_DOUBLE a"
  using assms by (simp_all add: IS_POINTER_def IS_TAGGED_def IS_DOUBLE_def word_le_nat_alt
      word_less_nat_alt)

lemma get_make [simp]:
  "get_pointer (make_pointer p) = p AND 0x0000ffffffffffff"
  "get_integer (make_integer i) = i"
  "get_boolean (make_boolean b) = b"
  "get_symbol_id (make_symbol i) = i"
  unfolding get_pointer_def make_pointer_def get_integer_def make_integer_def get_boolean_def
    make_boolean_def get_symbol_id_def make_symbol_def value_masks
  by (simp_all add: take_bit_tagged and_one_eq even_or_iff flip: take_bit_eq_mask)
    (auto intro!: bit_word_eqI simp: bit_simps even_or_iff dest: bit_imp_le_length)

section \<open>The view of a boxed value\<close>

text \<open>
  What a boxed word stands for, read in the order in which the tests of the header exclude each
  other. \<open>VInvalid\<close> is the tag \<open>0xffff\<close>, which no constructor of the header builds.
\<close>

datatype view =
  VDouble double | VPointer u64 | VInteger u32 | VBoolean bool | VNull | VUndefined
| VSymbol u32 | VMagic u64 | VInvalid

definition view_of :: "Value \<Rightarrow> view" where
  "view_of v =
     (if IS_DOUBLE v then VDouble (get_double v)
      else if IS_POINTER v then VPointer (get_pointer v)
      else if IS_INTEGER v then VInteger (get_integer v)
      else if IS_BOOLEAN v then VBoolean (get_boolean v)
      else if IS_NULL v then VNull
      else if IS_UNDEFINED v then VUndefined
      else if IS_SYMBOL v then VSymbol (get_symbol_id v)
      else if IS_MAGIC v then VMagic (v AND 0x0000ffffffffffff)
      else VInvalid)"

lemma nan_bits_iff:
  "v AND 0x7ff0000000000000 = 0x7ff0000000000000 \<and> v AND 0x000fffffffffffff \<noteq> 0
   \<longleftrightarrow> f64_is_nan v"
proof -
  have e: "v AND 0x7ff0000000000000 = push_bit 52 (drop_bit 52 v AND mask 11)"
    unfolding value_masks by (auto intro!: bit_word_eqI simp: bit_simps)
  have "unat (drop_bit 52 v AND mask 11) < 2 ^ 11"
    by (simp add: unat_and_mask)
  then have "unat (v AND 0x7ff0000000000000) = 2 ^ 52 * f64_exp v"
    by (simp add: e push_bit_eq_mult unat_word_ariths unat_and_mask unat_drop_bit f64_fields)
  then have "v AND 0x7ff0000000000000 = 0x7ff0000000000000 \<longleftrightarrow> f64_exp v = 2047"
    by (simp add: word_unat_eq_iff)
  moreover have "v AND 0x000fffffffffffff \<noteq> 0 \<longleftrightarrow> f64_frac v \<noteq> 0"
    by (simp add: f64_frac_def uint_0_iff)
  ultimately show ?thesis
    by (simp add: f64_is_nan_def)
qed

lemma make_double_eq: "make_double d = (if f64_is_nan d then f64_nan else d)"
  by (simp only: make_double_def nan_bits_iff f64_nan_def)

lemma not_nan_IS_DOUBLE: "\<not> f64_is_nan d \<Longrightarrow> IS_DOUBLE d"
proof (rule ccontr)
  assume "\<not> f64_is_nan d" and "\<not> IS_DOUBLE d"
  then have n: "unat d \<ge> 0xfff8000000000000"
    by (simp add: IS_DOUBLE_def word_less_nat_alt)
  have "unat d < 2 ^ 64" using unsigned_less [of d] by simp
  with n have q: "unat d div 2 ^ 52 = 4095"
    by (intro div_nat_eqI) simp_all
  with n have "unat d mod 2 ^ 52 \<noteq> 0"
    using div_mult_mod_eq [of "unat d" "2 ^ 52"] by simp
  with q have "f64_is_nan d"
    by (simp add: f64_is_nan_def f64_fields)
  with \<open>\<not> f64_is_nan d\<close> show False by simp
qed

lemma make_double_IS_DOUBLE [simp]: "IS_DOUBLE (make_double d)"
proof (cases "f64_is_nan d")
  case True
  then show ?thesis by (simp add: make_double_eq f64_nan_def IS_DOUBLE_def)
next
  case False
  then show ?thesis by (simp add: make_double_eq not_nan_IS_DOUBLE)
qed

text \<open>
  boxing_roundtrip. NaN-boxing round trip: each constructor of the header builds a word that reads back as its
  own kind with its own payload. Pointers keep their low 48 bits, every NaN becomes the one
  canonical quiet NaN, every other double is kept bit for bit.
\<close>

theorem boxing_roundtrip:
  "view_of (make_double d) = VDouble (if f64_is_nan d then f64_nan else d) \<and>
   view_of (make_pointer p) = VPointer (p AND 0x0000ffffffffffff) \<and>
   view_of (make_integer i) = VInteger i \<and>
   view_of (make_boolean b) = VBoolean b \<and>
   view_of (make_symbol i) = VSymbol i \<and>
   view_of VAL_NULL = VNull \<and> view_of VAL_UNDEFINED = VUndefined \<and>
   view_of VAL_EMPTY = VMagic 0 \<and> view_of VAL_ITER_END = VMagic 1 \<and>
   view_of VAL_UNINITIALIZED = VMagic 2"
proof -
  have "view_of (make_double d) = VDouble (make_double d)"
    by (simp add: view_of_def get_double_def)
  moreover have "VAL_EMPTY AND 0x0000ffffffffffff = 0" "VAL_ITER_END AND 0x0000ffffffffffff = 1"
    "VAL_UNINITIALIZED AND 0x0000ffffffffffff = 2"
    by (simp_all add: val_defs tag_defs)
  ultimately show ?thesis
    by (simp add: view_of_def tag_tests IS_DOUBLE_iff_tag IS_TAGGED_iff tag_defs make_double_eq)
qed

text \<open>The truth value ECMAScript gives to each kind of primitive, and \<open>true\<close> for a pointer.\<close>

fun view_truth :: "view \<Rightarrow> bool" where
  "view_truth (VDouble d) \<longleftrightarrow> \<not> f64_is_nan d \<and> f64_mag d \<noteq> 0"
| "view_truth (VInteger i) \<longleftrightarrow> i \<noteq> 0"
| "view_truth (VBoolean b) \<longleftrightarrow> b"
| "view_truth VNull \<longleftrightarrow> False"
| "view_truth VUndefined \<longleftrightarrow> False"
| "view_truth _ \<longleftrightarrow> True"

lemma f64_eq_zero: "f64_eq d (f64_zero s) \<longleftrightarrow> \<not> f64_is_nan d \<and> f64_mag d = 0"
  by (auto simp: f64_eq_def f64_key_def f64_zero_def f64_is_nan_def f64_fields)

text \<open>
  is_truthy_view. \<open>is_truthy\<close> decides truth from the kind of the value alone: the two zeros, every NaN,
  integer zero, \<open>false\<close>, \<open>null\<close> and \<open>undefined\<close> are false and everything else, every
  pointer included, is true.
\<close>

theorem is_truthy_view: "is_truthy v = view_truth (view_of v)"
proof (cases "IS_DOUBLE v")
  case True
  have z: "(0 :: u64) = f64_zero False" "(0x8000000000000000 :: u64) = f64_zero True"
    by (simp_all add: f64_zero_def)
  from True have "is_truthy v = (if f64_is_nan v then False
      else \<not> f64_eq v (f64_zero False) \<and> \<not> f64_eq v (f64_zero True))"
    by (simp only: is_truthy_def if_True nan_bits_iff Let_def get_double_def flip: z)
  with True show ?thesis
    by (simp add: view_of_def get_double_def f64_eq_zero)
next
  case False
  then show ?thesis
    by (simp add: is_truthy_def view_of_def tag_tests tag_defs)
qed

end
