(* ===== verification/Bytecode.thy ===== *)
theory Bytecode
  imports Value_Box
begin

text \<open>
  Model of \<open>src/src/bytecode.h\<close>: the opcodes of the register machine and the three layouts of a
  32-bit instruction word (\<open>ABC\<close>, \<open>ABx\<close>, \<open>AsBx\<close>), with the encoders and the decoding macros.
\<close>

datatype (plugins only: code size) Opcode =
  OP_LOAD_CONST | OP_LOAD_INT | OP_LOAD_BOOL | OP_LOAD_NULL | OP_LOAD_UNDEFINED |
  OP_LOAD_GLOBAL | OP_STORE_GLOBAL | OP_LOAD_ENV | OP_STORE_ENV | OP_LOAD_PROP |
  OP_STORE_PROP | OP_DELETE_PROP | OP_MOVE | OP_ADD | OP_SUB | OP_MUL | OP_DIV | OP_MOD |
  OP_POW | OP_CONCAT | OP_LT | OP_LE | OP_GT | OP_GE | OP_EQ | OP_NE | OP_EQ_LOOSE |
  OP_NE_LOOSE | OP_IN | OP_INSTANCEOF | OP_NOT | OP_NEG | OP_TYPEOF | OP_VOID | OP_BITAND |
  OP_BITOR | OP_BITXOR | OP_BITNOT | OP_SHL | OP_SHR | OP_USHR | OP_INC | OP_DEC | OP_JUMP |
  OP_JUMP_IF_FALSE | OP_JUMP_IF_TRUE | OP_JUMP_IF_NULLISH | OP_CALL | OP_NEW_CALL |
  OP_RETURN | OP_THROW | OP_TRY_BEGIN | OP_TRY_END | OP_CATCH_BEGIN | OP_NEW_OBJECT |
  OP_NEW_ARRAY | OP_NEW_FUNCTION | OP_NEW_ENV | OP_NEW_REGEX | OP_ARRAY_PUSH |
  OP_ARRAY_SPREAD | OP_OBJ_SPREAD | OP_ITER_NEXT | OP_FOR_IN_NEXT | OP_GET_ITER |
  OP_GET_ASYNC_ITER | OP_ASYNC_ITER_NEXT | OP_UNPACK_ITER_RES | OP_PRINT | OP_AWAIT |
  OP_YIELD | OP_COUNT

text \<open>The enumeration order of the C \<open>enum\<close>; \<open>OP_COUNT\<close> is its sentinel.\<close>

definition opcode_table :: "Opcode list" where
  "opcode_table =
  [OP_LOAD_CONST, OP_LOAD_INT, OP_LOAD_BOOL, OP_LOAD_NULL, OP_LOAD_UNDEFINED, OP_LOAD_GLOBAL,
   OP_STORE_GLOBAL, OP_LOAD_ENV, OP_STORE_ENV, OP_LOAD_PROP, OP_STORE_PROP, OP_DELETE_PROP,
   OP_MOVE, OP_ADD, OP_SUB, OP_MUL, OP_DIV, OP_MOD, OP_POW, OP_CONCAT, OP_LT, OP_LE, OP_GT,
   OP_GE, OP_EQ, OP_NE, OP_EQ_LOOSE, OP_NE_LOOSE, OP_IN, OP_INSTANCEOF, OP_NOT, OP_NEG,
   OP_TYPEOF, OP_VOID, OP_BITAND, OP_BITOR, OP_BITXOR, OP_BITNOT, OP_SHL, OP_SHR, OP_USHR,
   OP_INC, OP_DEC, OP_JUMP, OP_JUMP_IF_FALSE, OP_JUMP_IF_TRUE, OP_JUMP_IF_NULLISH, OP_CALL,
   OP_NEW_CALL, OP_RETURN, OP_THROW, OP_TRY_BEGIN, OP_TRY_END, OP_CATCH_BEGIN, OP_NEW_OBJECT,
   OP_NEW_ARRAY, OP_NEW_FUNCTION, OP_NEW_ENV, OP_NEW_REGEX, OP_ARRAY_PUSH, OP_ARRAY_SPREAD,
   OP_OBJ_SPREAD, OP_ITER_NEXT, OP_FOR_IN_NEXT, OP_GET_ITER, OP_GET_ASYNC_ITER,
   OP_ASYNC_ITER_NEXT, OP_UNPACK_ITER_RES, OP_PRINT, OP_AWAIT, OP_YIELD, OP_COUNT]"

fun opcode_index :: "Opcode list \<Rightarrow> Opcode \<Rightarrow> nat" where
  "opcode_index [] op = 0"
| "opcode_index (x # xs) op = (if x = op then 0 else Suc (opcode_index xs op))"

definition opcode_num :: "Opcode \<Rightarrow> u32" where
  "opcode_num op = word_of_nat (opcode_index opcode_table op)"

definition opcode_of_num :: "u32 \<Rightarrow> Opcode option" where
  "opcode_of_num n =
     (if unat n < length opcode_table then Some (opcode_table ! unat n) else None)"

section \<open>Decoding macros\<close>

definition INST_OP :: "u32 \<Rightarrow> u32" where "INST_OP i = i AND 0xFF"
definition INST_A :: "u32 \<Rightarrow> u32" where "INST_A i = drop_bit 8 i AND 0xFF"
definition INST_B :: "u32 \<Rightarrow> u32" where "INST_B i = drop_bit 16 i AND 0xFF"
definition INST_C :: "u32 \<Rightarrow> u32" where "INST_C i = drop_bit 24 i AND 0xFF"
definition INST_BX :: "u32 \<Rightarrow> u32" where "INST_BX i = drop_bit 16 i AND 0xFFFF"
definition INST_SBX :: "u32 \<Rightarrow> u16" where "INST_SBX i = ucast (drop_bit 16 i AND 0xFFFF)"

lemmas inst_defs = INST_OP_def INST_A_def INST_B_def INST_C_def INST_BX_def INST_SBX_def

section \<open>Encoders\<close>

text \<open>An \<open>int16_t\<close> operand is a 16-bit word; its signed reading is \<open>sint\<close>.\<close>

definition make_abc :: "Opcode \<Rightarrow> u8 \<Rightarrow> u8 \<Rightarrow> u8 \<Rightarrow> u32" where
  "make_abc op a b c =
     opcode_num op OR push_bit 8 (ucast a) OR push_bit 16 (ucast b) OR push_bit 24 (ucast c)"

definition make_abx :: "Opcode \<Rightarrow> u8 \<Rightarrow> u16 \<Rightarrow> u32" where
  "make_abx op a bx = opcode_num op OR push_bit 8 (ucast a) OR push_bit 16 (ucast bx)"

definition make_asbx :: "Opcode \<Rightarrow> u8 \<Rightarrow> u16 \<Rightarrow> u32" where
  "make_asbx op a sbx = opcode_num op OR push_bit 8 (ucast a) OR push_bit 16 (ucast sbx)"

section \<open>Round trips\<close>

lemma opcode_index_less: "op \<in> set xs \<Longrightarrow> opcode_index xs op < length xs"
  by (induction xs) auto

lemma nth_opcode_index: "op \<in> set xs \<Longrightarrow> xs ! opcode_index xs op = op"
  by (induction xs) auto

lemma opcode_in_table: "op \<in> set opcode_table"
  by (cases op) (simp_all add: opcode_table_def)

lemma length_opcode_table: "length opcode_table = 72"
  by (simp add: opcode_table_def)

lemma unat_opcode_num: "unat (opcode_num op) = opcode_index opcode_table op"
  using opcode_index_less [OF opcode_in_table, of op]
  by (simp add: opcode_num_def length_opcode_table unat_of_nat)

lemma opcode_num_less: "opcode_num op < 0x100"
  using opcode_index_less [OF opcode_in_table, of op]
  by (simp add: word_less_nat_alt unat_opcode_num length_opcode_table)

lemma opcode_of_num_num [simp]: "opcode_of_num (opcode_num op) = Some op"
  using opcode_index_less [OF opcode_in_table, of op]
  by (simp add: opcode_of_num_def unat_opcode_num nth_opcode_index opcode_in_table)

lemma opcode_bits: "bit (opcode_num op) n \<Longrightarrow> n < 8"
proof -
  assume b: "bit (opcode_num op) n"
  have "take_bit 8 (opcode_num op) = opcode_num op"
    using opcode_num_less [of op] by (simp add: take_bit_eq_mod word_mod_less_divisor mod_word_less)
  with b show "n < 8" by (metis bit_take_bit_iff)
qed

lemma byte_masks: "(0xFF :: u32) = mask 8" "(0xFFFF :: u32) = mask 16"
  by (simp_all add: mask_eq_exp_minus_1)

lemma no_high_bits:
  "8 \<le> n \<Longrightarrow> \<not> bit (opcode_num op) n"
  "8 \<le> n \<Longrightarrow> \<not> bit (a :: u8) n"
  "16 \<le> n \<Longrightarrow> \<not> bit (x :: u16) n"
  using opcode_bits [of op n] by (auto dest: bit_imp_le_length)

lemma bit_bounds:
  "bit (a :: u8) n \<Longrightarrow> n < 8" "bit (x :: u16) n \<Longrightarrow> n < 16"
  by (auto dest: bit_imp_le_length)

lemma decode_sbx [laws]: "INST_SBX (make_asbx op a s) = s"
  by (auto intro!: bit_word_eqI simp: inst_defs make_asbx_def byte_masks bit_simps no_high_bits)

lemma decode_abc [laws]:
  "INST_OP (make_abc op a b c) = opcode_num op" "INST_A (make_abc op a b c) = ucast a"
  "INST_B (make_abc op a b c) = ucast b" "INST_C (make_abc op a b c) = ucast c"
  by (auto intro!: bit_word_eqI simp: inst_defs make_abc_def byte_masks bit_simps no_high_bits
      intro: opcode_bits bit_bounds)

lemma decode_abx [laws]:
  "INST_OP (make_abx op a x) = opcode_num op" "INST_A (make_abx op a x) = ucast a"
  "INST_BX (make_abx op a x) = ucast x"
  by (auto intro!: bit_word_eqI simp: inst_defs make_abx_def byte_masks bit_simps no_high_bits
      intro: opcode_bits bit_bounds)

lemma decode_asbx [laws]:
  "INST_OP (make_asbx op a s) = opcode_num op" "INST_A (make_asbx op a s) = ucast a"
  by (auto intro!: bit_word_eqI simp: inst_defs make_asbx_def byte_masks bit_simps no_high_bits
      intro: opcode_bits bit_bounds)

text \<open>
  instruction_roundtrip. Encoding followed by decoding is the identity on every field of all three instruction
  layouts: the opcode number, the registers, the 16-bit constant index and the signed 16-bit
  jump distance; and the opcode number determines the opcode.
\<close>

theorem instruction_roundtrip:
  "INST_OP (make_abc op a b c) = opcode_num op \<and> INST_A (make_abc op a b c) = ucast a \<and>
   INST_B (make_abc op a b c) = ucast b \<and> INST_C (make_abc op a b c) = ucast c \<and>
   INST_OP (make_abx op a x) = opcode_num op \<and> INST_A (make_abx op a x) = ucast a \<and>
   INST_BX (make_abx op a x) = ucast x \<and>
   INST_OP (make_asbx op a s) = opcode_num op \<and> INST_A (make_asbx op a s) = ucast a \<and>
   sint (INST_SBX (make_asbx op a s)) = sint s \<and>
   opcode_of_num (opcode_num op) = Some op"
  by (simp add: laws)

end
