(* ===== verification/Linear_Probing.thy ===== *)
theory Linear_Probing
  imports Curica_Prelude
begin

text \<open>
  Cyclic distances and the probe invariant of an open-addressing table with linear probing, over
  an arbitrary value type: \<open>E\<close> is the value of an empty slot, \<open>hv\<close> gives the home slot of a value.
  The hash sets of \<open>src/src/alloc.c\<close> are an instance.
\<close>

section \<open>Cyclic distance\<close>

definition cyc :: "nat \<Rightarrow> nat \<Rightarrow> nat \<Rightarrow> nat" where
  "cyc n a b = (if a \<le> b then b - a else b + n - a)"

lemma cyc_less: "a < n \<Longrightarrow> b < n \<Longrightarrow> cyc n a b < n"
  by (auto simp: cyc_def)

lemma cyc_self [simp]: "cyc n a a = 0"
  by (simp add: cyc_def)

lemma cyc_inj: "a < n \<Longrightarrow> b < n \<Longrightarrow> c < n \<Longrightarrow> cyc n a b = cyc n a c \<Longrightarrow> b = c"
  by (auto simp: cyc_def split: if_splits)

lemma cyc_zero_iff: "a < n \<Longrightarrow> b < n \<Longrightarrow> cyc n a b = 0 \<longleftrightarrow> a = b"
  by (auto simp: cyc_def)

lemma cyc_add:
  "a < n \<Longrightarrow> b < n \<Longrightarrow> c < n \<Longrightarrow> cyc n a b \<le> cyc n a c \<Longrightarrow> cyc n a b + cyc n b c = cyc n a c"
  by (auto simp: cyc_def split: if_splits)

lemma cyc_add_wrap:
  "a < n \<Longrightarrow> b < n \<Longrightarrow> c < n \<Longrightarrow> cyc n a c < cyc n a b \<Longrightarrow> cyc n a b + cyc n b c = cyc n a c + n"
  by (auto simp: cyc_def split: if_splits)

definition cyc_next :: "nat \<Rightarrow> nat \<Rightarrow> nat" where
  "cyc_next n i = (if Suc i < n then Suc i else 0)"

lemma cyc_next_less: "i < n \<Longrightarrow> cyc_next n i < n"
  by (auto simp: cyc_next_def)

lemma cyc_next_mod: "i < n \<Longrightarrow> cyc_next n i = Suc i mod n"
  by (cases "Suc i = n") (auto simp: cyc_next_def)

lemma cyc_cyc_next:
  "a < n \<Longrightarrow> i < n \<Longrightarrow> Suc (cyc n a i) < n \<Longrightarrow> cyc n a (cyc_next n i) = Suc (cyc n a i)"
  by (auto simp: cyc_def cyc_next_def split: if_splits)

lemma cyc_from_next:
  "i < n \<Longrightarrow> j < n \<Longrightarrow> i \<noteq> j \<Longrightarrow> Suc (cyc n (cyc_next n i) j) = cyc n i j"
  by (auto simp: cyc_def cyc_next_def split: if_splits)

section \<open>Paths and the probe invariant\<close>

text \<open>\<open>occ_path E t a i\<close>: every slot met when walking from \<open>a\<close> to \<open>i\<close>, \<open>i\<close> excluded, is occupied.\<close>

definition occ_path :: "'a \<Rightarrow> 'a list \<Rightarrow> nat \<Rightarrow> nat \<Rightarrow> bool" where
  "occ_path E t a i \<longleftrightarrow> (\<forall>j < length t. cyc (length t) a j < cyc (length t) a i \<longrightarrow> t ! j \<noteq> E)"

definition probe_inv :: "'a \<Rightarrow> ('a \<Rightarrow> nat) \<Rightarrow> 'a list \<Rightarrow> bool" where
  "probe_inv E hv t \<longleftrightarrow>
     (\<forall>i < length t. t ! i \<noteq> E \<longrightarrow> hv (t ! i) < length t \<and> occ_path E t (hv (t ! i)) i) \<and>
     distinct (filter (\<lambda>v. v \<noteq> E) t)"

definition tab_set :: "'a \<Rightarrow> 'a list \<Rightarrow> 'a set" where
  "tab_set E t = set t - {E}"

definition tab_count :: "'a \<Rightarrow> 'a list \<Rightarrow> nat" where
  "tab_count E t = length (filter (\<lambda>v. v \<noteq> E) t)"

lemma tab_set_iff: "v \<in> tab_set E t \<longleftrightarrow> v \<noteq> E \<and> (\<exists>i < length t. t ! i = v)"
  by (auto simp: tab_set_def in_set_conv_nth)

lemma probe_invD:
  assumes "probe_inv E hv t" and "i < length t" and "t ! i \<noteq> E"
  shows "hv (t ! i) < length t" and "occ_path E t (hv (t ! i)) i"
  using assms by (auto simp: probe_inv_def)

lemma probe_inv_replicate [simp]: "probe_inv E hv (replicate n E)"
  by (simp add: probe_inv_def)

lemma tab_set_replicate [simp]: "tab_set E (replicate n E) = {}"
  by (auto simp: tab_set_def)

lemma tab_count_replicate [simp]: "tab_count E (replicate n E) = 0"
  by (simp add: tab_count_def)

lemma occ_path_empty: "occ_path E t a a"
  by (simp add: occ_path_def)

lemma occ_path_next:
  assumes "occ_path E t a i" and "t ! i \<noteq> E" and "a < length t" "i < length t"
    and "Suc (cyc (length t) a i) < length t"
  shows "occ_path E t a (cyc_next (length t) i)"
  unfolding occ_path_def
proof (intro allI impI)
  fix j assume j: "j < length t" "cyc (length t) a j < cyc (length t) a (cyc_next (length t) i)"
  with assms have "cyc (length t) a j \<le> cyc (length t) a i"
    by (simp add: cyc_cyc_next)
  with assms j show "t ! j \<noteq> E"
    by (metis occ_path_def le_neq_implies_less cyc_inj)
qed

text \<open>A slot that ends a probe for \<open>v\<close> decides whether \<open>v\<close> is in the table.\<close>

lemma probe_miss:
  assumes inv: "probe_inv E hv t" and q: "q < length t" "t ! q = E"
    and path: "hv v < length t"
    and unseen: "\<forall>j < length t. cyc (length t) (hv v) j < cyc (length t) (hv v) q \<longrightarrow> t ! j \<noteq> v"
  shows "v \<notin> tab_set E t"
proof
  assume "v \<in> tab_set E t"
  then obtain i where i: "i < length t" "t ! i = v" "v \<noteq> E"
    by (auto simp: tab_set_iff)
  from probe_invD [OF inv i(1)] i have p: "occ_path E t (hv v) i" by simp
  with q have "\<not> cyc (length t) (hv v) q < cyc (length t) (hv v) i"
    by (auto simp: occ_path_def)
  moreover have "cyc (length t) (hv v) q \<noteq> cyc (length t) (hv v) i"
    using cyc_inj [OF path q(1) i(1)] q i by auto
  ultimately have "cyc (length t) (hv v) i < cyc (length t) (hv v) q" by simp
  with unseen i show False by blast
qed

text \<open>Storing a new value in the first free slot of its path keeps the invariant.\<close>

lemma occ_path_update:
  assumes "occ_path E t a i" and "v \<noteq> E" and "q < length t"
  shows "occ_path E (t[q := v]) a i"
  using assms by (auto simp: occ_path_def nth_list_update)

lemma tab_store:
  assumes d: "distinct (filter (\<lambda>v. v \<noteq> E) t)" and q: "q < length t" "t ! q = E"
    and v: "v \<noteq> E" "v \<notin> tab_set E t"
  shows "distinct (filter (\<lambda>v. v \<noteq> E) (t[q := v]))"
    and "tab_set E (t[q := v]) = insert v (tab_set E t)"
    and "tab_count E (t[q := v]) = Suc (tab_count E t)"
proof -
  have t: "t = take q t @ E # drop (Suc q) t"
    using q by (metis id_take_nth_drop)
  have "distinct (filter (\<lambda>v. v \<noteq> E) (take q t @ E # drop (Suc q) t))"
    using d t by simp
  moreover have "v \<notin> set (take q t)" "v \<notin> set (drop (Suc q) t)"
    using v by (auto simp: tab_set_def dest: in_set_takeD in_set_dropD)
  ultimately show "distinct (filter (\<lambda>v. v \<noteq> E) (t[q := v]))"
    using q(1) by (simp add: upd_conv_take_nth_drop)
  show "tab_set E (t[q := v]) = insert v (tab_set E t)"
    unfolding set_eq_iff tab_set_iff using q v by (auto simp: tab_set_iff nth_list_update)
  show "tab_count E (t[q := v]) = Suc (tab_count E t)"
    using filter_list_update_count [OF q(1), of "\<lambda>v. v \<noteq> E" v] q v
    by (simp add: tab_count_def)
qed

lemma probe_inv_insert:
  assumes inv: "probe_inv E hv t" and q: "q < length t" "t ! q = E"
    and v: "v \<noteq> E" "v \<notin> tab_set E t" "hv v < length t" and path: "occ_path E t (hv v) q"
  shows "probe_inv E hv (t[q := v])"
  unfolding probe_inv_def
proof (intro conjI allI impI)
  fix i assume i: "i < length (t[q := v])" "t[q := v] ! i \<noteq> E"
  show "hv (t[q := v] ! i) < length (t[q := v])"
    using i v q probe_invD(1) [OF inv, of i] by (auto simp: nth_list_update)
  show "occ_path E (t[q := v]) (hv (t[q := v] ! i)) i"
    using i v q path probe_invD(2) [OF inv, of i]
    by (cases "i = q") (auto intro!: occ_path_update)
next
  show "distinct (filter (\<lambda>v. v \<noteq> E) (t[q := v]))"
    using inv q v by (intro tab_store) (auto simp: probe_inv_def)
qed

lemma ex_free_slot:
  assumes "tab_count E t < length t"
  shows "\<exists>e < length t. t ! e = E"
proof (rule ccontr)
  assume "\<not> ?thesis"
  then have "\<forall>v \<in> set t. v \<noteq> E"
    by (metis in_set_conv_nth)
  then have "filter (\<lambda>v. v \<noteq> E) t = t"
    by (simp add: filter_id_conv)
  with assms show False by (simp add: tab_count_def)
qed

lemma card_tab_set:
  assumes "probe_inv E hv t"
  shows "card (tab_set E t) = tab_count E t"
proof -
  have "set (filter (\<lambda>v. v \<noteq> E) t) = tab_set E t"
    by (auto simp: tab_set_def)
  with assms show ?thesis
    by (metis distinct_card probe_inv_def tab_count_def)
qed

section \<open>Removing a value\<close>

lemma tab_remove:
  assumes "distinct (filter (\<lambda>v. v \<noteq> E) t)" and p: "p < length t" "t ! p \<noteq> E"
  shows "distinct (filter (\<lambda>v. v \<noteq> E) (t[p := E]))"
    and "tab_set E (t[p := E]) = tab_set E t - {t ! p}"
    and "Suc (tab_count E (t[p := E])) = tab_count E t"
proof -
  have "distinct (filter (\<lambda>v. v \<noteq> E) (take p t @ t ! p # drop (Suc p) t))"
    using assms by (metis id_take_nth_drop)
  then have d: "distinct (filter (\<lambda>v. v \<noteq> E) (take p t) @ filter (\<lambda>v. v \<noteq> E) (drop (Suc p) t))"
    and n: "t ! p \<notin> set (take p t) \<union> set (drop (Suc p) t)"
    using p by auto
  from d show "distinct (filter (\<lambda>v. v \<noteq> E) (t[p := E]))"
    using p by (simp add: upd_conv_take_nth_drop)
  have "set t = insert (t ! p) (set (take p t) \<union> set (drop (Suc p) t))"
    using p by (metis id_take_nth_drop set_append list.simps(15) Un_insert_right)
  then show "tab_set E (t[p := E]) = tab_set E t - {t ! p}"
    using p n by (auto simp: upd_conv_take_nth_drop tab_set_def)
  show "Suc (tab_count E (t[p := E])) = tab_count E t"
    using filter_list_update_count [OF p(1), of "\<lambda>v. v \<noteq> E" E] p
    by (simp add: tab_count_def)
qed

text \<open>
  The state of the re-hash after a removal. \<open>t0\<close> is the table before it, \<open>p\<close> the freed slot, \<open>u\<close>
  the first free slot after \<open>p\<close>, and \<open>r\<close> the next slot to re-hash: the slots from \<open>r\<close> to \<open>u\<close> are
  untouched and their values may have lost slots of their path between \<open>p\<close> and \<open>r\<close>; every other
  value has its whole path.
\<close>

definition pending :: "nat \<Rightarrow> nat \<Rightarrow> nat \<Rightarrow> nat \<Rightarrow> nat \<Rightarrow> bool" where
  "pending n p u r i \<longleftrightarrow> cyc n p r \<le> cyc n p i \<and> cyc n p i < cyc n p u"

definition rehash_inv ::
  "'a \<Rightarrow> ('a \<Rightarrow> nat) \<Rightarrow> 'a list \<Rightarrow> nat \<Rightarrow> nat \<Rightarrow> nat \<Rightarrow> 'a list \<Rightarrow> bool" where
  "rehash_inv E hv t0 p u r t \<longleftrightarrow>
     length t = length t0 \<and> p < length t \<and> u < length t \<and> r < length t \<and>
     t0 ! u = E \<and> r \<noteq> p \<and> cyc (length t) p r \<le> cyc (length t) p u \<and>
     (\<forall>j < length t. pending (length t) p u r j \<longrightarrow> t ! j = t0 ! j \<and> t0 ! j \<noteq> E) \<and>
     (\<forall>j < length t. t ! j \<noteq> E \<longrightarrow> t0 ! j \<noteq> E \<and> hv (t ! j) < length t) \<and>
     (\<forall>i < length t. t ! i \<noteq> E \<longrightarrow> \<not> pending (length t) p u r i \<longrightarrow> occ_path E t (hv (t ! i)) i) \<and>
     (\<forall>i < length t. pending (length t) p u r i \<longrightarrow>
        (\<forall>j < length t. cyc (length t) (hv (t ! i)) j < cyc (length t) (hv (t ! i)) i \<longrightarrow>
           t ! j \<noteq> E \<or> cyc (length t) p j < cyc (length t) p r)) \<and>
     distinct (filter (\<lambda>v. v \<noteq> E) t) \<and>
     tab_set E t = tab_set E t0 - {t0 ! p} \<and>
     Suc (tab_count E t) = tab_count E t0"

lemma cyc_beyond:
  assumes "a < n" "p < n" "r < n" "u < n" "i < n"
    and "cyc n p r \<le> cyc n p u" "cyc n a r < cyc n a i" "\<not> pending n p u r i"
  shows "cyc n a u \<le> cyc n a i"
proof -
  have ru: "cyc n p r + cyc n r u = cyc n p u"
    using cyc_add assms by blast
  have "cyc n r u \<le> cyc n r i"
  proof (cases "cyc n p r \<le> cyc n p i")
    case True
    then have "cyc n p r + cyc n r i = cyc n p i" using cyc_add assms by blast
    with True ru assms(8) show ?thesis by (simp add: pending_def)
  next
    case False
    then have "cyc n p r + cyc n r i = cyc n p i + n" using cyc_add_wrap assms by simp
    with ru cyc_less [of p n u] assms show ?thesis by linarith
  qed
  moreover have "cyc n a r + cyc n r i = cyc n a i"
    using cyc_add assms by simp
  ultimately have *: "cyc n a r + cyc n r u \<le> cyc n a i" by linarith
  show ?thesis
  proof (cases "cyc n a r \<le> cyc n a u")
    case True
    then show ?thesis using * cyc_add [of a n r u] assms by simp
  next
    case False
    then show ?thesis using * cyc_add_wrap [of a n r u] cyc_less [of a n i] assms by simp
  qed
qed

lemma ex_first_free:
  assumes "e < length t" "t ! e = E" "p < length t" "t ! p \<noteq> E"
  shows "\<exists>u < length t. t ! u = E \<and> u \<noteq> p \<and>
           (\<forall>j < length t. cyc (length t) p j < cyc (length t) p u \<longrightarrow> t ! j \<noteq> E)"
proof -
  let ?P = "\<lambda>d. \<exists>u < length t. t ! u = E \<and> cyc (length t) p u = d"
  have "?P (cyc (length t) p e)" using assms by blast
  then have least: "?P (Least ?P)" by (rule LeastI)
  then obtain u where u: "u < length t" "t ! u = E" "cyc (length t) p u = Least ?P" by blast
  have "t ! j \<noteq> E" if "j < length t" "cyc (length t) p j < cyc (length t) p u" for j
    using that u not_less_Least [of "cyc (length t) p j" ?P] by auto
  with u assms show ?thesis by blast
qed

lemma rehash_inv_init:
  assumes inv: "probe_inv E hv t" and p: "p < length t" "t ! p \<noteq> E"
    and u: "u < length t" "t ! u = E"
    and first: "\<forall>j < length t. cyc (length t) p j < cyc (length t) p u \<longrightarrow> t ! j \<noteq> E"
  shows "rehash_inv E hv t p u (cyc_next (length t) p) (t[p := E])"
proof -
  let ?n = "length t" and ?r = "cyc_next (length t) p"
  have "p \<noteq> u" using p u by auto
  then have n: "Suc 0 < ?n" using p u by auto
  have r: "?r < ?n" "?r \<noteq> p" "cyc ?n p ?r = 1"
    using n p cyc_cyc_next [of p ?n p] by (auto simp: cyc_next_def)
  have pu: "0 < cyc ?n p u" using p u \<open>p \<noteq> u\<close> cyc_zero_iff [of p ?n u] by auto
  have pend: "pending ?n p u ?r i \<Longrightarrow> i < ?n \<Longrightarrow> i \<noteq> p \<and> t ! i \<noteq> E" for i
    using first r by (auto simp: pending_def)
  have notpend: "t ! i \<noteq> E \<Longrightarrow> i < ?n \<Longrightarrow> i \<noteq> p \<Longrightarrow> \<not> pending ?n p u ?r i \<Longrightarrow> cyc ?n p u \<le> cyc ?n p i" for i
    using r p cyc_zero_iff [of p ?n i] by (auto simp: pending_def)
  have path: "occ_path E (t[p := E]) (hv (t ! i)) i"
    if i: "i < ?n" "t ! i \<noteq> E" "i \<noteq> p" "\<not> pending ?n p u ?r i" for i
    unfolding occ_path_def
  proof (intro allI impI)
    fix j assume j: "j < length (t[p := E])"
      "cyc (length (t[p := E])) (hv (t ! i)) j < cyc (length (t[p := E])) (hv (t ! i)) i"
    have h: "hv (t ! i) < ?n" and o: "occ_path E t (hv (t ! i)) i"
      using probe_invD [OF inv] i by auto
    have "j \<noteq> p"
    proof
      assume "j = p"
      with j have "cyc ?n (hv (t ! i)) p < cyc ?n (hv (t ! i)) i" by simp
      then have "cyc ?n (hv (t ! i)) u \<le> cyc ?n (hv (t ! i)) i"
        using cyc_beyond [of "hv (t ! i)" ?n p p u i] h p u i notpend [of i]
        by (simp add: pending_def)
      moreover have "u \<noteq> i" using i u by auto
      ultimately have "cyc ?n (hv (t ! i)) u < cyc ?n (hv (t ! i)) i"
        using cyc_inj [OF h u(1) i(1)] by (metis le_neq_implies_less)
      with o u show False by (auto simp: occ_path_def)
    qed
    with o j show "t[p := E] ! j \<noteq> E" by (auto simp: occ_path_def)
  qed
  have d: "distinct (filter (\<lambda>v. v \<noteq> E) t)" using inv by (simp add: probe_inv_def)
  show ?thesis
    unfolding rehash_inv_def
  proof (intro conjI allI impI)
    fix i assume "i < length (t[p := E])" "t[p := E] ! i \<noteq> E"
      "\<not> pending (length (t[p := E])) p u ?r i"
    then show "occ_path E (t[p := E]) (hv (t[p := E] ! i)) i"
      using path [of i] p by (auto simp: nth_list_update split: if_splits)
  next
    fix i j assume i: "i < length (t[p := E])" "pending (length (t[p := E])) p u ?r i"
      and j: "j < length (t[p := E])"
      "cyc (length (t[p := E])) (hv (t[p := E] ! i)) j < cyc (length (t[p := E])) (hv (t[p := E] ! i)) i"
    then have "occ_path E t (hv (t ! i)) i" using pend [of i] probe_invD [OF inv, of i] by simp
    then show "t[p := E] ! j \<noteq> E \<or> cyc (length (t[p := E])) p j < cyc (length (t[p := E])) p ?r"
      using i j pend [of i] r p by (cases "j = p") (auto simp: occ_path_def)
  qed (use p u r pu pend d probe_invD [OF inv] tab_remove [OF d p] in
      \<open>auto simp: nth_list_update split: if_splits\<close>)
qed

lemma rehash_inv_done:
  assumes "rehash_inv E hv t0 p u u t"
  shows "probe_inv E hv t" and "tab_set E t = tab_set E t0 - {t0 ! p}"
    and "Suc (tab_count E t) = tab_count E t0" and "length t = length t0"
  using assms by (auto simp: rehash_inv_def probe_inv_def pending_def)

lemma rehash_inv_free:
  "rehash_inv E hv t0 p u r t \<Longrightarrow> t ! u = E"
  by (auto simp: rehash_inv_def)

lemma rehash_inv_occupied:
  assumes "rehash_inv E hv t0 p u r t" and "r \<noteq> u"
  shows "pending (length t) p u r r" and "t ! r = t0 ! r" and "t ! r \<noteq> E"
proof -
  have "cyc (length t) p r \<noteq> cyc (length t) p u"
    using assms cyc_inj [of p "length t" r u] by (auto simp: rehash_inv_def)
  then show "pending (length t) p u r r"
    using assms by (auto simp: rehash_inv_def pending_def)
  then show "t ! r = t0 ! r" "t ! r \<noteq> E"
    using assms by (auto simp: rehash_inv_def)
qed

lemma rehash_inv_next:
  assumes inv0: "probe_inv E hv t0" and inv: "rehash_inv E hv t0 p u r t" and ru: "r \<noteq> u"
    and v: "v = t ! r" and q: "q < length t" "t[r := E] ! q = E"
    and qr: "cyc (length t) (hv v) q \<le> cyc (length t) (hv v) r"
    and path: "occ_path E (t[r := E]) (hv v) q"
  shows "rehash_inv E hv t0 p u (cyc_next (length t) r) (t[r := E, q := v])"
proof -
  let ?n = "length t" and ?r = "cyc_next (length t) r" and ?t = "t[r := E, q := v]"
  have b: "length t = length t0" "p < ?n" "u < ?n" "r < ?n" "t0 ! u = E" "r \<noteq> p"
    "cyc ?n p r \<le> cyc ?n p u"
    and same: "\<And>j. j < ?n \<Longrightarrow> pending ?n p u r j \<Longrightarrow> t ! j = t0 ! j \<and> t0 ! j \<noteq> E"
    and sub: "\<And>j. j < ?n \<Longrightarrow> t ! j \<noteq> E \<Longrightarrow> t0 ! j \<noteq> E \<and> hv (t ! j) < ?n"
    and whole: "\<And>i. i < ?n \<Longrightarrow> t ! i \<noteq> E \<Longrightarrow> \<not> pending ?n p u r i \<Longrightarrow> occ_path E t (hv (t ! i)) i"
    and part: "\<And>i j. i < ?n \<Longrightarrow> pending ?n p u r i \<Longrightarrow> j < ?n \<Longrightarrow>
      cyc ?n (hv (t ! i)) j < cyc ?n (hv (t ! i)) i \<Longrightarrow> t ! j \<noteq> E \<or> cyc ?n p j < cyc ?n p r"
    and cont: "distinct (filter (\<lambda>v. v \<noteq> E) t)" "tab_set E t = tab_set E t0 - {t0 ! p}"
      "Suc (tab_count E t) = tab_count E t0"
    using inv by (auto simp: rehash_inv_def)
  note occ = rehash_inv_occupied [OF inv ru]
  have vE: "v \<noteq> E" and hv: "hv v < ?n" using occ v sub [of r] b by auto
  have ltu: "cyc ?n p r < cyc ?n p u" using occ by (simp add: pending_def)
  then have r': "cyc ?n p ?r = Suc (cyc ?n p r)"
    using b cyc_less [of p ?n u] by (intro cyc_cyc_next) auto
  have r'b: "?r < ?n" using b by (simp add: cyc_next_less)
  have r'p: "?r \<noteq> p" using r' by (metis cyc_self Zero_not_Suc)
  have pend': "pending ?n p u ?r i \<longleftrightarrow> pending ?n p u r i \<and> i \<noteq> r" if "i < ?n" for i
  proof -
    have "cyc ?n p i = cyc ?n p r \<longleftrightarrow> i = r"
      using cyc_inj [of p ?n i r] that b by auto
    then show ?thesis using r' ltu unfolding pending_def by linarith
  qed
  have qE: "q = r \<or> t ! q = E" using q b by (auto simp: nth_list_update split: if_splits)
  have qnp: "\<not> pending ?n p u ?r q" using qE same [of q] pend' [of q] q by auto
  have q0: "t0 ! q \<noteq> E"
  proof (cases "q = r")
    case True
    then show ?thesis using occ by simp
  next
    case False
    then have "cyc ?n (hv v) q < cyc ?n (hv v) r"
      using qr cyc_inj [OF hv q(1) b(4)] by (metis le_neq_implies_less)
    moreover have "occ_path E t0 (hv v) r"
      using probe_invD(2) [OF inv0, of r] occ v b by simp
    ultimately show ?thesis using q b by (auto simp: occ_path_def)
  qed
  have tE: "?t ! j \<noteq> E" if "j < ?n" "t ! j \<noteq> E" "j \<noteq> r" for j
    using that vE q by (auto simp: nth_list_update)
  have old: "?t ! i = t ! i \<and> i \<noteq> r" if "i < ?n" "?t ! i \<noteq> E" "i \<noteq> q" for i
    using that b by (auto simp: nth_list_update split: if_splits)
  have path_q: "occ_path E ?t (hv v) q"
    using occ_path_update [OF path vE] q by simp
  have path_i: "occ_path E ?t (hv (t ! i)) i"
    if i: "i < ?n" "t ! i \<noteq> E" "i \<noteq> r" "\<not> pending ?n p u r i" for i
    unfolding occ_path_def
  proof (intro allI impI)
    fix j assume j: "j < length ?t" "cyc (length ?t) (hv (t ! i)) j < cyc (length ?t) (hv (t ! i)) i"
    have o: "occ_path E t (hv (t ! i)) i" and h: "hv (t ! i) < ?n"
      using whole sub i by auto
    have "j \<noteq> r"
    proof
      assume "j = r"
      with j have "cyc ?n (hv (t ! i)) r < cyc ?n (hv (t ! i)) i" by simp
      then have "cyc ?n (hv (t ! i)) u \<le> cyc ?n (hv (t ! i)) i"
        using cyc_beyond [OF h b(2,4,3) i(1) b(7)] i by simp
      moreover have "u \<noteq> i" using i sub b by auto
      ultimately have "cyc ?n (hv (t ! i)) u < cyc ?n (hv (t ! i)) i"
        using cyc_inj [OF h b(3) i(1)] by (metis le_neq_implies_less)
      with o b(3,5) sub [of u] show False by (auto simp: occ_path_def)
    qed
    with o j show "?t ! j \<noteq> E" using tE [of j] by (auto simp: occ_path_def)
  qed
  have c1: "distinct (filter (\<lambda>v. v \<noteq> E) (t[r := E]))"
    "tab_set E (t[r := E]) = tab_set E t - {v}" "Suc (tab_count E (t[r := E])) = tab_count E t"
    using tab_remove [OF cont(1) b(4) occ(3)] v by auto
  have c2: "distinct (filter (\<lambda>v. v \<noteq> E) ?t)" "tab_set E ?t = insert v (tab_set E (t[r := E]))"
    "tab_count E ?t = Suc (tab_count E (t[r := E]))"
    using tab_store [OF c1(1), of q v] q vE c1(2) by auto
  have vt: "v \<in> tab_set E t" using vE v b by (auto simp: tab_set_def)
  show ?thesis
    unfolding rehash_inv_def
  proof (intro conjI allI impI)
    fix i assume i: "i < length ?t" "?t ! i \<noteq> E" "\<not> pending (length ?t) p u ?r i"
    show "occ_path E ?t (hv (?t ! i)) i"
    proof (cases "i = q")
      case True
      then show ?thesis using path_q q by simp
    next
      case False
      then show ?thesis using i old [of i] pend' [of i] path_i [of i] by auto
    qed
  next
    fix i j assume i: "i < length ?t" "pending (length ?t) p u ?r i" and j: "j < length ?t"
      "cyc (length ?t) (hv (?t ! i)) j < cyc (length ?t) (hv (?t ! i)) i"
    have "i \<noteq> q" using i qnp by auto
    with i have ti: "?t ! i = t ! i" and "pending ?n p u r i" using pend' [of i] by auto
    with part [of i j] i j have "t ! j \<noteq> E \<or> cyc ?n p j < cyc ?n p r" by simp
    then show "?t ! j \<noteq> E \<or> cyc (length ?t) p j < cyc (length ?t) p ?r"
      using tE [of j] j r' by auto
  next
    fix j assume j: "j < length ?t" "pending (length ?t) p u ?r j"
    then have "j \<noteq> q" using qnp by auto
    with j pend' [of j] same [of j] show "?t ! j = t0 ! j" "t0 ! j \<noteq> E" by auto
  next
    fix j assume j: "j < length ?t" "?t ! j \<noteq> E"
    then show "t0 ! j \<noteq> E" "hv (?t ! j) < length ?t"
      using q0 hv q sub [of j] old [of j] by (cases "j = q"; auto)+
  qed (use b r' ltu r'b r'p c1 c2 vt cont in \<open>auto simp: insert_absorb\<close>)
qed

end
