(* ===== verification/JS_Set.thy ===== *)
theory JS_Set
  imports Value_Box Linear_Probing
begin

text \<open>
  Model of the hash sets of \<open>src/src/alloc.c\<close> (\<open>set_hash_value\<close>, \<open>create_set\<close>,
  \<open>set_add_internal\<close>, \<open>set_resize\<close>, \<open>set_add\<close>, \<open>set_has\<close>, \<open>set_delete\<close>). The slot array that
  \<open>set->elements\<close> points to is a list; an empty slot holds \<open>VAL_UNDEFINED\<close>. Counters and indices
  are 32-bit words and wrap. A probe loop returns \<open>None\<close> when it reads outside the array or never
  ends, so every theorem that gives \<open>Some\<close> is also a termination theorem.
\<close>

section \<open>State and operations\<close>

record JSSet =
  count :: u32
  capacity :: u32
  elements :: "Value list"

definition set_hash_value :: "Value \<Rightarrow> u32" where
  "set_hash_value v =
     (let x = v;
          x = x XOR drop_bit 30 x;
          x = x * 0xbf58476d1ce4e5b9;
          x = x XOR drop_bit 27 x;
          x = x * 0x94d049bb133111eb;
          x = x XOR drop_bit 31 x
      in ucast x)"

definition create_set :: JSSet where
  "create_set = \<lparr>count = 0, capacity = 8, elements = replicate 8 VAL_UNDEFINED\<rparr>"

partial_function (option) set_add_loop ::
  "Value list \<Rightarrow> u32 \<Rightarrow> Value \<Rightarrow> u32 \<Rightarrow> (Value list \<times> bool) option" where
  "set_add_loop table mask' val idx =
     (if \<not> unat idx < length table then None
      else if table ! unat idx \<noteq> VAL_UNDEFINED then
        (if table ! unat idx = val then Some (table, False)
         else set_add_loop table mask' val ((idx + 1) AND mask'))
      else Some (table[unat idx := val], True))"

definition set_add_internal :: "Value list \<Rightarrow> u32 \<Rightarrow> Value \<Rightarrow> (Value list \<times> bool) option" where
  "set_add_internal table cap val =
     (let h = set_hash_value val; mask' = cap - 1; idx = h AND mask'
      in set_add_loop table mask' val idx)"

text \<open>The loop of \<open>set_resize\<close> over the old slots.\<close>

fun set_reinsert :: "Value list \<Rightarrow> Value list \<Rightarrow> u32 \<Rightarrow> Value list option" where
  "set_reinsert [] table cap = Some table"
| "set_reinsert (val # vals) table cap =
     (if val \<noteq> VAL_UNDEFINED then
        (case set_add_internal table cap val of
           None \<Rightarrow> None
         | Some (table', _) \<Rightarrow> set_reinsert vals table' cap)
      else set_reinsert vals table cap)"

definition set_resize :: "JSSet \<Rightarrow> JSSet option" where
  "set_resize s =
     (let new_cap = capacity s * 2
      in map_option (\<lambda>table. s\<lparr>capacity := new_cap, elements := table\<rparr>)
           (set_reinsert (take (unat (capacity s)) (elements s))
              (replicate (unat new_cap) VAL_UNDEFINED) new_cap))"

definition set_add :: "JSSet \<Rightarrow> Value \<Rightarrow> (JSSet \<times> bool) option" where
  "set_add s val =
     (case (if (count s + 1) * 10 > capacity s * 7 then set_resize s else Some s) of
        None \<Rightarrow> None
      | Some s' \<Rightarrow>
          (case set_add_internal (elements s') (capacity s') val of
             None \<Rightarrow> None
           | Some (table, added) \<Rightarrow>
               if added then Some (s'\<lparr>elements := table, count := count s' + 1\<rparr>, True)
               else Some (s'\<lparr>elements := table\<rparr>, False)))"

partial_function (option) set_has_loop ::
  "Value list \<Rightarrow> u32 \<Rightarrow> Value \<Rightarrow> u32 \<Rightarrow> bool option" where
  "set_has_loop table mask' val idx =
     (if \<not> unat idx < length table then None
      else if table ! unat idx \<noteq> VAL_UNDEFINED then
        (if table ! unat idx = val then Some True
         else set_has_loop table mask' val ((idx + 1) AND mask'))
      else Some False)"

definition set_has :: "JSSet \<Rightarrow> Value \<Rightarrow> bool option" where
  "set_has s val =
     (let h = set_hash_value val; mask' = capacity s - 1; idx = h AND mask'
      in set_has_loop (elements s) mask' val idx)"

text \<open>The inner loop of \<open>set_delete\<close>, which re-hashes the rest of the cluster.\<close>

partial_function (option) set_rehash_loop ::
  "Value list \<Rightarrow> u32 \<Rightarrow> u32 \<Rightarrow> Value list option" where
  "set_rehash_loop table cap rehash_idx =
     (if \<not> unat rehash_idx < length table then None
      else if table ! unat rehash_idx \<noteq> VAL_UNDEFINED then
        (case set_add_internal (table[unat rehash_idx := VAL_UNDEFINED]) cap
                (table ! unat rehash_idx) of
           None \<Rightarrow> None
         | Some (table', _) \<Rightarrow> set_rehash_loop table' cap ((rehash_idx + 1) AND (cap - 1)))
      else Some table)"

partial_function (option) set_delete_loop ::
  "JSSet \<Rightarrow> Value \<Rightarrow> u32 \<Rightarrow> (JSSet \<times> bool) option" where
  "set_delete_loop s val idx =
     (if \<not> unat idx < length (elements s) then None
      else if elements s ! unat idx \<noteq> VAL_UNDEFINED then
        (if elements s ! unat idx = val then
           (case set_rehash_loop ((elements s)[unat idx := VAL_UNDEFINED]) (capacity s)
                   ((idx + 1) AND (capacity s - 1)) of
              None \<Rightarrow> None
            | Some table \<Rightarrow> Some (s\<lparr>elements := table, count := count s - 1\<rparr>, True))
         else set_delete_loop s val ((idx + 1) AND (capacity s - 1)))
      else Some (s, False))"

definition set_delete :: "JSSet \<Rightarrow> Value \<Rightarrow> (JSSet \<times> bool) option" where
  "set_delete s val =
     (let h = set_hash_value val; mask' = capacity s - 1; idx = h AND mask'
      in set_delete_loop s val idx)"

section \<open>Invariant and abstraction\<close>

definition home :: "nat \<Rightarrow> Value \<Rightarrow> nat" where
  "home n v = unat (set_hash_value v) mod n"

text \<open>A slot array of a power of two slots, at most \<open>2 ^ 28\<close>, with a free slot.\<close>

definition table_ok :: "u32 \<Rightarrow> Value list \<Rightarrow> bool" where
  "table_ok cap table \<longleftrightarrow>
     (\<exists>k \<le> 28. cap = 2 ^ k \<and> length table = 2 ^ k) \<and>
     probe_inv VAL_UNDEFINED (home (length table)) table \<and>
     tab_count VAL_UNDEFINED table < length table"

definition set_inv :: "JSSet \<Rightarrow> bool" where
  "set_inv s \<longleftrightarrow>
     table_ok (capacity s) (elements s) \<and> 8 \<le> length (elements s) \<and>
     unat (count s) = tab_count VAL_UNDEFINED (elements s) \<and>
     unat (count s) * 10 \<le> length (elements s) * 7"

definition set_abs :: "JSSet \<Rightarrow> Value set" where
  "set_abs s = tab_set VAL_UNDEFINED (elements s)"

section \<open>The probe loops\<close>

lemma word_cyc_next:
  assumes "cap = (2 :: u32) ^ k" "k \<le> 28" "unat idx < 2 ^ k"
  shows "unat ((idx + 1) AND (cap - 1)) = cyc_next (2 ^ k) (unat idx)"
proof -
  have "(2 :: nat) ^ k \<le> 2 ^ 28" using assms(2) by (rule power_increasing) simp
  then have "unat (idx + 1) = Suc (unat idx)"
    using assms(3) by (simp add: unat_word_ariths)
  then show ?thesis
    using assms by (simp add: and_mask_of_power_two cyc_next_mod)
qed

lemma word_home:
  assumes "cap = (2 :: u32) ^ k" "k \<le> 28"
  shows "unat (set_hash_value v AND (cap - 1)) = home (2 ^ k) v"
  using assms by (simp add: and_mask_of_power_two home_def)

lemma home_less: "home (2 ^ k) v < 2 ^ k"
  by (simp add: home_def)

text \<open>What a probe from the home slot of \<open>v\<close> finds: the first slot that is free or holds \<open>v\<close>.\<close>

definition probe_end :: "Value list \<Rightarrow> Value \<Rightarrow> nat \<Rightarrow> bool" where
  "probe_end table v q \<longleftrightarrow>
     (let n = length table in
      q < n \<and> occ_path VAL_UNDEFINED table (home n v) q \<and>
      (table ! q = v \<or> table ! q = VAL_UNDEFINED) \<and>
      (\<forall>j < n. cyc n (home n v) j < cyc n (home n v) q \<longrightarrow> table ! j \<noteq> v))"

lemma ex_probe_end:
  assumes "e < length table" "table ! e = VAL_UNDEFINED" "length table = 2 ^ k"
  shows "\<exists>q. probe_end table v q \<and>
    cyc (length table) (home (length table) v) q \<le> cyc (length table) (home (length table) v) e"
proof -
  let ?n = "length table" and ?h = "home (length table) v"
  let ?P = "\<lambda>d. \<exists>q < ?n. (table ! q = v \<or> table ! q = VAL_UNDEFINED) \<and> cyc ?n ?h q = d"
  have e: "?P (cyc ?n ?h e)" using assms by blast
  then have "?P (Least ?P)" by (rule LeastI)
  then obtain q where q: "q < ?n" "table ! q = v \<or> table ! q = VAL_UNDEFINED"
    "cyc ?n ?h q = Least ?P" by blast
  have "\<not> ?P (cyc ?n ?h j)" if "cyc ?n ?h j < cyc ?n ?h q" for j
    using that q(3) not_less_Least [of "cyc ?n ?h j" ?P] by simp
  then have "probe_end table v q"
    using q by (auto simp: probe_end_def occ_path_def Let_def)
  moreover have "Least ?P \<le> cyc ?n ?h e" using e by (rule Least_le)
  ultimately show ?thesis using q by auto
qed

text \<open>
  Induction along a probe: a statement about a slot index holds at every index between the home
  slot and the end \<open>q\<close> of the probe if it holds at \<open>q\<close> and is passed from the next index to an
  occupied one that does not hold \<open>v\<close>.
\<close>

lemma probe_induct [consumes 5, case_names stop step]:
  assumes cap: "cap = (2 :: u32) ^ k" "k \<le> 28" "length table = 2 ^ k"
    and q: "probe_end table v q"
    and idx: "unat idx < 2 ^ k \<and>
      cyc (2 ^ k) (home (2 ^ k) v) (unat idx) \<le> cyc (2 ^ k) (home (2 ^ k) v) q"
    and stop: "\<And>idx. unat idx = q \<Longrightarrow> q < length table \<Longrightarrow> P idx"
    and step: "\<And>idx. unat idx < length table \<Longrightarrow> table ! unat idx \<noteq> VAL_UNDEFINED \<Longrightarrow>
      table ! unat idx \<noteq> v \<Longrightarrow> P ((idx + 1) AND (cap - 1)) \<Longrightarrow> P idx"
  shows "P idx"
  using idx
proof (induction "cyc (2 ^ k) (home (2 ^ k) v) q - cyc (2 ^ k) (home (2 ^ k) v) (unat idx)"
    arbitrary: idx rule: less_induct)
  case less
  let ?n = "2 ^ k :: nat" and ?h = "home (2 ^ k) v" and ?idx = "(idx + 1) AND (cap - 1)"
  have qn: "q < ?n" using q cap by (simp add: probe_end_def Let_def)
  show ?case
  proof (cases "unat idx = q")
    case True
    then show ?thesis using stop qn cap by simp
  next
    case False
    then have lt: "cyc ?n ?h (unat idx) < cyc ?n ?h q"
      using less.prems cyc_inj [OF home_less _ qn] by (metis le_neq_implies_less)
    then have occ: "table ! unat idx \<noteq> VAL_UNDEFINED" "table ! unat idx \<noteq> v"
      using q cap less.prems by (auto simp: probe_end_def occ_path_def Let_def)
    have i: "unat ?idx = cyc_next ?n (unat idx)" using word_cyc_next cap less.prems by blast
    have "cyc ?n ?h (unat ?idx) = Suc (cyc ?n ?h (unat idx))"
      unfolding i using lt cyc_less [OF home_less [of k v] qn] less.prems
      by (intro cyc_cyc_next) (auto simp: home_less)
    with lt less.prems have "P ?idx"
      by (intro less.hyps) (auto simp: i cyc_next_less)
    then show ?thesis
      by (rule step [rotated 3]) (use occ less.prems cap in auto)
  qed
qed

lemma probe_start:
  assumes "cap = (2 :: u32) ^ k" "k \<le> 28"
  shows "unat (set_hash_value v AND (cap - 1)) < 2 ^ k \<and>
    cyc (2 ^ k) (home (2 ^ k) v) (unat (set_hash_value v AND (cap - 1)))
      \<le> cyc (2 ^ k) (home (2 ^ k) v) q"
  unfolding word_home [OF assms] using home_less [of k v] by simp

lemma probe_from_home:
  assumes cap: "cap = (2 :: u32) ^ k" "k \<le> 28" "length table = 2 ^ k"
    and q: "probe_end table v q"
    and stop: "\<And>idx. unat idx = q \<Longrightarrow> q < length table \<Longrightarrow> P idx"
    and step: "\<And>idx. unat idx < length table \<Longrightarrow> table ! unat idx \<noteq> VAL_UNDEFINED \<Longrightarrow>
      table ! unat idx \<noteq> v \<Longrightarrow> P ((idx + 1) AND (cap - 1)) \<Longrightarrow> P idx"
  shows "P (set_hash_value v AND (cap - 1))"
  by (rule probe_induct [OF cap q probe_start [OF cap(1,2)] stop step])

lemma set_add_internal_eq:
  assumes "cap = (2 :: u32) ^ k" "k \<le> 28" "length table = 2 ^ k" and q: "probe_end table v q"
  shows "set_add_internal table cap v =
    (if table ! q = VAL_UNDEFINED then Some (table[q := v], True) else Some (table, False))"
proof -
  let ?P = "\<lambda>idx. set_add_loop table (cap - 1) v idx =
    (if table ! q = VAL_UNDEFINED then Some (table[q := v], True) else Some (table, False))"
  have "?P (set_hash_value v AND (cap - 1))"
    using q by (intro probe_from_home [where P = ?P, OF assms]; subst set_add_loop.simps)
      (auto simp: probe_end_def Let_def)
  then show ?thesis by (simp add: set_add_internal_def)
qed

lemma set_has_eq:
  assumes "capacity s = (2 :: u32) ^ k" "k \<le> 28" "length (elements s) = 2 ^ k"
    and q: "probe_end (elements s) v q"
  shows "set_has s v = Some (elements s ! q \<noteq> VAL_UNDEFINED)"
proof -
  let ?P = "\<lambda>idx. set_has_loop (elements s) (capacity s - 1) v idx =
    Some (elements s ! q \<noteq> VAL_UNDEFINED)"
  have "?P (set_hash_value v AND (capacity s - 1))"
    using q by (intro probe_from_home [where P = ?P, OF assms]; subst set_has_loop.simps)
      (auto simp: probe_end_def Let_def)
  then show ?thesis by (simp add: set_has_def)
qed

lemma set_delete_eq:
  assumes "capacity s = (2 :: u32) ^ k" "k \<le> 28" "length (elements s) = 2 ^ k"
    and q: "probe_end (elements s) v q"
  shows "set_delete s v =
    (if elements s ! q = VAL_UNDEFINED then Some (s, False)
     else map_option (\<lambda>table. (s\<lparr>elements := table, count := count s - 1\<rparr>, True))
       (set_rehash_loop ((elements s)[q := VAL_UNDEFINED]) (capacity s)
          ((word_of_nat q + 1) AND (capacity s - 1))))"
proof -
  let ?P = "\<lambda>idx. set_delete_loop s v idx =
    (if elements s ! q = VAL_UNDEFINED then Some (s, False)
     else map_option (\<lambda>table. (s\<lparr>elements := table, count := count s - 1\<rparr>, True))
       (set_rehash_loop ((elements s)[q := VAL_UNDEFINED]) (capacity s)
          ((word_of_nat q + 1) AND (capacity s - 1))))"
  have "?P (set_hash_value v AND (capacity s - 1))"
    using q by (intro probe_from_home [where P = ?P, OF assms]; subst set_delete_loop.simps)
      (auto simp: probe_end_def Let_def split: option.splits)
  then show ?thesis by (simp add: set_delete_def)
qed

section \<open>The operations on the table\<close>

lemma probe_end_member:
  assumes "table_ok cap table" "probe_end table v q" "v \<noteq> VAL_UNDEFINED"
  shows "v \<in> tab_set VAL_UNDEFINED table \<longleftrightarrow> table ! q \<noteq> VAL_UNDEFINED"
proof
  assume m: "v \<in> tab_set VAL_UNDEFINED table"
  obtain k where "length table = 2 ^ k" using assms(1) by (auto simp: table_ok_def)
  then show "table ! q \<noteq> VAL_UNDEFINED"
    using probe_miss [of VAL_UNDEFINED "home (length table)" table q v] assms m home_less
    by (auto simp: table_ok_def probe_end_def Let_def)
next
  assume "table ! q \<noteq> VAL_UNDEFINED"
  then show "v \<in> tab_set VAL_UNDEFINED table"
    using assms by (auto simp: probe_end_def tab_set_iff Let_def)
qed

lemma table_probe:
  assumes "table_ok cap table"
  shows "\<exists>q. probe_end table v q"
  using assms ex_free_slot ex_probe_end unfolding table_ok_def by metis

lemma set_add_internal_spec:
  assumes ok: "table_ok cap table" and v: "v \<noteq> VAL_UNDEFINED"
    and room: "Suc (tab_count VAL_UNDEFINED table) < length table"
  shows "\<exists>table'. set_add_internal table cap v
      = Some (table', v \<notin> tab_set VAL_UNDEFINED table) \<and>
    table_ok cap table' \<and> length table' = length table \<and>
    tab_set VAL_UNDEFINED table' = insert v (tab_set VAL_UNDEFINED table)"
proof -
  from ok obtain k where k: "k \<le> 28" "cap = 2 ^ k" "length table = 2 ^ k"
    by (auto simp: table_ok_def)
  obtain q where q: "probe_end table v q" using table_probe [OF ok] by blast
  note mem = probe_end_member [OF ok q v]
  note eq = set_add_internal_eq [OF k(2,1,3) q]
  show ?thesis
  proof (cases "table ! q = VAL_UNDEFINED")
    case False
    with eq mem ok show ?thesis by (auto simp: insert_absorb)
  next
    case True
    have inv: "probe_inv VAL_UNDEFINED (home (length table)) table"
      using ok by (simp add: table_ok_def)
    have "q < length table" "occ_path VAL_UNDEFINED table (home (length table) v) q"
      "home (length table) v < length table"
      using q k home_less by (auto simp: probe_end_def Let_def)
    with True mem v inv have "probe_inv VAL_UNDEFINED (home (length table)) (table[q := v])"
      "tab_set VAL_UNDEFINED (table[q := v]) = insert v (tab_set VAL_UNDEFINED table)"
      "tab_count VAL_UNDEFINED (table[q := v]) = Suc (tab_count VAL_UNDEFINED table)"
      using probe_inv_insert [OF inv] tab_store [of VAL_UNDEFINED table q v]
      by (auto simp: probe_inv_def [of _ _ table])
    with eq True mem room k show ?thesis
      by (auto simp: table_ok_def)
  qed
qed

lemma rehash_step:
  assumes k: "k \<le> 28" "cap = (2 :: u32) ^ k" "length t = 2 ^ k"
    and inv0: "probe_inv VAL_UNDEFINED (home (2 ^ k)) t0"
    and inv: "rehash_inv VAL_UNDEFINED (home (2 ^ k)) t0 p u r t" and ru: "r \<noteq> u"
  shows "\<exists>t'. set_add_internal (t[r := VAL_UNDEFINED]) cap (t ! r) = Some (t', True) \<and>
    rehash_inv VAL_UNDEFINED (home (2 ^ k)) t0 p u (cyc_next (2 ^ k) r) t'"
proof -
  let ?t = "t[r := VAL_UNDEFINED]" and ?v = "t ! r"
  have r: "r < length t" and d: "distinct (filter (\<lambda>v. v \<noteq> VAL_UNDEFINED) t)"
    using inv by (auto simp: rehash_inv_def)
  note occ = rehash_inv_occupied [OF inv ru]
  obtain q where q: "probe_end ?t ?v q"
    and qr: "cyc (length t) (home (length t) ?v) q \<le> cyc (length t) (home (length t) ?v) r"
    using ex_probe_end [of r ?t k ?v] r k by auto
  have "?v \<notin> tab_set VAL_UNDEFINED ?t"
    using tab_remove(2) [OF d r occ(3)] by simp
  then have qE: "?t ! q = VAL_UNDEFINED" and qn: "q < length t"
    using q occ(3) by (auto simp: probe_end_def tab_set_iff Let_def)
  have "rehash_inv VAL_UNDEFINED (home (2 ^ k)) t0 p u (cyc_next (length t) r) (?t[q := ?v])"
    using q qE qn qr k occ by (intro rehash_inv_next [OF inv0 inv ru refl])
      (auto simp: probe_end_def Let_def)
  with set_add_internal_eq [OF k(2,1) _ q] qE k show ?thesis by auto
qed

lemma set_rehash_loop_spec:
  assumes k: "k \<le> 28" "cap = (2 :: u32) ^ k" "length t0 = 2 ^ k"
    and inv0: "probe_inv VAL_UNDEFINED (home (2 ^ k)) t0"
    and inv: "rehash_inv VAL_UNDEFINED (home (2 ^ k)) t0 p u (unat r) t"
  shows "\<exists>t'. set_rehash_loop t cap r = Some t' \<and>
    rehash_inv VAL_UNDEFINED (home (2 ^ k)) t0 p u u t'"
  using inv
proof (induction "cyc (2 ^ k) p u - cyc (2 ^ k) p (unat r)" arbitrary: r t rule: less_induct)
  case less
  note inv = less.prems
  have b: "length t = 2 ^ k" "p < 2 ^ k" "u < 2 ^ k" "unat r < 2 ^ k"
    "cyc (2 ^ k) p (unat r) \<le> cyc (2 ^ k) p u"
    using inv k by (auto simp: rehash_inv_def)
  show ?case
  proof (cases "unat r = u")
    case True
    with inv b show ?thesis
      using rehash_inv_free [OF inv] by (subst set_rehash_loop.simps) auto
  next
    case False
    let ?r = "(r + 1) AND (cap - 1)"
    obtain t' where t': "set_add_internal (t[unat r := VAL_UNDEFINED]) cap (t ! unat r) = Some (t', True)"
      "rehash_inv VAL_UNDEFINED (home (2 ^ k)) t0 p u (cyc_next (2 ^ k) (unat r)) t'"
      using rehash_step [OF k(1,2) b(1) inv0 inv False] by blast
    have i: "unat ?r = cyc_next (2 ^ k) (unat r)" using word_cyc_next k b by blast
    have lt: "cyc (2 ^ k) p (unat r) < cyc (2 ^ k) p u"
      using rehash_inv_occupied(1) [OF inv False] b by (simp add: pending_def)
    then have "cyc (2 ^ k) p (unat ?r) = Suc (cyc (2 ^ k) p (unat r))"
      unfolding i using b cyc_less [of p "2 ^ k" u] by (intro cyc_cyc_next) auto
    then have "\<exists>t''. set_rehash_loop t' cap ?r = Some t'' \<and>
        rehash_inv VAL_UNDEFINED (home (2 ^ k)) t0 p u u t''"
      using lt t'(2) by (intro less.hyps) (auto simp: i)
    moreover have "set_rehash_loop t cap r = set_rehash_loop t' cap ?r"
      using t'(1) b rehash_inv_occupied(3) [OF inv False] by (subst set_rehash_loop.simps) simp
    ultimately show ?thesis by simp
  qed
qed

lemma set_reinsert_spec:
  assumes "table_ok cap table"
    and "tab_count VAL_UNDEFINED table + length (filter (\<lambda>v. v \<noteq> VAL_UNDEFINED) vals) < length table"
  shows "\<exists>table'. set_reinsert vals table cap = Some table' \<and> table_ok cap table' \<and>
    length table' = length table \<and>
    tab_set VAL_UNDEFINED table' = tab_set VAL_UNDEFINED table \<union> (set vals - {VAL_UNDEFINED})"
  using assms
proof (induction vals arbitrary: table)
  case Nil
  then show ?case by simp
next
  case (Cons v vals)
  show ?case
  proof (cases "v = VAL_UNDEFINED")
    case True
    with Cons show ?thesis by simp
  next
    case False
    then obtain t' where t': "set_add_internal table cap v
        = Some (t', v \<notin> tab_set VAL_UNDEFINED table)" "table_ok cap t'"
      "length t' = length table" "tab_set VAL_UNDEFINED t' = insert v (tab_set VAL_UNDEFINED table)"
      using set_add_internal_spec [of cap table v] Cons.prems by auto
    have "tab_count VAL_UNDEFINED t' \<le> Suc (tab_count VAL_UNDEFINED table)"
      using t' Cons.prems(1) card_tab_set [of VAL_UNDEFINED _ t'] card_tab_set [of VAL_UNDEFINED _ table]
        card_insert_le_m1 [of "Suc (tab_count VAL_UNDEFINED table)" "tab_set VAL_UNDEFINED table" v]
      by (auto simp: table_ok_def)
    then have "\<exists>table'. set_reinsert vals t' cap = Some table' \<and> table_ok cap table' \<and>
        length table' = length t' \<and>
        tab_set VAL_UNDEFINED table' = tab_set VAL_UNDEFINED t' \<union> (set vals - {VAL_UNDEFINED})"
      using Cons.prems False t' by (intro Cons.IH) auto
    with False t' show ?thesis by auto
  qed
qed

section \<open>The set operations\<close>

text \<open>\<open>set_fits s n\<close>: \<open>n\<close> further insertions stay within the largest table, \<open>2 ^ 28\<close> slots.\<close>

definition set_fits :: "JSSet \<Rightarrow> nat \<Rightarrow> bool" where
  "set_fits s n \<longleftrightarrow> (unat (count s) + n) * 10 \<le> 7 * 2 ^ 28"

lemma set_invE:
  assumes "set_inv s"
  obtains k where "k \<le> 28" "capacity s = 2 ^ k" "length (elements s) = 2 ^ k" "3 \<le> k"
proof -
  from assms obtain k where k: "k \<le> 28" "capacity s = 2 ^ k" "length (elements s) = 2 ^ k"
    by (auto simp: set_inv_def table_ok_def)
  have "3 \<le> k"
  proof (rule ccontr)
    assume "\<not> 3 \<le> k"
    then have "(2 :: nat) ^ k \<le> 2 ^ 2" by (intro power_increasing) auto
    with k assms show False by (simp add: set_inv_def)
  qed
  with k that show thesis by blast
qed

lemma unat_two_power: "k \<le> 28 \<Longrightarrow> unat ((2 :: u32) ^ k) = 2 ^ k"
proof -
  assume "k \<le> 28"
  then have "(2 :: nat) ^ k < 2 ^ 32" by (intro power_strict_increasing) auto
  moreover have "(2 :: u32) ^ k = word_of_nat (2 ^ k)" by simp
  ultimately show ?thesis by (simp only: unat_of_nat) simp
qed

lemma load_test:
  assumes "set_inv s"
  shows "(count s + 1) * 10 > capacity s * 7 \<longleftrightarrow> Suc (unat (count s)) * 10 > length (elements s) * 7"
proof -
  from assms obtain k where k: "k \<le> 28" "capacity s = 2 ^ k" "length (elements s) = 2 ^ k"
    by (rule set_invE)
  have p: "(2 :: nat) ^ k \<le> 2 ^ 28" using k(1) by (rule power_increasing) simp
  have c: "unat (count s) * 10 \<le> 2 ^ k * 7" using assms k by (simp add: set_inv_def)
  have "unat ((count s + 1) * 10) = Suc (unat (count s)) * 10"
    using c p by (simp add: unat_word_ariths)
  moreover have "unat (capacity s * 7) = 2 ^ k * 7"
    using k p unat_two_power [of k] by (simp add: unat_word_ariths)
  ultimately show ?thesis using k by (simp add: word_less_nat_alt)
qed

lemma set_resize_spec:
  assumes inv: "set_inv s" and small: "length (elements s) < 2 ^ 28"
  shows "\<exists>s'. set_resize s = Some s' \<and> set_inv s' \<and> set_abs s' = set_abs s \<and>
    count s' = count s \<and> length (elements s') = 2 * length (elements s)"
proof -
  from inv obtain k where k: "k \<le> 28" "capacity s = 2 ^ k" "length (elements s) = 2 ^ k" "3 \<le> k"
    by (rule set_invE)
  with small have k28: "k < 28" by (metis not_less_iff_gr_or_eq le_neq_implies_less)
  have cap: "capacity s * 2 = 2 ^ Suc k" "unat (capacity s * 2) = 2 ^ Suc k"
    using k k28 unat_two_power [of "Suc k"] by (simp_all add: mult.commute)
  let ?new = "replicate (2 ^ Suc k) VAL_UNDEFINED"
  have ok: "table_ok (capacity s * 2) ?new"
    using k28 cap by (auto simp: table_ok_def intro!: exI [of _ "Suc k"])
  have cnt: "length (filter (\<lambda>v. v \<noteq> VAL_UNDEFINED) (elements s)) = unat (count s)"
    using inv by (simp add: set_inv_def tab_count_def)
  have "unat (count s) < 2 ^ Suc k"
    using inv k by (simp add: set_inv_def)
  then obtain t' where t': "set_reinsert (elements s) ?new (capacity s * 2) = Some t'"
    "table_ok (capacity s * 2) t'" "length t' = 2 ^ Suc k"
    "tab_set VAL_UNDEFINED t' = set (elements s) - {VAL_UNDEFINED}"
    using set_reinsert_spec [OF ok, of "elements s"] cnt by auto
  have "tab_count VAL_UNDEFINED t' = tab_count VAL_UNDEFINED (elements s)"
    using card_tab_set [of VAL_UNDEFINED _ t'] card_tab_set [of VAL_UNDEFINED _ "elements s"] t' inv
    by (auto simp: table_ok_def set_inv_def tab_set_def)
  moreover have "set_resize s = Some (s\<lparr>capacity := capacity s * 2, elements := t'\<rparr>)"
    using t' cap k unat_two_power [of k] by (simp add: set_resize_def Let_def)
  ultimately show ?thesis
    using t' inv k by (auto simp: set_inv_def set_abs_def tab_set_def)
qed

lemma set_has_spec:
  assumes inv: "set_inv s" and v: "v \<noteq> VAL_UNDEFINED"
  shows "set_has s v = Some (v \<in> set_abs s)"
proof -
  from inv obtain k where k: "k \<le> 28" "capacity s = 2 ^ k" "length (elements s) = 2 ^ k"
    by (rule set_invE)
  have ok: "table_ok (capacity s) (elements s)" using inv by (simp add: set_inv_def)
  obtain q where q: "probe_end (elements s) v q" using table_probe [OF ok] by blast
  from set_has_eq [OF k(2,1,3) q] probe_end_member [OF ok q v] show ?thesis
    by (simp add: set_abs_def)
qed

lemma set_add_spec:
  assumes inv: "set_inv s" and fits: "set_fits s (Suc n)" and v: "v \<noteq> VAL_UNDEFINED"
  shows "\<exists>s'. set_add s v = Some (s', v \<notin> set_abs s) \<and> set_inv s' \<and>
    set_abs s' = insert v (set_abs s) \<and> set_fits s' n"
proof -
  have "\<exists>s1. (if (count s + 1) * 10 > capacity s * 7 then set_resize s else Some s) = Some s1 \<and>
    set_inv s1 \<and> set_abs s1 = set_abs s \<and> count s1 = count s \<and>
    Suc (unat (count s1)) * 10 \<le> length (elements s1) * 7"
  proof (cases "(count s + 1) * 10 > capacity s * 7")
    case True
    then have "Suc (unat (count s)) * 10 > length (elements s) * 7" using load_test [OF inv] by simp
    then have "length (elements s) < 2 ^ 28" using fits by (simp add: set_fits_def)
    from set_resize_spec [OF inv this] obtain s1 where
      "set_resize s = Some s1" "set_inv s1" "set_abs s1 = set_abs s" "count s1 = count s"
      "length (elements s1) = 2 * length (elements s)" by blast
    with True inv show ?thesis by (auto simp: set_inv_def)
  next
    case False
    then show ?thesis using load_test [OF inv] inv by auto
  qed
  then obtain s1 where s1:
    "(if (count s + 1) * 10 > capacity s * 7 then set_resize s else Some s) = Some s1"
    "set_inv s1" "set_abs s1 = set_abs s" "count s1 = count s"
    "Suc (unat (count s1)) * 10 \<le> length (elements s1) * 7" by blast
  have ok: "table_ok (capacity s1) (elements s1)"
    and c1: "unat (count s1) = tab_count VAL_UNDEFINED (elements s1)"
    using s1 by (auto simp: set_inv_def)
  from set_add_internal_spec [OF ok v] s1 c1 obtain t' where
    t': "set_add_internal (elements s1) (capacity s1) v = Some (t', v \<notin> set_abs s)"
    "table_ok (capacity s1) t'" "length t' = length (elements s1)"
    "tab_set VAL_UNDEFINED t' = insert v (set_abs s)"
    by (auto simp: set_abs_def)
  have "tab_count VAL_UNDEFINED t' = card (insert v (set_abs s))"
    using card_tab_set [of VAL_UNDEFINED _ t'] t' by (auto simp: table_ok_def)
  moreover have "card (set_abs s) = unat (count s1)"
    using card_tab_set [of VAL_UNDEFINED _ "elements s1"] ok c1 s1(3)
    by (auto simp: table_ok_def set_abs_def)
  moreover have "finite (set_abs s)" by (simp add: set_abs_def tab_set_def)
  ultimately have cnt: "tab_count VAL_UNDEFINED t' = (if v \<in> set_abs s then unat (count s1) else Suc (unat (count s1)))"
    by (simp add: card_insert_if)
  have "unat (count s1 + 1) = Suc (unat (count s1))"
    using fits s1(4) by (simp add: set_fits_def unat_word_ariths)
  with cnt t' s1 fits show ?thesis
    by (auto simp: set_add_def set_inv_def set_abs_def set_fits_def insert_absorb)
qed

lemma set_delete_spec:
  assumes inv: "set_inv s" and v: "v \<noteq> VAL_UNDEFINED"
  shows "\<exists>s'. set_delete s v = Some (s', v \<in> set_abs s) \<and> set_inv s' \<and>
    set_abs s' = set_abs s - {v} \<and> (set_fits s n \<longrightarrow> set_fits s' n)"
proof -
  from inv obtain k where k: "k \<le> 28" "capacity s = 2 ^ k" "length (elements s) = 2 ^ k"
    by (rule set_invE)
  let ?E = VAL_UNDEFINED and ?t = "elements s"
  have ok: "table_ok (capacity s) ?t" using inv by (simp add: set_inv_def)
  then have inv0: "probe_inv ?E (home (2 ^ k)) ?t" using k by (simp add: table_ok_def)
  obtain q where q: "probe_end ?t v q" using table_probe [OF ok] by blast
  note eq = set_delete_eq [OF k(2,1,3) q]
  note mem = probe_end_member [OF ok q v]
  show ?thesis
  proof (cases "?t ! q = ?E")
    case True
    with eq mem inv show ?thesis by (auto simp: set_abs_def)
  next
    case False
    with q have qn: "q < length ?t" and qv: "?t ! q = v" by (auto simp: probe_end_def Let_def)
    obtain e where e: "e < length ?t" "?t ! e = ?E" using ok ex_free_slot [of ?E ?t] unfolding table_ok_def by blast
    obtain u where u: "u < length ?t" "?t ! u = ?E"
      "\<forall>j < length ?t. cyc (length ?t) q j < cyc (length ?t) q u \<longrightarrow> ?t ! j \<noteq> ?E"
      using ex_first_free [OF e qn False] by blast
    let ?r = "(word_of_nat q + 1) AND (capacity s - 1) :: u32"
    have "(2 :: nat) ^ k \<le> 2 ^ 28" using k(1) by (rule power_increasing) simp
    then have "unat (word_of_nat q :: u32) = q" using qn k by (simp add: unat_of_nat)
    then have r: "unat ?r = cyc_next (2 ^ k) q" using word_cyc_next [OF k(2,1)] qn k by simp
    have "rehash_inv ?E (home (2 ^ k)) ?t q u (unat ?r) (?t[q := ?E])"
      using rehash_inv_init [OF _ qn False u] inv0 k r by simp
    from set_rehash_loop_spec [OF k inv0 this] obtain t' where
      t': "set_rehash_loop (?t[q := ?E]) (capacity s) ?r = Some t'"
      "rehash_inv ?E (home (2 ^ k)) ?t q u u t'" by blast
    note fin = rehash_inv_done [OF t'(2)]
    have cnt: "unat (count s) = Suc (tab_count ?E t')" using fin inv by (simp add: set_inv_def)
    then have "unat (count s - 1) = tab_count ?E t'"
      by (simp add: unat_sub word_le_nat_alt)
    with eq False t' fin k inv mem qv cnt show ?thesis
      by (auto simp: set_inv_def table_ok_def set_abs_def set_fits_def)
  qed
qed

section \<open>The interface the set clients rely on\<close>

text \<open>
  A finite set whose operations may fail only for lack of space: \<open>fits s n\<close> leaves room for \<open>n\<close>
  insertions, \<open>proper\<close> are the values it can hold.
\<close>

locale finite_set_adt =
  fixes new :: 's
    and add :: "'s \<Rightarrow> 'a \<Rightarrow> ('s \<times> bool) option"
    and has :: "'s \<Rightarrow> 'a \<Rightarrow> bool option"
    and del :: "'s \<Rightarrow> 'a \<Rightarrow> ('s \<times> bool) option"
    and abs :: "'s \<Rightarrow> 'a set"
    and inv :: "'s \<Rightarrow> bool"
    and fits :: "'s \<Rightarrow> nat \<Rightarrow> bool"
    and proper :: "'a \<Rightarrow> bool"
    and limit :: nat
  assumes new_inv: "inv new" and new_abs: "abs new = {}" and new_fits: "n \<le> limit \<Longrightarrow> fits new n"
    and add_law: "inv s \<Longrightarrow> fits s (Suc n) \<Longrightarrow> proper v \<Longrightarrow>
      \<exists>s'. add s v = Some (s', v \<notin> abs s) \<and> inv s' \<and> abs s' = insert v (abs s) \<and> fits s' n"
    and has_law: "inv s \<Longrightarrow> proper v \<Longrightarrow> has s v = Some (v \<in> abs s)"
    and del_law: "inv s \<Longrightarrow> proper v \<Longrightarrow>
      \<exists>s'. del s v = Some (s', v \<in> abs s) \<and> inv s' \<and> abs s' = abs s - {v} \<and>
        (fits s n \<longrightarrow> fits s' n)"
    and fits_mono: "fits s (Suc n) \<Longrightarrow> fits s n"
begin

lemma add_then_has:
  assumes "inv s" "fits s (Suc n)" "proper v" "proper w"
  shows "\<exists>s'. add s v = Some (s', v \<notin> abs s) \<and> inv s' \<and>
    has s' w = Some (w = v \<or> w \<in> abs s)"
  using add_law [OF assms(1-3)] has_law assms(4) by fastforce

lemma del_then_has:
  assumes "inv s" "proper v" "proper w"
  shows "\<exists>s'. del s v = Some (s', v \<in> abs s) \<and> inv s' \<and> has s' w = Some (w \<noteq> v \<and> w \<in> abs s)"
  using del_law [OF assms(1,2)] has_law assms(3) by fastforce

text \<open>
  A loop over values that inserts those a test selects, the shape of every set builtin: with room
  for all of them it ends, and the result gains exactly the selected values.
\<close>

lemma add_selected:
  assumes "inv s" "fits s (length vs)" "\<And>v. v \<in> set vs \<Longrightarrow> proper v"
    and sel: "\<And>v. v \<in> set vs \<Longrightarrow> test v = Some (sel v)"
  shows "\<exists>s'. opt_fold (\<lambda>v r. Option.bind (test v) (\<lambda>b. if b then map_option fst (add r v) else Some r)) vs s
      = Some s' \<and> inv s' \<and> abs s' = abs s \<union> {v \<in> set vs. sel v}"
  using assms
proof (induction vs arbitrary: s)
  case Nil
  then show ?case by simp
next
  case (Cons v vs)
  show ?case
  proof (cases "sel v")
    case True
    obtain s1 where s1: "add s v = Some (s1, v \<notin> abs s)" "inv s1" "abs s1 = insert v (abs s)"
      "fits s1 (length vs)"
      using add_law [of s "length vs" v] Cons.prems by auto
    with Cons.IH [of s1] Cons.prems True show ?thesis by auto
  next
    case False
    with Cons.IH [of s] Cons.prems fits_mono show ?thesis by auto
  qed
qed

end

interpretation js_set: finite_set_adt create_set set_add set_has set_delete set_abs set_inv set_fits
  "\<lambda>v. v \<noteq> VAL_UNDEFINED" "187904819"
proof unfold_locales
  show "set_inv create_set"
    by (auto simp: set_inv_def create_set_def table_ok_def intro!: exI [of _ 3])
  show "set_abs create_set = {}"
    by (simp add: set_abs_def create_set_def)
  show "set_fits create_set n" if "n \<le> 187904819" for n
    using that by (simp add: set_fits_def create_set_def)
  show "set_fits s n" if "set_fits s (Suc n)" for s n
    using that by (simp add: set_fits_def)
qed (blast intro: set_add_spec set_has_spec set_delete_spec)+

section \<open>Properties\<close>



text \<open>
  C6. \<open>set_delete\<close> implements removal: it always returns, reports whether the value was present,
  and the re-hash of the rest of the cluster restores the table invariant, so that \<open>set_has\<close>
  afterwards finds every other value and no longer the removed one.
\<close>

theorem set_delete_refines:
  assumes "set_inv s" and "v \<noteq> VAL_UNDEFINED"
  shows "\<exists>s'. set_delete s v = Some (s', v \<in> set_abs s) \<and> set_inv s' \<and>
    set_abs s' = set_abs s - {v} \<and>
    (\<forall>w. w \<noteq> VAL_UNDEFINED \<longrightarrow> set_has s' w = Some (w \<noteq> v \<and> w \<in> set_abs s))"
  using js_set.del_law [of s v 0] js_set.has_law assms by fastforce

theorem set_delete_refines_witness:
  "\<exists>s'. set_delete create_set VAL_NULL = Some (s', False) \<and> set_inv s' \<and> set_abs s' = {}"
proof -
  have n: "VAL_NULL \<noteq> VAL_UNDEFINED" by (simp add: val_defs tag_defs)
  show ?thesis
    using set_delete_refines [OF js_set.new_inv n] by (auto simp: js_set.new_abs)
qed

text \<open>
  set_add_undefined. The value \<open>undefined\<close> is the one a set cannot hold, since it marks a free slot: adding it to a
  fresh set reports success and increments the count, but the set does not contain it.
\<close>

theorem set_add_undefined:
  "set_add create_set VAL_UNDEFINED = Some (create_set\<lparr>count := 1\<rparr>, True) \<and>
   set_has (create_set\<lparr>count := 1\<rparr>) VAL_UNDEFINED = Some False"
proof -
  have idx: "unat (set_hash_value VAL_UNDEFINED AND 7) < 8"
    using and_mask_of_power_two [of 8 3 "set_hash_value VAL_UNDEFINED"] by simp
  have "set_add_internal (replicate 8 VAL_UNDEFINED) 8 VAL_UNDEFINED = Some (replicate 8 VAL_UNDEFINED, True)"
    using idx by (simp add: set_add_internal_def set_add_loop.simps list_update_same_conv)
  moreover have "set_has (create_set\<lparr>count := 1\<rparr>) VAL_UNDEFINED = Some False"
    using idx by (simp add: set_has_def create_set_def set_has_loop.simps)
  ultimately show ?thesis
    by (simp add: set_add_def create_set_def)
qed

end
