(* ===== verification/Linked_Queue.thy ===== *)
theory Linked_Queue
  imports Curica_Prelude
begin

text \<open>
  The singly linked queue with a head and a tail pointer that the event loop, the thread pool, the
  microtask and next-tick queues and the worker mailboxes all use. \<open>chain\<close> is the list of nodes
  reached from the head, \<open>tail\<close> the tail pointer; a node is its address. The two can disagree, and
  the operations do what the pointer assignments do even then: appending hangs the new node behind
  the tail node and so drops whatever followed it.
\<close>

record 'a lqueue =
  chain :: "'a list"
  tail :: "'a option"

definition lq_empty :: "'a lqueue" where
  "lq_empty = \<lparr>chain = [], tail = None\<rparr>"

definition hang_behind :: "'a \<Rightarrow> 'a \<Rightarrow> 'a list \<Rightarrow> 'a list" where
  "hang_behind t x xs = (if t \<in> set xs then takeWhile (\<lambda>y. y \<noteq> t) xs @ [t, x] else xs)"

definition lq_push :: "'a \<Rightarrow> 'a lqueue \<Rightarrow> 'a lqueue" where
  "lq_push x q =
     (case tail q of
        Some t \<Rightarrow> \<lparr>chain = hang_behind t x (chain q), tail = Some x\<rparr>
      | None \<Rightarrow> \<lparr>chain = [x], tail = Some x\<rparr>)"

definition lq_pop :: "'a lqueue \<Rightarrow> ('a \<times> 'a lqueue) option" where
  "lq_pop q =
     (case chain q of
        [] \<Rightarrow> None
      | x # xs \<Rightarrow> Some (x, \<lparr>chain = xs, tail = (if xs = [] then None else tail q)\<rparr>))"

definition lq_inv :: "'a lqueue \<Rightarrow> bool" where
  "lq_inv q \<longleftrightarrow> distinct (chain q) \<and>
     tail q = (if chain q = [] then None else Some (last (chain q)))"

lemma hang_behind_last:
  assumes "distinct xs" "xs \<noteq> []"
  shows "hang_behind (last xs) x xs = xs @ [x]"
proof -
  obtain ys t where xs: "xs = ys @ [t]" using assms(2) by (meson rev_exhaust)
  have "takeWhile (\<lambda>y. y \<noteq> t) (ys @ [t]) = ys"
    using assms(1) xs by (subst takeWhile_append2) auto
  with xs show ?thesis by (simp add: hang_behind_def)
qed

section \<open>The FIFO interface\<close>

locale fifo =
  fixes empty :: 'q
    and push :: "'a \<Rightarrow> 'q \<Rightarrow> 'q"
    and pop :: "'q \<Rightarrow> ('a \<times> 'q) option"
    and items :: "'q \<Rightarrow> 'a list"
    and inv :: "'q \<Rightarrow> bool"
  assumes empty_law: "inv empty" "items empty = []"
    and push_law: "inv q \<Longrightarrow> x \<notin> set (items q) \<Longrightarrow> inv (push x q) \<and> items (push x q) = items q @ [x]"
    and pop_none: "inv q \<Longrightarrow> pop q = None \<longleftrightarrow> items q = []"
    and pop_some: "inv q \<Longrightarrow> pop q = Some (x, q') \<Longrightarrow> inv q' \<and> items q = x # items q'"
begin

lemma push_all:
  assumes "inv q" "distinct xs" "set xs \<inter> set (items q) = {}"
  shows "inv (fold push xs q) \<and> items (fold push xs q) = items q @ xs"
  using assms
proof (induction xs arbitrary: q)
  case Nil
  then show ?case by simp
next
  case (Cons x xs)
  then show ?case using push_law [of q x] Cons.IH [of "push x q"] by auto
qed

lemma pop_cases:
  assumes "inv q"
  obtains "pop q = None" "items q = []"
  | x q' where "pop q = Some (x, q')" "inv q'" "items q = x # items q'"
  using assms pop_none pop_some by (cases "pop q") auto

end

interpretation lqueue: fifo lq_empty lq_push lq_pop chain lq_inv
proof unfold_locales
  show "lq_inv lq_empty" "chain lq_empty = []" by (simp_all add: lq_inv_def lq_empty_def)
next
  fix q :: "'a lqueue" and x
  assume "lq_inv q" "x \<notin> set (chain q)"
  then show "lq_inv (lq_push x q) \<and> chain (lq_push x q) = chain q @ [x]"
    by (cases "chain q = []") (auto simp: lq_inv_def lq_push_def hang_behind_last)
next
  fix q :: "'a lqueue"
  show "lq_pop q = None \<longleftrightarrow> chain q = []" by (simp add: lq_pop_def split: list.splits)
next
  fix q q' :: "'a lqueue" and x
  assume "lq_inv q" "lq_pop q = Some (x, q')"
  then show "lq_inv q' \<and> chain q = x # chain q'"
    by (auto simp: lq_inv_def lq_pop_def split: list.splits if_splits)
qed

section \<open>Draining a queue\<close>

text \<open>
  The loop all the queues are emptied with: unlink the head, act on it, look again. \<open>get\<close> and \<open>put\<close>
  read and write the queue within the state, \<open>act\<close> may change the state, the queue included.
\<close>

partial_function (option) drain_loop ::
  "('s \<Rightarrow> 'a lqueue) \<Rightarrow> ('a lqueue \<Rightarrow> 's \<Rightarrow> 's) \<Rightarrow> ('a \<Rightarrow> 's \<Rightarrow> 's) \<Rightarrow> 's \<Rightarrow> 's option" where
  "drain_loop get put act s =
     (case lq_pop (get s) of
        None \<Rightarrow> Some s
      | Some (x, q) \<Rightarrow> drain_loop get put act (act x (put q s)))"

lemma drain_loop_empties:
  fixes get :: "'s \<Rightarrow> 'a lqueue"
  assumes "drain_loop get put act s = Some s'"
  shows "chain (get s') = []"
proof (rule drain_loop.raw_induct [OF _ assms])
  fix loop :: "('s \<Rightarrow> 'a lqueue) \<Rightarrow> ('a lqueue \<Rightarrow> 's \<Rightarrow> 's) \<Rightarrow> ('a \<Rightarrow> 's \<Rightarrow> 's) \<Rightarrow> 's \<Rightarrow> 's option"
    and get put act s s'
  assume "\<And>get put act s s'. loop get put act s = Some s' \<Longrightarrow> chain (get s') = []"
    and "(case lq_pop (get s) of None \<Rightarrow> Some s
          | Some (x, q) \<Rightarrow> loop get put act (act x (put q s))) = Some s'"
  then show "chain (get s') = []"
    by (auto simp: lq_pop_def split: option.splits list.splits)
qed

text \<open>
  Acting on a list of nodes one after the other, each unlinked first: what draining comes to when
  the actions leave the queue alone.
\<close>

fun drain_all :: "('s \<Rightarrow> 'a lqueue) \<Rightarrow> ('a lqueue \<Rightarrow> 's \<Rightarrow> 's) \<Rightarrow> ('a \<Rightarrow> 's \<Rightarrow> 's) \<Rightarrow> 'a list \<Rightarrow> 's \<Rightarrow> 's" where
  "drain_all get put act [] s = s"
| "drain_all get put act (x # xs) s =
     drain_all get put act xs
       (act x (put \<lparr>chain = xs, tail = (if xs = [] then None else tail (get s))\<rparr> s))"

text \<open>
  Termination with enqueueing actions: each action appends some new nodes behind the rest; a measure
  on nodes that shrinks from a node to those it spawns bounds the whole run.
\<close>

lemma drain_loop_returns:
  assumes put: "\<And>q s. get (put q s) = q"
    and act: "\<And>x s. \<exists>ys. chain (get (act x s)) = chain (get s) @ ys \<and>
                (\<Sum>y\<leftarrow>ys. weight y) < (weight x :: nat)"
  shows "\<exists>s'. drain_loop get put act s = Some s'"
proof (induction "\<Sum>y\<leftarrow>chain (get s). weight y" arbitrary: s rule: less_induct)
  case less
  show ?case
  proof (cases "chain (get s)")
    case Nil
    then show ?thesis by (subst drain_loop.simps) (simp add: lq_pop_def)
  next
    case (Cons x xs)
    then obtain q where pop: "lq_pop (get s) = Some (x, q)" "chain q = xs"
      by (simp add: lq_pop_def)
    obtain ys where ys: "chain (get (act x (put q s))) = xs @ ys" "(\<Sum>y\<leftarrow>ys. weight y) < weight x"
      using act [of x "put q s"] put pop(2) by auto
    then have "\<exists>s'. drain_loop get put act (act x (put q s)) = Some s'"
      using Cons by (intro less) simp
    then show ?thesis by (subst drain_loop.simps) (simp add: pop)
  qed
qed

lemma drain_loop_quiet:
  assumes put: "\<And>q s. get (put q s) = q" and act: "\<And>x s. get (act x s) = get s"
  shows "drain_loop get put act s = Some (drain_all get put act (chain (get s)) s)"
proof (induction "chain (get s)" arbitrary: s)
  case Nil
  then show ?case by (subst drain_loop.simps) (simp add: lq_pop_def)
next
  case (Cons x xs)
  have pop: "lq_pop (get s) =
      Some (x, \<lparr>chain = xs, tail = (if xs = [] then None else tail (get s))\<rparr>)"
    unfolding lq_pop_def Cons.hyps(2) [symmetric] by simp
  show ?case using Cons.hyps(1) [of "act x (put \<lparr>chain = xs,
        tail = (if xs = [] then None else tail (get s))\<rparr> s)"]
    by (subst drain_loop.simps) (simp add: pop put act flip: Cons.hyps(2))
qed

end
