(* ===== verification/Event_Loop.thy ===== *)
theory Event_Loop
  imports Value_Box Linked_Queue "HOL-Library.Multiset"
begin

text \<open>
  Model of \<open>src/src/event_loop.c\<close>. The timer list is a list in chain order, the immediate queue a
  linked queue with its tail pointer, the I/O handles a list of the caller's structs, each known by
  its address. A callback is a function pointer (an address); what calling it does to the loop and
  to the rest of the process (\<open>'w\<close>) is the parameter \<open>call\<close> of an environment record, together with
  the clock, \<open>poll\<close>, the thread pool and the microtask drain. A loop that may never end returns
  \<open>None\<close> when it does not.
\<close>

section \<open>State\<close>

record TimerHandle =
  expires_at :: u64
  t_cb :: u64
  t_arg :: u64
  t_trace :: Value

record CheckHandle =
  c_addr :: u64
  c_cb :: u64
  c_arg :: u64
  c_trace :: Value

record IOHandle =
  h_addr :: u64
  fd :: int
  events :: u32
  io_cb :: u64
  user_data :: u64
  active :: bool
  unrefed :: bool

record EventLoop =
  timers :: "TimerHandle list"
  checks :: "CheckHandle lqueue"
  io_handles :: "IOHandle list"
  io_count :: u32
  stop_flag :: bool

text \<open>\<open>el_init\<close>; starting the thread pool is \<open>tp_init\<close> of the thread pool model.\<close>

definition el_init :: EventLoop where
  "el_init = \<lparr>timers = [], checks = lq_empty, io_handles = [], io_count = 0, stop_flag = False\<rparr>"

section \<open>Timers, immediates, I/O handles\<close>

text \<open>\<open>clock_gettime\<close> in seconds and nanoseconds to milliseconds.\<close>

definition el_current_time_ms :: "u64 \<Rightarrow> u64 \<Rightarrow> u64" where
  "el_current_time_ms tv_sec tv_nsec = tv_sec * 1000 + tv_nsec div 1000000"

text \<open>
  The sorted insertion of \<open>el_set_timeout\<close>: in front of the list when its head does not expire
  earlier, else behind the longest prefix of earlier timers (the walk over \<open>curr\<close>).
\<close>

fun timer_walk :: "TimerHandle \<Rightarrow> TimerHandle \<Rightarrow> TimerHandle list \<Rightarrow> TimerHandle list" where
  "timer_walk timer cur [] = [cur, timer]"
| "timer_walk timer cur (nxt # rest) =
     (if expires_at nxt < expires_at timer then cur # timer_walk timer nxt rest
      else cur # timer # nxt # rest)"

definition timer_insert :: "TimerHandle \<Rightarrow> TimerHandle list \<Rightarrow> TimerHandle list" where
  "timer_insert timer ts =
     (case ts of
        [] \<Rightarrow> timer # ts
      | h # rest \<Rightarrow>
          if expires_at h \<ge> expires_at timer then timer # ts else timer_walk timer h rest)"

definition el_set_timeout ::
  "u64 \<Rightarrow> EventLoop \<Rightarrow> u64 \<Rightarrow> u64 \<Rightarrow> u64 \<Rightarrow> Value \<Rightarrow> EventLoop" where
  "el_set_timeout now loop timeout_ms cb arg trace =
     (let timer = \<lparr>expires_at = now + timeout_ms, t_cb = cb, t_arg = arg, t_trace = trace\<rparr>
      in loop\<lparr>timers := timer_insert timer (timers loop)\<rparr>)"

text \<open>\<open>addr\<close> is the address \<open>malloc\<close> returns for the new handle.\<close>

definition el_set_immediate ::
  "u64 \<Rightarrow> EventLoop \<Rightarrow> u64 \<Rightarrow> u64 \<Rightarrow> Value \<Rightarrow> CheckHandle \<times> EventLoop" where
  "el_set_immediate addr loop cb arg trace =
     (let handle = \<lparr>c_addr = addr, c_cb = cb, c_arg = arg, c_trace = trace\<rparr>
      in (handle, loop\<lparr>checks := lq_push handle (checks loop)\<rparr>))"

text \<open>The walk of \<open>el_clear_immediate\<close> behind the head: unlink the handle, and move the tail pointer
  back when it was the last one.\<close>

fun check_unlink ::
  "CheckHandle \<Rightarrow> CheckHandle \<Rightarrow> CheckHandle list \<Rightarrow> CheckHandle option \<Rightarrow>
   CheckHandle list \<times> CheckHandle option" where
  "check_unlink handle cur [] tp = ([cur], tp)"
| "check_unlink handle cur (nxt # rest) tp =
     (if nxt = handle then (cur # rest, if rest = [] then Some cur else tp)
      else let (ch, tp') = check_unlink handle nxt rest tp in (cur # ch, tp'))"

definition el_clear_immediate :: "EventLoop \<Rightarrow> CheckHandle option \<Rightarrow> EventLoop" where
  "el_clear_immediate loop handle' =
     (case (chain (checks loop), handle') of
        ([], _) \<Rightarrow> loop
      | (_, None) \<Rightarrow> loop
      | (h # rest, Some handle) \<Rightarrow>
          if h = handle
          then loop\<lparr>checks := \<lparr>chain = rest,
                 tail = (if rest = [] then None else tail (checks loop))\<rparr>\<rparr>
          else let (ch, tp) = check_unlink handle h rest (tail (checks loop))
               in loop\<lparr>checks := \<lparr>chain = ch, tail = tp\<rparr>\<rparr>)"

definition el_add_io :: "EventLoop \<Rightarrow> IOHandle option \<Rightarrow> EventLoop" where
  "el_add_io loop handle' =
     (case handle' of
        None \<Rightarrow> loop
      | Some handle \<Rightarrow>
          loop\<lparr>io_handles := handle\<lparr>unrefed := False\<rparr> # io_handles loop,
               io_count := io_count loop + 1\<rparr>)"

text \<open>\<open>el_remove_io\<close> unlinks the first handle with the given address.\<close>

fun io_unlink :: "u64 \<Rightarrow> IOHandle list \<Rightarrow> IOHandle list option" where
  "io_unlink a [] = None"
| "io_unlink a (h # hs) = (if h_addr h = a then Some hs else map_option ((#) h) (io_unlink a hs))"

definition el_remove_io :: "EventLoop \<Rightarrow> u64 \<Rightarrow> EventLoop" where
  "el_remove_io loop a =
     (case io_unlink a (io_handles loop) of
        None \<Rightarrow> loop
      | Some hs \<Rightarrow> loop\<lparr>io_handles := hs, io_count := io_count loop - 1\<rparr>)"

definition set_unrefed :: "bool \<Rightarrow> u64 \<Rightarrow> IOHandle list \<Rightarrow> IOHandle list" where
  "set_unrefed b a hs = map (\<lambda>h. if h_addr h = a then h\<lparr>unrefed := b\<rparr> else h) hs"

definition el_unref_io :: "EventLoop \<Rightarrow> u64 option \<Rightarrow> EventLoop" where
  "el_unref_io loop a' =
     (case a' of None \<Rightarrow> loop | Some a \<Rightarrow> loop\<lparr>io_handles := set_unrefed True a (io_handles loop)\<rparr>)"

definition el_ref_io :: "EventLoop \<Rightarrow> u64 option \<Rightarrow> EventLoop" where
  "el_ref_io loop a' =
     (case a' of None \<Rightarrow> loop | Some a \<Rightarrow> loop\<lparr>io_handles := set_unrefed False a (io_handles loop)\<rparr>)"

definition el_stop :: "EventLoop \<Rightarrow> EventLoop" where
  "el_stop loop = loop\<lparr>stop_flag := True\<rparr>"

section \<open>The main loop\<close>

text \<open>
  The surroundings of the loop. A process state is the loop and the rest \<open>'w\<close>; \<open>clock\<close> reads the
  monotonic time, \<open>call\<close> runs a timer or check callback on its argument, \<open>call_io\<close> an I/O callback,
  \<open>poll\<close> takes the array of descriptors with their requested events and the timeout and gives back
  the ready events, \<open>tp_pending\<close> is \<open>tp_pending_count\<close>, \<open>wakeup\<close> is \<open>tp_wakeup_fd\<close>, \<open>drain\<close> is
  \<open>tp_drain_completions\<close> and \<open>microtasks\<close> is \<open>vm_drain_microtasks\<close> on the current VM, if any.
\<close>

type_synonym 'w proc = "EventLoop \<times> 'w"

record 'w el_env =
  clock :: "'w \<Rightarrow> u64"
  call :: "u64 \<Rightarrow> u64 \<Rightarrow> 'w proc \<Rightarrow> 'w proc"
  call_io :: "u64 \<Rightarrow> u64 \<Rightarrow> 16 word \<Rightarrow> 'w proc \<Rightarrow> 'w proc"
  poll :: "(int \<times> 16 word) list \<Rightarrow> int \<Rightarrow> 'w proc \<Rightarrow> 16 word list \<times> 'w proc"
  tp_pending :: "'w \<Rightarrow> int"
  wakeup :: "'w \<Rightarrow> int"
  drain :: "'w proc \<Rightarrow> 'w proc"
  microtasks :: "'w proc \<Rightarrow> 'w proc"

definition POLLIN :: "16 word" where "POLLIN = 1"

definition active_io_count :: "EventLoop \<Rightarrow> int" where
  "active_io_count loop = int (length (filter (\<lambda>h. \<not> unrefed h) (io_handles loop)))"

definition has_work :: "EventLoop \<Rightarrow> int \<Rightarrow> bool" where
  "has_work loop pend \<longleftrightarrow>
     timers loop \<noteq> [] \<or> chain (checks loop) \<noteq> [] \<or> active_io_count loop > 0 \<or> pend > 0"

text \<open>The timeout handed to \<open>poll\<close>; the cast to \<open>int\<close> keeps the low 32 bits, read as signed.\<close>

definition poll_timeout :: "EventLoop \<Rightarrow> u64 \<Rightarrow> int \<Rightarrow> int" where
  "poll_timeout loop now pend =
     (let timeout = -1;
          timeout = (case timers loop of
                       [] \<Rightarrow> timeout
                     | t # _ \<Rightarrow> if expires_at t \<le> now then 0
                                else sint (ucast (expires_at t - now) :: u32));
          timeout = (if chain (checks loop) \<noteq> [] then 0 else timeout)
      in if timeout = -1 \<and> pend > 0 then 50 else timeout)"

text \<open>Phase 1: fire expired timers from the front, until the first that has not expired.\<close>

partial_function (option) run_timers :: "'w el_env \<Rightarrow> u64 \<Rightarrow> 'w proc \<Rightarrow> 'w proc option" where
  "run_timers env now p =
     (case timers (fst p) of
        [] \<Rightarrow> Some p
      | t # rest \<Rightarrow>
          if expires_at t \<le> now
          then run_timers env now (call env (t_cb t) (t_arg t) ((fst p)\<lparr>timers := rest\<rparr>, snd p))
          else Some p)"

text \<open>
  Phase 2: the walk over the I/O handles, in step with the slots of the poll array. The walk holds
  a pointer \<open>h\<close> and reads \<open>h->next\<close> just before the callback of \<open>h\<close> runs; \<open>stale\<close> is what hung behind
  \<open>h\<close> when the pointer was taken. A handle still linked is read from the loop's chain; one that the
  callback before it unlinked is still visited, and its \<open>next\<close> still leads to what followed it.
\<close>

definition io_deref :: "IOHandle list \<Rightarrow> IOHandle \<Rightarrow> IOHandle list \<Rightarrow> IOHandle \<times> IOHandle list" where
  "io_deref ch h stale =
     (case dropWhile (\<lambda>x. h_addr x \<noteq> h_addr h) ch of [] \<Rightarrow> (h, stale) | x # xs \<Rightarrow> (x, xs))"

partial_function (option) run_io ::
  "'w el_env \<Rightarrow> IOHandle list \<Rightarrow> 16 word list \<Rightarrow> 'w proc \<Rightarrow> 'w proc option" where
  "run_io env hs revs p =
     (case hs of
        [] \<Rightarrow> Some p
      | h # stale \<Rightarrow>
          let (hdl, nxt) = io_deref (io_handles (fst p)) h stale
          in run_io env nxt (drop 1 revs)
               (case revs of
                  r # _ \<Rightarrow> if r \<noteq> 0 then call_io env (io_cb hdl) (user_data hdl) r p else p
                | [] \<Rightarrow> p))"

text \<open>Phase 4: run the immediates, those added on the way included.\<close>

definition run_checks :: "'w el_env \<Rightarrow> 'w proc \<Rightarrow> 'w proc option" where
  "run_checks env =
     drain_loop (\<lambda>p. checks (fst p)) (\<lambda>q p. ((fst p)\<lparr>checks := q\<rparr>, snd p))
       (\<lambda>c. call env (c_cb c) (c_arg c))"

text \<open>One round of the loop; \<open>Inl\<close> is the \<open>break\<close> for lack of work.\<close>

definition el_tick :: "'w el_env \<Rightarrow> 'w proc \<Rightarrow> ('w proc + 'w proc) option" where
  "el_tick env p =
     (let now = clock env (snd p); loop = fst p
      in if \<not> has_work loop (tp_pending env (snd p)) then Some (Inl p)
         else
           let timeout = poll_timeout loop now (tp_pending env (snd p));
               wk = wakeup env (snd p);
               fds = (if wk \<ge> 0 then [(wk, POLLIN)] else []) @
                     map (\<lambda>h. (fd h, ucast (events h))) (io_handles loop);
               (revs, p) = (if fds \<noteq> [] \<or> timeout > 0 then poll env fds timeout p
                            else (map (\<lambda>_. 0) fds, p));
               now = clock env (snd p)
           in Option.bind (run_timers env now p) (\<lambda>p.
                let io_revs = (if wk \<ge> 0 then drop 1 revs else revs)
                in Option.bind (run_io env (io_handles (fst p)) io_revs p) (\<lambda>p.
                let p = (if tp_pending env (snd p) > 0 \<or>
                            (wk \<ge> 0 \<and> fds \<noteq> [] \<and> revs \<noteq> [] \<and> revs ! 0 AND POLLIN \<noteq> 0)
                         then drain env p else p)
                in map_option (\<lambda>p. Inr (microtasks env p)) (run_checks env p))))"

partial_function (option) el_run :: "'w el_env \<Rightarrow> 'w proc \<Rightarrow> 'w proc option" where
  "el_run env p =
     (if stop_flag (fst p) then Some p
      else case el_tick env p of
             None \<Rightarrow> None
           | Some (Inl p') \<Rightarrow> Some p'
           | Some (Inr p') \<Rightarrow> el_run env p')"

text \<open>
  \<open>el_trace_roots\<close>: the values the collector reaches from the loop, in the order they are traced;
  \<open>modules\<close> stands for what the seven module-specific markers trace.
\<close>

definition el_trace_roots :: "EventLoop option \<Rightarrow> Value list \<Rightarrow> Value list" where
  "el_trace_roots loop' modules =
     (case loop' of
        None \<Rightarrow> []
      | Some loop \<Rightarrow>
          concat (map (\<lambda>t. [t_arg t, t_trace t]) (timers loop)) @
          concat (map (\<lambda>c. [c_arg c, c_trace c]) (chain (checks loop))) @ modules)"

section \<open>Timers fire in order\<close>

lemma timer_walk_mset [simp]:
  "mset (timer_walk timer cur ts) = add_mset timer (add_mset cur (mset ts))"
  by (induction timer cur ts rule: timer_walk.induct) auto

lemma timer_walk_set [simp]: "set (timer_walk timer cur ts) = insert timer (insert cur (set ts))"
  by (induction timer cur ts rule: timer_walk.induct) auto

lemma timer_walk_sorted:
  assumes "sorted (map expires_at (cur # ts))" "expires_at cur < expires_at timer"
  shows "sorted (map expires_at (timer_walk timer cur ts))"
  using assms
proof (induction timer cur ts rule: timer_walk.induct)
  case (1 timer cur)
  then show ?case by simp
next
  case (2 timer cur nxt rest)
  show ?case
  proof (cases "expires_at nxt < expires_at timer")
    case True
    then have sorted: "sorted (map expires_at (timer_walk timer nxt rest))" using 2 by simp
    have "\<forall>t\<in>set (timer_walk timer nxt rest). expires_at cur \<le> expires_at t"
    proof
      fix t assume "t \<in> set (timer_walk timer nxt rest)"
      then show "expires_at cur \<le> expires_at t" using "2.prems" by auto
    qed
    with sorted True show ?thesis by simp
  next
    case False
    then show ?thesis using "2.prems" by auto
  qed
qed

lemma timer_insert_sorted:
  "sorted (map expires_at ts) \<Longrightarrow> sorted (map expires_at (timer_insert timer ts))"
  using timer_walk_sorted by (fastforce simp: timer_insert_def not_le split: list.splits)

lemma timer_insert_mset [simp]: "mset (timer_insert timer ts) = add_mset timer (mset ts)"
  by (simp add: timer_insert_def split: list.splits)

lemma expired_prefix:
  "sorted (map expires_at ts) \<Longrightarrow>
   takeWhile (\<lambda>t. expires_at t \<le> now) ts = filter (\<lambda>t. expires_at t \<le> now) ts"
proof (induction ts)
  case (Cons t ts)
  moreover have "filter (\<lambda>t. expires_at t \<le> now) ts = []" if "now < expires_at t"
    using that Cons.prems by (auto simp: filter_empty_conv not_le intro: less_le_trans)
  ultimately show ?case by (auto simp: not_le)
qed simp

lemma unexpired_suffix:
  "sorted (map expires_at ts) \<Longrightarrow>
   dropWhile (\<lambda>t. expires_at t \<le> now) ts = filter (\<lambda>t. now < expires_at t) ts"
proof (induction ts)
  case (Cons t ts)
  moreover have "filter (\<lambda>t. now < expires_at t) ts = ts" if "now < expires_at t"
    using that Cons.prems by (auto simp: filter_id_conv intro: less_le_trans)
  ultimately show ?case by (auto simp: not_le)
qed simp

text \<open>The effect of running a list of timers, one after the other, with the list held at \<open>rest\<close>.\<close>

definition fire :: "'w el_env \<Rightarrow> TimerHandle \<Rightarrow> 'w proc \<Rightarrow> 'w proc" where
  "fire env t p = call env (t_cb t) (t_arg t) p"

fun fire_all :: "'w el_env \<Rightarrow> TimerHandle list \<Rightarrow> TimerHandle list \<Rightarrow> 'w proc \<Rightarrow> 'w proc" where
  "fire_all env [] rest p = p"
| "fire_all env (t # ts) rest p =
     fire_all env ts rest (fire env t ((fst p)\<lparr>timers := ts @ rest\<rparr>, snd p))"

definition keeps_timers :: "'w el_env \<Rightarrow> bool" where
  "keeps_timers env \<longleftrightarrow> (\<forall>cb arg p. timers (fst (call env cb arg p)) = timers (fst p))"

lemma run_timers_prefix:
  assumes "keeps_timers env" "timers (fst p) = ts @ rest"
    "\<forall>t\<in>set ts. expires_at t \<le> now" "rest = [] \<or> now < expires_at (hd rest)"
  shows "run_timers env now p = Some (fire_all env ts rest p) \<and>
         timers (fst (fire_all env ts rest p)) = rest"
  using assms(2,3)
proof (induction ts arbitrary: p)
  case Nil
  then show ?case using assms(4) by (subst run_timers.simps) (auto split: list.splits)
next
  case (Cons t ts)
  let ?p = "fire env t ((fst p)\<lparr>timers := ts @ rest\<rparr>, snd p)"
  have "timers (fst ?p) = ts @ rest" using assms(1) by (simp add: fire_def keeps_timers_def)
  then show ?case using Cons.IH [of ?p] Cons.prems
    by (subst run_timers.simps) (simp add: fire_def)
qed

section \<open>Immediates\<close>

lemma filter_neq_id: "x \<notin> set xs \<Longrightarrow> filter (\<lambda>c. c \<noteq> x) xs = xs"
  by (auto simp: filter_id_conv)

lemma check_unlink_spec:
  assumes "distinct (cur # cs)" "cur \<noteq> handle" "check_unlink handle cur cs tp = (ch, tp')"
    "tp = Some (last (cur # cs))"
  shows "ch = filter (\<lambda>c. c \<noteq> handle) (cur # cs) \<and> ch \<noteq> [] \<and> tp' = Some (last ch)"
  using assms
proof (induction handle cur cs tp arbitrary: ch tp' rule: check_unlink.induct)
  case (1 handle cur tp)
  then show ?case by auto
next
  case (2 handle cur nxt rest tp)
  show ?case
  proof (cases "nxt = handle")
    case True
    then show ?thesis using "2.prems" by (auto simp: filter_neq_id split: if_splits)
  next
    case False
    obtain ch2 tp2 where e: "check_unlink handle nxt rest tp = (ch2, tp2)" by force
    then have "ch2 = filter (\<lambda>c. c \<noteq> handle) (nxt # rest) \<and> ch2 \<noteq> [] \<and> tp2 = Some (last ch2)"
      using "2.IH" [OF False _ False e] "2.prems" False by (simp split: if_splits)
    then show ?thesis using e False "2.prems" by auto
  qed
qed

lemma el_clear_immediate_spec:
  assumes "lq_inv (checks loop)"
  shows "lq_inv (checks (el_clear_immediate loop (Some handle))) \<and>
    chain (checks (el_clear_immediate loop (Some handle))) =
      filter (\<lambda>c. c \<noteq> handle) (chain (checks loop))"
proof (cases "chain (checks loop)")
  case Nil
  then show ?thesis using assms by (simp add: el_clear_immediate_def)
next
  case (Cons h rest)
  show ?thesis
  proof (cases "h = handle")
    case True
    then show ?thesis using assms Cons
      by (auto simp: el_clear_immediate_def lq_inv_def filter_neq_id)
  next
    case False
    obtain ch tp where e: "check_unlink handle h rest (tail (checks loop)) = (ch, tp)" by force
    have "ch = filter (\<lambda>c. c \<noteq> handle) (h # rest) \<and> ch \<noteq> [] \<and> tp = Some (last ch)"
      using assms Cons by (intro check_unlink_spec [OF _ False e]) (auto simp: lq_inv_def)
    then show ?thesis using assms Cons e False by (auto simp: el_clear_immediate_def lq_inv_def)
  qed
qed

section \<open>The loop returns only when idle or stopped\<close>

lemma el_tick_break:
  "el_tick env p = Some (Inl p') \<Longrightarrow> p' = p \<and> \<not> has_work (fst p) (tp_pending env (snd p))"
  by (auto simp: el_tick_def Let_def split: if_splits prod.splits bind_splits)

lemma el_run_exit:
  assumes "el_run env p = Some q"
  shows "stop_flag (fst q) \<or> \<not> has_work (fst q) (tp_pending env (snd q))"
proof (rule el_run.raw_induct [OF _ assms])
  fix run :: "'a el_env \<Rightarrow> 'a proc \<Rightarrow> 'a proc option" and env p q
  assume "\<And>env p q. run env p = Some q \<Longrightarrow>
      stop_flag (fst q) \<or> \<not> has_work (fst q) (tp_pending env (snd q))"
    and "(if stop_flag (fst p) then Some p
          else case el_tick env p of None \<Rightarrow> None | Some (Inl p') \<Rightarrow> Some p'
               | Some (Inr p') \<Rightarrow> run env p') = Some q"
  then show "stop_flag (fst q) \<or> \<not> has_work (fst q) (tp_pending env (snd q))"
    using el_tick_break [of env p] by (auto split: if_splits option.splits sum.splits)
qed

section \<open>Properties\<close>

text \<open>C38 (invariant): \<open>el_set_timeout\<close> keeps the timer list sorted by expiry and adds exactly
  the new timer to it; no timer is lost or duplicated.\<close>

theorem el_set_timeout_sorted:
  assumes "sorted (map expires_at (timers loop))"
  shows "sorted (map expires_at (timers (el_set_timeout now loop ms cb arg trace))) \<and>
    mset (timers (el_set_timeout now loop ms cb arg trace)) =
      add_mset \<lparr>expires_at = now + ms, t_cb = cb, t_arg = arg, t_trace = trace\<rparr>
        (mset (timers loop))"
  using assms timer_insert_sorted by (simp add: el_set_timeout_def)

theorem el_set_timeout_sorted_witness:
  "sorted (map expires_at (timers (el_set_timeout 7 (el_set_timeout 5 el_init 10 1 2 3) 4 1 9 3)))"
  using el_set_timeout_sorted [of "el_set_timeout 5 el_init 10 1 2 3" 7 4 1 9 3]
    el_set_timeout_sorted [of el_init 5 10 1 2 3]
  by (simp add: el_init_def)


text \<open>A surrounding whose callbacks log their arguments, for the examples.\<close>

definition log_env :: "u64 list el_env" where
  "log_env = \<lparr>clock = (\<lambda>w. of_nat (length w)), call = (\<lambda>cb arg (l, w). (l, w @ [arg])),
     call_io = (\<lambda>cb arg r (l, w). (l, w @ [arg])), poll = (\<lambda>fds t p. (map (\<lambda>_. 0) fds, p)),
     tp_pending = (\<lambda>w. 0), wakeup = (\<lambda>w. -1), drain = (\<lambda>p. p), microtasks = (\<lambda>p. p)\<rparr>"


text \<open>immediate_queue_correct (functional): on a well-formed immediate queue, \<open>el_set_immediate\<close> appends the
  fresh handle, and \<open>el_clear_immediate\<close> removes exactly the given handle wherever it is in the
  queue; both keep the tail pointer on the last handle.\<close>

theorem immediate_queue_correct:
  assumes "lq_inv (checks loop)" "\<forall>c\<in>set (chain (checks loop)). c_addr c \<noteq> addr"
  shows "lq_inv (checks (snd (el_set_immediate addr loop cb arg trace))) \<and>
    chain (checks (snd (el_set_immediate addr loop cb arg trace))) =
      chain (checks loop) @ [fst (el_set_immediate addr loop cb arg trace)] \<and>
    lq_inv (checks (el_clear_immediate loop (Some handle))) \<and>
    chain (checks (el_clear_immediate loop (Some handle))) =
      filter (\<lambda>c. c \<noteq> handle) (chain (checks loop))"
proof -
  have "fst (el_set_immediate addr loop cb arg trace) \<notin> set (chain (checks loop))"
    using assms(2) by (auto simp: el_set_immediate_def Let_def)
  with lqueue.push_law [OF assms(1)] el_clear_immediate_spec [OF assms(1)] show ?thesis
    by (auto simp: el_set_immediate_def Let_def)
qed

theorem immediate_queue_correct_witness:
  "chain (checks (el_clear_immediate (snd (el_set_immediate 16 el_init 1 2 3))
     (Some (fst (el_set_immediate 16 el_init 1 2 3))))) = []"
proof -
  have inv: "lq_inv (checks el_init)" by (simp add: el_init_def lq_inv_def lq_empty_def)
  have "chain (checks el_init) = []" by (simp add: el_init_def lq_empty_def)
  with immediate_queue_correct [OF inv, of 16 1 2 3]
    immediate_queue_correct [of "snd (el_set_immediate 16 el_init 1 2 3)" 32 1 2 3
      "fst (el_set_immediate 16 el_init 1 2 3)"]
  show ?thesis by (simp add: el_set_immediate_def Let_def)
qed

text \<open>el_run_returns_idle (safety): when the event loop returns, it was stopped or it has no work left: no timer,
  no immediate, no referenced I/O handle and no pending thread-pool work.\<close>

theorem el_run_returns_idle:
  assumes "el_run env p = Some q"
  shows "stop_flag (fst q) \<or>
    (timers (fst q) = [] \<and> chain (checks (fst q)) = [] \<and>
     (\<forall>h\<in>set (io_handles (fst q)). unrefed h) \<and> tp_pending env (snd q) \<le> 0)"
  using el_run_exit [OF assms]
  by (auto simp: has_work_def active_io_count_def filter_empty_conv)

theorem el_run_returns_idle_witness: "el_run log_env (el_init, [7]) = Some (el_init, [7]) \<and>
    timers el_init = []"
proof -
  have run: "el_run log_env (el_init, [7]) = Some (el_init, [7])"
    by (subst el_run.simps)
      (simp add: el_tick_def has_work_def el_init_def log_env_def active_io_count_def lq_empty_def)
  from el_run_returns_idle [OF run] show ?thesis using run by (simp add: el_init_def)
qed

end
