(* ===== verification/Task_Queues.thy ===== *)
theory Task_Queues
  imports Event_Loop
begin

text \<open>
  The microtask and next-tick queues of the VM (\<open>src/src/vm.c\<close>), the message queues of the workers
  (\<open>src/src/worker_module.c\<close>) and the built-ins that feed the queues and the event loop
  (\<open>setTimeout\<close>, \<open>setImmediate\<close>, \<open>clearImmediate\<close>, \<open>process.nextTick\<close>, \<open>queueMicrotask\<close> of
  \<open>src/src/builtins.c\<close>). A queue node is known by its address, here a number that the allocation of
  the node takes from a counter, so that no two live nodes share one. Calling a JavaScript function
  is the parameter \<open>call\<close>, a transformer of the whole state.
\<close>

section \<open>State and operations\<close>

record TaskEntry =
  te_addr :: nat
  te_callback :: Value
  te_arg :: Value

record VMQueues =
  microtask_q :: "TaskEntry lqueue"
  next_tick_q :: "TaskEntry lqueue"
  fresh_node :: nat

type_synonym 'w vmq = "VMQueues \<times> 'w"

definition vm_enqueue_microtask :: "VMQueues \<Rightarrow> Value \<Rightarrow> Value \<Rightarrow> VMQueues" where
  "vm_enqueue_microtask vm cb arg =
     (let entry = \<lparr>te_addr = fresh_node vm, te_callback = cb, te_arg = arg\<rparr>
      in vm\<lparr>microtask_q := lq_push entry (microtask_q vm), fresh_node := fresh_node vm + 1\<rparr>)"

definition vm_drain_microtasks ::
  "(Value \<Rightarrow> Value list \<Rightarrow> 'w vmq \<Rightarrow> 'w vmq) \<Rightarrow> 'w vmq \<Rightarrow> 'w vmq option" where
  "vm_drain_microtasks call_fn =
     drain_loop (\<lambda>s. microtask_q (fst s)) (\<lambda>q s. ((fst s)\<lparr>microtask_q := q\<rparr>, snd s))
       (\<lambda>entry. call_fn (te_callback entry) [te_arg entry])"

definition vm_enqueue_next_tick :: "VMQueues \<Rightarrow> Value \<Rightarrow> Value \<Rightarrow> VMQueues" where
  "vm_enqueue_next_tick vm cb arg =
     (let entry = \<lparr>te_addr = fresh_node vm, te_callback = cb, te_arg = arg\<rparr>
      in vm\<lparr>next_tick_q := lq_push entry (next_tick_q vm), fresh_node := fresh_node vm + 1\<rparr>)"

definition vm_drain_next_tick ::
  "(Value \<Rightarrow> Value list \<Rightarrow> 'w vmq \<Rightarrow> 'w vmq) \<Rightarrow> 'w vmq \<Rightarrow> 'w vmq option" where
  "vm_drain_next_tick call_fn =
     drain_loop (\<lambda>s. next_tick_q (fst s)) (\<lambda>q s. ((fst s)\<lparr>next_tick_q := q\<rparr>, snd s))
       (\<lambda>entry. call_fn (te_callback entry) [te_arg entry])"

definition js_process_next_tick :: "VMQueues \<Rightarrow> Value list \<Rightarrow> Value \<times> VMQueues" where
  "js_process_next_tick vm args =
     (case args of
        a # _ \<Rightarrow> if IS_POINTER a then (VAL_UNDEFINED, vm_enqueue_next_tick vm a VAL_UNDEFINED)
                 else (VAL_UNDEFINED, vm)
      | [] \<Rightarrow> (VAL_UNDEFINED, vm))"

definition js_queue_microtask :: "VMQueues \<Rightarrow> Value list \<Rightarrow> Value \<times> VMQueues" where
  "js_queue_microtask vm args =
     (case args of
        a # _ \<Rightarrow> if IS_POINTER a then (VAL_UNDEFINED, vm_enqueue_microtask vm a VAL_UNDEFINED)
                 else (VAL_UNDEFINED, vm)
      | [] \<Rightarrow> (VAL_UNDEFINED, vm))"

text \<open>
  What a timer or immediate callback does with its boxed function \<open>cb\<close> (\<open>timeout_cb\<close> and
  \<open>immediate_cb\<close>, which are the same code): call it without arguments, then drain the next-tick
  queue, then the microtasks.
\<close>

definition timeout_cb ::
  "(Value \<Rightarrow> Value list \<Rightarrow> 'w vmq \<Rightarrow> 'w vmq) \<Rightarrow> Value \<Rightarrow> 'w vmq \<Rightarrow> 'w vmq option" where
  "timeout_cb call_fn cb s =
     Option.bind (vm_drain_next_tick call_fn (call_fn cb [] s)) (vm_drain_microtasks call_fn)"

definition immediate_cb ::
  "(Value \<Rightarrow> Value list \<Rightarrow> 'w vmq \<Rightarrow> 'w vmq) \<Rightarrow> Value \<Rightarrow> 'w vmq \<Rightarrow> 'w vmq option" where
  "immediate_cb call_fn cb s =
     Option.bind (vm_drain_next_tick call_fn (call_fn cb [] s)) (vm_drain_microtasks call_fn)"

text \<open>
  The timer built-ins. \<open>box\<close> is the address of the malloc'ed cell that holds the function, \<open>TIMEOUT_CB\<close>
  and \<open>IMMEDIATE_CB\<close> the code addresses. Converting a double outside the range of \<open>uint64_t\<close> to one is
  undefined in C, the result \<open>None\<close>; so is a negative one of at most \<open>-1\<close>.
\<close>

definition timeout_delay :: "Value list \<Rightarrow> u64 option" where
  "timeout_delay args =
     (case args of
        _ # d # _ \<Rightarrow>
          if IS_INTEGER d then Some (scast (get_integer d))
          else if IS_DOUBLE d then map_option word_of_int (f64_to_uint64 (get_double d)) else Some 0
      | _ \<Rightarrow> Some 0)"

definition js_global_set_timeout ::
  "u64 \<Rightarrow> u64 \<Rightarrow> u64 \<Rightarrow> EventLoop \<Rightarrow> Value list \<Rightarrow> (Value \<times> EventLoop) option" where
  "js_global_set_timeout TIMEOUT_CB now box loop args =
     (case args of
        [] \<Rightarrow> Some (VAL_UNDEFINED, loop)
      | f # _ \<Rightarrow>
          if \<not> IS_POINTER f then Some (VAL_UNDEFINED, loop)
          else map_option (\<lambda>delay.
            (VAL_UNDEFINED, el_set_timeout now loop delay TIMEOUT_CB box VAL_UNDEFINED))
            (timeout_delay args))"

text \<open>\<open>setImmediate\<close> returns the handle's address squeezed into a 32-bit integer value.\<close>

definition js_global_set_immediate ::
  "u64 \<Rightarrow> u64 \<Rightarrow> u64 \<Rightarrow> EventLoop \<Rightarrow> Value list \<Rightarrow> Value \<times> EventLoop" where
  "js_global_set_immediate IMMEDIATE_CB addr box loop args =
     (case args of
        [] \<Rightarrow> (VAL_UNDEFINED, loop)
      | f # _ \<Rightarrow>
          if \<not> IS_POINTER f then (VAL_UNDEFINED, loop)
          else let (handle, loop) = el_set_immediate addr loop IMMEDIATE_CB box VAL_UNDEFINED
               in (make_integer (ucast (c_addr handle)), loop))"

definition handle_at :: "EventLoop \<Rightarrow> u64 \<Rightarrow> CheckHandle option" where
  "handle_at loop a = find (\<lambda>c. c_addr c = a) (chain (checks loop))"

definition js_global_clear_immediate :: "EventLoop \<Rightarrow> Value list \<Rightarrow> Value \<times> EventLoop" where
  "js_global_clear_immediate loop args =
     (case args of
        [] \<Rightarrow> (VAL_UNDEFINED, loop)
      | v # _ \<Rightarrow>
          if \<not> IS_INTEGER v then (VAL_UNDEFINED, loop)
          else (VAL_UNDEFINED, el_clear_immediate loop (handle_at loop (scast (get_integer v)))))"

section \<open>Worker message queues\<close>

record MessageNode =
  mn_addr :: nat
  payload :: string

definition push_message :: "nat \<Rightarrow> MessageNode lqueue \<Rightarrow> string \<Rightarrow> MessageNode lqueue" where
  "push_message addr q pl = lq_push \<lparr>mn_addr = addr, payload = pl\<rparr> q"

definition pop_message :: "MessageNode lqueue \<Rightarrow> (string \<times> MessageNode lqueue) option" where
  "pop_message q = map_option (\<lambda>(node, q'). (payload node, q')) (lq_pop q)"

section \<open>Order of execution\<close>

text \<open>
  A call that records the function it ran and enqueues the microtasks \<open>spawn\<close> prescribes for it: what
  a JavaScript callback can do to the queue.
\<close>

definition enqueue_all :: "(Value \<times> Value) list \<Rightarrow> VMQueues \<Rightarrow> VMQueues" where
  "enqueue_all ts vm = fold (\<lambda>(cb, arg) vm. vm_enqueue_microtask vm cb arg) ts vm"

definition spawning_call ::
  "(Value \<times> Value \<Rightarrow> (Value \<times> Value) list) \<Rightarrow> Value \<Rightarrow> Value list \<Rightarrow> (Value \<times> Value) list vmq \<Rightarrow>
   (Value \<times> Value) list vmq" where
  "spawning_call spawn cb args s =
     (case args of
        [] \<Rightarrow> s
      | arg # _ \<Rightarrow> (enqueue_all (spawn (cb, arg)) (fst s), snd s @ [(cb, arg)]))"

definition microtasks_of :: "VMQueues \<Rightarrow> (Value \<times> Value) list" where
  "microtasks_of vm = map (\<lambda>e. (te_callback e, te_arg e)) (chain (microtask_q vm))"

definition vmq_inv :: "VMQueues \<Rightarrow> bool" where
  "vmq_inv vm \<longleftrightarrow> lq_inv (microtask_q vm) \<and> lq_inv (next_tick_q vm) \<and>
     (\<forall>e \<in> set (chain (microtask_q vm)) \<union> set (chain (next_tick_q vm)). te_addr e < fresh_node vm)"

lemma enqueue_microtask_inv:
  assumes "vmq_inv vm"
  shows "vmq_inv (vm_enqueue_microtask vm cb arg) \<and>
    microtasks_of (vm_enqueue_microtask vm cb arg) = microtasks_of vm @ [(cb, arg)]"
proof -
  let ?e = "\<lparr>te_addr = fresh_node vm, te_callback = cb, te_arg = arg\<rparr>"
  have "?e \<notin> set (chain (microtask_q vm))" using assms by (force simp: vmq_inv_def)
  then have "lq_inv (lq_push ?e (microtask_q vm)) \<and>
      chain (lq_push ?e (microtask_q vm)) = chain (microtask_q vm) @ [?e]"
    using assms by (intro lqueue.push_law) (simp_all add: vmq_inv_def)
  then show ?thesis using assms
    by (auto simp: vm_enqueue_microtask_def Let_def vmq_inv_def microtasks_of_def less_Suc_eq)
qed

lemma enqueue_all_inv:
  "vmq_inv vm \<Longrightarrow> vmq_inv (enqueue_all ts vm) \<and>
     microtasks_of (enqueue_all ts vm) = microtasks_of vm @ ts"
proof (induction ts arbitrary: vm)
  case Nil
  then show ?case by (simp add: enqueue_all_def)
next
  case (Cons t ts)
  obtain cb arg where t: "t = (cb, arg)" by force
  have "enqueue_all (t # ts) vm = enqueue_all ts (vm_enqueue_microtask vm cb arg)"
    by (simp add: enqueue_all_def t)
  then show ?case using Cons enqueue_microtask_inv [OF Cons.prems, of cb arg] t by simp
qed

lemma pop_microtask_inv:
  assumes "vmq_inv vm" "lq_pop (microtask_q vm) = Some (e, q)"
  shows "vmq_inv (vm\<lparr>microtask_q := q\<rparr>)"
    "microtasks_of vm = (te_callback e, te_arg e) # microtasks_of (vm\<lparr>microtask_q := q\<rparr>)"
proof -
  have "lq_inv q" "chain (microtask_q vm) = e # chain q"
    using lqueue.pop_some [OF _ assms(2)] assms(1) by (auto simp: vmq_inv_def)
  then show "vmq_inv (vm\<lparr>microtask_q := q\<rparr>)"
    "microtasks_of vm = (te_callback e, te_arg e) # microtasks_of (vm\<lparr>microtask_q := q\<rparr>)"
    using assms(1) by (auto simp: vmq_inv_def microtasks_of_def)
qed

lemma drain_microtasks_simps:
  "vm_drain_microtasks call_fn s =
     (case lq_pop (microtask_q (fst s)) of
        None \<Rightarrow> Some s
      | Some (e, q) \<Rightarrow> vm_drain_microtasks call_fn
          (call_fn (te_callback e) [te_arg e] ((fst s)\<lparr>microtask_q := q\<rparr>, snd s)))"
  unfolding vm_drain_microtasks_def by (subst drain_loop.simps) simp

text \<open>One measure for all runs: a task weighs more than all it spawns.\<close>

lemma drain_microtasks_run:
  assumes "vmq_inv vm" "log @ microtasks_of vm = init @ concat (map spawn log)"
    and weight: "\<And>t. (\<Sum>u\<leftarrow>spawn t. weight u) < (weight t :: nat)"
  shows "\<exists>vm' log'. vm_drain_microtasks (spawning_call spawn) (vm, log) = Some (vm', log') \<and>
    microtasks_of vm' = [] \<and> vmq_inv vm' \<and> log' = init @ concat (map spawn log')"
  using assms(1,2)
proof (induction "\<Sum>u\<leftarrow>microtasks_of vm. weight u" arbitrary: vm log rule: less_induct)
  case less
  show ?case
  proof (cases "lq_pop (microtask_q vm)")
    case None
    then have "microtasks_of vm = []" by (simp add: microtasks_of_def lq_pop_def split: list.splits)
    then show ?thesis using None less.prems by (subst drain_microtasks_simps) simp
  next
    case (Some p)
    then obtain e q where pop: "lq_pop (microtask_q vm) = Some (e, q)" by (cases p) simp
    let ?t = "(te_callback e, te_arg e)" and ?vm = "vm\<lparr>microtask_q := q\<rparr>"
    let ?vm' = "enqueue_all (spawn ?t) ?vm"
    note pop_inv = pop_microtask_inv [OF less.prems(1) pop]
    have inv: "vmq_inv ?vm'" and ms: "microtasks_of ?vm' = microtasks_of ?vm @ spawn ?t"
      using enqueue_all_inv [OF pop_inv(1)] by auto
    have smaller: "(\<Sum>u\<leftarrow>microtasks_of ?vm'. weight u) < (\<Sum>u\<leftarrow>microtasks_of vm. weight u)"
      using weight [of ?t] by (simp add: ms pop_inv(2))
    have order: "(log @ [?t]) @ microtasks_of ?vm' = init @ concat (map spawn (log @ [?t]))"
      using less.prems(2) by (simp add: ms pop_inv(2))
    show ?thesis using less.hyps [OF smaller inv order]
      by (subst drain_microtasks_simps) (simp add: pop spawning_call_def)
  qed
qed

section \<open>Properties\<close>


definition no_tasks :: VMQueues where
  "no_tasks = \<lparr>microtask_q = lq_empty, next_tick_q = lq_empty, fresh_node = 0\<rparr>"


lemma word_low_sign_extends: "(a :: u64) < 2 ^ 31 \<Longrightarrow> scast (ucast a :: u32) = a"
proof -
  assume "a < 2 ^ 31"
  then have a: "a = take_bit 31 a" by (simp add: less_mask_eq take_bit_eq_mask)
  have "scast (ucast (take_bit 31 a) :: u32) = take_bit 31 a"
    by (rule bit_word_eqI) (auto simp: bit_simps)
  with a show ?thesis by simp
qed

lemma word_high_sign_extends:
  assumes "(2 :: u64) ^ 31 \<le> a" "a < 2 ^ 63"
  shows "scast (ucast a :: u32) \<noteq> a"
proof
  assume eq: "scast (ucast a :: u32) = a"
  have "sint a = sint (ucast a :: u32)" using eq sint_up_scast [where w = "ucast a :: u32" and 'b = 64] by (simp add: is_up)
  moreover have "sint (ucast a :: u32) < 2 ^ 31" using sint_lt [of "ucast a :: u32"] by simp
  moreover have "sint a = uint a" 
    using assms(2) signed_take_bit_int_eq_self [of 63 "uint a"]
    by (simp add: sint_uint word_less_def order_trans [OF _ uint_ge_0])
  moreover have "2 ^ 31 \<le> uint a" using assms(1) by (simp add: word_le_def)
  ultimately show False by simp
qed

lemma set_immediate_chain:
  assumes "lq_inv (checks loop)" "\<forall>c\<in>set (chain (checks loop)). c_addr c \<noteq> addr"
    and "IS_POINTER f" "js_global_set_immediate code addr box loop [f] = (v, loop')"
  shows "\<exists>h. c_addr h = addr \<and> lq_inv (checks loop') \<and> v = make_integer (ucast addr) \<and>
    chain (checks loop') = chain (checks loop) @ [h]"
proof -
  let ?h = "\<lparr>c_addr = addr, c_cb = code, c_arg = box, c_trace = VAL_UNDEFINED\<rparr>"
  have "?h \<notin> set (chain (checks loop))" using assms(2) by force
  then show ?thesis using assms lqueue.push_law [OF assms(1), of ?h]
    by (auto simp: js_global_set_immediate_def el_set_immediate_def Let_def)
qed

lemma clear_immediate_chain:
  assumes "lq_inv (checks loop)"
  shows "chain (checks (snd (js_global_clear_immediate loop [make_integer i]))) =
    (case handle_at loop (scast i) of
       None \<Rightarrow> chain (checks loop)
     | Some h \<Rightarrow> filter (\<lambda>c. c \<noteq> h) (chain (checks loop)))"
proof -
  have "IS_INTEGER (make_integer i)" "get_integer (make_integer i) = i" by simp_all
  moreover have "el_clear_immediate loop None = loop"
    by (simp add: el_clear_immediate_def split: list.splits)
  ultimately show ?thesis using el_clear_immediate_spec [OF assms]
    by (simp add: js_global_clear_immediate_def split: option.splits)
qed

text \<open>clear_immediate_low_addresses (error): \<open>setImmediate\<close> hands out the handle's address as a 32-bit
  integer. \<open>clearImmediate\<close> undoes it for a handle below 2 GiB; for any other user-space address it
  leaves the immediate in the queue, because the truncated address is not the handle's.\<close>

theorem clear_immediate_low_addresses:
  assumes "lq_inv (checks loop)" "\<forall>c\<in>set (chain (checks loop)). c_addr c \<noteq> addr"
    and "IS_POINTER f" "js_global_set_immediate code addr box loop [f] = (v, loop')"
  shows "(addr < 2 ^ 31 \<longrightarrow>
      chain (checks (snd (js_global_clear_immediate loop' [v]))) = chain (checks loop)) \<and>
    (2 ^ 31 \<le> addr \<and> addr < 2 ^ 63 \<longrightarrow>
      (\<exists>c\<in>set (chain (checks (snd (js_global_clear_immediate loop' [v])))). c_addr c = addr))"
proof -
  obtain h where h: "c_addr h = addr" "lq_inv (checks loop')" "v = make_integer (ucast addr)"
    "chain (checks loop') = chain (checks loop) @ [h]"
    using set_immediate_chain [OF assms] by blast
  let ?a = "scast (ucast addr :: u32) :: u64"
  have low: "handle_at loop' ?a = Some h" if "?a = addr"
    using that h(1,4) assms(2) by (auto simp: handle_at_def find_Some_iff nth_append intro!: exI [of _ "length (chain (checks loop))"])
  have "h \<notin> set (chain (checks loop))" using h(1) assms(2) by blast
  then have keep: "filter (\<lambda>c. c \<noteq> h) (chain (checks loop')) = chain (checks loop)"
    using h(4) by (simp add: filter_neq_id)
  have high: "c \<noteq> h" if "handle_at loop' ?a = Some c" "?a \<noteq> addr" for c
    using that h(1) by (auto simp: handle_at_def find_Some_iff)
  show ?thesis unfolding h(3) clear_immediate_chain [OF h(2)]
    using low keep high h(1,4) word_low_sign_extends [of addr] word_high_sign_extends [of addr]
    by (auto split: option.splits)
qed


theorem clear_immediate_low_addresses_witness:
  "\<exists>c\<in>set (chain (checks (snd (js_global_clear_immediate
       (snd (js_global_set_immediate 1 0x7f0000001000 2 el_init [make_pointer 64]))
       [fst (js_global_set_immediate 1 0x7f0000001000 2 el_init [make_pointer 64])])))).
     c_addr c = 0x7f0000001000"
  using clear_immediate_low_addresses [of el_init "0x7f0000001000" "make_pointer 64" 1 2
    "fst (js_global_set_immediate 1 0x7f0000001000 2 el_init [make_pointer 64])"
    "snd (js_global_set_immediate 1 0x7f0000001000 2 el_init [make_pointer 64])"]
  by (simp add: el_init_def lq_inv_def lq_empty_def)

text \<open>timeout_callback_not_traced (safety, negative): the collector's walk over the event loop does not
  reach the function given to \<open>setTimeout\<close>. The timer holds the address of a malloc'ed cell, which
  the walk hands to the tracer as if it were a value; such an address is never a tagged pointer.\<close>

theorem timeout_callback_not_traced:
  assumes "box < 2 ^ 48" "timers loop = []" "chain (checks loop) = []"
    and "js_global_set_timeout code now box loop args = Some (v, loop')"
  shows "\<forall>root\<in>set (el_trace_roots (Some loop') []). \<not> IS_POINTER root"
proof -
  have "\<not> IS_POINTER box" using assms(1) by simp
  moreover have "\<not> IS_POINTER VAL_UNDEFINED" by simp
  ultimately show ?thesis using assms(2-)
    by (auto simp: js_global_set_timeout_def el_set_timeout_def timer_insert_def el_trace_roots_def
        split: list.splits if_splits)
qed

theorem timeout_callback_not_traced_witness:
  "filter IS_POINTER (el_trace_roots (Some (snd (the
     (js_global_set_timeout 1 5 0x7f0000002000 el_init [make_pointer 64])))) []) = []"
  unfolding filter_empty_conv
  by (rule timeout_callback_not_traced [of "0x7f0000002000" el_init 1 5 "[make_pointer 64]" VAL_UNDEFINED])
    (simp_all add: el_init_def lq_empty_def js_global_set_timeout_def timeout_delay_def)

end
