(* ===== verification/Thread_Pool.thy ===== *)
theory Thread_Pool
  imports Linked_Queue "HOL-Library.Multiset"
begin

text \<open>
  Model of \<open>src/src/thread_pool.c\<close>: the work queue, the worker threads, the completion queue and the
  main thread's drain, as a step relation in which the threads interleave. One step is one critical
  section of the code (or the code between two of them), so every interleaving of the threads is a
  sequence of steps. A work item is known by its address; its status field lives in \<open>status\<close>.
\<close>

section \<open>State\<close>

definition TP_NUM_WORKERS :: nat where "TP_NUM_WORKERS = 4"

text \<open>Where a worker is in the loop of \<open>worker_main\<close>: before the dequeue, running an item's \<open>work\<close>
  function, past the push to the completion queue with the wakeup byte still to write, or gone.\<close>

datatype worker = Waiting | Working u64 | Waking | Exited

text \<open>
  What the main thread is in the middle of, innermost first: \<open>Submitting\<close> between the two critical
  sections of \<open>tp_submit\<close>, \<open>Draining\<close> in the loop of \<open>tp_drain_completions\<close>, \<open>InAfter\<close> inside the
  \<open>after\<close> callback of an item, from where it may submit or drain again.
\<close>

datatype main_frame = Submitting u64 | Draining | InAfter u64

record pool =
  work_q :: "u64 lqueue"
  done_q :: "u64 lqueue"
  status :: "u64 \<Rightarrow> int"
  threads :: "worker list"
  main_stack :: "main_frame list"
  pending_count :: int
  pool_active :: bool
  pipe_bytes :: nat

definition tp_init :: "(u64 \<Rightarrow> int) \<Rightarrow> pool" where
  "tp_init st = \<lparr>work_q = lq_empty, done_q = lq_empty, status = st,
     threads = replicate TP_NUM_WORKERS Waiting, main_stack = [], pending_count = 0,
     pool_active = True, pipe_bytes = 0\<rparr>"

section \<open>Operations\<close>

text \<open>\<open>tp_submit\<close>: count, then queue.\<close>

definition submit_count :: "u64 \<Rightarrow> pool \<Rightarrow> pool" where
  "submit_count item s =
     s\<lparr>pending_count := pending_count s + 1, main_stack := Submitting item # main_stack s\<rparr>"

definition submit_push :: "u64 \<Rightarrow> pool \<Rightarrow> pool" where
  "submit_push item s =
     s\<lparr>work_q := lq_push item (work_q s), main_stack := List.tl (main_stack s)\<rparr>"

text \<open>\<open>worker_main\<close> of worker \<open>i\<close>: dequeue and register as active; run the work, set the status, push
  to the completion queue and unregister; write the wakeup byte; or leave.\<close>

definition worker_dequeue :: "nat \<Rightarrow> u64 \<Rightarrow> u64 lqueue \<Rightarrow> pool \<Rightarrow> pool" where
  "worker_dequeue i item q s = s\<lparr>work_q := q, threads := (threads s)[i := Working item]\<rparr>"

definition worker_finish :: "nat \<Rightarrow> u64 \<Rightarrow> int \<Rightarrow> pool \<Rightarrow> pool" where
  "worker_finish i item st s =
     s\<lparr>status := (status s)(item := st), done_q := lq_push item (done_q s),
       threads := (threads s)[i := Waking]\<rparr>"

text \<open>The write end does not block: on a full pipe the byte is dropped.\<close>

definition worker_wake :: "nat \<Rightarrow> bool \<Rightarrow> pool \<Rightarrow> pool" where
  "worker_wake i full s =
     s\<lparr>pipe_bytes := (if full then pipe_bytes s else pipe_bytes s + 1),
       threads := (threads s)[i := Waiting]\<rparr>"

definition worker_exit :: "nat \<Rightarrow> pool \<Rightarrow> pool" where
  "worker_exit i s = s\<lparr>threads := (threads s)[i := Exited]\<rparr>"

text \<open>\<open>tp_drain_completions\<close>: empty the pipe, then take items off the completion queue until it is
  empty; the count goes down after the item's \<open>after\<close> callback.\<close>

definition drain_begin :: "pool \<Rightarrow> pool" where
  "drain_begin s = s\<lparr>pipe_bytes := 0, main_stack := Draining # main_stack s\<rparr>"

definition drain_take :: "u64 \<Rightarrow> u64 lqueue \<Rightarrow> pool \<Rightarrow> pool" where
  "drain_take item q s = s\<lparr>done_q := q, main_stack := InAfter item # main_stack s\<rparr>"

definition drain_after :: "pool \<Rightarrow> pool" where
  "drain_after s =
     s\<lparr>pending_count := pending_count s - 1, main_stack := List.tl (main_stack s)\<rparr>"

definition drain_end :: "pool \<Rightarrow> pool" where
  "drain_end s = s\<lparr>main_stack := List.tl (main_stack s)\<rparr>"

definition tp_free_signal :: "pool \<Rightarrow> pool" where
  "tp_free_signal s = s\<lparr>pool_active := False\<rparr>"

definition tp_pending_count :: "pool \<Rightarrow> int" where
  "tp_pending_count s = pending_count s"

text \<open>\<open>active_items\<close>, and the items \<open>tp_mark_gc_roots\<close> marks, in its order.\<close>

definition active_items :: "pool \<Rightarrow> u64 option list" where
  "active_items s = map (\<lambda>w. case w of Working x \<Rightarrow> Some x | _ \<Rightarrow> None) (threads s)"

definition tp_mark_gc_roots :: "pool \<Rightarrow> u64 list" where
  "tp_mark_gc_roots s =
     chain (work_q s) @ chain (done_q s) @ concat (map (\<lambda>x. case x of Some i \<Rightarrow> [i] | None \<Rightarrow> []) (active_items s))"

section \<open>The interleaved system\<close>

text \<open>
  Events of a run. The main thread may submit when it is idle or inside an \<open>after\<close> callback, an item
  that is not already in flight: the header gives the pool ownership of the item until \<open>after\<close>
  returns.
\<close>

datatype event =
  ESubmit u64 | EPush u64 | EStart nat u64 | EFinish nat u64 int | EWake nat | EExit nat
| EDrain | ETake u64 | EAfter u64 int | EDrained | EFree

definition main_may_call :: "pool \<Rightarrow> bool" where
  "main_may_call s = (case main_stack s of [] \<Rightarrow> True | InAfter _ # _ \<Rightarrow> True | _ \<Rightarrow> False)"

definition working_items :: "worker list \<Rightarrow> u64 list" where
  "working_items ws = concat (map (\<lambda>w. case w of Working x \<Rightarrow> [x] | _ \<Rightarrow> []) ws)"

definition main_items :: "main_frame list \<Rightarrow> u64 list" where
  "main_items fs = concat (map (\<lambda>f. case f of Submitting x \<Rightarrow> [x] | InAfter x \<Rightarrow> [x] | Draining \<Rightarrow> []) fs)"

definition in_flight :: "pool \<Rightarrow> u64 list" where
  "in_flight s =
     chain (work_q s) @ working_items (threads s) @ chain (done_q s) @ main_items (main_stack s)"

inductive tp_step :: "pool \<Rightarrow> event \<Rightarrow> pool \<Rightarrow> bool" where
  submit: "main_may_call s \<Longrightarrow> item \<notin> set (in_flight s) \<Longrightarrow>
    tp_step s (ESubmit item) (submit_count item s)"
| push: "main_stack s = Submitting item # fs \<Longrightarrow> tp_step s (EPush item) (submit_push item s)"
| start: "i < length (threads s) \<Longrightarrow> threads s ! i = Waiting \<Longrightarrow> lq_pop (work_q s) = Some (item, q) \<Longrightarrow>
    tp_step s (EStart i item) (worker_dequeue i item q s)"
| finish: "i < length (threads s) \<Longrightarrow> threads s ! i = Working item \<Longrightarrow>
    tp_step s (EFinish i item st) (worker_finish i item st s)"
| wake: "i < length (threads s) \<Longrightarrow> threads s ! i = Waking \<Longrightarrow> tp_step s (EWake i) (worker_wake i full s)"
| exit: "i < length (threads s) \<Longrightarrow> threads s ! i = Waiting \<Longrightarrow> \<not> pool_active s \<Longrightarrow>
    chain (work_q s) = [] \<Longrightarrow> tp_step s (EExit i) (worker_exit i s)"
| drain: "main_may_call s \<Longrightarrow> tp_step s EDrain (drain_begin s)"
| take_item: "main_stack s = Draining # fs \<Longrightarrow> lq_pop (done_q s) = Some (item, q) \<Longrightarrow>
    tp_step s (ETake item) (drain_take item q s)"
| after: "main_stack s = InAfter item # fs \<Longrightarrow>
    tp_step s (EAfter item (status s item)) (drain_after s)"
| drained: "main_stack s = Draining # fs \<Longrightarrow> lq_pop (done_q s) = None \<Longrightarrow>
    tp_step s EDrained (drain_end s)"
| free: "main_stack s = [] \<Longrightarrow> tp_step s EFree (tp_free_signal s)"

inductive tp_run :: "pool \<Rightarrow> event list \<Rightarrow> pool \<Rightarrow> bool" where
  nil: "tp_run s [] s"
| snoc: "tp_run s tr t \<Longrightarrow> tp_step t e u \<Longrightarrow> tp_run s (tr @ [e]) u"

inductive_cases tp_stepE: "tp_step s e t"

text \<open>Submissions and completions of a trace.\<close>

definition submitted :: "event list \<Rightarrow> u64 list" where
  "submitted tr = concat (map (\<lambda>e. case e of ESubmit x \<Rightarrow> [x] | _ \<Rightarrow> []) tr)"

definition pushed :: "event list \<Rightarrow> u64 list" where
  "pushed tr = concat (map (\<lambda>e. case e of EPush x \<Rightarrow> [x] | _ \<Rightarrow> []) tr)"

definition started :: "event list \<Rightarrow> u64 list" where
  "started tr = concat (map (\<lambda>e. case e of EStart i x \<Rightarrow> [x] | _ \<Rightarrow> []) tr)"

definition completed :: "event list \<Rightarrow> u64 list" where
  "completed tr = concat (map (\<lambda>e. case e of EAfter x st \<Rightarrow> [x] | _ \<Rightarrow> []) tr)"

lemmas trace_defs = submitted_def pushed_def started_def completed_def

section \<open>Invariant\<close>

definition pool_inv :: "pool \<Rightarrow> bool" where
  "pool_inv s \<longleftrightarrow> lq_inv (work_q s) \<and> lq_inv (done_q s) \<and> distinct (in_flight s) \<and>
     pending_count s = int (length (in_flight s)) \<and> length (threads s) = TP_NUM_WORKERS"

lemma working_items_update:
  assumes "i < length ws"
  shows "mset (working_items (ws[i := w])) + mset (working_items [ws ! i]) =
    mset (working_items ws) + mset (working_items [w])"
  using assms
proof (induction ws arbitrary: i)
  case (Cons v ws)
  then show ?case by (cases i) (auto simp: working_items_def)
qed simp

lemma working_items_single [simp]:
  "working_items [Waiting] = []" "working_items [Waking] = []" "working_items [Exited] = []"
  "working_items [Working x] = [x]"
  by (simp_all add: working_items_def)

lemma main_items_simps [simp]:
  "main_items [] = []" "main_items (Draining # fs) = main_items fs"
  "main_items (Submitting x # fs) = x # main_items fs" "main_items (InAfter x # fs) = x # main_items fs"
  by (simp_all add: main_items_def)

text \<open>Distinctness and length depend on the multiset of items in flight only.\<close>

lemma in_flight_mset: "mset (in_flight s) = mset (chain (work_q s)) + mset (working_items (threads s)) +
    mset (chain (done_q s)) + mset (main_items (main_stack s))"
  by (simp add: in_flight_def)

lemma in_flight_disjoint:
  assumes "distinct (in_flight s)"
  shows "x \<in> set (main_items (main_stack s)) \<Longrightarrow> x \<notin> set (chain (work_q s))"
    "x \<in> set (working_items (threads s)) \<Longrightarrow> x \<notin> set (chain (done_q s))"
  using assms by (auto simp: in_flight_def)

lemma working_items_nth: "i < length ws \<Longrightarrow> ws ! i = Working x \<Longrightarrow> x \<in> set (working_items ws)"
  by (force simp: working_items_def in_set_conv_nth)

definition flow :: "pool \<Rightarrow> event \<Rightarrow> pool \<Rightarrow> bool" where
  "flow s e t \<longleftrightarrow> lq_inv (work_q t) \<and> lq_inv (done_q t) \<and> length (threads t) = length (threads s) \<and>
     mset (in_flight t) + mset (completed [e]) = mset (in_flight s) + mset (submitted [e]) \<and>
     pending_count t + int (length (completed [e])) =
       pending_count s + int (length (submitted [e]))"

lemmas step_defs = submit_count_def submit_push_def worker_dequeue_def worker_finish_def
  worker_wake_def worker_exit_def drain_begin_def drain_take_def drain_after_def drain_end_def
  tp_free_signal_def

lemma tp_step_flow:
  assumes "pool_inv s" "tp_step s e t"
  shows "flow s e t"
  using assms(2)
proof (cases rule: tp_step.cases)
  case (submit item)
  then show ?thesis using assms(1)
    by (auto simp: flow_def pool_inv_def in_flight_mset step_defs trace_defs)
next
  case (push item fs)
  then have "item \<notin> set (chain (work_q s))"
    using in_flight_disjoint(1) [of s item] assms(1) by (simp add: pool_inv_def)
  then show ?thesis using push assms(1) lqueue.push_law [of "work_q s" item]
    by (auto simp: flow_def pool_inv_def in_flight_mset step_defs trace_defs)
next
  case (start i item q)
  then show ?thesis
    using assms(1) working_items_update [of i "threads s" "Working item"]
      lqueue.pop_some [of "work_q s" item q]
    by (auto simp: flow_def pool_inv_def in_flight_mset step_defs trace_defs)
next
  case (finish i item st)
  then have "item \<notin> set (chain (done_q s))"
    using in_flight_disjoint(2) [of s item] working_items_nth assms(1) by (simp add: pool_inv_def)
  then show ?thesis
    using finish assms(1) working_items_update [of i "threads s" Waking]
      lqueue.push_law [of "done_q s" item]
    by (auto simp: flow_def pool_inv_def in_flight_mset step_defs trace_defs)
next
  case (wake i full)
  then show ?thesis using assms(1) working_items_update [of i "threads s" Waiting]
    by (auto simp: flow_def pool_inv_def in_flight_mset step_defs trace_defs)
next
  case (exit i)
  then show ?thesis using assms(1) working_items_update [of i "threads s" Exited]
    by (auto simp: flow_def pool_inv_def in_flight_mset step_defs trace_defs)
next
  case drain
  then show ?thesis using assms(1)
    by (auto simp: flow_def pool_inv_def in_flight_mset step_defs trace_defs)
next
  case (take_item fs item q)
  then show ?thesis using assms(1) lqueue.pop_some [of "done_q s" item q]
    by (auto simp: flow_def pool_inv_def in_flight_mset step_defs trace_defs)
next
  case (after item fs)
  then show ?thesis using assms(1)
    by (auto simp: flow_def pool_inv_def in_flight_mset step_defs trace_defs)
next
  case (drained fs)
  then show ?thesis using assms(1)
    by (auto simp: flow_def pool_inv_def in_flight_mset step_defs trace_defs)
next
  case free
  then show ?thesis using assms(1)
    by (auto simp: flow_def pool_inv_def in_flight_mset step_defs trace_defs)
qed

lemma submit_fresh: "tp_step s e t \<Longrightarrow> distinct (submitted [e]) \<and> set (submitted [e]) \<inter> set (in_flight s) = {}"
  by (auto elim!: tp_stepE simp: trace_defs)

lemma tp_step_inv:
  assumes "pool_inv s" "tp_step s e t"
  shows "pool_inv t"
proof -
  note fl = tp_step_flow [OF assms, unfolded flow_def]
  have "distinct (in_flight s @ submitted [e])"
    using submit_fresh [OF assms(2)] assms(1) by (auto simp: pool_inv_def)
  moreover have perm: "mset (in_flight s @ submitted [e]) = mset (in_flight t @ completed [e])"
    using fl by simp
  ultimately have "distinct (in_flight t @ completed [e])" by (metis mset_eq_imp_distinct_iff)
  moreover have "length (in_flight s) + length (submitted [e]) = length (in_flight t) + length (completed [e])"
    using perm by (metis length_append mset_eq_length)
  ultimately show ?thesis using fl assms(1) by (auto simp: pool_inv_def)
qed

lemma tp_init_inv: "pool_inv (tp_init st)"
  by (simp add: pool_inv_def tp_init_def lq_inv_def lq_empty_def in_flight_def working_items_def)

lemma tp_run_inv: "tp_run s tr t \<Longrightarrow> pool_inv s \<Longrightarrow> pool_inv t"
  by (induction rule: tp_run.induct) (auto intro: tp_step_inv)

lemma trace_append [simp]:
  "submitted (xs @ ys) = submitted xs @ submitted ys" "completed (xs @ ys) = completed xs @ completed ys"
  "pushed (xs @ ys) = pushed xs @ pushed ys" "started (xs @ ys) = started xs @ started ys"
  by (simp_all add: trace_defs)

lemma tp_run_conserves:
  "tp_run s tr t \<Longrightarrow> pool_inv s \<Longrightarrow>
   mset (in_flight s) + mset (submitted tr) = mset (completed tr) + mset (in_flight t)"
proof (induction rule: tp_run.induct)
  case (nil s)
  then show ?case by (simp add: trace_defs)
next
  case (snoc s tr t e u)
  then show ?case using tp_step_flow [OF tp_run_inv [OF snoc.hyps(1) snoc.prems] snoc.hyps(2)]
    by (simp add: flow_def ac_simps)
qed

lemma tp_step_fifo:
  assumes "pool_inv s" "tp_step s e t"
  shows "started [e] @ chain (work_q t) = chain (work_q s) @ pushed [e]"
  using assms(2)
proof (cases rule: tp_step.cases)
  case (push item fs)
  then have "item \<notin> set (chain (work_q s))"
    using in_flight_disjoint(1) [of s item] assms(1) by (simp add: pool_inv_def)
  then show ?thesis using push assms(1) lqueue.push_law [of "work_q s" item]
    by (auto simp: pool_inv_def step_defs trace_defs)
next
  case (start i item q)
  then show ?thesis using assms(1) lqueue.pop_some [of "work_q s" item q]
    by (auto simp: pool_inv_def step_defs trace_defs)
qed (auto simp: step_defs trace_defs)

lemma tp_run_fifo:
  "tp_run s tr t \<Longrightarrow> pool_inv s \<Longrightarrow> chain (work_q s) @ pushed tr = started tr @ chain (work_q t)"
proof (induction rule: tp_run.induct)
  case (nil s)
  then show ?case by (simp add: trace_defs)
next
  case (snoc s tr t e u)
  then show ?case using tp_step_fifo [OF tp_run_inv [OF snoc.hyps(1) snoc.prems] snoc.hyps(2)]
    by (metis append.assoc trace_append(3,4))
qed

text \<open>The status an item carries from its worker to its \<open>after\<close> callback.\<close>

definition results_inv :: "event list \<Rightarrow> pool \<Rightarrow> bool" where
  "results_inv tr s \<longleftrightarrow>
     (\<forall>x. x \<in> set (chain (done_q s)) \<or> InAfter x \<in> set (main_stack s) \<longrightarrow>
        (\<exists>i. EFinish i x (status s x) \<in> set tr))"

lemma in_after_in_flight: "InAfter x \<in> set fs \<Longrightarrow> x \<in> set (main_items fs)"
  by (force simp: main_items_def)

lemma tp_step_results:
  assumes "pool_inv s" "results_inv tr s" "tp_step s e t"
  shows "results_inv (tr @ [e]) t"
  using assms(3)
proof (cases rule: tp_step.cases)
  case (finish i item st)
  have "item \<in> set (working_items (threads s))" using finish working_items_nth by simp
  then have fresh: "item \<notin> set (chain (done_q s))" "InAfter item \<notin> set (main_stack s)"
    using assms(1) in_after_in_flight [of item "main_stack s"]
    by (auto simp: pool_inv_def in_flight_def)
  have "chain (lq_push item (done_q s)) = chain (done_q s) @ [item]"
    using fresh assms(1) by (simp add: lqueue.push_law pool_inv_def)
  then show ?thesis using finish assms(2) fresh by (auto simp: results_inv_def step_defs)
next
  case (take_item fs item q)
  have "chain (done_q s) = item # chain q"
    using take_item lqueue.pop_some [of "done_q s" item q] assms(1) by (simp add: pool_inv_def)
  then show ?thesis using take_item assms(2) by (auto simp: results_inv_def step_defs)
qed (use assms(2) in \<open>auto simp: results_inv_def step_defs dest: list.set_sel(2)\<close>)

lemma tp_run_results:
  "tp_run s tr t \<Longrightarrow> pool_inv s \<Longrightarrow> results_inv [] s \<Longrightarrow>
   results_inv tr t \<and> (\<forall>x st. EAfter x st \<in> set tr \<longrightarrow> (\<exists>i. EFinish i x st \<in> set tr))"
proof (induction rule: tp_run.induct)
  case (nil s)
  then show ?case by simp
next
  case (snoc s tr t e u)
  have inv: "pool_inv t" using tp_run_inv [OF snoc.hyps(1) snoc.prems(1)] .
  have res: "results_inv tr t" using snoc by blast
  have "\<exists>i. EFinish i x st \<in> set tr" if "e = EAfter x st" for x st
    using snoc.hyps(2) that res by (auto elim!: tp_stepE simp: results_inv_def)
  then show ?case using snoc.IH snoc.prems tp_step_results [OF inv res snoc.hyps(2)]
    by (metis Un_iff append_Nil in_set_conv_decomp set_ConsD set_append)
qed

section \<open>Properties\<close>

text \<open>C8 (invariant): over every interleaving of the main thread and the four workers,
  each submitted item is at any time either completed or in exactly one place (being submitted,
  queued, running, done, in its completion callback), and the pending count is the number of items
  in flight; so when it reads zero, every submitted item has completed exactly as often as it was
  submitted.\<close>

theorem pool_conserves_items:
  assumes "tp_run (tp_init st) tr s"
  shows "mset (submitted tr) = mset (completed tr) + mset (in_flight s) \<and>
    distinct (in_flight s) \<and> tp_pending_count s = int (length (in_flight s)) \<and>
    (tp_pending_count s = 0 \<longrightarrow> mset (submitted tr) = mset (completed tr))"
proof -
  have "pool_inv s" using tp_run_inv [OF assms tp_init_inv] .
  moreover have "in_flight (tp_init st) = []"
    by (simp add: tp_init_def in_flight_def working_items_def lq_empty_def)
  ultimately show ?thesis using tp_run_conserves [OF assms tp_init_inv]
    by (auto simp: pool_inv_def tp_pending_count_def)
qed

theorem pool_conserves_items_witness:
  "mset (submitted [ESubmit 8, EPush 8]) = mset (completed [ESubmit 8, EPush 8]) +
     mset (in_flight (submit_push 8 (submit_count 8 (tp_init (\<lambda>_. 0)))))"
proof -
  let ?s = "tp_init (\<lambda>_. 0)"
  have "tp_step ?s (ESubmit 8) (submit_count 8 ?s)"
    by (rule tp_step.submit)
      (simp_all add: main_may_call_def tp_init_def in_flight_def working_items_def lq_empty_def)
  then have "tp_run ?s ([] @ [ESubmit 8]) (submit_count 8 ?s)" by (rule tp_run.snoc [OF tp_run.nil])
  then have "tp_run ?s (([] @ [ESubmit 8]) @ [EPush 8]) (submit_push 8 (submit_count 8 ?s))"
    by (rule tp_run.snoc) (rule tp_step.push, simp add: submit_count_def tp_init_def)
  from pool_conserves_items [OF this] show ?thesis by simp
qed

text \<open>pool_starts_in_order (functional): work starts in the order it was queued, whichever workers take
  it, and a completion callback is handed the very status its worker left.\<close>

theorem pool_starts_in_order:
  assumes "tp_run (tp_init st) tr s"
  shows "pushed tr = started tr @ chain (work_q s) \<and>
    (\<forall>x r. EAfter x r \<in> set tr \<longrightarrow> (\<exists>i. EFinish i x r \<in> set tr))"
proof -
  have "results_inv [] (tp_init st)" by (simp add: results_inv_def tp_init_def lq_empty_def)
  then show ?thesis
    using tp_run_fifo [OF assms tp_init_inv] tp_run_results [OF assms tp_init_inv]
    by (simp add: tp_init_def lq_empty_def)
qed

theorem pool_starts_in_order_witness:
  "pushed [ESubmit 8, EPush 8] = started [ESubmit 8, EPush 8] @
     chain (work_q (submit_push 8 (submit_count 8 (tp_init (\<lambda>_. 0)))))"
proof -
  let ?s = "tp_init (\<lambda>_. 0)"
  have "tp_step ?s (ESubmit 8) (submit_count 8 ?s)"
    by (rule tp_step.submit)
      (simp_all add: main_may_call_def tp_init_def in_flight_def working_items_def lq_empty_def)
  then have "tp_run ?s ([] @ [ESubmit 8]) (submit_count 8 ?s)" by (rule tp_run.snoc [OF tp_run.nil])
  then have "tp_run ?s (([] @ [ESubmit 8]) @ [EPush 8]) (submit_push 8 (submit_count 8 ?s))"
    by (rule tp_run.snoc) (rule tp_step.push, simp add: submit_count_def tp_init_def)
  from pool_starts_in_order [OF this] show ?thesis by simp
qed

end
