(* ===== verification/Char_Codes.thy ===== *)
theory Char_Codes
  imports Curica_Prelude
begin

text \<open>
  Characters of C strings: named control and quote characters, the ASCII classes that the scanners
  of the runtime test for, and reading a C string at an index. A C string is the list of its bytes
  before the terminator; reading at or behind its end gives the terminator.
\<close>

definition NL :: char where "NL = CHR 0x0A"
definition CR :: char where "CR = CHR 0x0D"
definition TAB :: char where "TAB = CHR 0x09"
definition BSLASH :: char where "BSLASH = CHR 0x5C"
definition QUOTE :: char where "QUOTE = CHR 0x27"
definition DQUOTE :: char where "DQUOTE = CHR 0x22"
definition BACKTICK :: char where "BACKTICK = CHR 0x60"
definition NUL :: char where "NUL = CHR 0x00"

lemmas char_defs = NL_def CR_def TAB_def BSLASH_def QUOTE_def DQUOTE_def BACKTICK_def NUL_def

definition at :: "string \<Rightarrow> nat \<Rightarrow> char" where
  "at s i = (if i < length s then s ! i else NUL)"

definition char_in :: "char \<Rightarrow> char \<Rightarrow> char \<Rightarrow> bool" where
  "char_in lo hi c \<longleftrightarrow> (of_char lo :: nat) \<le> of_char c \<and> (of_char c :: nat) \<le> of_char hi"

definition is_digit :: "char \<Rightarrow> bool" where "is_digit = char_in CHR ''0'' CHR ''9''"
definition is_lower :: "char \<Rightarrow> bool" where "is_lower = char_in CHR ''a'' CHR ''z''"
definition is_upper :: "char \<Rightarrow> bool" where "is_upper = char_in CHR ''A'' CHR ''Z''"

lemmas char_class_defs = char_in_def is_digit_def is_lower_def is_upper_def

lemma at_less: "i < length s \<Longrightarrow> at s i = s ! i"
  by (simp add: at_def)

lemma at_end: "length s \<le> i \<Longrightarrow> at s i = NUL"
  by (simp add: at_def)

lemma at_not_NUL: "at s i \<noteq> NUL \<Longrightarrow> i < length s"
  by (auto simp: at_def split: if_splits)

text \<open>\<open>while (P(s[i])) i++\<close>, for a test \<open>P\<close> that the terminator fails.\<close>

function skip_while :: "(char \<Rightarrow> bool) \<Rightarrow> string \<Rightarrow> nat \<Rightarrow> nat" where
  "skip_while P s i = (if i < length s \<and> P (s ! i) then skip_while P s (i + 1) else i)"
  by pat_completeness auto
termination
  by (relation "measure (\<lambda>(P, s, i). length s - i)") auto

declare skip_while.simps [simp del]

lemma skip_while_ge: "i \<le> skip_while P s i"
proof (induction P s i rule: skip_while.induct)
  case (1 P s i)
  then show ?case by (subst skip_while.simps) auto
qed

lemma skip_while_le: "i \<le> length s \<Longrightarrow> skip_while P s i \<le> length s"
proof (induction P s i rule: skip_while.induct)
  case (1 P s i)
  then show ?case by (subst skip_while.simps) auto
qed

lemma skip_while_eq:
  assumes "i \<le> length s"
  shows "skip_while P s i = i + length (takeWhile P (drop i s))"
  using assms
proof (induction P s i rule: skip_while.induct)
  case (1 P s i)
  show ?case
  proof (cases "i < length s \<and> P (s ! i)")
    case True
    then show ?thesis using 1
      by (subst skip_while.simps) (simp add: Cons_nth_drop_Suc [symmetric])
  next
    case False
    then show ?thesis using 1(2)
      by (subst skip_while.simps) (cases "i < length s", simp_all add: Cons_nth_drop_Suc [symmetric])
  qed
qed

end
