(* ===== verification/Source_Tools.thy ===== *)
theory Source_Tools
  imports Char_Codes
begin

text \<open>
  Model of the two source-text tools: the TypeScript type stripper (\<open>src/src/ts_stripper.c\<close>), which
  blanks declarations in place, and the formatter (\<open>src/src/formatter.c\<close>) between reading and writing
  the file. Lengths and indices are \<open>int\<close> in the source; the model takes
  texts shorter than 2 GiB.
\<close>

section \<open>The type stripper\<close>

text \<open>\<open>while (i < len && source[i] is none of cs) i++\<close>\<close>

function scan_to :: "char list \<Rightarrow> string \<Rightarrow> nat \<Rightarrow> nat" where
  "scan_to cs s i = (if i < length s \<and> s ! i \<notin> set cs then scan_to cs s (i + 1) else i)"
  by pat_completeness auto
termination
  by (relation "measure (\<lambda>(cs, s, i). length s - i)") auto

text \<open>The brace-matching loop of the interface case.\<close>

function match_braces :: "string \<Rightarrow> nat \<Rightarrow> int \<Rightarrow> nat" where
  "match_braces s i n =
     (if i < length s \<and> n > 0
      then let n = (if s ! i = CHR ''{'' then n + 1 else n);
               n = (if s ! i = CHR ''}'' then n - 1 else n)
           in match_braces s (i + 1) n
      else i)"
  by pat_completeness auto
termination
  by (relation "measure (\<lambda>(s, i, n). length s - i)") auto

declare scan_to.simps [simp del] match_braces.simps [simp del]

definition blank_char :: "char \<Rightarrow> char" where
  "blank_char c = (if c \<noteq> NL \<and> c \<noteq> CR then CHR '' '' else c)"

definition blank :: "string \<Rightarrow> nat \<Rightarrow> nat \<Rightarrow> string" where
  "blank s start i = take start s @ map blank_char (take (i - start) (drop start s)) @ drop i s"

definition at_word_start :: "string \<Rightarrow> nat \<Rightarrow> bool" where
  "at_word_start s i \<longleftrightarrow> i = 0 \<or> s ! (i - 1) \<in> {CHR '' '', NL, TAB}"

definition starts_with :: "string \<Rightarrow> nat \<Rightarrow> string \<Rightarrow> bool" where
  "starts_with s i w \<longleftrightarrow> take (length w) (drop i s) = w"

definition interface_end :: "string \<Rightarrow> nat \<Rightarrow> nat" where
  "interface_end s i =
     (let i = scan_to [CHR ''{'', CHR '';''] s (i + 10)
      in if i < length s \<and> s ! i = CHR ''{'' then match_braces s (i + 1) 1 else i)"

definition type_end :: "string \<Rightarrow> nat \<Rightarrow> nat" where
  "type_end s i =
     (let i = scan_to [CHR '';'', NL] s (i + 5)
      in if i < length s \<and> s ! i = CHR '';'' then i + 1 else i)"

lemma scan_to_ge: "i \<le> scan_to cs s i"
proof (induction cs s i rule: scan_to.induct)
  case (1 cs s i)
  then show ?case by (subst scan_to.simps) auto
qed

lemma match_braces_ge: "i \<le> match_braces s i n"
proof (induction "length s - i" arbitrary: i n)
  case 0
  then show ?case by (subst match_braces.simps) simp
next
  case (Suc k)
  then have "i + 1 \<le> match_braces s (i + 1) m" for m by simp
  then have "i \<le> match_braces s (i + 1) m" for m by (meson add_leD1)
  then show ?case by (subst match_braces.simps) (simp add: Let_def)
qed

lemma interface_end_gt: "i < interface_end s i"
proof -
  let ?k = "scan_to [CHR ''{'', CHR '';''] s (i + 10)"
  have "i + 10 \<le> ?k" by (rule scan_to_ge)
  moreover have "?k + 1 \<le> match_braces s (?k + 1) 1" by (rule match_braces_ge)
  ultimately show ?thesis by (simp add: interface_end_def Let_def)
qed

lemma type_end_gt: "i < type_end s i"
  using scan_to_ge [of "i + 5" "[CHR '';'', NL]" s] by (auto simp: type_end_def Let_def)

lemma scan_to_le: "i \<le> length s \<Longrightarrow> scan_to cs s i \<le> length s"
proof (induction cs s i rule: scan_to.induct)
  case (1 cs s i)
  then show ?case by (subst scan_to.simps) auto
qed

lemma match_braces_le: "i \<le> length s \<Longrightarrow> match_braces s i n \<le> length s"
proof (induction s i n rule: match_braces.induct)
  case (1 s i n)
  then show ?case by (subst match_braces.simps) (auto simp: Let_def)
qed

lemma interface_end_le: "i + 10 < length s \<Longrightarrow> interface_end s i \<le> length s"
  using scan_to_le [of "i + 10" s] match_braces_le [of _ s] by (simp add: interface_end_def Let_def)

lemma type_end_le: "i + 5 < length s \<Longrightarrow> type_end s i \<le> length s"
  using scan_to_le [of "i + 5" s] by (simp add: type_end_def Let_def Suc_le_eq)

lemma length_blank [simp]: "start \<le> i \<Longrightarrow> length (blank s start i) = length s"
  by (simp add: blank_def)

text \<open>
  The state machine over strings and comments, one call per round of the \<open>for\<close> loop. \<open>in_string\<close> is
  0, or 1, 2, 3 within single, double or back quotes; \<open>in_comment\<close> is 0, or 1, 2 within a line or
  block comment.
\<close>

definition next_string :: "nat \<Rightarrow> char \<Rightarrow> nat" where
  "next_string in_string c =
     (if in_string = 0
      then if c = QUOTE then 1 else if c = DQUOTE then 2 else if c = BACKTICK then 3 else 0
      else if in_string = 1 \<and> c = QUOTE then 0
      else if in_string = 2 \<and> c = DQUOTE then 0
      else if in_string = 3 \<and> c = BACKTICK then 0 else in_string)"

definition strip_step :: "string \<Rightarrow> nat \<Rightarrow> nat \<Rightarrow> nat \<Rightarrow> string \<times> nat \<times> nat \<times> nat" where
  "strip_step s i in_string in_comment =
     (if in_comment = 0 \<and> in_string = 0 \<and> s ! i = CHR ''/'' \<and> at s (i + 1) = CHR ''/''
        then (s, i + 2, in_string, 1)
      else if in_comment = 0 \<and> in_string = 0 \<and> s ! i = CHR ''/'' \<and> at s (i + 1) = CHR ''*''
        then (s, i + 2, in_string, 2)
      else if in_comment = 1 \<and> s ! i = NL then (s, i + 1, in_string, 0)
      else if in_comment = 2 \<and> s ! i = CHR ''*'' \<and> at s (i + 1) = CHR ''/''
        then (s, i + 2, in_string, 0)
      else if in_comment = 0 \<and> in_string \<noteq> 0 \<and> s ! i = BSLASH then (s, i + 2, in_string, in_comment)
      else
        let in_string = (if in_comment = 0 then next_string in_string (s ! i) else in_string)
        in if in_string \<noteq> 0 \<or> in_comment \<noteq> 0 then (s, i + 1, in_string, in_comment)
           else if at_word_start s i \<and> i + 10 < length s \<and> starts_with s i ''interface ''
             then (blank s i (interface_end s i), interface_end s i, in_string, in_comment)
           else if at_word_start s i \<and> i + 5 < length s \<and> starts_with s i ''type ''
             then (blank s i (type_end s i), type_end s i, in_string, in_comment)
           else (s, i + 1, in_string, in_comment))"

text \<open>
  A step blanks characters other than line ends and moves on; this is all the loop's termination and
  its effect depend on.
\<close>

definition blanks :: "string \<Rightarrow> string \<Rightarrow> bool" where
  "blanks s t \<longleftrightarrow> length t = length s \<and>
     (\<forall>j<length s. t ! j = s ! j \<or> (t ! j = CHR '' '' \<and> s ! j \<noteq> NL \<and> s ! j \<noteq> CR))"

lemma blanks_refl [simp]: "blanks s s"
  by (simp add: blanks_def)

lemma blanks_trans: "blanks s t \<Longrightarrow> blanks t u \<Longrightarrow> blanks s u"
  unfolding blanks_def by metis

lemma blanks_blank: "start \<le> i \<Longrightarrow> blanks s (blank s start i)"
  by (auto simp: blanks_def blank_def blank_char_def nth_append)

lemma strip_step_blanks:
  "strip_step s i a b = (s', i', a', b') \<Longrightarrow> blanks s s' \<and> i < i'"
  using interface_end_gt [of i s] type_end_gt [of i s]
  by (auto simp: strip_step_def Let_def blanks_blank less_imp_le split: if_splits)

function strip_loop :: "string \<Rightarrow> nat \<Rightarrow> nat \<Rightarrow> nat \<Rightarrow> string" where
  "strip_loop s i in_string in_comment =
     (if i \<ge> length s then s
      else case strip_step s i in_string in_comment of
             (s', i', in_string', in_comment') \<Rightarrow> strip_loop s' i' in_string' in_comment')"
  by pat_completeness auto
termination
proof (relation "measure (\<lambda>(s, i, a, b). length s - i)")
  fix s i a b x y xa ya xb yb
  assume i: "\<not> length s \<le> i"
    and "(x, y) = strip_step s i a b" "(xa, ya) = y" "(xb, yb) = ya"
  then have "strip_step s i a b = (x, xa, xb, yb)" by simp
  from strip_step_blanks [OF this] i show "((x, xa, xb, yb), s, i, a, b) \<in> measure (\<lambda>(s, i, a, b). length s - i)"
    by (auto simp: blanks_def)
qed simp

declare strip_loop.simps [simp del]

definition strip_typescript_types :: "string option \<Rightarrow> string option" where
  "strip_typescript_types source = map_option (\<lambda>s. strip_loop s 0 0 0) source"

lemma strip_loop_blanks: "blanks s (strip_loop s i a b)"
proof (induction s i a b rule: strip_loop.induct)
  case (1 s i a b)
  then show ?case using strip_step_blanks [of s i a b]
    by (subst strip_loop.simps) (auto intro: blanks_trans split: prod.splits)
qed

section \<open>The formatter\<close>

text \<open>
  The state of the formatting loop: what has been written to \<open>out\<close>, the indentation level and the
  string, comment and indentation flags. \<open>out\<close> is the buffer up to \<open>out_idx\<close>.
\<close>

record fmt =
  out :: string
  indent :: int
  fmt_string :: nat
  fmt_comment :: nat
  needs_indent :: bool

definition fmt_init :: fmt where
  "fmt_init = \<lparr>out = [], indent = 0, fmt_string = 0, fmt_comment = 0, needs_indent = True\<rparr>"

definition put :: "string \<Rightarrow> fmt \<Rightarrow> fmt" where
  "put cs st = st\<lparr>out := out st @ cs\<rparr>"

definition ends_with :: "char \<Rightarrow> fmt \<Rightarrow> bool" where
  "ends_with c st \<longleftrightarrow> out st \<noteq> [] \<and> last (out st) = c"

definition drop_space :: "fmt \<Rightarrow> fmt" where
  "drop_space st = (if ends_with CHR '' '' st then st\<lparr>out := butlast (out st)\<rparr> else st)"

definition fmt_open_comment :: "string \<Rightarrow> nat \<Rightarrow> fmt \<Rightarrow> fmt" where
  "fmt_open_comment src i st =
     (if fmt_comment st = 0 \<and> fmt_string st = 0 \<and> src ! i = CHR ''/''
      then if at src (i + 1) = CHR ''/'' then st\<lparr>fmt_comment := 1\<rparr>
           else if at src (i + 1) = CHR ''*'' then st\<lparr>fmt_comment := 2\<rparr> else st
      else st)"

definition fmt_space :: "char \<Rightarrow> fmt \<Rightarrow> fmt" where
  "fmt_space c st =
     (let st = (if c = NL then st\<lparr>needs_indent := True\<rparr> else st)
      in if out st \<noteq> [] \<and> \<not> ends_with CHR '' '' st \<and> \<not> ends_with NL st then put '' '' st else st)"

definition fmt_close_brace :: "fmt \<Rightarrow> fmt" where
  "fmt_close_brace st =
     (let st = drop_space (st\<lparr>indent := indent st - 1\<rparr>);
          st = (if out st \<noteq> [] \<and> \<not> ends_with NL st then put [NL] st else st)
      in st\<lparr>needs_indent := True\<rparr>)"

definition fmt_indent :: "fmt \<Rightarrow> fmt" where
  "fmt_indent st =
     (if needs_indent st
      then (put (replicate (2 * nat (indent st)) CHR '' '') (drop_space st))\<lparr>needs_indent := False\<rparr>
      else st)"

definition fmt_code :: "char \<Rightarrow> fmt \<Rightarrow> fmt" where
  "fmt_code c st =
     (let st = (if c = CHR ''}'' then fmt_close_brace st else st);
          st = put [c] (fmt_indent st)
      in if c = CHR ''{'' then (put [NL] (st\<lparr>indent := indent st + 1\<rparr>))\<lparr>needs_indent := True\<rparr>
         else if c = CHR '';'' then (put [NL] st)\<lparr>needs_indent := True\<rparr>
         else st)"

definition fmt_step :: "string \<Rightarrow> nat \<Rightarrow> fmt \<Rightarrow> nat \<times> fmt" where
  "fmt_step src i st =
     (let c = src ! i; st = fmt_open_comment src i st
      in if fmt_comment st = 1
         then (i + 1, if c = NL then (put [c] st)\<lparr>fmt_comment := 0, needs_indent := True\<rparr> else put [c] st)
         else if fmt_comment st = 2
         then if c = CHR ''*'' \<and> at src (i + 1) = CHR ''/''
              then (i + 2, (put [c, CHR ''/''] st)\<lparr>fmt_comment := 0\<rparr>)
              else (i + 1, put [c] st)
         else if fmt_string st \<noteq> 0
         then if c = BSLASH then (i + 2, put [c, at src (i + 1)] st)
              else (i + 1, (put [c] st)\<lparr>fmt_string := next_string (fmt_string st) c\<rparr>)
         else
           let st = st\<lparr>fmt_string := next_string 0 c\<rparr>
           in if c \<in> {CHR '' '', TAB, NL, CR} then (i + 1, fmt_space c st)
              else (i + 1, fmt_code c st))"

lemma fmt_step_progress: "i < fst (fmt_step src i st)"
  by (auto simp: fmt_step_def Let_def)

function fmt_loop :: "string \<Rightarrow> nat \<Rightarrow> fmt \<Rightarrow> fmt" where
  "fmt_loop src i st =
     (if i \<ge> length src then st
      else case fmt_step src i st of (i', st') \<Rightarrow> fmt_loop src i' st')"
  by pat_completeness auto
termination
proof (relation "measure (\<lambda>(src, i, st). length src - i)")
  fix src i st x y
  assume "\<not> length src \<le> i" "(x, y) = fmt_step src i st"
  then show "((src, x, y), src, i, st) \<in> measure (\<lambda>(src, i, st). length src - i)"
    using fmt_step_progress [of i src st] by (auto simp: diff_less_mono2 dest: sym)
qed simp

declare fmt_loop.simps [simp del]

text \<open>The text written back, and the size of the buffer it is built in.\<close>

definition format_javascript :: "string \<Rightarrow> string" where
  "format_javascript src = out (fmt_loop src 0 fmt_init)"

definition fmt_buffer_size :: "string \<Rightarrow> nat" where
  "fmt_buffer_size src = length src * 2 + 1024"

section \<open>How much the formatter writes\<close>

definition opens :: "string \<Rightarrow> nat" where
  "opens s = length (filter (\<lambda>c. c = CHR ''{'') s)"

lemma out_put [simp]: "out (put cs st) = out st @ cs" "indent (put cs st) = indent st"
  by (simp_all add: put_def)

lemma drop_space_fields [simp]:
  "length (out (drop_space st)) \<le> length (out st)" "indent (drop_space st) = indent st"
  "needs_indent (drop_space st) = needs_indent st"
  by (simp_all add: drop_space_def)

lemma fmt_open_comment_fields [simp]:
  "out (fmt_open_comment src i st) = out st" "indent (fmt_open_comment src i st) = indent st"
  by (simp_all add: fmt_open_comment_def)

lemma fmt_space_bound:
  "length (out (fmt_space c st)) \<le> length (out st) + 1" "indent (fmt_space c st) = indent st"
  by (simp_all add: fmt_space_def Let_def)

lemma fmt_close_brace_bound:
  "length (out (fmt_close_brace st)) \<le> length (out st) + 1"
  "indent (fmt_close_brace st) = indent st - 1"
  using drop_space_fields(1) [of "st\<lparr>indent := indent st - 1\<rparr>"]
  by (simp_all add: fmt_close_brace_def Let_def)

lemma fmt_indent_bound:
  assumes "indent st \<le> int n"
  shows "length (out (fmt_indent st)) \<le> length (out st) + 2 * n" "indent (fmt_indent st) = indent st"
proof -
  have "nat (indent st) \<le> n" using assms by simp
  then show "length (out (fmt_indent st)) \<le> length (out st) + 2 * n"
    using add_mono [OF drop_space_fields(1) [of st], of "2 * nat (indent st)" "2 * n"]
    by (simp add: fmt_indent_def)
qed (simp add: fmt_indent_def)

lemma fmt_code_bound:
  assumes "indent st \<le> int n"
  shows "length (out (fmt_code c st)) \<le> length (out st) + 2 * n + 2"
    "indent (fmt_code c st) \<le> indent st + (if c = CHR ''{'' then 1 else 0)"
  using assms fmt_indent_bound [of st n] fmt_indent_bound [of "fmt_close_brace st" n]
    fmt_close_brace_bound [of st]
  by (auto simp: fmt_code_def Let_def)

lemma fmt_step_bound:
  assumes "fmt_step src i st = (i', st')" "i < length src" "indent st \<le> int n"
  shows "length (out st') \<le> length (out st) + 2 * n + 2"
    "indent st' \<le> indent st + (if src ! i = CHR ''{'' then 1 else 0)"
proof -
  let ?st = "(fmt_open_comment src i st)\<lparr>fmt_string := next_string 0 (src ! i)\<rparr>"
  have fields: "out ?st = out st" "indent ?st = indent st" by simp_all
  have code: "length (out (fmt_code (src ! i) ?st)) \<le> length (out st) + 2 * n + 2"
    "indent (fmt_code (src ! i) ?st) \<le> indent st + (if src ! i = CHR ''{'' then 1 else 0)"
    using fmt_code_bound [of ?st n "src ! i"] assms(3) by (simp_all only: fields)
  have space: "length (out (fmt_space (src ! i) ?st)) \<le> length (out st) + 2 * n + 2"
    "indent (fmt_space (src ! i) ?st) = indent st"
    using fmt_space_bound [of "src ! i" ?st] unfolding fields by simp_all
  show "length (out st') \<le> length (out st) + 2 * n + 2"
    using assms(1) code(1) space(1) by (auto simp: fmt_step_def Let_def split: if_splits)
  show "indent st' \<le> indent st + (if src ! i = CHR ''{'' then 1 else 0)"
    using assms(1) code(2) space(2) by (auto simp: fmt_step_def Let_def split: if_splits)
qed

lemma opens_take_Suc:
  "i < length s \<Longrightarrow> opens (take (Suc i) s) = opens (take i s) + (if s ! i = CHR ''{'' then 1 else 0)"
  by (simp add: opens_def take_Suc_conv_app_nth)

lemma opens_take_mono: "i \<le> j \<Longrightarrow> opens (take i s) \<le> opens (take j s)"
  using take_add [of i "j - i" s] by (simp add: opens_def)

lemma fmt_loop_bound:
  assumes "indent st \<le> int (opens (take i src))"
    "length (out st) \<le> (2 * opens src + 2) * min i (length src)"
  shows "length (out (fmt_loop src i st)) \<le> (2 * opens src + 2) * length src"
  using assms
proof (induction src i st rule: fmt_loop.induct)
  case (1 src i st)
  show ?case
  proof (cases "i < length src")
    case True
    obtain i' st' where step: "fmt_step src i st = (i', st')" by force
    have lt: "i < i'" using fmt_step_progress [of i src st] step by simp
    have ind: "indent st \<le> int (opens src)"
      using 1(2) opens_take_mono [of i "length src" src] True by simp
    have "indent st' \<le> int (opens (take (Suc i) src))"
      using fmt_step_bound(2) [OF step True ind] 1(2) True by (simp add: opens_take_Suc split: if_splits)
    then have ind': "indent st' \<le> int (opens (take i' src))"
      using opens_take_mono [of "Suc i" i' src] lt by simp
    have "length (out st') \<le> (2 * opens src + 2) * (i + 1)"
      using fmt_step_bound(1) [OF step True ind] 1(3) True by simp
    also have "\<dots> \<le> (2 * opens src + 2) * min i' (length src)"
      using lt True by (intro mult_le_mono2) simp
    finally have "length (out (fmt_loop src i' st')) \<le> (2 * opens src + 2) * length src"
      using 1(1) [OF _ step [symmetric] ind'] True by simp
    then show ?thesis using True step by (subst fmt_loop.simps) simp
  next
    case False
    then show ?thesis using 1(3) by (subst fmt_loop.simps) simp
  qed
qed

text \<open>Nested opening braces: after \<open>i\<close> of them, \<open>i * (i + 1)\<close> characters are out.\<close>

definition nest_state :: "nat \<Rightarrow> fmt \<Rightarrow> bool" where
  "nest_state i st \<longleftrightarrow> length (out st) = i * (i + 1) \<and> indent st = int i \<and> fmt_string st = 0 \<and>
     fmt_comment st = 0 \<and> needs_indent st \<and> \<not> ends_with CHR '' '' st"

lemma fmt_step_nest:
  assumes "nest_state i st" "i < n"
  shows "fst (fmt_step (replicate n CHR ''{'') i st) = i + 1 \<and>
    nest_state (i + 1) (snd (fmt_step (replicate n CHR ''{'') i st))"
  using assms
  by (auto simp: fmt_step_def nest_state_def fmt_open_comment_def fmt_code_def fmt_indent_def
      drop_space_def next_string_def char_defs Let_def put_def ends_with_def algebra_simps)

lemma fmt_loop_nest:
  "nest_state i st \<Longrightarrow> i \<le> n \<Longrightarrow> nest_state n (fmt_loop (replicate n CHR ''{'') i st)"
proof (induction "n - i" arbitrary: i st)
  case 0
  then show ?case by (subst fmt_loop.simps) simp
next
  case (Suc k)
  then have "nest_state n (fmt_loop (replicate n CHR ''{'') (fst (fmt_step (replicate n CHR ''{'') i st))
      (snd (fmt_step (replicate n CHR ''{'') i st)))"
    using fmt_step_nest [of i st n] by simp
  moreover have "i < n" using Suc.hyps(2) by simp
  ultimately show ?case by (subst fmt_loop.simps) (simp add: case_prod_beta)
qed

section \<open>Properties\<close>

text \<open>C39 (safety): stripping types keeps the length of the text and every line end, so
  positions in diagnostics stay right; each character is either untouched or blanked to a space.\<close>

theorem strip_keeps_layout:
  assumes "strip_typescript_types (Some s) = Some t"
  shows "length t = length s \<and>
    (\<forall>j<length s. t ! j = s ! j \<or> (t ! j = CHR '' '' \<and> s ! j \<noteq> NL \<and> s ! j \<noteq> CR))"
  using assms strip_loop_blanks [of s 0 0 0] by (auto simp: strip_typescript_types_def blanks_def)

theorem strip_keeps_layout_witness:
  "strip_typescript_types (Some ''type A;x'') = Some ''       x'' \<and> length ''       x'' = length ''type A;x''"
proof -
  have "strip_typescript_types (Some ''type A;x'') = Some ''       x''" by code_simp
  with strip_keeps_layout [OF this] show ?thesis by simp
qed

text \<open>strip_type_variable (error): the stripper does not parse, so plain JavaScript that names a variable
  \<open>type\<close> loses its declaration.\<close>

theorem strip_type_variable:
  "strip_typescript_types (Some ''let type = 5;x'') = Some ''let          x''"
  by code_simp

text \<open>C40 (bounds): the formatter ends and writes at most \<open>2 * b + 2\<close> characters per input
  character on a text with \<open>b\<close> opening braces; on a text without braces it stays inside its
  buffer.\<close>

theorem format_output_bound:
  "length (format_javascript src) \<le> (2 * opens src + 2) * length src \<and>
   (opens src = 0 \<longrightarrow> length (format_javascript src) < fmt_buffer_size src)"
proof -
  have "length (format_javascript src) \<le> (2 * opens src + 2) * length src"
    unfolding format_javascript_def by (rule fmt_loop_bound) (simp_all add: fmt_init_def)
  then show ?thesis by (auto simp: fmt_buffer_size_def)
qed

theorem format_output_bound_witness: "length (format_javascript ''a;'') < fmt_buffer_size ''a;''"
  using format_output_bound [of "''a;''"] by (simp add: opens_def)

text \<open>format_buffer_overflow (bounds): \<open>n\<close> nested opening braces make the formatter write \<open>n * (n + 1)\<close>
  characters, which for \<open>n \<ge> 33\<close> is past the end of its buffer.\<close>

theorem format_buffer_overflow:
  "length (format_javascript (replicate n CHR ''{'')) = n * (n + 1) \<and>
   (33 \<le> n \<longrightarrow> fmt_buffer_size (replicate n CHR ''{'') < length (format_javascript (replicate n CHR ''{'')))"
proof -
  have "nest_state 0 fmt_init" by (simp add: nest_state_def fmt_init_def ends_with_def)
  then have len: "length (format_javascript (replicate n CHR ''{'')) = n * (n + 1)"
    using fmt_loop_nest [of 0 fmt_init n] by (simp add: format_javascript_def nest_state_def)
  have "n * 2 + 1024 < n * (n + 1)" if "33 \<le> n"
  proof -
    have "33 * (n - 1) \<le> n * (n - 1)" using that by (rule mult_le_mono1)
    then show ?thesis using that by (auto simp: algebra_simps le_iff_add)
  qed
  with len show ?thesis by (simp add: fmt_buffer_size_def)
qed

theorem format_buffer_overflow_witness:
  "fmt_buffer_size (replicate 33 CHR ''{'') < length (format_javascript (replicate 33 CHR ''{''))"
  using format_buffer_overflow [of 33] by simp

text \<open>format_joins_lines (error): a line break outside braces is not kept: the two statements of a text
  that relies on automatic semicolons are glued together.\<close>

theorem format_joins_lines:
  "format_javascript (''a=b'' @ [NL] @ ''c=d'') = ''a=bc=d''"
  by code_simp

end
