(* ===== verification/Arena.thy ===== *)
theory Arena
  imports Value_Box
begin

text \<open>
  Model of the memory arena of \<open>src/src/alloc.c\<close>: the bump-allocated nursery, the old space with its
  next-fit free-block search, the sweep phase of the major collection, the write barrier and the
  snapshot of the space bounds. Addresses are natural numbers. Block headers live in memory: \<open>hdr\<close>
  maps every address to the header that reading there would give, so a stale header stays readable
  after its block has been merged away. The 32-bit size field bounds the old space by 4 GiB; the
  model takes arenas within that bound.
\<close>

section \<open>State\<close>

record BlockHeader =
  bsize :: nat
  is_free :: bool
  gc_mark :: u8
  obj_type :: nat

record arena =
  nursery_start :: nat
  nursery_end :: nat
  nursery_bump :: nat
  old_start :: nat
  old_end :: nat
  free_bytes :: u64
  next_fit :: "nat option"
  hdr :: "nat \<Rightarrow> BlockHeader"
  remembered_set :: "Value list"

definition HEADER :: nat where "HEADER = 8"

definition MAX_REMEMBERED_SET :: nat where "MAX_REMEMBERED_SET = 16384"

definition zero_header :: BlockHeader where
  "zero_header = \<lparr>bsize = 0, is_free = False, gc_mark = 0, obj_type = 0\<rparr>"

definition free_header :: "nat \<Rightarrow> BlockHeader" where
  "free_header n = \<lparr>bsize = n, is_free = True, gc_mark = 0, obj_type = 0\<rparr>"

text \<open>\<open>arena_init\<close> on the memory that \<open>mmap\<close> returned at \<open>mem\<close>.\<close>

definition arena_init :: "nat \<Rightarrow> nat \<Rightarrow> arena" where
  "arena_init mem size_mb =
     (let sz = size_mb * 1024 * 1024;
          nursery_size = (if 2 * 1024 * 1024 > sz div 4 then sz div 4 else 2 * 1024 * 1024)
      in \<lparr>nursery_start = mem, nursery_end = mem + nursery_size, nursery_bump = mem,
          old_start = mem + nursery_size, old_end = mem + sz,
          free_bytes = of_nat (sz - nursery_size), next_fit = None,
          hdr = (\<lambda>_. zero_header)(mem + nursery_size := free_header (sz - nursery_size)),
          remembered_set = []\<rparr>)"

definition is_ptr_in_arena :: "arena \<Rightarrow> nat \<Rightarrow> bool" where
  "is_ptr_in_arena a p \<longleftrightarrow>
     (nursery_start a \<le> p \<and> p < nursery_end a) \<or> (old_start a \<le> p \<and> p < old_end a)"

section \<open>Allocation\<close>

definition total_size :: "nat \<Rightarrow> nat" where
  "total_size sz = (HEADER + sz + 7) div 8 * 8"

text \<open>\<open>memset\<close> of the payload of the block at \<open>b\<close>.\<close>

definition clear_payload :: "nat \<Rightarrow> (nat \<Rightarrow> BlockHeader) \<Rightarrow> nat \<Rightarrow> BlockHeader" where
  "clear_payload b h = (\<lambda>x. if b + HEADER \<le> x \<and> x < b + bsize (h b) then zero_header else h x)"

definition advance_block :: "arena \<Rightarrow> nat \<Rightarrow> nat" where
  "advance_block a b =
     (let n = b + bsize (hdr a b) in if n \<ge> old_end a then old_start a else n)"

definition split_block :: "nat \<Rightarrow> nat \<Rightarrow> (nat \<Rightarrow> BlockHeader) \<Rightarrow> nat \<Rightarrow> BlockHeader" where
  "split_block b tot h =
     (if bsize (h b) - tot \<ge> HEADER + 8
      then h(b + tot := free_header (bsize (h b) - tot), b := (h b)\<lparr>bsize := tot\<rparr>)
      else h)"

text \<open>Taking the free block \<open>b\<close>: the body of the \<open>if\<close> in the search loop.\<close>

definition take_block :: "arena \<Rightarrow> nat \<Rightarrow> nat \<Rightarrow> nat \<Rightarrow> arena" where
  "take_block a b tot type =
     (let h = split_block b tot (hdr a);
          h = h(b := (h b)\<lparr>is_free := False, gc_mark := 0, obj_type := type\<rparr>);
          a = a\<lparr>hdr := h, free_bytes := free_bytes a - of_nat tot\<rparr>;
          a = a\<lparr>next_fit := Some (advance_block a b)\<rparr>
      in a\<lparr>hdr := clear_payload b (hdr a)\<rparr>)"

definition fits :: "arena \<Rightarrow> nat \<Rightarrow> nat \<Rightarrow> bool" where
  "fits a tot b \<longleftrightarrow> is_free (hdr a b) \<and> tot \<le> bsize (hdr a b)"

partial_function (option) search_loop ::
  "arena \<Rightarrow> nat \<Rightarrow> nat \<Rightarrow> nat \<Rightarrow> nat \<Rightarrow> (nat option \<times> arena) option" where
  "search_loop a tot type start_block block =
     (if fits a tot block then Some (Some (block + HEADER), take_block a block tot type)
      else let block' = advance_block a block
           in if block' = start_block then Some (None, a)
              else search_loop a tot type start_block block')"

definition arena_alloc_old_space :: "nat \<Rightarrow> nat \<Rightarrow> arena \<Rightarrow> (nat option \<times> arena) option" where
  "arena_alloc_old_space type sz a =
     (let a = (case next_fit a of None \<Rightarrow> a\<lparr>next_fit := Some (old_start a)\<rparr> | Some _ \<Rightarrow> a);
          start_block = (case next_fit a of None \<Rightarrow> old_start a | Some b \<Rightarrow> b)
      in search_loop a (total_size sz) type start_block start_block)"

definition arena_alloc_nursery :: "nat \<Rightarrow> nat \<Rightarrow> arena \<Rightarrow> nat option \<times> arena" where
  "arena_alloc_nursery type sz a =
     (let tot = total_size sz; b = nursery_bump a
      in if b + tot > nursery_end a then (None, a)
         else let h = (hdr a)(b := \<lparr>bsize = tot, is_free = False, gc_mark = 0, obj_type = type\<rparr>)
              in (Some (b + HEADER), a\<lparr>hdr := clear_payload b h, nursery_bump := b + tot\<rparr>))"

text \<open>
  \<open>arena_alloc\<close>: nursery, then (with a VM to trace from) a minor collection, preceded by a major one
  when the old space looks too small to absorb the nursery, then the old space, a major collection
  and the old space again. The two collections are parameters here; \<open>None\<close> inside is the fatal exit.
\<close>

definition arena_alloc ::
  "(arena \<Rightarrow> arena option) \<Rightarrow> (arena \<Rightarrow> arena option) \<Rightarrow> bool \<Rightarrow> nat \<Rightarrow> nat \<Rightarrow> arena \<Rightarrow>
   (nat option \<times> arena) option" where
  "arena_alloc gc_minor gc_major has_vm type sz a =
     (case arena_alloc_nursery type sz a of
        (Some p, a) \<Rightarrow> Some (Some p, a)
      | (None, a) \<Rightarrow>
          Option.bind
            (if has_vm
             then Option.bind
                    (if free_bytes a < of_nat (nursery_end a - nursery_start a) then gc_major a else Some a)
                    (\<lambda>a. map_option (arena_alloc_nursery type sz) (gc_minor a))
             else Some (None, a))
            (\<lambda>(r, a). case r of
               Some p \<Rightarrow> Some (Some p, a)
             | None \<Rightarrow>
                 Option.bind (arena_alloc_old_space type sz a)
                   (\<lambda>(r, a). case r of
                      Some p \<Rightarrow> Some (Some p, a)
                    | None \<Rightarrow>
                        if has_vm then Option.bind (gc_major a) (arena_alloc_old_space type sz)
                        else Some (None, a))))"

section \<open>Sweep and write barrier\<close>

text \<open>
  Phase 2 of \<open>gc_major\<close>. Releasing the malloc'ed bytes of a dead buffer object does not touch the
  arena and is left out.
\<close>

definition sweep_header :: "BlockHeader \<Rightarrow> BlockHeader" where
  "sweep_header h =
     (if is_free h then h\<lparr>gc_mark := 0\<rparr>
      else if gc_mark h \<noteq> 0 then h\<lparr>gc_mark := 0\<rparr>
      else h\<lparr>is_free := True, gc_mark := 0\<rparr>)"

definition sweep_block :: "arena \<Rightarrow> nat \<Rightarrow> arena" where
  "sweep_block a b =
     (let h = hdr a b
      in a\<lparr>hdr := (hdr a)(b := sweep_header h),
           free_bytes := (if \<not> is_free h \<and> gc_mark h = 0 then free_bytes a + of_nat (bsize h) else free_bytes a)\<rparr>)"

definition merge_block :: "arena \<Rightarrow> nat option \<Rightarrow> nat \<Rightarrow> nat \<times> arena" where
  "merge_block a prev b =
     (case prev of
        Some p \<Rightarrow>
          if is_free (hdr a b) \<and> is_free (hdr a p)
          then (p, a\<lparr>hdr := (hdr a)(p := (hdr a p)\<lparr>bsize := bsize (hdr a p) + bsize (hdr a b)\<rparr>)\<rparr>)
          else (b, a)
      | None \<Rightarrow> (b, a))"

partial_function (option) sweep_loop :: "arena \<Rightarrow> nat option \<Rightarrow> nat \<Rightarrow> arena option" where
  "sweep_loop a prev block =
     (if block < old_end a
      then let (b, a') = merge_block (sweep_block a block) prev block
           in sweep_loop a' (Some b) (b + bsize (hdr a' b))
      else Some a)"

declare search_loop.simps [code] sweep_loop.simps [code]

definition gc_sweep :: "arena \<Rightarrow> arena option" where
  "gc_sweep a = sweep_loop a None (old_start a)"

definition gc_write_barrier :: "arena \<Rightarrow> Value \<Rightarrow> Value \<Rightarrow> arena" where
  "gc_write_barrier a old_obj new_obj =
     (if \<not> IS_POINTER old_obj \<or> \<not> IS_POINTER new_obj then a
      else let old_ptr = unat (get_pointer old_obj); new_ptr = unat (get_pointer new_obj)
           in if old_start a \<le> old_ptr \<and> old_ptr < old_end a \<and>
                 nursery_start a \<le> new_ptr \<and> new_ptr < nursery_end a
              then let b = old_ptr - HEADER; h = hdr a b
                   in if length (remembered_set a) < MAX_REMEMBERED_SET \<and> gc_mark h AND 2 = 0
                      then a\<lparr>hdr := (hdr a)(b := h\<lparr>gc_mark := gc_mark h OR 2\<rparr>),
                             remembered_set := remembered_set a @ [old_obj]\<rparr>
                      else a
              else a)"

section \<open>Tilings\<close>

text \<open>The blocks of the old space lie side by side from its start to its end.\<close>

fun tiling :: "(nat \<Rightarrow> BlockHeader) \<Rightarrow> nat \<Rightarrow> nat \<Rightarrow> nat list \<Rightarrow> bool" where
  "tiling h s e [] \<longleftrightarrow> s = e"
| "tiling h s e (b # bs) \<longleftrightarrow> b = s \<and> HEADER \<le> bsize (h b) \<and> tiling h (s + bsize (h b)) e bs"

definition live :: "(nat \<Rightarrow> BlockHeader) \<Rightarrow> nat list \<Rightarrow> (nat \<times> nat) set" where
  "live h bs = {(b, bsize (h b)) | b. b \<in> set bs \<and> \<not> is_free (h b)}"

definition arena_ok :: "arena \<Rightarrow> nat list \<Rightarrow> bool" where
  "arena_ok a bs \<longleftrightarrow> tiling (hdr a) (old_start a) (old_end a) bs \<and> bs \<noteq> [] \<and>
     (case next_fit a of None \<Rightarrow> True | Some n \<Rightarrow> n \<in> set bs)"

lemma tiling_le: "tiling h s e bs \<Longrightarrow> s \<le> e"
  by (induction bs arbitrary: s) (auto simp: dest: le_trans [OF le_add1])

lemma tiling_append: "tiling h s e (xs @ ys) \<longleftrightarrow> (\<exists>m. tiling h s m xs \<and> tiling h m e ys)"
  by (induction xs arbitrary: s) auto

lemma tiling_mem: "tiling h s e bs \<Longrightarrow> b \<in> set bs \<Longrightarrow> s \<le> b \<and> b + bsize (h b) \<le> e \<and> HEADER \<le> bsize (h b)"
proof (induction bs arbitrary: s)
  case (Cons c bs)
  then show ?case using tiling_le [of h "s + bsize (h c)" e bs] by (auto dest: Cons.IH)
qed simp

lemma tiling_cong: "(\<And>b. b \<in> set bs \<Longrightarrow> bsize (h b) = bsize (h' b)) \<Longrightarrow> tiling h s e bs = tiling h' s e bs"
  by (induction bs arbitrary: s) auto

lemma tiling_distinct: "tiling h s e bs \<Longrightarrow> distinct bs"
proof (induction bs arbitrary: s)
  case (Cons c bs)
  have "c \<notin> set bs"
    using Cons.prems tiling_mem [of h "s + bsize (h c)" e bs c] by (auto simp: HEADER_def)
  with Cons show ?case by auto
qed simp

text \<open>Different blocks of a tiling do not overlap.\<close>

lemma tiling_disjoint:
  assumes "tiling h s e bs" "b \<in> set bs" "c \<in> set bs" "b < c"
  shows "b + bsize (h b) \<le> c"
proof -
  obtain xs ys where bs: "bs = xs @ b # ys" using assms(2) by (meson split_list)
  then obtain m where m: "tiling h s m xs" "b = m" "tiling h (b + bsize (h b)) e ys"
    using assms(1) by (auto simp: tiling_append)
  have "c \<in> set ys"
    using assms(3,4) bs m tiling_mem [OF m(1), of c] by (auto simp: HEADER_def)
  then show ?thesis using tiling_mem [OF m(3)] by blast
qed

section \<open>Next-fit search\<close>

text \<open>In a tiled old space \<open>advance_block\<close> walks the blocks in a circle.\<close>

lemma advance_block_inner:
  assumes "tiling (hdr a) (old_start a) (old_end a) (xs @ b # c # ys)"
  shows "advance_block a b = c"
proof -
  have "c \<in> set (xs @ b # c # ys)" by simp
  then have "c < old_end a" using tiling_mem [OF assms] by (fastforce simp: HEADER_def)
  moreover have "b + bsize (hdr a b) = c" using assms by (auto simp: tiling_append)
  ultimately show ?thesis by (simp add: advance_block_def)
qed

lemma advance_block_last:
  assumes "tiling (hdr a) (old_start a) (old_end a) (xs @ [b])"
  shows "advance_block a b = old_start a"
  using assms by (auto simp: advance_block_def tiling_append)

lemma tiling_hd: "tiling h s e (b # bs) \<Longrightarrow> b = s"
  by simp

text \<open>Searching forward over the blocks \<open>bs\<close> of a stretch that ends at \<open>next\<close>.\<close>

fun linked :: "arena \<Rightarrow> nat list \<Rightarrow> nat \<Rightarrow> bool" where
  "linked a [] n \<longleftrightarrow> True"
| "linked a [b] n \<longleftrightarrow> advance_block a b = n"
| "linked a (b # c # bs) n \<longleftrightarrow> advance_block a b = c \<and> linked a (c # bs) n"

lemma linked_append: "linked a (xs @ y # ys) n \<longleftrightarrow> linked a xs y \<and> linked a (y # ys) n"
  by (induction a xs y rule: linked.induct) auto

lemma tiling_linked:
  assumes "tiling (hdr a) (old_start a) (old_end a) (pre @ bs)"
  shows "linked a bs (old_start a)"
  using assms
proof (induction bs arbitrary: pre rule: induct_list012)
  case 1
  then show ?case by simp
next
  case (2 b)
  then show ?case by (simp add: advance_block_last)
next
  case (3 b c bs)
  then show ?case using advance_block_inner [OF "3.prems"] "3.IH"(2) [of "pre @ [b]"] by simp
qed

lemma search_linked:
  assumes "linked a (b # bs) start" "start \<notin> set bs"
  shows "search_loop a tot type start b =
    (case find (fits a tot) (b # bs) of
       Some c \<Rightarrow> Some (Some (c + HEADER), take_block a c tot type)
     | None \<Rightarrow> Some (None, a))"
  using assms
proof (induction bs arbitrary: b)
  case Nil
  then show ?case by (subst search_loop.simps) (simp add: Let_def)
next
  case (Cons c bs)
  then show ?case by (subst search_loop.simps) (auto simp: Let_def)
qed

text \<open>The search from any block sees all of them: it finds a fitting block if there is one.\<close>

lemma search_complete:
  assumes "tiling (hdr a) (old_start a) (old_end a) bs" "start \<in> set bs"
  shows "\<exists>cs. set cs = set bs \<and> search_loop a tot type start start =
    (case find (fits a tot) cs of
       Some c \<Rightarrow> Some (Some (c + HEADER), take_block a c tot type)
     | None \<Rightarrow> Some (None, a))"
proof -
  obtain pre post where bs: "bs = pre @ start # post" using assms(2) by (meson split_list)
  have first: "linked a (start # post) (old_start a)" using assms(1) bs tiling_linked by simp
  have dist: "distinct bs" using tiling_distinct [OF assms(1)] .
  show ?thesis
  proof (cases pre)
    case Nil
    then have "old_start a = start" using assms(1) bs by simp
    then show ?thesis using first dist bs Nil search_linked [of a start post start]
      by (intro exI [of _ "start # post"]) simp
  next
    case (Cons p ps)
    have "linked a pre start"
      using tiling_linked [of a "[]" bs] assms(1) bs by (simp add: linked_append)
    moreover have "p = old_start a" using assms(1) bs Cons by simp
    ultimately have "linked a ((start # post) @ pre) start"
      using first Cons by (simp add: linked_append del: append_Cons)
    then have "search_loop a tot type start start =
        (case find (fits a tot) (start # post @ pre) of
           Some c \<Rightarrow> Some (Some (c + HEADER), take_block a c tot type) | None \<Rightarrow> Some (None, a))"
      using dist bs by (intro search_linked) auto
    moreover have "set (start # post @ pre) = set bs" using bs by auto
    ultimately show ?thesis by blast
  qed
qed

section \<open>Taking a block\<close>

definition splits :: "arena \<Rightarrow> nat \<Rightarrow> nat \<Rightarrow> bool" where
  "splits a b tot \<longleftrightarrow> bsize (hdr a b) - tot \<ge> HEADER + 8"

definition pieces :: "arena \<Rightarrow> nat \<Rightarrow> nat \<Rightarrow> nat list" where
  "pieces a b tot = (if splits a b tot then [b, b + tot] else [b])"

definition taken_size :: "arena \<Rightarrow> nat \<Rightarrow> nat \<Rightarrow> nat" where
  "taken_size a b tot = (if splits a b tot then tot else bsize (hdr a b))"

lemma take_block_fields [simp]:
  "old_start (take_block a b tot type) = old_start a" "old_end (take_block a b tot type) = old_end a"
  by (simp_all add: take_block_def Let_def)

lemma take_block_header:
  assumes "HEADER \<le> tot"
  shows "hdr (take_block a b tot type) x =
    (if x = b then \<lparr>bsize = taken_size a b tot, is_free = False, gc_mark = 0, obj_type = type\<rparr>
     else if b + HEADER \<le> x \<and> x < b + taken_size a b tot then zero_header
     else if splits a b tot \<and> x = b + tot then free_header (bsize (hdr a b) - tot)
     else hdr a x)"
  using assms
  by (auto simp: take_block_def Let_def split_block_def clear_payload_def taken_size_def splits_def HEADER_def)

lemma take_block_tiling:
  fixes type :: nat
  assumes til: "tiling (hdr a) (old_start a) (old_end a) (pre @ b # post)"
    and fit: "fits a tot b" "HEADER \<le> tot"
  defines "h' \<equiv> hdr (take_block a b tot type)"
  shows "tiling h' (old_start a) (old_end a) (pre @ pieces a b tot @ post)"
    and "live h' (pre @ pieces a b tot @ post) =
      insert (b, taken_size a b tot) (live (hdr a) (pre @ b # post))"
proof -
  have parts: "tiling (hdr a) (old_start a) b pre" "tiling (hdr a) (b + bsize (hdr a b)) (old_end a) post"
    using til by (auto simp: tiling_append)
  have size: "tot \<le> bsize (hdr a b)" "is_free (hdr a b)" using fit by (auto simp: fits_def)
  have taken: "taken_size a b tot \<le> bsize (hdr a b)" using size by (simp add: taken_size_def)
  have pre: "h' c = hdr a c" if "c \<in> set pre" for c
    using tiling_mem [OF parts(1) that] unfolding h'_def take_block_header [OF fit(2)]
    by (auto simp: HEADER_def)
  have post: "h' c = hdr a c" if "c \<in> set post" for c
    using tiling_mem [OF parts(2) that] taken size(1) fit(2) unfolding h'_def take_block_header [OF fit(2)]
    by (auto simp: HEADER_def splits_def taken_size_def)
  have b: "bsize (h' b) = taken_size a b tot" "\<not> is_free (h' b)"
    by (simp_all add: h'_def take_block_header [OF fit(2)])
  have rest: "bsize (h' (b + tot)) = bsize (hdr a b) - tot" "is_free (h' (b + tot))" if "splits a b tot"
    using that fit(2) by (simp_all add: h'_def take_block_header [OF fit(2)] taken_size_def free_header_def HEADER_def)
  have "tiling h' (old_start a) b pre" using parts(1) pre tiling_cong by metis
  moreover have "tiling h' (b + bsize (hdr a b)) (old_end a) post" using parts(2) post tiling_cong by metis
  moreover have "tiling h' b (b + bsize (hdr a b)) (pieces a b tot)"
    using b rest size fit(2) til
    by (auto simp: pieces_def taken_size_def tiling_append) (auto simp: splits_def)
  ultimately show "tiling h' (old_start a) (old_end a) (pre @ pieces a b tot @ post)"
    unfolding tiling_append by blast
  show "live h' (pre @ pieces a b tot @ post) = insert (b, taken_size a b tot) (live (hdr a) (pre @ b # post))"
    using pre post b rest size by (auto simp: live_def pieces_def)
qed

lemma take_block_next_fit:
  assumes til: "tiling (hdr a) (old_start a) (old_end a) (pre @ b # post)"
    and fit: "fits a tot b" "HEADER \<le> tot"
  shows "\<exists>n. next_fit (take_block a b tot type) = Some n \<and> n \<in> set (pre @ pieces a b tot @ post)"
proof -
  let ?n = "b + taken_size a b tot"
  have nf: "next_fit (take_block a b tot type) = Some (if ?n \<ge> old_end a then old_start a else ?n)"
    using fit(2) by (simp add: take_block_def Let_def advance_block_def split_block_def taken_size_def splits_def)
  have hd: "old_start a \<in> set (pre @ pieces a b tot @ post)"
    using til by (cases pre) (auto simp: pieces_def)
  have "?n \<in> set (pre @ pieces a b tot @ post)" if "?n < old_end a"
  proof (cases "splits a b tot")
    case True
    then show ?thesis by (simp add: pieces_def taken_size_def)
  next
    case False
    have "tiling (hdr a) (b + bsize (hdr a b)) (old_end a) post" using til by (auto simp: tiling_append)
    then show ?thesis using that False by (cases post) (auto simp: taken_size_def)
  qed
  with nf hd show ?thesis by auto
qed

lemma total_size_props: "HEADER \<le> total_size sz" "HEADER + sz \<le> total_size sz" "8 dvd total_size sz"
  by (auto simp: total_size_def HEADER_def)

lemma alloc_old_space_cases:
  assumes "arena_ok a bs"
  obtains (full) a' where "arena_alloc_old_space type sz a = Some (None, a')" "arena_ok a' bs"
      "hdr a' = hdr a" "\<forall>b\<in>set bs. \<not> fits a (total_size sz) b"
  | (fit) a' b bs' where "arena_alloc_old_space type sz a = Some (Some (b + HEADER), a')"
      "b \<in> set bs" "fits a (total_size sz) b" "arena_ok a' bs'"
      "live (hdr a') bs' = insert (b, taken_size a b (total_size sz)) (live (hdr a) bs)"
proof -
  let ?tot = "total_size sz"
  define a0 where "a0 = (case next_fit a of None \<Rightarrow> a\<lparr>next_fit := Some (old_start a)\<rparr> | Some _ \<Rightarrow> a)"
  have a0: "hdr a0 = hdr a" "old_start a0 = old_start a" "old_end a0 = old_end a"
    by (auto simp: a0_def split: option.splits)
  have til: "tiling (hdr a0) (old_start a0) (old_end a0) bs" using assms a0 by (simp add: arena_ok_def)
  have "old_start a \<in> set bs" using assms by (cases bs) (auto simp: arena_ok_def)
  then obtain start where st: "next_fit a0 = Some start" "start \<in> set bs"
    using assms by (auto simp: a0_def arena_ok_def split: option.splits)
  have run: "arena_alloc_old_space type sz a = search_loop a0 ?tot type start start"
    using st(1) by (simp add: arena_alloc_old_space_def a0_def [symmetric])
  obtain cs where cs: "set cs = set bs" "search_loop a0 ?tot type start start =
      (case find (fits a0 ?tot) cs of
         Some c \<Rightarrow> Some (Some (c + HEADER), take_block a0 c ?tot type) | None \<Rightarrow> Some (None, a0))"
    using search_complete [OF til st(2)] by blast
  have fits0: "fits a0 = fits a" by (simp add: fits_def fun_eq_iff a0)
  show ?thesis
  proof (cases "find (fits a0 ?tot) cs")
    case None
    then have "\<forall>b\<in>set bs. \<not> fits a ?tot b" using cs(1) fits0 by (auto simp: find_None_iff)
    moreover have "arena_ok a0 bs" using til st assms by (simp add: arena_ok_def)
    ultimately show ?thesis using full [of a0] run cs(2) None a0 by simp
  next
    case (Some b)
    then have b: "b \<in> set bs" "fits a ?tot b" using cs(1) fits0 by (auto simp: find_Some_iff)
    then obtain pre post where bs: "bs = pre @ b # post" by (meson split_list)
    note til' = til [unfolded bs] and fit' = b(2) [folded fits0]
    let ?a' = "take_block a0 b ?tot type" and ?bs' = "pre @ pieces a0 b ?tot @ post"
    obtain n where "next_fit ?a' = Some n" "n \<in> set ?bs'"
      using take_block_next_fit [OF til' fit' total_size_props(1)] by blast
    then have "arena_ok ?a' ?bs'"
      using take_block_tiling(1) [OF til' fit' total_size_props(1)] by (auto simp: arena_ok_def)
    moreover have "live (hdr ?a') ?bs' = insert (b, taken_size a b ?tot) (live (hdr a) bs)"
      using take_block_tiling(2) [OF til' fit' total_size_props(1)] a0 bs
      by (simp add: taken_size_def splits_def)
    ultimately show ?thesis using fit [of b ?a' ?bs'] run cs(2) Some b by simp
  qed
qed

section \<open>The sweep\<close>

definition marked :: "(nat \<Rightarrow> BlockHeader) \<Rightarrow> nat \<Rightarrow> bool" where
  "marked h b \<longleftrightarrow> gc_mark (h b) \<noteq> 0"

definition live_marked :: "(nat \<Rightarrow> BlockHeader) \<Rightarrow> nat list \<Rightarrow> (nat \<times> nat) set" where
  "live_marked h bs = {(b, bsize (h b)) | b. b \<in> set bs \<and> \<not> is_free (h b) \<and> marked h b}"

lemma sweep_block_fields [simp]:
  "old_end (sweep_block a b) = old_end a" "old_start (sweep_block a b) = old_start a"
  "hdr (sweep_block a b) = (hdr a)(b := sweep_header (hdr a b))" "next_fit (sweep_block a b) = next_fit a"
  by (simp_all add: sweep_block_def Let_def)

lemma sweep_header_fields [simp]:
  "bsize (sweep_header h) = bsize h" "gc_mark (sweep_header h) = 0"
  "is_free (sweep_header h) \<longleftrightarrow> is_free h \<or> gc_mark h = 0"
  by (auto simp: sweep_header_def)

lemma live_append: "live h (xs @ ys) = live h xs \<union> live h ys"
  by (auto simp: live_def)

lemma live_cong: "(\<And>b. b \<in> set bs \<Longrightarrow> h b = h' b) \<Longrightarrow> live h bs = live h' bs"
  by (auto simp: live_def)

text \<open>
  One round of the sweep: \<open>ds\<close> are the blocks behind, tiling the space up to \<open>block\<close>, the last of them
  \<open>prev\<close>. The round swallows \<open>block\<close> into them.
\<close>

lemma sweep_round:
  assumes til: "tiling (hdr a) s b ds" "tiling (hdr a) b e (b # bs)"
    and prev: "prev = (if ds = [] then None else Some (last ds))"
    and step: "merge_block (sweep_block a b) prev b = (c, a')"
  shows "\<exists>ds'. tiling (hdr a') s (b + bsize (hdr a b)) ds' \<and> ds' \<noteq> [] \<and> c = last ds' \<and>
    c + bsize (hdr a' c) = b + bsize (hdr a b) \<and>
    live (hdr a') ds' = live (hdr a) ds \<union> live_marked (hdr a) [b] \<and>
    (\<forall>x\<in>set bs. hdr a' x = hdr a x)"
proof -
  let ?n = "bsize (hdr a b)" and ?h = "(hdr a)(b := sweep_header (hdr a b))"
  have rest: "tiling (hdr a) (b + ?n) e bs" and b8: "HEADER \<le> ?n" using til(2) by auto
  have above: "x \<noteq> b" if "x \<in> set bs" for x
    using tiling_mem [OF rest that] b8 by (auto simp: HEADER_def)
  have below: "d < b" if "d \<in> set ds" for d
    using tiling_mem [OF til(1) that] by (auto simp: HEADER_def)
  have h_ds: "?h d = hdr a d" if "d \<in> set ds" for d using below [OF that] by simp
  have til_h: "tiling ?h s b ds" using til(1) h_ds tiling_cong by metis
  have live_b: "live ?h [b] = live_marked (hdr a) [b]" by (auto simp: live_def live_marked_def marked_def)
  have live_ds: "live ?h ds = live (hdr a) ds" using h_ds live_cong by metis
  show ?thesis
  proof (cases "ds \<noteq> [] \<and> is_free (?h b) \<and> is_free (?h (last ds))")
    case True
    then obtain xs p where ds: "ds = xs @ [p]" by (metis append_butlast_last_id)
    let ?m = "?h(p := (?h p)\<lparr>bsize := bsize (?h p) + ?n\<rparr>)"
    have p: "p < b" "p \<notin> set xs" using below ds tiling_distinct [OF til(1)] by auto
    have c: "c = p" "hdr a' = ?m" using step prev True ds p by (auto simp: merge_block_def)
    obtain m where "tiling ?h s m xs" "p = m" "p + bsize (?h p) = b"
      using til_h ds by (auto simp: tiling_append)
    moreover have "tiling ?h s m xs = tiling ?m s m xs" for m using p by (intro tiling_cong) auto
    ultimately have "tiling ?m s (b + ?n) (xs @ [p])" using til_h ds p by (auto simp: tiling_append)
    moreover have "live ?m (xs @ [p]) = live ?h ds"
      using True ds p live_cong [of xs ?m ?h] unfolding ds live_append by (auto simp: live_def)
    moreover have "live_marked (hdr a) [b] = {}" using True live_b by (auto simp: live_def)
    moreover have "p + bsize (?m p) = b + ?n" using \<open>p + bsize (?h p) = b\<close> by simp
    moreover have "\<forall>x\<in>set bs. ?m x = hdr a x" using above p tiling_mem [OF rest] by fastforce
    ultimately show ?thesis using c live_ds by (intro exI [of _ "xs @ [p]"]) simp
  next
    case False
    then have c: "c = b" "hdr a' = ?h"
      using step prev below [of "last ds"] by (auto simp: merge_block_def split: if_splits)
    have "tiling ?h s (b + ?n) (ds @ [b])" using til_h b8 by (auto simp: tiling_append)
    moreover have "live ?h (ds @ [b]) = live (hdr a) ds \<union> live_marked (hdr a) [b]"
      by (simp only: live_append live_b live_ds)
    ultimately show ?thesis using c above by (intro exI [of _ "ds @ [b]"]) simp
  qed
qed

lemma merge_block_fields:
  "merge_block a prev b = (c, a') \<Longrightarrow> old_end a' = old_end a \<and> old_start a' = old_start a \<and> next_fit a' = next_fit a"
  by (auto simp: merge_block_def split: option.splits if_splits)

lemma sweep_loop_ok:
  assumes "tiling (hdr a) s b ds" "tiling (hdr a) b (old_end a) bs"
    "prev = (if ds = [] then None else Some (last ds))"
  shows "\<exists>a' cs. sweep_loop a prev b = Some a' \<and> tiling (hdr a') s (old_end a) cs \<and>
    live (hdr a') cs = live (hdr a) ds \<union> live_marked (hdr a) bs \<and>
    old_start a' = old_start a \<and> old_end a' = old_end a \<and> next_fit a' = next_fit a"
  using assms
proof (induction bs arbitrary: a b ds prev)
  case Nil
  then show ?case
    by (subst sweep_loop.simps) (auto simp: live_marked_def intro!: exI [of _ ds])
next
  case (Cons b' bs)
  then have b: "b' = b" "b < old_end a" using tiling_mem [OF Cons.prems(2), of b] by (auto simp: HEADER_def)
  obtain c a1 where step: "merge_block (sweep_block a b) prev b = (c, a1)" by force
  obtain ds' where r: "tiling (hdr a1) s (b + bsize (hdr a b)) ds'" "ds' \<noteq> []" "c = last ds'"
    "c + bsize (hdr a1 c) = b + bsize (hdr a b)"
    "live (hdr a1) ds' = live (hdr a) ds \<union> live_marked (hdr a) [b]" "\<forall>x\<in>set bs. hdr a1 x = hdr a x"
    using sweep_round [OF Cons.prems(1) Cons.prems(2) [unfolded b(1)] Cons.prems(3) step] by blast
  have e: "old_end a1 = old_end a" "old_start a1 = old_start a" "next_fit a1 = next_fit a"
    using merge_block_fields [OF step] by auto
  have "tiling (hdr a1) (b + bsize (hdr a b)) (old_end a1) bs"
    using Cons.prems(2) b(1) r(6) e tiling_cong [of bs "hdr a1" "hdr a"] by auto
  then obtain a' cs where "sweep_loop a1 (Some c) (b + bsize (hdr a b)) = Some a'"
    "tiling (hdr a') s (old_end a1) cs" "live (hdr a') cs = live (hdr a1) ds' \<union> live_marked (hdr a1) bs"
    "old_start a' = old_start a1" "old_end a' = old_end a1" "next_fit a' = next_fit a1"
    using Cons.IH [OF r(1), of "Some c"] r(2,3) by auto
  moreover have "live_marked (hdr a1) bs = live_marked (hdr a) bs"
    using r(6) by (auto simp: live_marked_def marked_def)
  moreover have "live_marked (hdr a) (b # bs) = live_marked (hdr a) [b] \<union> live_marked (hdr a) bs"
    by (auto simp: live_marked_def)
  ultimately show ?case using r(4,5) step b e by (subst sweep_loop.simps) auto
qed

section \<open>Properties\<close>

lemma arena_init_ok: "0 < mb \<Longrightarrow> arena_ok (arena_init mem mb) [old_start (arena_init mem mb)]"
  by (auto simp: arena_ok_def arena_init_def Let_def free_header_def HEADER_def)

lemma live_disjoint:
  assumes "tiling h s e bs" "(b, n) \<in> live h bs" "(c, m) \<in> live h bs" "b \<noteq> c"
  shows "b + n \<le> c \<or> c + m \<le> b"
  using assms tiling_disjoint [OF assms(1), of b c] tiling_disjoint [OF assms(1), of c b]
  by (cases "b < c") (auto simp: live_def)

text \<open>C13 (functional): on a well-formed old space the next-fit search ends. It
  fails only when no free block is large enough; otherwise it returns the payload of a block that
  holds the request, adds exactly this block to the live ones, none of which it overlaps, and leaves
  the space well formed.\<close>

theorem old_space_alloc_correct:
  assumes "arena_ok a bs"
  shows "\<exists>r a' bs'. arena_alloc_old_space type sz a = Some (r, a') \<and> arena_ok a' bs' \<and>
    (case r of
       None \<Rightarrow> live (hdr a') bs' = live (hdr a) bs \<and>
         \<not> (\<exists>b\<in>set bs. is_free (hdr a b) \<and> total_size sz \<le> bsize (hdr a b))
     | Some p \<Rightarrow> \<exists>b n. p = b + HEADER \<and> HEADER + sz \<le> n \<and>
         live (hdr a') bs' = insert (b, n) (live (hdr a) bs) \<and>
         (\<forall>c m. (c, m) \<in> live (hdr a) bs \<longrightarrow> b + n \<le> c \<or> c + m \<le> b))"
proof (rule alloc_old_space_cases [OF assms, of type sz], goal_cases)
  case (1 a')
  then show ?thesis by (auto simp: fits_def)
next
  case fit: (2 a' b bs')
  let ?n = "taken_size a b (total_size sz)"
  have n: "HEADER + sz \<le> ?n"
    using fit(3) total_size_props(2) [of sz] by (auto simp: taken_size_def fits_def)
  have til: "tiling (hdr a') (old_start a') (old_end a') bs'" using fit(4) by (simp add: arena_ok_def)
  have new: "(b, ?n) \<in> live (hdr a') bs'" using fit(5) by simp
  have "b + ?n \<le> c \<or> c + m \<le> b" if "(c, m) \<in> live (hdr a) bs" for c m
  proof -
    have "is_free (hdr a b)" using fit(3) by (simp add: fits_def)
    then have "c \<noteq> b" using that by (auto simp: live_def)
    then show ?thesis using live_disjoint [OF til new, of c m] that fit(5) by auto
  qed
  then show ?thesis using fit n by (intro exI [of _ "Some (b + HEADER)"] exI [of _ a'] exI [of _ bs']) auto
qed

theorem old_space_alloc_correct_witness:
  "\<exists>r a'. arena_alloc_old_space 0 100 (arena_init 0x4000000000 1) = Some (r, a')"
  using old_space_alloc_correct [OF arena_init_ok, of 1 0 100 "0x4000000000"] by auto



text \<open>A small old space of 96 bytes, one free block, and a run of allocations in it.\<close>

definition tiny :: arena where
  "tiny = \<lparr>nursery_start = 96, nursery_end = 96, nursery_bump = 96, old_start = 0, old_end = 96,
     free_bytes = 96, next_fit = None, hdr = (\<lambda>_. zero_header)(0 := free_header 96), remembered_set = []\<rparr>"

definition alloc_chain :: "arena \<Rightarrow> nat list \<Rightarrow> (nat option list \<times> arena) option" where
  "alloc_chain a szs =
     fold (\<lambda>sz r. Option.bind r (\<lambda>(ps, a). map_option (\<lambda>(p, a). (ps @ [p], a)) (arena_alloc_old_space 0 sz a)))
       szs (Some ([], a))"

text \<open>stale_next_fit_overlap (error): the sweep merges free blocks but leaves the next-fit pointer, which
  may then point into the middle of a merged block. Two blocks that both are live after the last
  collection can then overlap: here the block of 16 bytes at address 32 lies inside the one of 64
  bytes at address 0.\<close>

theorem stale_next_fit_overlap:
  "map_option fst (Option.bind (alloc_chain tiny [8, 8]) (\<lambda>(ps, a).
     Option.bind (gc_sweep a) (\<lambda>a. alloc_chain a [8, 50])))
   = Some [Some (32 + HEADER), Some (0 + HEADER)] \<and> total_size 8 = 16 \<and> total_size 50 = 64"
  by code_simp

text \<open>write_barrier_records (invariant): storing a nursery object into an old one records the old object
  once, as long as the remembered set has room; a second store adds nothing.\<close>

theorem write_barrier_records:
  assumes "IS_POINTER o1" "IS_POINTER n1"
    "old_start a \<le> unat (get_pointer o1)" "unat (get_pointer o1) < old_end a"
    "nursery_start a \<le> unat (get_pointer n1)" "unat (get_pointer n1) < nursery_end a"
    "length (remembered_set a) < MAX_REMEMBERED_SET"
    "gc_mark (hdr a (unat (get_pointer o1) - HEADER)) AND 2 = 0"
  shows "remembered_set (gc_write_barrier a o1 n1) = remembered_set a @ [o1] \<and>
    gc_write_barrier (gc_write_barrier a o1 n1) o1 n1 = gc_write_barrier a o1 n1"
proof -
  have "bit ((x OR 2) AND 2) 1" for x :: u8 by (simp add: bit_simps bit_numeral_rec)
  then have "(x OR 2) AND 2 \<noteq> 0" for x :: u8 by (metis bit_0_eq bot_apply bot_bool_def)
  then show ?thesis using assms by (simp add: gc_write_barrier_def Let_def)
qed

theorem write_barrier_records_witness:
  "remembered_set (gc_write_barrier (tiny\<lparr>nursery_start := 1000, nursery_end := 2000\<rparr>)
     (make_pointer 8) (make_pointer 1500)) = [make_pointer 8]"
  using write_barrier_records [of "make_pointer 8" "make_pointer 1500"
    "tiny\<lparr>nursery_start := 1000, nursery_end := 2000\<rparr>"]
  by (simp add: tiny_def HEADER_def free_header_def MAX_REMEMBERED_SET_def)

end
