(* ===== verification/C_Numbers.thy ===== *)
theory C_Numbers
  imports Float64 Char_Codes
begin

text \<open>
  The part of the C library that reads numbers: \<open>strtod\<close> on decimal and hexadecimal texts, with
  leading white space, signs, infinities and NaNs, correctly rounded. The result is the double and
  the number of characters read; zero characters means that there was no number.
\<close>

definition is_space :: "char \<Rightarrow> bool" where
  "is_space c \<longleftrightarrow> c = CHR '' '' \<or> char_in CHR 0x09 CHR 0x0D c"

definition is_hex :: "char \<Rightarrow> bool" where
  "is_hex c \<longleftrightarrow> is_digit c \<or> char_in CHR ''a'' CHR ''f'' c \<or> char_in CHR ''A'' CHR ''F'' c"

definition digit_val :: "char \<Rightarrow> int" where
  "digit_val c =
     (if is_digit c then of_char c - 48
      else if char_in CHR ''a'' CHR ''f'' c then of_char c - 87
      else if char_in CHR ''A'' CHR ''F'' c then of_char c - 55 else 0)"

definition digits_val :: "int \<Rightarrow> string \<Rightarrow> int" where
  "digits_val base ds = fold (\<lambda>c n. n * base + digit_val c) ds 0"

definition lower_char :: "char \<Rightarrow> char" where
  "lower_char c = (if is_upper c then char_of (of_char c + (32 :: nat)) else c)"

definition has_prefix_ci :: "string \<Rightarrow> string \<Rightarrow> bool" where
  "has_prefix_ci w s \<longleftrightarrow> map lower_char (take (length w) s) = w"

text \<open>\<open>scale base neg m e\<close> is the double nearest to \<open>m * base ^ e\<close>.\<close>

definition scale :: "int \<Rightarrow> bool \<Rightarrow> int \<Rightarrow> int \<Rightarrow> double" where
  "scale base neg m e =
     (if e \<ge> 0 then f64_round neg (m * base ^ nat e * 2 ^ 1074) 1
      else f64_round neg (m * 2 ^ 1074) (base ^ nat (- e)))"

text \<open>An optional sign, and how many characters it takes.\<close>

definition sign_part :: "string \<Rightarrow> bool \<times> nat" where
  "sign_part s =
     (if at s 0 = CHR ''-'' then (True, 1) else if at s 0 = CHR ''+'' then (False, 1) else (False, 0))"

text \<open>An exponent part: the marker, an optional sign and at least one digit, else nothing.\<close>

definition exponent_part :: "char list \<Rightarrow> string \<Rightarrow> int \<times> nat" where
  "exponent_part marks s =
     (let (neg, k) = sign_part (drop 1 s); ds = takeWhile is_digit (drop (1 + k) s)
      in if s = [] \<or> at s 0 \<notin> set marks \<or> ds = [] then (0, 0)
         else (if neg then - digits_val 10 ds else digits_val 10 ds, 1 + k + length ds))"

text \<open>Digits, point, digits: the digits read, how many stood behind the point, and the length.\<close>

definition mantissa :: "(char \<Rightarrow> bool) \<Rightarrow> string \<Rightarrow> string \<times> nat \<times> nat" where
  "mantissa dig s =
     (let ip = takeWhile dig s; n = length ip
      in if at s n = CHR ''.''
         then let fp = takeWhile dig (drop (n + 1) s)
              in if ip = [] \<and> fp = [] then ([], 0, 0)
                 else (ip @ fp, length fp, n + 1 + length fp)
         else (ip, 0, n))"

definition strtod_unsigned :: "bool \<Rightarrow> string \<Rightarrow> double \<times> nat" where
  "strtod_unsigned neg s =
     (let hex = (if has_prefix_ci ''0x'' s then mantissa is_hex (drop 2 s) else ([], 0, 0))
      in if snd (snd hex) > 0
         then let (ds, nf, k) = hex; (e, ke) = exponent_part [CHR ''p'', CHR ''P''] (drop (2 + k) s)
              in (scale 2 neg (digits_val 16 ds) (e - 4 * int nf), 2 + k + ke)
         else if has_prefix_ci ''infinity'' s then (f64_inf neg, 8)
         else if has_prefix_ci ''inf'' s then (f64_inf neg, 3)
         else if has_prefix_ci ''nan'' s then (f64_nan, 3)
         else let (ds, nf, k) = mantissa is_digit s;
                  (e, ke) = exponent_part [CHR ''e'', CHR ''E''] (drop k s)
              in if k = 0 then (f64_zero False, 0)
                 else (scale 10 neg (digits_val 10 ds) (e - int nf), k + ke))"

definition strtod :: "string \<Rightarrow> double \<times> nat" where
  "strtod s =
     (let ws = length (takeWhile is_space s); (neg, ks) = sign_part (drop ws s);
          (d, k) = strtod_unsigned neg (drop (ws + ks) s)
      in if k = 0 then (f64_zero False, 0) else (d, ws + ks + k))"

section \<open>How much is read\<close>

lemma sign_part_len: "snd (sign_part s) \<le> length s"
  by (cases s) (auto simp: sign_part_def at_def NUL_def)

lemma length_takeWhile_drop: "k + length (takeWhile P (drop k s)) \<le> max k (length s)"
  using length_takeWhile_le [of P "drop k s"] by simp

lemma exponent_part_len: "snd (exponent_part marks s) \<le> length s"
proof -
  obtain neg k where sg: "sign_part (drop 1 s) = (neg, k)" by force
  have "k \<le> length s - 1" using sign_part_len [of "drop 1 s"] sg by simp
  then show ?thesis using sg length_takeWhile_le [of is_digit "drop (1 + k) s"]
    by (cases s) (auto simp: exponent_part_def Let_def)
qed

lemma mantissa_len: "snd (snd (mantissa dig s)) \<le> length s"
proof -
  let ?n = "length (takeWhile dig s)"
  have "?n \<le> length s" by (rule length_takeWhile_le)
  moreover have "at s ?n = CHR ''.'' \<Longrightarrow> ?n < length s" by (rule at_not_NUL) (simp add: NUL_def)
  ultimately show ?thesis using length_takeWhile_le [of dig "drop (?n + 1) s"]
    by (auto simp: mantissa_def Let_def)
qed

lemma has_prefix_ci_len: "has_prefix_ci w s \<Longrightarrow> length w \<le> length s"
  by (metis has_prefix_ci_def length_map length_take min.cobounded1)

lemma strtod_unsigned_len: "snd (strtod_unsigned neg s) \<le> length s"
proof -
  let ?m = "mantissa is_hex (drop 2 s)" and ?d = "mantissa is_digit s"
  have hex: "snd (snd ?m) \<le> length s - 2" using mantissa_len [of is_hex "drop 2 s"] by simp
  have dec: "snd (snd ?d) \<le> length s" by (rule mantissa_len)
  have eh: "snd (exponent_part [CHR ''p'', CHR ''P''] (drop (2 + snd (snd ?m)) s)) \<le> length s - (2 + snd (snd ?m))"
    using exponent_part_len [of _ "drop (2 + snd (snd ?m)) s"] by simp
  have ed: "snd (exponent_part [CHR ''e'', CHR ''E''] (drop (snd (snd ?d)) s)) \<le> length s - snd (snd ?d)"
    using exponent_part_len [of _ "drop (snd (snd ?d)) s"] by simp
  have pre: "has_prefix_ci ''0x'' s \<Longrightarrow> 2 \<le> length s" "has_prefix_ci ''infinity'' s \<Longrightarrow> 8 \<le> length s"
    "has_prefix_ci ''inf'' s \<Longrightarrow> 3 \<le> length s" "has_prefix_ci ''nan'' s \<Longrightarrow> 3 \<le> length s"
    by (auto dest: has_prefix_ci_len)
  show ?thesis
  proof (cases "has_prefix_ci ''0x'' s \<and> 0 < snd (snd ?m)")
    case True
    then have "snd (strtod_unsigned neg s) = 2 + snd (snd ?m) +
        snd (exponent_part [CHR ''p'', CHR ''P''] (drop (2 + snd (snd ?m)) s))"
      by (simp add: strtod_unsigned_def Let_def case_prod_beta)
    then show ?thesis using eh hex pre(1) True by linarith
  next
    case False
    then have "snd (strtod_unsigned neg s) \<in> {0, snd (snd ?d) +
        snd (exponent_part [CHR ''e'', CHR ''E''] (drop (snd (snd ?d)) s))} \<or>
      (has_prefix_ci ''infinity'' s \<and> snd (strtod_unsigned neg s) = 8) \<or>
      (has_prefix_ci ''inf'' s \<and> snd (strtod_unsigned neg s) = 3) \<or>
      (has_prefix_ci ''nan'' s \<and> snd (strtod_unsigned neg s) = 3)"
      by (simp add: strtod_unsigned_def Let_def case_prod_beta)
    then show ?thesis using ed dec pre(2-) by auto
  qed
qed

lemma strtod_len: "snd (strtod s) \<le> length s"
proof -
  let ?w = "length (takeWhile is_space s)"
  obtain neg k where sg: "sign_part (drop ?w s) = (neg, k)" by force
  have "?w \<le> length s" by (rule length_takeWhile_le)
  moreover have "k \<le> length s - ?w" using sign_part_len [of "drop ?w s"] sg by simp
  ultimately show ?thesis using strtod_unsigned_len [of neg "drop (?w + k) s"] sg
    by (simp add: strtod_def Let_def case_prod_beta) linarith
qed

lemma mantissa_pos:
  assumes "s \<noteq> []" "dig (hd s) \<or> (hd s = CHR ''.'' \<and> dig (at s 1) \<and> \<not> dig NUL \<and> \<not> dig CHR ''.'')"
  shows "0 < snd (snd (mantissa dig s))"
proof (cases "dig (hd s)")
  case True
  then have "takeWhile dig s \<noteq> []" using assms(1) by (cases s) auto
  then show ?thesis by (auto simp: mantissa_def Let_def)
next
  case False
  then have "takeWhile dig s = []" "at s 0 = CHR ''.''" "takeWhile dig (drop 1 s) \<noteq> []"
    using assms by (cases s; cases "tl s"; auto simp: at_def NUL_def)+
  then show ?thesis by (auto simp: mantissa_def Let_def)
qed

lemma strtod_digit:
  assumes "s \<noteq> []" "is_digit (hd s) \<or> (hd s = CHR ''.'' \<and> is_digit (at s 1))"
  shows "0 < snd (strtod s)"
proof -
  have hd: "\<not> is_space (hd s)" "hd s \<noteq> CHR ''-''" "hd s \<noteq> CHR ''+''"
    using assms(2) by (auto simp: is_space_def char_class_defs)
  have ws: "takeWhile is_space s = []" "sign_part s = (False, 0)"
    using assms(1) hd by (cases s; auto simp: sign_part_def at_def)+
  have "0 < snd (snd (mantissa is_digit s))"
    using assms by (intro mantissa_pos) (auto simp: char_class_defs NUL_def)
  then have "0 < snd (strtod_unsigned False s)"
    by (simp add: strtod_unsigned_def Let_def case_prod_beta)
  then show ?thesis by (simp add: strtod_def ws Let_def case_prod_beta)
qed

end
