(* ===== verification/Half_Float.thy ===== *)
theory Half_Float
  imports Float64
begin

text \<open>
  Half precision: \<open>half_to_float\<close> and \<open>float_to_half\<close> of \<open>src/src/vm.c\<close> on the bit patterns of 16-bit
  and 32-bit floats, and the C conversions between \<open>float\<close> and \<open>double\<close> that surround them.
\<close>

type_synonym single = u32

section \<open>Widening and narrowing in C\<close>

definition f32_sign :: "single \<Rightarrow> bool" where "f32_sign w \<longleftrightarrow> bit w 31"
definition f32_exp :: "single \<Rightarrow> nat" where "f32_exp w = unat (drop_bit 23 w AND 0xff)"
definition f32_frac :: "single \<Rightarrow> int" where "f32_frac w = uint (w AND 0x7fffff)"

text \<open>The value of a finite \<open>float\<close> in units of \<open>2 ^ -149\<close>.\<close>

definition f32_scaled :: "single \<Rightarrow> int" where
  "f32_scaled w =
     (let m = (if f32_exp w = 0 then f32_frac w else (2 ^ 23 + f32_frac w) * 2 ^ (f32_exp w - 1))
      in if f32_sign w then - m else m)"

definition f32_to_f64 :: "single \<Rightarrow> double" where
  "f32_to_f64 w =
     (if f32_exp w = 255 then (if f32_frac w = 0 then f64_inf (f32_sign w) else f64_nan)
      else f64_round (f32_sign w) (\<bar>f32_scaled w\<bar> * 2 ^ 925) 1)"

definition f64_to_f32 :: "double \<Rightarrow> single" where
  "f64_to_f32 d =
     (let sg = (if f64_sign d then 0x80000000 else 0)
      in if f64_is_nan d then sg OR 0x7fc00000
         else if f64_is_inf d then sg OR 0x7f800000
         else let n = \<bar>f64_scaled d\<bar>; u = 2 ^ 925; s = bitlen (n div u) - 24;
                  m = int s * 2 ^ 23 + round_half_even n (u * 2 ^ s)
              in sg OR word_of_int (if m \<ge> 255 * 2 ^ 23 then 255 * 2 ^ 23 else m))"

section \<open>Half precision\<close>

text \<open>
  The normalising loop of a subnormal: shift the mantissa up to its hidden bit, counting the
  exponent down (modulo \<open>2 ^ 32\<close>). It ends for a mantissa with a bit below position 11.
\<close>

partial_function (option) normalise :: "u32 \<Rightarrow> u32 \<Rightarrow> (u32 \<times> u32) option" where
  "normalise mant ex =
     (if mant AND 0x400 = 0 then normalise (push_bit 1 mant) (ex - 1) else Some (mant, ex))"

declare normalise.simps [code]

definition half_to_float :: "16 word \<Rightarrow> single option" where
  "half_to_float h =
     (let sign = push_bit 16 (ucast (h AND 0x8000)) :: u32;
          ex = drop_bit 10 (ucast (h AND 0x7C00)) :: u32;
          mant = ucast (h AND 0x03FF) :: u32
      in if ex = 0x1F then Some (sign OR 0x7F800000 OR push_bit 13 mant)
         else if ex = 0
         then if mant = 0 then Some sign
              else map_option (\<lambda>(mant, ex). let ex = ex + 1; mant = mant AND NOT 0x400
                     in sign OR push_bit 23 ((ex - 15 + 127) AND 0xFF) OR push_bit 13 mant)
                     (normalise mant ex)
         else Some (sign OR push_bit 23 ((ex - 15 + 127) AND 0xFF) OR push_bit 13 mant))"

definition float_to_half :: "single \<Rightarrow> 16 word" where
  "float_to_half f =
     (let sign = drop_bit 16 f AND 0x8000;
          ex = int (unat (drop_bit 23 f AND 0xFF)) - 127;
          mant = f AND 0x007FFFFF
      in if ex = 128
         then ucast (sign OR 0x7C00 OR (if mant \<noteq> 0 then 0x0200 OR drop_bit 13 mant else 0))
         else
           let ex = ex + 15
           in if ex \<ge> 31 then ucast (sign OR 0x7C00)
              else if ex \<le> 0
              then if ex < -10 then ucast sign
                   else let mant = mant OR 0x00800000; shift = nat (14 - ex);
                            round = drop_bit (shift - 1) mant AND 1;
                            rem = mant AND (push_bit (shift - 1) 1 - 1);
                            h_mant = drop_bit shift mant;
                            h_mant = (if round \<noteq> 0 \<and> (rem \<noteq> 0 \<or> h_mant AND 1 \<noteq> 0) then h_mant + 1 else h_mant)
                        in ucast (sign OR h_mant)
              else let h_mant = drop_bit 13 mant; round = drop_bit 12 mant AND 1; rem = mant AND 0x0FFF;
                       (h_mant, ex) = (if round \<noteq> 0 \<and> (rem \<noteq> 0 \<or> h_mant AND 1 \<noteq> 0)
                                       then if h_mant + 1 \<ge> 0x0400 then (0, ex + 1) else (h_mant + 1, ex)
                                       else (h_mant, ex))
                   in if ex \<ge> 31 then ucast (sign OR 0x7C00)
                      else ucast (sign OR push_bit 10 (word_of_int ex) OR h_mant))"

end
