(* ===== verification/JS_Heap.thy ===== *)
theory JS_Heap
  imports JS_Set C_Numbers Half_Float
begin

text \<open>
  The object layer of \<open>src/src/alloc.c\<close>: strings with interning, arrays, plain objects, functions,
  environments, errors, promises, symbols and buffers, and property access (\<open>object_get\<close>,
  \<open>object_set\<close>). The heap maps addresses to objects; an allocation takes the next address. The
  collector is not part of this layer: it is modelled in the arena theory, and the root pushes and
  re-fetches that surround allocations here only serve it.

  A string is its bytes; its stored length and hash are functions of them. An array is its elements
  up to its length, with its capacity; a property table likewise. Where the source reads memory of
  one kind as another (a key that is no string), reads out of bounds, converts a double out of range
  or recurses for ever, C gives no result, and neither does the model: the result is \<open>None\<close>.
\<close>

section \<open>Objects and the heap\<close>

type_synonym props = "(Value \<times> Value) list"

record JSFunction =
  prog :: u64
  bytecode_offset :: u32
  register_count :: u32
  param_count :: u32
  is_async :: bool
  f_env :: Value
  f_name :: Value
  native_ptr :: u64
  f_props :: props
  f_capacity :: nat
  user_data :: u64

datatype hobj =
  OString string
| OArray "Value list" nat
| OObject props nat
| OFunction JSFunction
| OEnv Value "Value list"
| OSet JSSet
| OFloat16 "16 word list"
| OPromise u32 Value Value
| OIterator Value Value u32 Value u8 bool
| OSymbol Value u32
| ORegExp Value Value bool bool bool bool
| OError Value Value Value props nat
| OBuffer "u8 list" bool Value
| OBufferData

record heap =
  objs :: "u64 \<rightharpoonup> hobj"
  brk :: u64
  interned :: "Value list"
  next_symbol :: u32

definition MAX_INTERNED_STRINGS :: nat where "MAX_INTERNED_STRINGS = 1024"

definition NATIVE :: u32 where "NATIVE = 0xffffffff"

definition heap_alloc :: "hobj \<Rightarrow> heap \<Rightarrow> Value \<times> heap" where
  "heap_alloc ob h = (make_pointer (brk h), h\<lparr>objs := (objs h)(brk h \<mapsto> ob), brk := brk h + 8\<rparr>)"

definition deref :: "heap \<Rightarrow> Value \<Rightarrow> hobj option" where
  "deref h v = (if IS_POINTER v then objs h (get_pointer v) else None)"

definition put_obj :: "Value \<Rightarrow> hobj \<Rightarrow> heap \<Rightarrow> heap" where
  "put_obj v ob h = h\<lparr>objs := (objs h)(get_pointer v \<mapsto> ob)\<rparr>"

definition str_of :: "heap \<Rightarrow> Value \<Rightarrow> string option" where
  "str_of h v = (case deref h v of Some (OString s) \<Rightarrow> Some s | _ \<Rightarrow> None)"

text \<open>\<open>strcmp(s->data, w) == 0\<close>: the bytes up to the first terminator.\<close>

definition c_eq :: "string \<Rightarrow> string \<Rightarrow> bool" where
  "c_eq s w \<longleftrightarrow> takeWhile (\<lambda>c. c \<noteq> NUL) s = w"

section \<open>Constructors\<close>

text \<open>FNV-1a.\<close>

definition hash_string :: "string \<Rightarrow> u32" where
  "hash_string key = fold (\<lambda>c hsh. (hsh XOR of_nat (of_char c)) * 16777619) key 2166136261"

fun find_interned :: "heap \<Rightarrow> Value list \<Rightarrow> string \<Rightarrow> Value option" where
  "find_interned h [] s = None"
| "find_interned h (v # vs) s =
     (case str_of h v of
        Some t \<Rightarrow> if length t = length s \<and> hash_string t = hash_string s \<and> t = s then Some v
                   else find_interned h vs s
      | None \<Rightarrow> find_interned h vs s)"

definition create_string :: "string \<Rightarrow> heap \<Rightarrow> Value \<times> heap" where
  "create_string s h =
     (case find_interned h (interned h) s of
        Some v \<Rightarrow> (v, h)
      | None \<Rightarrow>
          let (v, h) = heap_alloc (OString s) h
          in (v, if length (interned h) < MAX_INTERNED_STRINGS then h\<lparr>interned := interned h @ [v]\<rparr> else h))"

definition create_string_from_chars :: "string \<Rightarrow> heap \<Rightarrow> Value \<times> heap" where
  "create_string_from_chars s h = heap_alloc (OString s) h"

definition create_array :: "nat \<Rightarrow> heap \<Rightarrow> Value \<times> heap" where
  "create_array cap h = heap_alloc (OArray [] (if cap > 0 then cap else 4)) h"

definition array_push :: "Value \<Rightarrow> Value \<Rightarrow> heap \<Rightarrow> (Value \<times> heap) option" where
  "array_push arr v h =
     (case deref h arr of
        Some (OArray es cap) \<Rightarrow>
          let cap = (if length es \<ge> cap then cap * 2 else cap)
          in if length es < cap
             then Some (make_integer (of_nat (length es + 1)), put_obj arr (OArray (es @ [v]) cap) h)
             else None
      | _ \<Rightarrow> None)"

definition create_object :: "heap \<Rightarrow> Value \<times> heap" where
  "create_object h = heap_alloc (OObject [] 4) h"

definition create_function :: "u64 \<Rightarrow> u32 \<Rightarrow> u32 \<Rightarrow> u32 \<Rightarrow> bool \<Rightarrow> Value \<Rightarrow> Value \<Rightarrow> heap \<Rightarrow> Value \<times> heap" where
  "create_function pr off regs params async env name h =
     heap_alloc (OFunction \<lparr>prog = pr, bytecode_offset = off, register_count = regs, param_count = params,
       is_async = async, f_env = env, f_name = name, native_ptr = 0, f_props = [], f_capacity = 4,
       user_data = 0\<rparr>) h"

text \<open>Fields the source leaves unset are zero, since the allocator clears the payload.\<close>

definition create_bound_native_function :: "u64 \<Rightarrow> Value \<Rightarrow> Value \<Rightarrow> heap \<Rightarrow> Value \<times> heap" where
  "create_bound_native_function nptr name env h =
     heap_alloc (OFunction \<lparr>prog = 0, bytecode_offset = NATIVE, register_count = 0, param_count = 0,
       is_async = False, f_env = env, f_name = name, native_ptr = nptr, f_props = [], f_capacity = 0,
       user_data = 0\<rparr>) h"

definition create_native_function :: "u64 \<Rightarrow> Value \<Rightarrow> heap \<Rightarrow> Value \<times> heap" where
  "create_native_function nptr name h =
     heap_alloc (OFunction \<lparr>prog = 0, bytecode_offset = NATIVE, register_count = 0, param_count = 0,
       is_async = False, f_env = VAL_UNDEFINED, f_name = name, native_ptr = nptr, f_props = [],
       f_capacity = 0, user_data = 0\<rparr>) h"

definition create_bound_bytecode_function :: "u64 \<Rightarrow> JSFunction \<Rightarrow> Value \<Rightarrow> heap \<Rightarrow> Value \<times> heap" where
  "create_bound_bytecode_function target_addr target bound_this h =
     heap_alloc (OFunction \<lparr>prog = prog target, bytecode_offset = bytecode_offset target,
       register_count = register_count target, param_count = param_count target,
       is_async = is_async target, f_env = bound_this, f_name = f_name target,
       native_ptr = target_addr, f_props = [], f_capacity = 0, user_data = 0\<rparr>) h"

definition create_environment :: "Value \<Rightarrow> nat \<Rightarrow> heap \<Rightarrow> Value \<times> heap" where
  "create_environment parent n h = heap_alloc (OEnv parent (replicate n VAL_UNINITIALIZED)) h"

definition create_symbol :: "Value \<Rightarrow> heap \<Rightarrow> Value \<times> heap" where
  "create_symbol description h =
     heap_alloc (OSymbol description (next_symbol h)) (h\<lparr>next_symbol := next_symbol h + 1\<rparr>)"

definition create_iterator_helper :: "Value \<Rightarrow> Value \<Rightarrow> u8 \<Rightarrow> u32 \<Rightarrow> heap \<Rightarrow> Value \<times> heap" where
  "create_iterator_helper src callback helper_type n h =
     heap_alloc (OIterator src callback n VAL_NULL helper_type False) h"

definition create_error :: "string \<Rightarrow> Value \<Rightarrow> heap \<Rightarrow> Value \<times> heap" where
  "create_error type_name message h =
     (let (v, h) = heap_alloc (OError 0 0 0 [] 0) h; (name, h) = create_string type_name h
      in (v, put_obj v (OError name message VAL_UNDEFINED [] 0) h))"

definition create_promise :: "u32 \<Rightarrow> Value \<Rightarrow> heap \<Rightarrow> Value \<times> heap" where
  "create_promise st res h = heap_alloc (OPromise st res VAL_NULL) h"

definition create_float16_array :: "nat \<Rightarrow> heap \<Rightarrow> Value \<times> heap" where
  "create_float16_array n h = heap_alloc (OFloat16 (replicate n 0)) h"

section \<open>Property access\<close>

text \<open>\<open>strtol(s, &end, 10)\<close> with \<open>end != s && *end == '\0'\<close>: the text is one decimal number.\<close>

definition strtol_whole :: "string \<Rightarrow> int option" where
  "strtol_whole data =
     (let s = takeWhile (\<lambda>c. c \<noteq> NUL) data; ws = length (takeWhile is_space s);
          (neg, k) = sign_part (drop ws s); ds = takeWhile is_digit (drop (ws + k) s);
          n = digits_val 10 ds; n = (if neg then - n else n);
          n = (if n > 2 ^ 63 - 1 then 2 ^ 63 - 1 else if n < - (2 ^ 63) then - (2 ^ 63) else n)
      in if ds \<noteq> [] \<and> drop (ws + k + length ds) s = [] then Some n else None)"

text \<open>
  The guard \<open>idx >= 0 && (uint32_t)idx < length\<close> in front of \<open>elements[idx]\<close> compares only the low 32
  bits of the index.
\<close>

definition index_guard :: "int \<Rightarrow> nat \<Rightarrow> bool" where
  "index_guard idx len \<longleftrightarrow> idx \<ge> 0 \<and> idx mod 2 ^ 32 < int len"

definition index_read :: "int \<Rightarrow> 'a list \<Rightarrow> ('a \<Rightarrow> Value option) \<Rightarrow> Value option" where
  "index_read idx xs get =
     (if index_guard idx (length xs)
      then if nat idx < length xs then get (xs ! nat idx) else None
      else Some VAL_UNDEFINED)"

definition half_value :: "16 word \<Rightarrow> Value option" where
  "half_value w = map_option (\<lambda>f. make_double (f32_to_f64 f)) (half_to_float w)"

definition byte_value :: "u8 \<Rightarrow> Value option" where
  "byte_value b = Some (make_integer (ucast b))"

definition key_index :: "Value \<Rightarrow> int option" where
  "key_index key =
     (if IS_INTEGER key then Some (sint (get_integer key)) else f64_to_int64 (get_double key))"

text \<open>Numeric keys on arrays, half-float arrays and buffers; other objects ignore them.\<close>

definition numeric_get :: "hobj \<Rightarrow> int \<Rightarrow> Value option option" where
  "numeric_get ob idx =
     (case ob of
        OArray es _ \<Rightarrow> Some (index_read idx es Some)
      | OFloat16 ds \<Rightarrow> Some (index_read idx ds half_value)
      | OBuffer bs _ _ \<Rightarrow> Some (index_read idx bs byte_value)
      | _ \<Rightarrow> None)"

definition get_bound_target :: "JSFunction \<Rightarrow> u64 option" where
  "get_bound_target f =
     (if bytecode_offset f \<noteq> NATIVE
      then if native_ptr f \<noteq> 0 then Some (native_ptr f) else None
      else if user_data f \<noteq> 0 then Some (user_data f) else None)"

definition maybe_bind_method :: "Value \<Rightarrow> Value \<Rightarrow> heap \<Rightarrow> Value \<times> heap" where
  "maybe_bind_method res obj h =
     (case deref h res of
        Some (OFunction f) \<Rightarrow>
          if bytecode_offset f = NATIVE
          then if \<not> IS_UNDEFINED (f_env f) then (res, h)
               else let (b, h) = create_bound_native_function (native_ptr f) (f_name f) obj h
                    in (b, case deref h b of
                             Some (OFunction bf) \<Rightarrow> put_obj b (OFunction (bf\<lparr>user_data := get_pointer res\<rparr>)) h
                           | _ \<Rightarrow> h)
          else if native_ptr f = 0 then create_bound_bytecode_function (get_pointer res) f obj h
          else (res, h)
      | _ \<Rightarrow> (res, h))"

text \<open>Looking a key up in a property table: by identity, then by content among the pointer keys.\<close>

definition prop_by_identity :: "props \<Rightarrow> Value \<Rightarrow> Value option" where
  "prop_by_identity ps key = map_of ps key"

text \<open>The content search reads every pointer key it passes as a string.\<close>

fun prop_by_content :: "heap \<Rightarrow> props \<Rightarrow> string option \<Rightarrow> Value option option" where
  "prop_by_content h [] key = Some None"
| "prop_by_content h ((k, v) # ps) key =
     (if \<not> IS_POINTER k then prop_by_content h ps key
      else case (str_of h k, key) of
             (Some t, Some s) \<Rightarrow> if t = s then Some (Some v) else prop_by_content h ps key
           | _ \<Rightarrow> None)"

text \<open>
  The surroundings of property access: whether there is a current VM, its prototypes, and the code
  addresses of the built-ins that \<open>object_get\<close> names.
\<close>

record protos =
  has_vm :: bool
  set_prototype :: Value
  array_prototype :: Value
  string_prototype :: Value
  regexp_prototype :: Value
  buffer_prototype :: Value
  js_promise_constructor :: u64
  js_promise_try :: u64
  js_promise_then :: u64
  js_promise_catch :: u64
  js_function_call :: u64
  js_function_apply :: u64

text \<open>A method found on a prototype is bound to the receiver if it is native, else dropped.\<close>

definition bind_proto_method :: "Value \<Rightarrow> Value \<Rightarrow> heap \<Rightarrow> (Value \<times> heap) option" where
  "bind_proto_method func obj h =
     (if IS_POINTER func
      then case deref h func of
             Some (OFunction f) \<Rightarrow>
               if bytecode_offset f = NATIVE
               then Some (create_bound_native_function (native_ptr f) (f_name f) obj h)
               else Some (VAL_UNDEFINED, h)
           | _ \<Rightarrow> None
      else Some (VAL_UNDEFINED, h))"

text \<open>
  What the kinds with fixed properties answer for a key: \<open>Inl\<close> a final result, \<open>Inr\<close> the prototype to
  ask next. The key's text is \<open>s\<close>.
\<close>

definition pure :: "Value \<Rightarrow> heap \<Rightarrow> (Value \<times> heap + Value) option" where
  "pure v h = Some (Inl (v, h))"

definition ask_proto :: "protos \<Rightarrow> Value \<Rightarrow> heap \<Rightarrow> (Value \<times> heap + Value) option" where
  "ask_proto env p h =
     (if has_vm env \<and> IS_POINTER p then Some (Inr p) else pure VAL_UNDEFINED h)"

definition function_get :: "protos \<Rightarrow> Value \<Rightarrow> JSFunction \<Rightarrow> Value \<Rightarrow> heap \<Rightarrow> (Value \<times> heap) option" where
  "function_get env obj f key h =
     (case str_of h key of
        None \<Rightarrow> if bytecode_offset f = NATIVE \<and> native_ptr f = js_promise_constructor env then None
                 else Some (VAL_UNDEFINED, h)
      | Some s \<Rightarrow>
          if bytecode_offset f = NATIVE \<and> native_ptr f = js_promise_constructor env \<and> s = ''try''
          then Some (create_native_function (js_promise_try env) key h)
          else if s = ''call'' then Some (create_bound_native_function (js_function_call env) key obj h)
          else if s = ''apply'' then Some (create_bound_native_function (js_function_apply env) key obj h)
          else map_option (\<lambda>r. (case r of None \<Rightarrow> VAL_UNDEFINED | Some v \<Rightarrow> v, h)) (prop_by_content h (f_props f) (Some s)))"

definition array_get :: "protos \<Rightarrow> Value list \<Rightarrow> string \<Rightarrow> heap \<Rightarrow> (Value \<times> heap + Value) option" where
  "array_get env es s h =
     (if c_eq s ''length'' then pure (make_integer (of_nat (length es))) h
      else case strtol_whole s of
             Some idx \<Rightarrow> Option.bind (index_read idx es Some) (\<lambda>v. pure v h)
           | None \<Rightarrow> ask_proto env (array_prototype env) h)"

definition buffer_get :: "protos \<Rightarrow> Value \<Rightarrow> u8 list \<Rightarrow> Value \<Rightarrow> string \<Rightarrow> heap \<Rightarrow> (Value \<times> heap + Value) option" where
  "buffer_get env obj bs slab_ref s h =
     (if c_eq s ''length'' \<or> c_eq s ''byteLength'' then pure (make_integer (of_nat (length bs))) h
      else if c_eq s ''byteOffset'' then pure (make_integer 0) h
      else if c_eq s ''buffer'' then pure (if slab_ref \<noteq> VAL_UNDEFINED then slab_ref else obj) h
      else case strtol_whole s of
             Some idx \<Rightarrow> Option.bind (index_read idx bs byte_value) (\<lambda>v. pure v h)
           | None \<Rightarrow> ask_proto env (buffer_prototype env) h)"

definition float16_get :: "16 word list \<Rightarrow> string \<Rightarrow> heap \<Rightarrow> (Value \<times> heap + Value) option" where
  "float16_get ds s h =
     (if c_eq s ''length'' then pure (make_integer (of_nat (length ds))) h
      else case strtol_whole s of
             Some idx \<Rightarrow> Option.bind (index_read idx ds half_value) (\<lambda>v. pure v h)
           | None \<Rightarrow> pure VAL_UNDEFINED h)"

definition error_get :: "Value \<Rightarrow> Value \<Rightarrow> Value \<Rightarrow> props \<Rightarrow> Value \<Rightarrow> string \<Rightarrow> heap \<Rightarrow> (Value \<times> heap + Value) option" where
  "error_get name message stack ps key s h =
     (if c_eq s ''message'' then pure message h
      else if c_eq s ''name'' then pure name h
      else if c_eq s ''stack'' then pure stack h
      else case prop_by_identity ps key of
             Some v \<Rightarrow> pure v h
           | None \<Rightarrow> Option.bind (prop_by_content h ps (Some s))
                       (\<lambda>r. pure (case r of None \<Rightarrow> VAL_UNDEFINED | Some v \<Rightarrow> v) h))"

definition builtin_get :: "protos \<Rightarrow> Value \<Rightarrow> hobj \<Rightarrow> Value \<Rightarrow> string \<Rightarrow> heap \<Rightarrow> (Value \<times> heap + Value) option" where
  "builtin_get env obj ob key s h =
     (case ob of
        OSet st \<Rightarrow> if s = ''size'' then pure (make_integer (count st)) h else ask_proto env (set_prototype env) h
      | ORegExp src flags _ _ _ _ \<Rightarrow>
          if s = ''source'' then pure src h else if s = ''flags'' then pure flags h
          else ask_proto env (regexp_prototype env) h
      | OPromise _ _ _ \<Rightarrow>
          if s = ''then'' then Some (Inl (create_bound_native_function (js_promise_then env) key obj h))
          else if s = ''catch'' then Some (Inl (create_bound_native_function (js_promise_catch env) key obj h))
          else pure VAL_UNDEFINED h
      | OString t \<Rightarrow> if c_eq s ''length'' then pure (make_integer (of_nat (length t))) h
                      else ask_proto env (string_prototype env) h
      | OArray es _ \<Rightarrow> array_get env es s h
      | OBuffer bs _ slab_ref \<Rightarrow> buffer_get env obj bs slab_ref s h
      | OFloat16 ds \<Rightarrow> float16_get ds s h
      | OError name message stack ps _ \<Rightarrow> error_get name message stack ps key s h
      | _ \<Rightarrow> pure VAL_UNDEFINED h)"

text \<open>The \<open>__proto__\<close> search of the chain walk, again reading pointer keys as strings.\<close>

definition proto_link :: "heap \<Rightarrow> props \<Rightarrow> Value option" where
  "proto_link h ps = map_option (\<lambda>r. case r of None \<Rightarrow> VAL_UNDEFINED | Some v \<Rightarrow> v)
     (prop_by_content h ps (Some ''__proto__''))"

definition own_lookup :: "heap \<Rightarrow> props \<Rightarrow> Value \<Rightarrow> Value option option" where
  "own_lookup h ps key =
     (case prop_by_identity ps key of
        Some v \<Rightarrow> Some (Some v)
      | None \<Rightarrow> prop_by_content h ps (str_of h key))"

text \<open>
  \<open>object_get\<close>, one call at a time. \<open>walk\<close> holds the position in the prototype chain walk, if one is
  under way: the current object and the depth. A step ends with a result, goes on with another
  object or position, or asks a prototype and binds the method it finds there. The walk calls
  \<open>object_get\<close> afresh for a link to an object of another kind.
\<close>

datatype get_step = GDone "Value \<times> heap" | GTail "(Value \<times> nat) option" Value | GProto Value

definition chain_step :: "Value \<Rightarrow> nat \<Rightarrow> Value \<Rightarrow> Value \<Rightarrow> heap \<Rightarrow> get_step option" where
  "chain_step cur depth obj key h =
     (if \<not> IS_POINTER cur \<or> depth \<ge> 100 then Some (GDone (VAL_UNDEFINED, h))
      else case deref h cur of
             None \<Rightarrow> None
           | Some (OObject ps _) \<Rightarrow>
               Option.bind (own_lookup h ps key) (\<lambda>r. case r of
                 Some v \<Rightarrow> Some (GDone (maybe_bind_method v obj h))
               | None \<Rightarrow>
                   map_option (\<lambda>nxt. if \<not> IS_POINTER nxt \<or> nxt = cur then GDone (VAL_UNDEFINED, h)
                                     else GTail (Some (nxt, depth + 1)) obj)
                     (proto_link h ps))
           | Some _ \<Rightarrow> Some (GTail None cur))"

definition indexed :: "hobj \<Rightarrow> bool" where
  "indexed ob = (case ob of OArray _ _ \<Rightarrow> True | OFloat16 _ \<Rightarrow> True | OBuffer _ _ _ \<Rightarrow> True | _ \<Rightarrow> False)"

definition keyed_step :: "protos \<Rightarrow> Value \<Rightarrow> hobj \<Rightarrow> Value \<Rightarrow> heap \<Rightarrow> get_step option" where
  "keyed_step env obj ob key h =
     (if \<not> IS_POINTER key then Some (GDone (VAL_UNDEFINED, h))
      else case ob of
             OFunction f \<Rightarrow> map_option GDone (function_get env obj f key h)
           | OObject _ _ \<Rightarrow> Some (GTail (Some (obj, 0)) obj)
           | OEnv _ _ \<Rightarrow> Some (GDone (VAL_UNDEFINED, h))
           | OIterator _ _ _ _ _ _ \<Rightarrow> Some (GDone (VAL_UNDEFINED, h))
           | OSymbol _ _ \<Rightarrow> Some (GDone (VAL_UNDEFINED, h))
           | OBufferData \<Rightarrow> Some (GDone (VAL_UNDEFINED, h))
           | _ \<Rightarrow> Option.bind (str_of h key) (\<lambda>s.
                    map_option (case_sum GDone GProto) (builtin_get env obj ob key s h)))"

definition object_step :: "protos \<Rightarrow> Value \<Rightarrow> Value \<Rightarrow> heap \<Rightarrow> get_step option" where
  "object_step env obj key h =
     (if \<not> IS_POINTER obj then Some (GDone (VAL_UNDEFINED, h))
      else case deref h obj of
             None \<Rightarrow> None
           | Some ob \<Rightarrow>
               (case (case ob of OFunction f \<Rightarrow> get_bound_target f | _ \<Rightarrow> None) of
                  Some target \<Rightarrow> Some (GTail None (make_pointer target))
                | None \<Rightarrow>
                    if IS_DOUBLE key \<or> IS_INTEGER key
                    then Option.bind (key_index key) (\<lambda>idx.
                           if indexed ob
                           then Option.bind (numeric_get ob idx) (map_option (\<lambda>v. GDone (v, h)))
                           else Some (GDone (VAL_UNDEFINED, h)))
                    else keyed_step env obj ob key h))"

partial_function (option) object_get_from ::
  "protos \<Rightarrow> (Value \<times> nat) option \<Rightarrow> Value \<Rightarrow> Value \<Rightarrow> heap \<Rightarrow> (Value \<times> heap) option" where
  "object_get_from env walk obj key h =
     Option.bind
       (case walk of Some (cur, depth) \<Rightarrow> chain_step cur depth obj key h | None \<Rightarrow> object_step env obj key h)
       (\<lambda>st. case st of
          GDone r \<Rightarrow> Some r
        | GTail w ob \<Rightarrow> object_get_from env w ob key h
        | GProto p \<Rightarrow> Option.bind (object_get_from env None p key h)
                        (\<lambda>(func, h'). bind_proto_method func obj h'))"

definition object_get :: "protos \<Rightarrow> Value \<Rightarrow> Value \<Rightarrow> heap \<Rightarrow> (Value \<times> heap) option" where
  "object_get env obj key h = object_get_from env None obj key h"

text \<open>
  \<open>object_set\<close> on a property table: overwrite the first property whose key is the same value or a
  string of the same content, else append, doubling the capacity of a full table.
\<close>

definition same_key :: "heap \<Rightarrow> Value \<Rightarrow> Value \<Rightarrow> bool" where
  "same_key h k key \<longleftrightarrow> k = key \<or>
     (case (str_of h k, str_of h key) of (Some s, Some t) \<Rightarrow> s = t | _ \<Rightarrow> False)"

fun props_update :: "heap \<Rightarrow> props \<Rightarrow> Value \<Rightarrow> Value \<Rightarrow> props option" where
  "props_update h [] key v = None"
| "props_update h ((k, w) # ps) key v =
     (if same_key h k key then Some ((k, v) # ps) else map_option ((#) (k, w)) (props_update h ps key v))"

definition props_set :: "heap \<Rightarrow> props \<Rightarrow> nat \<Rightarrow> Value \<Rightarrow> Value \<Rightarrow> props \<times> nat" where
  "props_set h ps cap key v =
     (case props_update h ps key v of
        Some ps' \<Rightarrow> (ps', cap)
      | None \<Rightarrow>
          (ps @ [(key, v)], if length ps \<ge> cap then if cap = 0 then 4 else cap * 2 else cap))"

text \<open>The byte or half a value is stored as; a double out of the range of \<open>uint8_t\<close> has no defined byte.\<close>

definition store_byte :: "Value \<Rightarrow> u8 option" where
  "store_byte v =
     (if IS_INTEGER v then Some (ucast (get_integer v))
      else if IS_DOUBLE v then map_option word_of_int (f64_to_range 0 256 (get_double v)) else Some 0)"

definition store_half :: "Value \<Rightarrow> 16 word" where
  "store_half v = float_to_half (f64_to_f32
     (if IS_INTEGER v then f64_of_int (sint (get_integer v))
      else if IS_DOUBLE v then get_double v else f64_zero False))"

definition index_write :: "string \<Rightarrow> 'a list \<Rightarrow> 'a option \<Rightarrow> 'a list option" where
  "index_write s xs x =
     (case strtol_whole s of
        Some idx \<Rightarrow>
          if index_guard idx (length xs)
          then if nat idx < length xs then map_option (\<lambda>y. xs[nat idx := y]) x else None
          else Some xs
      | None \<Rightarrow> Some xs)"

text \<open>
  Only pointer keys reach the body, so the branches for numeric keys on buffers and half-float
  arrays are dead code. A bound function passes the store on to its target.
\<close>

partial_function (option) object_set :: "Value \<Rightarrow> Value \<Rightarrow> Value \<Rightarrow> heap \<Rightarrow> heap option" where
  "object_set obj key v h =
     (if \<not> IS_POINTER obj \<or> \<not> IS_POINTER key then Some h
      else case (case deref h obj of Some (OFunction f) \<Rightarrow> get_bound_target f | _ \<Rightarrow> None) of
             Some target \<Rightarrow> object_set (make_pointer target) key v h
           | None \<Rightarrow>
               (case deref h obj of
                  None \<Rightarrow> None
                | Some ob \<Rightarrow>
                    (case ob of
                       OObject ps cap \<Rightarrow>
                         (case props_set h ps cap key v of (ps', cap') \<Rightarrow> Some (put_obj obj (OObject ps' cap') h))
                     | OFunction f \<Rightarrow>
                         (case props_set h (f_props f) (f_capacity f) key v of
                            (ps', cap') \<Rightarrow> Some (put_obj obj (OFunction (f\<lparr>f_props := ps', f_capacity := cap'\<rparr>)) h))
                     | OError name message stack ps cap \<Rightarrow>
                         (case props_set h ps cap key v of
                            (ps', cap') \<Rightarrow> Some (put_obj obj (OError name message stack ps' cap') h))
                     | OBuffer bs ext slab_ref \<Rightarrow>
                         Option.bind (str_of h key) (\<lambda>s.
                           map_option (\<lambda>bs'. put_obj obj (OBuffer bs' ext slab_ref) h)
                             (index_write s bs (store_byte v)))
                     | OFloat16 ds \<Rightarrow>
                         Option.bind (str_of h key) (\<lambda>s.
                           map_option (\<lambda>ds'. put_obj obj (OFloat16 ds') h)
                             (index_write s ds (Some (store_half v))))
                     | _ \<Rightarrow> Some h)))"

end
