(* ===== verification/JS_Heap_Laws.thy ===== *)
theory JS_Heap_Laws
  imports JS_Heap
begin

text \<open>
  Invariant of the object heap, and what the operations of the object layer guarantee under it:
  allocation is fresh, interning is faithful, stores are read back.
\<close>

section \<open>Invariant\<close>

definition room :: "heap \<Rightarrow> nat \<Rightarrow> bool" where
  "room h n \<longleftrightarrow> unat (brk h) + 8 * n < 2 ^ 48"

definition heap_ok :: "heap \<Rightarrow> bool" where
  "heap_ok h \<longleftrightarrow> (\<forall>a \<in> dom (objs h). a < brk h) \<and>
     (\<forall>v \<in> set (interned h). \<exists>s. str_of h v = Some s) \<and> length (interned h) \<le> MAX_INTERNED_STRINGS \<and>
     brk h < 2 ^ 48"

lemma get_make_pointer: "a < 2 ^ 48 \<Longrightarrow> get_pointer (make_pointer a) = a"
  unfolding get_make(1) value_masks(1) by (rule less_mask_eq)

lemma deref_make_pointer: "a < 2 ^ 48 \<Longrightarrow> deref h (make_pointer a) = objs h a"
  unfolding deref_def by (simp only: get_make_pointer kind_of_make if_True)

definition extends :: "heap \<Rightarrow> heap \<Rightarrow> bool" where
  "extends h h' \<longleftrightarrow> (\<forall>v ob. deref h v = Some ob \<longrightarrow> deref h' v = Some ob)"

lemma extends_refl [simp]: "extends h h"
  by (simp add: extends_def)

lemma extends_trans: "extends h h' \<Longrightarrow> extends h' h'' \<Longrightarrow> extends h h''"
  by (simp add: extends_def)

lemma extends_str: "extends h h' \<Longrightarrow> str_of h v = Some s \<Longrightarrow> str_of h' v = Some s"
  by (auto simp: extends_def str_of_def split: option.splits hobj.splits)

lemma heap_alloc_laws:
  assumes "heap_ok h" "room h 1" "heap_alloc ob h = (v, h')"
  shows "deref h' v = Some ob" "extends h h'" "heap_ok h'" "deref h v = None" "IS_POINTER v"
    "interned h' = interned h"
proof -
  have b: "brk h < 2 ^ 48" "unat (brk h) + 8 < 2 ^ 48" using assms by (auto simp: heap_ok_def room_def)
  have fresh: "objs h (brk h) = None" using assms(1) by (auto simp: heap_ok_def)
  have v: "v = make_pointer (brk h)" and h': "h' = h\<lparr>objs := (objs h)(brk h \<mapsto> ob), brk := brk h + 8\<rparr>"
    using assms(3) by (auto simp: heap_alloc_def)
  show "deref h' v = Some ob" using b by (simp add: v h' deref_make_pointer)
  show "deref h v = None" using b fresh by (simp add: v deref_make_pointer)
  show "IS_POINTER v" by (simp add: v)
  show "interned h' = interned h" by (simp add: h')
  show ext: "extends h h'" using fresh by (auto simp: extends_def deref_def h' split: if_splits)
  have up: "unat (brk h + 8) = unat (brk h) + 8" using b(2) by (subst unat_add_lem [THEN iffD1]) auto
  then have lt: "brk h < brk h + 8" "brk h + 8 < 2 ^ 48" using b(2) by (auto simp: word_less_nat_alt)
  have "\<forall>a\<in>dom (objs h'). a < brk h'"
    using assms(1) lt(1) less_trans [OF _ lt(1)] by (auto simp: heap_ok_def h')
  moreover have "\<forall>v\<in>set (interned h). \<exists>s. str_of h' v = Some s"
    using assms(1) extends_str [OF ext] unfolding heap_ok_def by blast
  ultimately show "heap_ok h'" using assms(1) lt(2) by (simp add: heap_ok_def h')
qed

section \<open>Strings\<close>

lemma find_interned_sound: "find_interned h vs s = Some v \<Longrightarrow> v \<in> set vs \<and> str_of h v = Some s"
  by (induction h vs s rule: find_interned.induct) (auto split: option.splits if_splits)

lemma find_interned_complete:
  "v \<in> set vs \<Longrightarrow> str_of h v = Some s \<Longrightarrow> find_interned h vs s \<noteq> None"
  by (induction h vs s rule: find_interned.induct) (auto split: option.splits if_splits)

lemma find_interned_append:
  "find_interned h (vs @ ws) s = (case find_interned h vs s of Some v \<Rightarrow> Some v | None \<Rightarrow> find_interned h ws s)"
  by (induction h vs s rule: find_interned.induct) (auto split: option.splits)

lemma find_interned_extends:
  assumes "extends h h'" "\<forall>v\<in>set vs. \<exists>s. str_of h v = Some s"
  shows "find_interned h' vs s = find_interned h vs s"
  using assms(2)
proof (induction vs)
  case (Cons v vs)
  then obtain t where "str_of h v = Some t" by auto
  with extends_str [OF assms(1) this] Cons show ?case by simp
qed simp

lemma create_string_laws:
  assumes "heap_ok h" "room h 1" "create_string s h = (v, h')"
  shows "str_of h' v = Some s" "extends h h'" "heap_ok h'" "IS_POINTER v"
proof -
  have "str_of h' v = Some s \<and> extends h h' \<and> heap_ok h'"
  proof (cases "find_interned h (interned h) s")
    case (Some w)
    then have "v = w" "h' = h" using assms(3) by (auto simp: create_string_def)
    then show ?thesis using find_interned_sound [OF Some] assms(1) by simp
  next
    case None
    obtain w g where a: "heap_alloc (OString s) h = (w, g)" by force
    note al = heap_alloc_laws [OF assms(1,2) a]
    have v: "v = w" "h' = (if length (interned g) < MAX_INTERNED_STRINGS then g\<lparr>interned := interned g @ [w]\<rparr> else g)"
      using assms(3) None a by (auto simp: create_string_def)
    have s: "str_of g w = Some s" using al(1) by (simp add: str_of_def)
    have same: "deref (g\<lparr>interned := x\<rparr>) = deref g" "str_of (g\<lparr>interned := x\<rparr>) = str_of g" for x
      by (simp_all add: fun_eq_iff deref_def str_of_def)
    show ?thesis using v s al(2,3) by (auto simp: heap_ok_def extends_def same)
  qed
  then show "str_of h' v = Some s" "extends h h'" "heap_ok h'" by auto
  then show "IS_POINTER v" by (auto simp: str_of_def deref_def split: if_splits)
qed

lemma create_string_again:
  assumes "heap_ok h" "room h 1" "create_string s h = (v, h')" "length (interned h) < MAX_INTERNED_STRINGS"
  shows "create_string s h' = (v, h')"
proof (cases "find_interned h (interned h) s")
  case (Some w)
  then show ?thesis using assms(3) by (auto simp: create_string_def)
next
  case None
  obtain w g where a: "heap_alloc (OString s) h = (w, g)" by force
  note al = heap_alloc_laws [OF assms(1,2) a]
  have v: "v = w" "h' = g\<lparr>interned := interned h @ [w]\<rparr>"
    using assms(3,4) None a al(6) by (auto simp: create_string_def)
  have st: "str_of h' x = str_of g x" for x by (simp add: v str_of_def deref_def)
  have "deref h' = deref g" by (simp add: v fun_eq_iff deref_def)
  then have "extends h h'" using al(2) by (simp add: extends_def)
  then have "find_interned h' (interned h) s = None"
    using find_interned_extends None assms(1) by (auto simp: heap_ok_def)
  moreover have "str_of h' w = Some s" using al(1) unfolding st by (simp add: str_of_def)
  ultimately have "find_interned h' (interned h') s = Some w" by (simp add: v find_interned_append)
  then show ?thesis by (simp add: create_string_def v)
qed

section \<open>Property tables\<close>

text \<open>Tables whose keys are all strings, as the compiler and the built-ins make them.\<close>

definition string_keys :: "heap \<Rightarrow> props \<Rightarrow> bool" where
  "string_keys h ps \<longleftrightarrow> (\<forall>(k, v) \<in> set ps. IS_POINTER k \<and> str_of h k \<noteq> None)"

definition table :: "heap \<Rightarrow> props \<Rightarrow> (string \<rightharpoonup> Value)" where
  "table h ps = map_of (map (\<lambda>(k, v). (the (str_of h k), v)) ps)"

text \<open>No string occurs twice as a key.\<close>

definition props_ok :: "heap \<Rightarrow> props \<Rightarrow> bool" where
  "props_ok h ps \<longleftrightarrow> string_keys h ps \<and> distinct (map (\<lambda>(k, v). the (str_of h k)) ps)"

lemma prop_by_content_table:
  "string_keys h ps \<Longrightarrow> prop_by_content h ps (Some s) = Some (table h ps s)"
  by (induction ps) (auto simp: string_keys_def table_def)

lemma map_of_table:
  assumes "props_ok h ps" "map_of ps key = Some v" "str_of h key = Some s"
  shows "table h ps s = Some v"
proof -
  have "(key, v) \<in> set ps" using assms(2) by (rule map_of_SomeD)
  then have "(s, v) \<in> set (map (\<lambda>(k, v). (the (str_of h k), v)) ps)" using assms(3) by force
  moreover have "map fst (map (\<lambda>(k, v). (the (str_of h k), v)) ps) = map (\<lambda>(k, v). the (str_of h k)) ps"
    by (simp add: case_prod_unfold comp_def)
  ultimately show ?thesis using assms(1)
    unfolding table_def props_ok_def by (metis map_of_is_SomeI)
qed

lemma own_lookup_table:
  assumes "props_ok h ps" "str_of h key = Some s"
  shows "own_lookup h ps key = Some (table h ps s)"
proof (cases "map_of ps key")
  case None
  then show ?thesis using assms prop_by_content_table
    by (auto simp: own_lookup_def prop_by_identity_def props_ok_def)
next
  case (Some v)
  then show ?thesis using map_of_table [OF assms(1) Some assms(2)] by (simp add: own_lookup_def prop_by_identity_def)
qed

lemma same_key_string:
  "str_of h k = Some t \<Longrightarrow> str_of h key = Some s \<Longrightarrow> same_key h k key \<longleftrightarrow> t = s"
  by (auto simp: same_key_def)

lemma props_update_table:
  assumes "string_keys h ps" "str_of h key = Some s"
  shows "case props_update h ps key v of
      None \<Rightarrow> table h ps s = None
    | Some ps' \<Rightarrow> string_keys h ps' \<and> table h ps' = (table h ps)(s \<mapsto> v) \<and>
        map (\<lambda>(k, v). the (str_of h k)) ps' = map (\<lambda>(k, v). the (str_of h k)) ps"
  using assms(1)
proof (induction ps)
  case Nil
  then show ?case by (simp add: table_def)
next
  case (Cons p ps)
  obtain k w where p: "p = (k, w)" by (cases p)
  then obtain t where t: "str_of h k = Some t" "IS_POINTER k" using Cons.prems by (auto simp: string_keys_def)
  have tab: "table h (p # ps) = (table h ps)(t \<mapsto> w)" by (simp add: table_def p t)
  have IH: "case props_update h ps key v of
      None \<Rightarrow> table h ps s = None
    | Some ps' \<Rightarrow> string_keys h ps' \<and> table h ps' = (table h ps)(s \<mapsto> v) \<and>
        map (\<lambda>(k, v). the (str_of h k)) ps' = map (\<lambda>(k, v). the (str_of h k)) ps"
    using Cons by (simp add: string_keys_def)
  show ?case
  proof (cases "t = s")
    case True
    then show ?thesis using p t Cons.prems assms(2)
      by (auto simp: same_key_string string_keys_def table_def)
  next
    case False
    then have nk: "\<not> same_key h k key" using t assms(2) by (simp add: same_key_string)
    show ?thesis
    proof (cases "props_update h ps key v")
      case None
      then show ?thesis using IH False nk tab by (simp add: p)
    next
      case (Some ps')
      have "table h ((k, w) # ps') = (table h ps')(t \<mapsto> w)" by (simp add: table_def t)
      then show ?thesis using IH Some False nk tab t Cons.prems p
        by (auto simp: string_keys_def fun_upd_twist)
    qed
  qed
qed

lemma table_snoc:
  "table h (ps @ [(key, v)]) = (\<lambda>t. case table h ps t of Some w \<Rightarrow> Some w | None \<Rightarrow> if t = the (str_of h key) then Some v else None)"
  by (auto simp: table_def fun_eq_iff map_of_append map_add_def split: option.splits)

text \<open>A store in a property table is an update of the map it stands for.\<close>

lemma props_set_table:
  assumes "props_ok h ps" "length ps \<le> cap" "str_of h key = Some s" "IS_POINTER key"
    "props_set h ps cap key v = (ps', cap')"
  shows "props_ok h ps'" "table h ps' = (table h ps)(s \<mapsto> v)" "length ps' \<le> cap'"
proof -
  have keys: "string_keys h ps" using assms(1) by (simp add: props_ok_def)
  have "props_ok h ps' \<and> table h ps' = (table h ps)(s \<mapsto> v) \<and> length ps' \<le> cap'"
  proof (cases "props_update h ps key v")
    case (Some qs)
    note up = props_update_table [OF keys assms(3), of v, unfolded Some, simplified]
    have "length qs = length ps" using up by (metis length_map)
    then show ?thesis using Some assms up by (auto simp: props_set_def props_ok_def)
  next
    case None
    then have new: "ps' = ps @ [(key, v)]"
      and cap': "cap' = (if length ps \<ge> cap then if cap = 0 then 4 else cap * 2 else cap)"
      using assms(5) by (auto simp: props_set_def)
    have "length ps' \<le> cap'" using assms(2) unfolding new cap' by (simp add: Suc_le_eq)
    have fresh: "table h ps s = None" using props_update_table [OF keys assms(3), of v] None by simp
    then have "s \<notin> set (map (\<lambda>(k, v). the (str_of h k)) ps)"
      by (force simp: table_def map_of_eq_None_iff)
    then show ?thesis using new fresh assms(1,3,4) \<open>length ps' \<le> cap'\<close>
      by (auto simp: props_ok_def string_keys_def table_snoc fun_eq_iff split: option.splits)
  qed
  then show "props_ok h ps'" "table h ps' = (table h ps)(s \<mapsto> v)" "length ps' \<le> cap'" by auto
qed

lemma props_ok_extends:
  assumes "extends h h'" "props_ok h ps"
  shows "props_ok h' ps" "table h' ps = table h ps"
proof -
  have same: "str_of h' k = str_of h k" if "(k, v) \<in> set ps" for k v
    using that assms(2) extends_str [OF assms(1)] by (fastforce simp: props_ok_def string_keys_def)
  then have eq: "map (\<lambda>(k, v). (the (str_of h' k), v)) ps = map (\<lambda>(k, v). (the (str_of h k), v)) ps"
    "map (\<lambda>(k, v). the (str_of h' k)) ps = map (\<lambda>(k, v). the (str_of h k)) ps" by (auto intro!: map_cong)
  have "string_keys h' ps" using assms(2) same by (auto simp: props_ok_def string_keys_def)
  then show "props_ok h' ps" "table h' ps = table h ps" using assms(2) unfolding props_ok_def table_def eq by auto
qed

section \<open>Stores to plain objects\<close>

lemma put_obj_deref:
  "deref h obj = Some ob \<Longrightarrow> deref (put_obj obj ob' h) v = (if IS_POINTER v \<and> get_pointer v = get_pointer obj then Some ob' else deref h v)"
  by (auto simp: deref_def put_obj_def)

lemma put_obj_str:
  assumes "deref h obj = Some ob" "\<And>s. ob \<noteq> OString s" "\<And>s. ob' \<noteq> OString s"
  shows "str_of (put_obj obj ob' h) v = str_of h v"
proof (cases "IS_POINTER v \<and> get_pointer v = get_pointer obj")
  case True
  then have "deref h v = Some ob" using assms(1) by (auto simp: deref_def split: if_splits)
  then show ?thesis using True assms by (simp add: str_of_def put_obj_deref split: hobj.splits)
next
  case False
  then show ?thesis by (simp only: str_of_def put_obj_deref [OF assms(1)] if_False)
qed

lemma string_not_object: "str_of h v = Some s \<Longrightarrow> deref h v = Some (OObject ps cap) \<Longrightarrow> False"
  by (simp add: str_of_def)

definition plain_value :: "heap \<Rightarrow> Value \<Rightarrow> bool" where
  "plain_value h v \<longleftrightarrow> (\<forall>f. deref h v \<noteq> Some (OFunction f))"

lemma maybe_bind_plain: "plain_value h v \<Longrightarrow> maybe_bind_method v obj h = (v, h)"
  by (auto simp: maybe_bind_method_def plain_value_def split: option.splits hobj.splits)

lemma object_set_object:
  assumes "deref h obj = Some (OObject ps cap)" "IS_POINTER key"
  shows "object_set obj key v h =
    (case props_set h ps cap key v of (ps', cap') \<Rightarrow> Some (put_obj obj (OObject ps' cap') h))"
proof -
  have "IS_POINTER obj" using assms(1) by (auto simp: deref_def split: if_splits)
  then show ?thesis using assms by (subst object_set.simps) simp
qed

lemma object_get_own_method:
  assumes "deref h obj = Some (OObject ps cap)" "IS_POINTER key" "own_lookup h ps key = Some (Some v)"
  shows "object_get env obj key h = Some (maybe_bind_method v obj h)"
proof -
  have p: "IS_POINTER obj" using assms(1) by (auto simp: deref_def split: if_splits)
  have nk: "\<not> IS_DOUBLE key" "\<not> IS_INTEGER key" using assms(2) by (auto simp: kind_simps)
  have "object_step env obj key h = Some (GTail (Some (obj, 0)) obj)"
    using p nk assms by (simp add: object_step_def keyed_step_def)
  moreover have "chain_step obj 0 obj key h = Some (GDone (maybe_bind_method v obj h))"
    using p assms by (simp add: chain_step_def)
  ultimately show ?thesis unfolding object_get_def
    by (subst object_get_from.simps, simp, subst object_get_from.simps) simp
qed

lemma object_get_own:
  assumes "deref h obj = Some (OObject ps cap)" "IS_POINTER key" "own_lookup h ps key = Some (Some v)"
    "plain_value h v"
  shows "object_get env obj key h = Some (v, h)"
  using object_get_own_method [OF assms(1-3)] maybe_bind_plain [OF assms(4)] by simp

section \<open>Properties\<close>

text \<open>strings_interned (functional): creating a string gives a value that reads back as exactly that text
  and leaves every other object alone; while the table has room, creating the same text again gives
  the same value, so equal texts are one object.\<close>

theorem strings_interned:
  assumes "heap_ok h" "room h 1" "create_string s h = (v, h')"
  shows "str_of h' v = Some s \<and> heap_ok h' \<and> (\<forall>w ob. deref h w = Some ob \<longrightarrow> deref h' w = Some ob) \<and>
    (length (interned h) < MAX_INTERNED_STRINGS \<longrightarrow> create_string s h' = (v, h'))"
  using create_string_laws [OF assms] create_string_again [OF assms] by (simp add: extends_def)

definition empty_heap :: heap where
  "empty_heap = \<lparr>objs = Map.empty, brk = 8, interned = [], next_symbol = 1\<rparr>"

lemma empty_heap_ok: "heap_ok empty_heap" "room empty_heap 4"
  by (simp_all add: empty_heap_def heap_ok_def room_def)

theorem strings_interned_witness:
  "create_string ''ab'' (snd (create_string ''ab'' empty_heap)) = create_string ''ab'' empty_heap"
  using strings_interned [OF empty_heap_ok(1) _ surjective_pairing, of "''ab''"]
  by (simp add: empty_heap_def room_def MAX_INTERNED_STRINGS_def)


text \<open>A heap with an object, a string and an array, for the examples.\<close>

definition sample_heap :: heap where
  "sample_heap = \<lparr>objs = [8 \<mapsto> OObject [] 4, 16 \<mapsto> OString ''a'', 24 \<mapsto> OArray [VAL_TRUE] 4], brk = 32,
     interned = [make_pointer 16], next_symbol = 1\<rparr>"

lemma sample_deref:
  "deref sample_heap (make_pointer 8) = Some (OObject [] 4)"
  "deref sample_heap (make_pointer 24) = Some (OArray [VAL_TRUE] 4)"
  "str_of sample_heap (make_pointer 16) = Some ''a''"
  by (simp_all add: str_of_def deref_make_pointer sample_heap_def del: get_make)

definition no_vm :: protos where
  "no_vm = \<lparr>has_vm = False, set_prototype = 0, array_prototype = 0, string_prototype = 0,
     regexp_prototype = 0, buffer_prototype = 0, js_promise_constructor = 0, js_promise_try = 0,
     js_promise_then = 0, js_promise_catch = 0, js_function_call = 0, js_function_apply = 0\<rparr>"


text \<open>array_index_truncated (error): the bounds check of indexed reads truncates the index to 32 bits, so
  reading a non-empty array at index \<open>2 ^ 32\<close> passes it and reads far outside the elements.\<close>

theorem array_index_truncated:
  assumes "deref h arr = Some (OArray es cap)" "es \<noteq> []" "IS_DOUBLE key" "f64_to_int64 (get_double key) = Some (2 ^ 32)"
  shows "index_guard (2 ^ 32) (length es) \<and> (length es < 2 ^ 32 \<longrightarrow> object_get env arr key h = None)"
proof -
  have p: "IS_POINTER arr" using assms(1) by (auto simp: deref_def split: if_splits)
  have k: "key_index key = Some (2 ^ 32)" using assms(3,4) by (auto simp: key_index_def kind_simps)
  have "length es < 2 ^ 32 \<longrightarrow> object_step env arr key h = None"
    using p k assms by (simp add: object_step_def indexed_def numeric_get_def index_read_def index_guard_def)
  then show ?thesis using assms(2) unfolding object_get_def
    by (subst object_get_from.simps) (auto simp: index_guard_def)
qed

theorem array_index_truncated_witness:
  "object_get no_vm (make_pointer 24) 0x41F0000000000000 sample_heap = None"
proof -
  have d: "IS_DOUBLE 0x41F0000000000000" by (simp add: IS_DOUBLE_def)
  have "f64_to_int64 (get_double 0x41F0000000000000) = Some (2 ^ 32)"
    by (simp add: get_double_def f64_to_int64_def f64_to_range_def f64_trunc_def f64_scaled_def
        f64_is_finite_def f64_fields f64_sign_def bit_iff_odd_drop_bit drop_bit_eq_div)
  from array_index_truncated [OF sample_deref(2) _ d this] show ?thesis by simp
qed

end
