(* ===== verification/C_Format.thy ===== *)
theory C_Format
  imports Float64 Char_Codes
begin

text \<open>
  The part of \<open>printf\<close> the runtime uses to print numbers: \<open>%d\<close>, \<open>%.0f\<close> and \<open>%g\<close> with their exact
  decimal rounding.
\<close>

definition digit_char :: "nat \<Rightarrow> char" where
  "digit_char d = char_of (48 + d)"

function show_nat :: "nat \<Rightarrow> string" where
  "show_nat n = (if n < 10 then [digit_char n] else show_nat (n div 10) @ [digit_char (n mod 10)])"
  by pat_completeness auto
termination
  by (relation "measure id") auto

declare show_nat.simps [simp del]

definition show_int :: "int \<Rightarrow> string" where
  "show_int i = (if i < 0 then CHR ''-'' # show_nat (nat (- i)) else show_nat (nat i))"

definition sign_text :: "double \<Rightarrow> string" where
  "sign_text d = (if f64_sign d then ''-'' else [])"

definition fmt_0f :: "double \<Rightarrow> string" where
  "fmt_0f d =
     (if f64_is_nan d then sign_text d @ ''nan''
      else if f64_is_inf d then sign_text d @ ''inf''
      else sign_text d @ show_nat (nat (round_half_even \<bar>f64_scaled d\<bar> (2 ^ 1074))))"

text \<open>The decimal exponent of a positive fraction: the largest \<open>k\<close> with \<open>10 ^ k \<le> n / m\<close>.\<close>

definition le_pow10 :: "int \<Rightarrow> int \<Rightarrow> int \<Rightarrow> bool" where
  "le_pow10 k n m \<longleftrightarrow> (if k \<ge> 0 then 10 ^ nat k * m \<le> n else m \<le> n * 10 ^ nat (- k))"

definition dec_exp :: "int \<Rightarrow> int \<Rightarrow> int" where
  "dec_exp n m = (case find (\<lambda>k. le_pow10 k n m) (rev [-330..310]) of Some k \<Rightarrow> k | None \<Rightarrow> -330)"

text \<open>Six significant digits, with the exponent of the first.\<close>

definition six_digits :: "int \<Rightarrow> int \<Rightarrow> string \<times> int" where
  "six_digits n m =
     (let x = dec_exp n m;
          q = (if x \<le> 5 then round_half_even (n * 10 ^ nat (5 - x)) m
               else round_half_even n (m * 10 ^ nat (x - 5)))
      in if q \<ge> 10 ^ 6 then (show_nat (10 ^ 5), x + 1) else (show_nat (nat q), x))"

definition strip_zeros :: "string \<Rightarrow> string" where
  "strip_zeros s = rev (dropWhile (\<lambda>c. c = CHR ''0'') (rev s))"

definition with_point :: "string \<Rightarrow> string \<Rightarrow> string" where
  "with_point a b = (let f = strip_zeros b in if f = [] then a else a @ CHR ''.'' # f)"

definition exp_text :: "int \<Rightarrow> string" where
  "exp_text x = CHR ''e'' # (if x < 0 then CHR ''-'' else CHR ''+'') #
     (let t = show_nat (nat \<bar>x\<bar>) in if length t < 2 then CHR ''0'' # t else t)"

definition fmt_g :: "double \<Rightarrow> string" where
  "fmt_g d =
     (if f64_is_nan d then sign_text d @ ''nan''
      else if f64_is_inf d then sign_text d @ ''inf''
      else if f64_scaled d = 0 then sign_text d @ ''0''
      else let (ds, x) = six_digits \<bar>f64_scaled d\<bar> (2 ^ 1074)
           in sign_text d @
              (if x < -4 \<or> x \<ge> 6 then with_point (take 1 ds) (drop 1 ds) @ exp_text x
               else if x \<ge> 0 then with_point (take (nat x + 1) ds) (drop (nat x + 1) ds)
               else with_point ''0'' (replicate (nat (- x - 1)) CHR ''0'' @ ds)))"

end
