(* ===== verification/JS_Values.thy ===== *)
theory JS_Values
  imports JS_Heap_Laws C_Format Bytecode
begin

text \<open>
  Coercion, equality and arithmetic on values: \<open>value_to_string\<close>, \<open>value_to_number\<close>, the two equalities
  of \<open>src/src/alloc.c\<close> and the arithmetic and comparison helpers of \<open>src/src/vm.c\<close>. Converting nested
  arrays recurses; the recursion takes a bound on its depth and gives \<open>None\<close> beyond it, as a cyclic
  array makes the source recurse until its stack is exhausted. \<open>None\<close> also stands for reads outside a
  buffer and for the integer remainder that C leaves undefined.
\<close>

section \<open>Coercion\<close>

text \<open>The comma-joined elements, cut off at 250 characters; \<open>conv\<close> converts one element.\<close>

primrec join_elements ::
  "(Value \<Rightarrow> heap \<Rightarrow> (Value \<times> heap) option) \<Rightarrow> Value list \<Rightarrow> bool \<Rightarrow> string \<Rightarrow> heap \<Rightarrow> (string \<times> heap) option" where
  "join_elements conv [] rest buf h = Some (buf, h)"
| "join_elements conv (v # vs) rest buf h =
     (if length buf \<ge> 250 then Some (buf, h)
      else let buf = (if rest then buf @ '','' else buf)
           in Option.bind (conv v h) (\<lambda>(es, h).
                if IS_POINTER es
                then Option.bind (str_of h es) (\<lambda>s. join_elements conv vs True (buf @ take (250 - length buf) s) h)
                else join_elements conv vs True buf h))"

definition c_text :: "string \<Rightarrow> string" where
  "c_text s = takeWhile (\<lambda>c. c \<noteq> NUL) s"

text \<open>\<open>name: message\<close> through a 256-byte buffer; a longer text is read back past its end.\<close>

definition error_text :: "heap \<Rightarrow> Value \<Rightarrow> Value \<Rightarrow> string option" where
  "error_text h name message =
     Option.bind (if IS_POINTER name then str_of h name else Some ''Error'') (\<lambda>n.
     Option.bind (if IS_POINTER message then str_of h message else Some []) (\<lambda>m.
       let t = c_text n @ '': '' @ c_text m in if length t < 256 then Some t else None))"

definition bytes_text :: "u8 list \<Rightarrow> string" where
  "bytes_text bs = map (\<lambda>b. char_of (unat b)) bs"

text \<open>
  The text of a double. The range test converts to \<open>int64_t\<close>; out of range that conversion has no
  defined result, and the processor's does not compare equal, so the text is that of \<open>%g\<close>.
\<close>

definition double_text :: "double \<Rightarrow> string" where
  "double_text d =
     (if f64_is_nan d then ''NaN''
      else case f64_to_int64 d of
             Some i \<Rightarrow> if f64_eq d (f64_of_int i) \<and> - (10 ^ 15) \<le> i \<and> i \<le> 10 ^ 15 then fmt_0f d else fmt_g d
           | None \<Rightarrow> fmt_g d)"

fun value_to_string :: "nat \<Rightarrow> Value \<Rightarrow> heap \<Rightarrow> (Value \<times> heap) option" where
  "value_to_string 0 v h = None"
| "value_to_string (Suc depth) v h =
     (if IS_POINTER v
      then if get_pointer v = 0 then Some (create_string ''null'' h)
           else case deref h v of
                  None \<Rightarrow> None
                | Some (OString _) \<Rightarrow> Some (v, h)
                | Some (OArray es _) \<Rightarrow>
                    map_option (\<lambda>(s, h). create_string s h) (join_elements (value_to_string depth) es False [] h)
                | Some (OBuffer bs _ _) \<Rightarrow> Some (create_string_from_chars (bytes_text bs) h)
                | Some (OFunction _) \<Rightarrow> Some (create_string ''function'' h)
                | Some (OError name message _ _ _) \<Rightarrow>
                    map_option (\<lambda>s. create_string s h) (error_text h name message)
                | Some _ \<Rightarrow> Some (create_string ''[object Object]'' h)
      else Some (create_string
        (if IS_DOUBLE v then double_text (get_double v)
         else if IS_INTEGER v then show_int (sint (get_integer v))
         else if IS_BOOLEAN v then (if get_boolean v then ''true'' else ''false'')
         else if IS_NULL v then ''null''
         else if IS_UNDEFINED v then ''undefined''
         else if IS_SYMBOL v then ''Symbol()'' else []) h))"

definition value_to_number :: "nat \<Rightarrow> Value \<Rightarrow> heap \<Rightarrow> (Value \<times> heap) option" where
  "value_to_number depth v h =
     (if IS_DOUBLE v \<or> IS_INTEGER v then Some (v, h)
      else if IS_BOOLEAN v then Some (make_integer (if get_boolean v then 1 else 0), h)
      else if IS_NULL v then Some (make_integer 0, h)
      else if IS_UNDEFINED v then Some (make_double f64_nan, h)
      else if IS_POINTER v
      then Option.bind (value_to_string depth v h) (\<lambda>(sv, h).
             Option.bind (str_of h sv) (\<lambda>s.
               if s = [] then Some (make_integer 0, h)
               else let (d, k) = strtod (c_text s)
                    in Some (if k = 0 then make_double f64_nan else make_double d, h)))
      else Some (make_double f64_nan, h))"

section \<open>Equality\<close>

definition int_double :: "Value \<Rightarrow> double" where
  "int_double v = f64_of_int (sint (get_integer v))"

definition values_strict_equal :: "heap \<Rightarrow> Value \<Rightarrow> Value \<Rightarrow> bool" where
  "values_strict_equal h a b =
     (if IS_DOUBLE a \<and> IS_DOUBLE b then f64_eq (get_double a) (get_double b)
      else if IS_INTEGER a \<and> IS_INTEGER b then get_integer a = get_integer b
      else if IS_DOUBLE a \<and> IS_INTEGER b then f64_eq (get_double a) (int_double b)
      else if IS_INTEGER a \<and> IS_DOUBLE b then f64_eq (int_double a) (get_double b)
      else if IS_POINTER a \<and> IS_POINTER b
      then get_pointer a = get_pointer b \<or>
           (case (str_of h a, str_of h b) of (Some s, Some t) \<Rightarrow> s = t | _ \<Rightarrow> False)
      else a = b)"

definition number_like :: "Value \<Rightarrow> bool" where
  "number_like v \<longleftrightarrow> IS_DOUBLE v \<or> IS_INTEGER v"

definition bool_int :: "Value \<Rightarrow> Value" where
  "bool_int v = make_integer (if get_boolean v then 1 else 0)"

text \<open>The recursion replaces a boolean by a number, so it is at most two deep.\<close>

function values_abstract_equal :: "nat \<Rightarrow> Value \<Rightarrow> Value \<Rightarrow> heap \<Rightarrow> (bool \<times> heap) option" where
  "values_abstract_equal depth a b h =
     (if GET_TAG a = GET_TAG b \<or> (IS_DOUBLE a \<and> IS_DOUBLE b) then Some (values_strict_equal h a b, h)
      else if (IS_NULL a \<and> IS_UNDEFINED b) \<or> (IS_UNDEFINED a \<and> IS_NULL b) then Some (True, h)
      else if number_like a \<and> IS_POINTER b
      then map_option (\<lambda>(n, h). (values_strict_equal h a n, h)) (value_to_number depth b h)
      else if IS_POINTER a \<and> number_like b
      then map_option (\<lambda>(n, h). (values_strict_equal h n b, h)) (value_to_number depth a h)
      else if IS_BOOLEAN a then values_abstract_equal depth (bool_int a) b h
      else if IS_BOOLEAN b then values_abstract_equal depth a (bool_int b) h
      else Some (False, h))"
  by pat_completeness auto
termination
  by (relation "measure (\<lambda>(depth, a, b, h). (if IS_BOOLEAN a then 1 else 0) + (if IS_BOOLEAN b then 1 else 0))")
    (auto simp: bool_int_def)

declare values_abstract_equal.simps [simp del]

section \<open>Arithmetic\<close>

definition in_int32 :: "int \<Rightarrow> bool" where
  "in_int32 i \<longleftrightarrow> - (2 ^ 31) \<le> i \<and> i \<le> 2 ^ 31 - 1"

definition num_or_zero :: "Value \<Rightarrow> double" where
  "num_or_zero v =
     (if IS_INTEGER v then int_double v else if IS_DOUBLE v then get_double v else f64_zero False)"

definition add_values :: "nat \<Rightarrow> Value \<Rightarrow> Value \<Rightarrow> heap \<Rightarrow> (Value \<times> heap) option" where
  "add_values depth v1 v2 h =
     (if IS_INTEGER v1 \<and> IS_INTEGER v2
      then let sum = sint (get_integer v1) + sint (get_integer v2)
           in Some (if in_int32 sum then make_integer (word_of_int sum) else make_double (f64_of_int sum), h)
      else if number_like v1 \<and> number_like v2
      then Some (make_double (f64_add (num_or_zero v1) (num_or_zero v2)), h)
      else
        Option.bind (value_to_string depth v1 h) (\<lambda>(s1, h).
        Option.bind (value_to_string depth v2 h) (\<lambda>(s2, h).
        Option.bind (str_of h s1) (\<lambda>t1.
        Option.bind (str_of h s2) (\<lambda>t2. Some (create_string (t1 @ t2) h))))))"

definition sub_values :: "Value \<Rightarrow> Value \<Rightarrow> Value" where
  "sub_values v1 v2 =
     (let i = sint (get_integer v1) - sint (get_integer v2)
      in if IS_INTEGER v1 \<and> IS_INTEGER v2 \<and> in_int32 i then make_integer (word_of_int i)
         else make_double (f64_sub (num_or_zero v1) (num_or_zero v2)))"

definition mul_values :: "Value \<Rightarrow> Value \<Rightarrow> Value" where
  "mul_values v1 v2 =
     (let i = sint (get_integer v1) * sint (get_integer v2)
      in if IS_INTEGER v1 \<and> IS_INTEGER v2 \<and> in_int32 i then make_integer (word_of_int i)
         else make_double (f64_mul (num_or_zero v1) (num_or_zero v2)))"

definition div_values :: "Value \<Rightarrow> Value \<Rightarrow> Value" where
  "div_values v1 v2 = make_double (f64_div (num_or_zero v1) (num_or_zero v2))"

text \<open>The C remainder takes the sign of the dividend; \<open>INT32_MIN % -1\<close> is undefined.\<close>

definition c_rem :: "int \<Rightarrow> int \<Rightarrow> int" where
  "c_rem a b = (if a < 0 then - (\<bar>a\<bar> mod \<bar>b\<bar>) else a mod \<bar>b\<bar>)"

definition mod_values :: "Value \<Rightarrow> Value \<Rightarrow> Value option" where
  "mod_values v1 v2 =
     (let a = sint (get_integer v1); b = sint (get_integer v2)
      in if IS_INTEGER v1 \<and> IS_INTEGER v2 \<and> b \<noteq> 0
         then if a = - (2 ^ 31) \<and> b = -1 then None else Some (make_integer (word_of_int (c_rem a b)))
         else Some (make_double (f64_fmod (num_or_zero v1) (num_or_zero v2))))"

text \<open>\<open>strcmp\<close> on the bytes, as unsigned characters.\<close>

fun c_strcmp :: "string \<Rightarrow> string \<Rightarrow> int" where
  "c_strcmp [] [] = 0"
| "c_strcmp [] (d # ds) = -1"
| "c_strcmp (c # cs) [] = 1"
| "c_strcmp (c # cs) (d # ds) =
     (if c = d then c_strcmp cs ds else if (of_char c :: nat) < of_char d then -1 else 1)"

definition order_result :: "Opcode \<Rightarrow> bool \<Rightarrow> bool \<Rightarrow> bool \<Rightarrow> bool" where
  "order_result op lt eq gt =
     (if op = OP_LT then lt else if op = OP_LE then lt \<or> eq else if op = OP_GT then gt
      else if op = OP_GE then gt \<or> eq else if op = OP_EQ then eq else if op = OP_NE then \<not> eq else False)"

definition nullish :: "Value \<Rightarrow> bool" where
  "nullish v \<longleftrightarrow> v = VAL_NULL \<or> v = VAL_UNDEFINED"

definition compare_values :: "heap \<Rightarrow> Opcode \<Rightarrow> Value \<Rightarrow> Value \<Rightarrow> bool" where
  "compare_values h op v1 v2 =
     (if v1 = v2 \<and> op \<in> {OP_EQ, OP_LE, OP_GE} then True
      else if v1 = v2 \<and> op \<in> {OP_NE, OP_LT, OP_GT} then False
      else if nullish v1 \<and> nullish v2 \<and> op = OP_EQ then True
      else if nullish v1 \<and> nullish v2 \<and> op = OP_NE then False
      else if (nullish v1 \<or> nullish v2) \<and> op = OP_EQ then False
      else if (nullish v1 \<or> nullish v2) \<and> op = OP_NE then True
      else if IS_POINTER v1 \<and> IS_POINTER v2 \<and> str_of h v1 \<noteq> None \<and> str_of h v2 \<noteq> None
      then let c = c_strcmp (c_text (the (str_of h v1))) (c_text (the (str_of h v2)))
           in order_result op (c < 0) (c = 0) (c > 0)
      else if IS_POINTER v1 \<and> IS_POINTER v2 \<and> op = OP_EQ then False
      else if IS_POINTER v1 \<and> IS_POINTER v2 \<and> op = OP_NE then True
      else let d1 = num_or_zero v1; d2 = num_or_zero v2
           in order_result op (f64_lt d1 d2) (f64_eq d1 d2) (f64_lt d2 d1))"

end
