(* ===== verification/Lexer.thy ===== *)
theory Lexer
  imports C_Numbers
begin

text \<open>
  Model of the lexer of \<open>src/src/compiler.c\<close>: escape processing of string literals, \<open>scan_token\<close> and
  \<open>scan_template_continuation\<close>. The token type enumeration is split by origin: keywords, punctuators
  and the rest. A token's \<open>start\<close> pointer is the index into the source; a malloc'ed string is its
  characters. Indices are \<open>int\<close> in the source; the model takes texts shorter than 2 GiB.
\<close>

section \<open>Tokens\<close>

datatype (plugins only: code size) keyword =
  TOK_LET | TOK_CONST | TOK_VAR | TOK_NEW | TOK_IF | TOK_ELSE | TOK_WHILE | TOK_FOR | TOK_DO |
  TOK_FUNCTION | TOK_RETURN | TOK_IMPORT | TOK_FROM | TOK_WITH | TOK_EXPORT | TOK_DEFAULT |
  TOK_AS | TOK_TRUE | TOK_FALSE | TOK_NULL | TOK_UNDEFINED | TOK_ASYNC | TOK_AWAIT | TOK_USING |
  TOK_TRY | TOK_CATCH | TOK_FINALLY | TOK_THROW | TOK_SWITCH | TOK_CASE | TOK_BREAK |
  TOK_CONTINUE | TOK_CLASS | TOK_EXTENDS | TOK_SUPER | TOK_STATIC | TOK_TYPEOF | TOK_INSTANCEOF |
  TOK_IN | TOK_OF | TOK_VOID | TOK_DELETE | TOK_YIELD | TOK_GET | TOK_SET | TOK_DEBUGGER

datatype (plugins only: code size) punctuator =
  TOK_USHR_ASSIGN | TOK_EQ | TOK_NE | TOK_USHR | TOK_SHL_ASSIGN | TOK_SHR_ASSIGN |
  TOK_STARSTAR_ASSIGN | TOK_AND_ASSIGN | TOK_OR_ASSIGN | TOK_NULLISH_ASSIGN | TOK_SPREAD |
  TOK_EQ_LOOSE | TOK_NE_LOOSE | TOK_LE | TOK_GE | TOK_AND | TOK_OR | TOK_NULLISH |
  TOK_OPTIONAL_CHAIN | TOK_ARROW | TOK_PLUSPLUS | TOK_MINUSMINUS | TOK_STARSTAR |
  TOK_PLUS_ASSIGN | TOK_MINUS_ASSIGN | TOK_STAR_ASSIGN | TOK_SLASH_ASSIGN | TOK_PERCENT_ASSIGN |
  TOK_BITAND_ASSIGN | TOK_BITOR_ASSIGN | TOK_BITXOR_ASSIGN | TOK_SHL | TOK_SHR | TOK_PLUS |
  TOK_MINUS | TOK_STAR | TOK_SLASH | TOK_PERCENT | TOK_ASSIGN | TOK_LT | TOK_GT | TOK_LPAREN |
  TOK_RPAREN | TOK_LBRACE | TOK_RBRACE | TOK_LBRACKET | TOK_RBRACKET | TOK_COMMA | TOK_DOT |
  TOK_SEMICOLON | TOK_COLON | TOK_NOT | TOK_AMPERSAND | TOK_PIPE | TOK_CARET | TOK_TILDE |
  TOK_QUESTION

datatype TokenType =
  TOK_EOF | TOK_ERROR | TOK_IDENTIFIER | TOK_NUMBER | TOK_STRING | TOK_REGEX
| TOK_TEMPLATE_HEAD | TOK_TEMPLATE_MIDDLE | TOK_TEMPLATE_TAIL
| Keyword keyword | Punct punctuator

record Token =
  tok_type :: TokenType
  tok_start :: nat
  tok_length :: nat
  number_value :: double
  template_str :: "string option"
  template_str_len :: nat

record Lexer =
  source :: string
  cursor :: nat
  last_was_value :: bool

definition plain_token :: "TokenType \<Rightarrow> nat \<Rightarrow> nat \<Rightarrow> Token" where
  "plain_token t start len = \<lparr>tok_type = t, tok_start = start, tok_length = len, number_value = 0,
     template_str = None, template_str_len = 0\<rparr>"

text \<open>Set the cursor and the value flag, and return a token.\<close>

definition emit :: "Lexer \<Rightarrow> nat \<Rightarrow> bool \<Rightarrow> Token \<Rightarrow> Token \<times> Lexer" where
  "emit lx i val t = (t, lx\<lparr>cursor := i, last_was_value := val\<rparr>)"

section \<open>Escape sequences\<close>

definition hex_val :: "char \<Rightarrow> nat" where
  "hex_val c =
     (if is_digit c then of_char c - 48
      else if char_in CHR ''a'' CHR ''f'' c then 10 + (of_char c - 97)
      else if char_in CHR ''A'' CHR ''F'' c then 10 + (of_char c - 65) else 0)"

definition byte :: "u32 \<Rightarrow> char" where
  "byte w = char_of (unat (w AND 0xff))"

definition encode_utf8 :: "u32 \<Rightarrow> string" where
  "encode_utf8 cp =
     (if cp < 0x80 then [byte cp]
      else if cp < 0x800 then [byte (0xC0 OR drop_bit 6 cp), byte (0x80 OR (cp AND 0x3F))]
      else if cp < 0x10000
        then [byte (0xE0 OR drop_bit 12 cp), byte (0x80 OR (drop_bit 6 cp AND 0x3F)),
              byte (0x80 OR (cp AND 0x3F))]
      else [byte (0xF0 OR drop_bit 18 cp), byte (0x80 OR (drop_bit 12 cp AND 0x3F)),
            byte (0x80 OR (drop_bit 6 cp AND 0x3F)), byte (0x80 OR (cp AND 0x3F))])"

definition simple_escapes :: "(char \<times> char) list" where
  "simple_escapes =
     [(CHR ''n'', NL), (CHR ''r'', CR), (CHR ''t'', TAB), (CHR ''b'', CHR 0x08), (CHR ''f'', CHR 0x0C),
      (CHR ''v'', CHR 0x0B), (CHR ''0'', NUL), (BSLASH, BSLASH), (QUOTE, QUOTE), (DQUOTE, DQUOTE),
      (BACKTICK, BACKTICK)]"

text \<open>The digits of \<open>\u{...}\<close> accumulate in 32 bits.\<close>

definition hex_digits :: "string \<Rightarrow> u32" where
  "hex_digits ds = fold (\<lambda>c cp. push_bit 4 cp OR of_nat (hex_val c)) ds 0"

text \<open>
  What one escape writes and how many characters it takes, for the text behind the backslash.
\<close>

definition escape :: "string \<Rightarrow> string \<times> nat" where
  "escape p =
     (case p of
        [] \<Rightarrow> ([], 0)
      | e # q \<Rightarrow>
          (case map_of simple_escapes e of
             Some c \<Rightarrow> ([c], 1)
           | None \<Rightarrow>
               if e = CHR ''x''
               then if 2 \<le> length q
                    then ([byte (push_bit 4 (of_nat (hex_val (q ! 0))) OR of_nat (hex_val (q ! 1)))], 3)
                    else ([], 1)
               else if e = CHR ''u''
               then if at q 0 = CHR ''{''
                    then let ds = takeWhile (\<lambda>c. c \<noteq> CHR ''}'') (drop 1 q); k = 1 + length ds
                         in (encode_utf8 (hex_digits ds), 1 + (if k < length q then k + 1 else k))
                    else if 4 \<le> length q then (encode_utf8 (hex_digits (take 4 q)), 5)
                    else ([], 1)
               else ([e], 1)))"

function process_string_escapes :: "string \<Rightarrow> string" where
  "process_string_escapes p =
     (case p of
        [] \<Rightarrow> []
      | c # q \<Rightarrow>
          if c \<noteq> BSLASH then c # process_string_escapes q
          else let (s, k) = escape q in s @ process_string_escapes (drop k q))"
  by pat_completeness auto
termination
  by (relation "measure length") auto

declare process_string_escapes.simps [simp del]

definition c_str :: "string \<Rightarrow> string" where
  "c_str s = takeWhile (\<lambda>c. c \<noteq> NUL) s"

section \<open>White space and comments\<close>

definition is_blank :: "char \<Rightarrow> bool" where
  "is_blank c \<longleftrightarrow> c = CHR '' '' \<or> c = TAB \<or> c = NL \<or> c = CR"

function block_comment_end :: "string \<Rightarrow> nat \<Rightarrow> nat" where
  "block_comment_end s i =
     (if i < length s \<and> \<not> (s ! i = CHR ''*'' \<and> at s (i + 1) = CHR ''/'')
      then block_comment_end s (i + 1) else i)"
  by pat_completeness auto
termination
  by (relation "measure (\<lambda>(s, i). length s - i)") auto

declare block_comment_end.simps [simp del]

lemma block_comment_end_ge: "i \<le> block_comment_end s i"
proof (induction s i rule: block_comment_end.induct)
  case (1 s i)
  then show ?case by (subst block_comment_end.simps) auto
qed

function skip_blanks :: "string \<Rightarrow> nat \<Rightarrow> nat" where
  "skip_blanks s i =
     (if i \<ge> length s then i
      else if is_blank (s ! i) then skip_blanks s (i + 1)
      else if s ! i = CHR ''/'' \<and> at s (i + 1) = CHR ''/''
        then skip_blanks s (skip_while (\<lambda>c. c \<noteq> NL) s (i + 2))
      else if s ! i = CHR ''/'' \<and> at s (i + 1) = CHR ''*''
        then let j = block_comment_end s (i + 2)
             in skip_blanks s (if j < length s then j + 2 else j)
      else i)"
  by pat_completeness auto
termination
proof (relation "measure (\<lambda>(s, i). length s - i)", goal_cases)
  case (3 s i)
  then show ?case using skip_while_ge [of "i + 2" "\<lambda>c. c \<noteq> NL" s] by auto
next
  case (4 s i j)
  then show ?case using block_comment_end_ge [of "i + 2" s] by (auto simp: Let_def)
qed auto

declare skip_blanks.simps [simp del]

section \<open>Identifiers, numbers, strings\<close>

definition ident_start :: "char \<Rightarrow> bool" where
  "ident_start c \<longleftrightarrow> is_lower c \<or> is_upper c \<or> c = CHR ''_'' \<or> c = CHR ''$''"

definition ident_char :: "char \<Rightarrow> bool" where
  "ident_char c \<longleftrightarrow> is_lower c \<or> is_upper c \<or> is_digit c \<or> c = CHR ''_'' \<or> c = CHR ''$''"

definition keyword_table :: "(string \<times> keyword) list" where
  "keyword_table =
    [
     (''let'', TOK_LET), (''const'', TOK_CONST), (''var'', TOK_VAR), (''new'', TOK_NEW),
     (''if'', TOK_IF), (''else'', TOK_ELSE), (''while'', TOK_WHILE), (''for'', TOK_FOR),
     (''do'', TOK_DO), (''function'', TOK_FUNCTION), (''return'', TOK_RETURN),
     (''import'', TOK_IMPORT), (''from'', TOK_FROM), (''with'', TOK_WITH),
     (''export'', TOK_EXPORT), (''default'', TOK_DEFAULT), (''as'', TOK_AS),
     (''true'', TOK_TRUE), (''false'', TOK_FALSE), (''null'', TOK_NULL),
     (''undefined'', TOK_UNDEFINED), (''async'', TOK_ASYNC), (''await'', TOK_AWAIT),
     (''using'', TOK_USING), (''try'', TOK_TRY), (''catch'', TOK_CATCH),
     (''finally'', TOK_FINALLY), (''throw'', TOK_THROW), (''switch'', TOK_SWITCH),
     (''case'', TOK_CASE), (''break'', TOK_BREAK), (''continue'', TOK_CONTINUE),
     (''class'', TOK_CLASS), (''extends'', TOK_EXTENDS), (''super'', TOK_SUPER),
     (''static'', TOK_STATIC), (''typeof'', TOK_TYPEOF), (''instanceof'', TOK_INSTANCEOF),
     (''in'', TOK_IN), (''of'', TOK_OF), (''void'', TOK_VOID), (''delete'', TOK_DELETE),
     (''yield'', TOK_YIELD), (''get'', TOK_GET), (''set'', TOK_SET), (''debugger'', TOK_DEBUGGER)]"

definition ident_type :: "string \<Rightarrow> TokenType" where
  "ident_type w = (case map_of keyword_table w of Some k \<Rightarrow> Keyword k | None \<Rightarrow> TOK_IDENTIFIER)"

definition is_val_kw :: "TokenType \<Rightarrow> bool" where
  "is_val_kw t \<longleftrightarrow> t = TOK_IDENTIFIER \<or>
     t \<in> Keyword ` {TOK_TRUE, TOK_FALSE, TOK_NULL, TOK_UNDEFINED, TOK_TYPEOF, TOK_VOID, TOK_DELETE,
                    TOK_NEW, TOK_SUPER, TOK_YIELD}"

definition scan_identifier :: "Lexer \<Rightarrow> Token \<times> Lexer" where
  "scan_identifier lx =
     (let s = source lx; start = cursor lx; j = skip_while ident_char s (start + 1);
          t = ident_type (take (j - start) (drop start s))
      in emit lx j (is_val_kw t) (plain_token t start (j - start)))"

text \<open>
  Numbers with a radix prefix go through a 127-character buffer and lose their separators there;
  decimal ones are read in place.
\<close>

definition radix_digit :: "char \<Rightarrow> (char \<Rightarrow> bool) option" where
  "radix_digit c =
     (if c = CHR ''x'' \<or> c = CHR ''X'' then Some is_hex
      else if c = CHR ''b'' \<or> c = CHR ''B'' then Some (\<lambda>d. d = CHR ''0'' \<or> d = CHR ''1'')
      else if c = CHR ''o'' \<or> c = CHR ''O'' then Some (char_in CHR ''0'' CHR ''7'')
      else None)"

definition number_token :: "nat \<Rightarrow> nat \<Rightarrow> double \<Rightarrow> Token" where
  "number_token start len v = (plain_token TOK_NUMBER start len)\<lparr>number_value := v\<rparr>"

definition scan_number :: "Lexer \<Rightarrow> Token \<times> Lexer" where
  "scan_number lx =
     (let s = source lx; start = cursor lx
      in case (if s ! start = CHR ''0'' then radix_digit (at s (start + 1)) else None) of
           Some dig \<Rightarrow>
             let j = skip_while (\<lambda>c. dig c \<or> c = CHR ''_'') s (start + 2);
                 clean = filter (\<lambda>c. c \<noteq> CHR ''_'') (take (min (j - start) 127) (drop start s))
             in emit lx j True (number_token start (j - start) (fst (strtod clean)))
         | None \<Rightarrow>
             let (v, len) = strtod (drop start s)
             in emit lx (start + len) True (number_token start len v))"

function string_end :: "char \<Rightarrow> string \<Rightarrow> nat \<Rightarrow> nat" where
  "string_end q s i =
     (if i \<ge> length s \<or> s ! i = q then i
      else let j = (if s ! i = BSLASH then i + 1 else i)
           in string_end q s (if j < length s then j + 1 else j))"
  by pat_completeness auto
termination
  by (relation "measure (\<lambda>(q, s, i). length s - i)") (auto simp: Let_def)

declare string_end.simps [simp del]

definition scan_string :: "Lexer \<Rightarrow> Token \<times> Lexer" where
  "scan_string lx =
     (let s = source lx; quote = s ! cursor lx; start = cursor lx + 1; j = string_end quote s start;
          cooked = process_string_escapes (take (j - start) (drop start s)); n = length (c_str cooked)
      in emit lx (if at s j = quote then j + 1 else j) True
           \<lparr>tok_type = TOK_STRING, tok_start = start, tok_length = n, number_value = 0,
            template_str = Some cooked, template_str_len = n\<rparr>)"

text \<open>
  The loop over a template segment: where it stops, and whether at the closing quote (\<open>Some True\<close>), an
  interpolation (\<open>Some False\<close>) or the end of the text (\<open>None\<close>).
\<close>

function template_end :: "string \<Rightarrow> nat \<Rightarrow> nat \<times> bool option" where
  "template_end s i =
     (if i \<ge> length s then (i, None)
      else if s ! i = BACKTICK then (i, Some True)
      else if s ! i = CHR ''$'' \<and> at s (i + 1) = CHR ''{'' then (i, Some False)
      else template_end s (if s ! i = BSLASH \<and> at s (i + 1) \<noteq> NUL then i + 2 else i + 1))"
  by pat_completeness auto
termination
  by (relation "measure (\<lambda>(s, i). length s - i)") auto

declare template_end.simps [simp del]

definition template_token :: "TokenType \<Rightarrow> nat \<Rightarrow> string \<Rightarrow> Token" where
  "template_token t start seg =
     (plain_token t start 0)\<lparr>template_str := Some (c_str seg), template_str_len := length (c_str seg)\<rparr>"

definition template_segment :: "string \<Rightarrow> nat \<Rightarrow> nat \<Rightarrow> string" where
  "template_segment s start j = process_string_escapes (take (j - start) (drop start s))"

definition scan_template :: "Lexer \<Rightarrow> Token \<times> Lexer" where
  "scan_template lx =
     (let s = source lx; start = cursor lx + 1
      in case template_end s start of
           (j, Some True) \<Rightarrow> emit lx (j + 1) True
             (template_token TOK_TEMPLATE_TAIL start (template_segment s start j))
         | (j, Some False) \<Rightarrow> emit lx (j + 2) False
             (template_token TOK_TEMPLATE_HEAD start (template_segment s start j))
         | (j, None) \<Rightarrow> emit lx j True (template_token TOK_TEMPLATE_TAIL start []))"

text \<open>Past the closing brace of an interpolation; an unterminated one leaves the value flag alone.\<close>

definition scan_template_continuation :: "Lexer \<Rightarrow> Token \<times> Lexer" where
  "scan_template_continuation lx =
     (let s = source lx; start = cursor lx
      in case template_end s start of
           (j, Some True) \<Rightarrow> emit lx (j + 1) True
             (template_token TOK_TEMPLATE_TAIL start (template_segment s start j))
         | (j, Some False) \<Rightarrow> emit lx (j + 2) False
             (template_token TOK_TEMPLATE_MIDDLE start (template_segment s start j))
         | (j, None) \<Rightarrow> emit lx j (last_was_value lx) (template_token TOK_TEMPLATE_TAIL start []))"

section \<open>Regular expressions and punctuators\<close>

function regex_end :: "string \<Rightarrow> nat \<Rightarrow> bool \<Rightarrow> nat" where
  "regex_end s i in_class =
     (if i \<ge> length s then i
      else if s ! i = BSLASH \<and> at s (i + 1) \<noteq> NUL then regex_end s (i + 2) in_class
      else let in_class = (if s ! i = CHR ''['' then True else if s ! i = CHR '']'' then False else in_class)
           in if s ! i = CHR ''/'' \<and> \<not> in_class then i + 1
              else if s ! i = NL then i
              else regex_end s (i + 1) in_class)"
  by pat_completeness auto
termination
  by (relation "measure (\<lambda>(s, i, b). length s - i)") auto

declare regex_end.simps [simp del]

definition scan_regex :: "Lexer \<Rightarrow> Token \<times> Lexer" where
  "scan_regex lx =
     (let s = source lx; start = cursor lx; j = regex_end s (start + 1) False;
          k = skip_while (\<lambda>c. is_lower c \<or> is_upper c) s j
      in emit lx k True (plain_token TOK_REGEX start (k - start)))"

text \<open>
  The punctuators in the order of the source's tests, longest first, each with the value flag it
  leaves. A test on a character behind the terminator is never reached, as a shorter one fails.
\<close>

definition punct_table :: "(string \<times> punctuator \<times> bool) list" where
  "punct_table =
    [
     (''>>>='', TOK_USHR_ASSIGN, False), (''==='', TOK_EQ, False), (''!=='', TOK_NE, False),
     (''>>>'', TOK_USHR, False), (''<<='', TOK_SHL_ASSIGN, False),
     (''>>='', TOK_SHR_ASSIGN, False), (''**='', TOK_STARSTAR_ASSIGN, False),
     (''&&='', TOK_AND_ASSIGN, False), (''||='', TOK_OR_ASSIGN, False),
     (''??='', TOK_NULLISH_ASSIGN, False), (''...'', TOK_SPREAD, False),
     (''=='', TOK_EQ_LOOSE, False), (''!='', TOK_NE_LOOSE, False), (''<='', TOK_LE, False),
     (''>='', TOK_GE, False), (''&&'', TOK_AND, False), (''||'', TOK_OR, False),
     (''??'', TOK_NULLISH, False), (''?.'', TOK_OPTIONAL_CHAIN, False),
     (''=>'', TOK_ARROW, False), (''++'', TOK_PLUSPLUS, True), (''--'', TOK_MINUSMINUS, True),
     (''**'', TOK_STARSTAR, False), (''+='', TOK_PLUS_ASSIGN, False),
     (''-='', TOK_MINUS_ASSIGN, False), (''*='', TOK_STAR_ASSIGN, False),
     (''/='', TOK_SLASH_ASSIGN, False), (''%='', TOK_PERCENT_ASSIGN, False),
     (''&='', TOK_BITAND_ASSIGN, False), (''|='', TOK_BITOR_ASSIGN, False),
     (''^='', TOK_BITXOR_ASSIGN, False), (''<<'', TOK_SHL, False), (''>>'', TOK_SHR, False),
     (''+'', TOK_PLUS, False), (''-'', TOK_MINUS, False), (''*'', TOK_STAR, False),
     (''/'', TOK_SLASH, False), (''%'', TOK_PERCENT, False), (''='', TOK_ASSIGN, False),
     (''<'', TOK_LT, False), (''>'', TOK_GT, False), (''('', TOK_LPAREN, False),
     ('')'', TOK_RPAREN, True), (''{'', TOK_LBRACE, False), (''}'', TOK_RBRACE, True),
     (''['', TOK_LBRACKET, False), ('']'', TOK_RBRACKET, True), ('','', TOK_COMMA, False),
     (''.'', TOK_DOT, False), ('';'', TOK_SEMICOLON, False), ('':'', TOK_COLON, False),
     (''!'', TOK_NOT, False), (''&'', TOK_AMPERSAND, False), (''|'', TOK_PIPE, False),
     (''^'', TOK_CARET, False), (''~'', TOK_TILDE, False), (''?'', TOK_QUESTION, False)]"

fun first_punct :: "(string \<times> punctuator \<times> bool) list \<Rightarrow> string \<Rightarrow> (string \<times> punctuator \<times> bool) option" where
  "first_punct [] s = None"
| "first_punct ((w, t, v) # ts) s = (if take (length w) s = w then Some (w, t, v) else first_punct ts s)"

definition scan_punct :: "Lexer \<Rightarrow> Token \<times> Lexer" where
  "scan_punct lx =
     (let start = cursor lx
      in case first_punct punct_table (drop start (source lx)) of
           Some (w, t, v) \<Rightarrow> emit lx (start + length w) v (plain_token (Punct t) start (length w))
         | None \<Rightarrow> emit lx (start + 1) False (plain_token TOK_ERROR start 1))"

section \<open>The scanner\<close>

definition scan_token :: "Lexer \<Rightarrow> Token \<times> Lexer" where
  "scan_token lx0 =
     (let s = source lx0; i = skip_blanks s (cursor lx0); lx = lx0\<lparr>cursor := i\<rparr>; c = at s i
      in if c = NUL then emit lx i False (plain_token TOK_EOF i 0)
         else if ident_start c then scan_identifier lx
         else if is_digit c \<or> (c = CHR ''.'' \<and> is_digit (at s (i + 1))) then scan_number lx
         else if c = DQUOTE \<or> c = QUOTE then scan_string lx
         else if c = BACKTICK then scan_template lx
         else if c = CHR ''/'' \<and> \<not> last_was_value lx then scan_regex lx
         else scan_punct lx)"

end
