(* ===== verification/Lexer_Laws.thy ===== *)
theory Lexer_Laws
  imports Lexer
begin

text \<open>
  What the lexer guarantees: the cursor always moves on within the text, escapes fit the buffer they
  are written to, and printed string literals, identifiers and punctuators are read back as
  themselves.
\<close>

section \<open>The cursor\<close>

text \<open>
  Each scanning loop moves forward and stays within the text; together they make every token but
  the last one take at least one character.
\<close>

lemma block_comment_end_le: "i \<le> length s \<Longrightarrow> block_comment_end s i \<le> length s"
proof (induction s i rule: block_comment_end.induct)
  case (1 s i)
  then show ?case by (subst block_comment_end.simps) auto
qed

lemma block_comment_end_stop:
  "block_comment_end s i < length s \<Longrightarrow> at s (block_comment_end s i + 1) = CHR ''/''"
proof (induction s i rule: block_comment_end.induct)
  case (1 s i)
  then show ?case by (subst (asm) (2) block_comment_end.simps, subst block_comment_end.simps) auto
qed

lemma at_char_less: "at s i = CHR ''/'' \<Longrightarrow> i < length s" "at s i = CHR ''*'' \<Longrightarrow> i < length s"
  "at s i = CHR ''{'' \<Longrightarrow> i < length s"
  by (auto intro: at_not_NUL simp: NUL_def)

lemma skip_blanks_bounds: "i \<le> length s \<Longrightarrow> i \<le> skip_blanks s i \<and> skip_blanks s i \<le> length s"
proof (induction s i rule: skip_blanks.induct)
  case (1 s i)
  let ?j = "block_comment_end s (i + 2)" and ?k = "skip_while (\<lambda>c. c \<noteq> NL) s (i + 2)"
  show ?case
  proof (cases "i < length s \<and> \<not> is_blank (s ! i) \<and> s ! i = CHR ''/''")
    case False
    then show ?thesis using 1 by (subst (1 2) skip_blanks.simps) auto
  next
    case True
    consider "at s (i + 1) = CHR ''/''" | "at s (i + 1) = CHR ''*''"
      | "at s (i + 1) \<noteq> CHR ''/'' \<and> at s (i + 1) \<noteq> CHR ''*''" by metis
    then show ?thesis
    proof cases
      case 1
      then have k: "i + 2 \<le> ?k" "?k \<le> length s"
        using at_char_less(1) [of s "i + 1"] skip_while_ge skip_while_le by auto
      then show ?thesis using "1.IH"(2) True 1 by (subst (1 2) skip_blanks.simps) auto
    next
      case 2
      then have j: "i + 2 \<le> ?j" "?j \<le> length s"
        using at_char_less(2) [of s "i + 1"] block_comment_end_ge block_comment_end_le by auto
      let ?l = "if ?j < length s then ?j + 2 else ?j"
      have "?l \<le> length s"
        using j block_comment_end_stop [of s "i + 2"] at_char_less(1) [of s "?j + 1"] by auto
      then show ?thesis using "1.IH"(3) [of ?j] True 2 j by (subst (1 2) skip_blanks.simps) (auto simp: Let_def)
    next
      case 3
      then show ?thesis using True by (subst (1 2) skip_blanks.simps) auto
    qed
  qed
qed

lemma string_end_bounds: "i \<le> length s \<Longrightarrow> i \<le> string_end q s i \<and> string_end q s i \<le> length s"
proof (induction q s i rule: string_end.induct)
  case (1 q s i)
  show ?case
  proof (cases "i < length s \<and> s ! i \<noteq> q")
    case True
    let ?j = "if s ! i = BSLASH then i + 1 else i"
    let ?k = "if ?j < length s then ?j + 1 else ?j"
    have k: "i < ?k" "?k \<le> length s" using True by auto
    have "?k \<le> string_end q s ?k \<and> string_end q s ?k \<le> length s"
      using "1.IH" [OF _ refl] True k(2) by simp
    moreover have "string_end q s i = string_end q s ?k"
      using True by (subst string_end.simps) (simp add: Let_def)
    ultimately show ?thesis using k by linarith
  next
    case False
    then show ?thesis using 1 by (subst (1 2) string_end.simps) auto
  qed
qed

lemma template_end_bounds:
  "i \<le> length s \<Longrightarrow> template_end s i = (j, r) \<Longrightarrow>
   i \<le> j \<and> j \<le> length s \<and> (r \<noteq> None \<longrightarrow> j < length s) \<and> (r = Some False \<longrightarrow> j + 1 < length s)"
proof (induction s i rule: template_end.induct)
  case (1 s i)
  show ?case
  proof (cases "i < length s \<and> s ! i \<noteq> BACKTICK \<and> \<not> (s ! i = CHR ''$'' \<and> at s (i + 1) = CHR ''{'')")
    case True
    let ?k = "if s ! i = BSLASH \<and> at s (i + 1) \<noteq> NUL then i + 2 else i + 1"
    have k: "i < ?k" "?k \<le> length s" using True at_not_NUL [of s "i + 1"] by auto
    have "template_end s i = template_end s ?k" using True by (subst template_end.simps) auto
    then have eq: "template_end s ?k = (j, r)" using "1.prems"(2) by simp
    have "?k \<le> j \<and> j \<le> length s \<and> (r \<noteq> None \<longrightarrow> j < length s) \<and> (r = Some False \<longrightarrow> j + 1 < length s)"
    proof (rule "1.IH")
      show "\<not> length s \<le> i" "s ! i \<noteq> BACKTICK" "\<not> (s ! i = CHR ''$'' \<and> at s (i + 1) = CHR ''{'')"
        using True by auto
    qed (rule k(2), rule eq)
    then show ?thesis using k(1) by linarith
  next
    case False
    then show ?thesis using 1(2,3) at_char_less(3) [of s "i + 1"]
      by (subst (asm) template_end.simps) (auto split: if_splits)
  qed
qed

lemma regex_end_bounds: "i \<le> length s \<Longrightarrow> i \<le> regex_end s i b \<and> regex_end s i b \<le> length s"
proof (induction s i b rule: regex_end.induct)
  case (1 s i b)
  let ?b = "if s ! i = CHR ''['' then True else if s ! i = CHR '']'' then False else b"
  consider "i \<ge> length s" | "i < length s" "s ! i = BSLASH \<and> at s (i + 1) \<noteq> NUL"
    | "i < length s" "\<not> (s ! i = BSLASH \<and> at s (i + 1) \<noteq> NUL)" by linarith
  then show ?case
  proof cases
    case 1
    then show ?thesis using "1.prems" by (subst (1 2) regex_end.simps) simp
  next
    case 2
    then show ?thesis using "1.IH"(1) at_not_NUL [of s "i + 1"] by (subst (1 2) regex_end.simps) auto
  next
    case 3
    then have c: "(length s \<le> i) = False" "(s ! i = BSLASH \<and> at s (i + 1) \<noteq> NUL) = False" by auto
    have eq: "regex_end s i b = (if s ! i = CHR ''/'' \<and> \<not> ?b then i + 1 else if s ! i = NL then i
        else regex_end s (i + 1) ?b)" by (simp only: regex_end.simps [of s i b] c if_False Let_def)
    show ?thesis
    proof (cases "(s ! i = CHR ''/'' \<and> \<not> ?b) \<or> s ! i = NL")
      case True
      then show ?thesis using eq 3(1) by (auto split: if_splits)
    next
      case False
      have "i + 1 \<le> regex_end s (i + 1) ?b \<and> regex_end s (i + 1) ?b \<le> length s"
        by (rule "1.IH"(2)) (use 3 False in auto)
      moreover have "regex_end s i b = regex_end s (i + 1) ?b" using eq False by argo
      ultimately show ?thesis by linarith
    qed
  qed
qed

lemma first_punct_in: "first_punct ts s = Some (w, t, v) \<Longrightarrow> (w, t, v) \<in> set ts \<and> take (length w) s = w"
  by (induction ts s rule: first_punct.induct) (auto split: if_splits)

lemma punct_nonempty: "(w, t, v) \<in> set punct_table \<Longrightarrow> w \<noteq> []"
  by (auto simp: punct_table_def)

definition advances :: "Lexer \<Rightarrow> Token \<times> Lexer \<Rightarrow> bool" where
  "advances lx r \<longleftrightarrow> source (snd r) = source lx \<and> cursor lx < cursor (snd r) \<and>
     cursor (snd r) \<le> length (source lx)"

lemma scan_parts_advance:
  assumes "cursor lx < length (source lx)" "source lx ! cursor lx \<noteq> NUL"
  shows "advances lx (scan_identifier lx)" "advances lx (scan_string lx)"
    "advances lx (scan_template lx)" "advances lx (scan_regex lx)" "advances lx (scan_punct lx)"
proof -
  let ?s = "source lx" and ?i = "cursor lx"
  show "advances lx (scan_identifier lx)"
    using skip_while_ge [of "?i + 1" ident_char ?s] skip_while_le [of "?i + 1" ?s ident_char] assms
    by (simp add: advances_def scan_identifier_def emit_def Let_def)
  show "advances lx (scan_string lx)"
    using string_end_bounds [of "?i + 1" ?s "?s ! ?i"] assms
    by (auto simp: advances_def scan_string_def emit_def Let_def at_def split: if_splits)
  show "advances lx (scan_template lx)"
    using template_end_bounds [of "?i + 1" ?s] assms
    by (auto simp: advances_def scan_template_def emit_def Let_def split: prod.splits option.splits bool.splits)
  show "advances lx (scan_regex lx)"
    using regex_end_bounds [of "?i + 1" ?s False] assms
      skip_while_ge [of "regex_end ?s (?i + 1) False" "\<lambda>c. is_lower c \<or> is_upper c" ?s]
      skip_while_le [of "regex_end ?s (?i + 1) False" ?s "\<lambda>c. is_lower c \<or> is_upper c"]
    by (simp add: advances_def scan_regex_def emit_def Let_def)
  show "advances lx (scan_punct lx)"
  proof (cases "first_punct punct_table (drop ?i ?s)")
    case None
    then show ?thesis using assms by (simp add: advances_def scan_punct_def emit_def Let_def)
  next
    case (Some p)
    obtain w t v where p: "p = (w, t, v)" by (cases p)
    have "take (length w) (drop ?i ?s) = w" "w \<noteq> []"
      using first_punct_in [OF Some [unfolded p]] punct_nonempty by auto
    then have "0 < length w" "length w \<le> length ?s - ?i"
      by (auto simp: min_def dest: arg_cong [of _ _ length] split: if_splits)
    then show ?thesis using Some p assms by (simp add: advances_def scan_punct_def emit_def Let_def)
  qed
qed

lemma scan_number_advance:
  assumes "cursor lx < length (source lx)"
    "is_digit (source lx ! cursor lx) \<or>
     (source lx ! cursor lx = CHR ''.'' \<and> is_digit (at (source lx) (cursor lx + 1)))"
  shows "advances lx (scan_number lx)"
proof (cases "if source lx ! cursor lx = CHR ''0'' then radix_digit (at (source lx) (cursor lx + 1)) else None")
  case None
  let ?r = "drop (cursor lx) (source lx)"
  have r: "?r \<noteq> []" "hd ?r = source lx ! cursor lx" "at ?r 1 = at (source lx) (cursor lx + 1)"
    using assms(1) by (auto simp: hd_drop_conv_nth at_def)
  have "0 < snd (strtod ?r)" using assms(2) r by (intro strtod_digit) auto
  moreover have "snd (strtod ?r) \<le> length (source lx) - cursor lx" using strtod_len [of ?r] by simp
  ultimately show ?thesis using None assms(1)
    by (simp add: advances_def scan_number_def emit_def Let_def case_prod_beta)
next
  case (Some dig)
  then have "at (source lx) (cursor lx + 1) \<noteq> NUL" by (auto simp: radix_digit_def NUL_def split: if_splits)
  then have "cursor lx + 2 \<le> length (source lx)" using at_not_NUL by fastforce
  then show ?thesis
    using Some skip_while_ge [of "cursor lx + 2" "\<lambda>c. dig c \<or> c = CHR ''_''" "source lx"]
      skip_while_le [of "cursor lx + 2" "source lx" "\<lambda>c. dig c \<or> c = CHR ''_''"]
    by (simp add: advances_def scan_number_def emit_def Let_def)
qed

section \<open>Progress of the scanner\<close>

lemma scan_token_nul:
  assumes "scan_token lx = (t, lx')"
  shows "tok_type t = TOK_EOF \<longleftrightarrow> at (source lx) (skip_blanks (source lx) (cursor lx)) = NUL"
proof
  let ?i = "skip_blanks (source lx) (cursor lx)"
  show "at (source lx) ?i = NUL \<Longrightarrow> tok_type t = TOK_EOF"
    using assms by (auto simp: scan_token_def Let_def emit_def plain_token_def)
  have parts: "tok_type (fst (scan_identifier x)) \<noteq> TOK_EOF" "tok_type (fst (scan_string x)) \<noteq> TOK_EOF"
    "tok_type (fst (scan_regex x)) \<noteq> TOK_EOF" "tok_type (fst (scan_punct x)) \<noteq> TOK_EOF"
    "tok_type (fst (scan_template x)) \<noteq> TOK_EOF" "tok_type (fst (scan_number x)) \<noteq> TOK_EOF" for x
    by (auto simp: scan_identifier_def scan_string_def scan_regex_def scan_punct_def scan_template_def
      scan_number_def number_token_def template_token_def ident_type_def emit_def plain_token_def Let_def
      split: option.splits prod.splits bool.splits)
  show "tok_type t = TOK_EOF \<Longrightarrow> at (source lx) ?i = NUL"
    using parts [of "lx\<lparr>cursor := ?i\<rparr>"] assms
    by (auto simp: scan_token_def Let_def split: if_splits)
qed

lemma scan_token_forward:
  assumes "scan_token lx = (t, lx')" "tok_type t \<noteq> TOK_EOF"
  shows "source lx' = source lx" "cursor lx < cursor lx'" "cursor lx < length (source lx)"
    "cursor lx' \<le> length (source lx)"
proof -
  let ?s = "source lx" and ?i = "skip_blanks (source lx) (cursor lx)"
  let ?lx = "lx\<lparr>cursor := ?i\<rparr>"
  have nul: "at ?s ?i \<noteq> NUL" using scan_token_nul [OF assms(1)] assms(2) by simp
  have less: "cursor lx < length ?s"
    using at_not_NUL [OF nul] by (subst (asm) skip_blanks.simps) (auto split: if_splits)
  have ge: "cursor lx \<le> ?i" using skip_blanks_bounds [of "cursor lx" ?s] less by simp
  have lt: "cursor ?lx < length (source ?lx)" "source ?lx ! cursor ?lx \<noteq> NUL"
    using at_not_NUL [OF nul] nul by (auto simp: at_def)
  have "advances ?lx (scan_token lx)"
    using scan_parts_advance [OF lt] scan_number_advance [OF lt(1)] nul at_less [of ?i ?s] lt(1)
    by (auto simp: scan_token_def Let_def)
  then show "source lx' = source lx" "cursor lx < cursor lx'" "cursor lx < length (source lx)"
    "cursor lx' \<le> length (source lx)"
    using assms(1) ge less by (auto simp: advances_def)
qed

lemma scan_token_end:
  assumes "scan_token lx = (t, lx')" "tok_type t = TOK_EOF" "cursor lx \<le> length (source lx)"
  shows "source lx' = source lx" "cursor lx \<le> cursor lx'" "cursor lx' \<le> length (source lx)"
  using assms skip_blanks_bounds [OF assms(3)] scan_token_nul [OF assms(1)]
  by (auto simp: scan_token_def Let_def emit_def)

section \<open>Escape processing\<close>

lemma length_encode_utf8:
  "length (encode_utf8 cp) \<le> (if cp < 0x80 then 1 else if cp < 0x800 then 2 else if cp < 0x10000 then 3 else 4)"
  by (simp add: encode_utf8_def)

lemma hex_val_less: "hex_val c < 16"
  by (auto simp: hex_val_def char_class_defs)

lemma hex_digits_snoc: "hex_digits (ds @ [c]) = push_bit 4 (hex_digits ds) OR of_nat (hex_val c)"
  by (simp add: hex_digits_def)

lemma hex_digits_bound: "4 * length ds < 32 \<Longrightarrow> unat (hex_digits ds) < 16 ^ length ds"
proof (induction ds rule: rev_induct)
  case Nil
  then show ?case by (simp add: hex_digits_def)
next
  case (snoc c ds)
  let ?n = "length ds"
  have h: "(of_nat (hex_val c) :: u32) = take_bit 4 (of_nat (hex_val c))"
    using hex_val_less [of c] by (simp add: take_bit_nat_eq_self flip: of_nat_take_bit)
  have d: "hex_digits ds = take_bit (4 * ?n) (hex_digits ds)"
    using snoc by (simp add: word_unat_eq_iff unsigned_take_bit_eq take_bit_nat_eq_self power_mult)
  have "hex_digits (ds @ [c]) = take_bit (4 * ?n + 4) (hex_digits (ds @ [c]))"
    unfolding hex_digits_snoc by (subst d, subst (2) d, subst h, subst (2) h)
      (auto intro!: bit_word_eqI simp: bit_simps)
  then have "unat (hex_digits (ds @ [c])) < 2 ^ (4 * ?n + 4)"
    by (metis take_bit_nat_less_exp unsigned_take_bit_eq)
  then show ?case by (simp add: power_add power_mult)
qed

lemma length_encode_hex:
  "length (encode_utf8 (hex_digits ds)) \<le> max 1 (min 4 (length ds))"
proof (cases "length ds < 5")
  case True
  then have b: "unat (hex_digits ds) < 16 ^ length ds" by (intro hex_digits_bound) simp
  from True consider "length ds = 0" | "length ds = 1" | "length ds = 2" | "length ds = 3" | "length ds = 4"
    by linarith
  then show ?thesis using b length_encode_utf8 [of "hex_digits ds"]
    by cases (auto simp: word_less_nat_alt split: if_splits)
next
  case False
  then show ?thesis using length_encode_utf8 [of "hex_digits ds"] by (auto split: if_splits)
qed

lemma escape_bounds:
  assumes "escape p = (s, k)"
  shows "k \<le> length p" "length s \<le> k"
proof -
  have "k \<le> length p \<and> length s \<le> k"
  proof (cases p)
    case Nil
    then show ?thesis using assms by (simp add: escape_def)
  next
    case (Cons e q)
    let ?ds = "takeWhile (\<lambda>c. c \<noteq> CHR ''}'') (drop 1 q)"
    have "at q 0 = CHR ''{'' \<Longrightarrow> 1 + length ?ds \<le> length q"
      using length_takeWhile_le [of "\<lambda>c. c \<noteq> CHR ''}''" "drop 1 q"] at_char_less(3) [of q 0]
      by (cases q) simp_all
    then show ?thesis
      using assms Cons length_encode_hex [of ?ds] length_encode_hex [of "take 4 q"]
      by (auto simp: escape_def Let_def max_def min_def split: if_splits option.splits)
  qed
  then show "k \<le> length p" "length s \<le> k" by auto
qed

lemma process_escapes_fit: "length (process_string_escapes p) \<le> length p"
proof (induction p rule: process_string_escapes.induct)
  case (1 p)
  show ?case
  proof (cases p)
    case Nil
    then show ?thesis by (simp add: process_string_escapes.simps)
  next
    case (Cons c q)
    obtain s k where e: "escape q = (s, k)" by force
    show ?thesis
    proof (cases "c = BSLASH")
      case True
      then have "length (process_string_escapes (drop k q)) \<le> length q - k"
        using 1(2) [OF Cons] e by fastforce
      then show ?thesis using escape_bounds [OF e] Cons e True
        by (subst process_string_escapes.simps) simp
    next
      case False
      then show ?thesis using 1(1) [OF Cons] Cons by (subst process_string_escapes.simps) simp
    qed
  qed
qed

section \<open>Printing and reading back\<close>

text \<open>A printer for single-quoted literals.\<close>

definition quote_char :: "char \<Rightarrow> string" where
  "quote_char c =
     (if c = BSLASH then [BSLASH, BSLASH] else if c = QUOTE then [BSLASH, QUOTE]
      else if c = NL then [BSLASH, CHR ''n''] else if c = CR then [BSLASH, CHR ''r''] else [c])"

definition quote_text :: "string \<Rightarrow> string" where
  "quote_text s = concat (map quote_char s)"

lemma process_quote: "process_string_escapes (quote_text s) = s"
proof (induction s)
  case Nil
  then show ?case by (simp add: quote_text_def process_string_escapes.simps)
next
  case (Cons c s)
  have eq: "quote_text (c # s) = quote_char c @ quote_text s" by (simp add: quote_text_def)
  have "escape (BSLASH # q) = ([BSLASH], 1)" "escape (QUOTE # q) = ([QUOTE], 1)"
    "escape (CHR ''n'' # q) = ([NL], 1)" "escape (CHR ''r'' # q) = ([CR], 1)" for q
    by (simp_all add: escape_def simple_escapes_def char_defs)
  then show ?case using Cons unfolding eq
    by (subst process_string_escapes.simps) (auto simp: quote_char_def Let_def)
qed

lemma string_end_step:
  assumes "i < length s" "s ! i \<noteq> q"
  shows "string_end q s i = string_end q s
    (let j = if s ! i = BSLASH then i + 1 else i in if j < length s then j + 1 else j)"
  using assms by (subst string_end.simps) (simp add: Let_def)

lemma string_end_quote:
  "string_end QUOTE (pre @ quote_text s @ QUOTE # post) (length pre) = length pre + length (quote_text s)"
proof (induction s arbitrary: pre)
  case Nil
  then show ?case by (subst string_end.simps) (simp add: quote_text_def nth_append)
next
  case (Cons c s)
  let ?t = "pre @ quote_text (c # s) @ QUOTE # post"
  have t: "?t = (pre @ quote_char c) @ quote_text s @ QUOTE # post" by (simp add: quote_text_def)
  have "string_end QUOTE ?t (length pre) = string_end QUOTE ?t (length (pre @ quote_char c))"
    by (subst string_end_step) (auto simp: quote_text_def quote_char_def nth_append Let_def char_defs)
  then show ?case using Cons [of "pre @ quote_char c"] unfolding t by (simp add: quote_text_def)
qed

lemma skip_blanks_stop:
  assumes "i < length s" "\<not> is_blank (s ! i)" "s ! i \<noteq> CHR ''/''"
  shows "skip_blanks s i = i"
  using assms by (subst skip_blanks.simps) simp

lemma c_str_id: "NUL \<notin> set s \<Longrightarrow> c_str s = s"
  by (auto simp: c_str_def takeWhile_eq_all_conv)

text \<open>The prefix of a punctuator that the table finds does not depend on a following character that
  no punctuator contains.\<close>

definition punct_chars :: "char set" where
  "punct_chars = \<Union> ((\<lambda>(w, t, v). set w) ` set punct_table)"

lemma take_append_neq:
  assumes "set w' \<subseteq> C" "rest = [] \<or> hd rest \<notin> C"
  shows "take (length w') (w @ rest) = w' \<longleftrightarrow> take (length w') w = w'"
proof (cases "length w' \<le> length w")
  case True
  then show ?thesis by simp
next
  case False
  show ?thesis
  proof
    assume eq: "take (length w') (w @ rest) = w'"
    have "rest \<noteq> []"
    proof
      assume "rest = []"
      with eq False show False by (metis append_Nil2 linorder_le_cases nat_le_linear take_all_iff)
    qed
    then have "(w @ rest) ! length w = hd rest" by (simp add: nth_append hd_conv_nth)
    moreover have "w' ! length w = (w @ rest) ! length w" using False eq by (metis linorder_not_le nth_take)
    ultimately have "hd rest \<in> set w'" using False by (metis linorder_not_le nth_mem)
    with assms \<open>rest \<noteq> []\<close> show "take (length w') w = w'" by blast
  next
    assume "take (length w') w = w'"
    then show "take (length w') (w @ rest) = w'" using False by (metis linorder_le_cases take_all)
  qed
qed

lemma first_punct_append:
  assumes "\<forall>(w', t, v)\<in>set ts. set w' \<subseteq> C" "rest = [] \<or> hd rest \<notin> C"
  shows "first_punct ts (w @ rest) = first_punct ts w"
  using assms(1)
proof (induction ts)
  case (Cons p ts)
  obtain w' t v where p: "p = (w', t, v)" by (cases p)
  then show ?case using Cons take_append_neq [of w' C rest w] assms(2) by simp
qed simp

lemma punct_table_self: "list_all (\<lambda>(w, t, v). first_punct punct_table w = Some (w, t, v)) punct_table"
  by code_simp

lemma punct_table_start:
  "list_all (\<lambda>(w, t, v). w \<noteq> [] \<and> \<not> ident_start (hd w) \<and> \<not> is_digit (hd w) \<and> \<not> is_blank (hd w) \<and>
     hd w \<notin> {NUL, DQUOTE, QUOTE, BACKTICK} \<and>
     (hd w = CHR ''/'' \<longrightarrow> w = ''/'' \<or> w = ''/='') \<and> (w = ''.'' \<or> hd w \<noteq> CHR ''.'' \<or> w ! 1 = CHR ''.''))
   punct_table"
  by code_simp

lemma of_char_byte_mod:
  assumes "k \<le> 8"
  shows "(of_char (byte w) :: nat) mod 2 ^ k = unat (take_bit k w)"
proof -
  have and_ff: "w AND 0xff = take_bit 8 w" by (simp add: take_bit_eq_mask mask_eq_exp_minus_1)
  have "(of_char (byte w) :: nat) = take_bit 8 (unat w)"
    unfolding byte_def and_ff by (simp add: unsigned_take_bit_eq take_bit_nat_def)
  then have "(of_char (byte w) :: nat) mod 2 ^ k = take_bit k (take_bit 8 (unat w))"
    by (simp only: take_bit_nat_def)
  also have "\<dots> = unat (take_bit k w)"
    using assms by (simp only: take_bit_take_bit min_absorb1 unsigned_take_bit_eq)
  finally show ?thesis .
qed

text \<open>Reading a UTF-8 sequence of one to four bytes, by the payload bits of each byte.\<close>

fun utf8_value :: "nat list \<Rightarrow> nat" where
  "utf8_value [a] = a"
| "utf8_value [a, b] = a mod 2 ^ 5 * 64 + b mod 2 ^ 6"
| "utf8_value [a, b, c] = (a mod 2 ^ 4 * 64 + b mod 2 ^ 6) * 64 + c mod 2 ^ 6"
| "utf8_value [a, b, c, d] = ((a mod 2 ^ 3 * 64 + b mod 2 ^ 6) * 64 + c mod 2 ^ 6) * 64 + d mod 2 ^ 6"
| "utf8_value _ = 0"

lemma take_bit_marked:
  fixes x :: u32
  shows "take_bit 6 (0x80 OR x) = take_bit 6 x" "take_bit 5 (0xC0 OR x) = take_bit 5 x"
    "take_bit 4 (0xE0 OR x) = take_bit 4 x" "take_bit 3 (0xF0 OR x) = take_bit 3 x"
proof -
  have "take_bit 6 (0x80 :: u32) = 0" "take_bit 5 (0xC0 :: u32) = 0" "take_bit 4 (0xE0 :: u32) = 0"
    "take_bit 3 (0xF0 :: u32) = 0" by simp_all
  then show "take_bit 6 (0x80 OR x) = take_bit 6 x" "take_bit 5 (0xC0 OR x) = take_bit 5 x"
    "take_bit 4 (0xE0 OR x) = take_bit 4 x" "take_bit 3 (0xF0 OR x) = take_bit 3 x"
    by (simp_all only: take_bit_or or.left_neutral)
qed

lemma and_3f: "(x :: u32) AND 0x3F = take_bit 6 x"
  by (simp add: take_bit_eq_mask mask_eq_exp_minus_1)

lemma unat_field: "unat (take_bit k (drop_bit j (cp :: u32))) = unat cp div 2 ^ j mod 2 ^ k"
  by (simp add: unsigned_take_bit_eq take_bit_nat_def unat_drop_bit)

lemma base64_digits:
  fixes n :: nat
  shows "n < 2048 \<Longrightarrow> n div 2 ^ 6 mod 2 ^ 5 * 64 + n mod 2 ^ 6 = n"
    "n < 65536 \<Longrightarrow> 4096 * (n div 2 ^ 12 mod 2 ^ 4) + n div 2 ^ 6 mod 2 ^ 6 * 64 + n mod 2 ^ 6 = n"
    "n < 2097152 \<Longrightarrow> 262144 * (n div 2 ^ 18 mod 2 ^ 3) + 4096 * (n div 2 ^ 12 mod 2 ^ 6) +
       n div 2 ^ 6 mod 2 ^ 6 * 64 + n mod 2 ^ 6 = n"
proof -
  have d: "n div 2 ^ 12 = n div 64 div 64" "n div 2 ^ 18 = n div 64 div 64 div 64"
    by (simp_all add: div_mult2_eq [symmetric])
  show "n < 2048 \<Longrightarrow> n div 2 ^ 6 mod 2 ^ 5 * 64 + n mod 2 ^ 6 = n" by simp
  define a where "a = n div 64"
  define b where "b = a div 64"
  have n: "n = a * 64 + n mod 64" "a = b * 64 + a mod 64" "b = b div 64 * 64 + b mod 64"
    by (simp_all add: a_def b_def)
  show "n < 65536 \<Longrightarrow> 4096 * (n div 2 ^ 12 mod 2 ^ 4) + n div 2 ^ 6 mod 2 ^ 6 * 64 + n mod 2 ^ 6 = n"
  proof -
    assume "n < 65536"
    then have "b < 16" using n by linarith
    then show ?thesis unfolding d using n by (simp add: a_def [symmetric] b_def [symmetric])
  qed
  show "n < 2097152 \<Longrightarrow> 262144 * (n div 2 ^ 18 mod 2 ^ 3) + 4096 * (n div 2 ^ 12 mod 2 ^ 6) +
       n div 2 ^ 6 mod 2 ^ 6 * 64 + n mod 2 ^ 6 = n"
  proof -
    assume "n < 2097152"
    then have "b div 64 < 8" using n by linarith
    then have "b div 64 mod 2 ^ 3 = b div 64" by simp
    moreover have "262144 * (b div 64) + 4096 * (b mod 64) + a mod 64 * 64 + n mod 64 = n"
      using n by linarith
    ultimately show ?thesis unfolding d by (simp add: a_def [symmetric] b_def [symmetric])
  qed
qed

lemma utf8_value_encode:
  assumes "cp < 0x200000"
  shows "utf8_value (map of_char (encode_utf8 cp)) = unat cp"
proof -
  let ?n = "unat cp"
  have n: "?n < 2097152" using assms by (simp add: word_less_nat_alt)
  have low: "(of_char (byte (0x80 OR (drop_bit j cp AND 0x3F))) :: nat) mod 2 ^ 6 = ?n div 2 ^ j mod 2 ^ 6" for j
    by (simp only: of_char_byte_mod take_bit_marked and_3f unat_field take_bit_take_bit)
  have low0: "(of_char (byte (0x80 OR (cp AND 0x3F))) :: nat) mod 2 ^ 6 = ?n mod 2 ^ 6"
    using low [of 0] by simp
  have lead: "(of_char (byte (0xC0 OR drop_bit 6 cp)) :: nat) mod 2 ^ 5 = ?n div 2 ^ 6 mod 2 ^ 5"
    "(of_char (byte (0xE0 OR drop_bit 12 cp)) :: nat) mod 2 ^ 4 = ?n div 2 ^ 12 mod 2 ^ 4"
    "(of_char (byte (0xF0 OR drop_bit 18 cp)) :: nat) mod 2 ^ 3 = ?n div 2 ^ 18 mod 2 ^ 3"
    by (simp_all only: of_char_byte_mod take_bit_marked unat_field)
  have "cp < 0x80 \<Longrightarrow> (of_char (byte cp) :: nat) = ?n"
    using of_char_byte_mod [of 8 cp] by (simp add: unsigned_take_bit_eq take_bit_nat_def word_less_nat_alt)
  then show ?thesis using n base64_digits [of ?n]
    by (simp add: encode_utf8_def low low0 lead word_less_nat_alt del: power_numeral)
qed

section \<open>Properties\<close>

text \<open>scan_token_advances (termination): scanning a token leaves the text alone, keeps the cursor inside it
  and moves it forward unless the end of the text is reached, so scanning a text yields at most one
  token per character before the end token.\<close>

theorem scan_token_advances:
  assumes "cursor lx \<le> length (source lx)" "scan_token lx = (t, lx')"
  shows "source lx' = source lx \<and> cursor lx' \<le> length (source lx) \<and>
    (tok_type t = TOK_EOF \<or> cursor lx < cursor lx')"
  using scan_token_forward [OF assms(2)] scan_token_end [OF assms(2) _ assms(1)] by metis

theorem scan_token_advances_witness:
  "cursor (snd (scan_token \<lparr>source = ''let x'', cursor = 0, last_was_value = False\<rparr>)) \<le> 5"
  using scan_token_advances [of "\<lparr>source = ''let x'', cursor = 0, last_was_value = False\<rparr>"]
  by (cases "scan_token \<lparr>source = ''let x'', cursor = 0, last_was_value = False\<rparr>") simp

text \<open>escapes_fit_buffer (bounds): resolving escapes never writes more characters than it reads, so the
  buffer of the raw length (plus the terminator) is large enough for every literal, including
  \<open>\u{...}\<close> escapes with any number of digits.\<close>

theorem escapes_fit_buffer: "length (process_string_escapes raw) \<le> length raw"
  by (rule process_escapes_fit)

text \<open>C36 (roundtrip): a string printed as a single-quoted literal is scanned back
  as that string, wherever the literal stands in the text.\<close>

theorem string_literal_roundtrip:
  assumes "NUL \<notin> set s"
    "scan_token \<lparr>source = pre @ QUOTE # quote_text s @ QUOTE # post, cursor = length pre, last_was_value = v\<rparr>
       = (t, lx)"
  shows "tok_type t = TOK_STRING \<and> template_str t = Some s \<and> tok_length t = length s \<and>
    cursor lx = length (pre @ QUOTE # quote_text s @ [QUOTE])"
proof -
  let ?src = "pre @ QUOTE # quote_text s @ QUOTE # post"
  have at: "?src ! length pre = QUOTE" "at ?src (length pre) = QUOTE" by (auto simp: at_def)
  have i: "skip_blanks ?src (length pre) = length pre"
    by (rule skip_blanks_stop) (simp_all add: is_blank_def char_defs)
  have cls: "QUOTE \<noteq> NUL" "\<not> ident_start QUOTE" "\<not> is_digit QUOTE" "QUOTE \<noteq> CHR ''.''"
    by (simp_all add: char_defs ident_start_def char_class_defs)
  have e: "string_end QUOTE ?src (length pre + 1) = length pre + 1 + length (quote_text s)"
    using string_end_quote [of "pre @ [QUOTE]" s post] by simp
  have seg: "take (length (quote_text s)) (drop (length pre + 1) ?src) = quote_text s" by simp
  have last: "at ?src (length pre + 1 + length (quote_text s)) = QUOTE"
    by (simp add: at_def nth_append)
  show ?thesis using assms(2) e seg last at i cls
    by (auto simp: scan_token_def scan_string_def emit_def Let_def process_quote c_str_id [OF assms(1)])
qed

theorem string_literal_roundtrip_witness:
  "template_str (fst (scan_token \<lparr>source = ''x='' @ QUOTE # quote_text (''a'' @ [NL, QUOTE]) @ QUOTE # '';'',
     cursor = 2, last_was_value = False\<rparr>)) = Some (''a'' @ [NL, QUOTE])"
  using string_literal_roundtrip [OF _ surjective_pairing, of "''a'' @ [NL, QUOTE]" "''x=''" "'';''" False]
  by (simp add: char_defs numeral_2_eq_2)

text \<open>identifier_longest_match (functional): a word of identifier characters that no further identifier
  character follows is one token, a keyword exactly when the table lists it.\<close>

theorem identifier_longest_match:
  assumes "ident_start c" "\<forall>d\<in>set cs. ident_char d" "rest = [] \<or> \<not> ident_char (hd rest)"
    "scan_token \<lparr>source = pre @ (c # cs) @ rest, cursor = length pre, last_was_value = v\<rparr> = (t, lx)"
  shows "tok_type t = ident_type (c # cs) \<and> tok_start t = length pre \<and> tok_length t = length (c # cs) \<and>
    cursor lx = length (pre @ c # cs)"
proof -
  let ?src = "pre @ (c # cs) @ rest"
  have at: "?src ! length pre = c" "at ?src (length pre) = c" by (auto simp: at_def)
  have c: "c \<noteq> NUL" "\<not> is_blank c" "c \<noteq> CHR ''/''"
    using assms(1) by (auto simp: ident_start_def char_class_defs is_blank_def char_defs)
  have i: "skip_blanks ?src (length pre) = length pre"
    using c at by (intro skip_blanks_stop) simp_all
  have "takeWhile ident_char (cs @ rest) = cs"
    using assms(2,3) by (cases rest) (auto simp: takeWhile_append)
  then have j: "skip_while ident_char ?src (length pre + 1) = length pre + 1 + length cs"
    by (simp add: skip_while_eq)
  show ?thesis using assms(1,4) at c i j
    by (auto simp: scan_token_def scan_identifier_def emit_def Let_def plain_token_def)
qed

theorem identifier_longest_match_witness:
  "tok_type (fst (scan_token \<lparr>source = ''letter = 1'', cursor = 0, last_was_value = False\<rparr>)) = TOK_IDENTIFIER"
  using identifier_longest_match [OF _ _ _ surjective_pairing, of "CHR ''l''" "''etter''" "'' = 1''" "[]" False]
  by (simp add: ident_start_def ident_char_def char_class_defs ident_type_def keyword_table_def)

text \<open>punctuator_roundtrip (roundtrip): every punctuator of the table, followed by a character that no
  punctuator contains and no digit, is scanned as that punctuator: the tests of the scanner are in
  an order that finds the longest match.\<close>

theorem punctuator_roundtrip:
  assumes "(w, p, v) \<in> set punct_table" "rest = [] \<or> (hd rest \<notin> punct_chars \<and> \<not> is_digit (hd rest))"
    "scan_token \<lparr>source = pre @ w @ rest, cursor = length pre, last_was_value = True\<rparr> = (t, lx)"
  shows "tok_type t = Punct p \<and> tok_length t = length w \<and> cursor lx = length (pre @ w) \<and>
    last_was_value lx = v"
proof -
  let ?src = "pre @ w @ rest"
  note start = punct_table_start [unfolded list_all_iff, THEN bspec, OF assms(1), simplified]
  have rest: "at rest 0 \<notin> {CHR ''/'', CHR ''*''}" "\<not> is_digit (at rest 0)"
    using assms(2) by (cases rest; auto simp: at_def char_class_defs NUL_def punct_chars_def punct_table_def)+
  have at: "?src ! length pre = hd w" "at ?src (length pre) = hd w"
    "at ?src (length pre + 1) = (if length w = 1 then at rest 0 else w ! 1)"
    using start by (cases w; auto simp: at_def nth_append hd_conv_nth)+
  have i: "skip_blanks ?src (length pre) = length pre"
  proof (cases "hd w = CHR ''/''")
    case True
    then have "at ?src (length pre + 1) \<notin> {CHR ''/'', CHR ''*''}" using start at(3) rest by auto
    then show ?thesis using start at(1) by (subst skip_blanks.simps) auto
  next
    case False
    then show ?thesis using start at(1) by (intro skip_blanks_stop) auto
  qed
  have dot: "\<not> (hd w = CHR ''.'' \<and> is_digit (at ?src (length pre + 1)))"
    using start at(3) rest by (auto simp: char_class_defs split: if_splits)
  have "first_punct punct_table (w @ rest) = first_punct punct_table w"
    using assms(2) by (intro first_punct_append [of _ punct_chars]) (auto simp: punct_chars_def)
  also have "\<dots> = Some (w, p, v)"
    using punct_table_self [unfolded list_all_iff, THEN bspec, OF assms(1)] by simp
  finally show ?thesis using assms(3) i at start dot
    by (auto simp: scan_token_def scan_punct_def emit_def Let_def plain_token_def)
qed

theorem punctuator_roundtrip_witness:
  "tok_type (fst (scan_token \<lparr>source = ''a>>>=b'', cursor = 1, last_was_value = True\<rparr>)) = Punct TOK_USHR_ASSIGN"
  using punctuator_roundtrip [OF _ _ surjective_pairing, of "''>>>=''" TOK_USHR_ASSIGN False "''b''" "''a''"]
  by (simp add: punct_table_def punct_chars_def char_class_defs)

text \<open>utf8_encoding_decodes (roundtrip): \<open>encode_utf8\<close> stores every code point below \<open>0x200000\<close>, so all of
  Unicode, without loss: the payload bits of the one to four bytes give the code point back.\<close>

theorem utf8_encoding_decodes:
  assumes "cp < 0x200000"
  shows "utf8_value (map of_char (encode_utf8 cp)) = unat cp \<and> length (encode_utf8 cp) \<in> {1, 2, 3, 4}"
  using utf8_value_encode [OF assms] by (simp add: encode_utf8_def)

theorem utf8_encoding_decodes_witness: "utf8_value (map of_char (encode_utf8 0x1F600)) = 0x1F600"
  using utf8_encoding_decodes [of "0x1F600"] by simp

text \<open>binary_literal_zero (error): the value of a binary literal is always zero, whatever its digits,
  because the digits are read by \<open>strtod\<close>, which stops at the \<open>b\<close>.\<close>

theorem binary_literal_zero:
  assumes "\<forall>d\<in>set ds. d \<in> {CHR ''0'', CHR ''1''}" "length ds \<le> 125"
    "scan_token \<lparr>source = ''0b'' @ ds, cursor = 0, last_was_value = v\<rparr> = (t, lx)"
  shows "tok_type t = TOK_NUMBER \<and> tok_length t = length ds + 2 \<and> number_value t = f64_zero False"
proof -
  let ?src = "''0b'' @ ds" and ?dig = "\<lambda>c. (c = CHR ''0'' \<or> c = CHR ''1'') \<or> c = CHR ''_''"
  have i: "skip_blanks ?src 0 = 0" by (rule skip_blanks_stop) (simp_all add: is_blank_def char_defs)
  have "takeWhile ?dig ds = ds" unfolding takeWhile_eq_all_conv using assms(1) by auto
  then have j: "skip_while ?dig ?src 2 = length ds + 2"
    by (subst skip_while_eq) (simp_all only: length_append, simp_all add: numeral_2_eq_2 del: takeWhile_eq_all_conv)
  have clean: "filter (\<lambda>c. c \<noteq> CHR ''_'') (take (min (length ds + 2) 127) ?src) = ?src"
    using assms(1,2) by (auto simp: filter_id_conv min_def)
  have "strtod ?src = (scale 10 False 0 0, 1)"
    by (simp add: strtod_def strtod_unsigned_def sign_part_def at_def is_space_def has_prefix_ci_def
        lower_char_def mantissa_def exponent_part_def digits_val_def digit_val_def char_class_defs)
  moreover have "scale 10 False 0 0 = f64_zero False"
    by (simp add: scale_def f64_round_def bitlen.simps round_half_even_def f64_zero_def)
  ultimately show ?thesis using assms(3) i j [unfolded numeral_2_eq_2] clean
    by (auto simp: scan_token_def scan_number_def radix_digit_def emit_def Let_def number_token_def
        plain_token_def ident_start_def char_class_defs at_def NUL_def)
qed

theorem binary_literal_zero_witness:
  "number_value (fst (scan_token \<lparr>source = ''0b101'', cursor = 0, last_was_value = False\<rparr>)) = f64_zero False"
  using binary_literal_zero [OF _ _ surjective_pairing, of "''101''" False] by simp

end
