(* ===== verification/Ast.thy ===== *)
theory Ast
  imports Lexer_Laws
begin

text \<open>
  The abstract syntax of \<open>src/src/ast.h\<close>. A node pointer is a value of \<open>ast\<close>, with \<open>AST_NULL\<close> for the
  null pointer; a name pointer is an optional string; an array with its count is a list. The \<open>scope\<close>
  pointer of a node is a scope number, kept by the node types whose scope the compiler sets. A string
  literal is the bytes of its value up to its length. The fields \<open>pattern\<close> of a binding and \<open>has_break\<close>
  of a case, which no code sets, and \<open>is_prefix\<close>, which is always true, are left out.
\<close>

datatype (plugins only: code size) ast =
  AST_NULL
| AST_LITERAL_NUMBER double
| AST_LITERAL_STRING string
| AST_LITERAL_BOOL bool
| AST_LITERAL_NULL
| AST_LITERAL_UNDEFINED
| AST_LITERAL_REGEX string string
| AST_IDENTIFIER string
| AST_VAR_DECL "string option" ast bool bool bool "ASTBindingElem list" bool
| AST_ASSIGN ast ast "TokenType option"
| AST_BINARY TokenType ast ast
| AST_UNARY TokenType ast
| AST_POSTFIX TokenType ast
| AST_TERNARY ast ast ast
| AST_CALL ast "ast list"
| AST_NEW_CALL ast "ast list"
| AST_BLOCK "nat option" "ast list" bool
| AST_IF ast ast ast
| AST_WHILE ast ast
| AST_DO_WHILE ast ast
| AST_FOR "nat option" ast ast ast ast
| AST_FOR_OF "nat option" "string option" ast ast ast bool bool
| AST_FOR_IN "nat option" "string option" ast ast ast bool
| AST_BREAK "string option"
| AST_CONTINUE "string option"
| AST_SWITCH ast "ASTSwitchCase list"
| AST_RETURN ast
| AST_FUNCTION "nat option" "string option" "ASTParam list" ast bool bool bool bool
| AST_OBJECT "ASTProperty list"
| AST_ARRAY "ast list"
| AST_SPREAD ast
| AST_TEMPLATE_LITERAL "ast list"
| AST_PROP_ACCESS ast ast bool
| AST_OPTIONAL_CHAIN ast ast bool bool
| AST_EXPR_STMT ast
| AST_AWAIT ast
| AST_YIELD ast bool
| AST_TRY ast "string option" ast ast
| AST_THROW ast
| AST_SEQUENCE "ast list"
| AST_CLASS "string option" ast "ASTClassMethod list"
| AST_EMPTY
and ASTBindingElem = Binding (b_name: "string option") (b_default: ast) (b_key: "string option") (b_rest: bool)
and ASTSwitchCase = SwitchCase (case_test: ast) (case_body: "ast list")
and ASTParam = Param (p_name: "string option") (p_default: ast) (p_rest: bool)
and ASTProperty = Property (prop_key: "string option") (key_expr: ast) (prop_value: ast) (prop_flags: nat)
and ASTClassMethod =
  ClassMethod (m_name: "string option") (m_name_expr: ast) (m_computed: bool) (m_static: bool)
    (m_getter: bool) (m_setter: bool) (m_async: bool) (m_generator: bool) (m_func: ast)

end
