(* ===== verification/Parser.thy ===== *)
theory Parser
  imports Ast
begin

text \<open>
  Model of the recursive-descent parser of \<open>src/src/compiler.c\<close>, from \<open>advance\<close> to \<open>parse_statement\<close> and
  the statement loop of \<open>compile_source\<close>. A parsing function takes the parser state and gives a node
  and the next state, or a fault: \<open>Bad_access\<close> where the source follows a null pointer or reads behind
  the text, \<open>No_fuel\<close> when the bound on recursion depth and loop iterations is used up. The bound is an
  argument of the functions; \<open>parse_source\<close> sets it from the length of the text, and the laws show that
  it never runs out. Functions that the source calls recursively are arguments of the
  definitions for the single grammar rules; the recursive functions tie them together.

  The parser state leaves out the three template fields, which the source never reads. Error messages
  are reduced to the flag \<open>has_error\<close>.
\<close>

section \<open>Parser state\<close>

record Parser =
  lexer :: Lexer
  current :: Token
  previous :: Token
  has_error :: bool

datatype fault = Bad_access | No_fuel

type_synonym 'a result = "fault + 'a \<times> Parser"
type_synonym 'a parser = "Parser \<Rightarrow> 'a result"

definition ret :: "'a \<Rightarrow> Parser \<Rightarrow> 'a result" where
  "ret x p = Inr (x, p)"

definition andthen :: "'a result \<Rightarrow> ('a \<Rightarrow> Parser \<Rightarrow> fault + 'b) \<Rightarrow> fault + 'b" where
  "andthen m f = (case m of Inl e \<Rightarrow> Inl e | Inr (x, p) \<Rightarrow> f x p)"

text \<open>A loop of at most \<open>n\<close> rounds; its body goes on with a new state or leaves with a result.\<close>

definition again :: "'s \<Rightarrow> Parser \<Rightarrow> fault + ('s \<times> Parser + 'r)" where
  "again s p = Inr (Inl (s, p))"

definition leave :: "'r \<Rightarrow> Parser \<Rightarrow> fault + ('s + 'r \<times> Parser)" where
  "leave r p = Inr (Inr (r, p))"

primrec loop :: "nat \<Rightarrow> ('s \<times> Parser \<Rightarrow> fault + ('s \<times> Parser + 'r \<times> Parser)) \<Rightarrow> 's \<times> Parser \<Rightarrow> 'r result" where
  "loop 0 body s = Inl No_fuel"
| "loop (Suc n) body s =
     (case body s of
        Inl e \<Rightarrow> Inl e
      | Inr (Inl s') \<Rightarrow> loop n body s'
      | Inr (Inr r) \<Rightarrow> Inr r)"

section \<open>Tokens\<close>

text \<open>The loop of \<open>advance\<close>: scan until a token is no error, noting that there was one.\<close>

function next_token :: "Lexer \<Rightarrow> bool \<Rightarrow> Token \<times> Lexer \<times> bool" where
  "next_token lx err =
     (let (tok, lx') = scan_token lx
      in if tok_type tok \<noteq> TOK_ERROR then (tok, lx', err) else next_token lx' True)"
  by pat_completeness auto
termination
proof (relation "measure (\<lambda>(lx, e). length (source lx) - cursor lx)", goal_cases)
  case (2 lx err x tok lx')
  then have "scan_token lx = (tok, lx')" "tok_type tok \<noteq> TOK_EOF" by auto
  from scan_token_forward [OF this] show ?case by simp
qed simp

declare next_token.simps [simp del]

definition advance :: "Parser \<Rightarrow> Parser" where
  "advance p =
     (let (tok, lx, err) = next_token (lexer p) (has_error p)
      in \<lparr>lexer = lx, current = tok, previous = current p, has_error = err\<rparr>)"

definition check :: "TokenType \<Rightarrow> Parser \<Rightarrow> bool" where
  "check t p \<longleftrightarrow> tok_type (current p) = t"

definition match :: "TokenType \<Rightarrow> Parser \<Rightarrow> Parser" where
  "match t p = (if check t p then advance p else p)"

definition consume :: "TokenType \<Rightarrow> Parser \<Rightarrow> Parser" where
  "consume t p = (if check t p then advance p else p\<lparr>has_error := True\<rparr>)"

text \<open>\<open>strndup(tok.start, tok.length)\<close>.\<close>

definition token_text :: "Parser \<Rightarrow> Token \<Rightarrow> string" where
  "token_text p t = c_str (take (tok_length t) (drop (tok_start t) (source (lexer p))))"

definition cur_text :: "Parser \<Rightarrow> string" where "cur_text p = token_text p (current p)"
definition prev_text :: "Parser \<Rightarrow> string" where "prev_text p = token_text p (previous p)"

definition prev_string :: "Parser \<Rightarrow> string" where
  "prev_string p =
     (case template_str (previous p) of
        Some s \<Rightarrow> take (template_str_len (previous p)) s
      | None \<Rightarrow> prev_text p)"

text \<open>The token types from \<open>TOK_LET\<close> to \<open>TOK_DEBUGGER\<close>.\<close>

definition reserved :: "TokenType \<Rightarrow> bool" where
  "reserved t \<longleftrightarrow>
     (case t of Keyword k \<Rightarrow> k \<notin> {TOK_TRUE, TOK_FALSE, TOK_NULL, TOK_UNDEFINED} | _ \<Rightarrow> False)"

definition member_name :: "Parser \<Rightarrow> bool" where
  "member_name p \<longleftrightarrow> check TOK_IDENTIFIER p \<or> reserved (tok_type (current p))"

definition property_name :: "Parser \<Rightarrow> bool" where
  "property_name p \<longleftrightarrow> member_name p \<or> check TOK_STRING p \<or> check TOK_NUMBER p"

section \<open>Parameters and functions\<close>

definition param_step ::
  "ast parser \<Rightarrow> ASTParam list \<times> Parser \<Rightarrow> fault + (ASTParam list \<times> Parser + ASTParam list \<times> Parser)" where
  "param_step pa = (\<lambda>(ps, p).
     if check (Punct TOK_SPREAD) p
     then let p = consume TOK_IDENTIFIER (advance p)
          in leave (ps @ [Param (Some (prev_text p)) AST_NULL True]) p
     else
       let p = consume TOK_IDENTIFIER p; name = prev_text p
       in andthen (if check (Punct TOK_ASSIGN) p then pa (advance p) else ret AST_NULL p) (\<lambda>d p.
            let ps = ps @ [Param (Some name) d False]
            in if \<not> check (Punct TOK_COMMA) p then leave ps p
               else let p = advance p in if check (Punct TOK_RPAREN) p then leave ps p else again ps p))"

definition parse_param_list :: "nat \<Rightarrow> ast parser \<Rightarrow> ASTParam list parser" where
  "parse_param_list n pa p =
     (if check (Punct TOK_RPAREN) p then ret [] p else loop n (param_step pa) ([], p))"

text \<open>The parameter list in parentheses and the body.\<close>

definition function_rest :: "nat \<Rightarrow> ast parser \<Rightarrow> ast parser \<Rightarrow> (ASTParam list \<times> ast) parser" where
  "function_rest n ps pa p =
     andthen (parse_param_list n pa (consume (Punct TOK_LPAREN) p)) (\<lambda>params p.
     andthen (ps (consume (Punct TOK_RPAREN) p)) (\<lambda>body p. ret (params, body) p))"

definition arrow_rest :: "ast parser \<Rightarrow> ast parser \<Rightarrow> bool \<Rightarrow> ASTParam list \<Rightarrow> ast parser" where
  "arrow_rest ps pa is_async params p =
     (if check (Punct TOK_LBRACE) p
      then andthen (ps p) (\<lambda>body p. ret (AST_FUNCTION None None params body is_async False True False) p)
      else andthen (pa p) (\<lambda>body p. ret (AST_FUNCTION None None params body is_async False True True) p))"

definition function_expression :: "nat \<Rightarrow> ast parser \<Rightarrow> ast parser \<Rightarrow> bool \<Rightarrow> ast parser" where
  "function_expression n ps pa is_async p =
     (let is_gen = check (Punct TOK_STAR) p; p = match (Punct TOK_STAR) p;
          name = (if check TOK_IDENTIFIER p then Some (cur_text p) else None);
          p = match TOK_IDENTIFIER p
      in andthen (function_rest n ps pa p) (\<lambda>(params, body) p.
           ret (AST_FUNCTION None name params body is_async is_gen False False) p))"

section \<open>Primary expressions\<close>

text \<open>The end of the pattern in the text of a regular expression token.\<close>

function regex_close :: "string \<Rightarrow> nat \<Rightarrow> nat \<Rightarrow> bool \<Rightarrow> nat" where
  "regex_close s n i in_class =
     (if i \<ge> n then i
      else if at s i = BSLASH then regex_close s n (i + 2) in_class
      else let in_class = (if at s i = CHR ''['' then True else if at s i = CHR '']'' then False else in_class)
           in if at s i = CHR ''/'' \<and> \<not> in_class then i else regex_close s n (i + 1) in_class)"
  by pat_completeness auto
termination
  by (relation "measure (\<lambda>(s, n, i, b). n - i)") (auto simp: Let_def)

declare regex_close.simps [simp del]

text \<open>
  Without a closing slash the length of the flags is negative, and \<open>strndup\<close> takes it as a huge
  number: the flags are the rest of the source text.
\<close>

definition regex_literal :: "ast parser" where
  "regex_literal p =
     (let src = drop (tok_start (previous p) + 1) (source (lexer p));
          raw_len = tok_length (previous p) - 1;
          pi = regex_close src raw_len 0 False
      in if pi < raw_len
         then ret (AST_LITERAL_REGEX (take pi src) (take (raw_len - pi - 1) (drop (pi + 1) src))) p
         else if pi + 1 \<le> length src then ret (AST_LITERAL_REGEX (take pi src) (drop (pi + 1) src)) p
         else Inl Bad_access)"

definition template_part :: "Parser \<Rightarrow> ast" where
  "template_part p =
     AST_LITERAL_STRING (case template_str (previous p) of
       Some s \<Rightarrow> take (template_str_len (previous p)) s | None \<Rightarrow> [])"

definition template_step ::
  "ast parser \<Rightarrow> ast list \<times> Parser \<Rightarrow> fault + (ast list \<times> Parser + ast list \<times> Parser)" where
  "template_step pe = (\<lambda>(parts, p).
     andthen (pe p) (\<lambda>e p.
       let err = has_error p \<or> \<not> check (Punct TOK_RBRACE) p;
           (cont, lx) = scan_template_continuation (lexer p);
           p = advance (p\<lparr>lexer := lx, current := cont, has_error := err\<rparr>);
           parts = parts @ [e, template_part p]
       in if tok_type (previous p) = TOK_TEMPLATE_TAIL then leave parts p else again parts p))"

definition template_literal :: "nat \<Rightarrow> ast parser \<Rightarrow> ast parser" where
  "template_literal n pe p =
     (if tok_type (previous p) = TOK_TEMPLATE_TAIL then ret (AST_TEMPLATE_LITERAL [template_part p]) p
      else andthen (loop n (template_step pe) ([template_part p], p)) (\<lambda>parts p.
             ret (AST_TEMPLATE_LITERAL parts) p))"

definition identifier_or_arrow :: "ast parser \<Rightarrow> ast parser \<Rightarrow> ast parser" where
  "identifier_or_arrow ps pa p =
     (let name = cur_text p; p = advance p
      in if check (Punct TOK_ARROW) p
         then arrow_rest ps pa False [Param (Some name) AST_NULL False] (advance p)
         else ret (AST_IDENTIFIER name) p)"

text \<open>Parameters of an arrow function, read off the parsed expression in front of the arrow.\<close>

definition arrow_param :: "ast \<Rightarrow> ASTParam option" where
  "arrow_param pe =
     (case pe of
        AST_IDENTIFIER x \<Rightarrow> Some (Param (Some x) AST_NULL False)
      | AST_ASSIGN tgt v _ \<Rightarrow>
          (case tgt of
             AST_NULL \<Rightarrow> None
           | AST_IDENTIFIER x \<Rightarrow> Some (Param (Some x) v False)
           | _ \<Rightarrow> Some (Param None AST_NULL False))
      | AST_SPREAD e \<Rightarrow>
          (case e of
             AST_IDENTIFIER x \<Rightarrow> Some (Param (Some x) AST_NULL True)
           | _ \<Rightarrow> Some (Param None AST_NULL False))
      | _ \<Rightarrow> Some (Param (Some ''_p'') AST_NULL False))"

definition arrow_params :: "ast \<Rightarrow> ASTParam list option" where
  "arrow_params inner =
     (case inner of
        AST_NULL \<Rightarrow> None
      | AST_SEQUENCE es \<Rightarrow> those (map arrow_param es)
      | _ \<Rightarrow> those [arrow_param inner])"

definition group_or_arrow :: "ast parser \<Rightarrow> ast parser \<Rightarrow> ast parser \<Rightarrow> ast parser" where
  "group_or_arrow ps pe pa p =
     (if check (Punct TOK_RPAREN) p
      then let p = advance p
           in if check (Punct TOK_ARROW) p then arrow_rest ps pa False [] (advance p)
              else ret AST_LITERAL_UNDEFINED p
      else andthen (pe p) (\<lambda>inner p.
             let p = consume (Punct TOK_RPAREN) p
             in if check (Punct TOK_ARROW) p
                then (case arrow_params inner of
                        None \<Rightarrow> Inl Bad_access
                      | Some params \<Rightarrow> arrow_rest ps pa False params (advance p))
                else ret inner p))"

definition spread_or_assignment :: "ast parser \<Rightarrow> ast parser" where
  "spread_or_assignment pa p =
     (if check (Punct TOK_SPREAD) p then andthen (pa (advance p)) (\<lambda>e p. ret (AST_SPREAD e) p)
      else pa p)"

text \<open>A comma-separated list up to a closing token, which is then consumed.\<close>

definition list_step ::
  "'a parser \<Rightarrow> TokenType \<Rightarrow> 'a list \<times> Parser \<Rightarrow> fault + ('a list \<times> Parser + 'a list \<times> Parser)" where
  "list_step item close = (\<lambda>(xs, p).
     if check close p \<or> check TOK_EOF p then leave xs p
     else andthen (item p) (\<lambda>x p.
            if check (Punct TOK_COMMA) p then again (xs @ [x]) (advance p) else leave (xs @ [x]) p))"

definition comma_list :: "nat \<Rightarrow> 'a parser \<Rightarrow> TokenType \<Rightarrow> 'a list parser" where
  "comma_list n item close p =
     andthen (loop n (list_step item close) ([], p)) (\<lambda>xs p. ret xs (consume close p))"

definition array_element :: "ast parser \<Rightarrow> ast parser" where
  "array_element pa p =
     (if check (Punct TOK_COMMA) p then ret AST_NULL p else spread_or_assignment pa p)"

definition array_literal :: "nat \<Rightarrow> ast parser \<Rightarrow> ast parser" where
  "array_literal n pa p =
     andthen (comma_list n (array_element pa) (Punct TOK_RBRACKET) p) (\<lambda>es p. ret (AST_ARRAY es) p)"

definition parse_arguments :: "nat \<Rightarrow> ast parser \<Rightarrow> ast list parser" where
  "parse_arguments n pa p = comma_list n (spread_or_assignment pa) (Punct TOK_RPAREN) p"

text \<open>
  A leading \<open>get\<close> or \<open>set\<close> that no parenthesis follows at once: the property name if it stands alone,
  else the accessor flag.
\<close>

definition accessor_prefix :: "Parser \<Rightarrow> string option \<times> nat \<times> Parser" where
  "accessor_prefix p =
     (if (check (Keyword TOK_GET) p \<or> check (Keyword TOK_SET) p) \<and>
         at (source (lexer p)) (cursor (lexer p)) \<noteq> CHR ''(''
      then let is_get = check (Keyword TOK_GET) p; p = advance p
           in if check (Punct TOK_LPAREN) p \<or> check (Punct TOK_COMMA) p \<or> check (Punct TOK_RBRACE) p \<or>
                 check (Punct TOK_ASSIGN) p
              then (Some (if is_get then ''get'' else ''set''), 0, p)
              else (None, if is_get then 4 else 8, p)
      else (None, 0, p))"

definition property_key :: "string option \<Rightarrow> Parser \<Rightarrow> string \<times> Parser" where
  "property_key key p =
     (case key of
        Some k \<Rightarrow> (k, p)
      | None \<Rightarrow> if property_name p then (prev_text (advance p), advance p)
                 else (''__unknown__'', advance p))"

definition named_property :: "nat \<Rightarrow> ast parser \<Rightarrow> ast parser \<Rightarrow> ASTProperty parser" where
  "named_property n ps pa p =
     (let (key, flags, p) = accessor_prefix p; (key, p) = property_key key p
      in if flags \<noteq> 0
         then andthen (if flags = 8 then parse_param_list n pa (consume (Punct TOK_LPAREN) p)
                       else ret [] (consume (Punct TOK_LPAREN) p)) (\<lambda>params p.
              andthen (ps (consume (Punct TOK_RPAREN) p)) (\<lambda>body p.
                ret (Property (Some key) AST_NULL
                       (AST_FUNCTION None (Some key) params body False False False False) flags) p))
         else if check (Punct TOK_COLON) p
         then andthen (pa (advance p)) (\<lambda>v p. ret (Property (Some key) AST_NULL v 0) p)
         else if check (Punct TOK_LPAREN) p
         then andthen (function_rest n ps pa p) (\<lambda>(params, body) p.
                ret (Property (Some key) AST_NULL
                       (AST_FUNCTION None (Some key) params body False False False False) 2) p)
         else ret (Property (Some key) AST_NULL (AST_IDENTIFIER key) 2) p)"

definition parse_property :: "nat \<Rightarrow> ast parser \<Rightarrow> ast parser \<Rightarrow> ASTProperty parser" where
  "parse_property n ps pa p =
     (if check (Punct TOK_SPREAD) p
      then andthen (pa (advance p)) (\<lambda>v p. ret (Property None AST_NULL v 16) p)
      else if check (Punct TOK_LBRACKET) p
      then andthen (pa (advance p)) (\<lambda>k p.
           andthen (pa (consume (Punct TOK_COLON) (consume (Punct TOK_RBRACKET) p))) (\<lambda>v p.
             ret (Property None k v 1) p))
      else named_property n ps pa p)"

definition object_literal :: "nat \<Rightarrow> ast parser \<Rightarrow> ast parser \<Rightarrow> ast parser" where
  "object_literal n ps pa p =
     andthen (comma_list n (parse_property n ps pa) (Punct TOK_RBRACE) p) (\<lambda>props p.
       ret (AST_OBJECT props) p)"

definition async_expression :: "nat \<Rightarrow> ast parser \<Rightarrow> ast parser \<Rightarrow> ast parser" where
  "async_expression n ps pa p =
     (if check (Keyword TOK_FUNCTION) p then function_expression n ps pa True (advance p)
      else if check (Punct TOK_LPAREN) p
      then andthen (parse_param_list n pa (advance p)) (\<lambda>params p.
             arrow_rest ps pa True params (consume (Punct TOK_ARROW) (consume (Punct TOK_RPAREN) p)))
      else if check TOK_IDENTIFIER p
      then arrow_rest ps pa True [Param (Some (cur_text p)) AST_NULL False]
             (consume (Punct TOK_ARROW) (advance p))
      else ret (AST_IDENTIFIER ''async'') p)"

section \<open>Classes\<close>

text \<open>
  The two class parsers of the source differ in one place: the name of a method is any token in a
  class declaration (\<open>any_name\<close>), a property name or nothing in a class expression.
\<close>

definition method_prefix :: "Parser \<Rightarrow> string option \<times> bool \<times> bool \<times> Parser" where
  "method_prefix p =
     (if check (Keyword TOK_GET) p \<or> check (Keyword TOK_SET) p
      then let is_get = check (Keyword TOK_GET) p; word = cur_text p; p = advance p
           in if check (Punct TOK_LPAREN) p then (Some word, False, False, p) else (None, is_get, \<not> is_get, p)
      else (None, False, False, p))"

definition method_name :: "bool \<Rightarrow> ast parser \<Rightarrow> string option \<Rightarrow> (string option \<times> ast \<times> bool) parser" where
  "method_name any_name pa name p =
     (if name \<noteq> None then ret (name, AST_NULL, False) p
      else if check (Punct TOK_LBRACKET) p
      then andthen (pa (advance p)) (\<lambda>e p. ret (None, e, True) (consume (Punct TOK_RBRACKET) p))
      else if any_name \<or> property_name p then ret (Some (cur_text p), AST_NULL, False) (advance p)
      else ret (None, AST_NULL, False) p)"

definition method_step ::
  "nat \<Rightarrow> bool \<Rightarrow> ast parser \<Rightarrow> ast parser \<Rightarrow> ASTClassMethod list \<times> Parser
     \<Rightarrow> fault + (ASTClassMethod list \<times> Parser + ASTClassMethod list \<times> Parser)" where
  "method_step n any_name ps pa = (\<lambda>(ms, p).
     if check (Punct TOK_RBRACE) p \<or> check TOK_EOF p then leave ms p
     else if check (Punct TOK_SEMICOLON) p then again ms (advance p)
     else
       let is_static = check (Keyword TOK_STATIC) p; p = match (Keyword TOK_STATIC) p;
           is_async = check (Keyword TOK_ASYNC) p; p = match (Keyword TOK_ASYNC) p;
           is_gen = check (Punct TOK_STAR) p; p = match (Punct TOK_STAR) p;
           (name, is_getter, is_setter, p) = method_prefix p
       in andthen (method_name any_name pa name p) (\<lambda>(name, name_expr, is_computed) p.
          andthen (function_rest n ps pa p) (\<lambda>(params, body) p.
            again (ms @ [ClassMethod name name_expr is_computed is_static is_getter is_setter is_async is_gen
              (AST_FUNCTION None name params body is_async is_gen False False)]) p)))"

definition parse_class :: "nat \<Rightarrow> bool \<Rightarrow> ast parser \<Rightarrow> ast parser \<Rightarrow> ast parser" where
  "parse_class n any_name ps pa p =
     (let name = (if check TOK_IDENTIFIER p then Some (cur_text p) else None); p = match TOK_IDENTIFIER p
      in andthen (if check (Keyword TOK_EXTENDS) p then pa (advance p) else ret AST_NULL p) (\<lambda>superclass p.
         andthen (loop n (method_step n any_name ps pa) ([], consume (Punct TOK_LBRACE) p)) (\<lambda>methods p.
           ret (AST_CLASS name superclass methods) (consume (Punct TOK_RBRACE) p))))"

definition yield_expression :: "ast parser \<Rightarrow> ast parser" where
  "yield_expression pa p =
     (let is_delegate = check (Punct TOK_STAR) p; p = match (Punct TOK_STAR) p
      in if check (Punct TOK_SEMICOLON) p \<or> check (Punct TOK_RBRACE) p \<or> check TOK_EOF p \<or>
            check (Punct TOK_RPAREN) p \<or> check (Punct TOK_RBRACKET) p \<or> check (Punct TOK_COMMA) p
         then ret (AST_YIELD AST_NULL is_delegate) p
         else andthen (pa p) (\<lambda>e p. ret (AST_YIELD e is_delegate) p))"

definition parse_primary :: "nat \<Rightarrow> ast parser \<Rightarrow> ast parser \<Rightarrow> ast parser \<Rightarrow> ast parser" where
  "parse_primary n ps pe pa p =
     (let q = advance p
      in case tok_type (current p) of
           TOK_NUMBER \<Rightarrow> ret (AST_LITERAL_NUMBER (number_value (current p))) q
         | TOK_STRING \<Rightarrow> ret (AST_LITERAL_STRING (prev_string q)) q
         | TOK_REGEX \<Rightarrow> regex_literal q
         | TOK_TEMPLATE_HEAD \<Rightarrow> template_literal n pe q
         | TOK_TEMPLATE_TAIL \<Rightarrow> template_literal n pe q
         | TOK_IDENTIFIER \<Rightarrow> identifier_or_arrow ps pa p
         | Keyword k \<Rightarrow>
             if k = TOK_TRUE then ret (AST_LITERAL_BOOL True) q
             else if k = TOK_FALSE then ret (AST_LITERAL_BOOL False) q
             else if k = TOK_NULL then ret AST_LITERAL_NULL q
             else if k = TOK_UNDEFINED then ret AST_LITERAL_UNDEFINED q
             else if k = TOK_SUPER then ret (AST_IDENTIFIER ''super'') q
             else if k = TOK_ASYNC then async_expression n ps pa q
             else if k = TOK_FUNCTION then function_expression n ps pa False q
             else if k = TOK_CLASS then parse_class n False ps pa q
             else if k = TOK_YIELD then yield_expression pa q
             else ret AST_NULL (q\<lparr>has_error := True\<rparr>)
         | Punct t \<Rightarrow>
             if t = TOK_LPAREN then group_or_arrow ps pe pa q
             else if t = TOK_LBRACKET then array_literal n pa q
             else if t = TOK_LBRACE then object_literal n ps pa q
             else if t = TOK_SPREAD then andthen (pa q) (\<lambda>e p. ret (AST_SPREAD e) p)
             else ret AST_NULL (q\<lparr>has_error := True\<rparr>)
         | _ \<Rightarrow> ret AST_NULL (q\<lparr>has_error := True\<rparr>))"

section \<open>Calls, operators and assignments\<close>

text \<open>A property name behind a dot; a token that is none is not consumed.\<close>

definition member_string :: "Parser \<Rightarrow> ast \<times> Parser" where
  "member_string p =
     (let p = (if member_name p then advance p else p) in (AST_LITERAL_STRING (prev_text p), p))"

definition new_chain_step :: "ast \<times> Parser \<Rightarrow> fault + (ast \<times> Parser + ast \<times> Parser)" where
  "new_chain_step = (\<lambda>(callee, p).
     if check (Punct TOK_DOT) p
     then let (prop, p) = member_string (advance p) in again (AST_PROP_ACCESS callee prop False) p
     else leave callee p)"

definition new_expression :: "nat \<Rightarrow> ast parser \<Rightarrow> ast parser \<Rightarrow> ast parser" where
  "new_expression n primary pa p =
     andthen (primary p) (\<lambda>callee p.
     andthen (loop n new_chain_step (callee, p)) (\<lambda>callee p.
       if check (Punct TOK_LPAREN) p
       then andthen (parse_arguments n pa (advance p)) (\<lambda>args p. ret (AST_NEW_CALL callee args) p)
       else ret (AST_NEW_CALL callee []) p))"

definition optional_chain :: "nat \<Rightarrow> ast parser \<Rightarrow> ast parser \<Rightarrow> ast \<Rightarrow> ast parser" where
  "optional_chain n pe pa e p =
     (if check (Punct TOK_LBRACKET) p
      then andthen (pe (advance p)) (\<lambda>prop p.
             ret (AST_OPTIONAL_CHAIN e prop True True) (consume (Punct TOK_RBRACKET) p))
      else if check (Punct TOK_LPAREN) p
      then andthen (parse_arguments n pa (advance p)) (\<lambda>args p.
             ret (AST_OPTIONAL_CHAIN (AST_CALL e args) AST_NULL False False) p)
      else let (prop, p) = member_string p in ret (AST_OPTIONAL_CHAIN e prop False True) p)"

definition call_step :: "nat \<Rightarrow> ast parser \<Rightarrow> ast parser \<Rightarrow> ast \<times> Parser \<Rightarrow> fault + (ast \<times> Parser + ast \<times> Parser)" where
  "call_step n pe pa = (\<lambda>(e, p).
     if check (Punct TOK_LPAREN) p
     then andthen (parse_arguments n pa (advance p)) (\<lambda>args p. again (AST_CALL e args) p)
     else if check (Punct TOK_DOT) p
     then let q = advance p; (prop, r) = member_string q
          in again (AST_PROP_ACCESS e prop False) (if member_name q then r else r\<lparr>has_error := True\<rparr>)
     else if check (Punct TOK_OPTIONAL_CHAIN) p
     then andthen (optional_chain n pe pa e (advance p)) (\<lambda>e p. again e p)
     else if check (Punct TOK_LBRACKET) p
     then andthen (pe (advance p)) (\<lambda>prop p. again (AST_PROP_ACCESS e prop True) (consume (Punct TOK_RBRACKET) p))
     else leave e p)"

definition parse_call_or_prop :: "nat \<Rightarrow> ast parser \<Rightarrow> ast parser \<Rightarrow> ast parser \<Rightarrow> ast parser" where
  "parse_call_or_prop n ps pe pa p =
     (if check (Keyword TOK_NEW) p then new_expression n (parse_primary n ps pe pa) pa (advance p)
      else andthen (parse_primary n ps pe pa p) (\<lambda>e p. loop n (call_step n pe pa) (e, p)))"

definition parse_postfix :: "nat \<Rightarrow> ast parser \<Rightarrow> ast parser \<Rightarrow> ast parser \<Rightarrow> ast parser" where
  "parse_postfix n ps pe pa p =
     andthen (parse_call_or_prop n ps pe pa p) (\<lambda>e p.
       if check (Punct TOK_PLUSPLUS) p \<or> check (Punct TOK_MINUSMINUS) p
       then ret (AST_POSTFIX (tok_type (current p)) e) (advance p) else ret e p)"

definition unary_ops :: "TokenType list" where
  "unary_ops =
     [Punct TOK_PLUSPLUS, Punct TOK_MINUSMINUS, Punct TOK_MINUS, Punct TOK_NOT, Punct TOK_TILDE,
      Keyword TOK_TYPEOF, Keyword TOK_VOID, Keyword TOK_DELETE]"

definition unary_rule :: "ast parser \<Rightarrow> ast parser \<Rightarrow> ast parser" where
  "unary_rule pu postfix p =
     (if tok_type (current p) \<in> set unary_ops
      then andthen (pu (advance p)) (\<lambda>e q. ret (AST_UNARY (tok_type (current p)) e) q)
      else if check (Keyword TOK_AWAIT) p then andthen (pu (advance p)) (\<lambda>e p. ret (AST_AWAIT e) p)
      else postfix p)"

definition exponent_rule :: "ast parser \<Rightarrow> ast parser \<Rightarrow> ast parser" where
  "exponent_rule pu px p =
     andthen (pu p) (\<lambda>e p.
       if check (Punct TOK_STARSTAR) p
       then andthen (px (advance p)) (\<lambda>r p. ret (AST_BINARY (Punct TOK_STARSTAR) e r) p)
       else ret e p)"

text \<open>A level of left-associative binary operators.\<close>

definition binary_step ::
  "TokenType list \<Rightarrow> ast parser \<Rightarrow> ast \<times> Parser \<Rightarrow> fault + (ast \<times> Parser + ast \<times> Parser)" where
  "binary_step ops sub = (\<lambda>(e, p).
     if tok_type (current p) \<in> set ops
     then andthen (sub (advance p)) (\<lambda>r q. again (AST_BINARY (tok_type (current p)) e r) q)
     else leave e p)"

definition binary_level :: "nat \<Rightarrow> TokenType list \<Rightarrow> ast parser \<Rightarrow> ast parser" where
  "binary_level n ops sub p = andthen (sub p) (\<lambda>e p. loop n (binary_step ops sub) (e, p))"

definition mul_ops :: "TokenType list" where "mul_ops = [Punct TOK_STAR, Punct TOK_SLASH, Punct TOK_PERCENT]"
definition add_ops :: "TokenType list" where "add_ops = [Punct TOK_PLUS, Punct TOK_MINUS]"
definition shift_ops :: "TokenType list" where "shift_ops = [Punct TOK_SHL, Punct TOK_SHR, Punct TOK_USHR]"
definition rel_ops :: "TokenType list" where
  "rel_ops = [Punct TOK_LT, Punct TOK_LE, Punct TOK_GT, Punct TOK_GE, Keyword TOK_IN, Keyword TOK_INSTANCEOF]"
definition eq_ops :: "TokenType list" where
  "eq_ops = [Punct TOK_EQ, Punct TOK_NE, Punct TOK_EQ_LOOSE, Punct TOK_NE_LOOSE]"

definition parse_multiplicative :: "nat \<Rightarrow> ast parser \<Rightarrow> ast parser" where
  "parse_multiplicative n px = binary_level n mul_ops px"
definition parse_additive :: "nat \<Rightarrow> ast parser \<Rightarrow> ast parser" where
  "parse_additive n px = binary_level n add_ops (parse_multiplicative n px)"
definition parse_shift :: "nat \<Rightarrow> ast parser \<Rightarrow> ast parser" where
  "parse_shift n px = binary_level n shift_ops (parse_additive n px)"
definition parse_relational :: "nat \<Rightarrow> ast parser \<Rightarrow> ast parser" where
  "parse_relational n px = binary_level n rel_ops (parse_shift n px)"
definition parse_equality :: "nat \<Rightarrow> ast parser \<Rightarrow> ast parser" where
  "parse_equality n px = binary_level n eq_ops (parse_relational n px)"
definition parse_bitwise_and :: "nat \<Rightarrow> ast parser \<Rightarrow> ast parser" where
  "parse_bitwise_and n px = binary_level n [Punct TOK_AMPERSAND] (parse_equality n px)"
definition parse_bitwise_xor :: "nat \<Rightarrow> ast parser \<Rightarrow> ast parser" where
  "parse_bitwise_xor n px = binary_level n [Punct TOK_CARET] (parse_bitwise_and n px)"
definition parse_bitwise_or :: "nat \<Rightarrow> ast parser \<Rightarrow> ast parser" where
  "parse_bitwise_or n px = binary_level n [Punct TOK_PIPE] (parse_bitwise_xor n px)"
definition parse_logical_and :: "nat \<Rightarrow> ast parser \<Rightarrow> ast parser" where
  "parse_logical_and n px = binary_level n [Punct TOK_AND] (parse_bitwise_or n px)"
definition parse_logical_or :: "nat \<Rightarrow> ast parser \<Rightarrow> ast parser" where
  "parse_logical_or n px = binary_level n [Punct TOK_OR, Punct TOK_NULLISH] (parse_logical_and n px)"

definition ternary_rule :: "ast parser \<Rightarrow> ast parser \<Rightarrow> ast parser \<Rightarrow> ast parser" where
  "ternary_rule por pt pa p =
     andthen (por p) (\<lambda>c p.
       if check (Punct TOK_QUESTION) p
       then andthen (pa (advance p)) (\<lambda>t p.
            andthen (pt (consume (Punct TOK_COLON) p)) (\<lambda>e p. ret (AST_TERNARY c t e) p))
       else ret c p)"

definition compound_assign :: "TokenType list" where
  "compound_assign = map Punct
     [TOK_PLUS_ASSIGN, TOK_MINUS_ASSIGN, TOK_STAR_ASSIGN, TOK_SLASH_ASSIGN, TOK_PERCENT_ASSIGN,
      TOK_STARSTAR_ASSIGN, TOK_AND_ASSIGN, TOK_OR_ASSIGN, TOK_NULLISH_ASSIGN, TOK_BITAND_ASSIGN,
      TOK_BITOR_ASSIGN, TOK_BITXOR_ASSIGN, TOK_SHL_ASSIGN, TOK_SHR_ASSIGN, TOK_USHR_ASSIGN]"

definition is_compound_assign :: "TokenType \<Rightarrow> bool" where
  "is_compound_assign t \<longleftrightarrow> t \<in> set compound_assign"

definition assignment_rule :: "ast parser \<Rightarrow> ast parser \<Rightarrow> ast parser" where
  "assignment_rule pt pa p =
     andthen (pt p) (\<lambda>e p.
       if check (Punct TOK_ASSIGN) p
       then andthen (pa (advance p)) (\<lambda>v p. ret (AST_ASSIGN e v None) p)
       else if is_compound_assign (tok_type (current p))
       then andthen (pa (advance p)) (\<lambda>v q. ret (AST_ASSIGN e v (Some (tok_type (current p)))) q)
       else ret e p)"

definition sequence_step :: "ast parser \<Rightarrow> ast list \<times> Parser \<Rightarrow> fault + (ast list \<times> Parser + ast list \<times> Parser)" where
  "sequence_step pa = (\<lambda>(es, p).
     if check (Punct TOK_COMMA) p then andthen (pa (advance p)) (\<lambda>e p. again (es @ [e]) p) else leave es p)"

definition expr_rule :: "nat \<Rightarrow> ast parser \<Rightarrow> ast parser" where
  "expr_rule n pa p =
     andthen (pa p) (\<lambda>e p.
       if check (Punct TOK_COMMA) p
       then andthen (loop n (sequence_step pa) ([e], p)) (\<lambda>es p. ret (AST_SEQUENCE es) p)
       else ret e p)"

section \<open>Statements\<close>

text \<open>One entry of an import list: the local and the exported name.\<close>

definition import_step ::
  "(string \<times> string) list \<times> Parser
     \<Rightarrow> fault + ((string \<times> string) list \<times> Parser + (string \<times> string) list \<times> Parser)" where
  "import_step = (\<lambda>(names, p).
     let p = consume TOK_IDENTIFIER p; ename = prev_text p;
         (lname, p) = (if check (Keyword TOK_AS) p
                       then let p = consume TOK_IDENTIFIER (advance p) in (prev_text p, p) else (ename, p));
         names = names @ [(lname, ename)]
     in if check (Punct TOK_COMMA) p then again names (advance p) else leave names p)"

text \<open>The names an import binds: the default or namespace name, and the list in braces.\<close>

definition import_clause :: "nat \<Rightarrow> (string option \<times> (string \<times> string) list) parser" where
  "import_clause n p =
     (if check (Punct TOK_STAR) p
      then let p = consume TOK_IDENTIFIER (consume (Keyword TOK_AS) (advance p))
           in ret (Some (prev_text p), []) p
      else
        let dflt = (if check TOK_IDENTIFIER p then Some (cur_text p) else None);
            p = (if check TOK_IDENTIFIER p
                 then let p = advance p
                      in if check (Punct TOK_COMMA) p then consume (Punct TOK_LBRACE) (advance p) else p
                 else if check (Punct TOK_LBRACE) p then advance p
                 else p\<lparr>has_error := True\<rparr>)
        in if tok_type (previous p) \<noteq> Punct TOK_LBRACE then ret (dflt, []) p
           else andthen (if check (Punct TOK_RBRACE) p then ret [] p else loop n import_step ([], p)) (\<lambda>names p.
                  ret (dflt, names) (consume (Punct TOK_RBRACE) p)))"

definition import_attributes :: "Parser \<Rightarrow> bool \<times> Parser" where
  "import_attributes p =
     (if check (Keyword TOK_WITH) p
      then let p = consume TOK_STRING (consume (Punct TOK_COLON) (consume TOK_IDENTIFIER
                     (consume (Punct TOK_LBRACE) (advance p))))
           in (prev_text p = ''json'', consume (Punct TOK_RBRACE) p)
      else (False, p))"

definition const_decl :: "string \<Rightarrow> ast \<Rightarrow> ast" where
  "const_decl name init = AST_VAR_DECL (Some name) init True False False [] False"

definition tmp_member :: "string \<Rightarrow> ast" where
  "tmp_member name = AST_PROP_ACCESS (AST_IDENTIFIER ''__tmp'') (AST_LITERAL_STRING name) False"

definition import_block :: "string \<Rightarrow> string option \<Rightarrow> (string \<times> string) list \<Rightarrow> ast" where
  "import_block path dflt names =
     AST_BLOCK None
       (const_decl ''__tmp'' (AST_AWAIT (AST_CALL (AST_IDENTIFIER ''require'') [AST_LITERAL_STRING path])) #
        (case dflt of Some d \<Rightarrow> [const_decl d (tmp_member ''default'')] | None \<Rightarrow> []) @
        map (\<lambda>(l, e). const_decl l (tmp_member e)) names) True"

definition json_import :: "string \<Rightarrow> string option \<Rightarrow> ast" where
  "json_import path dflt =
     const_decl (case dflt of Some d \<Rightarrow> d | None \<Rightarrow> ''__unused_json'')
       (AST_CALL (AST_IDENTIFIER ''import_module'') [AST_LITERAL_STRING path, AST_LITERAL_STRING ''json''])"

definition import_statement :: "nat \<Rightarrow> ast parser" where
  "import_statement n p =
     andthen (import_clause n p) (\<lambda>(dflt, names) p.
       let p = consume TOK_STRING (consume (Keyword TOK_FROM) p); path = c_str (prev_string p);
           (is_json, p) = import_attributes p
       in ret (if is_json then json_import path dflt else import_block path dflt names)
            (match (Punct TOK_SEMICOLON) p))"

text \<open>\<open>exports.name = value;\<close>\<close>

definition export_assign :: "string \<Rightarrow> ast \<Rightarrow> ast" where
  "export_assign name v =
     AST_EXPR_STMT (AST_ASSIGN (AST_PROP_ACCESS (AST_IDENTIFIER ''exports'') (AST_LITERAL_STRING name) False) v None)"

definition export_step :: "ast list \<times> Parser \<Rightarrow> fault + (ast list \<times> Parser + ast list \<times> Parser)" where
  "export_step = (\<lambda>(stmts, p).
     let p = consume TOK_IDENTIFIER p; lname = prev_text p;
         (ename, p) = (if check (Keyword TOK_AS) p
                       then let p = consume TOK_IDENTIFIER (advance p) in (prev_text p, p) else (lname, p));
         stmts = stmts @ [export_assign ename (AST_IDENTIFIER lname)]
     in if check (Punct TOK_COMMA) p then again stmts (advance p) else leave stmts p)"

definition export_from :: "Parser \<Rightarrow> Parser" where
  "export_from p = match (Punct TOK_SEMICOLON) (match TOK_STRING (match (Keyword TOK_FROM) p))"

definition declared_name :: "ast \<Rightarrow> string option" where
  "declared_name d =
     (case d of
        AST_VAR_DECL name _ _ _ _ _ _ \<Rightarrow> name
      | AST_FUNCTION _ name _ _ _ _ _ _ \<Rightarrow> name
      | AST_CLASS name _ _ \<Rightarrow> name
      | _ \<Rightarrow> None)"

definition export_statement :: "nat \<Rightarrow> ast parser \<Rightarrow> ast parser \<Rightarrow> ast parser" where
  "export_statement n ps pe p =
     (if check (Keyword TOK_DEFAULT) p
      then andthen (pe (advance p)) (\<lambda>e p. ret (export_assign ''default'' e) (match (Punct TOK_SEMICOLON) p))
      else if check (Punct TOK_STAR) p then ret AST_EMPTY (export_from (advance p))
      else if check (Punct TOK_LBRACE) p
      then let p = advance p
           in andthen (if check (Punct TOK_RBRACE) p then ret [] p else loop n export_step ([], p)) (\<lambda>stmts p.
                ret (AST_BLOCK None stmts True) (export_from (consume (Punct TOK_RBRACE) p)))
      else andthen (ps p) (\<lambda>decl p.
             if decl = AST_NULL then Inl Bad_access
             else ret (AST_BLOCK None (decl # (case declared_name decl of
                     Some x \<Rightarrow> [export_assign x (AST_IDENTIFIER x)] | None \<Rightarrow> [])) True) p))"

text \<open>Statements up to a token that ends the list.\<close>

definition statements_step ::
  "ast parser \<Rightarrow> ast list \<times> Parser \<Rightarrow> fault + (ast list \<times> Parser + ast list \<times> Parser)" where
  "statements_step ps = (\<lambda>(stmts, p).
     if check (Punct TOK_RBRACE) p \<or> check TOK_EOF p then leave stmts p
     else andthen (ps p) (\<lambda>st p. again (stmts @ [st]) p))"

definition block_statement :: "nat \<Rightarrow> ast parser \<Rightarrow> ast parser" where
  "block_statement n ps p =
     andthen (loop n (statements_step ps) ([], p)) (\<lambda>stmts p.
       ret (AST_BLOCK None stmts False) (consume (Punct TOK_RBRACE) p))"

definition try_statement :: "ast parser \<Rightarrow> ast parser" where
  "try_statement ps p =
     andthen (ps p) (\<lambda>try_block p.
     andthen (if check (Keyword TOK_CATCH) p
              then let p = advance p;
                       (param, p) = (if check (Punct TOK_LPAREN) p
                                     then let p = consume TOK_IDENTIFIER (advance p)
                                          in (Some (prev_text p), consume (Punct TOK_RPAREN) p)
                                     else (None, p))
                   in andthen (ps p) (\<lambda>b p. ret (param, b) p)
              else ret (None, AST_NULL) p) (\<lambda>(param, catch_block) p.
     andthen (if check (Keyword TOK_FINALLY) p then ps (advance p) else ret AST_NULL p) (\<lambda>finally_block p.
       ret (AST_TRY try_block param catch_block finally_block) p)))"

definition binding_step ::
  "ast parser \<Rightarrow> bool \<Rightarrow> ASTBindingElem list \<times> Parser
     \<Rightarrow> fault + (ASTBindingElem list \<times> Parser + ASTBindingElem list \<times> Parser)" where
  "binding_step pa is_arr = (\<lambda>(bs, p).
     if check (Punct (if is_arr then TOK_RBRACKET else TOK_RBRACE)) p \<or> check TOK_EOF p then leave bs p
     else if check (Punct TOK_COMMA) p \<and> is_arr
     then again (bs @ [Binding None AST_NULL None False]) (advance p)
     else if check (Punct TOK_SPREAD) p
     then let p = consume TOK_IDENTIFIER (advance p)
          in leave (bs @ [Binding (Some (prev_text p)) AST_NULL None True]) p
     else
       let p = consume TOK_IDENTIFIER p; word = prev_text p;
           (name, key, p) =
             (if is_arr then (word, None, p)
              else if check (Punct TOK_COLON) p
              then let p = consume TOK_IDENTIFIER (advance p) in (prev_text p, Some word, p)
              else (word, Some word, p))
       in andthen (if check (Punct TOK_ASSIGN) p then pa (advance p) else ret AST_NULL p) (\<lambda>d p.
            let bs = bs @ [Binding (Some name) d key False]
            in if check (Punct TOK_COMMA) p then again bs (advance p) else leave bs p))"

text \<open>What a declaration binds: the pattern kind, the bindings, or the single name.\<close>

definition binding_target :: "nat \<Rightarrow> ast parser \<Rightarrow> (bool \<times> ASTBindingElem list \<times> string option) parser" where
  "binding_target n pa p =
     (if check (Punct TOK_LBRACE) p \<or> check (Punct TOK_LBRACKET) p
      then let is_arr = check (Punct TOK_LBRACKET) p
           in andthen (loop n (binding_step pa is_arr) ([], advance p)) (\<lambda>bs p.
                ret (is_arr, bs, None) (consume (Punct (if is_arr then TOK_RBRACKET else TOK_RBRACE)) p))
      else let p = consume TOK_IDENTIFIER p in ret (False, [], Some (prev_text p)) p)"

definition var_declaration :: "nat \<Rightarrow> ast parser \<Rightarrow> ast parser \<Rightarrow> bool \<Rightarrow> ast parser" where
  "var_declaration n pe pa is_await_using p =
     (let is_const = tok_type (previous p) = Keyword TOK_CONST;
          is_using = (tok_type (previous p) = Keyword TOK_USING \<or> is_await_using)
      in andthen (binding_target n pa p) (\<lambda>(is_arr, bs, name) p.
         andthen (if check (Punct TOK_ASSIGN) p then pe (advance p) else ret AST_NULL p) (\<lambda>init p.
           ret (AST_VAR_DECL name init is_const is_using is_await_using bs is_arr)
             (match (Punct TOK_SEMICOLON) p))))"

definition parenthesised :: "ast parser \<Rightarrow> ast parser" where
  "parenthesised pe p =
     andthen (pe (consume (Punct TOK_LPAREN) p)) (\<lambda>e p. ret e (consume (Punct TOK_RPAREN) p))"

definition if_statement :: "ast parser \<Rightarrow> ast parser \<Rightarrow> ast parser" where
  "if_statement ps pe p =
     andthen (parenthesised pe p) (\<lambda>c p.
     andthen (ps p) (\<lambda>t p.
     andthen (if check (Keyword TOK_ELSE) p then ps (advance p) else ret AST_NULL p) (\<lambda>e p.
       ret (AST_IF c t e) p)))"

definition while_statement :: "ast parser \<Rightarrow> ast parser \<Rightarrow> ast parser" where
  "while_statement ps pe p =
     andthen (parenthesised pe p) (\<lambda>c p. andthen (ps p) (\<lambda>b p. ret (AST_WHILE c b) p))"

definition do_statement :: "ast parser \<Rightarrow> ast parser \<Rightarrow> ast parser" where
  "do_statement ps pe p =
     andthen (ps p) (\<lambda>b p.
     andthen (parenthesised pe (consume (Keyword TOK_WHILE) p)) (\<lambda>c p.
       ret (AST_DO_WHILE c b) (match (Punct TOK_SEMICOLON) p)))"

definition has_decl :: "Parser \<Rightarrow> bool" where
  "has_decl p \<longleftrightarrow> check (Keyword TOK_LET) p \<or> check (Keyword TOK_CONST) p \<or> check (Keyword TOK_VAR) p"

text \<open>
  \<open>for (decl of e)\<close> and \<open>for (decl in e)\<close>. The source reads \<open>is_const\<close> of a plain declaration after it has
  freed the node; the model has the value before.
\<close>

definition for_each :: "ast parser \<Rightarrow> ast parser \<Rightarrow> bool \<Rightarrow> ast \<Rightarrow> ast parser" where
  "for_each ps pe is_await decl p =
     (let is_of = check (Keyword TOK_OF) p;
          (name, node, is_const) =
            (case decl of
               AST_VAR_DECL name _ is_const _ _ bs is_arr \<Rightarrow>
                 if \<not> is_arr \<and> bs = [] \<and> name \<noteq> None then (name, AST_NULL, is_const) else (None, decl, is_const)
             | _ \<Rightarrow> (None, decl, False))
      in andthen (pe (advance p)) (\<lambda>e p.
         andthen (ps (consume (Punct TOK_RPAREN) p)) (\<lambda>body p.
           ret (if is_of then AST_FOR_OF None name node e body is_const is_await
                else AST_FOR_IN None name node e body is_const) p)))"

definition for_clause :: "ast parser \<Rightarrow> punctuator \<Rightarrow> ast parser" where
  "for_clause pe close p =
     (if check (Punct close) p then ret AST_NULL (advance p)
      else andthen (pe p) (\<lambda>e p. ret e (consume (Punct close) p)))"

definition c_style_for :: "ast parser \<Rightarrow> ast parser \<Rightarrow> ast parser" where
  "c_style_for ps pe p =
     andthen (if has_decl p then ps p else for_clause pe TOK_SEMICOLON p) (\<lambda>init p.
     andthen (for_clause pe TOK_SEMICOLON p) (\<lambda>cond p.
     andthen (for_clause pe TOK_RPAREN p) (\<lambda>update p.
     andthen (ps p) (\<lambda>body p. ret (AST_FOR None init cond update body) p))))"

definition for_statement :: "ast parser \<Rightarrow> ast parser \<Rightarrow> ast parser" where
  "for_statement ps pe p =
     (let is_await = check (Keyword TOK_AWAIT) p;
          p = consume (Punct TOK_LPAREN) (match (Keyword TOK_AWAIT) p)
      in if has_decl p
         then andthen (ps p) (\<lambda>decl q.
                if check (Keyword TOK_OF) q \<or> check (Keyword TOK_IN) q then for_each ps pe is_await decl q
                else c_style_for ps pe (p\<lparr>has_error := has_error q\<rparr>))
         else c_style_for ps pe p)"

definition ends_case :: "Parser \<Rightarrow> bool" where
  "ends_case p \<longleftrightarrow> check (Keyword TOK_CASE) p \<or> check (Keyword TOK_DEFAULT) p \<or>
     check (Punct TOK_RBRACE) p \<or> check TOK_EOF p"

text \<open>The body of a case also ends behind a statement whose last token is \<open>break\<close>.\<close>

definition case_body_step ::
  "ast parser \<Rightarrow> ast list \<times> Parser \<Rightarrow> fault + (ast list \<times> Parser + ast list \<times> Parser)" where
  "case_body_step ps = (\<lambda>(stmts, p).
     if ends_case p then leave stmts p
     else andthen (ps p) (\<lambda>st p.
            let stmts = (if st = AST_NULL then stmts else stmts @ [st])
            in if tok_type (previous p) = Keyword TOK_BREAK then leave stmts p else again stmts p))"

definition switch_step ::
  "nat \<Rightarrow> ast parser \<Rightarrow> ast parser \<Rightarrow> ASTSwitchCase list \<times> Parser
     \<Rightarrow> fault + (ASTSwitchCase list \<times> Parser + ASTSwitchCase list \<times> Parser)" where
  "switch_step n ps pe = (\<lambda>(cs, p).
     if check (Punct TOK_RBRACE) p \<or> check TOK_EOF p then leave cs p
     else if \<not> check (Keyword TOK_CASE) p \<and> \<not> check (Keyword TOK_DEFAULT) p then again cs (advance p)
     else
       andthen (if check (Keyword TOK_CASE) p then pe (advance p) else ret AST_NULL (advance p)) (\<lambda>test p.
       andthen (loop n (case_body_step ps) ([], consume (Punct TOK_COLON) p)) (\<lambda>stmts p.
         again (cs @ [SwitchCase test stmts]) p)))"

definition switch_statement :: "nat \<Rightarrow> ast parser \<Rightarrow> ast parser \<Rightarrow> ast parser" where
  "switch_statement n ps pe p =
     andthen (parenthesised pe p) (\<lambda>disc p.
     andthen (loop n (switch_step n ps pe) ([], consume (Punct TOK_LBRACE) p)) (\<lambda>cs p.
       ret (AST_SWITCH disc cs) (consume (Punct TOK_RBRACE) p)))"

definition jump_statement :: "(string option \<Rightarrow> ast) \<Rightarrow> ast parser" where
  "jump_statement node p =
     (if check TOK_IDENTIFIER p
      then ret (node (Some (cur_text p))) (match (Punct TOK_SEMICOLON) (advance p))
      else ret (node None) (match (Punct TOK_SEMICOLON) p))"

definition return_statement :: "ast parser \<Rightarrow> ast parser" where
  "return_statement pe p =
     andthen (if check (Punct TOK_SEMICOLON) p \<or> check (Punct TOK_RBRACE) p \<or> check TOK_EOF p
              then ret AST_NULL p else pe p) (\<lambda>e p.
       ret (AST_RETURN e) (match (Punct TOK_SEMICOLON) p))"

definition throw_statement :: "ast parser \<Rightarrow> ast parser" where
  "throw_statement pe p =
     andthen (pe p) (\<lambda>e p. ret (AST_THROW e) (match (Punct TOK_SEMICOLON) p))"

definition function_declaration :: "nat \<Rightarrow> ast parser \<Rightarrow> ast parser \<Rightarrow> bool \<Rightarrow> ast parser" where
  "function_declaration n ps pa is_async p =
     (let is_gen = check (Punct TOK_STAR) p; p = consume TOK_IDENTIFIER (match (Punct TOK_STAR) p);
          name = prev_text p
      in andthen (function_rest n ps pa p) (\<lambda>(params, body) p.
           ret (AST_FUNCTION None (Some name) params body is_async is_gen False False) p))"

definition async_statement :: "nat \<Rightarrow> ast parser \<Rightarrow> ast parser \<Rightarrow> ast parser" where
  "async_statement n ps pa p =
     (if check (Keyword TOK_FUNCTION) p then function_declaration n ps pa True (advance p)
      else andthen (pa p) (\<lambda>e p. ret (AST_EXPR_STMT e) (match (Punct TOK_SEMICOLON) p)))"

definition expression_statement :: "ast parser \<Rightarrow> ast parser" where
  "expression_statement pe p =
     andthen (pe p) (\<lambda>e p.
       if e = AST_NULL then ret AST_NULL p
       else ret (AST_EXPR_STMT e) (match (Punct TOK_SEMICOLON) p))"

text \<open>\<open>await using\<close>: the look-ahead is undone unless \<open>using\<close> follows, but an error it met stays noted.\<close>

definition await_statement :: "nat \<Rightarrow> ast parser \<Rightarrow> ast parser \<Rightarrow> ast parser" where
  "await_statement n pe pa p =
     (let q = advance p
      in if check (Keyword TOK_USING) q then var_declaration n pe pa True (advance q)
         else expression_statement pe (p\<lparr>has_error := has_error q\<rparr>))"

definition keyword_statement ::
  "nat \<Rightarrow> ast parser \<Rightarrow> ast parser \<Rightarrow> ast parser \<Rightarrow> keyword \<Rightarrow> ast parser" where
  "keyword_statement n ps pe pa k p =
     (let q = advance p
      in if k = TOK_DEBUGGER then ret AST_EMPTY (match (Punct TOK_SEMICOLON) q)
         else if k = TOK_IMPORT then import_statement n q
         else if k = TOK_EXPORT then export_statement n ps pe q
         else if k = TOK_TRY then try_statement ps q
         else if k = TOK_AWAIT then await_statement n pe pa p
         else if k = TOK_LET \<or> k = TOK_CONST \<or> k = TOK_VAR \<or> k = TOK_USING then var_declaration n pe pa False q
         else if k = TOK_IF then if_statement ps pe q
         else if k = TOK_WHILE then while_statement ps pe q
         else if k = TOK_DO then do_statement ps pe q
         else if k = TOK_FOR then for_statement ps pe q
         else if k = TOK_SWITCH then switch_statement n ps pe q
         else if k = TOK_BREAK then jump_statement AST_BREAK q
         else if k = TOK_CONTINUE then jump_statement AST_CONTINUE q
         else if k = TOK_RETURN then return_statement pe q
         else if k = TOK_THROW then throw_statement pe q
         else if k = TOK_CLASS then parse_class n True ps pa q
         else if k = TOK_ASYNC then async_statement n ps pa q
         else if k = TOK_FUNCTION then function_declaration n ps pa False q
         else expression_statement pe p)"

definition statement_rule :: "nat \<Rightarrow> ast parser \<Rightarrow> ast parser \<Rightarrow> ast parser \<Rightarrow> ast parser" where
  "statement_rule n ps pe pa p =
     (case tok_type (current p) of
        Keyword k \<Rightarrow> keyword_statement n ps pe pa k p
      | Punct t \<Rightarrow>
          if t = TOK_SEMICOLON then ret AST_EMPTY (advance p)
          else if t = TOK_LBRACE then block_statement n ps (advance p)
          else expression_statement pe p
      | _ \<Rightarrow> expression_statement pe p)"

section \<open>The recursive functions\<close>

fun parse_statement :: "nat \<Rightarrow> ast parser"
  and parse_expr :: "nat \<Rightarrow> ast parser"
  and parse_assignment :: "nat \<Rightarrow> ast parser"
  and parse_ternary :: "nat \<Rightarrow> ast parser"
  and parse_exponent :: "nat \<Rightarrow> ast parser"
  and parse_unary :: "nat \<Rightarrow> ast parser" where
  "parse_statement 0 p = Inl No_fuel"
| "parse_statement (Suc n) p =
     statement_rule n (parse_statement n) (parse_expr n) (parse_assignment n) p"
| "parse_expr 0 p = Inl No_fuel"
| "parse_expr (Suc n) p = expr_rule n (parse_assignment n) p"
| "parse_assignment 0 p = Inl No_fuel"
| "parse_assignment (Suc n) p = assignment_rule (parse_ternary n) (parse_assignment n) p"
| "parse_ternary 0 p = Inl No_fuel"
| "parse_ternary (Suc n) p =
     ternary_rule (parse_logical_or n (parse_exponent n)) (parse_ternary n) (parse_assignment n) p"
| "parse_exponent 0 p = Inl No_fuel"
| "parse_exponent (Suc n) p = exponent_rule (parse_unary n) (parse_exponent n) p"
| "parse_unary 0 p = Inl No_fuel"
| "parse_unary (Suc n) p =
     unary_rule (parse_unary n) (parse_postfix n (parse_statement n) (parse_expr n) (parse_assignment n)) p"

text \<open>The statement loop of \<open>compile_source\<close>.\<close>

definition program_step :: "nat \<Rightarrow> ast list \<times> Parser \<Rightarrow> fault + (ast list \<times> Parser + ast list \<times> Parser)" where
  "program_step n = (\<lambda>(stmts, p).
     if check TOK_EOF p then leave stmts p
     else andthen (parse_statement n p) (\<lambda>st p.
            if st = AST_NULL then again stmts (advance p) else again (stmts @ [st]) p))"

definition init_parser :: "string \<Rightarrow> Parser" where
  "init_parser src =
     (let tok = plain_token TOK_EOF 0 0
      in advance \<lparr>lexer = \<lparr>source = src, cursor = 0, last_was_value = False\<rparr>, current = tok,
                  previous = tok, has_error = False\<rparr>)"

definition parse_fuel :: "string \<Rightarrow> nat" where
  "parse_fuel src = 8 * length src + 16"

text \<open>The root node and whether an error was reported.\<close>

definition parse_source :: "string \<Rightarrow> fault + (ast \<times> bool)" where
  "parse_source src =
     (let n = parse_fuel src
      in case loop n (program_step n) ([], init_parser src) of
           Inl e \<Rightarrow> Inl e
         | Inr (stmts, p) \<Rightarrow> Inr (AST_BLOCK None stmts False, has_error p))"

end
