(* ===== verification/Parser_Laws.thy ===== *)
theory Parser_Laws
  imports Parser
begin

text \<open>
  The parser ends on every text. The measure of a parser state is the number of characters still to
  be scanned, plus one for the current token, and zero at the end of the text. Every rule of the
  grammar is shown to lower it, so the bound on recursion depth set by \<open>parse_source\<close> is never used up.
\<close>

section \<open>Progress\<close>

definition togo :: "Parser \<Rightarrow> nat" where
  "togo p = (if check TOK_EOF p then 0 else Suc (length (source (lexer p)) - cursor (lexer p)))"

text \<open>The text is a C string, and an end token means that the scanner stands at its end.\<close>

definition inv :: "Parser \<Rightarrow> bool" where
  "inv p \<longleftrightarrow> NUL \<notin> set (source (lexer p)) \<and>
     (check TOK_EOF p \<longrightarrow> length (source (lexer p)) \<le> cursor (lexer p))"

definition eats :: "Parser \<Rightarrow> Parser \<Rightarrow> bool" where
  "eats p q \<longleftrightarrow> inv q \<and> (togo q < togo p \<or> togo q = 0 \<and> togo p = 0)"

definition keeps :: "Parser \<Rightarrow> Parser \<Rightarrow> bool" where
  "keeps p q \<longleftrightarrow> inv q \<and> togo q \<le> togo p"

lemma at_end_iff: "NUL \<notin> set s \<Longrightarrow> at s i = NUL \<longleftrightarrow> length s \<le> i"
  by (auto simp: at_def) (metis linorder_not_le nth_mem)

lemma scan_token_at_end:
  assumes "NUL \<notin> set (source lx)" "scan_token lx = (t, lx')" "tok_type t = TOK_EOF"
  shows "source lx' = source lx" "length (source lx) \<le> cursor lx'"
proof -
  have nul: "at (source lx) (skip_blanks (source lx) (cursor lx)) = NUL"
    using scan_token_nul [OF assms(2)] assms(3) by simp
  then have "lx' = lx\<lparr>cursor := skip_blanks (source lx) (cursor lx), last_was_value := False\<rparr>"
    using assms(2) by (auto simp: scan_token_def Let_def emit_def)
  then show "source lx' = source lx" "length (source lx) \<le> cursor lx'"
    using nul assms(1) by (auto simp: at_end_iff)
qed

lemma scan_token_past_end:
  assumes "length (source lx) \<le> cursor lx"
  shows "tok_type (fst (scan_token lx)) = TOK_EOF"
  using assms scan_token_nul [of lx "fst (scan_token lx)" "snd (scan_token lx)"]
  by (simp add: at_end skip_blanks.simps)

lemma next_token_progress:
  assumes "next_token lx e = (t, lx', e')" "NUL \<notin> set (source lx)"
  shows "source lx' = source lx \<and>
    (if tok_type t = TOK_EOF then length (source lx) \<le> cursor lx'
     else cursor lx < cursor lx' \<and> cursor lx < length (source lx))"
  using assms
proof (induction lx e rule: next_token.induct)
  case (1 lx e)
  obtain tok lx1 where s: "scan_token lx = (tok, lx1)" by fastforce
  show ?case
  proof (cases "tok_type tok = TOK_ERROR")
    case False
    then have eq: "t = tok" "lx' = lx1" using 1(2) s by (auto simp: next_token.simps [of lx e])
    show ?thesis
    proof (cases "tok_type tok = TOK_EOF")
      case True
      then show ?thesis using scan_token_at_end [OF 1(3) s] eq by simp
    next
      case False
      then show ?thesis using scan_token_forward [OF s] eq by simp
    qed
  next
    case True
    have f: "source lx1 = source lx" "cursor lx < cursor lx1" "cursor lx < length (source lx)"
      using scan_token_forward [OF s] True by auto
    have "next_token lx1 True = (t, lx', e')" using 1(2) s True by (simp add: next_token.simps [of lx e])
    from 1(1) [OF s [symmetric] refl _ this] True 1(3) f show ?thesis by auto
  qed
qed

lemma next_token_at_end:
  assumes "length (source lx) \<le> cursor lx" "next_token lx e = (t, lx', e')"
  shows "tok_type t = TOK_EOF"
  using assms scan_token_past_end [OF assms(1)]
  by (auto simp: next_token.simps [of lx e] case_prod_beta Let_def split: if_splits)

lemma advance_establishes:
  assumes "NUL \<notin> set (source (lexer p))"
  shows "inv (advance p)" "source (lexer (advance p)) = source (lexer p)"
proof -
  obtain t lx e where n: "next_token (lexer p) (has_error p) = (t, lx, e)" by (metis prod_cases3)
  from next_token_progress [OF n assms] show "inv (advance p)" "source (lexer (advance p)) = source (lexer p)"
    using n assms by (auto simp: inv_def advance_def check_def)
qed

lemma advance_inv [simp]: "inv p \<Longrightarrow> inv (advance p)"
  by (rule advance_establishes) (simp add: inv_def)

lemma advance_less:
  assumes "inv p" "tok_type (current p) \<noteq> TOK_EOF"
  shows "togo (advance p) < togo p"
proof -
  obtain t lx e where n: "next_token (lexer p) (has_error p) = (t, lx, e)" by (metis prod_cases3)
  have "NUL \<notin> set (source (lexer p))" using assms(1) by (simp add: inv_def)
  from next_token_progress [OF n this] show ?thesis
    using assms(2) n by (auto simp: togo_def advance_def check_def)
qed

lemma advance_end:
  assumes "inv p" "tok_type (current p) = TOK_EOF"
  shows "togo (advance p) = 0"
proof -
  obtain t lx e where n: "next_token (lexer p) (has_error p) = (t, lx, e)" by (metis prod_cases3)
  have "length (source (lexer p)) \<le> cursor (lexer p)" using assms by (simp add: inv_def check_def)
  from next_token_at_end [OF this n] show ?thesis using n by (simp add: togo_def advance_def check_def)
qed

lemma togo_zero: "togo p = 0 \<longleftrightarrow> tok_type (current p) = TOK_EOF"
  by (simp add: togo_def check_def)

lemma advance_le: "inv p \<Longrightarrow> togo (advance p) \<le> togo p"
  using advance_less [of p] advance_end [of p] by (cases "tok_type (current p) = TOK_EOF") auto

lemma error_flag [simp]: "togo (p\<lparr>has_error := e\<rparr>) = togo p" "inv (p\<lparr>has_error := e\<rparr>) = inv p"
  by (simp_all add: togo_def inv_def check_def)

lemma match_keeps: "inv p \<Longrightarrow> inv (match t p) \<and> togo (match t p) \<le> togo p"
  by (simp add: match_def advance_le)

lemma consume_keeps: "inv p \<Longrightarrow> inv (consume t p) \<and> togo (consume t p) \<le> togo p"
  by (simp add: consume_def advance_le)

lemma moves [simp]:
  assumes "inv p"
  shows "inv (match t p)" "inv (consume t p)"
    "togo p < k \<Longrightarrow> togo (advance p) < k" "togo p < k \<Longrightarrow> togo (match t p) < k" "togo p < k \<Longrightarrow> togo (consume t p) < k"
    "togo p \<le> k \<Longrightarrow> togo (advance p) \<le> k" "togo p \<le> k \<Longrightarrow> togo (match t p) \<le> k" "togo p \<le> k \<Longrightarrow> togo (consume t p) \<le> k"
    "tok_type (current p) \<noteq> TOK_EOF \<Longrightarrow> togo p \<le> k \<Longrightarrow> togo (advance p) < k"
  using match_keeps [OF assms, of t] consume_keeps [OF assms, of t] advance_le [OF assms]
    advance_less [OF assms] by auto

section \<open>Runs that do not exhaust the bound\<close>

definition runs :: "fault + 'a \<Rightarrow> ('a \<Rightarrow> bool) \<Rightarrow> bool" where
  "runs r Q \<longleftrightarrow> (case r of Inl e \<Rightarrow> e \<noteq> No_fuel | Inr y \<Rightarrow> Q y)"

lemma runs_simps [simp]:
  "runs (Inl Bad_access) Q" "runs (ret x p) Q' = Q' (x, p)"
  "runs (again s p) Q2 = Q2 (Inl (s, p))" "runs (leave r p) Q3 = Q3 (Inr (r, p))"
  "runs (andthen m f) Q = runs m (\<lambda>(x, p). runs (f x p) Q)"
  by (auto simp: runs_def ret_def again_def leave_def andthen_def split: sum.splits prod.splits)

lemma runs_mono: "runs r P \<Longrightarrow> (\<And>y. P y \<Longrightarrow> Q y) \<Longrightarrow> runs r Q"
  by (auto simp: runs_def split: sum.splits)

text \<open>A parser that lowers the measure, on states of measure below \<open>k\<close>, and one that does not raise it.\<close>

definition good :: "nat \<Rightarrow> 'a parser \<Rightarrow> bool" where
  "good k f \<longleftrightarrow> (\<forall>p. inv p \<longrightarrow> togo p < k \<longrightarrow> runs (f p) (\<lambda>(x, q). eats p q))"

definition fair :: "nat \<Rightarrow> 'a parser \<Rightarrow> bool" where
  "fair k f \<longleftrightarrow> (\<forall>p. inv p \<longrightarrow> togo p < k \<longrightarrow> runs (f p) (\<lambda>(x, q). keeps p q))"

lemma goodI: "(\<And>p. inv p \<Longrightarrow> togo p < k \<Longrightarrow> runs (f p) (\<lambda>(x, q). eats p q)) \<Longrightarrow> good k f"
  by (simp add: good_def)

lemma fairI: "(\<And>p. inv p \<Longrightarrow> togo p < k \<Longrightarrow> runs (f p) (\<lambda>(x, q). keeps p q)) \<Longrightarrow> fair k f"
  by (simp add: fair_def)

lemma good_fair: "good k f \<Longrightarrow> fair k f"
  by (auto simp: good_def fair_def eats_def keeps_def elim!: runs_mono)

lemma good_use:
  assumes "good k f" "inv p" "togo p < k"
    "\<And>x q. inv q \<Longrightarrow> togo q \<le> togo p \<Longrightarrow> togo q = 0 \<or> togo q < togo p \<Longrightarrow> Q (x, q)"
  shows "runs (f p) Q"
proof (rule runs_mono)
  show "runs (f p) (\<lambda>(x, q). eats p q)" using assms(1-3) by (simp add: good_def)
  show "Q y" if "(\<lambda>(x, q). eats p q) y" for y
    using that assms(4) [of "snd y" "fst y"] by (auto simp: eats_def)
qed

lemma fair_use:
  assumes "fair k f" "inv p" "togo p < k" "\<And>x q. inv q \<Longrightarrow> togo q \<le> togo p \<Longrightarrow> Q (x, q)"
  shows "runs (f p) Q"
proof (rule runs_mono)
  show "runs (f p) (\<lambda>(x, q). keeps p q)" using assms(1-3) by (simp add: fair_def)
  show "Q y" if "(\<lambda>(x, q). keeps p q) y" for y
    using that assms(4) [of "snd y" "fst y"] by (auto simp: keeps_def)
qed

lemma good_less: "good k f \<Longrightarrow> j \<le> k \<Longrightarrow> good j f"
  by (auto simp: good_def)

text \<open>A loop whose body lowers the measure with every further round.\<close>

definition steps :: "nat \<Rightarrow> ('s \<times> Parser \<Rightarrow> fault + ('s \<times> Parser + 'r \<times> Parser)) \<Rightarrow> bool" where
  "steps k body \<longleftrightarrow> (\<forall>s p. inv p \<longrightarrow> togo p < k \<longrightarrow>
     runs (body (s, p)) (\<lambda>r. case r of Inl (s', q) \<Rightarrow> inv q \<and> togo q < togo p | Inr (x, q) \<Rightarrow> keeps p q))"

lemma stepsI:
  assumes "\<And>s p. inv p \<Longrightarrow> togo p < k \<Longrightarrow>
    runs (body (s, p)) (\<lambda>r. case r of Inl (s', q) \<Rightarrow> inv q \<and> togo q < togo p | Inr (x, q) \<Rightarrow> keeps p q)"
  shows "steps k body"
  using assms by (simp add: steps_def)

lemma loop_fair:
  assumes "steps k body" "k \<le> n"
  shows "fair k (\<lambda>p. loop n body (s, p))"
proof (rule fairI)
  fix p
  assume "inv p" "togo p < k"
  have "inv p \<Longrightarrow> togo p < k \<Longrightarrow> togo p < n \<Longrightarrow> runs (loop n body (s, p)) (\<lambda>(x, q). keeps p q)" for n
  proof (induction n arbitrary: s p)
    case 0
    then show ?case by simp
  next
    case (Suc n)
    have body: "runs (body (s, p)) (\<lambda>r. case r of Inl (s', q) \<Rightarrow> inv q \<and> togo q < togo p | Inr (x, q) \<Rightarrow> keeps p q)"
      using assms(1) Suc.prems by (simp add: steps_def)
    show ?case
    proof (cases "body (s, p)")
      case (Inl e)
      then show ?thesis using body by (simp add: runs_def)
    next
      case (Inr r)
      show ?thesis
      proof (cases r)
        case (Inr y)
        then show ?thesis using body \<open>body (s, p) = Inr r\<close> by (auto simp: runs_def)
      next
        case (Inl sq)
        obtain s' q where sq: "sq = (s', q)" by fastforce
        have "inv q" "togo q < togo p" using body \<open>body (s, p) = Inr r\<close> Inl sq by (auto simp: runs_def)
        then have "runs (loop n body (s', q)) (\<lambda>(x, r). keeps q r)" using Suc by simp
        then have "runs (loop n body (s', q)) (\<lambda>(x, r). keeps p r)"
          by (rule runs_mono) (use \<open>togo q < togo p\<close> in \<open>auto simp: keeps_def\<close>)
        then show ?thesis using \<open>body (s, p) = Inr r\<close> Inl sq by simp
      qed
    qed
  qed
  then show "runs (loop n body (s, p)) (\<lambda>(x, q). keeps p q)" using \<open>inv p\<close> \<open>togo p < k\<close> assms(2) by simp
qed

lemmas loop_use = fair_use [OF loop_fair]

lemma runs_if [simp]: "runs (if c then a else b) Q = (if c then runs a Q else runs b Q)"
  by simp

lemma eats_iff: "eats p q \<longleftrightarrow> inv q \<and> togo q \<le> togo p \<and> (0 < togo p \<longrightarrow> togo q < togo p)"
  by (auto simp: eats_def)

lemmas rule_simps = Let_def keeps_def eats_iff check_def

text \<open>Bounds by the measure of a state behind a token are bounds by the measure of the state before it.\<close>

lemma bound_advance:
  "togo q \<le> togo (advance p) \<Longrightarrow> inv p \<Longrightarrow> togo q \<le> togo p \<and> (tok_type (current p) = TOK_EOF \<or> togo q < togo p)"
  by (meson advance_le advance_less le_less_trans le_trans)

lemma bound_match: "togo q \<le> togo (match t p) \<Longrightarrow> inv p \<Longrightarrow> togo q \<le> togo p"
  by (meson match_keeps le_trans)

lemma bound_consume: "togo q \<le> togo (consume t p) \<Longrightarrow> inv p \<Longrightarrow> togo q \<le> togo p"
  by (meson consume_keeps le_trans)

lemma bound_strict:
  "togo q < togo (advance p) \<Longrightarrow> inv p \<Longrightarrow> togo q < togo p" "togo q < togo (match t p) \<Longrightarrow> inv p \<Longrightarrow> togo q < togo p"
  "togo q < togo (consume t p) \<Longrightarrow> inv p \<Longrightarrow> togo q < togo p"
  by (meson advance_le match_keeps consume_keeps less_le_trans)+

lemmas bounds = bound_advance bound_match bound_consume bound_strict

section \<open>Functions and primary expressions\<close>

lemma param_step_steps:
  assumes "good k pa"
  shows "steps k (param_step pa)"
  by (rule stepsI) (auto simp: param_step_def rule_simps dest!: bounds intro!: good_use [OF assms])

lemma param_list_fair:
  assumes "good k pa" "k \<le> n"
  shows "fair k (parse_param_list n pa)"
  by (rule fairI) (auto simp: parse_param_list_def rule_simps dest!: bounds
    intro!: loop_use [OF param_step_steps [OF assms(1)] assms(2)])

lemma function_rest_good:
  assumes "good k ps" "good k pa" "k \<le> n"
  shows "good k (function_rest n ps pa)"
  by (rule goodI) (auto simp: function_rest_def rule_simps dest!: bounds
    intro!: fair_use [OF param_list_fair [OF assms(2,3)]] good_use [OF assms(1)])

lemma arrow_rest_good:
  assumes "good k ps" "good k pa"
  shows "good k (arrow_rest ps pa b params)"
  by (rule goodI) (auto simp: arrow_rest_def rule_simps dest!: bounds intro!: good_use [OF assms(1)] good_use [OF assms(2)])

lemma function_expression_good:
  assumes "good k ps" "good k pa" "k \<le> n"
  shows "good k (function_expression n ps pa b)"
  by (rule goodI) (auto simp: function_expression_def rule_simps dest!: bounds
    intro!: good_use [OF function_rest_good [OF assms]])

lemma advance_previous [simp]: "previous (advance p) = current p"
  by (simp add: advance_def case_prod_beta Let_def)

lemma template_end_ge: "i \<le> fst (template_end s i)"
  using template_end_bounds [of i s "fst (template_end s i)" "snd (template_end s i)"]
  by (cases "i \<le> length s") (auto simp: template_end.simps [of s i])

lemma continuation_progress:
  fixes e :: bool
  assumes "inv q" "scan_template_continuation (lexer q) = (cont, lx)"
  defines "r \<equiv> advance (q\<lparr>lexer := lx, current := cont, has_error := e\<rparr>)"
  shows "inv r" "togo r \<le> togo q" "togo q = 0 \<Longrightarrow> tok_type cont = TOK_TEMPLATE_TAIL"
proof -
  let ?q = "q\<lparr>lexer := lx, current := cont, has_error := e\<rparr>" and ?s = "source (lexer q)"
  let ?i = "cursor (lexer q)"
  have cont: "tok_type cont \<noteq> TOK_EOF" "source lx = ?s" "?i \<le> cursor lx"
    "length ?s \<le> ?i \<Longrightarrow> tok_type cont = TOK_TEMPLATE_TAIL \<and> cursor lx = ?i"
    using assms(2) template_end_ge [of ?i ?s]
    by (auto simp: scan_template_continuation_def emit_def template_token_def plain_token_def Let_def
      template_end.simps [of ?s ?i] split: prod.splits option.splits bool.splits if_splits)
  have inv: "inv ?q" using assms(1) cont(1,2) by (simp add: inv_def check_def)
  then show "inv r" unfolding r_def by simp
  show "togo q = 0 \<Longrightarrow> tok_type cont = TOK_TEMPLATE_TAIL"
    using assms(1) cont(4) by (auto simp: togo_zero inv_def check_def)
  show "togo r \<le> togo q"
  proof (cases "tok_type (current q) = TOK_EOF")
    case True
    then have past: "length ?s \<le> ?i" using assms(1) by (simp add: inv_def check_def)
    obtain t l f where n: "next_token lx e = (t, l, f)" by (metis prod_cases3)
    have "tok_type t = TOK_EOF" using next_token_at_end [OF _ n] past cont by simp
    then show ?thesis using n by (simp add: r_def togo_def advance_def check_def)
  next
    case False
    have "togo r < togo ?q" unfolding r_def using inv cont(1) by (intro advance_less) auto
    also have "\<dots> \<le> togo q" using False cont by (auto simp: togo_def check_def)
    finally show ?thesis by simp
  qed
qed

lemma template_step_steps:
  assumes "good k pe"
  shows "steps k (template_step pe)"
proof (rule stepsI)
  fix s :: "ast list" and p
  assume p: "inv p" "togo p < k"
  show "runs (template_step pe (s, p))
    (\<lambda>r. case r of Inl (s', q) \<Rightarrow> inv q \<and> togo q < togo p | Inr (x, q) \<Rightarrow> keeps p q)"
    unfolding template_step_def case_prod_conv runs_simps
  proof (rule good_use [OF assms p], goal_cases)
    case (1 e q)
    obtain cont lx where c: "scan_template_continuation (lexer q) = (cont, lx)" by fastforce
    show ?case
      using continuation_progress(3) [OF 1(1) c]
        continuation_progress(1,2) [OF 1(1) c, where e = "has_error q \<or> \<not> check (Punct TOK_RBRACE) q"] 1(2,3) c
      by (cases "togo q = 0") (auto simp: Let_def keeps_def)
  qed
qed

lemma regex_literal_keeps: "inv p \<Longrightarrow> runs (regex_literal p) (\<lambda>(x, q). q = p)"
  by (simp add: regex_literal_def Let_def)

lemma regex_literal_fair: "fair k regex_literal"
  by (rule fairI) (rule runs_mono [OF regex_literal_keeps], auto simp: keeps_def)

lemma template_literal_fair:
  assumes "good k pe" "k \<le> n"
  shows "fair k (template_literal n pe)"
  by (rule fairI) (auto simp: template_literal_def rule_simps dest!: bounds
    intro!: loop_use [OF template_step_steps [OF assms(1)] assms(2)])

lemma group_or_arrow_fair:
  assumes "good k ps" "good k pe" "good k pa"
  shows "fair k (group_or_arrow ps pe pa)"
  by (rule fairI) (auto simp: group_or_arrow_def rule_simps dest!: bounds split: option.splits
    intro!: good_use [OF arrow_rest_good [OF assms(1,3)]] good_use [OF assms(2)])

lemma identifier_or_arrow_good:
  assumes "good k ps" "good k pa" "inv p" "togo p \<le> k" "tok_type (current p) \<noteq> TOK_EOF"
  shows "runs (identifier_or_arrow ps pa p) (\<lambda>(x, q). eats p q)"
  using assms(3-) by (auto simp: identifier_or_arrow_def rule_simps dest!: bounds
    intro!: good_use [OF arrow_rest_good [OF assms(1,2)]])

lemma list_step_steps:
  assumes "\<And>p. inv p \<Longrightarrow> togo p < k \<Longrightarrow> tok_type (current p) \<noteq> TOK_EOF \<Longrightarrow>
    runs (item p) (\<lambda>(x, q). keeps p q)"
  shows "steps k (list_step item close)"
proof (rule stepsI)
  fix s :: "'a list" and p
  assume p: "inv p" "togo p < k"
  show "runs (list_step item close (s, p))
    (\<lambda>r. case r of Inl (s', q) \<Rightarrow> inv q \<and> togo q < togo p | Inr (x, q) \<Rightarrow> keeps p q)"
  proof (cases "check close p \<or> check TOK_EOF p")
    case True
    then show ?thesis using p by (auto simp: list_step_def keeps_def)
  next
    case False
    then have "runs (item p) (\<lambda>(x, q). keeps p q)" using assms p by (auto simp: check_def)
    then have "runs (item p) (\<lambda>(x, q). runs
        (if check (Punct TOK_COMMA) q then again (s @ [x]) (advance q) else leave (s @ [x]) q)
        (\<lambda>r. case r of Inl (s', q) \<Rightarrow> inv q \<and> togo q < togo p | Inr (x, q) \<Rightarrow> keeps p q))"
      by (rule runs_mono) (auto simp: rule_simps)
    then show ?thesis using False by (simp add: list_step_def)
  qed
qed

lemma comma_list_fair:
  assumes "\<And>p. inv p \<Longrightarrow> togo p < k \<Longrightarrow> tok_type (current p) \<noteq> TOK_EOF \<Longrightarrow>
    runs (item p) (\<lambda>(x, q). keeps p q)" "k \<le> n"
  shows "fair k (comma_list n item close)"
  by (rule fairI) (auto simp: comma_list_def rule_simps dest!: bounds
    intro!: loop_use [OF list_step_steps [OF assms(1)] assms(2)])

lemma spread_good: "good k pa \<Longrightarrow> good k (spread_or_assignment pa)"
  by (rule goodI) (auto simp: spread_or_assignment_def rule_simps dest!: bounds intro!: good_use [of k pa])

lemma array_literal_fair:
  assumes "good k pa" "k \<le> n"
  shows "fair k (array_literal n pa)"
proof -
  have "fair k (comma_list n (array_element pa) (Punct TOK_RBRACKET))"
    by (rule comma_list_fair [OF _ assms(2)])
      (auto simp: array_element_def rule_simps intro!: good_use [OF spread_good [OF assms(1)]])
  then show ?thesis by (intro fairI) (auto simp: array_literal_def rule_simps intro!: fair_use)
qed

lemma arguments_fair:
  assumes "good k pa" "k \<le> n"
  shows "fair k (parse_arguments n pa)"
  unfolding parse_arguments_def
  by (rule comma_list_fair [OF _ assms(2)]) (auto simp: rule_simps intro!: good_use [OF spread_good [OF assms(1)]])

lemma accessor_prefix_keeps:
  assumes "accessor_prefix p = (key, flags, q)" "inv p"
  shows "inv q" "togo q \<le> togo p" "key \<noteq> None \<Longrightarrow> togo q < togo p"
  using assms by (auto simp: accessor_prefix_def rule_simps split: if_splits)

lemma property_key_keeps:
  assumes "property_key key p = (k, q)" "inv p"
  shows "inv q" "togo q \<le> togo p" "key = None \<Longrightarrow> tok_type (current p) \<noteq> TOK_EOF \<Longrightarrow> togo q < togo p"
  using assms by (auto simp: property_key_def split: option.splits if_splits)

lemma named_property_fair:
  assumes "good k ps" "good k pa" "k \<le> n"
  shows "fair k (named_property n ps pa)"
proof (rule fairI)
  fix p
  assume p: "inv p" "togo p < k"
  obtain key flags q where a: "accessor_prefix p = (key, flags, q)" by (metis prod_cases3)
  obtain word r where b: "property_key key q = (word, r)" by fastforce
  have r: "inv r" "togo r \<le> togo p"
    using accessor_prefix_keeps [OF a p(1)] property_key_keeps [OF b] by auto
  show "runs (named_property n ps pa p) (\<lambda>(x, q). keeps p q)"
    using a b r p by (auto simp: named_property_def rule_simps dest!: bounds
      intro!: fair_use [OF param_list_fair [OF assms(2,3)]] good_use [OF assms(1)] good_use [OF assms(2)]
        good_use [OF function_rest_good [OF assms]])
qed

lemma object_literal_fair:
  assumes "good k ps" "good k pa" "k \<le> n"
  shows "fair k (object_literal n ps pa)"
proof -
  have "fair k (parse_property n ps pa)"
    by (rule fairI) (auto simp: parse_property_def rule_simps dest!: bounds
      intro!: good_use [OF assms(2)] fair_use [OF named_property_fair [OF assms]])
  then have "fair k (comma_list n (parse_property n ps pa) (Punct TOK_RBRACE))"
    by (intro comma_list_fair [OF _ assms(3)]) (auto simp: rule_simps intro!: fair_use)
  then show ?thesis by (intro fairI) (auto simp: object_literal_def rule_simps intro!: fair_use)
qed

lemma async_expression_fair:
  assumes "good k ps" "good k pa" "k \<le> n"
  shows "fair k (async_expression n ps pa)"
  by (rule fairI) (auto simp: async_expression_def rule_simps dest!: bounds
    intro!: good_use [OF function_expression_good [OF assms]] fair_use [OF param_list_fair [OF assms(2,3)]]
      good_use [OF arrow_rest_good [OF assms(1,2)]])

lemma method_prefix_keeps:
  assumes "method_prefix p = (name, g, s, q)" "inv p"
  shows "inv q" "togo q \<le> togo p"
  using assms by (auto simp: method_prefix_def rule_simps split: if_splits)

lemma method_name_fair:
  assumes "good k pa"
  shows "fair k (method_name any_name pa name)"
  by (rule fairI) (auto simp: method_name_def rule_simps dest!: bounds intro!: good_use [OF assms])

lemma method_step_steps:
  assumes "good k ps" "good k pa" "k \<le> n"
  shows "steps k (method_step n any_name ps pa)"
proof (rule stepsI)
  fix ms :: "ASTClassMethod list" and p
  assume p: "inv p" "togo p < k"
  let ?q = "match (Punct TOK_STAR) (match (Keyword TOK_ASYNC) (match (Keyword TOK_STATIC) p))"
  obtain name g s r where m: "method_prefix ?q = (name, g, s, r)" by (metis prod_cases4)
  have r: "inv r" "togo r \<le> togo p" using method_prefix_keeps [OF m] p by (auto dest!: bounds)
  show "runs (method_step n any_name ps pa (ms, p))
    (\<lambda>r. case r of Inl (s', q) \<Rightarrow> inv q \<and> togo q < togo p | Inr (x, q) \<Rightarrow> keeps p q)"
    using p r m by (auto simp: method_step_def rule_simps togo_zero dest!: bounds
      intro!: fair_use [OF method_name_fair [OF assms(2)]] good_use [OF function_rest_good [OF assms]])
      (metis togo_zero gr0I le_trans less_le_trans)+
qed

lemma class_fair:
  assumes "good k ps" "good k pa" "k \<le> n"
  shows "fair k (parse_class n any_name ps pa)"
  by (rule fairI) (auto simp: parse_class_def rule_simps dest!: bounds
    intro!: good_use [OF assms(2)] loop_use [OF method_step_steps [OF assms] assms(3)])

lemma yield_fair:
  assumes "good k pa"
  shows "fair k (yield_expression pa)"
  by (rule fairI) (auto simp: yield_expression_def rule_simps dest!: bounds intro!: good_use [OF assms])

text \<open>A rule behind a first token, and one that only fails at the end of the text.\<close>

lemma fair_behind:
  assumes "fair m f" "inv p" "togo p \<le> m" "tok_type (current p) \<noteq> TOK_EOF"
  shows "runs (f (advance p)) (\<lambda>(x, q). eats p q)"
  by (rule fair_use [OF assms(1)]) (use assms in \<open>auto simp: rule_simps dest!: bounds\<close>)

lemma error_eats: "inv p \<Longrightarrow> eats p ((advance p)\<lparr>has_error := True\<rparr>)"
  using advance_end [of p] by (cases "tok_type (current p) = TOK_EOF") (auto simp: eats_def togo_zero)

lemma primary_good:
  assumes "good m ps" "good m pe" "good m pa" "m \<le> n"
  shows "good (Suc m) (parse_primary n ps pe pa)"
proof (rule goodI)
  fix p
  assume p: "inv p" "togo p < Suc m"
  let ?t = "tok_type (current p)"
  note behind = fair_behind [OF _ p(1), of m]
  note lits = fair_behind [OF regex_literal_fair p(1) order_refl]
    behind [OF template_literal_fair [OF assms(2,4)]] behind [OF async_expression_fair [OF assms(1,3,4)]]
    behind [OF good_fair [OF function_expression_good [OF assms(1,3,4)]]]
    behind [OF class_fair [OF assms(1,3,4)]] behind [OF yield_fair [OF assms(3)]]
    behind [OF group_or_arrow_fair [OF assms(1-3)]] behind [OF array_literal_fair [OF assms(3,4)]]
    behind [OF object_literal_fair [OF assms(1,3,4)]] identifier_or_arrow_good [OF assms(1,3) p(1)]
  have simple: "?t \<noteq> TOK_EOF \<Longrightarrow> eats p (advance p)" using p by (auto simp: eats_iff)
  have spread: "?t \<noteq> TOK_EOF \<Longrightarrow> runs (pa (advance p)) (\<lambda>(e, q). eats p q)"
    by (rule behind [OF good_fair [OF assms(3)]]) (use p in auto)
  show "runs (parse_primary n ps pe pa p) (\<lambda>(x, q). eats p q)"
    using p(2) error_eats [OF p(1)] simple spread lits
    by (auto simp: parse_primary_def Let_def split: TokenType.splits)
qed

section \<open>Operators\<close>

lemma member_string_keeps:
  assumes "member_string p = (e, q)" "inv p"
  shows "inv q" "togo q \<le> togo p"
  using assms by (auto simp: member_string_def Let_def split: if_splits)

lemma new_chain_steps: "steps k new_chain_step"
proof (rule stepsI)
  fix e :: ast and p
  assume p: "inv p" "togo p < k"
  obtain m q where m: "member_string (advance p) = (m, q)" by fastforce
  show "runs (new_chain_step (e, p))
    (\<lambda>r. case r of Inl (s', q) \<Rightarrow> inv q \<and> togo q < togo p | Inr (x, q) \<Rightarrow> keeps p q)"
    using m p member_string_keeps [OF m] by (auto simp: new_chain_step_def rule_simps dest!: bounds)
qed

lemma new_expression_good:
  assumes "good k primary" "good k pa" "k \<le> n"
  shows "good k (new_expression n primary pa)"
  by (rule goodI) (auto simp: new_expression_def rule_simps dest!: bounds
    intro!: good_use [OF assms(1)] loop_use [OF new_chain_steps assms(3)]
      fair_use [OF arguments_fair [OF assms(2,3)]])

lemma optional_chain_fair:
  assumes "good k pe" "good k pa" "k \<le> n"
  shows "fair k (optional_chain n pe pa e)"
proof (rule fairI)
  fix p
  assume p: "inv p" "togo p < k"
  obtain m q where m: "member_string p = (m, q)" by fastforce
  show "runs (optional_chain n pe pa e p) (\<lambda>(x, q). keeps p q)"
    using m p member_string_keeps [OF m] by (auto simp: optional_chain_def rule_simps dest!: bounds
      intro!: good_use [OF assms(1)] fair_use [OF arguments_fair [OF assms(2,3)]])
qed

lemma call_step_steps:
  assumes "good k pe" "good k pa" "k \<le> n"
  shows "steps (Suc k) (call_step n pe pa)"
proof (rule stepsI)
  fix e :: ast and p
  assume p: "inv p" "togo p < Suc k"
  obtain m q where m: "member_string (advance p) = (m, q)" by fastforce
  show "runs (call_step n pe pa (e, p))
    (\<lambda>r. case r of Inl (s', q) \<Rightarrow> inv q \<and> togo q < togo p | Inr (x, q) \<Rightarrow> keeps p q)"
    using m p member_string_keeps [OF m] by (auto simp: call_step_def rule_simps dest!: bounds
      intro!: good_use [OF assms(1)] fair_use [OF arguments_fair [OF assms(2,3)]]
        fair_use [OF optional_chain_fair [OF assms]])
qed

lemma call_or_prop_good:
  assumes "good m ps" "good m pe" "good m pa" "m < n"
  shows "good (Suc m) (parse_call_or_prop n ps pe pa)"
proof (rule goodI)
  fix p
  assume p: "inv p" "togo p < Suc m"
  have mn: "m \<le> n" using assms(4) by simp
  note prim = primary_good [OF assms(1-3) mn]
  show "runs (parse_call_or_prop n ps pe pa p) (\<lambda>(x, q). eats p q)"
    using p by (auto simp: parse_call_or_prop_def rule_simps dest!: bounds
      intro!: good_use [OF new_expression_good [OF good_less [OF prim] assms(3) mn]] good_use [OF prim]
        loop_use [OF call_step_steps [OF assms(2,3) mn] Suc_leI [OF assms(4)]])
qed

lemma postfix_good:
  assumes "good m ps" "good m pe" "good m pa" "m < n"
  shows "good (Suc m) (parse_postfix n ps pe pa)"
  by (rule goodI) (auto simp: parse_postfix_def rule_simps dest!: bounds
    intro!: good_use [OF call_or_prop_good [OF assms]])

lemma unary_rule_good:
  assumes "good m pu" "good (Suc m) postfix"
  shows "good (Suc m) (unary_rule pu postfix)"
  by (rule goodI) (auto simp: unary_rule_def unary_ops_def rule_simps dest!: bounds
    intro!: good_use [OF assms(1)] good_use [OF assms(2)])

lemma exponent_rule_good:
  assumes "good (Suc m) pu" "good m px"
  shows "good (Suc m) (exponent_rule pu px)"
  by (rule goodI) (auto simp: exponent_rule_def rule_simps dest!: bounds
    intro!: good_use [OF assms(1)] good_use [OF assms(2)])

lemma binary_level_good:
  assumes "good k sub" "k \<le> n" "TOK_EOF \<notin> set ops"
  shows "good k (binary_level n ops sub)"
proof -
  have "steps k (binary_step ops sub)"
    by (rule stepsI) (use assms(3) in \<open>auto simp: binary_step_def rule_simps dest!: bounds
      intro!: good_use [OF assms(1)]\<close>)
  then show ?thesis
    by (intro goodI) (auto simp: binary_level_def rule_simps dest!: bounds
      intro!: good_use [OF assms(1)] loop_use assms(2))
qed

lemma logical_or_good:
  assumes "good k px" "k \<le> n"
  shows "good k (parse_logical_or n px)"
  unfolding parse_logical_or_def parse_logical_and_def parse_bitwise_or_def parse_bitwise_xor_def
    parse_bitwise_and_def parse_equality_def parse_relational_def parse_shift_def parse_additive_def
    parse_multiplicative_def
  by (intro binary_level_good assms) (simp_all add: mul_ops_def add_ops_def shift_ops_def rel_ops_def eq_ops_def)

lemma ternary_rule_good:
  assumes "good (Suc m) por" "good m pt" "good m pa"
  shows "good (Suc m) (ternary_rule por pt pa)"
  by (rule goodI) (auto simp: ternary_rule_def rule_simps dest!: bounds
    intro!: good_use [OF assms(1)] good_use [OF assms(2)] good_use [OF assms(3)])

lemma assignment_rule_good:
  assumes "good (Suc m) pt" "good m pa"
  shows "good (Suc m) (assignment_rule pt pa)"
  by (rule goodI) (auto simp: assignment_rule_def is_compound_assign_def compound_assign_def rule_simps
    dest!: bounds intro!: good_use [OF assms(1)] good_use [OF assms(2)])

lemma expr_rule_good:
  assumes "good k pa" "k \<le> n"
  shows "good k (expr_rule n pa)"
proof -
  have "steps k (sequence_step pa)"
    by (rule stepsI) (auto simp: sequence_step_def rule_simps dest!: bounds intro!: good_use [OF assms(1)])
  then show ?thesis
    by (intro goodI) (auto simp: expr_rule_def rule_simps dest!: bounds
      intro!: good_use [OF assms(1)] loop_use assms(2))
qed

section \<open>Statements\<close>

lemma import_steps: "steps k import_step"
  by (rule stepsI) (auto simp: import_step_def rule_simps dest!: bounds split: if_splits)

lemma export_steps: "steps k export_step"
  by (rule stepsI) (auto simp: export_step_def rule_simps dest!: bounds split: if_splits)

lemma import_clause_fair: "k \<le> n \<Longrightarrow> fair k (import_clause n)"
  by (rule fairI) (auto simp: import_clause_def rule_simps dest!: bounds split: if_splits
    intro!: loop_use [OF import_steps])

lemma import_attributes_keeps: "inv p \<Longrightarrow> keeps p (snd (import_attributes p))"
  by (auto simp: import_attributes_def rule_simps)

lemma import_statement_fair:
  assumes "k \<le> n"
  shows "fair k (import_statement n)"
proof (rule fairI)
  fix p
  assume p: "inv p" "togo p < k"
  have att: "inv (snd (import_attributes r)) \<and> togo (snd (import_attributes r)) \<le> togo r" if "inv r" for r
    using import_attributes_keeps [OF that] by (simp add: keeps_def)
  have q: "inv (match t (snd (import_attributes (consume a (consume b q))))) \<and>
    togo (match t (snd (import_attributes (consume a (consume b q))))) \<le> togo p" if "inv q" "togo q \<le> togo p" for q t a b
    using att [of "consume a (consume b q)"] that by (auto dest!: bounds)
  show "runs (import_statement n p) (\<lambda>(x, q). keeps p q)"
    using p q by (auto simp: import_statement_def Let_def keeps_def case_prod_beta
      intro!: fair_use [OF import_clause_fair [OF assms]])
qed

lemma export_from_keeps: "inv p \<Longrightarrow> inv (export_from p) \<and> togo (export_from p) \<le> togo p"
  by (simp add: export_from_def)

lemma export_from_bound [simp]:
  "inv p \<Longrightarrow> inv (export_from p)" "inv p \<Longrightarrow> togo p \<le> k \<Longrightarrow> togo (export_from p) \<le> k"
  using export_from_keeps [of p] by auto

lemma export_statement_fair:
  assumes "good k ps" "good k pe" "k \<le> n"
  shows "fair k (export_statement n ps pe)"
  by (rule fairI) (auto simp: export_statement_def rule_simps dest!: bounds
    intro!: good_use [OF assms(1)] good_use [OF assms(2)] loop_use [OF export_steps assms(3)])

lemma block_statement_fair:
  assumes "good k ps" "k \<le> n"
  shows "fair k (block_statement n ps)"
proof -
  have "steps k (statements_step ps)"
    by (rule stepsI) (auto simp: statements_step_def rule_simps togo_zero [symmetric] dest!: bounds
      intro!: good_use [OF assms(1)])
  then show ?thesis
    by (intro fairI) (auto simp: block_statement_def rule_simps dest!: bounds intro!: loop_use assms(2))
qed

lemma try_statement_fair:
  assumes "good k ps"
  shows "fair k (try_statement ps)"
  by (rule fairI) (auto simp: try_statement_def rule_simps dest!: bounds split: if_splits
    intro!: good_use [OF assms])

lemma binding_steps:
  assumes "good k pa"
  shows "steps k (binding_step pa is_arr)"
  by (rule stepsI) (auto simp: binding_step_def rule_simps dest!: bounds split: if_splits
    intro!: good_use [OF assms])

lemma var_declaration_fair:
  assumes "good k pe" "good k pa" "k \<le> n"
  shows "fair k (var_declaration n pe pa b)"
proof -
  have target: "fair k (binding_target n pa)"
    by (rule fairI) (auto simp: binding_target_def rule_simps dest!: bounds
      intro!: loop_use [OF binding_steps [OF assms(2)] assms(3)])
  show ?thesis
    by (intro fairI) (auto simp: var_declaration_def rule_simps dest!: bounds
      intro!: fair_use [OF target] good_use [OF assms(1)])
qed

lemma parenthesised_fair: "good k pe \<Longrightarrow> fair k (parenthesised pe)"
  by (rule fairI) (auto simp: parenthesised_def rule_simps dest!: bounds intro!: good_use [of k pe])

lemma control_fair:
  assumes "good k ps" "good k pe"
  shows "fair k (if_statement ps pe)" "fair k (while_statement ps pe)" "fair k (do_statement ps pe)"
    "fair k (return_statement pe)" "fair k (throw_statement pe)" "fair k (jump_statement node)"
  by (rule fairI, auto simp: if_statement_def while_statement_def do_statement_def return_statement_def
    throw_statement_def jump_statement_def rule_simps dest!: bounds
    intro!: fair_use [OF parenthesised_fair [OF assms(2)]] good_use [OF assms(1)] good_use [OF assms(2)])+

lemma for_each_fair:
  assumes "good k ps" "good k pe"
  shows "fair k (for_each ps pe b decl)"
  by (rule fairI) (auto simp: for_each_def rule_simps case_prod_beta dest!: bounds
    intro!: good_use [OF assms(1)] good_use [OF assms(2)])

lemma for_statement_fair:
  assumes "good k ps" "good k pe"
  shows "fair k (for_statement ps pe)"
proof -
  have clause: "fair k (for_clause pe t)" for t
    by (rule fairI) (auto simp: for_clause_def rule_simps dest!: bounds intro!: good_use [OF assms(2)])
  have c_style: "fair k (c_style_for ps pe)"
    by (rule fairI) (auto simp: c_style_for_def rule_simps dest!: bounds
      intro!: good_use [OF assms(1)] fair_use [OF clause])
  show ?thesis
    by (rule fairI) (auto simp: for_statement_def rule_simps dest!: bounds
      intro!: good_use [OF assms(1)] fair_use [OF c_style] fair_use [OF for_each_fair [OF assms]])
qed

lemma switch_statement_fair:
  assumes "good k ps" "good k pe" "k \<le> n"
  shows "fair k (switch_statement n ps pe)"
proof -
  have body: "steps k (case_body_step ps)"
    by (rule stepsI) (auto simp: case_body_step_def ends_case_def rule_simps togo_zero [symmetric] dest!: bounds
      intro!: good_use [OF assms(1)])
  have cases: "steps k (switch_step n ps pe)"
    by (rule stepsI) (auto simp: switch_step_def rule_simps dest!: bounds
      intro!: good_use [OF assms(2)] loop_use [OF body assms(3)])
  show ?thesis
    by (rule fairI) (auto simp: switch_statement_def rule_simps dest!: bounds
      intro!: fair_use [OF parenthesised_fair [OF assms(2)]] loop_use [OF cases assms(3)])
qed

lemma function_declaration_fair:
  assumes "good k ps" "good k pa" "k \<le> n"
  shows "fair k (function_declaration n ps pa b)"
  by (rule fairI) (auto simp: function_declaration_def rule_simps dest!: bounds
    intro!: good_use [OF function_rest_good [OF assms]])

lemma async_statement_fair:
  assumes "good k ps" "good k pa" "k \<le> n"
  shows "fair k (async_statement n ps pa)"
  by (rule fairI) (auto simp: async_statement_def rule_simps dest!: bounds
    intro!: fair_use [OF function_declaration_fair [OF assms]] good_use [OF assms(2)])

lemma expression_statement_good: "good k pe \<Longrightarrow> good k (expression_statement pe)"
  by (rule goodI) (auto simp: expression_statement_def rule_simps dest!: bounds intro!: good_use [of k pe])

lemma await_statement_good:
  assumes "good (Suc m) pe" "good m pa" "m \<le> n" "inv p" "togo p \<le> m" "tok_type (current p) \<noteq> TOK_EOF"
  shows "runs (await_statement n pe pa p) (\<lambda>(x, q). eats p q)"
  using assms(4-) by (auto simp: await_statement_def rule_simps dest!: bounds
    intro!: fair_use [OF var_declaration_fair [OF good_less [OF assms(1)] assms(2,3)]]
      good_use [OF expression_statement_good [OF assms(1)]])

lemma statement_rule_good:
  assumes "good m ps" "good (Suc m) pe" "good m pa" "m \<le> n"
  shows "good (Suc m) (statement_rule n ps pe pa)"
proof (rule goodI)
  fix p
  assume p: "inv p" "togo p < Suc m"
  let ?t = "tok_type (current p)"
  have pe: "good m pe" using assms(2) by (rule good_less) simp
  have behind: "?t \<noteq> TOK_EOF \<Longrightarrow> fair m f \<Longrightarrow> runs (f (advance p)) (\<lambda>(x, q). eats p q)" for f :: "ast parser"
    using fair_behind [of m f p] p by simp
  have simple: "?t \<noteq> TOK_EOF \<Longrightarrow> eats p (advance p) \<and> eats p (match t (advance p))" for t
    using p by (auto simp: eats_iff)
  have expr: "runs (expression_statement pe p) (\<lambda>(x, q). eats p q)"
    by (rule good_use [OF expression_statement_good [OF assms(2)] p]) (auto simp: eats_iff)
  have await: "?t \<noteq> TOK_EOF \<Longrightarrow> runs (await_statement n pe pa p) (\<lambda>(x, q). eats p q)"
    using await_statement_good [OF assms(2-4) p(1)] p(2) by simp
  have "?t \<noteq> TOK_EOF \<Longrightarrow> runs (keyword_statement n ps pe pa w p) (\<lambda>(x, q). eats p q)" for w
    using simple expr await
    by (auto simp: keyword_statement_def Let_def intro!: behind import_statement_fair try_statement_fair
      export_statement_fair [OF _ pe] var_declaration_fair [OF pe] control_fair [OF _ pe] for_statement_fair [OF _ pe]
      switch_statement_fair [OF _ pe] class_fair async_statement_fair function_declaration_fair assms)
  then show "runs (statement_rule n ps pe pa p) (\<lambda>(x, q). eats p q)"
    using simple expr by (auto simp: statement_rule_def split: TokenType.splits
      intro!: behind block_statement_fair assms)
qed

section \<open>The bound is enough\<close>

lemma good_zero [simp]: "good 0 f"
  by (simp add: good_def)

lemma parse_functions_good:
  "(8 * m + 7 \<le> n \<longrightarrow> good (Suc m) (parse_statement n)) \<and> (8 * m + 6 \<le> n \<longrightarrow> good (Suc m) (parse_expr n)) \<and>
   (8 * m + 5 \<le> n \<longrightarrow> good (Suc m) (parse_assignment n)) \<and> (8 * m + 4 \<le> n \<longrightarrow> good (Suc m) (parse_ternary n)) \<and>
   (8 * m + 3 \<le> n \<longrightarrow> good (Suc m) (parse_exponent n)) \<and> (8 * m + 2 \<le> n \<longrightarrow> good (Suc m) (parse_unary n))"
proof (induction n arbitrary: m)
  case 0
  then show ?case by simp
next
  case (Suc n)
  have low: "8 * m \<le> Suc n \<Longrightarrow> good m (parse_statement n) \<and> good m (parse_expr n) \<and> good m (parse_assignment n) \<and>
    good m (parse_ternary n) \<and> good m (parse_exponent n) \<and> good m (parse_unary n)"
    using Suc.IH [of "m - 1"] by (cases m) auto
  have eq: "parse_statement (Suc n) = statement_rule n (parse_statement n) (parse_expr n) (parse_assignment n)"
    "parse_expr (Suc n) = expr_rule n (parse_assignment n)"
    "parse_assignment (Suc n) = assignment_rule (parse_ternary n) (parse_assignment n)"
    "parse_ternary (Suc n) = ternary_rule (parse_logical_or n (parse_exponent n)) (parse_ternary n) (parse_assignment n)"
    "parse_exponent (Suc n) = exponent_rule (parse_unary n) (parse_exponent n)"
    "parse_unary (Suc n) =
       unary_rule (parse_unary n) (parse_postfix n (parse_statement n) (parse_expr n) (parse_assignment n))"
    by (simp_all add: fun_eq_iff)
  have "good (Suc m) (parse_statement (Suc n))" if "8 * m + 7 \<le> Suc n"
    unfolding eq using that low Suc.IH [of m] by (intro statement_rule_good) auto
  moreover have "good (Suc m) (parse_expr (Suc n))" if "8 * m + 6 \<le> Suc n"
    unfolding eq using that Suc.IH [of m] by (intro expr_rule_good) auto
  moreover have "good (Suc m) (parse_assignment (Suc n))" if "8 * m + 5 \<le> Suc n"
    unfolding eq using that low Suc.IH [of m] by (intro assignment_rule_good) auto
  moreover have "good (Suc m) (parse_ternary (Suc n))" if "8 * m + 4 \<le> Suc n"
    unfolding eq using that low Suc.IH [of m] by (intro ternary_rule_good logical_or_good) auto
  moreover have "good (Suc m) (parse_exponent (Suc n))" if "8 * m + 3 \<le> Suc n"
    unfolding eq using that low Suc.IH [of m] by (intro exponent_rule_good) auto
  moreover have "good (Suc m) (parse_unary (Suc n))" if "8 * m + 2 \<le> Suc n"
    unfolding eq using that low by (intro unary_rule_good postfix_good) auto
  ultimately show ?case by blast
qed

lemma init_parser_inv:
  assumes "NUL \<notin> set src"
  shows "inv (init_parser src)" "togo (init_parser src) \<le> Suc (length src)"
proof -
  let ?p = "\<lparr>lexer = \<lparr>source = src, cursor = 0, last_was_value = False\<rparr>, current = plain_token TOK_EOF 0 0,
    previous = plain_token TOK_EOF 0 0, has_error = False\<rparr>"
  have p: "init_parser src = advance ?p" by (simp add: init_parser_def Let_def)
  show "inv (init_parser src)" using advance_establishes(1) [of ?p] assms p by simp
  show "togo (init_parser src) \<le> Suc (length src)"
    using advance_establishes(2) [of ?p] assms p by (simp add: togo_def)
qed

lemma program_steps:
  assumes "8 * m + 7 \<le> n"
  shows "steps (Suc m) (program_step n)"
proof -
  have st: "good (Suc m) (parse_statement n)" using parse_functions_good assms by blast
  show ?thesis
    by (rule stepsI) (auto simp: program_step_def rule_simps togo_zero [symmetric] dest!: bounds intro!: good_use [OF st])
qed

section \<open>Properties\<close>

text \<open>C14 (termination): the parser ends on every C string. Nothing it does, not on
  malformed input either, recurses deeper or loops longer than the bound that grows with the length of
  the text.\<close>

theorem parser_terminates:
  assumes "NUL \<notin> set src"
  shows "parse_source src \<noteq> Inl No_fuel"
proof -
  let ?n = "parse_fuel src" and ?p = "init_parser src"
  have "steps (Suc (Suc (length src))) (program_step ?n)"
    by (rule program_steps) (simp add: parse_fuel_def)
  then have "fair (Suc (Suc (length src))) (\<lambda>p. loop ?n (program_step ?n) ([], p))"
    by (rule loop_fair) (simp add: parse_fuel_def)
  then have "runs (loop ?n (program_step ?n) ([], ?p)) (\<lambda>(x, q). keeps ?p q)"
    using init_parser_inv [OF assms] by (simp add: fair_def)
  then show ?thesis
    by (auto simp: parse_source_def Let_def runs_def split: sum.splits)
qed

theorem parser_terminates_witness: "parse_source ''let x = (1 + ['' \<noteq> Inl No_fuel"
  by (rule parser_terminates) (simp add: NUL_def)

end
