(* ===== verification/Scopes.thy ===== *)
theory Scopes
  imports Ast
begin

text \<open>
  Scopes and the resolver of \<open>src/src/compiler.c\<close> (\<open>create_scope\<close> to \<open>resolve_identifiers\<close>): the
  first pass of the compiler. It gives every block, loop and function node its scope, declares the
  names, and marks the variables that an inner function uses as captured, with a slot in the
  environment of the enclosing function.

  The scopes live in a list; the address of a scope is its position, and the null pointer is \<open>None\<close>.
  The resolver writes the scope of a node into the node, so it returns the node with its scopes set.
\<close>

record Symbol =
  sym_name :: string
  reg :: int
  env_index :: int
  is_captured :: bool

record CompilerScope =
  symbols :: "Symbol list"
  parent :: "nat option"
  is_function_scope :: bool
  num_captured_vars :: int

type_synonym scopes = "CompilerScope list"

definition create_scope :: "nat option \<Rightarrow> bool \<Rightarrow> scopes \<Rightarrow> nat \<times> scopes" where
  "create_scope p is_function ss =
     (length ss, ss @ [\<lparr>symbols = [], parent = p, is_function_scope = is_function, num_captured_vars = 0\<rparr>])"

fun find_symbol :: "string \<Rightarrow> Symbol list \<Rightarrow> nat option" where
  "find_symbol name [] = None"
| "find_symbol name (x # xs) =
     (if sym_name x = name then Some 0 else map_option Suc (find_symbol name xs))"

definition add_symbol :: "nat \<Rightarrow> string \<Rightarrow> scopes \<Rightarrow> scopes" where
  "add_symbol s name ss =
     (case find_symbol name (symbols (ss ! s)) of
        Some i \<Rightarrow> ss
      | None \<Rightarrow> ss[s := (ss ! s)\<lparr>symbols := symbols (ss ! s) @
                   [\<lparr>sym_name = name, reg = -1, env_index = -1, is_captured = False\<rparr>]\<rparr>])"

definition add_name :: "nat \<Rightarrow> string option \<Rightarrow> scopes \<Rightarrow> scopes" where
  "add_name s name ss = (case name of Some x \<Rightarrow> add_symbol s x ss | None \<Rightarrow> ss)"

text \<open>
  The walks go from a scope to its parent. A parent is created before its children, so its number is
  smaller; the test makes the walk end on every list and is true on those the compiler builds
  (\<open>parents_ok\<close>, proved in \<open>Scopes_Laws\<close>).
\<close>

definition up :: "scopes \<Rightarrow> nat \<Rightarrow> nat option" where
  "up ss c = (if c < length ss then
     (case parent (ss ! c) of Some p \<Rightarrow> if p < c then Some p else None | None \<Rightarrow> None) else None)"

lemma up_less [dest]: "up ss c = Some p \<Longrightarrow> p < c"
  by (auto simp: up_def split: if_splits option.splits)

function get_enclosing_function_scope :: "scopes \<Rightarrow> nat \<Rightarrow> nat" where
  "get_enclosing_function_scope ss c =
     (if is_function_scope (ss ! c) then c
      else case up ss c of None \<Rightarrow> c | Some p \<Rightarrow> get_enclosing_function_scope ss p)"
  by pat_completeness auto
termination
  by (relation "measure snd") auto

text \<open>The two lookups differ in which scopes count as a level. The result is the scope, the position
  of the symbol in it, and the depth.\<close>

function lookup_symbol ::
  "(CompilerScope \<Rightarrow> bool) \<Rightarrow> scopes \<Rightarrow> nat \<Rightarrow> string \<Rightarrow> int \<Rightarrow> (nat \<times> nat \<times> int) option" where
  "lookup_symbol counts ss c name depth =
     (case find_symbol name (symbols (ss ! c)) of
        Some i \<Rightarrow> Some (c, i, depth)
      | None \<Rightarrow>
          (case up ss c of
             None \<Rightarrow> None
           | Some p \<Rightarrow> lookup_symbol counts ss p name (if counts (ss ! c) then depth + 1 else depth)))"
  by pat_completeness auto
termination
  by (relation "measure (\<lambda>(counts, ss, c, name, depth). c)") auto

declare get_enclosing_function_scope.simps [simp del] lookup_symbol.simps [simp del]

definition lookup_symbol_resolve :: "scopes \<Rightarrow> nat \<Rightarrow> string \<Rightarrow> (nat \<times> nat \<times> int) option" where
  "lookup_symbol_resolve ss s name = lookup_symbol is_function_scope ss s name 0"

definition lookup_symbol_codegen :: "scopes \<Rightarrow> nat option \<Rightarrow> string \<Rightarrow> (nat \<times> nat \<times> int) option" where
  "lookup_symbol_codegen ss s name =
     (case s of None \<Rightarrow> None | Some c \<Rightarrow> lookup_symbol (\<lambda>sc. num_captured_vars sc > 0) ss c name 0)"

definition get_symbol :: "scopes \<Rightarrow> nat \<Rightarrow> nat \<Rightarrow> Symbol" where
  "get_symbol ss c i = symbols (ss ! c) ! i"

definition put_symbol :: "scopes \<Rightarrow> nat \<Rightarrow> nat \<Rightarrow> Symbol \<Rightarrow> scopes" where
  "put_symbol ss c i y = ss[c := (ss ! c)\<lparr>symbols := (symbols (ss ! c))[i := y]\<rparr>]"

section \<open>The resolver\<close>

text \<open>An identifier found at a positive depth becomes a captured variable of the function that
  encloses its declaration.\<close>

definition capture :: "scopes \<Rightarrow> nat \<Rightarrow> nat \<Rightarrow> scopes" where
  "capture ss c i =
     (let f = get_enclosing_function_scope ss c;
          n = num_captured_vars (ss ! f);
          ss = put_symbol ss c i ((get_symbol ss c i)\<lparr>is_captured := True, env_index := n\<rparr>)
      in ss[f := (ss ! f)\<lparr>num_captured_vars := n + 1\<rparr>])"

definition resolve_name :: "string \<Rightarrow> nat \<Rightarrow> scopes \<Rightarrow> scopes" where
  "resolve_name name s ss =
     (case lookup_symbol_resolve ss s name of
        Some (c, i, depth) \<Rightarrow> if depth > 0 \<and> \<not> is_captured (get_symbol ss c i) then capture ss c i else ss
      | None \<Rightarrow> ss)"

text \<open>
  A resolver takes the scope and the scopes so far. The recursion is structural; a node is rebuilt from
  its resolved parts, which are resolved from left to right. The additional argument is the name that the
  enclosing \<open>try\<close> gives its catch block: such a block gets a scope of its own with that name in it.
\<close>

type_synonym 'a resolver = "nat \<Rightarrow> scopes \<Rightarrow> 'a \<times> scopes"

definition res1 :: "('a \<Rightarrow> 'b) \<Rightarrow> 'a resolver \<Rightarrow> 'b resolver" where
  "res1 C a s ss = (let (x, ss) = a s ss in (C x, ss))"

definition res2 :: "('a \<Rightarrow> 'b \<Rightarrow> 'c) \<Rightarrow> 'a resolver \<Rightarrow> 'b resolver \<Rightarrow> 'c resolver" where
  "res2 C a b s ss = (let (x, ss) = a s ss; (y, ss) = b s ss in (C x y, ss))"

definition res3 :: "('a \<Rightarrow> 'b \<Rightarrow> 'c \<Rightarrow> 'd) \<Rightarrow> 'a resolver \<Rightarrow> 'b resolver \<Rightarrow> 'c resolver \<Rightarrow> 'd resolver" where
  "res3 C a b c s ss = (let (x, ss) = a s ss; (y, ss) = b s ss; (z, ss) = c s ss in (C x y z, ss))"

fun res_all :: "'a resolver list \<Rightarrow> 'a list resolver" where
  "res_all [] s ss = ([], ss)"
| "res_all (a # as) s ss = (let (x, ss) = a s ss; (xs, ss) = res_all as s ss in (x # xs, ss))"

definition resolve_block :: "ast resolver list \<Rightarrow> bool \<Rightarrow> string option \<Rightarrow> ast resolver" where
  "resolve_block es inl catch_param s ss =
     (case catch_param of
        Some x \<Rightarrow>
          (let (cs, ss) = create_scope (Some s) False ss;
               ss = add_symbol cs x ss;
               (es, ss) = res_all es cs ss
           in (AST_BLOCK (Some cs) es inl, ss))
      | None \<Rightarrow>
          (let (inner, ss) = (if inl then (s, ss) else create_scope (Some s) False ss);
               (es, ss) = res_all es inner ss
           in (AST_BLOCK (Some inner) es inl, ss)))"

definition resolve_var_decl ::
  "string option \<Rightarrow> ast resolver \<Rightarrow> ASTBindingElem resolver list \<Rightarrow> (ast \<Rightarrow> ASTBindingElem list \<Rightarrow> ast) \<Rightarrow> ast resolver"
where
  "resolve_var_decl name init bs C s ss =
     (let ss = add_name s name ss; (bs, ss) = res_all bs s ss; (init, ss) = init s ss in (C init bs, ss))"

definition resolve_for :: "ast resolver \<Rightarrow> ast resolver \<Rightarrow> ast resolver \<Rightarrow> ast resolver \<Rightarrow> ast resolver" where
  "resolve_for init cond upd body s ss =
     (let (inner, ss) = create_scope (Some s) False ss;
          (i, ss) = init inner ss; (c, ss) = cond inner ss; (u, ss) = upd inner ss; (b, ss) = body inner ss
      in (AST_FOR (Some inner) i c u b, ss))"

text \<open>The loops \<open>for of\<close> and \<open>for in\<close>: the collection belongs to the outer scope.\<close>

definition resolve_for_each ::
  "string option \<Rightarrow> ast \<Rightarrow> ast resolver \<Rightarrow> ast resolver \<Rightarrow> ast resolver \<Rightarrow>
   (nat \<Rightarrow> ast \<Rightarrow> ast \<Rightarrow> ast \<Rightarrow> ast) \<Rightarrow> ast resolver"
where
  "resolve_for_each name decl resolve_decl coll body C s ss =
     (let (inner, ss) = create_scope (Some s) False ss;
          (decl, ss) = (case name of Some x \<Rightarrow> (decl, add_symbol inner x ss) | None \<Rightarrow> resolve_decl inner ss);
          (coll, ss) = coll s ss;
          (body, ss) = body inner ss
      in (C inner decl coll body, ss))"

definition resolve_function ::
  "string option \<Rightarrow> ASTParam resolver list \<Rightarrow> ast resolver \<Rightarrow> (nat \<Rightarrow> ASTParam list \<Rightarrow> ast \<Rightarrow> ast) \<Rightarrow> ast resolver"
where
  "resolve_function name params body C s ss =
     (let (inner, ss) = create_scope (Some s) True ss;
          (params, ss) = res_all params inner ss;
          ss = add_name s name ss;
          (body, ss) = body inner ss
      in (C inner params body, ss))"

definition resolve_class ::
  "string option \<Rightarrow> ast resolver \<Rightarrow> ASTClassMethod resolver list \<Rightarrow> ast resolver" where
  "resolve_class name super ms s ss =
     (let ss = add_name s name ss; (super, ss) = super s ss; (ms, ss) = res_all ms s ss
      in (AST_CLASS name super ms, ss))"

text \<open>A binding or parameter: its name is declared before its default value is resolved.\<close>

definition resolve_named :: "string option \<Rightarrow> ast resolver \<Rightarrow> (ast \<Rightarrow> 'a) \<Rightarrow> 'a resolver" where
  "resolve_named name d C s ss = (let ss = add_name s name ss; (d, ss) = d s ss in (C d, ss))"

primrec resolve :: "ast \<Rightarrow> string option \<Rightarrow> ast resolver"
  and resolve_binding :: "ASTBindingElem \<Rightarrow> ASTBindingElem resolver"
  and resolve_case :: "ASTSwitchCase \<Rightarrow> ASTSwitchCase resolver"
  and resolve_param :: "ASTParam \<Rightarrow> ASTParam resolver"
  and resolve_prop :: "ASTProperty \<Rightarrow> ASTProperty resolver"
  and resolve_method :: "ASTClassMethod \<Rightarrow> ASTClassMethod resolver"
where
  "resolve AST_NULL = (\<lambda>cp s ss. (AST_NULL, ss))"
| "resolve (AST_LITERAL_NUMBER v) = (\<lambda>cp s ss. (AST_LITERAL_NUMBER v, ss))"
| "resolve (AST_LITERAL_STRING v) = (\<lambda>cp s ss. (AST_LITERAL_STRING v, ss))"
| "resolve (AST_LITERAL_BOOL v) = (\<lambda>cp s ss. (AST_LITERAL_BOOL v, ss))"
| "resolve AST_LITERAL_NULL = (\<lambda>cp s ss. (AST_LITERAL_NULL, ss))"
| "resolve AST_LITERAL_UNDEFINED = (\<lambda>cp s ss. (AST_LITERAL_UNDEFINED, ss))"
| "resolve (AST_LITERAL_REGEX p f) = (\<lambda>cp s ss. (AST_LITERAL_REGEX p f, ss))"
| "resolve (AST_IDENTIFIER x) = (\<lambda>cp s ss. (AST_IDENTIFIER x, resolve_name x s ss))"
| "resolve (AST_VAR_DECL name init c u au bs arr) =
     (\<lambda>cp. resolve_var_decl name (resolve init None) (map resolve_binding bs)
        (\<lambda>init bs. AST_VAR_DECL name init c u au bs arr))"
| "resolve (AST_ASSIGN t v op) = (\<lambda>cp. res2 (\<lambda>t v. AST_ASSIGN t v op) (resolve t None) (resolve v None))"
| "resolve (AST_BINARY op l r) = (\<lambda>cp. res2 (AST_BINARY op) (resolve l None) (resolve r None))"
| "resolve (AST_UNARY op e) = (\<lambda>cp. res1 (AST_UNARY op) (resolve e None))"
| "resolve (AST_POSTFIX op e) = (\<lambda>cp. res1 (AST_POSTFIX op) (resolve e None))"
| "resolve (AST_TERNARY c t e) = (\<lambda>cp. res3 AST_TERNARY (resolve c None) (resolve t None) (resolve e None))"
| "resolve (AST_CALL f as) = (\<lambda>cp. res2 AST_CALL (resolve f None) (res_all (map (\<lambda>a. resolve a None) as)))"
| "resolve (AST_NEW_CALL f as) =
     (\<lambda>cp. res2 AST_NEW_CALL (resolve f None) (res_all (map (\<lambda>a. resolve a None) as)))"
| "resolve (AST_BLOCK sc es inl) = (\<lambda>cp. resolve_block (map (\<lambda>e. resolve e None) es) inl cp)"
| "resolve (AST_IF c t e) = (\<lambda>cp. res3 AST_IF (resolve c None) (resolve t None) (resolve e None))"
| "resolve (AST_WHILE c b) = (\<lambda>cp. res2 AST_WHILE (resolve c None) (resolve b None))"
| "resolve (AST_DO_WHILE c b) = (\<lambda>cp. res2 AST_DO_WHILE (resolve c None) (resolve b None))"
| "resolve (AST_FOR sc i c u b) =
     (\<lambda>cp. resolve_for (resolve i None) (resolve c None) (resolve u None) (resolve b None))"
| "resolve (AST_FOR_OF sc name decl coll b c aw) =
     (\<lambda>cp. resolve_for_each name decl (resolve decl None) (resolve coll None) (resolve b None)
        (\<lambda>inner decl coll b. AST_FOR_OF (Some inner) name decl coll b c aw))"
| "resolve (AST_FOR_IN sc name decl coll b c) =
     (\<lambda>cp. resolve_for_each name decl (resolve decl None) (resolve coll None) (resolve b None)
        (\<lambda>inner decl coll b. AST_FOR_IN (Some inner) name decl coll b c))"
| "resolve (AST_BREAK l) = (\<lambda>cp s ss. (AST_BREAK l, ss))"
| "resolve (AST_CONTINUE l) = (\<lambda>cp s ss. (AST_CONTINUE l, ss))"
| "resolve (AST_SWITCH d cs) = (\<lambda>cp. res2 AST_SWITCH (resolve d None) (res_all (map resolve_case cs)))"
| "resolve (AST_RETURN e) = (\<lambda>cp. res1 AST_RETURN (resolve e None))"
| "resolve (AST_FUNCTION sc name ps b as g ar cb) =
     (\<lambda>cp. resolve_function name (map resolve_param ps) (resolve b None)
        (\<lambda>inner ps b. AST_FUNCTION (Some inner) name ps b as g ar cb))"
| "resolve (AST_OBJECT ps) = (\<lambda>cp. res1 AST_OBJECT (res_all (map resolve_prop ps)))"
| "resolve (AST_ARRAY es) = (\<lambda>cp. res1 AST_ARRAY (res_all (map (\<lambda>e. resolve e None) es)))"
| "resolve (AST_SPREAD e) = (\<lambda>cp. res1 AST_SPREAD (resolve e None))"
| "resolve (AST_TEMPLATE_LITERAL es) =
     (\<lambda>cp. res1 AST_TEMPLATE_LITERAL (res_all (map (\<lambda>e. resolve e None) es)))"
| "resolve (AST_PROP_ACCESS ob p c) =
     (\<lambda>cp. res2 (\<lambda>ob p. AST_PROP_ACCESS ob p c) (resolve ob None) (resolve p None))"
| "resolve (AST_OPTIONAL_CHAIN ob p c opt) =
     (\<lambda>cp. res2 (\<lambda>ob p. AST_OPTIONAL_CHAIN ob p c opt) (resolve ob None) (resolve p None))"
| "resolve (AST_EXPR_STMT e) = (\<lambda>cp. res1 AST_EXPR_STMT (resolve e None))"
| "resolve (AST_AWAIT e) = (\<lambda>cp. res1 AST_AWAIT (resolve e None))"
| "resolve (AST_YIELD e d) = (\<lambda>cp. res1 (\<lambda>e. AST_YIELD e d) (resolve e None))"
| "resolve (AST_TRY t param c f) =
     (\<lambda>cp. res3 (\<lambda>t. AST_TRY t param) (resolve t None) (resolve c param) (resolve f None))"
| "resolve (AST_THROW e) = (\<lambda>cp. res1 AST_THROW (resolve e None))"
| "resolve (AST_SEQUENCE es) = (\<lambda>cp. res1 AST_SEQUENCE (res_all (map (\<lambda>e. resolve e None) es)))"
| "resolve (AST_CLASS name super ms) =
     (\<lambda>cp. resolve_class name (resolve super None) (map resolve_method ms))"
| "resolve AST_EMPTY = (\<lambda>cp s ss. (AST_EMPTY, ss))"
| "resolve_binding (Binding name d key rest) =
     resolve_named name (resolve d None) (\<lambda>d. Binding name d key rest)"
| "resolve_case (SwitchCase t b) = res2 SwitchCase (resolve t None) (res_all (map (\<lambda>e. resolve e None) b))"
| "resolve_param (Param name d rest) = resolve_named name (resolve d None) (\<lambda>d. Param name d rest)"
| "resolve_prop (Property k ke v fl) =
     res2 (\<lambda>ke v. Property k ke v fl) (resolve ke None) (resolve v None)"
| "resolve_method (ClassMethod n ne cm st ge se as gen f) =
     res1 (ClassMethod n ne cm st ge se as gen) (resolve f None)"

definition resolve_identifiers :: "ast \<Rightarrow> nat \<Rightarrow> scopes \<Rightarrow> ast \<times> scopes" where
  "resolve_identifiers node = resolve node None"

end
