(* ===== verification/Scopes_Laws.thy ===== *)
theory Scopes_Laws
  imports Scopes
begin

text \<open>
  The resolver keeps the scopes well formed: the parent of a scope was created before it, and the captured
  variables of a function have environment slots of their own, all below the number of slots that the
  function allocates.
\<close>

section \<open>Well-formed scopes\<close>

definition parents_ok :: "scopes \<Rightarrow> bool" where
  "parents_ok ss \<longleftrightarrow> (\<forall>c < length ss. \<forall>p. parent (ss ! c) = Some p \<longrightarrow> p < c)"

abbreviation encl :: "scopes \<Rightarrow> nat \<Rightarrow> nat" where
  "encl \<equiv> get_enclosing_function_scope"

definition captured_at :: "scopes \<Rightarrow> nat \<Rightarrow> nat \<Rightarrow> bool" where
  "captured_at ss c i \<longleftrightarrow> c < length ss \<and> i < length (symbols (ss ! c)) \<and> is_captured (get_symbol ss c i)"

definition slots_ok :: "scopes \<Rightarrow> bool" where
  "slots_ok ss \<longleftrightarrow>
     (\<forall>f < length ss. 0 \<le> num_captured_vars (ss ! f)) \<and>
     (\<forall>c i. captured_at ss c i \<longrightarrow>
        0 \<le> env_index (get_symbol ss c i) \<and> env_index (get_symbol ss c i) < num_captured_vars (ss ! encl ss c)) \<and>
     (\<forall>c i d j. captured_at ss c i \<and> captured_at ss d j \<and> encl ss c = encl ss d \<and>
        env_index (get_symbol ss c i) = env_index (get_symbol ss d j) \<longrightarrow> c = d \<and> i = j)"

definition scopes_ok :: "scopes \<Rightarrow> bool" where
  "scopes_ok ss \<longleftrightarrow> parents_ok ss \<and> slots_ok ss"

text \<open>On well-formed scopes \<open>up\<close> is the parent pointer.\<close>

lemma up_parent: "parents_ok ss \<Longrightarrow> c < length ss \<Longrightarrow> up ss c = parent (ss ! c)"
  by (auto simp: up_def parents_ok_def split: option.splits)

lemma encl_le: "encl ss c \<le> c"
proof (induction ss c rule: get_enclosing_function_scope.induct)
  case (1 ss c)
  then show ?case
    by (subst get_enclosing_function_scope.simps) (fastforce split: option.splits dest: up_less)
qed

text \<open>The tree is all that the enclosing function depends on.\<close>

definition same_tree :: "scopes \<Rightarrow> scopes \<Rightarrow> bool" where
  "same_tree ss ss' \<longleftrightarrow> length ss \<le> length ss' \<and>
     (\<forall>c < length ss. parent (ss' ! c) = parent (ss ! c) \<and> is_function_scope (ss' ! c) = is_function_scope (ss ! c))"

lemma same_tree_refl [simp]: "same_tree ss ss"
  by (simp add: same_tree_def)

lemma same_tree_trans: "same_tree a b \<Longrightarrow> same_tree b c \<Longrightarrow> same_tree a c"
  by (simp add: same_tree_def)

lemma encl_same_tree: "same_tree ss ss' \<Longrightarrow> c < length ss \<Longrightarrow> encl ss' c = encl ss c"
proof (induction ss c rule: get_enclosing_function_scope.induct)
  case (1 ss c)
  have up: "up ss' c = up ss c" using 1(2,3) by (auto simp: up_def same_tree_def)
  show ?case
  proof (cases "is_function_scope (ss ! c)")
    case True
    then show ?thesis using 1(2,3) by (subst (1 2) get_enclosing_function_scope.simps) (simp add: same_tree_def)
  next
    case False
    then have f: "\<not> is_function_scope (ss' ! c)" using 1(2,3) by (simp add: same_tree_def)
    show ?thesis
    proof (cases "up ss c")
      case None
      then show ?thesis using False f up by (subst (1 2) get_enclosing_function_scope.simps) simp
    next
      case (Some p)
      then have "p < length ss" using 1(3) by auto
      with 1(1) [OF False Some 1(2)] show ?thesis
        using False f up Some by (subst (1 2) get_enclosing_function_scope.simps) simp
    qed
  qed
qed

lemma same_tree_parents: "same_tree ss ss' \<Longrightarrow> length ss' = length ss \<Longrightarrow> parents_ok ss \<Longrightarrow> parents_ok ss'"
  by (auto simp: same_tree_def parents_ok_def)

section \<open>The operations\<close>

lemma slots_okD:
  assumes "slots_ok ss" "captured_at ss c i"
  shows "0 \<le> env_index (get_symbol ss c i)" "env_index (get_symbol ss c i) < num_captured_vars (ss ! encl ss c)"
    "captured_at ss d j \<Longrightarrow> encl ss c = encl ss d \<Longrightarrow> env_index (get_symbol ss c i) = env_index (get_symbol ss d j) \<Longrightarrow>
       c = d \<and> i = j"
  using assms unfolding slots_ok_def by blast+

lemma slots_num: "scopes_ok ss \<Longrightarrow> f < length ss \<Longrightarrow> 0 \<le> num_captured_vars (ss ! f)"
  by (simp add: scopes_ok_def slots_ok_def)

lemma captured_length: "captured_at ss c i \<Longrightarrow> c < length ss \<and> encl ss c < length ss"
  using encl_le [of ss c] by (simp add: captured_at_def)

text \<open>A change that captures nothing.\<close>

lemma scopes_ok_cong:
  assumes ok: "scopes_ok ss" and tree: "same_tree ss ss'" "parents_ok ss'"
    and cap: "\<And>c i. captured_at ss' c i \<Longrightarrow> captured_at ss c i \<and> get_symbol ss' c i = get_symbol ss c i"
    and num: "\<And>f. f < length ss \<Longrightarrow> num_captured_vars (ss' ! f) = num_captured_vars (ss ! f)"
      "\<And>f. f < length ss' \<Longrightarrow> 0 \<le> num_captured_vars (ss' ! f)"
  shows "scopes_ok ss'"
proof -
  have old: "slots_ok ss" using ok by (simp add: scopes_ok_def)
  have 1: "encl ss' c = encl ss c" "get_symbol ss' c i = get_symbol ss c i" "captured_at ss c i"
    "num_captured_vars (ss' ! encl ss c) = num_captured_vars (ss ! encl ss c)"
    if "captured_at ss' c i" for c i
    using cap [OF that] captured_length [of ss c i] encl_same_tree [OF tree(1)] num(1) by simp_all
  have "slots_ok ss'" unfolding slots_ok_def
  proof (intro conjI allI impI)
    fix c i d j
    assume "captured_at ss' c i \<and> captured_at ss' d j \<and> encl ss' c = encl ss' d \<and>
      env_index (get_symbol ss' c i) = env_index (get_symbol ss' d j)"
    then show "c = d" "i = j" using slots_okD(3) [OF old 1(3)] 1 by metis+
  qed (use num(2) slots_okD(1,2) [OF old 1(3)] 1 in auto)
  with tree(2) show ?thesis by (simp add: scopes_ok_def)
qed

lemma create_scope_ok:
  assumes "scopes_ok ss" "s < length ss" "create_scope (Some s) b ss = (c, ss')"
  shows "scopes_ok ss'" "c = length ss" "length ss' = Suc (length ss)" "same_tree ss ss'"
proof -
  have ss': "ss' = ss @ [\<lparr>symbols = [], parent = Some s, is_function_scope = b, num_captured_vars = 0\<rparr>]"
    and c: "c = length ss" using assms(3) by (auto simp: create_scope_def)
  show tree: "same_tree ss ss'" by (simp add: same_tree_def ss' nth_append)
  show "c = length ss" "length ss' = Suc (length ss)" using c by (simp_all add: ss')
  show "scopes_ok ss'"
  proof (rule scopes_ok_cong [OF assms(1) tree])
    show "parents_ok ss'" using assms(1,2) by (auto simp: scopes_ok_def parents_ok_def ss' nth_append less_Suc_eq)
    show "captured_at ss d i \<and> get_symbol ss' d i = get_symbol ss d i" if "captured_at ss' d i" for d i
      using that by (auto simp: captured_at_def get_symbol_def ss' nth_append less_Suc_eq split: if_splits)
  qed (auto simp: ss' nth_append less_Suc_eq slots_num [OF assms(1)])
qed

lemma add_symbol_ok:
  assumes "scopes_ok ss" "s < length ss"
  shows "scopes_ok (add_symbol s x ss)" "length (add_symbol s x ss) = length ss" "same_tree ss (add_symbol s x ss)"
proof -
  show len: "length (add_symbol s x ss) = length ss" by (simp add: add_symbol_def split: option.split)
  show tree: "same_tree ss (add_symbol s x ss)"
    using assms(2) by (auto simp: same_tree_def add_symbol_def nth_list_update split: option.split)
  show "scopes_ok (add_symbol s x ss)"
  proof (cases "find_symbol x (symbols (ss ! s))")
    case None
    then have new: "add_symbol s x ss = ss[s := (ss ! s)\<lparr>symbols := symbols (ss ! s) @
        [\<lparr>sym_name = x, reg = -1, env_index = -1, is_captured = False\<rparr>]\<rparr>]" by (simp add: add_symbol_def)
    show ?thesis
    proof (rule scopes_ok_cong [OF assms(1) tree])
      show "parents_ok (add_symbol s x ss)"
        using same_tree_parents [OF tree len] assms(1) by (simp add: scopes_ok_def)
      show "captured_at ss d i \<and> get_symbol (add_symbol s x ss) d i = get_symbol ss d i"
        if "captured_at (add_symbol s x ss) d i" for d i
        using that assms(2)
        by (cases "d = s") (auto simp: new captured_at_def get_symbol_def nth_append less_Suc_eq split: if_splits)
    qed (use assms(2) slots_num [OF assms(1)] in \<open>auto simp: new nth_list_update\<close>)
  qed (use assms(1) in \<open>simp add: add_symbol_def\<close>)
qed

lemma find_symbol_bound: "find_symbol x xs = Some i \<Longrightarrow> i < length xs"
  by (induction xs arbitrary: i) (auto split: if_splits)

lemma lookup_symbol_bound:
  "lookup_symbol counts ss s x d = Some (c, i, e) \<Longrightarrow> c \<le> s \<and> i < length (symbols (ss ! c))"
proof (induction counts ss s x d rule: lookup_symbol.induct)
  case (1 counts ss s x d)
  show ?case
  proof (cases "find_symbol x (symbols (ss ! s))")
    case None
    with 1(2) obtain p where p: "up ss s = Some p"
      "lookup_symbol counts ss p x (if counts (ss ! s) then d + 1 else d) = Some (c, i, e)"
      by (subst (asm) lookup_symbol.simps) (auto split: option.splits)
    from 1(1) [OF None p] up_less [OF p(1)] show ?thesis by simp
  next
    case (Some j)
    with 1(2) show ?thesis by (subst (asm) lookup_symbol.simps) (auto dest: find_symbol_bound)
  qed
qed

text \<open>A variable that is captured gets the next slot of its function.\<close>

lemma capture_ok:
  assumes ok: "scopes_ok ss" and c: "c < length ss" "i < length (symbols (ss ! c))" "\<not> is_captured (get_symbol ss c i)"
  shows "scopes_ok (capture ss c i)" "length (capture ss c i) = length ss" "same_tree ss (capture ss c i)"
proof -
  let ?ss = "capture ss c i" and ?f = "encl ss c"
  let ?n = "num_captured_vars (ss ! ?f)"
  have f: "?f < length ss" using encl_le [of ss c] c(1) by simp
  have old: "slots_ok ss" using ok by (simp add: scopes_ok_def)
  show len: "length ?ss = length ss" by (simp add: capture_def put_symbol_def Let_def)
  show tree: "same_tree ss ?ss"
    using c(1) f by (auto simp: same_tree_def capture_def put_symbol_def nth_list_update Let_def)
  have sym: "get_symbol ?ss d j = (if d = c \<and> j = i then (get_symbol ss c i)\<lparr>is_captured := True, env_index := ?n\<rparr> else get_symbol ss d j)"
    "length (symbols (?ss ! d)) = length (symbols (ss ! d))" if "d < length ss" for d j
    using c f that by (auto simp: get_symbol_def capture_def put_symbol_def nth_list_update Let_def)
  have num: "num_captured_vars (?ss ! d) = (if d = ?f then ?n + 1 else num_captured_vars (ss ! d))" if "d < length ss" for d
    using c f that by (auto simp: capture_def put_symbol_def nth_list_update Let_def)
  have enc: "encl ?ss d = encl ss d" if "d < length ss" for d using encl_same_tree [OF tree that] .
  have cap: "captured_at ?ss d j \<longleftrightarrow> captured_at ss d j \<or> (d = c \<and> j = i)" for d j
    using c by (auto simp: captured_at_def len sym)
  have new: "\<not> captured_at ss c i" using c(3) by (simp add: captured_at_def)
  have "slots_ok ?ss" unfolding slots_ok_def
  proof (intro conjI allI impI)
    show "0 \<le> num_captured_vars (?ss ! g)" if "g < length ?ss" for g
      using that slots_num [OF ok] f by (auto simp: len num)
  next
    fix d j assume dj: "captured_at ?ss d j"
    then have d: "d < length ss" by (simp add: captured_at_def len)
    then have e: "encl ss d < length ss" using encl_le [of ss d] by simp
    show "0 \<le> env_index (get_symbol ?ss d j)" "env_index (get_symbol ?ss d j) < num_captured_vars (?ss ! encl ?ss d)"
      using dj slots_okD(1,2) [OF old, of d j] slots_num [OF ok f] new by (auto simp: sym d enc num e cap)
  next
    fix d j d' j'
    assume a: "captured_at ?ss d j \<and> captured_at ?ss d' j' \<and> encl ?ss d = encl ?ss d' \<and>
      env_index (get_symbol ?ss d j) = env_index (get_symbol ?ss d' j')"
    then have d: "d < length ss" "d' < length ss" by (simp_all add: captured_at_def len)
    have "d = d' \<and> j = j'"
      using a slots_okD(2,3) [OF old, of d j] slots_okD(2,3) [OF old, of d' j'] new
      by (auto simp: sym d enc cap split: if_splits)
    then show "d = d'" "j = j'" by simp_all
  qed
  with same_tree_parents [OF tree len] ok show "scopes_ok ?ss" by (simp add: scopes_ok_def)
qed

section \<open>The resolver\<close>

text \<open>A piece of the resolver that works on at least \<open>n\<close> scopes keeps them well formed. Pieces are put together
  by sequencing and by opening a scope.\<close>

definition keeps :: "nat \<Rightarrow> (scopes \<Rightarrow> 'a \<times> scopes) \<Rightarrow> bool" where
  "keeps n r \<longleftrightarrow> (\<forall>ss x ss'. scopes_ok ss \<longrightarrow> n \<le> length ss \<longrightarrow> r ss = (x, ss') \<longrightarrow> scopes_ok ss' \<and> same_tree ss ss')"

lemma keepsI:
  "(\<And>ss x ss'. scopes_ok ss \<Longrightarrow> n \<le> length ss \<Longrightarrow> r ss = (x, ss') \<Longrightarrow> scopes_ok ss' \<and> same_tree ss ss') \<Longrightarrow> keeps n r"
  by (simp add: keeps_def)

lemma keepsD:
  assumes "keeps n r" "scopes_ok ss" "n \<le> length ss" "r ss = (x, ss')"
  shows "scopes_ok ss'" "same_tree ss ss'" "length ss \<le> length ss'"
  using assms by (auto simp: keeps_def same_tree_def)

named_theorems keeps

lemma keeps_return [keeps]: "keeps n (Pair x)"
  by (simp add: keeps_def)

lemma keeps_mono: "keeps n r \<Longrightarrow> n \<le> m \<Longrightarrow> keeps m r"
  by (simp add: keeps_def)

lemma keeps_seq [keeps]:
  assumes "keeps n a" "\<And>x. keeps n (f x)"
  shows "keeps n (\<lambda>ss. case a ss of (x, ss) \<Rightarrow> f x ss)"
proof (rule keepsI)
  fix ss y ss'' assume o: "scopes_ok ss" "n \<le> length ss" "(case a ss of (x, ss) \<Rightarrow> f x ss) = (y, ss'')"
  obtain x ss' where 1: "a ss = (x, ss')" by force
  note k1 = keepsD [OF assms(1) o(1,2) 1]
  have 2: "f x ss' = (y, ss'')" "n \<le> length ss'" using o(2,3) 1 k1(3) by simp_all
  note k2 = keepsD [OF assms(2) k1(1) 2(2,1)]
  from k2(1) same_tree_trans [OF k1(2) k2(2)] show "scopes_ok ss'' \<and> same_tree ss ss''" by blast
qed

lemma keeps_scope [keeps]:
  assumes "s < n" "\<And>inner. n \<le> inner \<Longrightarrow> keeps (Suc inner) (f inner)"
  shows "keeps n (\<lambda>ss. case create_scope (Some s) b ss of (inner, ss) \<Rightarrow> f inner ss)"
proof (rule keepsI)
  fix ss y ss'' assume o: "scopes_ok ss" "n \<le> length ss" "(case create_scope (Some s) b ss of (x, ss) \<Rightarrow> f x ss) = (y, ss'')"
  obtain c ss' where 1: "create_scope (Some s) b ss = (c, ss')" by force
  have s: "s < length ss" using assms(1) o(2) by simp
  note k1 = create_scope_ok [OF o(1) s 1]
  have 2: "f c ss' = (y, ss'')" "n \<le> c" "Suc c \<le> length ss'" using o(2,3) 1 k1(2,3) by simp_all
  note k2 = keepsD [OF assms(2) [OF 2(2)] k1(1) 2(3,1)]
  from k2(1) same_tree_trans [OF k1(4) k2(2)] show "scopes_ok ss'' \<and> same_tree ss ss''" by blast
qed

lemma keeps_before:
  assumes "\<And>ss. scopes_ok ss \<Longrightarrow> n \<le> length ss \<Longrightarrow> scopes_ok (g ss) \<and> same_tree ss (g ss)" "keeps n f"
  shows "keeps n (\<lambda>ss. f (g ss))"
proof (rule keepsI)
  fix ss x ss' assume o: "scopes_ok ss" "n \<le> length ss" "f (g ss) = (x, ss')"
  note 1 = assms(1) [OF o(1,2)]
  then have "n \<le> length (g ss)" using o(2) by (simp add: same_tree_def)
  from keepsD [OF assms(2) _ this o(3)] 1 show "scopes_ok ss' \<and> same_tree ss ss'" by (auto intro: same_tree_trans)
qed

lemma keeps_add_symbol [keeps]: "s < n \<Longrightarrow> keeps n f \<Longrightarrow> keeps n (\<lambda>ss. f (add_symbol s x ss))"
  by (rule keeps_before) (auto simp: add_symbol_ok)

lemma keeps_add_name [keeps]: "s < n \<Longrightarrow> keeps n f \<Longrightarrow> keeps n (\<lambda>ss. f (add_name s x ss))"
  by (rule keeps_before) (auto simp: add_name_def add_symbol_ok split: option.splits)

lemma resolve_name_ok:
  assumes "scopes_ok ss" "s < length ss"
  shows "scopes_ok (resolve_name y s ss) \<and> same_tree ss (resolve_name y s ss)"
proof (cases "lookup_symbol_resolve ss s y")
  case None
  then show ?thesis using assms by (simp add: resolve_name_def)
next
  case (Some t)
  obtain c i d where t: "t = (c, i, d)" by (cases t)
  have "c < length ss" "i < length (symbols (ss ! c))"
    using lookup_symbol_bound Some t assms(2) unfolding lookup_symbol_resolve_def by (fastforce, fastforce)
  then show ?thesis using assms Some t capture_ok [of ss c i] by (auto simp: resolve_name_def)
qed

lemma keeps_name [keeps]: "s < n \<Longrightarrow> keeps n (\<lambda>ss. (x, resolve_name y s ss))"
  by (rule keeps_before [OF _ keeps_return]) (simp add: resolve_name_ok)

text \<open>A resolver, for every scope it may be started in.\<close>

definition keeps_all :: "'a resolver \<Rightarrow> bool" where
  "keeps_all r \<longleftrightarrow> (\<forall>s n. s < n \<longrightarrow> keeps n (r s))"

lemma keeps_allI: "(\<And>s n. s < n \<Longrightarrow> keeps n (r s)) \<Longrightarrow> keeps_all r"
  by (simp add: keeps_all_def)

lemma keeps_run: "keeps_all r \<Longrightarrow> s < n \<Longrightarrow> keeps n (r s)"
  by (simp add: keeps_all_def)

lemma keeps_res_all: "\<forall>r \<in> set rs. keeps_all r \<Longrightarrow> s < n \<Longrightarrow> keeps n (res_all rs s)"
proof (induction rs)
  case Nil
  have "res_all ([] :: 'a resolver list) s = Pair []" by (simp add: fun_eq_iff)
  then show ?case by (simp only: keeps_return)
next
  case (Cons r rs)
  then have "keeps n (\<lambda>ss. case r s ss of (x, ss) \<Rightarrow> case res_all rs s ss of (xs, ss) \<Rightarrow> (x # xs, ss))"
    by (intro keeps_seq keeps_return) (auto intro: keeps_run)
  then show ?case by (simp add: Let_def)
qed

named_theorems keeps_rules

lemma keeps_leaf [keeps_rules]: "keeps_all (\<lambda>s. Pair x)" "keeps_all (\<lambda>s ss. (x, resolve_name y s ss))"
  by (rule keeps_allI, intro keeps, assumption?)+

lemma keeps_res1 [keeps_rules]: "keeps_all a \<Longrightarrow> keeps_all (res1 C a)"
  by (rule keeps_allI, unfold res1_def [abs_def] Let_def) (intro keeps; simp add: keeps_run)

lemma keeps_res2 [keeps_rules]: "keeps_all a \<Longrightarrow> keeps_all b \<Longrightarrow> keeps_all (res2 C a b)"
  by (rule keeps_allI, unfold res2_def [abs_def] Let_def) (intro keeps; simp add: keeps_run)

lemma keeps_res3 [keeps_rules]: "keeps_all a \<Longrightarrow> keeps_all b \<Longrightarrow> keeps_all c \<Longrightarrow> keeps_all (res3 C a b c)"
  by (rule keeps_allI, unfold res3_def [abs_def] Let_def) (intro keeps; simp add: keeps_run)

lemma keeps_list [keeps_rules]: "(\<And>r. r \<in> set rs \<Longrightarrow> keeps_all r) \<Longrightarrow> keeps_all (res_all rs)"
  by (rule keeps_allI, rule keeps_res_all) auto

lemma keeps_named [keeps_rules]: "keeps_all d \<Longrightarrow> keeps_all (resolve_named x d C)"
  by (rule keeps_allI, unfold resolve_named_def [abs_def] Let_def) (intro keeps; simp add: keeps_run)

lemma keeps_var_decl [keeps_rules]:
  assumes "keeps_all i" "\<And>r. r \<in> set bs \<Longrightarrow> keeps_all r"
  shows "keeps_all (resolve_var_decl x i bs C)"
  by (rule keeps_allI, unfold resolve_var_decl_def [abs_def] Let_def) (intro keeps; simp add: keeps_run keeps_list assms)

lemma keeps_class [keeps_rules]:
  assumes "keeps_all super" "\<And>r. r \<in> set ms \<Longrightarrow> keeps_all r"
  shows "keeps_all (resolve_class x super ms)"
  by (rule keeps_allI, unfold resolve_class_def [abs_def] Let_def) (intro keeps; simp add: keeps_run keeps_list assms)

lemma keeps_for [keeps_rules]:
  assumes "keeps_all i" "keeps_all c" "keeps_all u" "keeps_all b"
  shows "keeps_all (resolve_for i c u b)"
  by (rule keeps_allI, unfold resolve_for_def [abs_def] Let_def) (intro keeps; simp add: keeps_run assms)

lemma keeps_for_each [keeps_rules]:
  assumes "keeps_all d" "keeps_all c" "keeps_all b"
  shows "keeps_all (resolve_for_each x decl d c b C)"
  by (rule keeps_allI, cases x; unfold resolve_for_each_def [abs_def] Let_def option.case)
    (intro keeps; simp add: keeps_run keeps_add_symbol keeps_return assms)+

lemma keeps_function [keeps_rules]:
  assumes "\<And>r. r \<in> set ps \<Longrightarrow> keeps_all r" "keeps_all b"
  shows "keeps_all (resolve_function x ps b C)"
  by (rule keeps_allI, unfold resolve_function_def [abs_def] Let_def) (intro keeps; simp add: keeps_run keeps_list assms)

lemma keeps_block [keeps_rules]:
  assumes "\<And>r. r \<in> set es \<Longrightarrow> keeps_all r"
  shows "keeps_all (resolve_block es inl cp)"
  by (rule keeps_allI, cases cp; cases inl;
      simp only: resolve_block_def [abs_def] Let_def option.case if_True if_False prod.case)
    (intro keeps; simp add: keeps_run keeps_list assms)+

lemma resolve_keeps:
  "\<forall>cp. keeps_all (resolve node cp)" "keeps_all (resolve_binding bd)" "keeps_all (resolve_case sc)"
  "keeps_all (resolve_param pr)" "keeps_all (resolve_prop pt)" "keeps_all (resolve_method cm)"
  by (induction node and bd and sc and pr and pt and cm
      rule: ast.induct ASTBindingElem.induct ASTSwitchCase.induct ASTParam.induct ASTProperty.induct ASTClassMethod.induct)
    (auto intro!: keeps_rules)

lemma global_scope_ok: "scopes_ok (snd (create_scope None True []))"
  by (auto simp: create_scope_def scopes_ok_def parents_ok_def slots_ok_def captured_at_def)

text \<open>
  C7 (invariant): after the resolver has gone through a program, every scope was created
  after its parent, and the environment slots are right: each captured variable has a slot
  between 0 and the number of slots that its function allocates, and no two captured variables of a
  function share one.
\<close>

theorem captured_slots_distinct:
  "scopes_ok (snd (resolve_identifiers root 0 (snd (create_scope None True []))))"
proof -
  let ?ss = "snd (create_scope None True [])"
  have "keeps 1 (resolve root None 0)" using resolve_keeps(1) by (intro keeps_run) simp_all
  moreover have "1 \<le> length ?ss" by (simp add: create_scope_def)
  ultimately show ?thesis
    using keepsD(1) [OF _ global_scope_ok] unfolding resolve_identifiers_def by (metis prod.collapse)
qed

end
