(* ===== verification/Codegen.thy ===== *)
theory Codegen
  imports Scopes Bytecode JS_Heap_Laws Parser "HOL-Library.Monad_Syntax"
begin

text \<open>
  The bytecode emitter of \<open>src/src/compiler.c\<close>: \<open>add_constant_val\<close> to \<open>compile_node\<close>, and
  \<open>compile_source\<close>. One definition models one node type; it takes the code of the sub-nodes, and
  \<open>compile_node\<close> puts them together by structural recursion.

  \<open>Emitter\<close> holds what the source keeps in \<open>CompiledProgram\<close>, \<open>Emitter\<close> and the scopes. Registers and
  positions are unbounded integers here and are cut to the width of their operand when an instruction is
  built (\<open>abc\<close>, \<open>abx\<close>, \<open>asbx\<close>), as the parameters of the C encoders do. The result is \<open>None\<close> where
  the source reads through a null pointer. Constant strings are allocated in the heap \<open>mem\<close>.
\<close>

record CompilerFuncInfo =
  fi_bytecode_offset :: u32
  fi_register_count :: u32
  fi_param_count :: u32
  fi_is_async :: bool

record Emitter =
  const_pool :: "Value list"
  bytecode :: "u32 list"
  funcs :: "CompilerFuncInfo list"
  mem :: heap
  scopes_of :: scopes
  next_reg :: int
  max_reg :: int
  break_targets :: "nat list"
  continue_targets :: "nat list"

definition abc :: "Opcode \<Rightarrow> int \<Rightarrow> int \<Rightarrow> int \<Rightarrow> u32" where
  "abc op a b c = make_abc op (word_of_int a) (word_of_int b) (word_of_int c)"

definition abx :: "Opcode \<Rightarrow> int \<Rightarrow> int \<Rightarrow> u32" where
  "abx op a bx = make_abx op (word_of_int a) (word_of_int bx)"

definition asbx :: "Opcode \<Rightarrow> int \<Rightarrow> int \<Rightarrow> u32" where
  "asbx op a sbx = make_asbx op (word_of_int a) (word_of_int sbx)"

section \<open>Constants, instructions and registers\<close>

fun position :: "'a \<Rightarrow> 'a list \<Rightarrow> nat option" where
  "position x [] = None"
| "position x (y # ys) = (if y = x then Some 0 else map_option Suc (position x ys))"

definition add_constant_val :: "Value \<Rightarrow> Emitter \<Rightarrow> int \<times> Emitter" where
  "add_constant_val v g =
     (case position v (const_pool g) of
        Some i \<Rightarrow> (int i, g)
      | None \<Rightarrow> (int (length (const_pool g)), g\<lparr>const_pool := const_pool g @ [v]\<rparr>))"

definition add_constant_double :: "double \<Rightarrow> Emitter \<Rightarrow> int \<times> Emitter" where
  "add_constant_double d g = add_constant_val d g"

definition add_constant_string :: "string \<Rightarrow> Emitter \<Rightarrow> int \<times> Emitter" where
  "add_constant_string str g =
     (case position (Some str) (map (str_of (mem g)) (const_pool g)) of
        Some i \<Rightarrow> (int i, g)
      | None \<Rightarrow> let (v, h) = heap_alloc (OString str) (mem g) in add_constant_val v (g\<lparr>mem := h\<rparr>))"

definition emit_instruction :: "u32 \<Rightarrow> Emitter \<Rightarrow> Emitter" where
  "emit_instruction inst g = g\<lparr>bytecode := bytecode g @ [inst]\<rparr>"

definition here :: "Emitter \<Rightarrow> nat" where
  "here g = length (bytecode g)"

definition patch :: "nat \<Rightarrow> u32 \<Rightarrow> Emitter \<Rightarrow> Emitter" where
  "patch i inst g = g\<lparr>bytecode := (bytecode g)[i := inst]\<rparr>"

text \<open>\<open>prog->bytecode[i] = make_asbx(op, r, (int16_t)(prog->bytecode_size - i - 1))\<close>: the jump at \<open>i\<close>
  goes to the current end of the code.\<close>

definition patch_jump :: "nat \<Rightarrow> Opcode \<Rightarrow> int \<Rightarrow> Emitter \<Rightarrow> Emitter" where
  "patch_jump i op r g = patch i (asbx op r (int (here g) - int i - 1)) g"

text \<open>A jump back to \<open>start\<close>.\<close>

definition emit_jump_back :: "nat \<Rightarrow> Opcode \<Rightarrow> int \<Rightarrow> Emitter \<Rightarrow> Emitter" where
  "emit_jump_back start op r g = emit_instruction (asbx op r (int start - int (here g) - 1)) g"

definition alloc_register :: "Emitter \<Rightarrow> int \<times> Emitter" where
  "alloc_register g = (next_reg g, g\<lparr>next_reg := next_reg g + 1, max_reg := max (max_reg g) (next_reg g + 1)\<rparr>)"

definition free_registers :: "int \<Rightarrow> Emitter \<Rightarrow> Emitter" where
  "free_registers to_reg g = g\<lparr>next_reg := to_reg\<rparr>"

definition push_break_target :: "nat \<Rightarrow> Emitter \<Rightarrow> Emitter" where
  "push_break_target i g = g\<lparr>break_targets := break_targets g @ [i]\<rparr>"

definition push_continue_target :: "nat \<Rightarrow> Emitter \<Rightarrow> Emitter" where
  "push_continue_target i g = g\<lparr>continue_targets := continue_targets g @ [i]\<rparr>"

section \<open>Code of nodes\<close>

text \<open>Code takes the scope of the node, the destination register and the emitter.\<close>

type_synonym code = "nat option \<Rightarrow> int \<Rightarrow> Emitter \<Rightarrow> Emitter option"

text \<open>A destructured name: its variable, its key and the code of its default value.\<close>

type_synonym bindcode = "string option \<times> string option \<times> code option"

text \<open>The compiled node, with the code of the object and the property of a member access, which
  \<open>emit_store_lvalue\<close> and \<open>delete\<close> emit again, and the bindings of a declaration, which \<open>for of\<close> emits.\<close>

datatype nodecode = NodeCode (run: code) (obj_code: code) (prop_code: code) (decl_code: "(bindcode list \<times> bool) option")

definition no_code :: code where
  "no_code s dest g = None"

definition plain :: "code \<Rightarrow> nodecode" where
  "plain c = NodeCode c no_code no_code None"

definition load_undefined :: code where
  "load_undefined s dest g = Some (emit_instruction (abc OP_LOAD_UNDEFINED dest 0 0) g)"

definition load_string :: "string \<Rightarrow> int \<Rightarrow> Emitter \<Rightarrow> Emitter" where
  "load_string str r g = (let (ci, g) = add_constant_string str g in emit_instruction (abx OP_LOAD_CONST r ci) g)"

definition load_global :: "string \<Rightarrow> int \<Rightarrow> Emitter \<Rightarrow> Emitter" where
  "load_global name r g = (let (ci, g) = add_constant_string name g in emit_instruction (abx OP_LOAD_GLOBAL r ci) g)"

definition store_global :: "string \<Rightarrow> int \<Rightarrow> Emitter \<Rightarrow> Emitter" where
  "store_global name r g = (let (ci, g) = add_constant_string name g in emit_instruction (abx OP_STORE_GLOBAL r ci) g)"

text \<open>\<open>(int)v\<close> is not defined for values outside the range of \<open>int\<close>; no such value equals the result
  of the conversion.\<close>

definition compile_number :: "double \<Rightarrow> code" where
  "compile_number v s dest g =
     (case f64_to_int32 v of
        Some i \<Rightarrow>
          if f64_eq v (f64_of_int i) \<and> - 32768 \<le> i \<and> i \<le> 32767
          then Some (emit_instruction (asbx OP_LOAD_INT dest i) g)
          else let (ci, g) = add_constant_double v g in Some (emit_instruction (abx OP_LOAD_CONST dest ci) g)
      | None \<Rightarrow> let (ci, g) = add_constant_double v g in Some (emit_instruction (abx OP_LOAD_CONST dest ci) g))"

definition compile_regex :: "string \<Rightarrow> string \<Rightarrow> code" where
  "compile_regex pattern flags s dest g =
     (let (ctor_r, g) = alloc_register g;
          g = load_global ''RegExp'' ctor_r g;
          (pat_r, g) = alloc_register g;
          g = load_string pattern pat_r g;
          (flg_r, g) = alloc_register g;
          g = load_string flags flg_r g;
          g = emit_instruction (abc OP_NEW_CALL dest ctor_r 2) g
      in Some (free_registers ctor_r g))"

definition symbol_at :: "nat \<Rightarrow> nat \<Rightarrow> Emitter \<Rightarrow> Symbol" where
  "symbol_at c i g = get_symbol (scopes_of g) c i"

definition set_reg :: "nat \<Rightarrow> nat \<Rightarrow> int \<Rightarrow> Emitter \<Rightarrow> Emitter" where
  "set_reg c i r g = g\<lparr>scopes_of := put_symbol (scopes_of g) c i ((symbol_at c i g)\<lparr>reg := r\<rparr>)\<rparr>"

text \<open>\<open>if (sym->reg == -1) sym->reg = alloc_register(emit)\<close>\<close>

definition need_reg :: "nat \<Rightarrow> nat \<Rightarrow> Emitter \<Rightarrow> Emitter" where
  "need_reg c i g =
     (if reg (symbol_at c i g) = -1 then let (r, g) = alloc_register g in set_reg c i r g else g)"

definition lookup :: "nat option \<Rightarrow> string \<Rightarrow> Emitter \<Rightarrow> (nat \<times> nat \<times> int) option" where
  "lookup s name g = lookup_symbol_codegen (scopes_of g) s name"

definition compile_identifier :: "string \<Rightarrow> code" where
  "compile_identifier name s dest g =
     (case lookup s name g of
        Some (c, i, depth) \<Rightarrow>
          if is_captured (symbol_at c i g)
          then Some (emit_instruction (abc OP_LOAD_ENV dest (env_index (symbol_at c i g)) depth) g)
          else let g = need_reg c i g in Some (emit_instruction (abc OP_MOVE dest (reg (symbol_at c i g)) 0) g)
      | None \<Rightarrow> Some (load_global name dest g))"

text \<open>Storing a register into a known symbol: captured variables live in the environment.\<close>

definition store_symbol :: "nat \<Rightarrow> nat \<Rightarrow> int \<Rightarrow> int \<Rightarrow> Emitter \<Rightarrow> Emitter" where
  "store_symbol c i depth val_r g =
     (if is_captured (symbol_at c i g)
      then emit_instruction (abc OP_STORE_ENV val_r (env_index (symbol_at c i g)) depth) g
      else emit_instruction (abc OP_MOVE (reg (symbol_at c i g)) val_r 0) g)"

definition emit_store_member :: "nodecode \<Rightarrow> int \<Rightarrow> nat option \<Rightarrow> Emitter \<Rightarrow> Emitter option" where
  "emit_store_member code val_r s g =
     do {
       let (obj_r, g) = alloc_register g;
       g \<leftarrow> obj_code code s obj_r g;
       let (prop_r, g) = alloc_register g;
       g \<leftarrow> prop_code code s prop_r g;
       let g = emit_instruction (abc OP_STORE_PROP obj_r prop_r val_r) g;
       Some (free_registers obj_r (free_registers prop_r g))
     }"

definition emit_store_lvalue :: "ast \<Rightarrow> nodecode \<Rightarrow> int \<Rightarrow> nat option \<Rightarrow> Emitter \<Rightarrow> Emitter option" where
  "emit_store_lvalue target code val_r s g =
     (case target of
        AST_NULL \<Rightarrow> None
      | AST_IDENTIFIER name \<Rightarrow>
          (case lookup s name g of
             Some (c, i, depth) \<Rightarrow> Some (store_symbol c i depth val_r g)
           | None \<Rightarrow> Some (store_global name val_r g))
      | AST_PROP_ACCESS _ _ _ \<Rightarrow> emit_store_member code val_r s g
      | AST_OPTIONAL_CHAIN _ _ _ _ \<Rightarrow> emit_store_member code val_r s g
      | _ \<Rightarrow> Some g)"

section \<open>Declarations\<close>

text \<open>The default value of a destructured binding: evaluated when the value is null or undefined.\<close>

definition binding_default :: "code option \<Rightarrow> nat option \<Rightarrow> int \<Rightarrow> Emitter \<Rightarrow> Emitter option" where
  "binding_default d s val_r g =
     (case d of
        None \<Rightarrow> Some g
      | Some default_val \<Rightarrow>
          do {
            let (def_r, g) = alloc_register g;
            let jmp_idx = here g;
            let g = emit_instruction (asbx OP_JUMP_IF_NULLISH val_r 0) g;
            let skip_idx = here g;
            let g = emit_instruction (asbx OP_JUMP 0 0) g;
            let g = patch_jump jmp_idx OP_JUMP_IF_NULLISH val_r g;
            g \<leftarrow> default_val s def_r g;
            let g = emit_instruction (abc OP_MOVE val_r def_r 0) g;
            let g = patch_jump skip_idx OP_JUMP 0 g;
            Some (free_registers def_r g)
          })"

definition compile_binding_elem ::
  "bool \<Rightarrow> nat option \<Rightarrow> int \<Rightarrow> nat \<times> bindcode \<Rightarrow> Emitter \<Rightarrow> Emitter option" where
  "compile_binding_elem is_array s rhs_r b g =
     (case b of (i, name, key, d) \<Rightarrow>
        (case name of
           None \<Rightarrow> Some g
         | Some x \<Rightarrow>
             (case lookup s x g of
                None \<Rightarrow> Some g
              | Some (c, j, depth) \<Rightarrow>
                  do {
                    let g = need_reg c j g;
                    let (key_r, g) = alloc_register g;
                    let g = (if is_array then emit_instruction (asbx OP_LOAD_INT key_r (int i)) g
                             else load_string (case key of Some k \<Rightarrow> k | None \<Rightarrow> x) key_r g);
                    let (val_r, g) = alloc_register g;
                    let g = emit_instruction (abc OP_LOAD_PROP val_r rhs_r key_r) g;
                    let g = free_registers key_r g;
                    g \<leftarrow> binding_default d s val_r g;
                    let g = store_symbol c j depth val_r g;
                    Some (free_registers val_r g)
                  })))"

text \<open>A missing node compiles to \<open>undefined\<close>, so the test for a missing initialiser needs no case.\<close>

definition compile_var_decl :: "string option \<Rightarrow> code \<Rightarrow> bindcode list \<Rightarrow> bool \<Rightarrow> code" where
  "compile_var_decl name init bs is_array s dest g =
     (if bs \<noteq> [] then
        do {
          let (rhs_r, g) = alloc_register g;
          g \<leftarrow> init s rhs_r g;
          g \<leftarrow> opt_fold (compile_binding_elem is_array s rhs_r) (zip [0..<length bs] bs) g;
          load_undefined s dest (free_registers rhs_r g)
        }
      else
        (case name of
           None \<Rightarrow> None
         | Some x \<Rightarrow>
             (case lookup s x g of
                Some (c, i, _) \<Rightarrow>
                  do {
                    let g = (if is_captured (symbol_at c i g) then g else need_reg c i g);
                    let (temp_r, g) = alloc_register g;
                    g \<leftarrow> init s temp_r g;
                    let g = store_symbol c i 0 temp_r g;
                    load_undefined s dest (free_registers temp_r g)
                  }
              | None \<Rightarrow>
                  do {
                    let (temp_r, g) = alloc_register g;
                    g \<leftarrow> init s temp_r g;
                    let g = store_global x temp_r g;
                    load_undefined s dest (free_registers temp_r g)
                  })))"


section \<open>Expressions\<close>

definition compound_op_to_opcode :: "TokenType \<Rightarrow> Opcode" where
  "compound_op_to_opcode op =
     (case map_of
        [(Punct TOK_PLUS_ASSIGN, OP_ADD), (Punct TOK_MINUS_ASSIGN, OP_SUB), (Punct TOK_STAR_ASSIGN, OP_MUL),
         (Punct TOK_SLASH_ASSIGN, OP_DIV), (Punct TOK_PERCENT_ASSIGN, OP_MOD), (Punct TOK_STARSTAR_ASSIGN, OP_POW),
         (Punct TOK_BITAND_ASSIGN, OP_BITAND), (Punct TOK_BITOR_ASSIGN, OP_BITOR),
         (Punct TOK_BITXOR_ASSIGN, OP_BITXOR), (Punct TOK_SHL_ASSIGN, OP_SHL), (Punct TOK_SHR_ASSIGN, OP_SHR),
         (Punct TOK_USHR_ASSIGN, OP_USHR)] op of
        Some oc \<Rightarrow> oc
      | None \<Rightarrow> OP_ADD)"

text \<open>\<open>&&=\<close> and \<open>||=\<close>: the jump skips the assignment.\<close>

definition compile_logical_assign :: "Opcode \<Rightarrow> ast \<Rightarrow> nodecode \<Rightarrow> code \<Rightarrow> code" where
  "compile_logical_assign jump target tcode v s dest g =
     do {
       let (val_r, g) = alloc_register g;
       g \<leftarrow> run tcode s val_r g;
       let jmp_idx = here g;
       let g = emit_instruction (asbx jump val_r 0) g;
       g \<leftarrow> v s val_r g;
       g \<leftarrow> emit_store_lvalue target tcode val_r s g;
       let g = patch_jump jmp_idx jump val_r g;
       let g = emit_instruction (abc OP_MOVE dest val_r 0) g;
       Some (free_registers val_r g)
     }"

definition compile_nullish_assign :: "ast \<Rightarrow> nodecode \<Rightarrow> code \<Rightarrow> code" where
  "compile_nullish_assign target tcode v s dest g =
     do {
       let (val_r, g) = alloc_register g;
       g \<leftarrow> run tcode s val_r g;
       let jmp_idx = here g;
       let g = emit_instruction (asbx OP_JUMP_IF_NULLISH val_r 0) g;
       let skip_idx = here g;
       let g = emit_instruction (asbx OP_JUMP 0 0) g;
       let g = patch_jump jmp_idx OP_JUMP_IF_NULLISH val_r g;
       g \<leftarrow> v s val_r g;
       g \<leftarrow> emit_store_lvalue target tcode val_r s g;
       let g = patch_jump skip_idx OP_JUMP 0 g;
       let g = emit_instruction (abc OP_MOVE dest val_r 0) g;
       Some (free_registers val_r g)
     }"

definition compile_arith_assign :: "TokenType option \<Rightarrow> ast \<Rightarrow> nodecode \<Rightarrow> code \<Rightarrow> code" where
  "compile_arith_assign op target tcode v s dest g =
     do {
       let (val_r, g) = alloc_register g;
       g \<leftarrow> (case op of
              None \<Rightarrow> v s val_r g
            | Some t \<Rightarrow>
                do {
                  let (lhs_r, g) = alloc_register g;
                  g \<leftarrow> run tcode s lhs_r g;
                  let (rhs_r, g) = alloc_register g;
                  g \<leftarrow> v s rhs_r g;
                  let g = emit_instruction (abc (compound_op_to_opcode t) val_r lhs_r rhs_r) g;
                  Some (free_registers lhs_r (free_registers rhs_r g))
                });
       g \<leftarrow> emit_store_lvalue target tcode val_r s g;
       let g = emit_instruction (abc OP_MOVE dest val_r 0) g;
       Some (free_registers val_r g)
     }"

definition compile_assign :: "ast \<Rightarrow> nodecode \<Rightarrow> code \<Rightarrow> TokenType option \<Rightarrow> code" where
  "compile_assign target tcode v op =
     (if op = Some (Punct TOK_AND_ASSIGN) then compile_logical_assign OP_JUMP_IF_FALSE target tcode v
      else if op = Some (Punct TOK_OR_ASSIGN) then compile_logical_assign OP_JUMP_IF_TRUE target tcode v
      else if op = Some (Punct TOK_NULLISH_ASSIGN) then compile_nullish_assign target tcode v
      else compile_arith_assign op target tcode v)"

text \<open>\<open>||\<close> and \<open>&&\<close>.\<close>

definition compile_logical :: "Opcode \<Rightarrow> code \<Rightarrow> code \<Rightarrow> code" where
  "compile_logical jump left right s dest g =
     do {
       let (l, g) = alloc_register g;
       g \<leftarrow> left s l g;
       let jt_idx = here g;
       let g = emit_instruction (asbx jump l 0) g;
       let (r, g) = alloc_register g;
       g \<leftarrow> right s r g;
       let g = emit_instruction (abc OP_MOVE dest r 0) g;
       let g = free_registers r g;
       let je_idx = here g;
       let g = emit_instruction (asbx OP_JUMP 0 0) g;
       let g = patch_jump jt_idx jump l g;
       let g = emit_instruction (abc OP_MOVE dest l 0) g;
       let g = free_registers l g;
       Some (patch_jump je_idx OP_JUMP 0 g)
     }"

definition compile_nullish :: "code \<Rightarrow> code \<Rightarrow> code" where
  "compile_nullish left right s dest g =
     do {
       let (l, g) = alloc_register g;
       g \<leftarrow> left s l g;
       let g = emit_instruction (abc OP_MOVE dest l 0) g;
       let jn_idx = here g;
       let g = emit_instruction (asbx OP_JUMP_IF_NULLISH l 0) g;
       let je_idx = here g;
       let g = emit_instruction (asbx OP_JUMP 0 0) g;
       let g = patch_jump jn_idx OP_JUMP_IF_NULLISH l g;
       let (r, g) = alloc_register g;
       g \<leftarrow> right s r g;
       let g = emit_instruction (abc OP_MOVE dest r 0) g;
       let g = free_registers l (free_registers r g);
       Some (patch_jump je_idx OP_JUMP 0 g)
     }"

definition binary_opcode :: "TokenType \<Rightarrow> Opcode" where
  "binary_opcode op =
     (case map_of
        [(Punct TOK_PLUS, OP_ADD), (Punct TOK_MINUS, OP_SUB), (Punct TOK_STAR, OP_MUL), (Punct TOK_SLASH, OP_DIV),
         (Punct TOK_PERCENT, OP_MOD), (Punct TOK_STARSTAR, OP_POW), (Punct TOK_LT, OP_LT), (Punct TOK_LE, OP_LE),
         (Punct TOK_GT, OP_GT), (Punct TOK_GE, OP_GE), (Punct TOK_EQ, OP_EQ), (Punct TOK_NE, OP_NE),
         (Punct TOK_EQ_LOOSE, OP_EQ_LOOSE), (Punct TOK_NE_LOOSE, OP_NE_LOOSE), (Punct TOK_AMPERSAND, OP_BITAND),
         (Punct TOK_PIPE, OP_BITOR), (Punct TOK_CARET, OP_BITXOR), (Punct TOK_SHL, OP_SHL), (Punct TOK_SHR, OP_SHR),
         (Punct TOK_USHR, OP_USHR), (Keyword TOK_IN, OP_IN), (Keyword TOK_INSTANCEOF, OP_INSTANCEOF)] op of
        Some oc \<Rightarrow> oc
      | None \<Rightarrow> OP_ADD)"

definition compile_plain_binary :: "Opcode \<Rightarrow> code \<Rightarrow> code \<Rightarrow> code" where
  "compile_plain_binary oc left right s dest g =
     do {
       let (l, g) = alloc_register g;
       g \<leftarrow> left s l g;
       let (r, g) = alloc_register g;
       g \<leftarrow> right s r g;
       let g = emit_instruction (abc oc dest l r) g;
       Some (free_registers l (free_registers r g))
     }"

definition compile_binary :: "TokenType \<Rightarrow> code \<Rightarrow> code \<Rightarrow> code" where
  "compile_binary op left right =
     (if op = Punct TOK_OR then compile_logical OP_JUMP_IF_TRUE left right
      else if op = Punct TOK_AND then compile_logical OP_JUMP_IF_FALSE left right
      else if op = Punct TOK_NULLISH then compile_nullish left right
      else compile_plain_binary (binary_opcode op) left right)"

text \<open>Prefix \<open>++\<close> and \<open>--\<close>, after the operand.\<close>

definition compile_prefix_step :: "Opcode \<Rightarrow> ast \<Rightarrow> nodecode \<Rightarrow> int \<Rightarrow> code" where
  "compile_prefix_step oc expr ecode e s dest g =
     do {
       let (one_r, g) = alloc_register g;
       let g = emit_instruction (asbx OP_LOAD_INT one_r 1) g;
       let g = emit_instruction (abc oc dest e one_r) g;
       let g = free_registers one_r g;
       g \<leftarrow> emit_store_lvalue expr ecode dest s g;
       Some (free_registers e g)
     }"

definition compile_delete :: "ast \<Rightarrow> nodecode \<Rightarrow> int \<Rightarrow> code" where
  "compile_delete expr ecode e s dest g =
     (case expr of
        AST_NULL \<Rightarrow> None
      | AST_PROP_ACCESS _ _ _ \<Rightarrow>
          do {
            let g = free_registers e g;
            let (obj_r, g) = alloc_register g;
            g \<leftarrow> obj_code ecode s obj_r g;
            let (prop_r, g) = alloc_register g;
            g \<leftarrow> prop_code ecode s prop_r g;
            let g = emit_instruction (abc OP_DELETE_PROP dest obj_r prop_r) g;
            Some (free_registers obj_r (free_registers prop_r g))
          }
      | _ \<Rightarrow> Some (free_registers e (emit_instruction (abc OP_LOAD_BOOL dest 1 0) g)))"

definition unary_opcode :: "TokenType \<Rightarrow> Opcode" where
  "unary_opcode op =
     (case map_of
        [(Punct TOK_MINUS, OP_NEG), (Punct TOK_NOT, OP_NOT), (Punct TOK_TILDE, OP_BITNOT),
         (Keyword TOK_TYPEOF, OP_TYPEOF), (Keyword TOK_VOID, OP_VOID)] op of
        Some oc \<Rightarrow> oc
      | None \<Rightarrow> OP_MOVE)"

definition compile_unary :: "TokenType \<Rightarrow> ast \<Rightarrow> nodecode \<Rightarrow> code" where
  "compile_unary op expr ecode s dest g =
     do {
       let (e, g) = alloc_register g;
       g \<leftarrow> run ecode s e g;
       if op = Keyword TOK_DELETE then compile_delete expr ecode e s dest g
       else if op = Punct TOK_PLUSPLUS then compile_prefix_step OP_ADD expr ecode e s dest g
       else if op = Punct TOK_MINUSMINUS then compile_prefix_step OP_SUB expr ecode e s dest g
       else Some (free_registers e (emit_instruction (abc (unary_opcode op) dest e 0) g))
     }"

definition compile_postfix :: "TokenType \<Rightarrow> ast \<Rightarrow> nodecode \<Rightarrow> code" where
  "compile_postfix op expr ecode s dest g =
     do {
       let (e, g) = alloc_register g;
       g \<leftarrow> run ecode s e g;
       let g = emit_instruction (abc OP_MOVE dest e 0) g;
       let (one_r, g) = alloc_register g;
       let g = emit_instruction (asbx OP_LOAD_INT one_r 1) g;
       let (new_r, g) = alloc_register g;
       let g = emit_instruction (abc (if op = Punct TOK_PLUSPLUS then OP_ADD else OP_SUB) new_r e one_r) g;
       let g = free_registers one_r g;
       g \<leftarrow> emit_store_lvalue expr ecode new_r s g;
       Some (free_registers e (free_registers new_r g))
     }"

definition compile_ternary :: "code \<Rightarrow> code \<Rightarrow> code \<Rightarrow> code" where
  "compile_ternary cond then_expr else_expr s dest g =
     do {
       let (cond_r, g) = alloc_register g;
       g \<leftarrow> cond s cond_r g;
       let jf_idx = here g;
       let g = emit_instruction (asbx OP_JUMP_IF_FALSE cond_r 0) g;
       let g = free_registers cond_r g;
       g \<leftarrow> then_expr s dest g;
       let je_idx = here g;
       let g = emit_instruction (asbx OP_JUMP 0 0) g;
       let g = patch_jump jf_idx OP_JUMP_IF_FALSE cond_r g;
       g \<leftarrow> else_expr s dest g;
       Some (patch_jump je_idx OP_JUMP 0 g)
     }"

text \<open>\<open>await\<close> and \<open>yield\<close>.\<close>

definition compile_suspend :: "Opcode \<Rightarrow> code \<Rightarrow> code" where
  "compile_suspend oc expr s dest g =
     do {
       let (e, g) = alloc_register g;
       g \<leftarrow> expr s e g;
       let g = emit_instruction (abc oc dest e 0) g;
       Some (free_registers e g)
     }"

definition compile_argument :: "nat option \<Rightarrow> code \<Rightarrow> Emitter \<Rightarrow> Emitter option" where
  "compile_argument s arg g = (let (ar, g) = alloc_register g in arg s ar g)"

text \<open>Calls and constructor calls; a spread argument compiles like its operand.\<close>

definition compile_call :: "Opcode \<Rightarrow> code \<Rightarrow> code list \<Rightarrow> code" where
  "compile_call oc callee args s dest g =
     do {
       let (callee_r, g) = alloc_register g;
       g \<leftarrow> callee s callee_r g;
       g \<leftarrow> opt_fold (compile_argument s) args g;
       let g = emit_instruction (abc oc dest callee_r (int (length args))) g;
       Some (free_registers callee_r g)
     }"

definition compile_prop_access :: "code \<Rightarrow> code \<Rightarrow> code" where
  "compile_prop_access ob prop s dest g =
     do {
       let (obj_r, g) = alloc_register g;
       g \<leftarrow> ob s obj_r g;
       let (prop_r, g) = alloc_register g;
       g \<leftarrow> prop s prop_r g;
       let g = emit_instruction (abc OP_LOAD_PROP dest obj_r prop_r) g;
       Some (free_registers obj_r (free_registers prop_r g))
     }"

definition compile_optional_chain :: "code \<Rightarrow> code option \<Rightarrow> code" where
  "compile_optional_chain ob prop s dest g =
     do {
       let (obj_r, g) = alloc_register g;
       g \<leftarrow> ob s obj_r g;
       let g = emit_instruction (abc OP_LOAD_UNDEFINED dest 0 0) g;
       let jn_idx = here g;
       let g = emit_instruction (asbx OP_JUMP_IF_NULLISH obj_r 0) g;
       g \<leftarrow> (case prop of
              Some p \<Rightarrow>
                do {
                  let (prop_r, g) = alloc_register g;
                  g \<leftarrow> p s prop_r g;
                  let g = emit_instruction (abc OP_LOAD_PROP dest obj_r prop_r) g;
                  Some (free_registers prop_r g)
                }
            | None \<Rightarrow> Some (emit_instruction (abc OP_CALL dest obj_r 0) g));
       let g = patch_jump jn_idx OP_JUMP_IF_NULLISH obj_r g;
       Some (free_registers obj_r g)
     }"

definition compile_property ::
  "nat option \<Rightarrow> int \<Rightarrow> int \<Rightarrow> int \<Rightarrow> string option \<times> code \<times> code \<times> nat \<Rightarrow> Emitter \<Rightarrow> Emitter option" where
  "compile_property s dest key_r val_r p g =
     (case p of (key, kcode, val, flags) \<Rightarrow>
        if flags div 16 mod 2 = 1 then
          do {
            g \<leftarrow> val s val_r g;
            Some (emit_instruction (abc OP_OBJ_SPREAD dest val_r 0) g)
          }
        else
          do {
            g \<leftarrow> (if flags mod 2 = 1 then kcode s key_r g
                 else case key of Some k \<Rightarrow> Some (load_string k key_r g) | None \<Rightarrow> Some g);
            g \<leftarrow> val s val_r g;
            Some (emit_instruction (abc OP_STORE_PROP dest key_r val_r) g)
          })"

definition compile_object :: "(string option \<times> code \<times> code \<times> nat) list \<Rightarrow> code" where
  "compile_object ps s dest g =
     do {
       let g = emit_instruction (abc OP_NEW_OBJECT dest 0 0) g;
       let (key_r, g) = alloc_register g;
       let (val_r, g) = alloc_register g;
       g \<leftarrow> opt_fold (compile_property s dest key_r val_r) ps g;
       Some (free_registers key_r g)
     }"

definition compile_element ::
  "nat option \<Rightarrow> int \<Rightarrow> int \<Rightarrow> ast \<times> code \<Rightarrow> int \<times> Emitter \<Rightarrow> (int \<times> Emitter) option" where
  "compile_element s dest val_r = (\<lambda>(elem, c) (effective_idx, g).
     (case elem of
        AST_NULL \<Rightarrow> Some (effective_idx + 1, g)
      | AST_SPREAD _ \<Rightarrow>
          do {
            g \<leftarrow> c s val_r g;
            Some (effective_idx, emit_instruction (abc OP_ARRAY_SPREAD dest val_r 0) g)
          }
      | _ \<Rightarrow>
          do {
            g \<leftarrow> c s val_r g;
            let (idx_r, g) = alloc_register g;
            let g = emit_instruction (asbx OP_LOAD_INT idx_r effective_idx) g;
            let g = emit_instruction (abc OP_STORE_PROP dest idx_r val_r) g;
            Some (effective_idx + 1, free_registers idx_r g)
          }))"

definition compile_array :: "(ast \<times> code) list \<Rightarrow> code" where
  "compile_array es s dest g =
     do {
       let g = emit_instruction (abc OP_NEW_ARRAY dest 0 0) g;
       let (val_r, g) = alloc_register g;
       (_, g) \<leftarrow> opt_fold (compile_element s dest val_r) es (0, g);
       Some (free_registers val_r g)
     }"

definition compile_template_part :: "nat option \<Rightarrow> int \<Rightarrow> code \<Rightarrow> Emitter \<Rightarrow> Emitter option" where
  "compile_template_part s dest part g =
     do {
       let (r, g) = alloc_register g;
       g \<leftarrow> part s r g;
       let g = emit_instruction (abc OP_ADD dest dest r) g;
       Some (free_registers r g)
     }"

fun compile_template :: "code list \<Rightarrow> code" where
  "compile_template [] s dest g = Some (load_string [] dest g)"
| "compile_template (p # ps) s dest g =
     do {
       g \<leftarrow> p s dest g;
       opt_fold (compile_template_part s dest) ps g
     }"

fun compile_sequence :: "code list \<Rightarrow> code" where
  "compile_sequence [] s dest g = Some g"
| "compile_sequence [e] s dest g = e s dest g"
| "compile_sequence (e # es) s dest g =
     do {
       let (r, g) = alloc_register g;
       g \<leftarrow> e s r g;
       compile_sequence es s dest (free_registers r g)
     }"

section \<open>Statements\<close>

text \<open>\<open>var_boundary\<close>: the first register above those of the variables of a scope.\<close>

definition var_boundary :: "nat option \<Rightarrow> int \<Rightarrow> Emitter \<Rightarrow> int" where
  "var_boundary inner r g =
     (case inner of
        None \<Rightarrow> r
      | Some c \<Rightarrow> fold (\<lambda>x vb. if reg x \<ge> vb then reg x + 1 else vb) (symbols (scopes_of g ! c)) r)"

text \<open>A \<open>using\<close> declaration: the register to dispose, whether it is awaited, and the position of its
  \<open>OP_TRY_BEGIN\<close>.\<close>

type_synonym using_decl = "int \<times> bool \<times> nat"

definition record_using ::
  "nat option \<Rightarrow> int \<Rightarrow> ast \<Rightarrow> using_decl list \<Rightarrow> Emitter \<Rightarrow> using_decl list \<times> Emitter" where
  "record_using inner r_dis stmt us g =
     (case stmt of
        AST_VAR_DECL name _ _ is_using is_await_using _ _ \<Rightarrow>
          if is_using \<or> is_await_using then
            let u = (case name of None \<Rightarrow> r_dis | Some x \<Rightarrow>
                      (case lookup inner x g of Some (c, i, _) \<Rightarrow> reg (symbol_at c i g) | None \<Rightarrow> r_dis))
            in (us @ [(u, is_await_using, here g)], emit_instruction (asbx OP_TRY_BEGIN 0 0) g)
          else (us, g)
      | _ \<Rightarrow> (us, g))"

definition compile_block_stmt ::
  "nat option \<Rightarrow> ast \<times> code \<Rightarrow> using_decl list \<times> Emitter \<Rightarrow> (using_decl list \<times> Emitter) option" where
  "compile_block_stmt inner = (\<lambda>(stmt, c) (us, g).
     do {
       let (r_dis, g) = alloc_register g;
       let r_state = next_reg g;
       g \<leftarrow> c inner r_dis g;
       let (us, g) = record_using inner r_dis stmt us g;
       Some (us, g\<lparr>next_reg := var_boundary inner r_state g\<rparr>)
     })"

definition dispose_using :: "using_decl \<Rightarrow> Emitter \<Rightarrow> Emitter" where
  "dispose_using u g =
     (case u of (ur, is_await, try_begin_idx) \<Rightarrow>
        let g = emit_instruction (abc OP_TRY_END 0 0 0) g;
            joc_idx = here g;
            g = emit_instruction (asbx OP_JUMP 0 0) g;
            g = patch_jump try_begin_idx OP_TRY_BEGIN 0 g;
            (err_r, g) = alloc_register g;
            g = emit_instruction (abc OP_CATCH_BEGIN err_r 0 0) g;
            (sym_r, g) = alloc_register g;
            (meth_r, g) = alloc_register g;
            g = load_global ''Symbol'' sym_r g;
            (dsi, g) = add_constant_string (if is_await then ''asyncDispose'' else ''dispose'') g;
            (dsr, g) = alloc_register g;
            g = emit_instruction (abx OP_LOAD_CONST dsr dsi) g;
            g = emit_instruction (abc OP_LOAD_PROP meth_r sym_r dsr) g;
            g = free_registers sym_r (free_registers dsr g);
            (fn_r, g) = alloc_register g;
            g = emit_instruction (abc OP_LOAD_PROP fn_r ur meth_r) g;
            g = free_registers meth_r g;
            sd_idx = here g;
            g = emit_instruction (asbx OP_JUMP_IF_NULLISH fn_r 0) g;
            (cr, g) = alloc_register g;
            g = emit_instruction (abc OP_CALL cr fn_r 0) g;
            g = (if is_await then emit_instruction (abc OP_AWAIT cr cr 0) g else g);
            g = free_registers cr g;
            g = patch_jump sd_idx OP_JUMP_IF_NULLISH fn_r g;
            g = free_registers fn_r g;
            g = emit_instruction (abc OP_THROW err_r 0 0) g;
            g = free_registers err_r g
        in patch_jump joc_idx OP_JUMP 0 g)"

definition compile_block :: "nat option \<Rightarrow> (ast \<times> code) list \<Rightarrow> code" where
  "compile_block inner stmts s dest g =
     do {
       let base_r = next_reg g;
       (us, g) \<leftarrow> opt_fold (compile_block_stmt inner) stmts ([], g);
       let g = fold dispose_using (rev us) g;
       load_undefined s dest (g\<lparr>next_reg := base_r\<rparr>)
     }"

definition compile_if :: "code \<Rightarrow> code \<Rightarrow> code option \<Rightarrow> code" where
  "compile_if cond then_branch else_branch s dest g =
     do {
       let (cond_r, g) = alloc_register g;
       g \<leftarrow> cond s cond_r g;
       let jf_idx = here g;
       let g = emit_instruction (asbx OP_JUMP_IF_FALSE cond_r 0) g;
       let g = free_registers cond_r g;
       let (br, g) = alloc_register g;
       g \<leftarrow> then_branch s br g;
       let g = free_registers br g;
       let je_idx = here g;
       let g = emit_instruction (asbx OP_JUMP 0 0) g;
       let g = patch_jump jf_idx OP_JUMP_IF_FALSE cond_r g;
       g \<leftarrow> (case else_branch of
              None \<Rightarrow> Some g
            | Some e \<Rightarrow>
                do {
                  let (er, g) = alloc_register g;
                  g \<leftarrow> e s er g;
                  Some (free_registers er g)
                });
       let g = patch_jump je_idx OP_JUMP 0 g;
       load_undefined s dest g
     }"

definition compile_while :: "code \<Rightarrow> code \<Rightarrow> code" where
  "compile_while cond body s dest g =
     do {
       let loop_start = here g;
       let (cond_r, g) = alloc_register g;
       g \<leftarrow> cond s cond_r g;
       let jf_idx = here g;
       let g = emit_instruction (asbx OP_JUMP_IF_FALSE cond_r 0) g;
       let g = free_registers cond_r g;
       let (br, g) = alloc_register g;
       g \<leftarrow> body s br g;
       let g = free_registers br g;
       let g = emit_jump_back loop_start OP_JUMP 0 g;
       let g = patch_jump jf_idx OP_JUMP_IF_FALSE cond_r g;
       load_undefined s dest g
     }"

definition compile_do_while :: "code \<Rightarrow> code \<Rightarrow> code" where
  "compile_do_while cond body s dest g =
     do {
       let loop_start = here g;
       let (br, g) = alloc_register g;
       g \<leftarrow> body s br g;
       let g = free_registers br g;
       let (cond_r, g) = alloc_register g;
       g \<leftarrow> cond s cond_r g;
       let g = emit_jump_back loop_start OP_JUMP_IF_TRUE cond_r g;
       let g = free_registers cond_r g;
       load_undefined s dest g
     }"

text \<open>The parts of a \<open>for\<close> statement set \<open>next_reg\<close> themselves, without raising \<open>max_reg\<close>.\<close>

definition compile_for :: "nat option \<Rightarrow> code option \<Rightarrow> code option \<Rightarrow> code option \<Rightarrow> code \<Rightarrow> code" where
  "compile_for inner init cond update body s dest g =
     do {
       let base_r = next_reg g;
       let (init_dis, g) = alloc_register g;
       let init_r = next_reg g;
       g \<leftarrow> (case init of Some c \<Rightarrow> c inner init_dis g | None \<Rightarrow> Some g);
       let vb = var_boundary inner init_r g;
       let g = g\<lparr>next_reg := vb\<rparr>;
       let loop_start = here g;
       (jf_idx, g) \<leftarrow> (case cond of
            None \<Rightarrow> Some (None, g)
          | Some c \<Rightarrow>
              do {
                g \<leftarrow> c inner vb (g\<lparr>next_reg := vb + 1\<rparr>);
                Some (Some (here g), emit_instruction (asbx OP_JUMP_IF_FALSE vb 0) g)
              });
       g \<leftarrow> body inner vb (g\<lparr>next_reg := vb + 1\<rparr>);
       let g = g\<lparr>next_reg := vb\<rparr>;
       g \<leftarrow> (case update of Some c \<Rightarrow> c inner vb (g\<lparr>next_reg := vb + 1\<rparr>) | None \<Rightarrow> Some g);
       let g = g\<lparr>next_reg := vb\<rparr>;
       let g = emit_jump_back loop_start OP_JUMP 0 g;
       let g = (case jf_idx of Some i \<Rightarrow> patch_jump i OP_JUMP_IF_FALSE vb g | None \<Rightarrow> g);
       load_undefined s dest (g\<lparr>next_reg := base_r\<rparr>)
     }"

text \<open>The register of the loop variable: that of its symbol, or a fresh one.\<close>

definition loop_variable :: "nat option \<Rightarrow> string option \<Rightarrow> Emitter \<Rightarrow> int \<times> Emitter" where
  "loop_variable inner name g =
     (let (bind_r, g) = alloc_register g
      in case (name, inner) of
           (Some x, Some c) \<Rightarrow>
             (case lookup inner x g of
                Some (c, i, _) \<Rightarrow> let g = need_reg c i g in (reg (symbol_at c i g), g)
              | None \<Rightarrow> (bind_r, g))
         | _ \<Rightarrow> (bind_r, g))"

text \<open>The step of the iterator. The value of a destructuring loop is unpacked by the code of its
  declaration; a declaration that is not one is read as one by the source, which is undefined.\<close>

definition iterator_step :: "bool \<Rightarrow> int \<Rightarrow> int \<Rightarrow> int \<Rightarrow> Emitter \<Rightarrow> Emitter" where
  "iterator_step is_await result_r done_r iter_r g =
     (if is_await then
        let (prom_r, g) = alloc_register g;
            g = emit_instruction (abc OP_ASYNC_ITER_NEXT prom_r iter_r 0) g;
            g = emit_instruction (abc OP_AWAIT prom_r prom_r 0) g;
            g = emit_instruction (abc OP_UNPACK_ITER_RES result_r done_r prom_r) g
        in free_registers prom_r g
      else emit_instruction (abc OP_ITER_NEXT result_r done_r iter_r) g)"

definition loop_binding ::
  "ast \<Rightarrow> nodecode \<Rightarrow> nat option \<Rightarrow> int \<Rightarrow> int \<Rightarrow> Emitter \<Rightarrow> Emitter option" where
  "loop_binding decl dcode inner bind_r result_r g =
     (case decl of
        AST_NULL \<Rightarrow>
          Some (if bind_r \<noteq> result_r then emit_instruction (abc OP_MOVE bind_r result_r 0) g else g)
      | _ \<Rightarrow>
          (case decl_code dcode of
             None \<Rightarrow> None
           | Some (bs, is_array) \<Rightarrow>
               do {
                 let (val_r, g) = alloc_register g;
                 let g = (if val_r \<noteq> result_r then emit_instruction (abc OP_MOVE val_r result_r 0) g else g);
                 g \<leftarrow> opt_fold (compile_binding_elem is_array inner val_r) (zip [0..<length bs] bs) g;
                 Some (free_registers val_r g)
               }))"

definition inner_or :: "nat option \<Rightarrow> nat option \<Rightarrow> nat option" where
  "inner_or inner s = (case inner of Some c \<Rightarrow> Some c | None \<Rightarrow> s)"

definition compile_for_of ::
  "nat option \<Rightarrow> string option \<Rightarrow> ast \<Rightarrow> nodecode \<Rightarrow> code \<Rightarrow> code \<Rightarrow> bool \<Rightarrow> code" where
  "compile_for_of inner name decl dcode iterable body is_await s dest g =
     do {
       let base_r = next_reg g;
       let (iter_src_r, g) = alloc_register g;
       g \<leftarrow> iterable s iter_src_r g;
       let (iter_r, g) = alloc_register g;
       let (iter_idx_r, g) = alloc_register g;
       let g = emit_instruction (asbx OP_LOAD_INT iter_idx_r 0) g;
       let g = emit_instruction (abc (if is_await then OP_GET_ASYNC_ITER else OP_GET_ITER) iter_r iter_src_r 0) g;
       let (bind_r, g) = loop_variable inner name g;
       let (result_r, g) = alloc_register g;
       let (done_r, g) = alloc_register g;
       let loop_start = here g;
       let g = iterator_step is_await result_r done_r iter_r g;
       let jf_idx = here g;
       let g = emit_instruction (asbx OP_JUMP_IF_TRUE done_r 0) g;
       g \<leftarrow> loop_binding decl dcode (inner_or inner s) bind_r result_r g;
       let (body_r, g) = alloc_register g;
       g \<leftarrow> body (inner_or inner s) body_r g;
       let g = free_registers body_r g;
       let g = emit_jump_back loop_start OP_JUMP 0 g;
       let g = patch_jump jf_idx OP_JUMP_IF_TRUE done_r g;
       load_undefined s dest (g\<lparr>next_reg := base_r\<rparr>)
     }"

definition compile_for_in :: "nat option \<Rightarrow> string option \<Rightarrow> code \<Rightarrow> code \<Rightarrow> code" where
  "compile_for_in inner name ob body s dest g =
     do {
       let base_r = next_reg g;
       let (obj_r, g) = alloc_register g;
       g \<leftarrow> ob s obj_r g;
       let (bind_r, g) = loop_variable inner name g;
       let (key_idx_r, g) = alloc_register g;
       let g = emit_instruction (asbx OP_LOAD_INT key_idx_r 0) g;
       let (done_r, g) = alloc_register g;
       let loop_start = here g;
       let g = emit_instruction (abc OP_FOR_IN_NEXT bind_r done_r key_idx_r) g;
       let jt_idx = here g;
       let g = emit_instruction (asbx OP_JUMP_IF_TRUE done_r 0) g;
       let (body_r, g) = alloc_register g;
       g \<leftarrow> body (inner_or inner s) body_r g;
       let g = free_registers body_r g;
       let g = emit_jump_back loop_start OP_JUMP 0 g;
       let g = patch_jump jt_idx OP_JUMP_IF_TRUE done_r g;
       load_undefined s dest (g\<lparr>next_reg := base_r\<rparr>)
     }"

definition compile_break :: code where
  "compile_break s dest g =
     (let jmp_idx = here g;
          g = emit_instruction (asbx OP_JUMP 0 0) g;
          g = push_break_target jmp_idx g
      in load_undefined s dest g)"

definition compile_continue :: code where
  "compile_continue s dest g =
     (let jmp_idx = here g;
          g = emit_instruction (asbx OP_JUMP 0 0) g;
          g = push_continue_target jmp_idx g
      in load_undefined s dest g)"

text \<open>The tests of a \<open>switch\<close>: the positions of the jumps to the bodies, none for \<open>default\<close>.\<close>

definition compile_case_test ::
  "nat option \<Rightarrow> int \<Rightarrow> code option \<times> code list \<Rightarrow> nat option list \<times> Emitter \<Rightarrow> (nat option list \<times> Emitter) option"
where
  "compile_case_test s disc_r cs = (\<lambda>(jumps, g).
     (case fst cs of
        None \<Rightarrow> Some (jumps @ [None], g)
      | Some test \<Rightarrow>
          do {
            let (test_r, g) = alloc_register g;
            g \<leftarrow> test s test_r g;
            let (eq_r, g) = alloc_register g;
            let g = emit_instruction (abc OP_EQ eq_r disc_r test_r) g;
            let g = free_registers test_r g;
            let idx = here g;
            let g = emit_instruction (asbx OP_JUMP_IF_TRUE eq_r 0) g;
            Some (jumps @ [Some idx], free_registers eq_r g)
          }))"

definition compile_case_stmt :: "nat option \<Rightarrow> code \<Rightarrow> Emitter \<Rightarrow> Emitter option" where
  "compile_case_stmt s st g =
     do {
       let (sr, g) = alloc_register g;
       g \<leftarrow> st s sr g;
       Some (free_registers sr g)
     }"

text \<open>The breaks recorded since the start of the case jump to the end of its body.\<close>

definition patch_breaks :: "nat \<Rightarrow> Emitter \<Rightarrow> Emitter" where
  "patch_breaks saved g =
     (fold (\<lambda>bi. patch_jump bi OP_JUMP 0) (rev (drop saved (break_targets g))) g)
       \<lparr>break_targets := take saved (break_targets g)\<rparr>"

definition compile_case_body ::
  "nat option \<Rightarrow> (code option \<times> code list) \<times> nat option \<Rightarrow> nat list \<times> Emitter \<Rightarrow> (nat list \<times> Emitter) option" where
  "compile_case_body s = (\<lambda>(cs, jump) (starts, g).
     do {
       let start = here g;
       let g = (case jump of
                  Some i \<Rightarrow> patch_jump i OP_JUMP_IF_TRUE (uint (INST_A (bytecode g ! i))) g
                | None \<Rightarrow> g);
       let saved = length (break_targets g);
       g \<leftarrow> opt_fold (compile_case_stmt s) (snd cs) g;
       Some (starts @ [start], patch_breaks saved g)
     })"

text \<open>\<open>default_case_idx\<close>: the last case without a test.\<close>

definition default_case :: "(code option \<times> code list) list \<Rightarrow> nat option" where
  "default_case cases =
     (case filter (\<lambda>i. Option.is_none (fst (cases ! i))) [0..<length cases] of [] \<Rightarrow> None | is \<Rightarrow> Some (last is))"

definition compile_switch :: "code \<Rightarrow> (code option \<times> code list) list \<Rightarrow> code" where
  "compile_switch disc cases s dest g =
     do {
       let (disc_r, g) = alloc_register g;
       g \<leftarrow> disc s disc_r g;
       (jumps, g) \<leftarrow> opt_fold (compile_case_test s disc_r) cases ([], g);
       let default_jmp_idx = here g;
       let g = emit_instruction (asbx OP_JUMP 0 0) g;
       (starts, g) \<leftarrow> opt_fold (compile_case_body s) (zip cases jumps) ([], g);
       let g = (case default_case cases of
                  Some i \<Rightarrow> patch default_jmp_idx
                    (asbx OP_JUMP 0 (int (starts ! i) - int default_jmp_idx - 1)) g
                | None \<Rightarrow> patch_jump default_jmp_idx OP_JUMP 0 g);
       let g = free_registers disc_r g;
       load_undefined s dest g
     }"

text \<open>The catch parameter is stored before the catch block runs. Its scope is that of the block.\<close>

definition catch_scope :: "ast \<Rightarrow> nat option" where
  "catch_scope c =
     (case c of
        AST_BLOCK sc _ _ \<Rightarrow> sc | AST_FOR sc _ _ _ _ \<Rightarrow> sc | AST_FOR_OF sc _ _ _ _ _ _ \<Rightarrow> sc
      | AST_FOR_IN sc _ _ _ _ _ \<Rightarrow> sc | AST_FUNCTION sc _ _ _ _ _ _ _ \<Rightarrow> sc | _ \<Rightarrow> None)"

definition store_catch_param :: "string option \<Rightarrow> nat option \<Rightarrow> int \<Rightarrow> Emitter \<Rightarrow> Emitter" where
  "store_catch_param param cs err_r g =
     (case param of
        None \<Rightarrow> g
      | Some x \<Rightarrow>
          (case lookup cs x g of
             Some (c, i, depth) \<Rightarrow>
               store_symbol c i depth err_r (if is_captured (symbol_at c i g) then g else need_reg c i g)
           | None \<Rightarrow> store_global x err_r g))"

definition compile_catch :: "string option \<Rightarrow> (nat option \<times> code) option \<Rightarrow> nat option \<Rightarrow> Emitter \<Rightarrow> Emitter option" where
  "compile_catch param catch_block s g =
     do {
       let (err_r, g) = alloc_register g;
       let g = emit_instruction (abc OP_CATCH_BEGIN err_r 0 0) g;
       g \<leftarrow> (case catch_block of
              Some (cs, c) \<Rightarrow>
                do {
                  let g = store_catch_param param cs err_r g;
                  let (cr, g) = alloc_register g;
                  g \<leftarrow> c s cr g;
                  Some (free_registers cr g)
                }
            | None \<Rightarrow> Some (emit_instruction (abc OP_THROW err_r 0 0) g));
       Some (free_registers err_r g)
     }"

definition compile_finally :: "nat \<Rightarrow> code \<Rightarrow> nat option \<Rightarrow> Emitter \<Rightarrow> Emitter option" where
  "compile_finally outer_try_idx fin s g =
     do {
       let g = emit_instruction (abc OP_TRY_END 0 0 0) g;
       let jof_idx = here g;
       let g = emit_instruction (asbx OP_JUMP 0 0) g;
       let g = patch_jump outer_try_idx OP_TRY_BEGIN 0 g;
       let (oe_r, g) = alloc_register g;
       let g = emit_instruction (abc OP_CATCH_BEGIN oe_r 0 0) g;
       let (fr, g) = alloc_register g;
       g \<leftarrow> fin s fr g;
       let g = free_registers fr g;
       let g = emit_instruction (abc OP_THROW oe_r 0 0) g;
       let g = free_registers oe_r g;
       let g = patch_jump jof_idx OP_JUMP 0 g;
       let (fr, g) = alloc_register g;
       g \<leftarrow> fin s fr g;
       Some (free_registers fr g)
     }"

definition compile_try ::
  "code \<Rightarrow> string option \<Rightarrow> (nat option \<times> code) option \<Rightarrow> code option \<Rightarrow> code" where
  "compile_try try_block param catch_block finally_block s dest g =
     do {
       let outer_try_idx = here g;
       let g = (if Option.is_none finally_block then g else emit_instruction (asbx OP_TRY_BEGIN 0 0) g);
       let inner_try_idx = here g;
       let g = emit_instruction (asbx OP_TRY_BEGIN 0 0) g;
       let (try_r, g) = alloc_register g;
       g \<leftarrow> try_block s try_r g;
       let g = free_registers try_r g;
       let g = emit_instruction (abc OP_TRY_END 0 0 0) g;
       let joc_idx = here g;
       let g = emit_instruction (asbx OP_JUMP 0 0) g;
       let g = patch_jump inner_try_idx OP_TRY_BEGIN 0 g;
       g \<leftarrow> compile_catch param catch_block s g;
       let g = patch_jump joc_idx OP_JUMP 0 g;
       g \<leftarrow> (case finally_block of None \<Rightarrow> Some g | Some f \<Rightarrow> compile_finally outer_try_idx f s g);
       load_undefined s dest g
     }"

text \<open>\<open>return\<close> and \<open>throw\<close>.\<close>

definition compile_leave :: "Opcode \<Rightarrow> code \<Rightarrow> code" where
  "compile_leave oc expr s dest g =
     do {
       let (r, g) = alloc_register g;
       g \<leftarrow> expr s r g;
       let g = emit_instruction (abc oc r 0 0) g;
       load_undefined s dest (free_registers r g)
     }"

section \<open>Functions and classes\<close>

definition param_register :: "nat option \<Rightarrow> string option \<Rightarrow> Emitter \<Rightarrow> Emitter" where
  "param_register f_scope name g =
     (case name of
        None \<Rightarrow> g
      | Some x \<Rightarrow>
          (case lookup f_scope x g of
             Some (c, i, _) \<Rightarrow> let (r, g) = alloc_register g in set_reg c i r g
           | None \<Rightarrow> g))"

text \<open>A default value without a name is looked up with a null pointer.\<close>

definition param_default :: "nat option \<Rightarrow> string option \<times> code option \<Rightarrow> Emitter \<Rightarrow> Emitter option" where
  "param_default f_scope p g =
     (case (snd p, f_scope) of
        (Some default_val, Some fs) \<Rightarrow>
          (case fst p of
             None \<Rightarrow> None
           | Some x \<Rightarrow>
               (case lookup f_scope x g of
                  None \<Rightarrow> Some g
                | Some (c, i, _) \<Rightarrow>
                    if reg (symbol_at c i g) < 0 then Some g
                    else
                      do {
                        let (undef_test_r, g) = alloc_register g;
                        let g = emit_instruction (abc OP_LOAD_UNDEFINED undef_test_r 0 0) g;
                        let (eq_r, g) = alloc_register g;
                        let g = emit_instruction (abc OP_EQ eq_r (reg (symbol_at c i g)) undef_test_r) g;
                        let g = free_registers undef_test_r g;
                        let jf_i = here g;
                        let g = emit_instruction (asbx OP_JUMP_IF_FALSE eq_r 0) g;
                        let g = free_registers eq_r g;
                        let (def_r, g) = alloc_register g;
                        g \<leftarrow> default_val f_scope def_r g;
                        let g = emit_instruction (abc OP_MOVE (reg (symbol_at c i g)) def_r 0) g;
                        let g = free_registers def_r g;
                        Some (patch_jump jf_i OP_JUMP_IF_FALSE (uint (INST_A (bytecode g ! jf_i))) g)
                      }))
      | _ \<Rightarrow> Some g)"

definition param_capture :: "nat option \<Rightarrow> nat \<times> string option \<Rightarrow> Emitter \<Rightarrow> Emitter" where
  "param_capture f_scope p g =
     (case snd p of
        None \<Rightarrow> g
      | Some x \<Rightarrow>
          (case lookup f_scope x g of
             Some (c, i, _) \<Rightarrow>
               if is_captured (symbol_at c i g)
               then emit_instruction (abc OP_STORE_ENV (int (fst p)) (env_index (symbol_at c i g)) 0) g
               else g
           | None \<Rightarrow> g))"

definition function_env :: "nat option \<Rightarrow> string option list \<Rightarrow> Emitter \<Rightarrow> Emitter" where
  "function_env f_scope names g =
     (case f_scope of
        None \<Rightarrow> g
      | Some c \<Rightarrow>
          if num_captured_vars (scopes_of g ! c) > 0 then
            let (env_r, g) = alloc_register g;
                g = emit_instruction (abc OP_NEW_ENV env_r (num_captured_vars (scopes_of g ! c)) 0) g
            in fold (param_capture f_scope) (zip [0..<length names] names) g
          else g)"

text \<open>Binding the name of a function or a class declaration.\<close>

definition bind_name :: "string option \<Rightarrow> nat option \<Rightarrow> int \<Rightarrow> Emitter \<Rightarrow> Emitter" where
  "bind_name name s r g = store_catch_param name s r g"

definition compile_function ::
  "nat option \<Rightarrow> string option \<Rightarrow> (string option \<times> code option) list \<Rightarrow> code \<Rightarrow> bool \<Rightarrow> bool \<Rightarrow> code" where
  "compile_function f_scope name params body async implicit_return s dest g =
     do {
       let jump_idx = here g;
       let g = emit_instruction (asbx OP_JUMP 0 0) g;
       let outer_nr = next_reg g;
       let outer_mr = max_reg g;
       let func_idx = length (funcs g);
       let g = fold (param_register f_scope) (map fst params) (g\<lparr>next_reg := 0, max_reg := 0\<rparr>);
       let g = g\<lparr>funcs := funcs g @ [\<lparr>fi_bytecode_offset = of_nat (here g), fi_register_count = 0,
                  fi_param_count = of_nat (length params), fi_is_async = async\<rparr>]\<rparr>;
       g \<leftarrow> opt_fold (param_default f_scope) params g;
       let g = function_env f_scope (map fst params) g;
       let (body_r, g) = alloc_register g;
       g \<leftarrow> body f_scope body_r g;
       let g = (if implicit_return then g else emit_instruction (abc OP_LOAD_UNDEFINED body_r 0 0) g);
       let g = emit_instruction (abc OP_RETURN body_r 0 0) g;
       let g = g\<lparr>funcs := (funcs g)[func_idx := (funcs g ! func_idx)\<lparr>fi_register_count := word_of_int (max_reg g)\<rparr>]\<rparr>;
       let g = g\<lparr>next_reg := outer_nr, max_reg := outer_mr\<rparr>;
       let skip_target = here g;
       let g = emit_instruction (abx OP_NEW_FUNCTION dest (int func_idx)) g;
       let g = bind_name name s dest g;
       Some (patch jump_idx (asbx OP_JUMP 0 (int skip_target - int jump_idx - 1)) g)
     }"

definition default_constructor :: "int \<Rightarrow> Emitter \<Rightarrow> Emitter" where
  "default_constructor ctor_r g =
     (let jump_idx = here g;
          g = emit_instruction (asbx OP_JUMP 0 0) g;
          fn_idx = length (funcs g);
          g = g\<lparr>funcs := funcs g @ [\<lparr>fi_bytecode_offset = of_nat (here g), fi_register_count = 1,
                 fi_param_count = 0, fi_is_async = False\<rparr>]\<rparr>;
          g = emit_instruction (abc OP_LOAD_UNDEFINED 0 0 0) g;
          g = emit_instruction (abc OP_RETURN 0 0 0) g;
          g = patch_jump jump_idx OP_JUMP 0 g
      in emit_instruction (abx OP_NEW_FUNCTION ctor_r (int fn_idx)) g)"

text \<open>A method: its descriptor, the code of its function and the code of its computed name.\<close>

type_synonym methodcode = "ASTClassMethod \<times> code \<times> code"

definition is_constructor :: "methodcode \<Rightarrow> bool" where
  "is_constructor m \<longleftrightarrow> m_name (fst m) = Some ''constructor''"

definition compile_method :: "nat option \<Rightarrow> int \<Rightarrow> int \<Rightarrow> methodcode \<Rightarrow> Emitter \<Rightarrow> Emitter option" where
  "compile_method s ctor_r proto_r = (\<lambda>(m, fcode, ncode) g.
     if is_constructor (m, fcode, ncode) \<or> m_func m = AST_NULL then Some g
     else
       do {
         let (mfn_r, g) = alloc_register g;
         g \<leftarrow> fcode s mfn_r g;
         let (mk_r, g) = alloc_register g;
         g \<leftarrow> (if m_computed m \<and> m_name_expr m \<noteq> AST_NULL then ncode s mk_r g
              else case m_name m of Some x \<Rightarrow> Some (load_string x mk_r g) | None \<Rightarrow> Some g);
         let g = emit_instruction (abc OP_STORE_PROP (if m_static m then ctor_r else proto_r) mk_r mfn_r) g;
         Some (free_registers mfn_r (free_registers mk_r g))
       })"

definition compile_superclass :: "code option \<Rightarrow> nat option \<Rightarrow> Emitter \<Rightarrow> Emitter option" where
  "compile_superclass super s g =
     (case super of
        None \<Rightarrow> Some g
      | Some c \<Rightarrow>
          do {
            let (super_r, g) = alloc_register g;
            g \<leftarrow> c s super_r g;
            let (obj_r, g) = alloc_register g;
            let g = load_global ''Object'' obj_r g;
            Some (free_registers super_r (free_registers obj_r g))
          })"

definition compile_class :: "string option \<Rightarrow> code option \<Rightarrow> methodcode list \<Rightarrow> code" where
  "compile_class name super ms s dest g =
     do {
       g \<leftarrow> (case find is_constructor ms of
              Some (m, fcode, _) \<Rightarrow>
                if m_func m \<noteq> AST_NULL then fcode s dest g else Some (default_constructor dest g)
            | None \<Rightarrow> Some (default_constructor dest g));
       g \<leftarrow> compile_superclass super s g;
       let (proto_key_r, g) = alloc_register g;
       let g = load_string ''prototype'' proto_key_r g;
       let (proto_r, g) = alloc_register g;
       let g = emit_instruction (abc OP_LOAD_PROP proto_r dest proto_key_r) g;
       let g = free_registers proto_key_r g;
       g \<leftarrow> opt_fold (compile_method s dest proto_r) ms g;
       let g = free_registers proto_r g;
       Some (bind_name name s dest g)
     }"

section \<open>All nodes\<close>

definition maybe :: "ast \<Rightarrow> 'a \<Rightarrow> 'a option" where
  "maybe node c = (if node = AST_NULL then None else Some c)"

primrec compile :: "ast \<Rightarrow> nodecode"
  and compile_binding :: "ASTBindingElem \<Rightarrow> bindcode"
  and compile_switch_case :: "ASTSwitchCase \<Rightarrow> code option \<times> code list"
  and compile_param :: "ASTParam \<Rightarrow> string option \<times> code option"
  and compile_prop :: "ASTProperty \<Rightarrow> string option \<times> code \<times> code \<times> nat"
  and compile_class_method :: "ASTClassMethod \<Rightarrow> methodcode"
where
  "compile AST_NULL = plain load_undefined"
| "compile (AST_LITERAL_NUMBER v) = plain (compile_number v)"
| "compile (AST_LITERAL_STRING str) = plain (\<lambda>s dest g. Some (load_string str dest g))"
| "compile (AST_LITERAL_BOOL b) =
     plain (\<lambda>s dest g. Some (emit_instruction (abc OP_LOAD_BOOL dest (if b then 1 else 0) 0) g))"
| "compile AST_LITERAL_NULL = plain (\<lambda>s dest g. Some (emit_instruction (abc OP_LOAD_NULL dest 0 0) g))"
| "compile AST_LITERAL_UNDEFINED = plain load_undefined"
| "compile (AST_LITERAL_REGEX pattern flags) = plain (compile_regex pattern flags)"
| "compile (AST_IDENTIFIER name) = plain (compile_identifier name)"
| "compile (AST_VAR_DECL name init c u au bs arr) =
     NodeCode (compile_var_decl name (run (compile init)) (map compile_binding bs) arr) no_code no_code
       (Some (map compile_binding bs, arr))"
| "compile (AST_ASSIGN t v op) = plain (compile_assign t (compile t) (run (compile v)) op)"
| "compile (AST_BINARY op l r) = plain (compile_binary op (run (compile l)) (run (compile r)))"
| "compile (AST_UNARY op e) = plain (compile_unary op e (compile e))"
| "compile (AST_POSTFIX op e) = plain (compile_postfix op e (compile e))"
| "compile (AST_TERNARY c t e) = plain (compile_ternary (run (compile c)) (run (compile t)) (run (compile e)))"
| "compile (AST_CALL f as) = plain (compile_call OP_CALL (run (compile f)) (map (\<lambda>a. run (compile a)) as))"
| "compile (AST_NEW_CALL f as) =
     plain (compile_call OP_NEW_CALL (run (compile f)) (map (\<lambda>a. run (compile a)) as))"
| "compile (AST_BLOCK inner es inl) = plain (compile_block inner (map (\<lambda>e. (e, run (compile e))) es))"
| "compile (AST_IF c t e) =
     plain (compile_if (run (compile c)) (run (compile t)) (maybe e (run (compile e))))"
| "compile (AST_WHILE c b) = plain (compile_while (run (compile c)) (run (compile b)))"
| "compile (AST_DO_WHILE c b) = plain (compile_do_while (run (compile c)) (run (compile b)))"
| "compile (AST_FOR inner i c u b) =
     plain (compile_for inner (maybe i (run (compile i))) (maybe c (run (compile c))) (maybe u (run (compile u)))
       (run (compile b)))"
| "compile (AST_FOR_OF inner name decl e b c aw) =
     plain (compile_for_of inner name decl (compile decl) (run (compile e)) (run (compile b)) aw)"
| "compile (AST_FOR_IN inner name decl e b c) =
     plain (compile_for_in inner name (run (compile e)) (run (compile b)))"
| "compile (AST_BREAK l) = plain compile_break"
| "compile (AST_CONTINUE l) = plain compile_continue"
| "compile (AST_SWITCH d cs) = plain (compile_switch (run (compile d)) (map compile_switch_case cs))"
| "compile (AST_RETURN e) = plain (compile_leave OP_RETURN (run (compile e)))"
| "compile (AST_FUNCTION inner name ps b as g ar cb) =
     plain (compile_function inner name (map compile_param ps) (run (compile b)) as (cb \<and> ar))"
| "compile (AST_OBJECT ps) = plain (compile_object (map compile_prop ps))"
| "compile (AST_ARRAY es) = plain (compile_array (map (\<lambda>e. (e, run (compile e))) es))"
| "compile (AST_SPREAD e) = plain (run (compile e))"
| "compile (AST_TEMPLATE_LITERAL es) = plain (compile_template (map (\<lambda>e. run (compile e)) es))"
| "compile (AST_PROP_ACCESS ob p c) =
     NodeCode (compile_prop_access (run (compile ob)) (run (compile p))) (run (compile ob)) (run (compile p)) None"
| "compile (AST_OPTIONAL_CHAIN ob p c opt) =
     NodeCode (compile_optional_chain (run (compile ob)) (maybe p (run (compile p))))
       (run (compile ob)) (run (compile p)) None"
| "compile (AST_EXPR_STMT e) = plain (run (compile e))"
| "compile (AST_AWAIT e) = plain (compile_suspend OP_AWAIT (run (compile e)))"
| "compile (AST_YIELD e d) = plain (compile_suspend OP_YIELD (run (compile e)))"
| "compile (AST_TRY t param c f) =
     plain (compile_try (run (compile t)) param (maybe c (catch_scope c, run (compile c))) (maybe f (run (compile f))))"
| "compile (AST_THROW e) = plain (compile_leave OP_THROW (run (compile e)))"
| "compile (AST_SEQUENCE es) = plain (compile_sequence (map (\<lambda>e. run (compile e)) es))"
| "compile (AST_CLASS name super ms) =
     plain (compile_class name (maybe super (run (compile super))) (map compile_class_method ms))"
| "compile AST_EMPTY = plain load_undefined"
| "compile_binding (Binding name d key rest) = (name, key, maybe d (run (compile d)))"
| "compile_switch_case (SwitchCase t b) = (maybe t (run (compile t)), map (\<lambda>e. run (compile e)) b)"
| "compile_param (Param name d rest) = (name, maybe d (run (compile d)))"
| "compile_prop (Property k ke v fl) = (k, run (compile ke), run (compile v), fl)"
| "compile_class_method (ClassMethod n ne cm st ge se as gen f) =
     (ClassMethod n ne cm st ge se as gen f, run (compile f), run (compile ne))"

definition compile_node :: "ast \<Rightarrow> code" where
  "compile_node node = run (compile node)"

section \<open>Programs\<close>

record CompiledProgram =
  p_const_pool :: "Value list"
  p_bytecode :: "u32 list"
  p_ic_table :: "u32 list"
  p_functions :: "CompilerFuncInfo list"

datatype compiled = Syntax_error | Crash fault | Null_access | Compiled CompiledProgram heap

text \<open>The second half of \<open>compile_source\<close>, for a root node.\<close>

definition compile_root :: "ast \<Rightarrow> heap \<Rightarrow> Emitter option" where
  "compile_root root h =
     do {
       let (global_scope, ss) = create_scope None True [];
       let (root, ss) = resolve_identifiers root global_scope ss;
       let g = \<lparr>const_pool = [], bytecode = [], funcs = [\<lparr>fi_bytecode_offset = 0, fi_register_count = 0,
                  fi_param_count = 0, fi_is_async = False\<rparr>], mem = h, scopes_of = ss, next_reg = 0, max_reg = 0,
                break_targets = [], continue_targets = []\<rparr>;
       let captured = num_captured_vars (ss ! global_scope);
       let g = (if captured > 0
                then let (er, g) = alloc_register g
                     in free_registers er (emit_instruction (abc OP_NEW_ENV er captured 0) g)
                else g);
       let (result_reg, g) = alloc_register g;
       g \<leftarrow> compile_node root (Some global_scope) result_reg g;
       let g = emit_instruction (abc OP_RETURN result_reg 0 0) g;
       Some (g\<lparr>funcs := (funcs g)[0 := (funcs g ! 0)\<lparr>fi_register_count := word_of_int (max_reg g)\<rparr>]\<rparr>)
     }"

definition program_of :: "Emitter \<Rightarrow> CompiledProgram" where
  "program_of g = \<lparr>p_const_pool = const_pool g, p_bytecode = bytecode g,
     p_ic_table = replicate (length (bytecode g)) 0xFFFFFFFF, p_functions = funcs g\<rparr>"

definition compile_source :: "string \<Rightarrow> heap \<Rightarrow> compiled" where
  "compile_source src h =
     (case parse_source src of
        Inl f \<Rightarrow> Crash f
      | Inr (root, has_err) \<Rightarrow>
          if has_err then Syntax_error
          else case compile_root root h of
                 None \<Rightarrow> Null_access
               | Some g \<Rightarrow> Compiled (program_of g) (mem g))"

end
