(* ===== verification/Bytecode_File.thy ===== *)
theory Bytecode_File
  imports Codegen
begin

text \<open>
  The bytecode file format: \<open>serialize_program\<close> and \<open>deserialize_program\<close> of \<open>src/src/compiler.c\<close>. A file is the list
  of its bytes; integers are stored as the machine has them in memory, the low byte first. \<open>None\<close> stands
  for an access outside a buffer: the writer has it when its 32-bit size counter wraps around, the reader,
  which checks nothing after the header, when the file is shorter than the header says.
\<close>

section \<open>Bytes\<close>

primrec bytes_of :: "nat \<Rightarrow> 'a::len word \<Rightarrow> u8 list" where
  "bytes_of 0 w = []"
| "bytes_of (Suc n) w = ucast w # bytes_of n (drop_bit 8 w)"

primrec word_of_bytes :: "u8 list \<Rightarrow> 'a::len word" where
  "word_of_bytes [] = 0"
| "word_of_bytes (b # bs) = ucast b OR push_bit 8 (word_of_bytes bs)"

definition byte_of_char :: "char \<Rightarrow> u8" where
  "byte_of_char c = of_nat (of_char c)"

definition char_of_byte :: "u8 \<Rightarrow> char" where
  "char_of_byte b = char_of (unat b)"

text \<open>\<open>memcpy\<close> from the read position, which moves on.\<close>

definition read_bytes :: "nat \<Rightarrow> u8 list \<Rightarrow> (u8 list \<times> u8 list) option" where
  "read_bytes n bs = (if n \<le> length bs then Some (take n bs, drop n bs) else None)"

definition read_u32 :: "u8 list \<Rightarrow> (u32 \<times> u8 list) option" where
  "read_u32 bs = map_option (apfst word_of_bytes) (read_bytes 4 bs)"

section \<open>Writing\<close>

definition CBC_MAGIC :: "u8 list" where
  "CBC_MAGIC = [67, 66, 67, 0]"

definition header_bytes :: "CompiledProgram \<Rightarrow> u8 list" where
  "header_bytes p = CBC_MAGIC @ bytes_of 4 (1 :: u32) @ bytes_of 4 (of_nat (length (p_const_pool p)) :: u32) @
     bytes_of 4 (of_nat (length (p_bytecode p)) :: u32) @ bytes_of 4 (of_nat (length (p_functions p)) :: u32)"

definition const_bytes :: "heap \<Rightarrow> Value \<Rightarrow> u8 list option" where
  "const_bytes h v =
     (if IS_POINTER v
      then map_option (\<lambda>s. 1 # bytes_of 4 (of_nat (length s) :: u32) @ map byte_of_char s) (str_of h v)
      else Some (0 # bytes_of 8 v))"

definition func_bytes :: "CompilerFuncInfo \<Rightarrow> u8 list" where
  "func_bytes f = bytes_of 4 (fi_bytecode_offset f) @ bytes_of 4 (fi_register_count f) @ bytes_of 4 (fi_param_count f)"

definition serialize_program :: "heap \<Rightarrow> CompiledProgram \<Rightarrow> u8 list option" where
  "serialize_program h p =
     do {
       cs \<leftarrow> those (map (const_bytes h) (p_const_pool p));
       let out = header_bytes p @ concat cs @ concat (map (bytes_of 4) (p_bytecode p)) @
                   concat (map func_bytes (p_functions p));
       if length out < 2 ^ 32 then Some out else None
     }"

section \<open>Reading\<close>

definition read_const :: "u8 list \<Rightarrow> heap \<Rightarrow> (Value \<times> u8 list \<times> heap) option" where
  "read_const bs h =
     do {
       (tag, bs) \<leftarrow> read_bytes 1 bs;
       if tag = [1]
       then do {
         (len, bs) \<leftarrow> read_u32 bs;
         (s, bs) \<leftarrow> read_bytes (unat len) bs;
         let (v, h) = heap_alloc (OString (map char_of_byte s)) h;
         Some (v, bs, h)
       }
       else do { (u, bs) \<leftarrow> read_bytes 8 bs; Some (word_of_bytes u, bs, h) }
     }"

fun read_consts :: "nat \<Rightarrow> u8 list \<Rightarrow> heap \<Rightarrow> (Value list \<times> u8 list \<times> heap) option" where
  "read_consts 0 bs h = Some ([], bs, h)"
| "read_consts (Suc n) bs h =
     do { (v, bs, h) \<leftarrow> read_const bs h; (vs, bs, h) \<leftarrow> read_consts n bs h; Some (v # vs, bs, h) }"

fun read_many :: "(u8 list \<Rightarrow> ('a \<times> u8 list) option) \<Rightarrow> nat \<Rightarrow> u8 list \<Rightarrow> ('a list \<times> u8 list) option" where
  "read_many rd 0 bs = Some ([], bs)"
| "read_many rd (Suc n) bs = do { (x, bs) \<leftarrow> rd bs; (xs, bs) \<leftarrow> read_many rd n bs; Some (x # xs, bs) }"

definition read_func :: "u8 list \<Rightarrow> (CompilerFuncInfo \<times> u8 list) option" where
  "read_func bs =
     do {
       (off, bs) \<leftarrow> read_u32 bs;
       (regs, bs) \<leftarrow> read_u32 bs;
       (params, bs) \<leftarrow> read_u32 bs;
       Some (\<lparr>fi_bytecode_offset = off, fi_register_count = regs, fi_param_count = params, fi_is_async = False\<rparr>, bs)
     }"

text \<open>The inner \<open>None\<close> is the null pointer that rejects the file.\<close>

definition deserialize_program :: "u8 list \<Rightarrow> heap \<Rightarrow> (CompiledProgram \<times> heap) option option" where
  "deserialize_program data h =
     (if length data < 20 then Some None
      else do {
        (magic, bs) \<leftarrow> read_bytes 4 data;
        (version, bs) \<leftarrow> read_u32 bs;
        (const_count, bs) \<leftarrow> read_u32 bs;
        (inst_count, bs) \<leftarrow> read_u32 bs;
        (func_count, bs) \<leftarrow> read_u32 bs;
        if magic \<noteq> CBC_MAGIC \<or> version \<noteq> 1 then Some None
        else do {
          (consts, bs, h) \<leftarrow> read_consts (unat const_count) bs h;
          (code, bs) \<leftarrow> read_many read_u32 (unat inst_count) bs;
          (fs, bs) \<leftarrow> read_many read_func (unat func_count) bs;
          Some (Some (\<lparr>p_const_pool = consts, p_bytecode = code, p_ic_table = replicate (length code) 0xFFFFFFFF,
            p_functions = fs\<rparr>, h))
        }
      })"

section \<open>What is written is read back\<close>

lemma length_bytes_of [simp]: "length (bytes_of n w) = n"
  by (induction n arbitrary: w) auto

lemma word_of_bytes_of: "word_of_bytes (bytes_of n (w :: 'a::len word)) = take_bit (8 * n) w"
proof (induction n arbitrary: w)
  case (Suc n)
  have "ucast (ucast w :: u8) OR push_bit 8 (take_bit (8 * n) (drop_bit 8 w)) = take_bit (8 * Suc n) w"
    by (rule bit_word_eqI) (auto simp: bit_simps)
  then show ?case using Suc by simp
qed simp

lemma char_of_byte_of_char [simp]: "char_of_byte (byte_of_char c) = c"
  by (simp add: char_of_byte_def byte_of_char_def unsigned_of_nat take_bit_nat_eq_self)

lemma read_bytes_append [simp]: "n = length xs \<Longrightarrow> read_bytes n (xs @ bs) = Some (xs, bs)"
  by (simp add: read_bytes_def)

lemma read_bytes_one [simp]: "read_bytes (Suc 0) (b # bs) = Some ([b], bs)"
  by (simp add: read_bytes_def)

text \<open>A format: what a reader gives for what a writer wrote, with anything behind it.\<close>

locale codec =
  fixes wr :: "'a \<Rightarrow> u8 list" and rd :: "u8 list \<Rightarrow> ('b \<times> u8 list) option" and norm :: "'a \<Rightarrow> 'b"
  assumes read_write: "rd (wr x @ bs) = Some (norm x, bs)"
begin

lemma read_many_write: "read_many rd (length xs) (concat (map wr xs) @ bs) = Some (map norm xs, bs)"
  by (induction xs) (simp_all add: read_write)

end

interpretation u32: codec "bytes_of 4 :: u32 \<Rightarrow> u8 list" read_u32 id
  by unfold_locales (simp add: read_u32_def word_of_bytes_of take_bit_word_eq_self)

interpretation func: codec func_bytes read_func "\<lambda>f. f\<lparr>fi_is_async := False\<rparr>"
  by unfold_locales (simp add: func_bytes_def read_func_def u32.read_write)

text \<open>A constant before and after: numbers are the same value, strings have the same characters.\<close>

definition same_const :: "heap \<Rightarrow> heap \<Rightarrow> Value \<Rightarrow> Value \<Rightarrow> bool" where
  "same_const h h' v v' = (if IS_POINTER v then str_of h' v' = str_of h v else v' = v)"

lemma room_alloc: "heap_alloc ob h = (v, h') \<Longrightarrow> room h (Suc n) \<Longrightarrow> room h' n"
  by (auto simp: heap_alloc_def room_def unat_word_ariths)

lemma read_const_string:
  assumes "str_of h v = Some s" "length s < 2 ^ 32" "const_bytes h v = Some c" "heap_ok h'" "room h' (Suc n)"
  shows "\<exists>v' h''. read_const (c @ bs) h' = Some (v', bs, h'') \<and> same_const h h'' v v' \<and> extends h' h'' \<and> heap_ok h'' \<and> room h'' n"
proof -
  have p: "IS_POINTER v" using assms(1) by (auto simp: str_of_def deref_def split: if_splits)
  have c: "c = [1] @ bytes_of 4 (of_nat (length s) :: u32) @ map byte_of_char s"
    using assms(1,3) p by (simp add: const_bytes_def)
  have len: "unat (of_nat (length s) :: u32) = length s" using assms(2) by (simp add: unsigned_of_nat take_bit_nat_eq_self)
  obtain v' h'' where al: "heap_alloc (OString s) h' = (v', h'')" by force
  have rd: "read_const (c @ bs) h' = Some (v', bs, h'')"
    using al by (simp add: c read_const_def u32.read_write len comp_def)
  have room1: "room h' 1" using assms(5) by (simp add: room_def)
  have "same_const h h'' v v'"
    using heap_alloc_laws(1) [OF assms(4) room1 al] assms(1) p by (simp add: same_const_def str_of_def)
  with rd heap_alloc_laws(2,3) [OF assms(4) room1 al] room_alloc [OF al assms(5)] show ?thesis by blast
qed

lemma read_const_number:
  assumes "\<not> IS_POINTER v" "const_bytes h v = Some c"
  shows "read_const (c @ bs) h' = Some (v, bs, h')"
proof -
  have c: "c = [0] @ bytes_of 8 v" using assms by (simp add: const_bytes_def)
  show ?thesis by (simp add: c read_const_def word_of_bytes_of take_bit_word_eq_self)
qed

lemma same_const_extends:
  "same_const h h' v v' \<Longrightarrow> extends h' h'' \<Longrightarrow> IS_POINTER v \<longrightarrow> str_of h v \<noteq> None \<Longrightarrow> same_const h h'' v v'"
  by (auto simp: same_const_def intro: extends_str)

lemma const_bytes_string: "const_bytes h v = Some c \<Longrightarrow> IS_POINTER v \<Longrightarrow> \<exists>s. str_of h v = Some s \<and> length s < length c"
  by (auto simp: const_bytes_def)

lemma read_consts_written:
  assumes "those (map (const_bytes h) vs) = Some cs" "length (concat cs) < 2 ^ 32" "heap_ok h'" "room h' (length vs)"
  shows "\<exists>vs' h''. read_consts (length vs) (concat cs @ bs) h' = Some (vs', bs, h'') \<and>
    list_all2 (same_const h h'') vs vs' \<and> extends h' h''"
  using assms
proof (induction vs arbitrary: cs h')
  case (Cons v vs)
  obtain c cs' where c: "const_bytes h v = Some c" "those (map (const_bytes h) vs) = Some cs'" "cs = c # cs'"
    using Cons.prems(1) by (auto split: option.splits)
  have "\<exists>v' h1. read_const (c @ concat cs' @ bs) h' = Some (v', concat cs' @ bs, h1) \<and> same_const h h1 v v' \<and>
      extends h' h1 \<and> heap_ok h1 \<and> room h1 (length vs)"
  proof (cases "IS_POINTER v")
    case True
    then obtain s where s: "str_of h v = Some s" "length s < length c" using const_bytes_string [OF c(1)] by blast
    with Cons.prems(2) c(3) have "length s < 2 ^ 32" by simp
    from read_const_string [OF s(1) this c(1) Cons.prems(3), of "length vs" "concat cs' @ bs"] Cons.prems(4)
    show ?thesis by simp
  next
    case False
    with read_const_number [OF False c(1), of "concat cs' @ bs" h'] Cons.prems(3,4) show ?thesis
      by (auto simp: same_const_def room_def)
  qed
  then obtain v' h1 where v': "read_const (c @ concat cs' @ bs) h' = Some (v', concat cs' @ bs, h1)" "same_const h h1 v v'"
    "extends h' h1" "heap_ok h1" "room h1 (length vs)" by blast
  from Cons.IH [OF c(2) _ v'(4,5)] Cons.prems(2) c(3)
  obtain vs' h2 where vs': "read_consts (length vs) (concat cs' @ bs) h1 = Some (vs', bs, h2)"
    "list_all2 (same_const h h2) vs vs'" "extends h1 h2" by auto
  have "same_const h h2 v v'"
    using same_const_extends [OF v'(2) vs'(3)] const_bytes_string [OF c(1)] by auto
  with v'(1) vs' extends_trans [OF v'(3) vs'(3)] show ?case by (simp add: c(3))
qed simp

lemma written_lengths:
  "length (concat (map (bytes_of 4) (ws :: u32 list))) = 4 * length ws"
  "length (concat (map func_bytes fs)) = 12 * length fs"
  by (induction ws; simp) (induction fs; simp add: func_bytes_def)

lemma consts_length: "those (map (const_bytes h) vs) = Some cs \<Longrightarrow> length vs \<le> length (concat cs)"
proof (induction vs arbitrary: cs)
  case (Cons v vs)
  then obtain c cs' where c: "const_bytes h v = Some c" "those (map (const_bytes h) vs) = Some cs'" "cs = c # cs'"
    by (auto split: option.splits)
  have "0 < length c" using c(1) by (auto simp: const_bytes_def split: if_splits)
  then have "1 \<le> length c" by linarith
  with Cons.IH [OF c(2)] show ?case unfolding c(3) concat.simps length_append list.size by linarith
qed simp

text \<open>
  C20 (roundtrip): a program that is written to a bytecode file and read into another heap
  has the same code and the same function table, except that every function is synchronous; its number constants
  are the same values and its string constants have the same characters; every object of the heap it is read
  into stays; and its inline cache is empty.
\<close>

theorem bytecode_file_roundtrip:
  assumes "serialize_program h p = Some out" "heap_ok h'" "room h' (length (p_const_pool p))"
  shows "\<exists>p' h''. deserialize_program out h' = Some (Some (p', h'')) \<and> p_bytecode p' = p_bytecode p \<and>
    p_functions p' = map (\<lambda>f. f\<lparr>fi_is_async := False\<rparr>) (p_functions p) \<and>
    list_all2 (same_const h h'') (p_const_pool p) (p_const_pool p') \<and> extends h' h'' \<and>
    p_ic_table p' = replicate (length (p_bytecode p)) 0xFFFFFFFF"
proof -
  obtain cs where cs: "those (map (const_bytes h) (p_const_pool p)) = Some cs"
    and out: "out = header_bytes p @ concat cs @ concat (map (bytes_of 4) (p_bytecode p)) @
      concat (map func_bytes (p_functions p)) @ []" and len: "length out < 2 ^ 32"
    using assms(1) by (auto simp: serialize_program_def split: if_splits bind_splits)
  let ?rest = "concat (map (bytes_of 4) (p_bytecode p)) @ concat (map func_bytes (p_functions p)) @ []"
  have counts: "length (concat cs) < 2 ^ 32" "length (p_const_pool p) < 2 ^ 32" "length (p_bytecode p) < 2 ^ 32"
    "length (p_functions p) < 2 ^ 32"
    using len consts_length [OF cs] unfolding out length_append written_lengths by linarith+
  then have nums: "unat (of_nat (length (p_const_pool p)) :: u32) = length (p_const_pool p)"
    "unat (of_nat (length (p_bytecode p)) :: u32) = length (p_bytecode p)"
    "unat (of_nat (length (p_functions p)) :: u32) = length (p_functions p)"
    by (simp_all add: unsigned_of_nat take_bit_nat_eq_self)
  from read_consts_written [OF cs counts(1) assms(2,3)] obtain vs h'' where vs:
    "read_consts (length (p_const_pool p)) (concat cs @ ?rest) h' = Some (vs, ?rest, h'')"
    "list_all2 (same_const h h'') (p_const_pool p) vs" "extends h' h''" by blast
  let ?p = "\<lparr>p_const_pool = vs, p_bytecode = p_bytecode p, p_ic_table = replicate (length (p_bytecode p)) 0xFFFFFFFF,
    p_functions = map (\<lambda>f. f\<lparr>fi_is_async := False\<rparr>) (p_functions p)\<rparr>"
  have "\<not> length out < 20" by (simp add: out header_bytes_def CBC_MAGIC_def)
  moreover have "read_bytes 4 (CBC_MAGIC @ bs) = Some (CBC_MAGIC, bs)" for bs
    by (rule read_bytes_append) (simp add: CBC_MAGIC_def)
  ultimately have "deserialize_program out h' = Some (Some (?p, h''))"
    by (simp add: deserialize_program_def)
      (simp add: out header_bytes_def u32.read_write nums vs(1) [simplified] u32.read_many_write
        func.read_many_write [where bs = "[]", simplified])
  with vs(2,3) show ?thesis by (intro exI [of _ ?p] exI [of _ h'']) simp
qed


definition file_heap :: heap where
  "file_heap = \<lparr>objs = [8 \<mapsto> OString ''hi''], brk = 16, interned = [], next_symbol = 0\<rparr>"

definition file_program :: CompiledProgram where
  "file_program = \<lparr>p_const_pool = [make_pointer 8, make_integer 7], p_bytecode = [1, 2], p_ic_table = [],
     p_functions = [\<lparr>fi_bytecode_offset = 0, fi_register_count = 2, fi_param_count = 0, fi_is_async = True\<rparr>]\<rparr>"

lemma file_heap: "str_of file_heap (make_pointer 8) = Some ''hi''" "heap_ok file_heap" "room file_heap (Suc (Suc 0))"
  by (simp_all add: file_heap_def str_of_def deref_make_pointer heap_ok_def room_def MAX_INTERNED_STRINGS_def del: get_make)

theorem bytecode_file_roundtrip_witness:
  "\<exists>out p h. serialize_program file_heap file_program = Some out \<and> deserialize_program out file_heap = Some (Some (p, h)) \<and>
     p_bytecode p = [1, 2] \<and> map fi_is_async (p_functions p) = [False] \<and> str_of h (p_const_pool p ! 0) = Some ''hi'' \<and>
     p_const_pool p ! 1 = make_integer 7"
proof -
  obtain out where out: "serialize_program file_heap file_program = Some out"
    by (simp add: serialize_program_def file_program_def const_bytes_def file_heap header_bytes_def CBC_MAGIC_def func_bytes_def)
  from bytecode_file_roundtrip [OF out file_heap(2)] show ?thesis
    using out file_heap by (auto simp: file_program_def list_all2_Cons1 same_const_def)
qed

end
