(* ===== verification/Interpreter.thy ===== *)
theory Interpreter
  imports Codegen JS_Values
begin

text \<open>
  The bytecode interpreter of \<open>src/src/vm.c\<close>: \<open>vm_run\<close> with its opcode handlers, \<open>vm_throw_error\<close>,
  \<open>vm_call_function\<close> and the frame, register and handler stacks. One definition models one handler.

  \<open>registers\<close> is the register array up to its capacity, \<open>frames\<close> the frame array with the stale frames
  above \<open>frame_count\<close>. A handler of \<open>try\<close> belongs to the activation of \<open>vm_run\<close> that executed
  \<open>setjmp\<close>; activations are numbered, and \<open>longjmp\<close> is defined only into one that is still running.
  \<open>None\<close> is undefined behaviour of C: a register, constant or instruction outside its array, a pointer
  to no object, a conversion out of range, a jump into an activation that has returned.

  Native functions, \<open>console.log\<close>, the task queues that a top-level call drains and the contents of fresh
  memory are parameters (\<open>host\<close>). An async call would start a coroutine, which is not modelled: it
  ends in \<open>Coroutine\<close>. The collector's root stack is kept, since natives read it.
\<close>

declare object_get_from.simps [code] object_set.simps [code]

section \<open>State\<close>

record CallFrame =
  cf_prog :: u64
  func :: Value
  ip :: int
  reg_base :: nat
  cf_reg_count :: nat
  env :: Value
  new_target :: Value
  old_this :: Value

record VMErrorHandler =
  saved_frame_count :: nat
  saved_reg_count :: nat
  catch_ip :: int
  activation :: nat

record VM =
  vheap :: heap
  builtin_protos :: protos
  global_obj :: Value
  symbol_iterator :: Value
  symbol_async_iterator :: Value
  programs :: "u64 \<rightharpoonup> CompiledProgram"
  current_prog :: u64
  frames :: "CallFrame list"
  frame_count :: nat
  registers :: "Value list"
  reg_count :: nat
  error_handler :: "VMErrorHandler list"
  gc_roots :: "Value list"
  next_activation :: nat

text \<open>How a piece of execution ends: at the next instruction, with the result of \<open>vm_run\<close> or of a
  call, with an exception for an outer activation, by \<open>exit(1)\<close>, in a coroutine, or without fuel.\<close>

datatype outcome =
  Next int VM
| Finished Value VM
| Threw Value VM
| Exited Value
| Coroutine
| Out_of_fuel

type_synonym caller = "Value \<Rightarrow> Value list \<Rightarrow> VM \<Rightarrow> outcome option"

record host =
  native :: "u64 \<Rightarrow> u64 \<Rightarrow> caller \<Rightarrow> Value \<Rightarrow> Value list \<Rightarrow> VM \<Rightarrow> outcome option"
  console_log :: "Value \<Rightarrow> VM \<Rightarrow> outcome option"
  drain_queues :: "caller \<Rightarrow> VM \<Rightarrow> outcome option"
  fresh_memory :: "nat \<Rightarrow> Value"
  text_depth :: nat

text \<open>A native function gets its code address and \<open>g_current_native_function\<close>, a way to call functions,
  \<open>this\<close> and the arguments. \<open>text_depth\<close> bounds the recursion of \<open>value_to_string\<close> on nested arrays.\<close>

section \<open>Frames, registers and programs\<close>

definition top_frame :: "VM \<Rightarrow> CallFrame" where
  "top_frame vm = frames vm ! (frame_count vm - 1)"

definition set_top_frame :: "CallFrame \<Rightarrow> VM \<Rightarrow> VM" where
  "set_top_frame f vm = vm\<lparr>frames := (frames vm)[frame_count vm - 1 := f]\<rparr>"

definition vm_switch_program :: "u64 \<Rightarrow> VM \<Rightarrow> VM" where
  "vm_switch_program p vm = (if p \<noteq> 0 then vm\<lparr>current_prog := p\<rparr> else vm)"

definition vm_load_program :: "u64 \<Rightarrow> VM \<Rightarrow> VM" where
  "vm_load_program p vm = vm_switch_program p vm"

definition reg_get :: "nat \<Rightarrow> VM \<Rightarrow> Value option" where
  "reg_get a vm =
     (let i = reg_base (top_frame vm) + a in if i < length (registers vm) then Some (registers vm ! i) else None)"

definition reg_set :: "nat \<Rightarrow> Value \<Rightarrow> VM \<Rightarrow> VM option" where
  "reg_set a v vm =
     (let i = reg_base (top_frame vm) + a
      in if i < length (registers vm) then Some (vm\<lparr>registers := (registers vm)[i := v]\<rparr>) else None)"

definition code_at :: "int \<Rightarrow> VM \<Rightarrow> u32 option" where
  "code_at pc vm =
     (case programs vm (current_prog vm) of
        Some p \<Rightarrow> if 0 \<le> pc \<and> pc < int (length (p_bytecode p)) then Some (p_bytecode p ! nat pc) else None
      | None \<Rightarrow> None)"

definition const_at :: "nat \<Rightarrow> VM \<Rightarrow> Value option" where
  "const_at i vm =
     (case programs vm (current_prog vm) of
        Some p \<Rightarrow> if i < length (p_const_pool p) then Some (p_const_pool p ! i) else None
      | None \<Rightarrow> None)"

definition vm_push_root :: "Value \<Rightarrow> VM \<Rightarrow> VM" where
  "vm_push_root v vm = vm\<lparr>gc_roots := gc_roots vm @ [v]\<rparr>"

definition vm_pop_root :: "VM \<Rightarrow> VM" where
  "vm_pop_root vm = vm\<lparr>gc_roots := butlast (gc_roots vm)\<rparr>"

text \<open>Operations of the heap on the VM's heap.\<close>

definition alloc_in :: "(heap \<Rightarrow> Value \<times> heap) \<Rightarrow> VM \<Rightarrow> Value \<times> VM" where
  "alloc_in f vm = (case f (vheap vm) of (v, h) \<Rightarrow> (v, vm\<lparr>vheap := h\<rparr>))"

definition vm_get :: "Value \<Rightarrow> Value \<Rightarrow> VM \<Rightarrow> (Value \<times> VM) option" where
  "vm_get obj key vm =
     map_option (\<lambda>(v, h). (v, vm\<lparr>vheap := h\<rparr>)) (object_get (builtin_protos vm) obj key (vheap vm))"

definition vm_set :: "Value \<Rightarrow> Value \<Rightarrow> Value \<Rightarrow> VM \<Rightarrow> VM option" where
  "vm_set obj key v vm = map_option (\<lambda>h. vm\<lparr>vheap := h\<rparr>) (object_set obj key v (vheap vm))"

definition object_at :: "Value \<Rightarrow> VM \<Rightarrow> hobj option" where
  "object_at v vm = deref (vheap vm) v"

text \<open>The end of a handler: write the result register and go on.\<close>

definition put_next :: "nat \<Rightarrow> Value \<Rightarrow> int \<Rightarrow> VM \<Rightarrow> outcome option" where
  "put_next a v pc vm = map_option (Next (pc + 1)) (reg_set a v vm)"

section \<open>Exceptions\<close>

text \<open>
  \<open>vm_throw_error\<close>. The innermost handler takes the exception: if it belongs to the running activation,
  the \<open>setjmp\<close> branch of \<open>do_try_begin\<close> restores the stacks, leaves the value in the slot above the
  registers and goes to the catch block; if it belongs to an outer one, that activation goes on. Without
  a handler the process ends.
\<close>

definition catch_error :: "Value \<Rightarrow> VMErrorHandler \<Rightarrow> VM \<Rightarrow> outcome option" where
  "catch_error err eh vm =
     (let vm = vm\<lparr>frame_count := saved_frame_count eh, reg_count := saved_reg_count eh,
                  error_handler := tl (error_handler vm)\<rparr>;
          vm = vm_switch_program (cf_prog (top_frame vm)) vm
      in if reg_count vm < length (registers vm)
         then Some (Next (catch_ip eh) (vm\<lparr>registers := (registers vm)[reg_count vm := err]\<rparr>))
         else None)"

definition vm_throw_error :: "nat list \<Rightarrow> Value \<Rightarrow> VM \<Rightarrow> outcome option" where
  "vm_throw_error acts err vm =
     (case error_handler vm of
        [] \<Rightarrow> Some (Exited err)
      | eh # _ \<Rightarrow>
          (case acts of
             [] \<Rightarrow> None
           | act # outer \<Rightarrow>
               if activation eh = act then catch_error err eh vm
               else if activation eh \<in> set outer then Some (Threw err vm) else None))"

definition throw_string :: "nat list \<Rightarrow> string \<Rightarrow> VM \<Rightarrow> outcome option" where
  "throw_string acts msg vm = (let (v, vm) = alloc_in (create_string msg) vm in vm_throw_error acts v vm)"

definition throw_named :: "nat list \<Rightarrow> string \<Rightarrow> string \<Rightarrow> VM \<Rightarrow> outcome option" where
  "throw_named acts kind msg vm =
     (let (m, vm) = alloc_in (create_string msg) vm; (v, vm) = alloc_in (create_error kind m) vm
      in vm_throw_error acts v vm)"

text \<open>What an activation does with the outcome of something it called: a result goes to the rest, an
  exception may be its own.\<close>

definition after_call :: "nat list \<Rightarrow> outcome option \<Rightarrow> (Value \<Rightarrow> VM \<Rightarrow> outcome option) \<Rightarrow> outcome option" where
  "after_call acts r cont =
     (case r of
        None \<Rightarrow> None
      | Some (Finished v vm) \<Rightarrow> cont v vm
      | Some (Threw err vm) \<Rightarrow> vm_throw_error acts err vm
      | Some ot \<Rightarrow> Some ot)"

section \<open>Loads, stores and variables\<close>

definition do_load_const :: "nat \<Rightarrow> nat \<Rightarrow> int \<Rightarrow> VM \<Rightarrow> outcome option" where
  "do_load_const a bx pc vm = Option.bind (const_at bx vm) (\<lambda>v. put_next a v pc vm)"

definition do_load_global :: "nat \<Rightarrow> nat \<Rightarrow> int \<Rightarrow> VM \<Rightarrow> outcome option" where
  "do_load_global a bx pc vm =
     do { key \<leftarrow> const_at bx vm; (v, vm) \<leftarrow> vm_get (global_obj vm) key vm; put_next a v pc vm }"

definition do_store_global :: "nat \<Rightarrow> nat \<Rightarrow> int \<Rightarrow> VM \<Rightarrow> outcome option" where
  "do_store_global a bx pc vm =
     do { key \<leftarrow> const_at bx vm; v \<leftarrow> reg_get a vm; vm \<leftarrow> vm_set (global_obj vm) key v vm; Some (Next (pc + 1) vm) }"

text \<open>The environment \<open>depth\<close> levels out.\<close>

primrec outer_env :: "nat \<Rightarrow> Value \<Rightarrow> VM \<Rightarrow> Value option" where
  "outer_env 0 e vm = Some e"
| "outer_env (Suc n) e vm =
     (case object_at e vm of Some (OEnv p _) \<Rightarrow> outer_env n p vm | _ \<Rightarrow> None)"

definition do_load_env :: "nat list \<Rightarrow> nat \<Rightarrow> nat \<Rightarrow> nat \<Rightarrow> int \<Rightarrow> VM \<Rightarrow> outcome option" where
  "do_load_env acts a idx depth pc vm =
     do {
       e \<leftarrow> outer_env depth (env (top_frame vm)) vm;
       (case object_at e vm of
          Some (OEnv _ vs) \<Rightarrow>
            if idx < length vs then
              if vs ! idx = VAL_UNINITIALIZED
              then throw_named acts ''ReferenceError'' ''Cannot access variable before initialization'' vm
              else put_next a (vs ! idx) pc vm
            else None
        | _ \<Rightarrow> None)
     }"

definition do_store_env :: "nat \<Rightarrow> nat \<Rightarrow> nat \<Rightarrow> int \<Rightarrow> VM \<Rightarrow> outcome option" where
  "do_store_env a idx depth pc vm =
     do {
       e \<leftarrow> outer_env depth (env (top_frame vm)) vm;
       v \<leftarrow> reg_get a vm;
       (case object_at e vm of
          Some (OEnv p vs) \<Rightarrow>
            if idx < length vs
            then Some (Next (pc + 1) (vm\<lparr>vheap := put_obj e (OEnv p (vs[idx := v])) (vheap vm)\<rparr>))
            else None
        | _ \<Rightarrow> None)
     }"

section \<open>Properties\<close>

text \<open>The entry of the inline cache for the instruction.\<close>

definition ic_entry :: "int \<Rightarrow> VM \<Rightarrow> u32 option" where
  "ic_entry pc vm =
     Option.bind (programs vm (cf_prog (top_frame vm))) (\<lambda>p.
       if nat pc < length (p_ic_table p) then Some (p_ic_table p ! nat pc) else None)"

definition cached :: "u32 \<Rightarrow> Value \<Rightarrow> props \<Rightarrow> bool" where
  "cached i key ps \<longleftrightarrow> uint i < int (length ps) \<and> fst (ps ! unat i) = key"

fun key_position :: "Value \<Rightarrow> props \<Rightarrow> nat option" where
  "key_position key [] = None"
| "key_position key ((k, v) # ps) = (if k = key then Some 0 else map_option Suc (key_position key ps))"

definition ic_update :: "int \<Rightarrow> nat \<Rightarrow> VM \<Rightarrow> VM" where
  "ic_update pc i vm =
     (case programs vm (cf_prog (top_frame vm)) of
        Some p \<Rightarrow> vm\<lparr>programs := (programs vm)(cf_prog (top_frame vm) \<mapsto>
                      p\<lparr>p_ic_table := (p_ic_table p)[nat pc := of_nat i]\<rparr>)\<rparr>
      | None \<Rightarrow> vm)"

definition ic_refresh :: "int \<Rightarrow> Value \<Rightarrow> Value \<Rightarrow> VM \<Rightarrow> VM" where
  "ic_refresh pc obj key vm =
     (case object_at obj vm of
        Some (OObject ps _) \<Rightarrow> (case key_position key ps of Some i \<Rightarrow> ic_update pc i vm | None \<Rightarrow> vm)
      | _ \<Rightarrow> vm)"

text \<open>The indices the element accesses accept: \<open>-1\<close> for none, \<open>None\<close> for a double out of range.\<close>

definition element_index :: "Value \<Rightarrow> int option" where
  "element_index key =
     (if IS_INTEGER key then Some (sint (get_integer key))
      else if IS_DOUBLE key then f64_to_int32 (get_double key) else Some (-1))"

text \<open>\<open>(int32_t)parsed\<close> keeps the low 32 bits.\<close>

definition buffer_index :: "Value \<Rightarrow> VM \<Rightarrow> int option" where
  "buffer_index key vm =
     (if IS_INTEGER key \<or> IS_DOUBLE key then element_index key
      else case object_at key vm of
             Some (OString s) \<Rightarrow>
               Some (case strtol_whole s of Some n \<Rightarrow> sint (word_of_int n :: 32 word) | None \<Rightarrow> -1)
           | _ \<Rightarrow> Some (-1))"

definition general_load :: "nat \<Rightarrow> Value \<Rightarrow> Value \<Rightarrow> int \<Rightarrow> VM \<Rightarrow> outcome option" where
  "general_load a obj key pc vm =
     do {
       let (key, vm) = (if IS_INTEGER key then alloc_in (create_string (show_int (sint (get_integer key)))) vm
                        else (key, vm));
       (v, vm) \<leftarrow> vm_get obj key vm;
       vm \<leftarrow> reg_set a v vm;
       Some (Next (pc + 1) (ic_refresh pc obj key vm))
     }"

definition do_load_prop :: "nat \<Rightarrow> nat \<Rightarrow> nat \<Rightarrow> int \<Rightarrow> VM \<Rightarrow> outcome option" where
  "do_load_prop a b c pc vm =
     do {
       obj \<leftarrow> reg_get b vm;
       key \<leftarrow> reg_get c vm;
       if \<not> IS_POINTER obj then general_load a obj key pc vm
       else case object_at obj vm of
              None \<Rightarrow> None
            | Some (OObject ps _) \<Rightarrow>
                do {
                  i \<leftarrow> ic_entry pc vm;
                  if cached i key ps then put_next a (snd (ps ! unat i)) pc vm
                  else general_load a obj key pc vm
                }
            | Some (OArray es _) \<Rightarrow>
                if IS_INTEGER key then
                  let i = sint (get_integer key)
                  in put_next a (if 0 \<le> i \<and> i < int (length es) then es ! nat i else VAL_UNDEFINED) pc vm
                else general_load a obj key pc vm
            | Some (OFloat16 ds) \<Rightarrow>
                if IS_INTEGER key then
                  let i = sint (get_integer key)
                  in if 0 \<le> i \<and> i < int (length ds)
                     then Option.bind (half_value (ds ! nat i)) (\<lambda>v. put_next a v pc vm)
                     else put_next a VAL_UNDEFINED pc vm
                else general_load a obj key pc vm
            | Some (OBuffer bs _ _) \<Rightarrow>
                do {
                  i \<leftarrow> buffer_index key vm;
                  if i \<ge> 0
                  then put_next a (if i < int (length bs) then make_integer (ucast (bs ! nat i)) else VAL_UNDEFINED) pc vm
                  else general_load a obj key pc vm
                }
            | Some (OString s) \<Rightarrow>
                do {
                  i \<leftarrow> element_index key;
                  if 0 \<le> i \<and> i < int (length s)
                  then let (v, vm) = alloc_in (create_string [s ! nat i]) vm in put_next a v pc vm
                  else general_load a obj key pc vm
                }
            | Some _ \<Rightarrow> general_load a obj key pc vm
     }"

text \<open>Growing an array. The cells above the length hold \<open>VAL_EMPTY\<close>: creation and growth write it up to the
  capacity (\<open>shift\<close>, a native function, can leave the last element behind there).\<close>

definition array_store :: "Value list \<Rightarrow> nat \<Rightarrow> nat \<Rightarrow> Value \<Rightarrow> Value list \<times> nat" where
  "array_store es cap i v =
     (let cap = (if i \<ge> cap then max (i + 1) (cap * 2) else cap);
          es = (if i < length es then es else es @ replicate (i + 1 - length es) VAL_EMPTY)
      in (es[i := v], cap))"

definition do_store_prop :: "nat \<Rightarrow> nat \<Rightarrow> nat \<Rightarrow> int \<Rightarrow> VM \<Rightarrow> outcome option" where
  "do_store_prop a b c pc vm =
     do {
       obj \<leftarrow> reg_get a vm;
       key \<leftarrow> reg_get b vm;
       v \<leftarrow> reg_get c vm;
       if \<not> IS_POINTER obj then Some (Next (pc + 1) vm)
       else case object_at obj vm of
              None \<Rightarrow> None
            | Some (OObject ps cap) \<Rightarrow>
                do {
                  i \<leftarrow> ic_entry pc vm;
                  if cached i key ps
                  then Some (Next (pc + 1) (vm\<lparr>vheap := put_obj obj (OObject (ps[unat i := (key, v)]) cap) (vheap vm)\<rparr>))
                  else do { vm \<leftarrow> vm_set obj key v vm; Some (Next (pc + 1) (ic_refresh pc obj key vm)) }
                }
            | Some (OArray es cap) \<Rightarrow>
                do {
                  i \<leftarrow> element_index key;
                  if i \<ge> 0
                  then (case array_store es cap (nat i) v of
                          (es, cap) \<Rightarrow> Some (Next (pc + 1) (vm\<lparr>vheap := put_obj obj (OArray es cap) (vheap vm)\<rparr>)))
                  else map_option (Next (pc + 1)) (vm_set obj key v vm)
                }
            | Some (OFloat16 ds) \<Rightarrow>
                do {
                  i \<leftarrow> element_index key;
                  if 0 \<le> i \<and> i < int (length ds)
                  then Some (Next (pc + 1) (vm\<lparr>vheap := put_obj obj (OFloat16 (ds[nat i := store_half v])) (vheap vm)\<rparr>))
                  else map_option (Next (pc + 1)) (vm_set obj key v vm)
                }
            | Some (OBuffer bs ext slab) \<Rightarrow>
                do {
                  i \<leftarrow> element_index key;
                  if 0 \<le> i \<and> i < int (length bs)
                  then Option.bind (store_byte v) (\<lambda>w.
                         Some (Next (pc + 1) (vm\<lparr>vheap := put_obj obj (OBuffer (bs[nat i := w]) ext slab) (vheap vm)\<rparr>)))
                  else map_option (Next (pc + 1)) (vm_set obj key v vm)
                }
            | Some (OFunction _) \<Rightarrow> map_option (Next (pc + 1)) (vm_set obj key v vm)
            | Some (OError _ _ _ _ _) \<Rightarrow> map_option (Next (pc + 1)) (vm_set obj key v vm)
            | Some _ \<Rightarrow> Some (Next (pc + 1) vm)
     }"

section \<open>Arithmetic and comparison\<close>

definition binary_op ::
  "(Value \<Rightarrow> Value \<Rightarrow> VM \<Rightarrow> (Value \<times> VM) option) \<Rightarrow> nat \<Rightarrow> nat \<Rightarrow> nat \<Rightarrow> int \<Rightarrow> VM \<Rightarrow> outcome option" where
  "binary_op f a b c pc vm =
     do { x \<leftarrow> reg_get b vm; y \<leftarrow> reg_get c vm; (v, vm) \<leftarrow> f x y vm; put_next a v pc vm }"

definition unary_op :: "(Value \<Rightarrow> Value option) \<Rightarrow> nat \<Rightarrow> nat \<Rightarrow> int \<Rightarrow> VM \<Rightarrow> outcome option" where
  "unary_op f a b pc vm = do { x \<leftarrow> reg_get b vm; v \<leftarrow> f x; put_next a v pc vm }"

definition do_add :: "host \<Rightarrow> Value \<Rightarrow> Value \<Rightarrow> VM \<Rightarrow> (Value \<times> VM) option" where
  "do_add host x y vm =
     map_option (\<lambda>(v, h). (v, vm\<lparr>vheap := h\<rparr>)) (add_values (text_depth host) x y (vheap vm))"

definition pure_op :: "(Value \<Rightarrow> Value \<Rightarrow> Value) \<Rightarrow> Value \<Rightarrow> Value \<Rightarrow> VM \<Rightarrow> (Value \<times> VM) option" where
  "pure_op f x y vm = Some (f x y, vm)"

definition partial_op :: "(Value \<Rightarrow> Value \<Rightarrow> Value option) \<Rightarrow> Value \<Rightarrow> Value \<Rightarrow> VM \<Rightarrow> (Value \<times> VM) option" where
  "partial_op f x y vm = map_option (\<lambda>v. (v, vm)) (f x y)"

definition do_compare :: "Opcode \<Rightarrow> Value \<Rightarrow> Value \<Rightarrow> VM \<Rightarrow> (Value \<times> VM) option" where
  "do_compare op x y vm = Some (make_boolean (compare_values (vheap vm) op x y), vm)"

definition do_eq_loose :: "host \<Rightarrow> bool \<Rightarrow> Value \<Rightarrow> Value \<Rightarrow> VM \<Rightarrow> (Value \<times> VM) option" where
  "do_eq_loose host positive x y vm =
     map_option (\<lambda>(r, h). (make_boolean (r = positive), vm\<lparr>vheap := h\<rparr>))
       (values_abstract_equal (text_depth host) x y (vheap vm))"

definition do_concat :: "host \<Rightarrow> Value \<Rightarrow> Value \<Rightarrow> VM \<Rightarrow> (Value \<times> VM) option" where
  "do_concat host x y vm =
     do {
       (s1, h) \<leftarrow> value_to_string (text_depth host) x (vheap vm);
       (s2, h) \<leftarrow> value_to_string (text_depth host) y h;
       t1 \<leftarrow> str_of h s1;
       t2 \<leftarrow> str_of h s2;
       Some (case create_string (t1 @ t2) h of (v, h) \<Rightarrow> (v, vm\<lparr>vheap := h\<rparr>))
     }"

definition do_not :: "Value \<Rightarrow> Value option" where
  "do_not v = Some (make_boolean (\<not> is_truthy v))"

definition do_neg :: "Value \<Rightarrow> Value option" where
  "do_neg v = Some (make_double (f64_neg (if IS_INTEGER v then int_double v else get_double v)))"

definition typeof_text :: "Value \<Rightarrow> VM \<Rightarrow> string option" where
  "typeof_text v vm =
     (if IS_UNDEFINED v \<or> v = VAL_UNINITIALIZED then Some ''undefined''
      else if IS_NULL v then Some ''object''
      else if IS_BOOLEAN v then Some ''boolean''
      else if IS_INTEGER v \<or> IS_DOUBLE v then Some ''number''
      else if IS_SYMBOL v then Some ''symbol''
      else if IS_POINTER v
      then (case object_at v vm of
              None \<Rightarrow> None
            | Some (OFunction _) \<Rightarrow> Some ''function''
            | Some (OString _) \<Rightarrow> Some ''string''
            | Some _ \<Rightarrow> Some ''object'')
      else Some ''undefined'')"

definition do_typeof :: "nat \<Rightarrow> nat \<Rightarrow> int \<Rightarrow> VM \<Rightarrow> outcome option" where
  "do_typeof a b pc vm =
     do {
       v \<leftarrow> reg_get b vm;
       t \<leftarrow> typeof_text v vm;
       let (r, vm) = alloc_in (create_string t) vm;
       put_next a r pc vm
     }"

text \<open>The right operand is ignored. The result register is cleared before the left operand is read.\<close>

definition do_instanceof :: "nat \<Rightarrow> nat \<Rightarrow> int \<Rightarrow> VM \<Rightarrow> outcome option" where
  "do_instanceof a b pc vm =
     do {
       vm \<leftarrow> reg_set a VAL_FALSE vm;
       v \<leftarrow> reg_get b vm;
       if IS_POINTER v then
         (case object_at v vm of
            None \<Rightarrow> None
          | Some (OObject _ _) \<Rightarrow> put_next a VAL_TRUE pc vm
          | Some (OArray _ _) \<Rightarrow> put_next a VAL_TRUE pc vm
          | Some (OError _ _ _ _ _) \<Rightarrow> put_next a VAL_TRUE pc vm
          | Some _ \<Rightarrow> Some (Next (pc + 1) vm))
       else Some (Next (pc + 1) vm)
     }"

definition to_int32 :: "Value \<Rightarrow> u32 option" where
  "to_int32 v = (if IS_INTEGER v then Some (get_integer v) else map_option word_of_int (f64_to_int32 (get_double v)))"

definition to_uint32 :: "Value \<Rightarrow> u32 option" where
  "to_uint32 v = (if IS_INTEGER v then Some (get_integer v) else map_option word_of_int (f64_to_uint32 (get_double v)))"

definition bit_op :: "(u32 \<Rightarrow> u32 \<Rightarrow> u32) \<Rightarrow> Value \<Rightarrow> Value \<Rightarrow> Value option" where
  "bit_op f x y = do { v1 \<leftarrow> to_int32 x; v2 \<leftarrow> to_int32 y; Some (make_integer (f v1 v2)) }"

definition do_bitnot :: "Value \<Rightarrow> Value option" where
  "do_bitnot v = map_option (\<lambda>w. make_integer (NOT w)) (to_int32 v)"

definition do_shl :: "Value \<Rightarrow> Value \<Rightarrow> Value option" where
  "do_shl x y = do { v1 \<leftarrow> to_int32 x; v2 \<leftarrow> to_uint32 y; Some (make_integer (push_bit (unat (v2 AND 31)) v1)) }"

definition do_shr :: "Value \<Rightarrow> Value \<Rightarrow> Value option" where
  "do_shr x y =
     do { v1 \<leftarrow> to_int32 x; v2 \<leftarrow> to_uint32 y;
          Some (make_integer (word_of_int (sint v1 div 2 ^ unat (v2 AND 31)))) }"

definition do_ushr :: "Value \<Rightarrow> Value \<Rightarrow> Value option" where
  "do_ushr x y =
     do { v1 \<leftarrow> to_uint32 x; v2 \<leftarrow> to_uint32 y;
          Some (make_double (f64_of_int (uint v1 div 2 ^ unat (v2 AND 31)))) }"

definition do_jump_if :: "(Value \<Rightarrow> bool) \<Rightarrow> nat \<Rightarrow> int \<Rightarrow> int \<Rightarrow> VM \<Rightarrow> outcome option" where
  "do_jump_if cond a sbx pc vm =
     do { v \<leftarrow> reg_get a vm; Some (Next (if cond v then pc + sbx + 1 else pc + 1) vm) }"

section \<open>Calls and returns\<close>

text \<open>The function an object stands for, with the object's address: its target if it is bound.\<close>

definition function_at :: "u64 \<Rightarrow> VM \<Rightarrow> JSFunction option" where
  "function_at addr vm = (case objs (vheap vm) addr of Some (OFunction f) \<Rightarrow> Some f | _ \<Rightarrow> None)"

definition is_bound :: "JSFunction \<Rightarrow> bool" where
  "is_bound f \<longleftrightarrow> bytecode_offset f \<noteq> NATIVE \<and> native_ptr f \<noteq> 0"

definition actual_function :: "u64 \<Rightarrow> JSFunction \<Rightarrow> VM \<Rightarrow> (u64 \<times> JSFunction) option" where
  "actual_function addr f vm =
     (if is_bound f then map_option (Pair (native_ptr f)) (function_at (native_ptr f) vm) else Some (addr, f))"

fun reg_slice :: "nat \<Rightarrow> nat \<Rightarrow> VM \<Rightarrow> Value list option" where
  "reg_slice from 0 vm = Some []"
| "reg_slice from (Suc n) vm = do { v \<leftarrow> reg_get from vm; vs \<leftarrow> reg_slice (from + 1) n vm; Some (v # vs) }"

definition push_frame :: "CallFrame \<Rightarrow> VM \<Rightarrow> VM" where
  "push_frame f vm =
     (let n = frame_count vm
      in vm\<lparr>frames := (if n < length (frames vm) then (frames vm)[n := f] else take n (frames vm) @ [f]),
            frame_count := n + 1\<rparr>)"

text \<open>Room for the registers of a frame: the array doubles what is needed and is filled with \<open>undefined\<close>.\<close>

definition grow_registers :: "nat \<Rightarrow> VM \<Rightarrow> VM" where
  "grow_registers needed vm =
     (if needed > length (registers vm)
      then vm\<lparr>registers := registers vm @ replicate (needed * 2 - length (registers vm)) VAL_UNDEFINED\<rparr>
      else vm)"

definition clear_registers :: "nat \<Rightarrow> nat \<Rightarrow> VM \<Rightarrow> VM" where
  "clear_registers from to vm =
     vm\<lparr>registers := map (\<lambda>i. if from \<le> i \<and> i < to then VAL_UNDEFINED else registers vm ! i) [0..<length (registers vm)]\<rparr>"

text \<open>Entering a bytecode function from an instruction: its registers start above the callee's register, so
  that the arguments are its first ones.\<close>

definition enter_function ::
  "Value \<Rightarrow> JSFunction \<Rightarrow> nat \<Rightarrow> nat \<Rightarrow> Value \<Rightarrow> Value \<Rightarrow> int \<Rightarrow> VM \<Rightarrow> outcome option" where
  "enter_function fv f b c target this pc vm =
     (let vm = set_top_frame ((top_frame vm)\<lparr>ip := pc\<rparr>) vm;
          base = reg_base (top_frame vm) + b + 1;
          n = unat (register_count f);
          vm = push_frame \<lparr>cf_prog = prog f, func = fv, ip = uint (bytecode_offset f), reg_base = base,
                 cf_reg_count = n, env = f_env f, new_target = target, old_this = this\<rparr> vm;
          vm = grow_registers (base + n) vm;
          vm = clear_registers (base + c) (base + n) vm;
          vm = vm_switch_program (prog f) vm
      in Some (Next (uint (bytecode_offset f)) vm))"

definition do_call ::
  "host \<Rightarrow> nat list \<Rightarrow> caller \<Rightarrow> nat \<Rightarrow> nat \<Rightarrow> nat \<Rightarrow> int \<Rightarrow> VM \<Rightarrow> outcome option" where
  "do_call host acts call a b c pc vm =
     do {
       fv \<leftarrow> reg_get b vm;
       if \<not> IS_POINTER fv then throw_string acts ''TypeError: caller is not a function'' vm
       else case object_at fv vm of
              None \<Rightarrow> None
            | Some (OFunction f) \<Rightarrow>
                do {
                  (this, vm) \<leftarrow>
                    (if is_bound f then
                       do {
                         let (this_key, vm) = alloc_in (create_string ''this'') vm;
                         (this, vm) \<leftarrow> vm_get (global_obj vm) this_key vm;
                         vm \<leftarrow> vm_set (global_obj vm) this_key (f_env f) vm;
                         Some (this, vm)
                       }
                     else Some (VAL_UNDEFINED, vm));
                  (addr, af) \<leftarrow> actual_function (get_pointer fv) f vm;
                  if bytecode_offset af = NATIVE then
                    do {
                      args \<leftarrow> reg_slice (b + 1) c vm;
                      after_call acts (native host (native_ptr af) addr call (f_env af) args vm)
                        (\<lambda>res vm. put_next a res pc vm)
                    }
                  else if is_async af then Some Coroutine
                  else enter_function fv af b c VAL_UNDEFINED this pc vm
                }
            | Some _ \<Rightarrow> throw_string acts ''TypeError: caller is not a function'' vm
     }"

text \<open>The length passed for the message of a failed \<open>new\<close> cuts its last character off.\<close>

definition new_error :: string where
  "new_error = ''TypeError: constructor is not a functio''"

text \<open>Setting up \<open>this\<close> for a constructor: the new object, the old \<open>this\<close> and its key.\<close>

definition new_this :: "u64 \<Rightarrow> VM \<Rightarrow> (Value \<times> Value \<times> Value \<times> VM) option" where
  "new_this addr vm =
     do {
       let (new_obj, vm) = alloc_in create_object vm;
       let vm = vm_push_root new_obj vm;
       let (proto_key, vm) = alloc_in (create_string ''prototype'') vm;
       (ctor_proto, vm) \<leftarrow> vm_get (make_pointer addr) proto_key vm;
       vm \<leftarrow> (if IS_POINTER ctor_proto then
                let (proto_prop_key, vm) = alloc_in (create_string ''__proto__'') vm
                in vm_set new_obj proto_prop_key ctor_proto vm
              else Some vm);
       let (this_key, vm) = alloc_in (create_string ''this'') vm;
       (this, vm) \<leftarrow> vm_get (global_obj vm) this_key vm;
       vm \<leftarrow> vm_set (global_obj vm) this_key new_obj vm;
       Some (new_obj, this, this_key, vm)
     }"

definition do_new_call ::
  "host \<Rightarrow> nat list \<Rightarrow> caller \<Rightarrow> nat \<Rightarrow> nat \<Rightarrow> nat \<Rightarrow> int \<Rightarrow> VM \<Rightarrow> outcome option" where
  "do_new_call host acts call a b c pc vm =
     do {
       cv \<leftarrow> reg_get b vm;
       if \<not> IS_POINTER cv then throw_string acts new_error vm
       else case object_at cv vm of
              None \<Rightarrow> None
            | Some (OFunction f) \<Rightarrow>
                do {
                  (addr, af) \<leftarrow> actual_function (get_pointer cv) f vm;
                  (new_obj, this, this_key, vm) \<leftarrow> new_this addr vm;
                  if bytecode_offset af = NATIVE then
                    do {
                      args \<leftarrow> reg_slice (b + 1) c vm;
                      after_call acts (native host (native_ptr af) addr call new_obj args vm)
                        (\<lambda>res vm.
                           do {
                             vm \<leftarrow> vm_set (global_obj vm) this_key this vm;
                             put_next a (if IS_POINTER res then res else new_obj) pc (vm_pop_root vm)
                           })
                    }
                  else enter_function cv af b c new_obj this pc vm
                }
            | Some _ \<Rightarrow> throw_string acts new_error vm
     }"

text \<open>Returning from a frame: a constructor's result, restoring \<open>this\<close>, and the caller's result register,
  which is read from the calling instruction.\<close>

definition return_value :: "Value \<Rightarrow> VM \<Rightarrow> Value \<times> VM" where
  "return_value v vm =
     (let nt = new_target (top_frame vm)
      in if IS_POINTER nt then (if IS_POINTER v then v else nt, vm_pop_root vm) else (v, vm))"

definition restore_this :: "VM \<Rightarrow> VM option" where
  "restore_this vm =
     (if old_this (top_frame vm) \<noteq> VAL_UNDEFINED
      then let (this_key, vm') = alloc_in (create_string ''this'') vm
           in vm_set (global_obj vm') this_key (old_this (top_frame vm)) vm'
      else Some vm)"

definition resume_caller :: "Value \<Rightarrow> VM \<Rightarrow> outcome option" where
  "resume_caller v vm =
     do {
       let vm = vm_switch_program (cf_prog (top_frame vm)) vm;
       call_inst \<leftarrow> code_at (ip (top_frame vm)) vm;
       vm \<leftarrow> reg_set (unat (INST_A call_inst)) v vm;
       let vm = set_top_frame ((top_frame vm)\<lparr>ip := ip (top_frame vm) + 1\<rparr>) vm;
       Some (Next (ip (top_frame vm)) vm)
     }"

definition do_return :: "nat \<Rightarrow> nat \<Rightarrow> VM \<Rightarrow> outcome option" where
  "do_return stop a vm =
     do {
       v \<leftarrow> reg_get a vm;
       let (v, vm) = return_value v vm;
       vm \<leftarrow> restore_this vm;
       let vm = vm\<lparr>frame_count := frame_count vm - 1\<rparr>;
       if frame_count vm = stop then Some (Finished v vm) else resume_caller v vm
     }"

section \<open>Objects, closures and environments\<close>

definition do_new :: "(heap \<Rightarrow> Value \<times> heap) \<Rightarrow> nat \<Rightarrow> int \<Rightarrow> VM \<Rightarrow> outcome option" where
  "do_new create a pc vm = (let (v, vm) = alloc_in create vm in put_next a v pc vm)"

text \<open>A closure gets the environment of the running frame and a fresh \<open>prototype\<close>. The roots pushed around
  the allocations are popped again.\<close>

definition do_new_function :: "nat \<Rightarrow> nat \<Rightarrow> int \<Rightarrow> VM \<Rightarrow> outcome option" where
  "do_new_function a bx pc vm =
     do {
       p \<leftarrow> programs vm (current_prog vm);
       fi \<leftarrow> (if bx < length (p_functions p) then Some (p_functions p ! bx) else None);
       let (name, vm) = alloc_in (create_string ''anonymous'') vm;
       let frame = top_frame vm;
       let (fv, vm) = alloc_in (create_function (cf_prog frame) (fi_bytecode_offset fi) (fi_register_count fi)
                        (fi_param_count fi) (fi_is_async fi) (env frame) name) vm;
       vm \<leftarrow> reg_set a fv vm;
       let (proto_obj, vm) = alloc_in create_object vm;
       let (proto_key, vm) = alloc_in (create_string ''prototype'') vm;
       vm \<leftarrow> vm_set fv proto_key proto_obj vm;
       Some (Next (pc + 1) vm)
     }"

definition do_new_env :: "nat \<Rightarrow> nat \<Rightarrow> int \<Rightarrow> VM \<Rightarrow> outcome option" where
  "do_new_env a b pc vm =
     do {
       let (e, vm) = alloc_in (create_environment (env (top_frame vm)) b) vm;
       vm \<leftarrow> reg_set a e vm;
       Some (Next (pc + 1) (set_top_frame ((top_frame vm)\<lparr>env := e\<rparr>) vm))
     }"

section \<open>Handlers and iteration\<close>

definition do_try_begin :: "nat list \<Rightarrow> int \<Rightarrow> int \<Rightarrow> VM \<Rightarrow> outcome option" where
  "do_try_begin acts sbx pc vm =
     (case acts of
        [] \<Rightarrow> None
      | act # _ \<Rightarrow>
          Some (Next (pc + 1) (vm\<lparr>error_handler := \<lparr>saved_frame_count = frame_count vm,
             saved_reg_count = reg_count vm, catch_ip = pc + sbx + 1, activation = act\<rparr> # error_handler vm\<rparr>)))"

definition do_try_end :: "int \<Rightarrow> VM \<Rightarrow> outcome option" where
  "do_try_end pc vm = Some (Next (pc + 1) (vm\<lparr>error_handler := tl (error_handler vm)\<rparr>))"

definition do_catch_begin :: "nat \<Rightarrow> int \<Rightarrow> VM \<Rightarrow> outcome option" where
  "do_catch_begin a pc vm =
     (if reg_count vm < length (registers vm) then put_next a (registers vm ! reg_count vm) pc vm else None)"

definition set_bool :: "nat \<Rightarrow> bool \<Rightarrow> VM \<Rightarrow> VM option" where
  "set_bool b t vm = reg_set b (if t then VAL_TRUE else VAL_FALSE) vm"

text \<open>The iteration over an array or the keys of an object: \<open>c + 1\<close> holds the index.\<close>

definition step_index :: "nat \<Rightarrow> VM \<Rightarrow> int option" where
  "step_index c vm =
     do { v \<leftarrow> reg_get (c + 1) vm; Some (if IS_INTEGER v then sint (get_integer v) else 0) }"

definition step_over :: "Value list \<Rightarrow> nat \<Rightarrow> nat \<Rightarrow> nat \<Rightarrow> int \<Rightarrow> VM \<Rightarrow> outcome option" where
  "step_over vs a b c pc vm =
     do {
       idx \<leftarrow> step_index c vm;
       if 0 \<le> idx \<and> idx < int (length vs) then
         do {
           vm \<leftarrow> reg_set a (vs ! nat idx) vm;
           vm \<leftarrow> set_bool b False vm;
           put_next (c + 1) (make_integer (word_of_int (idx + 1))) pc vm
         }
       else map_option (Next (pc + 1)) (set_bool b True vm)
     }"

text \<open>An iterator helper over an array: the next source element, if there is one, with the counter
  advanced; \<open>Inl\<close> is the state in which the helper is exhausted.\<close>

definition helper_next :: "Value \<Rightarrow> VM \<Rightarrow> (VM + Value \<times> VM) option" where
  "helper_next it vm =
     (case object_at it vm of
        Some (OIterator src cb n inner ty dn) \<Rightarrow>
          if \<not> IS_POINTER src then Some (Inl vm)
          else (case object_at src vm of
                  Some (OArray es _) \<Rightarrow>
                    if unat n \<ge> length es
                    then Some (Inl (vm\<lparr>vheap := put_obj it (OIterator src cb n inner ty True) (vheap vm)\<rparr>))
                    else Some (Inr (es ! unat n,
                           vm\<lparr>vheap := put_obj it (OIterator src cb (n + 1) inner ty dn) (vheap vm)\<rparr>))
                | _ \<Rightarrow> None)
      | _ \<Rightarrow> None)"

definition finish_iter :: "nat \<Rightarrow> int \<Rightarrow> VM \<Rightarrow> outcome option" where
  "finish_iter b pc vm = map_option (Next (pc + 1)) (set_bool b True vm)"

definition yield_item :: "nat \<Rightarrow> nat \<Rightarrow> Value \<Rightarrow> int \<Rightarrow> VM \<Rightarrow> outcome option" where
  "yield_item a b v pc vm =
     do { vm \<leftarrow> reg_set a v vm; vm \<leftarrow> set_bool b False vm; Some (Next (pc + 1) vm) }"

fun filter_loop ::
  "nat \<Rightarrow> nat list \<Rightarrow> caller \<Rightarrow> Value \<Rightarrow> Value \<Rightarrow> nat \<Rightarrow> nat \<Rightarrow> Value \<Rightarrow> int \<Rightarrow> VM \<Rightarrow> outcome option" where
  "filter_loop 0 acts call it cb a b v pc vm = Some Out_of_fuel"
| "filter_loop (Suc n) acts call it cb a b v pc vm =
     after_call acts (call cb [v] vm) (\<lambda>test vm.
       if is_truthy test then yield_item a b v pc vm
       else case helper_next it vm of
              None \<Rightarrow> None
            | Some (Inl vm) \<Rightarrow> finish_iter b pc vm
            | Some (Inr (v, vm)) \<Rightarrow> filter_loop n acts call it cb a b v pc vm)"

text \<open>\<open>ITER_MAP\<close> is 0 and \<open>ITER_FILTER\<close> 1.\<close>

definition helper_step ::
  "nat \<Rightarrow> nat list \<Rightarrow> caller \<Rightarrow> Value \<Rightarrow> Value \<Rightarrow> u8 \<Rightarrow> nat \<Rightarrow> nat \<Rightarrow> int \<Rightarrow> VM \<Rightarrow> outcome option" where
  "helper_step n acts call it cb ty a b pc vm =
     (case helper_next it vm of
        None \<Rightarrow> None
      | Some (Inl vm) \<Rightarrow> finish_iter b pc vm
      | Some (Inr (v, vm)) \<Rightarrow>
          if ty = 0 then after_call acts (call cb [v] vm) (\<lambda>mapped vm. yield_item a b mapped pc vm)
          else if ty = 1 then filter_loop n acts call it cb a b v pc vm
          else yield_item a b v pc vm)"

definition do_iter_next ::
  "nat \<Rightarrow> nat list \<Rightarrow> caller \<Rightarrow> nat \<Rightarrow> nat \<Rightarrow> nat \<Rightarrow> int \<Rightarrow> VM \<Rightarrow> outcome option" where
  "do_iter_next n acts call a b c pc vm =
     do {
       it \<leftarrow> reg_get c vm;
       if \<not> IS_POINTER it then finish_iter b pc vm
       else case object_at it vm of
              None \<Rightarrow> None
            | Some (OArray es _) \<Rightarrow> step_over es a b c pc vm
            | Some (OIterator src cb _ _ ty dn) \<Rightarrow>
                if dn then finish_iter b pc vm
                else let vm = set_top_frame ((top_frame vm)\<lparr>ip := pc\<rparr>) vm
                     in if (case object_at src vm of Some (OArray _ _) \<Rightarrow> False | None \<Rightarrow> False | _ \<Rightarrow> True)
                        then finish_iter b pc vm else helper_step n acts call it cb ty a b pc vm
            | Some _ \<Rightarrow> finish_iter b pc vm
     }"

definition do_for_in_next :: "nat \<Rightarrow> nat \<Rightarrow> nat \<Rightarrow> int \<Rightarrow> VM \<Rightarrow> outcome option" where
  "do_for_in_next a b c pc vm =
     do {
       obj \<leftarrow> reg_get c vm;
       idx \<leftarrow> step_index c vm;
       if \<not> IS_POINTER obj then finish_iter b pc vm
       else case object_at obj vm of
              None \<Rightarrow> None
            | Some (OObject ps _) \<Rightarrow> step_over (map fst ps) a b c pc vm
            | Some _ \<Rightarrow> finish_iter b pc vm
     }"

definition do_get_async_iter :: "nat list \<Rightarrow> caller \<Rightarrow> nat \<Rightarrow> nat \<Rightarrow> int \<Rightarrow> VM \<Rightarrow> outcome option" where
  "do_get_async_iter acts call a b pc vm =
     do {
       v \<leftarrow> reg_get b vm;
       if \<not> IS_POINTER v then put_next a VAL_UNDEFINED pc vm
       else do {
         (iter, vm) \<leftarrow> vm_get v (symbol_async_iterator vm) vm;
         (iter, vm) \<leftarrow> (if IS_POINTER iter then Some (iter, vm) else vm_get v (symbol_iterator vm) vm);
         if IS_POINTER iter then after_call acts (call iter [] vm) (\<lambda>r vm. put_next a r pc vm)
         else put_next a VAL_UNDEFINED pc vm
       }
     }"

definition do_async_iter_next :: "nat list \<Rightarrow> caller \<Rightarrow> nat \<Rightarrow> nat \<Rightarrow> int \<Rightarrow> VM \<Rightarrow> outcome option" where
  "do_async_iter_next acts call a b pc vm =
     do {
       iter \<leftarrow> reg_get b vm;
       (fn, vm) \<leftarrow> (if IS_POINTER iter
                    then let (k, vm) = alloc_in (create_string ''next'') vm in vm_get iter k vm
                    else Some (VAL_UNDEFINED, vm));
       if IS_POINTER fn then after_call acts (call fn [] vm) (\<lambda>r vm. put_next a r pc vm)
       else put_next a VAL_UNDEFINED pc vm
     }"

definition do_unpack_iter_res :: "nat \<Rightarrow> nat \<Rightarrow> nat \<Rightarrow> int \<Rightarrow> VM \<Rightarrow> outcome option" where
  "do_unpack_iter_res a b c pc vm =
     do {
       res \<leftarrow> reg_get c vm;
       if IS_POINTER res then
         do {
           let (vk, vm) = alloc_in (create_string ''value'') vm;
           (v, vm) \<leftarrow> vm_get res vk vm;
           vm \<leftarrow> reg_set a v vm;
           let (dk, vm) = alloc_in (create_string ''done'') vm;
           (d, vm) \<leftarrow> vm_get res dk vm;
           put_next b d pc vm
         }
       else do { vm \<leftarrow> reg_set a VAL_UNDEFINED vm; put_next b VAL_TRUE pc vm }
     }"

text \<open>\<open>await\<close> outside a coroutine.\<close>

definition do_await :: "nat list \<Rightarrow> nat \<Rightarrow> int \<Rightarrow> VM \<Rightarrow> outcome option" where
  "do_await acts b pc vm =
     do {
       _ \<leftarrow> reg_get b vm;
       let vm = set_top_frame ((top_frame vm)\<lparr>ip := pc + 1\<rparr>) vm;
       throw_named acts ''SyntaxError'' ''await is only valid in async functions'' vm
     }"

definition do_throw :: "nat list \<Rightarrow> nat \<Rightarrow> VM \<Rightarrow> outcome option" where
  "do_throw acts a vm = Option.bind (reg_get a vm) (\<lambda>v. vm_throw_error acts v vm)"

section \<open>Dispatch\<close>

definition execute ::
  "host \<Rightarrow> nat \<Rightarrow> nat list \<Rightarrow> nat \<Rightarrow> caller \<Rightarrow> Opcode \<Rightarrow> u32 \<Rightarrow> int \<Rightarrow> VM \<Rightarrow> outcome option" where
  "execute host n acts stop call op inst pc vm =
     (let a = unat (INST_A inst); b = unat (INST_B inst); c = unat (INST_C inst);
          bx = unat (INST_BX inst); sbx = sint (INST_SBX inst)
      in case op of
           OP_LOAD_CONST \<Rightarrow> do_load_const a bx pc vm
         | OP_LOAD_INT \<Rightarrow> put_next a (make_integer (word_of_int sbx)) pc vm
         | OP_LOAD_BOOL \<Rightarrow> put_next a (make_boolean (b \<noteq> 0)) pc vm
         | OP_LOAD_NULL \<Rightarrow> put_next a VAL_NULL pc vm
         | OP_LOAD_UNDEFINED \<Rightarrow> put_next a VAL_UNDEFINED pc vm
         | OP_LOAD_GLOBAL \<Rightarrow> do_load_global a bx pc vm
         | OP_STORE_GLOBAL \<Rightarrow> do_store_global a bx pc vm
         | OP_LOAD_ENV \<Rightarrow> do_load_env acts a b c pc vm
         | OP_STORE_ENV \<Rightarrow> do_store_env a b c pc vm
         | OP_LOAD_PROP \<Rightarrow> do_load_prop a b c pc vm
         | OP_STORE_PROP \<Rightarrow> do_store_prop a b c pc vm
         | OP_ADD \<Rightarrow> binary_op (do_add host) a b c pc vm
         | OP_SUB \<Rightarrow> binary_op (pure_op sub_values) a b c pc vm
         | OP_MUL \<Rightarrow> binary_op (pure_op mul_values) a b c pc vm
         | OP_DIV \<Rightarrow> binary_op (pure_op div_values) a b c pc vm
         | OP_MOD \<Rightarrow> binary_op (partial_op mod_values) a b c pc vm
         | OP_CONCAT \<Rightarrow> binary_op (do_concat host) a b c pc vm
         | OP_LT \<Rightarrow> binary_op (do_compare OP_LT) a b c pc vm
         | OP_LE \<Rightarrow> binary_op (do_compare OP_LE) a b c pc vm
         | OP_GT \<Rightarrow> binary_op (do_compare OP_GT) a b c pc vm
         | OP_GE \<Rightarrow> binary_op (do_compare OP_GE) a b c pc vm
         | OP_EQ \<Rightarrow> binary_op (do_compare OP_EQ) a b c pc vm
         | OP_NE \<Rightarrow> binary_op (do_compare OP_NE) a b c pc vm
         | OP_EQ_LOOSE \<Rightarrow> binary_op (do_eq_loose host True) a b c pc vm
         | OP_NE_LOOSE \<Rightarrow> binary_op (do_eq_loose host False) a b c pc vm
         | OP_INSTANCEOF \<Rightarrow> do_instanceof a b pc vm
         | OP_NOT \<Rightarrow> unary_op do_not a b pc vm
         | OP_NEG \<Rightarrow> unary_op do_neg a b pc vm
         | OP_TYPEOF \<Rightarrow> do_typeof a b pc vm
         | OP_BITAND \<Rightarrow> binary_op (partial_op (bit_op (AND))) a b c pc vm
         | OP_BITOR \<Rightarrow> binary_op (partial_op (bit_op (OR))) a b c pc vm
         | OP_BITXOR \<Rightarrow> binary_op (partial_op (bit_op (XOR))) a b c pc vm
         | OP_BITNOT \<Rightarrow> unary_op do_bitnot a b pc vm
         | OP_SHL \<Rightarrow> binary_op (partial_op do_shl) a b c pc vm
         | OP_SHR \<Rightarrow> binary_op (partial_op do_shr) a b c pc vm
         | OP_USHR \<Rightarrow> binary_op (partial_op do_ushr) a b c pc vm
         | OP_JUMP \<Rightarrow> Some (Next (pc + sbx + 1) vm)
         | OP_JUMP_IF_FALSE \<Rightarrow> do_jump_if (\<lambda>v. \<not> is_truthy v) a sbx pc vm
         | OP_JUMP_IF_TRUE \<Rightarrow> do_jump_if is_truthy a sbx pc vm
         | OP_JUMP_IF_NULLISH \<Rightarrow> do_jump_if (\<lambda>v. IS_NULL v \<or> IS_UNDEFINED v) a sbx pc vm
         | OP_CALL \<Rightarrow> do_call host acts call a b c pc vm
         | OP_NEW_CALL \<Rightarrow> do_new_call host acts call a b c pc vm
         | OP_RETURN \<Rightarrow> do_return stop a vm
         | OP_THROW \<Rightarrow> do_throw acts a vm
         | OP_TRY_BEGIN \<Rightarrow> do_try_begin acts sbx pc vm
         | OP_TRY_END \<Rightarrow> do_try_end pc vm
         | OP_CATCH_BEGIN \<Rightarrow> do_catch_begin a pc vm
         | OP_NEW_OBJECT \<Rightarrow> do_new create_object a pc vm
         | OP_NEW_ARRAY \<Rightarrow> do_new (create_array 4) a pc vm
         | OP_NEW_FUNCTION \<Rightarrow> do_new_function a bx pc vm
         | OP_NEW_ENV \<Rightarrow> do_new_env a b pc vm
         | OP_ITER_NEXT \<Rightarrow> do_iter_next n acts call a b c pc vm
         | OP_FOR_IN_NEXT \<Rightarrow> do_for_in_next a b c pc vm
         | OP_GET_ASYNC_ITER \<Rightarrow> do_get_async_iter acts call a b pc vm
         | OP_ASYNC_ITER_NEXT \<Rightarrow> do_async_iter_next acts call a b pc vm
         | OP_UNPACK_ITER_RES \<Rightarrow> do_unpack_iter_res a b c pc vm
         | OP_PRINT \<Rightarrow>
             Option.bind (reg_get a vm) (\<lambda>v.
               after_call acts (console_log host v vm) (\<lambda>_ vm. Some (Next (pc + 1) vm)))
         | OP_AWAIT \<Rightarrow> do_await acts b pc vm
         | OP_YIELD \<Rightarrow> throw_string acts ''Unimplemented opcode executed'' vm
         | OP_COUNT \<Rightarrow> None
         | _ \<Rightarrow> unary_op Some a b pc vm)"

text \<open>The labels \<open>do_delete_prop\<close>, \<open>do_pow\<close>, \<open>do_in\<close>, \<open>do_void\<close>, \<open>do_inc\<close>, \<open>do_dec\<close>, \<open>do_new_regex\<close>,
  \<open>do_array_push\<close>, \<open>do_array_spread\<close>, \<open>do_obj_spread\<close> and \<open>do_get_iter\<close> share the last case with
  \<open>do_move\<close>: they copy register \<open>b\<close> to \<open>a\<close>. Past the opcodes the dispatch table has no entry.\<close>

definition vm_step ::
  "host \<Rightarrow> nat \<Rightarrow> nat list \<Rightarrow> nat \<Rightarrow> caller \<Rightarrow> int \<Rightarrow> VM \<Rightarrow> outcome option" where
  "vm_step host n acts stop call pc vm =
     do {
       inst \<leftarrow> code_at pc vm;
       op \<leftarrow> opcode_of_num (INST_OP inst);
       execute host n acts stop call op inst pc vm
     }"

section \<open>Activations\<close>

text \<open>The frame of the main program.\<close>

definition enter_main :: "VM \<Rightarrow> VM option" where
  "enter_main vm =
     do {
       p \<leftarrow> programs vm (current_prog vm);
       fi \<leftarrow> (case p_functions p of [] \<Rightarrow> None | fi # _ \<Rightarrow> Some fi);
       let (name, vm) = alloc_in (create_string ''main'') vm;
       let (main_fn, vm) = alloc_in (create_function (current_prog vm) (fi_bytecode_offset fi) (fi_register_count fi)
                             (fi_param_count fi) (fi_is_async fi) VAL_NULL name) vm;
       let n = unat (fi_register_count fi);
       let vm = push_frame \<lparr>cf_prog = current_prog vm, func = main_fn, ip = uint (fi_bytecode_offset fi), reg_base = 0,
                  cf_reg_count = n, env = VAL_NULL, new_target = VAL_UNDEFINED, old_this = VAL_UNDEFINED\<rparr> vm;
       let cap = (if n > length (registers vm) then n * 2 else length (registers vm));
       Some (vm\<lparr>registers := replicate cap VAL_UNDEFINED, reg_count := n\<rparr>)
     }"

text \<open>The start of \<open>vm_run\<close>; \<open>loop\<close> is its dispatch loop.\<close>

definition vm_enter ::
  "(nat list \<Rightarrow> nat \<Rightarrow> int \<Rightarrow> VM \<Rightarrow> outcome option) \<Rightarrow> nat list \<Rightarrow> VM \<Rightarrow> outcome option" where
  "vm_enter lp acts vm =
     do {
       let act = next_activation vm;
       let vm = vm\<lparr>next_activation := act + 1\<rparr>;
       let stop = frame_count vm - 1;
       vm \<leftarrow> (if frame_count vm = 0 then enter_main vm else Some vm);
       let vm = vm_switch_program (cf_prog (top_frame vm)) vm;
       lp (act # acts) stop (ip (top_frame vm)) vm
     }"

text \<open>\<open>vm_call_function\<close> for a bytecode function: its registers start above those of the running frame.
  The cells of a grown register array are not initialised.\<close>

definition call_frame :: "host \<Rightarrow> Value \<Rightarrow> JSFunction \<Rightarrow> Value list \<Rightarrow> VM \<Rightarrow> VM option" where
  "call_frame host fv f args vm =
     (let base = (if frame_count vm > 0 then reg_base (top_frame vm) + cf_reg_count (top_frame vm) else 0);
          n = unat (register_count f);
          old = length (registers vm);
          vm = (if base + (1 + n) \<ge> old
                then vm\<lparr>registers := registers vm @ map (fresh_memory host) [old..<base + (1 + n) + 16]\<rparr> else vm);
          vm = vm\<lparr>reg_count := reg_count vm + (1 + n)\<rparr>;
          passed = take (unat (param_count f)) args
      in if base + 1 + length passed \<le> length (registers vm)
         then let vm = vm\<lparr>registers := take base (registers vm) @ [fv] @ passed
                            @ drop (base + 1 + length passed) (registers vm)\<rparr>;
                  vm = clear_registers (base + (1 + length args)) (base + n) vm;
                  vm = push_frame \<lparr>cf_prog = prog f, func = fv, ip = uint (bytecode_offset f), reg_base = base + 1,
                         cf_reg_count = n, env = f_env f, new_target = VAL_UNDEFINED, old_this = VAL_UNDEFINED\<rparr> vm
              in Some (vm_switch_program (prog f) vm)
         else None)"

definition vm_call_function ::
  "host \<Rightarrow> (nat list \<Rightarrow> VM \<Rightarrow> outcome option) \<Rightarrow> caller \<Rightarrow> nat list \<Rightarrow> caller" where
  "vm_call_function host run_vm call acts fv args vm =
     (case (if IS_POINTER fv then object_at fv vm else Some OBufferData) of
        None \<Rightarrow> None
      | Some (OFunction f) \<Rightarrow>
          do {
            (addr, af) \<leftarrow> actual_function (get_pointer fv) f vm;
            let bound_this = (if is_bound f then f_env f else VAL_UNDEFINED);
            if bytecode_offset af = NATIVE
            then native host (native_ptr af) 0 call (if bound_this \<noteq> VAL_UNDEFINED then bound_this else f_env af) args vm
            else if is_async af then Some Coroutine
            else
              do {
                let base = (if frame_count vm > 0 then reg_base (top_frame vm) + cf_reg_count (top_frame vm) else 0);
                let slot = frame_count vm;
                vm \<leftarrow> call_frame host fv af args vm;
                let (this_key, vm) = alloc_in (create_string ''this'') vm;
                (this, vm) \<leftarrow> vm_get (global_obj vm) this_key vm;
                let vm = set_top_frame ((top_frame vm)\<lparr>old_this := this\<rparr>) vm;
                vm \<leftarrow> (if bound_this \<noteq> VAL_UNDEFINED then vm_set (global_obj vm) this_key bound_this vm else Some vm);
                (case run_vm acts vm of
                   Some (Finished res vm) \<Rightarrow>
                     do {
                       vm \<leftarrow> (if bound_this \<noteq> VAL_UNDEFINED
                             then vm_set (global_obj vm) this_key (old_this (frames vm ! slot)) vm else Some vm);
                       let vm = vm\<lparr>reg_count := base\<rparr>;
                       if frame_count vm > 0
                       then Some (Finished res (vm_switch_program (cf_prog (top_frame vm)) vm))
                       else (case drain_queues host call vm of
                               Some (Finished _ vm) \<Rightarrow> Some (Finished res vm)
                             | r \<Rightarrow> r)
                     }
                 | r \<Rightarrow> r)
              }
          }
      | Some _ \<Rightarrow>
          (let (m, vm) = alloc_in (create_string ''caller is not a functio'') vm;
               (err, vm) = alloc_in (create_error ''TypeError'' m) vm
           in case error_handler vm of
                [] \<Rightarrow> Some (Exited err)
              | eh # _ \<Rightarrow> if activation eh \<in> set acts then Some (Threw err vm) else None))"

text \<open>The dispatch loop. Each instruction takes one unit of fuel, and what it calls has the rest.\<close>

fun vm_loop :: "host \<Rightarrow> nat \<Rightarrow> nat list \<Rightarrow> nat \<Rightarrow> int \<Rightarrow> VM \<Rightarrow> outcome option"
  and vm_call :: "host \<Rightarrow> nat \<Rightarrow> nat list \<Rightarrow> caller" where
  "vm_loop host 0 acts stop pc vm = Some Out_of_fuel"
| "vm_loop host (Suc n) acts stop pc vm =
     (case vm_step host n acts stop (vm_call host n acts) pc vm of
        Some (Next pc vm) \<Rightarrow> vm_loop host n acts stop pc vm
      | r \<Rightarrow> r)"
| "vm_call host 0 acts fv args vm = Some Out_of_fuel"
| "vm_call host (Suc n) acts fv args vm =
     vm_call_function host (vm_enter (vm_loop host n)) (vm_call host n acts) acts fv args vm"

definition vm_run :: "host \<Rightarrow> nat \<Rightarrow> VM \<Rightarrow> outcome option" where
  "vm_run host n vm = vm_enter (vm_loop host n) [] vm"

end
