(* ===== verification/Demo_Machine.thy ===== *)
theory Demo_Machine
  imports Interpreter
begin

text \<open>
  A concrete machine on which the theorems about the interpreter are instantiated: a heap with an empty global
  object, no native functions and a register file of 16 registers.
\<close>

definition demo_protos :: protos where
  "demo_protos =
     \<lparr>has_vm = True, set_prototype = VAL_UNDEFINED, array_prototype = VAL_UNDEFINED, string_prototype = VAL_UNDEFINED,
      regexp_prototype = VAL_UNDEFINED, buffer_prototype = VAL_UNDEFINED, js_promise_constructor = 1, js_promise_try = 2,
      js_promise_then = 3, js_promise_catch = 4, js_function_call = 5, js_function_apply = 6\<rparr>"

definition demo_heap :: heap where
  "demo_heap = \<lparr>objs = [8 \<mapsto> OObject [] 4], brk = 16, interned = [], next_symbol = 0\<rparr>"

definition demo_host :: host where
  "demo_host =
     \<lparr>native = \<lambda>p q c t as vm. None, console_log = \<lambda>v vm. None, drain_queues = \<lambda>c vm. Some (Finished VAL_UNDEFINED vm),
      fresh_memory = \<lambda>i. VAL_UNDEFINED, text_depth = 3\<rparr>"

definition demo_frame :: CallFrame where
  "demo_frame =
     \<lparr>cf_prog = 100, func = VAL_UNDEFINED, ip = 0, reg_base = 0, cf_reg_count = 16, env = VAL_UNDEFINED,
      new_target = VAL_UNDEFINED, old_this = VAL_UNDEFINED\<rparr>"

definition demo_vm :: "CompiledProgram \<Rightarrow> heap \<Rightarrow> Value list \<Rightarrow> VM" where
  "demo_vm p h rs =
     \<lparr>vheap = h, builtin_protos = demo_protos, global_obj = make_pointer 8, symbol_iterator = VAL_UNDEFINED,
      symbol_async_iterator = VAL_UNDEFINED, programs = [100 \<mapsto> p], current_prog = 100, frames = [demo_frame],
      frame_count = 1, registers = rs @ replicate (16 - length rs) VAL_UNDEFINED, reg_count = 16, error_handler = [],
      gc_roots = [], next_activation = 0\<rparr>"

definition demo_program :: "u32 list \<Rightarrow> Value list \<Rightarrow> CompiledProgram" where
  "demo_program code consts = \<lparr>p_const_pool = consts, p_bytecode = code, p_ic_table = [], p_functions = []\<rparr>"

end
