(* ===== verification/Compiler_Correct.thy ===== *)
theory Compiler_Correct
  imports Demo_Machine "HOL-Library.Sublist"
begin

text \<open>
  Correctness of the code generator for expressions: a source-level semantics \<open>eval\<close> of expressions over
  local variables, and the proof that the interpreter, run on the code that \<open>compile_node\<close> emits,
  computes it.
\<close>

section \<open>Runs of the interpreter\<close>

text \<open>A run made of instructions that neither call nor return: it does not depend on the fuel, the
  activation or the frame the loop stops at.\<close>

inductive reaches :: "host \<Rightarrow> int \<Rightarrow> VM \<Rightarrow> int \<Rightarrow> VM \<Rightarrow> bool" for host where
  reaches_refl: "reaches host pc vm pc vm"
| reaches_step:
    "(\<And>n acts stop call. vm_step host n acts stop call pc vm = Some (Next pc' vm')) \<Longrightarrow>
     reaches host pc' vm' pc'' vm'' \<Longrightarrow> reaches host pc vm pc'' vm''"

lemma reaches_trans: "reaches host a v b w \<Longrightarrow> reaches host b w c x \<Longrightarrow> reaches host a v c x"
  by (induction rule: reaches.induct) (auto intro: reaches_step)

lemma reaches_loop:
  assumes "reaches host pc vm pc' vm'"
  shows "\<exists>k. \<forall>n acts stop. vm_loop host (k + n) acts stop pc vm = vm_loop host n acts stop pc' vm'"
  using assms
proof (induction rule: reaches.induct)
  case (reaches_refl pc vm)
  show ?case by (rule exI [of _ 0]) simp
next
  case (reaches_step pc vm pc' vm' pc'' vm'')
  then obtain k where "\<And>n acts stop. vm_loop host (k + n) acts stop pc' vm' = vm_loop host n acts stop pc'' vm''"
    by blast
  with reaches_step.hyps(1) show ?case by (intro exI [of _ "Suc k"]) simp
qed

text \<open>The VM with other registers and another heap: what the code of an expression changes.\<close>

definition upd :: "VM \<Rightarrow> Value list \<Rightarrow> heap \<Rightarrow> VM" where
  "upd vm rs h = vm\<lparr>registers := rs, vheap := h\<rparr>"

definition base_of :: "VM \<Rightarrow> nat" where
  "base_of vm = reg_base (top_frame vm)"

lemma upd_simps [simp]:
  "vheap (upd vm rs h) = h" "registers (upd vm rs h) = rs" "top_frame (upd vm rs h) = top_frame vm"
  "code_at pc (upd vm rs h) = code_at pc vm" "const_at i (upd vm rs h) = const_at i vm"
  "(upd vm rs h)\<lparr>registers := rs'\<rparr> = upd vm rs' h" "(upd vm rs h)\<lparr>vheap := h'\<rparr> = upd vm rs h'"
  by (simp_all add: upd_def top_frame_def code_at_def const_at_def)

lemma reg_upd [simp]:
  "base_of vm + a < length rs \<Longrightarrow> reg_get a (upd vm rs h) = Some (rs ! (base_of vm + a))"
  "base_of vm + a < length rs \<Longrightarrow> reg_set a v (upd vm rs h) = Some (upd vm (rs[base_of vm + a := v]) h)"
  by (simp_all add: reg_get_def reg_set_def base_of_def)

definition exec :: "host \<Rightarrow> VM \<Rightarrow> int \<Rightarrow> Value list \<Rightarrow> heap \<Rightarrow> int \<Rightarrow> Value list \<Rightarrow> heap \<Rightarrow> bool" where
  "exec host vm pc rs h pc' rs' h' \<longleftrightarrow> reaches host pc (upd vm rs h) pc' (upd vm rs' h')"

lemma exec_trans:
  "exec host vm a rs h b rs' h' \<Longrightarrow> exec host vm b rs' h' c rs'' h'' \<Longrightarrow> exec host vm a rs h c rs'' h''"
  unfolding exec_def by (rule reaches_trans)

lemma exec_one:
  "(\<And>n acts stop call. vm_step host n acts stop call pc (upd vm rs h) = Some (Next pc' (upd vm rs' h'))) \<Longrightarrow>
   exec host vm pc rs h pc' rs' h'"
  unfolding exec_def by (rule reaches_step [OF _ reaches_refl])

section \<open>Single instructions\<close>

lemma unat_ucast_byte: "0 \<le> a \<Longrightarrow> a < 256 \<Longrightarrow> unat (ucast (word_of_int a :: u8) :: u32) = nat a"
  by (simp add: unsigned_ucast_eq take_bit_int_eq_self unsigned_of_int take_bit_nat_eq_self)

lemma fields [simp]:
  "INST_OP (abc op a b c) = opcode_num op"
  "0 \<le> a \<Longrightarrow> a < 256 \<Longrightarrow> unat (INST_A (abc op a b c)) = nat a"
  "0 \<le> b \<Longrightarrow> b < 256 \<Longrightarrow> unat (INST_B (abc op a b c)) = nat b"
  "0 \<le> c \<Longrightarrow> c < 256 \<Longrightarrow> unat (INST_C (abc op a b c)) = nat c"
  "INST_OP (abx op a bx) = opcode_num op"
  "0 \<le> a \<Longrightarrow> a < 256 \<Longrightarrow> unat (INST_A (abx op a bx)) = nat a"
  "INST_OP (asbx op a sbx) = opcode_num op"
  "0 \<le> a \<Longrightarrow> a < 256 \<Longrightarrow> unat (INST_A (asbx op a sbx)) = nat a"
  by (simp_all add: abc_def abx_def asbx_def laws unat_ucast_byte)

lemma field_bx [simp]: "0 \<le> bx \<Longrightarrow> bx < 65536 \<Longrightarrow> unat (INST_BX (abx op a bx)) = nat bx"
  by (simp add: abx_def laws unsigned_ucast_eq unsigned_of_int take_bit_int_eq_self take_bit_nat_eq_self)

lemma field_sbx [simp]: "- 32768 \<le> s \<Longrightarrow> s < 32768 \<Longrightarrow> sint (INST_SBX (asbx op a s)) = s"
  by (simp add: asbx_def laws signed_of_int signed_take_bit_int_eq_self)

lemma step_at: "code_at pc (upd vm rs h) = Some inst \<Longrightarrow> INST_OP inst = opcode_num op \<Longrightarrow>
  vm_step host n acts stop call pc (upd vm rs h) = execute host n acts stop call op inst pc (upd vm rs h)"
  by (simp add: vm_step_def)

definition reg_ok :: "VM \<Rightarrow> Value list \<Rightarrow> int \<Rightarrow> bool" where
  "reg_ok vm rs r \<longleftrightarrow> 0 \<le> r \<and> r < 256 \<and> base_of vm + nat r < length rs"

definition slot :: "VM \<Rightarrow> int \<Rightarrow> nat" where
  "slot vm r = base_of vm + nat r"

lemma exec_put:
  assumes "code_at pc vm = Some inst" "INST_OP inst = opcode_num op"
    and "\<And>n acts stop call. execute host n acts stop call op inst pc (upd vm rs h) = put_next (nat d) v pc (upd vm rs h')"
    and "reg_ok vm rs d"
  shows "exec host vm pc rs h (pc + 1) (rs[slot vm d := v]) h'"
  using assms by (intro exec_one) (simp add: step_at put_next_def reg_ok_def slot_def)

lemma exec_load_undefined:
  "code_at pc vm = Some (abc OP_LOAD_UNDEFINED d b c) \<Longrightarrow> reg_ok vm rs d \<Longrightarrow>
   exec host vm pc rs h (pc + 1) (rs[slot vm d := VAL_UNDEFINED]) h"
  by (rule exec_put) (auto simp: execute_def reg_ok_def)

lemma exec_load_null:
  "code_at pc vm = Some (abc OP_LOAD_NULL d b c) \<Longrightarrow> reg_ok vm rs d \<Longrightarrow>
   exec host vm pc rs h (pc + 1) (rs[slot vm d := VAL_NULL]) h"
  by (rule exec_put) (auto simp: execute_def reg_ok_def)

lemma exec_load_bool:
  "code_at pc vm = Some (abc OP_LOAD_BOOL d (if t then 1 else 0) c) \<Longrightarrow> reg_ok vm rs d \<Longrightarrow>
   exec host vm pc rs h (pc + 1) (rs[slot vm d := make_boolean t]) h"
  by (rule exec_put) (auto simp: execute_def reg_ok_def)

lemma exec_load_int:
  "code_at pc vm = Some (asbx OP_LOAD_INT d i) \<Longrightarrow> - 32768 \<le> i \<Longrightarrow> i < 32768 \<Longrightarrow> reg_ok vm rs d \<Longrightarrow>
   exec host vm pc rs h (pc + 1) (rs[slot vm d := make_integer (word_of_int i)]) h"
  by (rule exec_put) (auto simp: execute_def reg_ok_def)

lemma exec_load_const:
  "code_at pc vm = Some (abx OP_LOAD_CONST d (int i)) \<Longrightarrow> i < 65536 \<Longrightarrow> const_at i vm = Some v \<Longrightarrow> reg_ok vm rs d \<Longrightarrow>
   exec host vm pc rs h (pc + 1) (rs[slot vm d := v]) h"
  by (rule exec_put) (auto simp: execute_def reg_ok_def do_load_const_def)

lemma exec_move:
  "code_at pc vm = Some (abc OP_MOVE d r c) \<Longrightarrow> reg_ok vm rs d \<Longrightarrow> reg_ok vm rs r \<Longrightarrow>
   exec host vm pc rs h (pc + 1) (rs[slot vm d := rs ! slot vm r]) h"
  by (rule exec_put) (auto simp: execute_def reg_ok_def unary_op_def slot_def)

lemma exec_jump:
  "code_at pc vm = Some (asbx OP_JUMP a off) \<Longrightarrow> - 32768 \<le> off \<Longrightarrow> off < 32768 \<Longrightarrow>
   exec host vm pc rs h (pc + off + 1) rs h"
  by (rule exec_one) (simp add: step_at execute_def)

definition jump_cond :: "Opcode \<Rightarrow> Value \<Rightarrow> bool" where
  "jump_cond op v =
     (if op = OP_JUMP_IF_TRUE then is_truthy v else if op = OP_JUMP_IF_FALSE then \<not> is_truthy v
      else IS_NULL v \<or> IS_UNDEFINED v)"

lemma exec_jump_if:
  assumes "code_at pc vm = Some (asbx op a off)" "op \<in> {OP_JUMP_IF_TRUE, OP_JUMP_IF_FALSE, OP_JUMP_IF_NULLISH}"
    and "- 32768 \<le> off" "off < 32768" "reg_ok vm rs a"
  shows "exec host vm pc rs h (if jump_cond op (rs ! slot vm a) then pc + off + 1 else pc + 1) rs h"
  using assms by (intro exec_one) (auto simp: step_at execute_def do_jump_if_def jump_cond_def reg_ok_def slot_def)

section \<open>A semantics of expressions\<close>

text \<open>The state of an expression: the values of the local variables and the heap.\<close>

type_synonym st = "(string \<Rightarrow> Value) \<times> heap"
type_synonym sem = "st \<Rightarrow> (Value \<times> st) option"

definition binary_value :: "host \<Rightarrow> TokenType \<Rightarrow> Value \<Rightarrow> Value \<Rightarrow> heap \<Rightarrow> (Value \<times> heap) option" where
  "binary_value host op x y h =
     (case op of
        Punct t \<Rightarrow>
          (case t of
             TOK_PLUS \<Rightarrow> add_values (text_depth host) x y h
           | TOK_MINUS \<Rightarrow> Some (sub_values x y, h)
           | TOK_STAR \<Rightarrow> Some (mul_values x y, h)
           | TOK_SLASH \<Rightarrow> Some (div_values x y, h)
           | TOK_PERCENT \<Rightarrow> map_option (\<lambda>v. (v, h)) (mod_values x y)
           | TOK_LT \<Rightarrow> Some (make_boolean (compare_values h OP_LT x y), h)
           | TOK_LE \<Rightarrow> Some (make_boolean (compare_values h OP_LE x y), h)
           | TOK_GT \<Rightarrow> Some (make_boolean (compare_values h OP_GT x y), h)
           | TOK_GE \<Rightarrow> Some (make_boolean (compare_values h OP_GE x y), h)
           | TOK_EQ \<Rightarrow> Some (make_boolean (compare_values h OP_EQ x y), h)
           | TOK_NE \<Rightarrow> Some (make_boolean (compare_values h OP_NE x y), h)
           | TOK_EQ_LOOSE \<Rightarrow> map_option (\<lambda>(r, h). (make_boolean r, h)) (values_abstract_equal (text_depth host) x y h)
           | TOK_NE_LOOSE \<Rightarrow>
               map_option (\<lambda>(r, h). (make_boolean (\<not> r), h)) (values_abstract_equal (text_depth host) x y h)
           | TOK_AMPERSAND \<Rightarrow> map_option (\<lambda>v. (v, h)) (bit_op (AND) x y)
           | TOK_PIPE \<Rightarrow> map_option (\<lambda>v. (v, h)) (bit_op (OR) x y)
           | TOK_CARET \<Rightarrow> map_option (\<lambda>v. (v, h)) (bit_op (XOR) x y)
           | _ \<Rightarrow> None)
      | _ \<Rightarrow> None)"

definition plain_ops :: "TokenType list" where
  "plain_ops = map Punct
     [TOK_PLUS, TOK_MINUS, TOK_STAR, TOK_SLASH, TOK_PERCENT, TOK_LT, TOK_LE, TOK_GT, TOK_GE, TOK_EQ, TOK_NE,
      TOK_EQ_LOOSE, TOK_NE_LOOSE, TOK_AMPERSAND, TOK_PIPE, TOK_CARET]"

lemma execute_binary:
  assumes "op \<in> set plain_ops"
    and "reg_ok vm rs d" "reg_ok vm rs l" "reg_ok vm rs r"
    and "binary_value host op (rs ! slot vm l) (rs ! slot vm r) h = Some (v, h')"
  shows "execute host n acts stop call (binary_opcode op) (abc (binary_opcode op) d l r) pc (upd vm rs h) =
    put_next (nat d) v pc (upd vm rs h')"
  using assms
  by (auto simp: plain_ops_def binary_opcode_def execute_def binary_op_def reg_ok_def binary_value_def slot_def
      do_add_def pure_op_def partial_op_def do_compare_def do_eq_loose_def split: option.splits)

lemma exec_binary:
  assumes "code_at pc vm = Some (abc (binary_opcode op) d l r)" "op \<in> set plain_ops"
    and "reg_ok vm rs d" "reg_ok vm rs l" "reg_ok vm rs r"
    and "binary_value host op (rs ! slot vm l) (rs ! slot vm r) h = Some (v, h')"
  shows "exec host vm pc rs h (pc + 1) (rs[slot vm d := v]) h'"
  by (rule exec_put [OF assms(1)]) (use assms(2-) in \<open>auto intro!: execute_binary\<close>)

text \<open>The source meaning. \<open>&&\<close>, \<open>||\<close>, \<open>??\<close> and the conditional evaluate only the operand they need;
  operands are evaluated from left to right; an assignment changes one variable. Nodes outside the
  fragment have no meaning here.\<close>

definition sem_number :: "double \<Rightarrow> Value" where
  "sem_number v =
     (case f64_to_int32 v of
        Some i \<Rightarrow> if f64_eq v (f64_of_int i) \<and> - 32768 \<le> i \<and> i \<le> 32767 then make_integer (word_of_int i) else v
      | None \<Rightarrow> v)"

definition sem_unary :: "TokenType \<Rightarrow> sem \<Rightarrow> sem" where
  "sem_unary op e st =
     do {
       (v, st) \<leftarrow> e st;
       w \<leftarrow> (if op = Punct TOK_MINUS then do_neg v else if op = Punct TOK_NOT then do_not v else None);
       Some (w, st)
     }"

definition sem_binary :: "host \<Rightarrow> TokenType \<Rightarrow> sem \<Rightarrow> sem \<Rightarrow> sem" where
  "sem_binary host op l r st =
     do {
       (x, st) \<leftarrow> l st;
       if op = Punct TOK_OR then (if is_truthy x then Some (x, st) else r st)
       else if op = Punct TOK_AND then (if is_truthy x then r st else Some (x, st))
       else if op = Punct TOK_NULLISH then (if IS_NULL x \<or> IS_UNDEFINED x then r st else Some (x, st))
       else do { (y, \<rho>, h) \<leftarrow> r st; (v, h) \<leftarrow> binary_value host op x y h; Some (v, \<rho>, h) }
     }"

definition sem_ternary :: "sem \<Rightarrow> sem \<Rightarrow> sem \<Rightarrow> sem" where
  "sem_ternary c t e st = do { (x, st) \<leftarrow> c st; if is_truthy x then t st else e st }"

definition sem_assign :: "ast \<Rightarrow> sem \<Rightarrow> TokenType option \<Rightarrow> sem" where
  "sem_assign target v op st =
     (case (target, op) of
        (AST_IDENTIFIER x, None) \<Rightarrow> do { (w, \<rho>, h) \<leftarrow> v st; Some (w, \<rho>(x := w), h) }
      | _ \<Rightarrow> None)"

primrec eval :: "ast \<Rightarrow> host \<Rightarrow> sem" where
  "eval AST_NULL = (\<lambda>host st. None)"
| "eval (AST_LITERAL_NUMBER v) = (\<lambda>host st. Some (sem_number v, st))"
| "eval (AST_LITERAL_STRING v) = (\<lambda>host st. None)"
| "eval (AST_LITERAL_BOOL b) = (\<lambda>host st. Some (make_boolean b, st))"
| "eval AST_LITERAL_NULL = (\<lambda>host st. Some (VAL_NULL, st))"
| "eval AST_LITERAL_UNDEFINED = (\<lambda>host st. Some (VAL_UNDEFINED, st))"
| "eval (AST_LITERAL_REGEX p f) = (\<lambda>host st. None)"
| "eval (AST_IDENTIFIER x) = (\<lambda>host st. Some (fst st x, st))"
| "eval (AST_VAR_DECL n i c u au bs arr) = (\<lambda>host st. None)"
| "eval (AST_ASSIGN t v op) = (\<lambda>host. sem_assign t (eval v host) op)"
| "eval (AST_BINARY op l r) = (\<lambda>host. sem_binary host op (eval l host) (eval r host))"
| "eval (AST_UNARY op e) = (\<lambda>host. sem_unary op (eval e host))"
| "eval (AST_POSTFIX op e) = (\<lambda>host st. None)"
| "eval (AST_TERNARY c t e) = (\<lambda>host. sem_ternary (eval c host) (eval t host) (eval e host))"
| "eval (AST_CALL f as) = (\<lambda>host st. None)"
| "eval (AST_NEW_CALL f as) = (\<lambda>host st. None)"
| "eval (AST_BLOCK sc es i) = (\<lambda>host st. None)"
| "eval (AST_IF c t e) = (\<lambda>host st. None)"
| "eval (AST_WHILE c b) = (\<lambda>host st. None)"
| "eval (AST_DO_WHILE c b) = (\<lambda>host st. None)"
| "eval (AST_FOR sc i c u b) = (\<lambda>host st. None)"
| "eval (AST_FOR_OF sc n d e b c a) = (\<lambda>host st. None)"
| "eval (AST_FOR_IN sc n d e b c) = (\<lambda>host st. None)"
| "eval (AST_BREAK l) = (\<lambda>host st. None)"
| "eval (AST_CONTINUE l) = (\<lambda>host st. None)"
| "eval (AST_SWITCH d cs) = (\<lambda>host st. None)"
| "eval (AST_RETURN e) = (\<lambda>host st. None)"
| "eval (AST_FUNCTION sc n ps b a g ar cb) = (\<lambda>host st. None)"
| "eval (AST_OBJECT ps) = (\<lambda>host st. None)"
| "eval (AST_ARRAY es) = (\<lambda>host st. None)"
| "eval (AST_SPREAD e) = (\<lambda>host st. None)"
| "eval (AST_TEMPLATE_LITERAL es) = (\<lambda>host st. None)"
| "eval (AST_PROP_ACCESS ob p c) = (\<lambda>host st. None)"
| "eval (AST_OPTIONAL_CHAIN ob p c q) = (\<lambda>host st. None)"
| "eval (AST_EXPR_STMT e) = (\<lambda>host st. None)"
| "eval (AST_AWAIT e) = (\<lambda>host st. None)"
| "eval (AST_YIELD e d) = (\<lambda>host st. None)"
| "eval (AST_TRY t p c f) = (\<lambda>host st. None)"
| "eval (AST_THROW e) = (\<lambda>host st. None)"
| "eval (AST_SEQUENCE es) = (\<lambda>host st. None)"
| "eval (AST_CLASS n super ms) = (\<lambda>host st. None)"
| "eval AST_EMPTY = (\<lambda>host st. None)"

text \<open>The fragment. Its variables are locals that have a register.\<close>

type_synonym locals = "string \<rightharpoonup> int"

inductive simple :: "locals \<Rightarrow> ast \<Rightarrow> bool" for L where
  simple_number: "simple L (AST_LITERAL_NUMBER v)"
| simple_bool: "simple L (AST_LITERAL_BOOL b)"
| simple_null: "simple L AST_LITERAL_NULL"
| simple_undefined: "simple L AST_LITERAL_UNDEFINED"
| simple_identifier: "L x = Some r \<Longrightarrow> simple L (AST_IDENTIFIER x)"
| simple_unary: "op \<in> {Punct TOK_MINUS, Punct TOK_NOT} \<Longrightarrow> simple L e \<Longrightarrow> simple L (AST_UNARY op e)"
| simple_plain: "op \<in> set plain_ops \<Longrightarrow> simple L l \<Longrightarrow> simple L r \<Longrightarrow> simple L (AST_BINARY op l r)"
| simple_logical: "op \<in> {Punct TOK_OR, Punct TOK_AND, Punct TOK_NULLISH} \<Longrightarrow> simple L l \<Longrightarrow> simple L r \<Longrightarrow>
    simple L (AST_BINARY op l r)"
| simple_ternary: "simple L c \<Longrightarrow> simple L t \<Longrightarrow> simple L e \<Longrightarrow> simple L (AST_TERNARY c t e)"
| simple_assign: "L x = Some r \<Longrightarrow> simple L e \<Longrightarrow> simple L (AST_ASSIGN (AST_IDENTIFIER x) e None)"

definition local_of :: "scopes \<Rightarrow> nat option \<Rightarrow> locals" where
  "local_of ss s x =
     (case lookup_symbol_codegen ss s x of
        Some (c, i, _) \<Rightarrow>
          (let y = get_symbol ss c i in if is_captured y \<or> reg y < 0 then None else Some (reg y))
      | None \<Rightarrow> None)"

section \<open>What it means for code to be right\<close>

text \<open>The emitter after some code: instructions and constants are appended, and registers may have been
  used and freed.\<close>

definition grow :: "Emitter \<Rightarrow> u32 list \<Rightarrow> Value list \<Rightarrow> int \<Rightarrow> Emitter" where
  "grow g code p m = g\<lparr>bytecode := bytecode g @ code, const_pool := p, max_reg := m\<rparr>"

definition placed :: "VM \<Rightarrow> nat \<Rightarrow> u32 list \<Rightarrow> bool" where
  "placed vm k code \<longleftrightarrow> (\<forall>i < length code. code_at (int k + int i) vm = Some (code ! i))"

lemma placed_Nil [simp]: "placed vm k []"
  by (simp add: placed_def)

lemma placed_Cons [simp]: "placed vm k (x # xs) \<longleftrightarrow> code_at (int k) vm = Some x \<and> placed vm (Suc k) xs"
  by (simp add: placed_def All_less_Suc2 algebra_simps)

lemma placed_append [simp]: "placed vm k (xs @ ys) \<longleftrightarrow> placed vm k xs \<and> placed vm (k + length xs) ys"
  by (induction xs arbitrary: k) auto

definition pool_in :: "VM \<Rightarrow> Value list \<Rightarrow> bool" where
  "pool_in vm p \<longleftrightarrow> length p \<le> 65536 \<and> (\<forall>i < length p. const_at i vm = Some (p ! i))"

definition regs_ok :: "locals \<Rightarrow> int \<Rightarrow> bool" where
  "regs_ok L n \<longleftrightarrow> 0 \<le> n \<and> (\<forall>x r. L x = Some r \<longrightarrow> 0 \<le> r \<and> r < n) \<and> inj_on L (dom L)"

definition env_in :: "locals \<Rightarrow> VM \<Rightarrow> (string \<Rightarrow> Value) \<Rightarrow> Value list \<Rightarrow> bool" where
  "env_in L vm \<rho> rs \<longleftrightarrow> (\<forall>x r. L x = Some r \<longrightarrow> rs ! slot vm r = \<rho> x)"

text \<open>Registers below \<open>n\<close> that hold no local, apart from the destination.\<close>

definition kept :: "locals \<Rightarrow> VM \<Rightarrow> int \<Rightarrow> int \<Rightarrow> Value list \<Rightarrow> Value list \<Rightarrow> bool" where
  "kept L vm n dest rs rs' \<longleftrightarrow> length rs' = length rs \<and>
     (\<forall>i < base_of vm. rs' ! i = rs ! i) \<and>
     (\<forall>r. 0 \<le> r \<longrightarrow> r < n \<longrightarrow> r \<noteq> dest \<longrightarrow> r \<notin> ran L \<longrightarrow> rs' ! slot vm r = rs ! slot vm r)"

definition computes ::
  "host \<Rightarrow> locals \<Rightarrow> int \<Rightarrow> int \<Rightarrow> int \<Rightarrow> nat \<Rightarrow> u32 list \<Rightarrow> Value list \<Rightarrow> sem \<Rightarrow> bool" where
  "computes host L n dest m k code p sm \<longleftrightarrow>
     (\<forall>vm rs h \<rho> v \<rho>' h'.
        placed vm k code \<longrightarrow> pool_in vm p \<longrightarrow> m \<le> 256 \<longrightarrow> length code < 32768 \<longrightarrow>
        base_of vm + nat m \<le> length rs \<longrightarrow> env_in L vm \<rho> rs \<longrightarrow> sm (\<rho>, h) = Some (v, \<rho>', h') \<longrightarrow>
        (\<exists>rs'. exec host vm (int k) rs h (int k + int (length code)) rs' h' \<and>
               rs' ! slot vm dest = v \<and> env_in L vm \<rho>' rs' \<and> kept L vm n dest rs rs'))"

definition implements :: "host \<Rightarrow> locals \<Rightarrow> code \<Rightarrow> sem \<Rightarrow> bool" where
  "implements host L c sm \<longleftrightarrow>
     (\<forall>s dest g.
        local_of (scopes_of g) s = L \<longrightarrow> regs_ok L (next_reg g) \<longrightarrow> 0 \<le> dest \<longrightarrow> dest < next_reg g \<longrightarrow>
        next_reg g \<le> max_reg g \<longrightarrow> dest \<notin> ran L \<longrightarrow>
        (\<exists>code p m. c s dest g = Some (grow g code p m) \<and> prefix (const_pool g) p \<and> max_reg g \<le> m \<and>
           computes host L (next_reg g) dest m (here g) code p sm))"

section \<open>Facts about registers\<close>

lemma slot_eq [simp]: "0 \<le> a \<Longrightarrow> 0 \<le> b \<Longrightarrow> slot vm a = slot vm b \<longleftrightarrow> a = b"
  by (auto simp: slot_def)

lemma slot_bound [simp]: "base_of vm + nat m \<le> k \<Longrightarrow> 0 \<le> r \<Longrightarrow> r < m \<Longrightarrow> slot vm r < k"
  by (simp add: slot_def)

lemma reg_okI: "base_of vm + nat m \<le> length rs \<Longrightarrow> m \<le> 256 \<Longrightarrow> 0 \<le> r \<Longrightarrow> r < m \<Longrightarrow> reg_ok vm rs r"
  by (simp add: reg_ok_def)

lemma regs_okD: "regs_ok L n \<Longrightarrow> L x = Some r \<Longrightarrow> 0 \<le> r \<and> r < n"
  by (auto simp: regs_ok_def)

lemma regs_ok_mono: "regs_ok L n \<Longrightarrow> n \<le> n' \<Longrightarrow> regs_ok L n'"
  unfolding regs_ok_def by fastforce

lemma regs_ok_fresh: "regs_ok L n \<Longrightarrow> n \<le> r \<Longrightarrow> r \<notin> ran L"
  by (fastforce simp: regs_ok_def ran_def)

lemma env_inD: "env_in L vm \<rho> rs \<Longrightarrow> L x = Some r \<Longrightarrow> rs ! slot vm r = \<rho> x"
  by (simp add: env_in_def)

lemma env_in_put:
  assumes "env_in L vm \<rho> rs" "r \<notin> ran L" "0 \<le> r" "regs_ok L n"
  shows "env_in L vm \<rho> (rs[slot vm r := v])"
  unfolding env_in_def
proof (intro allI impI)
  fix x q assume q: "L x = Some q"
  then have "q \<noteq> r" "0 \<le> q" using assms(2,4) by (auto simp: ran_def dest: regs_okD)
  then have "slot vm r \<noteq> slot vm q" using assms(3) by simp
  then show "rs[slot vm r := v] ! slot vm q = \<rho> x" using assms(1) q by (simp add: env_in_def)
qed

lemma env_in_assign:
  assumes "env_in L vm \<rho> rs" "L x = Some r" "regs_ok L n" "slot vm r < length rs"
  shows "env_in L vm (\<rho>(x := v)) (rs[slot vm r := v])"
  unfolding env_in_def
proof (intro allI impI)
  fix y q assume q: "L y = Some q"
  have pos: "0 \<le> q" "0 \<le> r" using regs_okD [OF assms(3)] q assms(2) by auto
  have "y = x \<longleftrightarrow> q = r"
    using assms(2,3) q by (auto simp: regs_ok_def inj_on_def dom_def)
  then show "rs[slot vm r := v] ! slot vm q = (\<rho>(x := v)) y"
    using assms(1,4) pos q by (auto simp: env_in_def nth_list_update)
qed

lemma kept_trans: "kept L vm n d a b \<Longrightarrow> kept L vm n d b c \<Longrightarrow> kept L vm n d a c"
  by (simp add: kept_def)

lemma kept_weaken: "kept L vm n' d' a b \<Longrightarrow> n \<le> n' \<Longrightarrow> n \<le> d' \<or> d' = d \<Longrightarrow> kept L vm n d a b"
  by (auto simp: kept_def)

lemma kept_put: "0 \<le> r \<Longrightarrow> n \<le> r \<or> r = d \<or> r \<in> ran L \<Longrightarrow> kept L vm n d a (a[slot vm r := v])"
proof -
  assume r: "0 \<le> r" "n \<le> r \<or> r = d \<or> r \<in> ran L"
  have "slot vm r \<noteq> slot vm q" if "0 \<le> q" "q < n" "q \<noteq> d" "q \<notin> ran L" for q using that r by auto
  moreover have "slot vm r \<noteq> i" if "i < base_of vm" for i using that by (simp add: slot_def)
  ultimately show ?thesis by (auto simp: kept_def)
qed

lemma kept_length: "kept L vm n d a b \<Longrightarrow> length b = length a"
  by (simp add: kept_def)

lemma kept_reg: "kept L vm n d a b \<Longrightarrow> 0 \<le> r \<Longrightarrow> r < n \<Longrightarrow> r \<noteq> d \<Longrightarrow> r \<notin> ran L \<Longrightarrow> b ! slot vm r = a ! slot vm r"
  by (simp add: kept_def)

lemma pool_in_prefix: "pool_in vm q \<Longrightarrow> prefix p q \<Longrightarrow> pool_in vm p"
  by (auto simp: pool_in_def prefix_def nth_append)

lemma computesD:
  assumes "computes host L n dest m k code p sm" "placed vm k code" "pool_in vm p" "m \<le> 256" "length code < 32768"
    and "base_of vm + nat m \<le> length rs" "env_in L vm \<rho> rs" "sm (\<rho>, h) = Some (v, \<rho>', h')"
  obtains rs' where "exec host vm (int k) rs h (int k + int (length code)) rs' h'" "rs' ! slot vm dest = v"
    "env_in L vm \<rho>' rs'" "kept L vm n dest rs rs'"
  using assms unfolding computes_def by blast

section \<open>Operands\<close>

lemma alloc_simps [simp]:
  "fst (alloc_register g) = next_reg g"
  "next_reg (snd (alloc_register g)) = next_reg g + 1"
  "max_reg (snd (alloc_register g)) = max (max_reg g) (next_reg g + 1)"
  "scopes_of (snd (alloc_register g)) = scopes_of g"
  "const_pool (snd (alloc_register g)) = const_pool g"
  "here (snd (alloc_register g)) = here g"
  by (simp_all add: alloc_register_def here_def)

lemma grow_simps [simp]:
  "next_reg (grow g code p m) = next_reg g" "max_reg (grow g code p m) = m"
  "scopes_of (grow g code p m) = scopes_of g" "const_pool (grow g code p m) = p"
  "here (grow g code p m) = here g + length code" "bytecode (grow g code p m) = bytecode g @ code"
  by (simp_all add: grow_def here_def)

text \<open>Code that is right, run into a register allocated for it.\<close>

lemma operand:
  assumes "implements host L c sm" "local_of (scopes_of g) s = L" "regs_ok L (next_reg g)" "next_reg g \<le> max_reg g"
  obtains code p m where
    "c s (next_reg g) (snd (alloc_register g)) = Some (grow (snd (alloc_register g)) code p m)"
    "prefix (const_pool g) p" "max (max_reg g) (next_reg g + 1) \<le> m"
    "computes host L (next_reg g + 1) (next_reg g) m (here g) code p sm"
proof -
  have "regs_ok L (next_reg g + 1)" "0 \<le> next_reg g"
    using assms(3) regs_ok_mono [OF assms(3), of "next_reg g + 1"] by (simp_all add: regs_ok_def)
  moreover have "next_reg g \<notin> ran L" using regs_ok_fresh [OF assms(3)] by simp
  ultimately show thesis
    using assms(1) [unfolded implements_def, rule_format, of "snd (alloc_register g)" s "next_reg g"] assms(2-) that
    by auto
qed

text \<open>Code that is right, run into the destination.\<close>

lemma into_dest:
  assumes "implements host L c sm" "local_of (scopes_of g) s = L" "regs_ok L (next_reg g)" "next_reg g \<le> max_reg g"
    "0 \<le> dest" "dest < next_reg g" "dest \<notin> ran L"
  obtains code p m where "c s dest g = Some (grow g code p m)"
    "prefix (const_pool g) p" "max_reg g \<le> m" "computes host L (next_reg g) dest m (here g) code p sm"
  using assms unfolding implements_def by blast

text \<open>One instruction that puts a value into the destination.\<close>

lemma implements_one:
  assumes "\<And>s dest (g :: Emitter). local_of (scopes_of g) s = L \<Longrightarrow>
      \<exists>inst p. c s dest g = Some (grow g [inst dest] p (max_reg g)) \<and> prefix (const_pool g) p \<and>
        (\<forall>vm rs h \<rho> v \<rho>' h'. code_at (int (here g)) vm = Some (inst dest) \<longrightarrow> pool_in vm p \<longrightarrow> reg_ok vm rs dest \<longrightarrow>
           regs_ok L (next_reg g) \<longrightarrow> next_reg g \<le> 256 \<longrightarrow> base_of vm + nat (next_reg g) \<le> length rs \<longrightarrow>
           env_in L vm \<rho> rs \<longrightarrow> sm (\<rho>, h) = Some (v, \<rho>', h') \<longrightarrow>
           exec host vm (int (here g)) rs h (int (here g) + 1) (rs[slot vm dest := v]) h' \<and> \<rho>' = \<rho>)"
  shows "implements host L c sm"
  unfolding implements_def
proof (intro allI impI)
  fix s dest and g :: Emitter
  assume a: "local_of (scopes_of g) s = L" "regs_ok L (next_reg g)" "0 \<le> dest" "dest < next_reg g"
    "next_reg g \<le> max_reg g" "dest \<notin> ran L"
  obtain inst p where c: "c s dest g = Some (grow g [inst dest] p (max_reg g))" "prefix (const_pool g) p"
    and run: "\<And>vm rs h \<rho> v \<rho>' h'. \<lbrakk>code_at (int (here g)) vm = Some (inst dest); pool_in vm p; reg_ok vm rs dest;
       regs_ok L (next_reg g); next_reg g \<le> 256; base_of vm + nat (next_reg g) \<le> length rs;
       env_in L vm \<rho> rs; sm (\<rho>, h) = Some (v, \<rho>', h')\<rbrakk> \<Longrightarrow>
       exec host vm (int (here g)) rs h (int (here g) + 1) (rs[slot vm dest := v]) h' \<and> \<rho>' = \<rho>"
    using assms [OF a(1), of dest] by metis
  have "computes host L (next_reg g) dest (max_reg g) (here g) [inst dest] p sm"
    unfolding computes_def
  proof (intro allI impI)
    fix vm rs h \<rho> v \<rho>' h'
    assume b: "placed vm (here g) [inst dest]" "pool_in vm p" "max_reg g \<le> 256" "length [inst dest] < 32768"
      "base_of vm + nat (max_reg g) \<le> length rs" "env_in L vm \<rho> rs" "sm (\<rho>, h) = Some (v, \<rho>', h')"
    have ok: "reg_ok vm rs dest" by (rule reg_okI) (use a b in auto)
    have "exec host vm (int (here g)) rs h (int (here g) + 1) (rs[slot vm dest := v]) h' \<and> \<rho>' = \<rho>"
      by (rule run) (use a b ok in auto)
    then show "\<exists>rs'. exec host vm (int (here g)) rs h (int (here g) + int (length [inst dest])) rs' h' \<and>
        rs' ! slot vm dest = v \<and> env_in L vm \<rho>' rs' \<and> kept L vm (next_reg g) dest rs rs'"
      using a b ok by (intro exI [of _ "rs[slot vm dest := v]"])
        (auto intro: env_in_put kept_put simp: reg_ok_def slot_def [symmetric])
  qed
  with c show "\<exists>code p m. c s dest g = Some (grow g code p m) \<and> prefix (const_pool g) p \<and> max_reg g \<le> m \<and>
      computes host L (next_reg g) dest m (here g) code p sm"
    by (intro exI [of _ "[inst dest]"] exI [of _ p] exI [of _ "max_reg g"]) simp
qed

section \<open>Leaves\<close>

lemma emit_grow: "emit_instruction inst g = grow g [inst] (const_pool g) (max_reg g)"
  by (simp add: emit_instruction_def grow_def)

lemma implements_leaf:
  assumes "\<And>s dest g. local_of (scopes_of g) s = L \<Longrightarrow> c s dest g = Some (emit_instruction (inst dest) g)"
    and "\<And>k vm rs h \<rho> dest n v \<rho>' h'. \<lbrakk>code_at k vm = Some (inst dest); reg_ok vm rs dest; regs_ok L n; n \<le> 256;
      base_of vm + nat n \<le> length rs; env_in L vm \<rho> rs; sm (\<rho>, h) = Some (v, \<rho>', h')\<rbrakk> \<Longrightarrow>
      exec host vm k rs h (k + 1) (rs[slot vm dest := v]) h' \<and> \<rho>' = \<rho>"
  shows "implements host L c sm"
proof (rule implements_one)
  fix s dest and g :: Emitter assume "local_of (scopes_of g) s = L"
  from assms(1) [OF this]
  have "c s dest g = Some (grow g [inst dest] (const_pool g) (max_reg g))" by (simp add: emit_grow)
  with assms(2) show "\<exists>inst p. c s dest g = Some (grow g [inst dest] p (max_reg g)) \<and> prefix (const_pool g) p \<and>
      (\<forall>vm rs h \<rho> v \<rho>' h'. code_at (int (here g)) vm = Some (inst dest) \<longrightarrow> pool_in vm p \<longrightarrow> reg_ok vm rs dest \<longrightarrow>
         regs_ok L (next_reg g) \<longrightarrow> next_reg g \<le> 256 \<longrightarrow> base_of vm + nat (next_reg g) \<le> length rs \<longrightarrow>
         env_in L vm \<rho> rs \<longrightarrow> sm (\<rho>, h) = Some (v, \<rho>', h') \<longrightarrow>
         exec host vm (int (here g)) rs h (int (here g) + 1) (rs[slot vm dest := v]) h' \<and> \<rho>' = \<rho>)"
    by (intro exI [of _ inst] exI [of _ "const_pool g"]) blast
qed

lemma implements_load_undefined: "implements host L load_undefined (\<lambda>st. Some (VAL_UNDEFINED, st))"
  by (rule implements_leaf [where inst = "\<lambda>dest. abc OP_LOAD_UNDEFINED dest 0 0"])
    (auto simp: load_undefined_def intro: exec_load_undefined)

lemma implements_null:
  "implements host L (\<lambda>s dest g. Some (emit_instruction (abc OP_LOAD_NULL dest 0 0) g)) (\<lambda>st. Some (VAL_NULL, st))"
  by (rule implements_leaf [where inst = "\<lambda>dest. abc OP_LOAD_NULL dest 0 0"]) (auto intro: exec_load_null)

lemma implements_bool:
  "implements host L (\<lambda>s dest g. Some (emit_instruction (abc OP_LOAD_BOOL dest (if t then 1 else 0) 0) g))
     (\<lambda>st. Some (make_boolean t, st))"
  by (rule implements_leaf [where inst = "\<lambda>dest. abc OP_LOAD_BOOL dest (if t then 1 else 0) 0"])
    (simp, drule exec_load_bool, assumption, simp)

lemma position_SomeD: "position x xs = Some i \<Longrightarrow> i < length xs \<and> xs ! i = x"
  by (induction xs arbitrary: i) (auto split: if_splits)

lemma add_constant:
  obtains i p where "add_constant_val v g = (int i, g\<lparr>const_pool := p\<rparr>)" "prefix (const_pool g) p"
    "i < length p" "p ! i = v"
proof (cases "position v (const_pool g)")
  case None
  then show thesis
    by (intro that [of "length (const_pool g)" "const_pool g @ [v]"]) (simp_all add: add_constant_val_def)
next
  case (Some i)
  then show thesis
    using position_SomeD [OF Some] by (intro that [of i "const_pool g"]) (simp_all add: add_constant_val_def)
qed

lemma implements_constant:
  "implements host L
     (\<lambda>s dest g. let (ci, g) = add_constant_double v g in Some (emit_instruction (abx OP_LOAD_CONST dest ci) g))
     (\<lambda>st. Some (v, st))"
proof (rule implements_one)
  fix s dest and g :: Emitter
  obtain i p where c: "add_constant_val v g = (int i, g\<lparr>const_pool := p\<rparr>)" "prefix (const_pool g) p"
    "i < length p" "p ! i = v" by (rule add_constant)
  have "exec host vm (int (here g)) rs h (int (here g) + 1) (rs[slot vm dest := v]) h"
    if "code_at (int (here g)) vm = Some (abx OP_LOAD_CONST dest (int i))" "pool_in vm p" "reg_ok vm rs dest" for vm rs h
    by (rule exec_load_const) (use that c in \<open>auto simp: pool_in_def\<close>)
  with c show "\<exists>inst p. (let (ci, g) = add_constant_double v g
        in Some (emit_instruction (abx OP_LOAD_CONST dest ci) g)) = Some (grow g [inst dest] p (max_reg g)) \<and>
      prefix (const_pool g) p \<and>
      (\<forall>vm rs h \<rho> va \<rho>' h'. code_at (int (here g)) vm = Some (inst dest) \<longrightarrow> pool_in vm p \<longrightarrow> reg_ok vm rs dest \<longrightarrow>
         regs_ok L (next_reg g) \<longrightarrow> next_reg g \<le> 256 \<longrightarrow> base_of vm + nat (next_reg g) \<le> length rs \<longrightarrow>
         env_in L vm \<rho> rs \<longrightarrow> Some (v, \<rho>, h) = Some (va, \<rho>', h') \<longrightarrow>
         exec host vm (int (here g)) rs h (int (here g) + 1) (rs[slot vm dest := va]) h' \<and> \<rho>' = \<rho>)"
    by (intro exI [of _ "\<lambda>dest. abx OP_LOAD_CONST dest (int i)"] exI [of _ p])
      (auto simp: add_constant_double_def emit_instruction_def grow_def)
qed

lemma implements_number: "implements host L (compile_number v) (\<lambda>st. Some (sem_number v, st))"
proof (cases "\<exists>i. f64_to_int32 v = Some i \<and> f64_eq v (f64_of_int i) \<and> - 32768 \<le> i \<and> i \<le> 32767")
  case True
  then obtain i where "f64_to_int32 v = Some i" "f64_eq v (f64_of_int i)" "- 32768 \<le> i" "i \<le> 32767" by blast
  then show ?thesis
    by (intro implements_leaf [where inst = "\<lambda>dest. asbx OP_LOAD_INT dest i"])
      (auto simp: compile_number_def sem_number_def intro: exec_load_int)
next
  case False
  then have "compile_number v = (\<lambda>s dest g. let (ci, g) = add_constant_double v g
      in Some (emit_instruction (abx OP_LOAD_CONST dest ci) g))" "sem_number v = v"
    by (auto simp: compile_number_def sem_number_def fun_eq_iff split: option.splits)
  then show ?thesis using implements_constant by simp
qed

text \<open>A local variable that has a register.\<close>

lemma local_ofD:
  assumes "local_of (scopes_of g) s x = Some r"
  obtains c i d where "lookup s x g = Some (c, i, d)" "\<not> is_captured (symbol_at c i g)" "reg (symbol_at c i g) = r" "0 \<le> r"
  using assms that unfolding local_of_def lookup_def symbol_at_def
  by (auto simp: Let_def split: option.splits if_splits)

lemma compile_local:
  "local_of (scopes_of g) s x = Some r \<Longrightarrow> compile_identifier x s dest g = Some (emit_instruction (abc OP_MOVE dest r 0) g)"
  by (erule local_ofD) (simp add: compile_identifier_def need_reg_def)

lemma store_local:
  "local_of (scopes_of g) s x = Some r \<Longrightarrow>
   emit_store_lvalue (AST_IDENTIFIER x) tc n s g = Some (emit_instruction (abc OP_MOVE r n 0) g)"
  by (erule local_ofD) (simp add: emit_store_lvalue_def store_symbol_def)

lemma implements_identifier:
  assumes "L x = Some r"
  shows "implements host L (compile_identifier x) (\<lambda>st. Some (fst st x, st))"
proof (rule implements_leaf [where inst = "\<lambda>dest. abc OP_MOVE dest r 0"])
  fix s dest and g :: Emitter assume "local_of (scopes_of g) s = L"
  with assms show "compile_identifier x s dest g = Some (emit_instruction (abc OP_MOVE dest r 0) g)"
    by (simp add: compile_local)
next
  fix k vm rs \<rho> dest n v \<rho>' and h h' :: heap
  assume a: "code_at k vm = Some (abc OP_MOVE dest r 0)" "reg_ok vm rs dest" "regs_ok L n" "n \<le> 256"
    "base_of vm + nat n \<le> length rs" "env_in L vm \<rho> rs" "Some (fst (\<rho>, h) x, \<rho>, h) = Some (v, \<rho>', h')"
  have "reg_ok vm rs r" by (rule reg_okI [OF a(5,4)]) (use regs_okD [OF a(3) assms] in simp_all)
  from exec_move [OF a(1,2) this] show "exec host vm k rs h (k + 1) (rs[slot vm dest := v]) h' \<and> \<rho>' = \<rho>"
    using a(6,7) assms by (auto simp: env_in_def)
qed

section \<open>Operators\<close>

text \<open>To show that code is right it suffices to look at it in the emitter it runs in.\<close>

lemma implementsI:
  assumes "\<And>s dest g. \<lbrakk>local_of (scopes_of g) s = L; regs_ok L (next_reg g); 0 \<le> dest; dest < next_reg g;
      next_reg g \<le> max_reg g; dest \<notin> ran L\<rbrakk> \<Longrightarrow>
      \<exists>code p m. c s dest g = Some (grow g code p m) \<and> prefix (const_pool g) p \<and> max_reg g \<le> m \<and>
        computes host L (next_reg g) dest m (here g) code p sm"
  shows "implements host L c sm"
  using assms unfolding implements_def by blast

lemma computesI:
  assumes "\<And>vm rs h \<rho> v \<rho>' h'. \<lbrakk>placed vm k code; pool_in vm p; m \<le> 256; length code < 32768;
      base_of vm + nat m \<le> length rs; env_in L vm \<rho> rs; sm (\<rho>, h) = Some (v, \<rho>', h')\<rbrakk> \<Longrightarrow>
      \<exists>rs'. exec host vm (int k) rs h (int k + int (length code)) rs' h' \<and> rs' ! slot vm dest = v \<and>
        env_in L vm \<rho>' rs' \<and> kept L vm n dest rs rs'"
  shows "computes host L n dest m k code p sm"
  using assms unfolding computes_def by blast

text \<open>The result of a computation is moved or computed into the destination by one last instruction.\<close>

lemma finish_put:
  assumes "kept L vm n d rs rs1" "env_in L vm \<rho> rs1" "regs_ok L n" "0 \<le> d" "d \<notin> ran L" "slot vm d < length rs1"
  shows "rs1[slot vm d := v] ! slot vm d = v \<and> env_in L vm \<rho> (rs1[slot vm d := v]) \<and>
    kept L vm n d rs (rs1[slot vm d := v])"
  using assms by (auto intro: env_in_put kept_trans kept_put)

lemma exec_unary:
  assumes "code_at pc vm = Some (abc (unary_opcode op) d e 0)" "op \<in> {Punct TOK_MINUS, Punct TOK_NOT}"
    and "reg_ok vm rs d" "reg_ok vm rs e"
    and "(if op = Punct TOK_MINUS then do_neg (rs ! slot vm e) else do_not (rs ! slot vm e)) = Some v"
  shows "exec host vm pc rs h (pc + 1) (rs[slot vm d := v]) h"
  by (rule exec_put [OF assms(1)])
    (use assms(2-) in \<open>auto simp: unary_opcode_def execute_def unary_op_def reg_ok_def slot_def\<close>)

lemma implements_unary:
  assumes op: "op \<in> {Punct TOK_MINUS, Punct TOK_NOT}" and e: "implements host L (run ec) sm"
  shows "implements host L (compile_unary op ex ec) (sem_unary op sm)"
proof (rule implementsI)
  fix s dest and g :: Emitter
  let ?n = "next_reg g"
  assume a: "local_of (scopes_of g) s = L" "regs_ok L ?n" "0 \<le> dest" "dest < ?n" "?n \<le> max_reg g" "dest \<notin> ran L"
  obtain ce p m where ce: "run ec s ?n (snd (alloc_register g)) = Some (grow (snd (alloc_register g)) ce p m)"
    "prefix (const_pool g) p" "max (max_reg g) (?n + 1) \<le> m" "computes host L (?n + 1) ?n m (here g) ce p sm"
    by (rule operand [OF e a(1,2,5)])
  let ?code = "ce @ [abc (unary_opcode op) dest ?n 0]"
  have "compile_unary op ex ec s dest g = Some (grow g ?code p m)"
    using ce(1) op by (auto simp: compile_unary_def alloc_register_def emit_instruction_def free_registers_def grow_def)
  moreover have "computes host L ?n dest m (here g) ?code p (sem_unary op sm)"
  proof (rule computesI)
    fix vm rs h \<rho> v \<rho>' h'
    assume b: "placed vm (here g) ?code" "pool_in vm p" "m \<le> 256" "length ?code < 32768"
      "base_of vm + nat m \<le> length rs" "env_in L vm \<rho> rs" "sem_unary op sm (\<rho>, h) = Some (v, \<rho>', h')"
    from b(7) obtain x where x: "sm (\<rho>, h) = Some (x, \<rho>', h')"
      "(if op = Punct TOK_MINUS then do_neg x else do_not x) = Some v"
      using op by (auto simp: sem_unary_def split: bind_splits if_splits)
    obtain rs1 where r: "exec host vm (int (here g)) rs h (int (here g) + int (length ce)) rs1 h'"
      "rs1 ! slot vm ?n = x" "env_in L vm \<rho>' rs1" "kept L vm (?n + 1) ?n rs rs1"
      by (rule computesD [OF ce(4) _ b(2,3) _ b(5,6) x(1)]) (use b in auto)
    have len: "length rs1 = length rs" using r(4) by (simp add: kept_def)
    have ok: "reg_ok vm rs1 dest" "reg_ok vm rs1 ?n"
      by (rule reg_okI [of vm m]; use a b(3,5) ce(3) len in simp)+
    have "exec host vm (int (here g) + int (length ce)) rs1 h' (int (here g) + int (length ce) + 1)
        (rs1[slot vm dest := v]) h'"
      by (rule exec_unary [OF _ op ok]) (use b(1) x(2) r(2) in auto)
    with r(1) have "exec host vm (int (here g)) rs h (int (here g) + int (length ?code)) (rs1[slot vm dest := v]) h'"
      by (auto elim: exec_trans simp: ac_simps)
    moreover have "rs1[slot vm dest := v] ! slot vm dest = v \<and> env_in L vm \<rho>' (rs1[slot vm dest := v]) \<and>
        kept L vm ?n dest rs (rs1[slot vm dest := v])"
      by (rule finish_put [OF kept_weaken [OF r(4)] r(3)]) (use a ok in \<open>auto simp: reg_ok_def slot_def\<close>)
    ultimately show "\<exists>rs'. exec host vm (int (here g)) rs h (int (here g) + int (length ?code)) rs' h' \<and>
        rs' ! slot vm dest = v \<and> env_in L vm \<rho>' rs' \<and> kept L vm ?n dest rs rs'" by blast
  qed
  ultimately show "\<exists>code p m. compile_unary op ex ec s dest g = Some (grow g code p m) \<and>
      prefix (const_pool g) p \<and> max_reg g \<le> m \<and> computes host L ?n dest m (here g) code p (sem_unary op sm)"
    using ce(2,3) by (intro exI [of _ ?code] exI [of _ p] exI [of _ m]) simp
qed

text \<open>Two operands, one after the other, in fresh registers, with the code \<open>mid\<close> between them.\<close>

lemma two_operands:
  assumes l: "implements host L left sl" and r: "implements host L right sr"
    and a: "local_of (scopes_of g) s = L" "regs_ok L (next_reg g)" "next_reg g \<le> max_reg g"
  obtains cl p1 m1 cr p2 m2 where
    "left s (next_reg g) (snd (alloc_register g)) = Some (grow (snd (alloc_register g)) cl p1 m1)"
    "right s (next_reg g + 1) (snd (alloc_register (grow (snd (alloc_register g)) (cl @ mid) p1 m1))) =
       Some (grow (snd (alloc_register (grow (snd (alloc_register g)) (cl @ mid) p1 m1))) cr p2 m2)"
    "prefix (const_pool g) p1" "prefix p1 p2" "max_reg g \<le> m1" "next_reg g + 1 \<le> m1" "m1 \<le> m2" "next_reg g + 2 \<le> m2"
    "computes host L (next_reg g + 1) (next_reg g) m1 (here g) cl p1 sl"
    "computes host L (next_reg g + 2) (next_reg g + 1) m2 (here g + length cl + length mid) cr p2 sr"
proof -
  obtain cl p1 m1 where 1: "left s (next_reg g) (snd (alloc_register g)) = Some (grow (snd (alloc_register g)) cl p1 m1)"
    "prefix (const_pool g) p1" "max (max_reg g) (next_reg g + 1) \<le> m1"
    "computes host L (next_reg g + 1) (next_reg g) m1 (here g) cl p1 sl"
    by (rule operand [OF l a])
  let ?g = "grow (snd (alloc_register g)) (cl @ mid) p1 m1"
  have "local_of (scopes_of ?g) s = L" "regs_ok L (next_reg ?g)" "next_reg ?g \<le> max_reg ?g"
    using a 1(3) regs_ok_mono [OF a(2), of "next_reg g + 1"] by simp_all
  then obtain cr p2 m2 where 2: "right s (next_reg ?g) (snd (alloc_register ?g)) = Some (grow (snd (alloc_register ?g)) cr p2 m2)"
    "prefix (const_pool ?g) p2" "max (max_reg ?g) (next_reg ?g + 1) \<le> m2"
    "computes host L (next_reg ?g + 1) (next_reg ?g) m2 (here ?g) cr p2 sr"
    by (rule operand [OF r])
  show thesis by (rule that [of cl p1 m1 cr p2 m2]) (use 1 2 in \<open>auto simp: add.assoc\<close>)
qed

text \<open>Running them: the first value stays in its register while the second is computed.\<close>

lemma run_left:
  assumes "computes host L (n + 1) n m1 k cl p1 sl" "placed vm k cl" "pool_in vm p2" "prefix p1 p2" "m1 \<le> m2" "m2 \<le> 256"
    "length cl < 32768" "base_of vm + nat m2 \<le> length rs" "env_in L vm \<rho> rs" "sl (\<rho>, h) = Some (x, \<rho>1, h1)"
  obtains rs1 where "exec host vm (int k) rs h (int k + int (length cl)) rs1 h1" "rs1 ! slot vm n = x"
    "env_in L vm \<rho>1 rs1" "kept L vm (n + 1) n rs rs1" "length rs1 = length rs"
proof -
  obtain rs1 where "exec host vm (int k) rs h (int k + int (length cl)) rs1 h1" "rs1 ! slot vm n = x"
    "env_in L vm \<rho>1 rs1" "kept L vm (n + 1) n rs rs1"
    by (rule computesD [OF assms(1,2) pool_in_prefix [OF assms(3,4)] _ assms(7) _ assms(9,10)]) (use assms in auto)
  with that kept_length show thesis by metis
qed

lemma run_right:
  assumes "computes host L (n + 2) (n + 1) m2 k cr p2 sr" "placed vm k cr" "pool_in vm p2" "m2 \<le> 256"
    "length cr < 32768" "base_of vm + nat m2 \<le> length rs1" "env_in L vm \<rho>1 rs1" "sr (\<rho>1, h1) = Some (y, \<rho>', h2)"
    "regs_ok L n"
  obtains rs2 where "exec host vm (int k) rs1 h1 (int k + int (length cr)) rs2 h2" "rs2 ! slot vm (n + 1) = y"
    "env_in L vm \<rho>' rs2" "kept L vm (n + 2) (n + 1) rs1 rs2" "length rs2 = length rs1" "rs2 ! slot vm n = rs1 ! slot vm n"
proof -
  obtain rs2 where r: "exec host vm (int k) rs1 h1 (int k + int (length cr)) rs2 h2" "rs2 ! slot vm (n + 1) = y"
    "env_in L vm \<rho>' rs2" "kept L vm (n + 2) (n + 1) rs1 rs2"
    by (rule computesD [OF assms(1-8)])
  have "rs2 ! slot vm n = rs1 ! slot vm n"
    using kept_reg [OF r(4), of n] regs_ok_fresh [OF assms(9)] assms(9) by (auto simp: regs_ok_def)
  with that r kept_length show thesis by metis
qed

lemma kept_two:
  "kept L vm (n + 1) n a b \<Longrightarrow> kept L vm (n + 2) (n + 1) b c \<Longrightarrow> kept L vm n d a c"
  using kept_weaken [of L vm "n + 1" n a b n d] kept_weaken [of L vm "n + 2" "n + 1" b c n d]
  by (auto intro: kept_trans)

lemma implements_plain_binary:
  assumes op: "op \<in> set plain_ops" and l: "implements host L left sl" and r: "implements host L right sr"
  shows "implements host L (compile_plain_binary (binary_opcode op) left right)
    (\<lambda>st. do { (x, st) \<leftarrow> sl st; (y, \<rho>, h) \<leftarrow> sr st; (v, h) \<leftarrow> binary_value host op x y h; Some (v, \<rho>, h) })"
    (is "implements host L ?c ?sm")
proof (rule implementsI)
  fix s dest and g :: Emitter
  let ?n = "next_reg g"
  assume a: "local_of (scopes_of g) s = L" "regs_ok L ?n" "0 \<le> dest" "dest < ?n" "?n \<le> max_reg g" "dest \<notin> ran L"
  obtain cl p1 m1 cr p2 m2 where c:
    "left s ?n (snd (alloc_register g)) = Some (grow (snd (alloc_register g)) cl p1 m1)"
    "right s (?n + 1) (snd (alloc_register (grow (snd (alloc_register g)) (cl @ []) p1 m1))) =
       Some (grow (snd (alloc_register (grow (snd (alloc_register g)) (cl @ []) p1 m1))) cr p2 m2)"
    "prefix (const_pool g) p1" "prefix p1 p2" "max_reg g \<le> m1" "?n + 1 \<le> m1" "m1 \<le> m2" "?n + 2 \<le> m2"
    "computes host L (?n + 1) ?n m1 (here g) cl p1 sl"
    "computes host L (?n + 2) (?n + 1) m2 (here g + length cl + length ([] :: u32 list)) cr p2 sr"
    by (rule two_operands [OF l r a(1,2,5)])
  let ?code = "cl @ cr @ [abc (binary_opcode op) dest ?n (?n + 1)]"
  have "?c s dest g = Some (grow g ?code p2 m2)"
    using c(1,2) by (auto simp: compile_plain_binary_def alloc_register_def emit_instruction_def free_registers_def grow_def)
  moreover have "computes host L ?n dest m2 (here g) ?code p2 ?sm"
  proof (rule computesI)
    fix vm rs h \<rho> v \<rho>' h'
    assume b: "placed vm (here g) ?code" "pool_in vm p2" "m2 \<le> 256" "length ?code < 32768"
      "base_of vm + nat m2 \<le> length rs" "env_in L vm \<rho> rs" "?sm (\<rho>, h) = Some (v, \<rho>', h')"
    from b(7) obtain x \<rho>1 h1 y h2 where x: "sl (\<rho>, h) = Some (x, \<rho>1, h1)" "sr (\<rho>1, h1) = Some (y, \<rho>', h2)"
      "binary_value host op x y h2 = Some (v, h')"
      by (auto split: bind_splits)
    obtain rs1 where r1: "exec host vm (int (here g)) rs h (int (here g) + int (length cl)) rs1 h1"
      "rs1 ! slot vm ?n = x" "env_in L vm \<rho>1 rs1" "kept L vm (?n + 1) ?n rs rs1" "length rs1 = length rs"
      by (rule run_left [OF c(9) _ b(2) c(4,7) b(3) _ b(5,6) x(1)]) (use b in auto)
    obtain rs2 where r2: "exec host vm (int (here g + length cl)) rs1 h1 (int (here g + length cl) + int (length cr)) rs2 h2"
      "rs2 ! slot vm (?n + 1) = y" "env_in L vm \<rho>' rs2" "kept L vm (?n + 2) (?n + 1) rs1 rs2"
      "length rs2 = length rs1" "rs2 ! slot vm ?n = rs1 ! slot vm ?n"
      by (rule run_right [OF c(10) _ b(2,3) _ _ r1(3) x(2) a(2)]) (use b r1(5) in auto)
    have ok: "reg_ok vm rs2 dest" "reg_ok vm rs2 ?n" "reg_ok vm rs2 (?n + 1)"
      by (rule reg_okI [of vm m2]; use a b(3,5) c(8) r1(5) r2(5) in simp)+
    have "exec host vm (int (here g) + int (length cl) + int (length cr)) rs2 h2
        (int (here g) + int (length cl) + int (length cr) + 1) (rs2[slot vm dest := v]) h'"
      by (rule exec_binary [OF _ op ok]) (use b(1) x(3) r1(2) r2(2,6) in \<open>auto simp: add.assoc\<close>)
    with r1(1) r2(1) have "exec host vm (int (here g)) rs h (int (here g) + int (length ?code)) (rs2[slot vm dest := v]) h'"
      by (auto elim!: exec_trans simp: ac_simps)
    then show "\<exists>rs'. exec host vm (int (here g)) rs h (int (here g) + int (length ?code)) rs' h' \<and>
        rs' ! slot vm dest = v \<and> env_in L vm \<rho>' rs' \<and> kept L vm ?n dest rs rs'"
      using finish_put [OF kept_two [OF r1(4) r2(4)] r2(3) a(2,3,6)] ok by (auto simp: reg_ok_def slot_def)
  qed
  ultimately show "\<exists>code p m. ?c s dest g = Some (grow g code p m) \<and>
      prefix (const_pool g) p \<and> max_reg g \<le> m \<and> computes host L ?n dest m (here g) code p ?sm"
    using c(3,4,5,7) by (intro exI [of _ ?code] exI [of _ p2] exI [of _ m2]) auto
qed

text \<open>The emitter operations in a normal form: an emitter with another register counter and some code,
  constants and registers more.\<close>

definition em :: "Emitter \<Rightarrow> int \<Rightarrow> u32 list \<Rightarrow> Value list \<Rightarrow> int \<Rightarrow> Emitter" where
  "em g n code p m = (grow g code p m)\<lparr>next_reg := n\<rparr>"

lemma em_em [simp]: "em (em g n c p m) n' c' p' m' = em g n' (c @ c') p' m'"
  by (simp add: em_def grow_def)

lemma em_simps [simp]:
  "next_reg (em g n c p m) = n" "max_reg (em g n c p m) = m" "const_pool (em g n c p m) = p"
  "scopes_of (em g n c p m) = scopes_of g" "here (em g n c p m) = here g + length c"
  by (simp_all add: em_def grow_def here_def)

lemma em_patch:
  "here g \<le> i \<Longrightarrow> patch_jump i op r (em g n c p m) =
     em g n (c[i - here g := asbx op r (int (here g) + int (length c) - int i - 1)]) p m"
  by (simp add: patch_jump_def patch_def em_def grow_def here_def list_update_append)

lemma em_ops:
  "alloc_register g = (next_reg g, em g (next_reg g + 1) [] (const_pool g) (max (max_reg g) (next_reg g + 1)))"
  "emit_instruction i g = em g (next_reg g) [i] (const_pool g) (max_reg g)"
  "free_registers r g = em g r [] (const_pool g) (max_reg g)"
  "grow g code p m = em g (next_reg g) code p m"
  by (simp_all add: alloc_register_def emit_instruction_def free_registers_def em_def grow_def)

lemmas em_forms = em_ops em_patch Let_def

text \<open>\<open>||\<close> and \<open>&&\<close>.\<close>

lemma implements_logical:
  assumes j: "jump \<in> {OP_JUMP_IF_TRUE, OP_JUMP_IF_FALSE}"
    and l: "implements host L left sl" and r: "implements host L right sr"
  shows "implements host L (compile_logical jump left right)
    (\<lambda>st. do { (x, st) \<leftarrow> sl st; if jump_cond jump x then Some (x, st) else sr st })"
    (is "implements host L ?c ?sm")
proof (rule implementsI)
  fix s dest and g :: Emitter
  let ?n = "next_reg g"
  assume a: "local_of (scopes_of g) s = L" "regs_ok L ?n" "0 \<le> dest" "dest < ?n" "?n \<le> max_reg g" "dest \<notin> ran L"
  let ?mid = "[asbx jump ?n 0]"
  obtain cl p1 m1 cr p2 m2 where c:
    "left s ?n (snd (alloc_register g)) = Some (grow (snd (alloc_register g)) cl p1 m1)"
    "right s (?n + 1) (snd (alloc_register (grow (snd (alloc_register g)) (cl @ ?mid) p1 m1))) =
       Some (grow (snd (alloc_register (grow (snd (alloc_register g)) (cl @ ?mid) p1 m1))) cr p2 m2)"
    "prefix (const_pool g) p1" "prefix p1 p2" "max_reg g \<le> m1" "?n + 1 \<le> m1" "m1 \<le> m2" "?n + 2 \<le> m2"
    "computes host L (?n + 1) ?n m1 (here g) cl p1 sl"
    "computes host L (?n + 2) (?n + 1) m2 (here g + length cl + length ?mid) cr p2 sr"
    by (rule two_operands [OF l r a(1,2,5)])
  let ?code = "cl @ [asbx jump ?n (2 + int (length cr))] @ cr @
    [abc OP_MOVE dest (?n + 1) 0, asbx OP_JUMP 0 1, abc OP_MOVE dest ?n 0]"
  have "?c s dest g = Some (grow g ?code p2 m2)"
    using c(1,2) by (simp add: compile_logical_def em_forms list_update_append)
  moreover have "computes host L ?n dest m2 (here g) ?code p2 ?sm"
  proof (rule computesI)
    fix vm rs h \<rho> v \<rho>' h'
    assume b: "placed vm (here g) ?code" "pool_in vm p2" "m2 \<le> 256" "length ?code < 32768"
      "base_of vm + nat m2 \<le> length rs" "env_in L vm \<rho> rs" "?sm (\<rho>, h) = Some (v, \<rho>', h')"
    let ?k = "int (here g) + int (length cl)" and ?e = "int (here g) + int (length ?code)"
    from b(7) obtain x \<rho>1 h1 where x: "sl (\<rho>, h) = Some (x, \<rho>1, h1)"
      "(if jump_cond jump x then Some (x, \<rho>1, h1) else sr (\<rho>1, h1)) = Some (v, \<rho>', h')"
      by (auto split: bind_splits)
    obtain rs1 where r1: "exec host vm (int (here g)) rs h ?k rs1 h1"
      "rs1 ! slot vm ?n = x" "env_in L vm \<rho>1 rs1" "kept L vm (?n + 1) ?n rs rs1" "length rs1 = length rs"
      by (rule run_left [OF c(9) _ b(2) c(4,7) b(3) _ b(5,6) x(1)]) (use b in auto)
    have ok: "reg_ok vm rs1 dest" "reg_ok vm rs1 ?n"
      by (rule reg_okI [of vm m2]; use a b(3,5) c(8) r1(5) in simp)+
    have jmp: "exec host vm ?k rs1 h1 (if jump_cond jump x then ?k + (2 + int (length cr)) + 1 else ?k + 1) rs1 h1"
      unfolding r1(2) [symmetric] by (rule exec_jump_if) (use b j ok in auto)
    show "\<exists>rs'. exec host vm (int (here g)) rs h ?e rs' h' \<and>
        rs' ! slot vm dest = v \<and> env_in L vm \<rho>' rs' \<and> kept L vm ?n dest rs rs'"
    proof (cases "jump_cond jump x")
      case True
      have "exec host vm (?k + (2 + int (length cr)) + 1) rs1 h1 (?k + (2 + int (length cr)) + 1 + 1)
          (rs1[slot vm dest := rs1 ! slot vm ?n]) h1"
        by (rule exec_move [OF _ ok]) (use b(1) in \<open>auto simp: ac_simps\<close>)
      with r1(1) jmp True have "exec host vm (int (here g)) rs h ?e (rs1[slot vm dest := rs1 ! slot vm ?n]) h1"
        by (auto elim!: exec_trans simp: ac_simps)
      then show ?thesis
        using finish_put [OF kept_weaken [OF r1(4)] r1(3) a(2,3,6)] ok x(2) True r1(2)
        by (auto simp: reg_ok_def slot_def)
    next
      case False
      with x(2) have sr: "sr (\<rho>1, h1) = Some (v, \<rho>', h')" by simp
      obtain rs2 where r2: "exec host vm (int (here g + length cl + length ?mid)) rs1 h1
          (int (here g + length cl + length ?mid) + int (length cr)) rs2 h'"
        "rs2 ! slot vm (?n + 1) = v" "env_in L vm \<rho>' rs2" "kept L vm (?n + 2) (?n + 1) rs1 rs2"
        "length rs2 = length rs1" "rs2 ! slot vm ?n = rs1 ! slot vm ?n"
        by (rule run_right [OF c(10) _ b(2,3) _ _ r1(3) sr a(2)]) (use b r1(5) in auto)
      have ok2: "reg_ok vm rs2 dest" "reg_ok vm rs2 (?n + 1)"
        by (rule reg_okI [of vm m2]; use a b(3,5) c(8) r1(5) r2(5) in simp)+
      have mv: "exec host vm (?k + 1 + int (length cr)) rs2 h' (?k + 1 + int (length cr) + 1)
          (rs2[slot vm dest := rs2 ! slot vm (?n + 1)]) h'"
        by (rule exec_move [OF _ ok2]) (use b(1) in \<open>auto simp: ac_simps\<close>)
      have "exec host vm (?k + 1 + int (length cr) + 1) (rs2[slot vm dest := v]) h'
          (?k + 1 + int (length cr) + 1 + 1 + 1) (rs2[slot vm dest := v]) h'"
        by (rule exec_jump) (use b(1) in \<open>auto simp: ac_simps\<close>)
      with r1(1) jmp False r2(1,2) mv have "exec host vm (int (here g)) rs h ?e (rs2[slot vm dest := v]) h'"
        by (auto elim!: exec_trans simp: ac_simps)
      then show ?thesis
        using finish_put [OF kept_two [OF r1(4) r2(4)] r2(3) a(2,3,6)] ok2 by (auto simp: reg_ok_def slot_def)
    qed
  qed
  ultimately show "\<exists>code p m. ?c s dest g = Some (grow g code p m) \<and>
      prefix (const_pool g) p \<and> max_reg g \<le> m \<and> computes host L ?n dest m (here g) code p ?sm"
    using c(3,4,5,7) by (intro exI [of _ ?code] exI [of _ p2] exI [of _ m2]) auto
qed

text \<open>\<open>??\<close>: the left value is in the destination before the test.\<close>

lemma implements_nullish:
  assumes l: "implements host L left sl" and r: "implements host L right sr"
  shows "implements host L (compile_nullish left right)
    (\<lambda>st. do { (x, st) \<leftarrow> sl st; if jump_cond OP_JUMP_IF_NULLISH x then sr st else Some (x, st) })"
    (is "implements host L ?c ?sm")
proof (rule implementsI)
  fix s dest and g :: Emitter
  let ?n = "next_reg g"
  assume a: "local_of (scopes_of g) s = L" "regs_ok L ?n" "0 \<le> dest" "dest < ?n" "?n \<le> max_reg g" "dest \<notin> ran L"
  let ?mid = "[abc OP_MOVE dest ?n 0, asbx OP_JUMP_IF_NULLISH ?n 1, asbx OP_JUMP 0 0]"
  obtain cl p1 m1 cr p2 m2 where c:
    "left s ?n (snd (alloc_register g)) = Some (grow (snd (alloc_register g)) cl p1 m1)"
    "right s (?n + 1) (snd (alloc_register (grow (snd (alloc_register g)) (cl @ ?mid) p1 m1))) =
       Some (grow (snd (alloc_register (grow (snd (alloc_register g)) (cl @ ?mid) p1 m1))) cr p2 m2)"
    "prefix (const_pool g) p1" "prefix p1 p2" "max_reg g \<le> m1" "?n + 1 \<le> m1" "m1 \<le> m2" "?n + 2 \<le> m2"
    "computes host L (?n + 1) ?n m1 (here g) cl p1 sl"
    "computes host L (?n + 2) (?n + 1) m2 (here g + length cl + length ?mid) cr p2 sr"
    by (rule two_operands [OF l r a(1,2,5)])
  let ?code = "cl @ [abc OP_MOVE dest ?n 0, asbx OP_JUMP_IF_NULLISH ?n 1, asbx OP_JUMP 0 (1 + int (length cr))] @ cr @
    [abc OP_MOVE dest (?n + 1) 0]"
  have "?c s dest g = Some (grow g ?code p2 m2)"
    using c(1,2) by (simp add: compile_nullish_def em_forms list_update_append)
  moreover have "computes host L ?n dest m2 (here g) ?code p2 ?sm"
  proof (rule computesI)
    fix vm rs h \<rho> v \<rho>' h'
    assume b: "placed vm (here g) ?code" "pool_in vm p2" "m2 \<le> 256" "length ?code < 32768"
      "base_of vm + nat m2 \<le> length rs" "env_in L vm \<rho> rs" "?sm (\<rho>, h) = Some (v, \<rho>', h')"
    let ?k = "int (here g) + int (length cl)" and ?e = "int (here g) + int (length ?code)"
    from b(7) obtain x \<rho>1 h1 where x: "sl (\<rho>, h) = Some (x, \<rho>1, h1)"
      "(if jump_cond OP_JUMP_IF_NULLISH x then sr (\<rho>1, h1) else Some (x, \<rho>1, h1)) = Some (v, \<rho>', h')"
      by (auto split: bind_splits)
    obtain rs0 where r0: "exec host vm (int (here g)) rs h ?k rs0 h1"
      "rs0 ! slot vm ?n = x" "env_in L vm \<rho>1 rs0" "kept L vm (?n + 1) ?n rs rs0" "length rs0 = length rs"
      by (rule run_left [OF c(9) _ b(2) c(4,7) b(3) _ b(5,6) x(1)]) (use b in auto)
    let ?rs1 = "rs0[slot vm dest := x]"
    have ok: "reg_ok vm rs0 dest" "reg_ok vm rs0 ?n" "reg_ok vm ?rs1 ?n"
      by (rule reg_okI [of vm m2]; use a b(3,5) c(8) r0(5) in simp)+
    have r1: "?rs1 ! slot vm dest = x" "env_in L vm \<rho>1 ?rs1" "kept L vm ?n dest rs ?rs1"
      using finish_put [OF kept_weaken [OF r0(4)] r0(3) a(2,3,6)] ok by (auto simp: reg_ok_def slot_def)
    have n: "?rs1 ! slot vm ?n = x" using a r0(2) by (simp add: nth_list_update)
    have mv: "exec host vm ?k rs0 h1 (?k + 1) ?rs1 h1"
      unfolding r0(2) [symmetric] by (rule exec_move [OF _ ok(1,2)]) (use b(1) in auto)
    have jmp: "exec host vm (?k + 1) ?rs1 h1 (if jump_cond OP_JUMP_IF_NULLISH (?rs1 ! slot vm ?n) then ?k + 1 + 1 + 1 else ?k + 1 + 1) ?rs1 h1"
      by (rule exec_jump_if [OF _ _ _ _ ok(3)]) (use b in \<open>auto simp: ac_simps\<close>)
    show "\<exists>rs'. exec host vm (int (here g)) rs h ?e rs' h' \<and>
        rs' ! slot vm dest = v \<and> env_in L vm \<rho>' rs' \<and> kept L vm ?n dest rs rs'"
    proof (cases "jump_cond OP_JUMP_IF_NULLISH x")
      case False
      have "exec host vm (?k + 1 + 1) ?rs1 h1 (?k + 1 + 1 + (1 + int (length cr)) + 1) ?rs1 h1"
        by (rule exec_jump) (use b in \<open>auto simp: ac_simps\<close>)
      with r0(1) mv jmp n False have "exec host vm (int (here g)) rs h ?e ?rs1 h1"
        by (auto elim!: exec_trans simp: ac_simps)
      then show ?thesis using r1 x(2) False by auto
    next
      case True
      with x(2) have sr: "sr (\<rho>1, h1) = Some (v, \<rho>', h')" by simp
      obtain rs2 where r2: "exec host vm (int (here g + length cl + length ?mid)) ?rs1 h1
          (int (here g + length cl + length ?mid) + int (length cr)) rs2 h'"
        "rs2 ! slot vm (?n + 1) = v" "env_in L vm \<rho>' rs2" "kept L vm (?n + 2) (?n + 1) ?rs1 rs2"
        "length rs2 = length ?rs1"
        by (rule run_right [OF c(10) _ b(2,3) _ _ r1(2) sr a(2)]) (use b r0(5) in auto)
      have ok2: "reg_ok vm rs2 dest" "reg_ok vm rs2 (?n + 1)"
        by (rule reg_okI [of vm m2]; use a b(3,5) c(8) r0(5) r2(5) in simp)+
      have "exec host vm (?k + 3 + int (length cr)) rs2 h' (?k + 3 + int (length cr) + 1)
          (rs2[slot vm dest := rs2 ! slot vm (?n + 1)]) h'"
        by (rule exec_move [OF _ ok2]) (use b(1) in \<open>auto simp: ac_simps\<close>)
      with r0(1) mv jmp n True r2(1,2) have "exec host vm (int (here g)) rs h ?e (rs2[slot vm dest := v]) h'"
        by (auto elim!: exec_trans simp: ac_simps)
      moreover have "kept L vm ?n dest rs rs2"
        using r1(3) kept_weaken [OF r2(4), of ?n dest] by (auto intro: kept_trans)
      ultimately show ?thesis
        using finish_put [OF _ r2(3) a(2,3,6)] ok2 by (auto simp: reg_ok_def slot_def)
    qed
  qed
  ultimately show "\<exists>code p m. ?c s dest g = Some (grow g code p m) \<and>
      prefix (const_pool g) p \<and> max_reg g \<le> m \<and> computes host L ?n dest m (here g) code p ?sm"
    using c(3,4,5,7) by (intro exI [of _ ?code] exI [of _ p2] exI [of _ m2]) auto
qed

text \<open>The conditional: both branches are compiled for the destination.\<close>

lemma implements_ternary:
  assumes c: "implements host L cc sc" and t: "implements host L ct st" and e: "implements host L ce se"
  shows "implements host L (compile_ternary cc ct ce) (sem_ternary sc st se)"
proof (rule implementsI)
  fix s dest and g :: Emitter
  let ?n = "next_reg g"
  assume a: "local_of (scopes_of g) s = L" "regs_ok L ?n" "0 \<le> dest" "dest < ?n" "?n \<le> max_reg g" "dest \<notin> ran L"
  obtain k1 p1 m1 where 1: "cc s ?n (snd (alloc_register g)) = Some (grow (snd (alloc_register g)) k1 p1 m1)"
    "prefix (const_pool g) p1" "max (max_reg g) (?n + 1) \<le> m1" "computes host L (?n + 1) ?n m1 (here g) k1 p1 sc"
    by (rule operand [OF c a(1,2,5)])
  let ?g1 = "em g ?n (k1 @ [asbx OP_JUMP_IF_FALSE ?n 0]) p1 m1"
  obtain k2 p2 m2 where 2: "ct s dest ?g1 = Some (grow ?g1 k2 p2 m2)"
    "prefix p1 p2" "m1 \<le> m2" "computes host L ?n dest m2 (here g + length k1 + 1) k2 p2 st"
    by (rule into_dest [OF t, of ?g1 s dest]) (use a 1(3) in \<open>auto simp: ac_simps\<close>)
  let ?g2 = "em g ?n (k1 @ [asbx OP_JUMP_IF_FALSE ?n (1 + int (length k2))] @ k2 @ [asbx OP_JUMP 0 0]) p2 m2"
  obtain k3 p3 m3 where 3: "ce s dest ?g2 = Some (grow ?g2 k3 p3 m3)"
    "prefix p2 p3" "m2 \<le> m3" "computes host L ?n dest m3 (here g + length k1 + length k2 + 2) k3 p3 se"
    by (rule into_dest [OF e, of ?g2 s dest]) (use a 1(3) 2(3) in \<open>auto simp: ac_simps\<close>)
  let ?code = "k1 @ [asbx OP_JUMP_IF_FALSE ?n (1 + int (length k2))] @ k2 @ [asbx OP_JUMP 0 (int (length k3))] @ k3"
  have "compile_ternary cc ct ce s dest g = Some (grow g ?code p3 m3)"
    using 1(1) 2(1) 3(1) by (simp add: compile_ternary_def em_forms list_update_append)
  moreover have "computes host L ?n dest m3 (here g) ?code p3 (sem_ternary sc st se)"
  proof (rule computesI)
    fix vm rs h \<rho> v \<rho>' h'
    assume b: "placed vm (here g) ?code" "pool_in vm p3" "m3 \<le> 256" "length ?code < 32768"
      "base_of vm + nat m3 \<le> length rs" "env_in L vm \<rho> rs" "sem_ternary sc st se (\<rho>, h) = Some (v, \<rho>', h')"
    let ?k = "int (here g) + int (length k1)" and ?e = "int (here g) + int (length ?code)"
    from b(7) obtain x \<rho>1 h1 where x: "sc (\<rho>, h) = Some (x, \<rho>1, h1)"
      "(if is_truthy x then st (\<rho>1, h1) else se (\<rho>1, h1)) = Some (v, \<rho>', h')"
      by (auto simp: sem_ternary_def split: bind_splits)
    have pool: "pool_in vm p2" "prefix p1 p3" using b(2) 2(2) 3(2) by (auto intro: pool_in_prefix)
    obtain rs1 where r1: "exec host vm (int (here g)) rs h ?k rs1 h1"
      "rs1 ! slot vm ?n = x" "env_in L vm \<rho>1 rs1" "kept L vm (?n + 1) ?n rs rs1" "length rs1 = length rs"
      by (rule run_left [OF 1(4) _ b(2) pool(2) _ b(3) _ b(5,6) x(1)]) (use b 2(3) 3(3) in auto)
    have k: "kept L vm ?n dest rs rs1" by (rule kept_weaken [OF r1(4)]) auto
    have "reg_ok vm rs1 ?n" by (rule reg_okI [of vm m3]) (use a b(3,5) 1(3) 2(3) 3(3) r1(5) in auto)
    then have jmp: "exec host vm ?k rs1 h1
        (if jump_cond OP_JUMP_IF_FALSE (rs1 ! slot vm ?n) then ?k + (1 + int (length k2)) + 1 else ?k + 1) rs1 h1"
      by (intro exec_jump_if) (use b in auto)
    show "\<exists>rs'. exec host vm (int (here g)) rs h ?e rs' h' \<and>
        rs' ! slot vm dest = v \<and> env_in L vm \<rho>' rs' \<and> kept L vm ?n dest rs rs'"
    proof (cases "is_truthy x")
      case True
      with x(2) have sv: "st (\<rho>1, h1) = Some (v, \<rho>', h')" by simp
      obtain rs2 where r2: "exec host vm (int (here g + length k1 + 1)) rs1 h1
          (int (here g + length k1 + 1) + int (length k2)) rs2 h'"
        "rs2 ! slot vm dest = v" "env_in L vm \<rho>' rs2" "kept L vm ?n dest rs1 rs2"
        by (rule computesD [OF 2(4) _ pool(1) _ _ _ r1(3) sv]) (use b r1(5) 3(3) in auto)
      have "exec host vm (?k + 1 + int (length k2)) rs2 h' (?k + 1 + int (length k2) + int (length k3) + 1) rs2 h'"
        by (rule exec_jump) (use b in \<open>auto simp: ac_simps\<close>)
      with r1(1,2) jmp True r2(1) have "exec host vm (int (here g)) rs h ?e rs2 h'"
        by (auto elim!: exec_trans simp: ac_simps jump_cond_def)
      with r2 kept_trans [OF k r2(4)] show ?thesis by blast
    next
      case False
      with x(2) have sv: "se (\<rho>1, h1) = Some (v, \<rho>', h')" by simp
      obtain rs2 where r2: "exec host vm (int (here g + length k1 + length k2 + 2)) rs1 h1
          (int (here g + length k1 + length k2 + 2) + int (length k3)) rs2 h'"
        "rs2 ! slot vm dest = v" "env_in L vm \<rho>' rs2" "kept L vm ?n dest rs1 rs2"
        by (rule computesD [OF 3(4) _ b(2,3) _ _ r1(3) sv]) (use b r1(5) in auto)
      with r1(1,2) jmp False have "exec host vm (int (here g)) rs h ?e rs2 h'"
        by (auto elim!: exec_trans simp: ac_simps jump_cond_def)
      with r2 kept_trans [OF k r2(4)] show ?thesis by blast
    qed
  qed
  ultimately show "\<exists>code p m. compile_ternary cc ct ce s dest g = Some (grow g code p m) \<and>
      prefix (const_pool g) p \<and> max_reg g \<le> m \<and> computes host L ?n dest m (here g) code p (sem_ternary sc st se)"
    using 1(2,3) 2(2,3) 3(2,3) by (intro exI [of _ ?code] exI [of _ p3] exI [of _ m3]) auto
qed

text \<open>Assignment to a local.\<close>

lemma implements_assign:
  assumes x: "L x = Some r" and v: "implements host L cv sm"
  shows "implements host L (compile_assign (AST_IDENTIFIER x) tc cv None) (sem_assign (AST_IDENTIFIER x) sm None)"
    (is "implements host L ?c ?sm")
proof (rule implementsI)
  fix s dest and g :: Emitter
  let ?n = "next_reg g"
  assume a: "local_of (scopes_of g) s = L" "regs_ok L ?n" "0 \<le> dest" "dest < ?n" "?n \<le> max_reg g" "dest \<notin> ran L"
  obtain cv' p m where c: "cv s ?n (snd (alloc_register g)) = Some (grow (snd (alloc_register g)) cv' p m)"
    "prefix (const_pool g) p" "max (max_reg g) (?n + 1) \<le> m" "computes host L (?n + 1) ?n m (here g) cv' p sm"
    by (rule operand [OF v a(1,2,5)])
  have r: "0 \<le> r" "r < ?n" "r \<in> ran L" using regs_okD [OF a(2) x] x by (auto simp: ran_def)
  let ?code = "cv' @ [abc OP_MOVE r ?n 0, abc OP_MOVE dest ?n 0]"
  have "?c s dest g = Some (grow g ?code p m)"
    using c(1) a(1) x by (simp add: compile_assign_def compile_arith_assign_def em_forms store_local)
  moreover have "computes host L ?n dest m (here g) ?code p ?sm"
  proof (rule computesI)
    fix vm rs h \<rho> w \<rho>' h'
    assume b: "placed vm (here g) ?code" "pool_in vm p" "m \<le> 256" "length ?code < 32768"
      "base_of vm + nat m \<le> length rs" "env_in L vm \<rho> rs" "?sm (\<rho>, h) = Some (w, \<rho>', h')"
    let ?k = "int (here g) + int (length cv')"
    from b(7) obtain \<rho>1 where s: "sm (\<rho>, h) = Some (w, \<rho>1, h')" "\<rho>' = \<rho>1(x := w)"
      by (auto simp: sem_assign_def split: bind_splits)
    obtain rs1 where r1: "exec host vm (int (here g)) rs h ?k rs1 h'"
      "rs1 ! slot vm ?n = w" "env_in L vm \<rho>1 rs1" "kept L vm (?n + 1) ?n rs rs1" "length rs1 = length rs"
      by (rule run_left [OF c(4) _ b(2) prefix_order.refl order.refl b(3) _ b(5,6) s(1)]) (use b in auto)
    let ?rs2 = "rs1[slot vm r := w]"
    have ok: "reg_ok vm rs1 r" "reg_ok vm rs1 ?n" "reg_ok vm ?rs2 dest" "reg_ok vm ?rs2 ?n"
      by (rule reg_okI [of vm m]; use a b(3,5) c(3) r r1(5) in simp)+
    have n: "?rs2 ! slot vm ?n = w" using r1(2) r by (simp add: nth_list_update)
    have "exec host vm ?k rs1 h' (?k + 1) (rs1[slot vm r := rs1 ! slot vm ?n]) h'"
      by (rule exec_move [OF _ ok(1,2)]) (use b(1) in auto)
    moreover have "exec host vm (?k + 1) ?rs2 h' (?k + 1 + 1) (?rs2[slot vm dest := ?rs2 ! slot vm ?n]) h'"
      by (rule exec_move [OF _ ok(3,4)]) (use b(1) in \<open>auto simp: ac_simps\<close>)
    ultimately have "exec host vm (int (here g)) rs h (int (here g) + int (length ?code)) (?rs2[slot vm dest := w]) h'"
      using r1(1,2) n by (auto elim!: exec_trans simp: ac_simps)
    moreover have "env_in L vm \<rho>' ?rs2" unfolding s(2)
      by (rule env_in_assign [OF r1(3) x a(2)]) (use ok(1) in \<open>simp add: reg_ok_def slot_def\<close>)
    moreover have "kept L vm ?n dest rs ?rs2"
      using kept_weaken [OF r1(4), of ?n dest] kept_put [of r ?n dest L vm rs1 w] r by (auto intro: kept_trans)
    ultimately show "\<exists>rs'. exec host vm (int (here g)) rs h (int (here g) + int (length ?code)) rs' h' \<and>
        rs' ! slot vm dest = w \<and> env_in L vm \<rho>' rs' \<and> kept L vm ?n dest rs rs'"
      using finish_put [of L vm ?n dest rs ?rs2 \<rho>' w] a(2,3,6) ok(3) by (auto simp: reg_ok_def slot_def)
  qed
  ultimately show "\<exists>code p m. ?c s dest g = Some (grow g code p m) \<and>
      prefix (const_pool g) p \<and> max_reg g \<le> m \<and> computes host L ?n dest m (here g) code p ?sm"
    using c(2,3) by (intro exI [of _ ?code] exI [of _ p] exI [of _ m]) auto
qed

section \<open>Expressions\<close>

lemma sem_binary_cases:
  "sem_binary host (Punct TOK_OR) l r =
     (\<lambda>st. do { (x, st) \<leftarrow> l st; if jump_cond OP_JUMP_IF_TRUE x then Some (x, st) else r st })"
  "sem_binary host (Punct TOK_AND) l r =
     (\<lambda>st. do { (x, st) \<leftarrow> l st; if jump_cond OP_JUMP_IF_FALSE x then Some (x, st) else r st })"
  "sem_binary host (Punct TOK_NULLISH) l r =
     (\<lambda>st. do { (x, st) \<leftarrow> l st; if jump_cond OP_JUMP_IF_NULLISH x then r st else Some (x, st) })"
  "op \<in> set plain_ops \<Longrightarrow> sem_binary host op l r =
     (\<lambda>st. do { (x, st) \<leftarrow> l st; (y, \<rho>, h) \<leftarrow> r st; (v, h) \<leftarrow> binary_value host op x y h; Some (v, \<rho>, h) })"
  by (auto simp: fun_eq_iff sem_binary_def jump_cond_def plain_ops_def intro!: Option.bind_cong)

lemma compile_binary_plain:
  "op \<in> set plain_ops \<Longrightarrow> compile_binary op l r = compile_plain_binary (binary_opcode op) l r"
  by (auto simp: plain_ops_def compile_binary_def)

lemma implements_binary:
  assumes "implements host L l sl" "implements host L r sr" "op \<in> {Punct TOK_OR, Punct TOK_AND, Punct TOK_NULLISH}"
  shows "implements host L (compile_binary op l r) (sem_binary host op sl sr)"
  using assms implements_logical [OF _ assms(1,2)] implements_nullish [OF assms(1,2)]
  by (auto simp: sem_binary_cases compile_binary_def)

theorem simple_implements:
  assumes "simple L e"
  shows "implements host L (compile_node e) (eval e host)"
  using assms
proof (induction rule: simple.induct)
  case (simple_identifier x r)
  then show ?case using implements_identifier [of L x r host] by (simp add: compile_node_def plain_def)
next
  case (simple_unary op e)
  then show ?case using implements_unary [of op host L "compile e"] by (simp add: compile_node_def plain_def)
next
  case (simple_plain op l r)
  then show ?case
    using implements_plain_binary [of op host L "run (compile l)" "eval l host" "run (compile r)" "eval r host"]
    by (simp add: compile_node_def plain_def sem_binary_cases compile_binary_plain)
next
  case (simple_logical op l r)
  then show ?case by (simp add: compile_node_def plain_def implements_binary)
next
  case (simple_ternary c t e)
  then show ?case by (simp add: compile_node_def plain_def implements_ternary)
next
  case (simple_assign x r e)
  then show ?case using implements_assign [of L x r host] by (simp add: compile_node_def plain_def)
qed (use implements_number implements_bool implements_null implements_load_undefined in
  \<open>simp_all add: compile_node_def plain_def\<close>)

text \<open>The code of an emitter is part of the program that the VM runs.\<close>

definition loaded :: "Emitter \<Rightarrow> VM \<Rightarrow> bool" where
  "loaded g vm =
     (case programs vm (current_prog vm) of
        Some p \<Rightarrow> take (here g) (p_bytecode p) = bytecode g \<and> take (length (const_pool g)) (p_const_pool p) = const_pool g
      | None \<Rightarrow> False)"

lemma take_eqD: "take (length xs) ys = xs \<Longrightarrow> i < length xs \<Longrightarrow> i < length ys \<and> ys ! i = xs ! i"
  by (metis length_take min_less_iff_conj nth_take)

lemma loaded_placed:
  assumes "loaded (grow g code p m) vm"
  shows "placed vm (here g) code"
  unfolding placed_def
proof (intro allI impI)
  fix i assume i: "i < length code"
  from assms obtain pr where pr: "programs vm (current_prog vm) = Some pr"
    "take (length (bytecode g @ code)) (p_bytecode pr) = bytecode g @ code"
    by (auto simp: loaded_def here_def split: option.splits)
  have "here g + i < length (p_bytecode pr) \<and> p_bytecode pr ! (here g + i) = code ! i"
    using take_eqD [OF pr(2), of "here g + i"] i by (simp add: here_def nth_append)
  then show "code_at (int (here g) + int i) vm = Some (code ! i)"
    by (simp add: code_at_def pr(1) nat_add_distrib)
qed

lemma loaded_pool:
  assumes "loaded g vm" "length (const_pool g) \<le> 65536"
  shows "pool_in vm (const_pool g)"
proof -
  from assms(1) obtain pr where pr: "programs vm (current_prog vm) = Some pr"
    "take (length (const_pool g)) (p_const_pool pr) = const_pool g"
    by (auto simp: loaded_def split: option.splits)
  have "const_at i vm = Some (const_pool g ! i)" if "i < length (const_pool g)" for i
    using take_eqD [OF pr(2) that] by (simp add: const_at_def pr(1))
  with assms(2) show ?thesis by (simp add: pool_in_def)
qed

lemma upd_same [simp]: "upd vm (registers vm) (vheap vm) = vm"
  by (simp add: upd_def)

lemma compile_simple:
  assumes "simple L e" "local_of (scopes_of g) s = L" "regs_ok L (next_reg g)" "0 \<le> dest" "dest < next_reg g"
    "next_reg g \<le> max_reg g" "dest \<notin> ran L"
  obtains code p m where "compile_node e s dest g = Some (grow g code p m)" "prefix (const_pool g) p" "max_reg g \<le> m"
    "computes host L (next_reg g) dest m (here g) code p (eval e host)"
  using simple_implements [OF assms(1), of host] assms(2-) that unfolding implements_def by blast

section \<open>A concrete expression\<close>

text \<open>\<open>x = !y ? null : y + y\<close> in a function whose locals \<open>x\<close> and \<open>y\<close> have the registers 0 and 1.\<close>

definition demo_scopes :: scopes where
  "demo_scopes =
     [\<lparr>symbols = [\<lparr>sym_name = ''x'', reg = 0, env_index = -1, is_captured = False\<rparr>,
                  \<lparr>sym_name = ''y'', reg = 1, env_index = -1, is_captured = False\<rparr>],
       parent = None, is_function_scope = True, num_captured_vars = 0\<rparr>]"

definition demo_emitter :: Emitter where
  "demo_emitter =
     \<lparr>const_pool = [], bytecode = [], funcs = [], mem = demo_heap, scopes_of = demo_scopes, next_reg = 3, max_reg = 3,
      break_targets = [], continue_targets = []\<rparr>"

definition demo_locals :: locals where
  "demo_locals = [''x'' \<mapsto> 0, ''y'' \<mapsto> 1]"

definition demo_expr :: ast where
  "demo_expr = AST_ASSIGN (AST_IDENTIFIER ''x'')
     (AST_TERNARY (AST_UNARY (Punct TOK_NOT) (AST_IDENTIFIER ''y'')) AST_LITERAL_NULL
        (AST_BINARY (Punct TOK_PLUS) (AST_IDENTIFIER ''y'') (AST_IDENTIFIER ''y''))) None"

lemma demo_locals: "local_of demo_scopes (Some 0) = demo_locals"
  by (simp add: fun_eq_iff local_of_def lookup_symbol_codegen_def demo_scopes_def get_symbol_def demo_locals_def
      lookup_symbol.simps up_def)

lemma demo_simple: "simple demo_locals demo_expr"
  by (simp add: demo_expr_def demo_locals_def plain_ops_def simple.intros)

lemma demo_regs: "regs_ok demo_locals 3"
  by (auto simp: regs_ok_def demo_locals_def inj_on_def)

lemma demo_ran: "2 \<notin> ran demo_locals"
 by (auto simp: demo_locals_def ran_def split: if_splits)

lemma demo_emitter_simps [simp]:
  "next_reg demo_emitter = 3" "max_reg demo_emitter = 3" "scopes_of demo_emitter = demo_scopes"
  "const_pool demo_emitter = []" "here demo_emitter = 0" "bytecode demo_emitter = []"
  by (simp_all add: demo_emitter_def here_def)

definition demo_bytecode :: "u32 list" where
  "demo_bytecode =
     [abc OP_MOVE 5 1 0, abc OP_NOT 4 5 0, asbx OP_JUMP_IF_FALSE 4 2, abc OP_LOAD_NULL 3 0 0, asbx OP_JUMP 0 3,
      abc OP_MOVE 4 1 0, abc OP_MOVE 5 1 0, abc OP_ADD 3 4 5, abc OP_MOVE 0 3 0, abc OP_MOVE 2 3 0]"

lemma demo_code: "compile_node demo_expr (Some 0) 2 demo_emitter = Some (grow demo_emitter demo_bytecode [] 6)"
  by (simp add: demo_expr_def compile_node_def plain_def compile_assign_def compile_arith_assign_def compile_ternary_def
      compile_unary_def compile_binary_def compile_plain_binary_def binary_opcode_def unary_opcode_def em_forms
      list_update_append compile_local store_local demo_locals demo_locals_def demo_bytecode_def)

lemma demo_values: "do_not (make_integer 21) = Some (make_boolean False)" "\<not> is_truthy (make_boolean False)"
  "IS_INTEGER (make_integer 21)"
  "add_values (text_depth demo_host) (make_integer 21) (make_integer 21) h = Some (make_integer 42, h)"
  by (code_simp, code_simp, code_simp) (simp add: add_values_def, code_simp)

definition demo_env :: "string \<Rightarrow> Value" where "demo_env = (\<lambda>_. VAL_UNDEFINED)(''y'' := make_integer 21)"

lemma demo_eval:
  "eval demo_expr demo_host (demo_env, demo_heap) = Some (make_integer 42, demo_env(''x'' := make_integer 42), demo_heap)"
  by (simp add: demo_expr_def sem_assign_def sem_ternary_def sem_unary_def sem_binary_def binary_value_def demo_env_def
      demo_values)

definition demo_start :: VM where
  "demo_start = demo_vm (demo_program demo_bytecode []) demo_heap [VAL_UNDEFINED, make_integer 21]"

lemma demo_loaded: "loaded (grow demo_emitter demo_bytecode [] 6) demo_start"
  by (simp add: loaded_def demo_start_def demo_vm_def demo_program_def)

lemma demo_start [simp]:
  "base_of demo_start = 0" "length (registers demo_start) = 16" "vheap demo_start = demo_heap"
  by (simp_all add: base_of_def top_frame_def demo_start_def demo_vm_def demo_frame_def)

lemma demo_env_in: "env_in demo_locals demo_start demo_env (registers demo_start)"
  by (simp add: env_in_def demo_locals_def demo_env_def slot_def) (simp add: demo_start_def demo_vm_def)

section \<open>The compiler is correct on expressions\<close>

text \<open>
  C33: compiling an expression over local variables succeeds and is balanced: every temporary
  register it takes it gives back, so \<open>next_reg\<close> is what it was and \<open>max_reg\<close> only grows; the code and the
  constants emitted before stay as they are, and scopes, functions, heap and jump lists are unchanged.
\<close>

theorem expression_compiles:
  assumes "simple L e" "local_of (scopes_of g) s = L" "regs_ok L (next_reg g)" "0 \<le> dest" "dest < next_reg g"
    "next_reg g \<le> max_reg g" "dest \<notin> ran L"
  shows "\<exists>code consts m. compile_node e s dest g =
      Some (g\<lparr>bytecode := bytecode g @ code, const_pool := const_pool g @ consts, max_reg := m\<rparr>) \<and> max_reg g \<le> m"
proof -
  obtain code p m where "compile_node e s dest g = Some (grow g code p m)" "prefix (const_pool g) p" "max_reg g \<le> m"
    by (rule compile_simple [OF assms])
  then show ?thesis by (auto simp: grow_def prefix_def)
qed

theorem expression_compiles_witness:
  "\<exists>code consts m. compile_node demo_expr (Some 0) 2 demo_emitter =
     Some (demo_emitter\<lparr>bytecode := bytecode demo_emitter @ code, const_pool := const_pool demo_emitter @ consts,
       max_reg := m\<rparr>) \<and>
     max_reg demo_emitter \<le> m"
  by (rule expression_compiles [OF demo_simple _ _ _ _ _ demo_ran]) (simp_all add: demo_locals demo_regs)

text \<open>
  C1: the interpreter, run on the code that \<open>compile_node\<close> emits for an expression
  over local variables, reaches the end of that code with the value of the expression in the destination
  register, with the locals and the heap as the expression leaves them, and with every other register
  below \<open>next_reg\<close> and every register of the callers unchanged. It needs a frame of at most 256 registers, a constant
  pool of at most 65536 constants and jumps of less than 32768 instructions, the limits of the
  instruction format.
\<close>

theorem compile_expression_correct:
  assumes "simple L e" "local_of (scopes_of g) s = L" "regs_ok L (next_reg g)" "0 \<le> dest" "dest < next_reg g"
    "next_reg g \<le> max_reg g" "dest \<notin> ran L"
    and "compile_node e s dest g = Some g'" "loaded g' vm"
    and "max_reg g' \<le> 256" "length (const_pool g') \<le> 65536" "here g' - here g < 32768"
    and "base_of vm + nat (max_reg g') \<le> length (registers vm)"
    and "env_in L vm \<rho> (registers vm)" "eval e host (\<rho>, vheap vm) = Some (v, \<rho>', h')"
  shows "\<exists>rs k. (\<forall>n acts stop. vm_loop host (k + n) acts stop (int (here g)) vm =
                vm_loop host n acts stop (int (here g')) (vm\<lparr>registers := rs, vheap := h'\<rparr>)) \<and>
      rs ! slot vm dest = v \<and> env_in L vm \<rho>' rs \<and> kept L vm (next_reg g) dest (registers vm) rs"
proof -
  obtain code p m where c: "compile_node e s dest g = Some (grow g code p m)"
    "computes host L (next_reg g) dest m (here g) code p (eval e host)"
    by (rule compile_simple [OF assms(1-7)])
  then have g': "g' = grow g code p m" using assms(8) by simp
  note b = assms(9-) [unfolded g']
  obtain rs where rs: "exec host vm (int (here g)) (registers vm) (vheap vm) (int (here g) + int (length code)) rs h'"
    "rs ! slot vm dest = v" "env_in L vm \<rho>' rs" "kept L vm (next_reg g) dest (registers vm) rs"
    by (rule computesD [OF c(2) loaded_placed [OF b(1)] _ _ _ _ b(6,7)]) (use b loaded_pool [OF b(1)] in auto)
  from reaches_loop [OF rs(1) [unfolded exec_def]] obtain k where
    "\<forall>n acts stop. vm_loop host (k + n) acts stop (int (here g)) vm =
       vm_loop host n acts stop (int (here g')) (vm\<lparr>registers := rs, vheap := h'\<rparr>)"
    by (auto simp: g' upd_def)
  with rs(2-4) show ?thesis by blast
qed

theorem compile_expression_correct_witness:
  "\<exists>rs k. (\<forall>n acts stop.
       vm_loop demo_host (k + n) acts stop 0 demo_start =
       vm_loop demo_host n acts stop 10
         (demo_start\<lparr>registers := rs, vheap := demo_heap\<rparr>)) \<and>
     rs ! 2 = make_integer 42 \<and> rs ! 0 = make_integer 42 \<and> rs ! 1 = make_integer 21"
proof -
  obtain rs k where r: "\<forall>n acts stop. vm_loop demo_host (k + n) acts stop (int (here demo_emitter)) demo_start =
      vm_loop demo_host n acts stop (int (here (grow demo_emitter demo_bytecode [] 6))) (demo_start\<lparr>registers := rs, vheap := demo_heap\<rparr>)"
    "rs ! slot demo_start 2 = make_integer 42" "env_in demo_locals demo_start (demo_env(''x'' := make_integer 42)) rs"
    using compile_expression_correct [OF demo_simple _ _ _ _ _ demo_ran demo_code demo_loaded _ _ _ _ demo_env_in, of demo_host]
    by (auto simp: demo_locals demo_regs demo_eval demo_bytecode_def)
  have "rs ! slot demo_start 0 = make_integer 42 \<and> rs ! slot demo_start 1 = make_integer 21"
    using env_inD [OF r(3), of "''x''" 0] env_inD [OF r(3), of "''y''" 1] by (simp add: demo_locals_def demo_env_def)
  with r(1,2) show ?thesis
    by (intro exI [of _ rs] exI [of _ k]) (simp add: slot_def demo_bytecode_def numeral_2_eq_2)
qed

end
