(* ===== verification/Interpreter_Laws.thy ===== *)
theory Interpreter_Laws
  imports Demo_Machine
begin

text \<open>
  Laws of the bytecode interpreter: the inline cache of property accesses against the general access, the
  protocol of calls and returns, and the way of an exception to its handler.
\<close>

section \<open>The inline cache\<close>

lemma props_ok_distinct: "props_ok h ps \<Longrightarrow> distinct (map fst ps)"
proof -
  assume "props_ok h ps"
  then have "distinct (map (\<lambda>k. the (str_of h k)) (map fst ps))"
    by (simp add: props_ok_def case_prod_unfold comp_def)
  then show ?thesis by (simp only: distinct_map)
qed

lemma key_position_nth:
  "i < length ps \<Longrightarrow> fst (ps ! i) = key \<Longrightarrow> distinct (map fst ps) \<Longrightarrow> key_position key ps = Some i"
proof (induction ps arbitrary: i)
  case (Cons p ps)
  then show ?case by (cases p; cases i) (auto dest: nth_mem)
qed simp

lemma cachedD: "cached i key ps \<Longrightarrow> unat i < length ps \<and> fst (ps ! unat i) = key"
  by (simp add: cached_def) (metis unat_eq_nat_uint nat_less_iff uint_nonnegative)

lemma map_of_nth_key:
  "i < length ps \<Longrightarrow> fst (ps ! i) = key \<Longrightarrow> distinct (map fst ps) \<Longrightarrow> map_of ps key = Some (snd (ps ! i))"
  by (metis map_of_eq_Some_iff nth_mem prod.collapse)

text \<open>Writing the entry that is there changes nothing.\<close>

lemma ic_update_same: "ic_entry pc vm = Some i \<Longrightarrow> ic_update pc (unat i) vm = vm"
  by (auto simp: ic_entry_def ic_update_def fun_upd_idem split: bind_splits if_splits)

lemma ic_refresh_same:
  assumes "object_at obj vm = Some (OObject ps cap)" "cached i key ps" "distinct (map fst ps)" "ic_entry pc vm = Some i"
  shows "ic_refresh pc obj key vm = vm"
  using assms key_position_nth [of "unat i" ps key] cachedD [OF assms(2)]
  by (simp add: ic_refresh_def ic_update_same)

lemma ic_entry_registers [simp]: "ic_entry pc (vm\<lparr>registers := rs\<rparr>) = ic_entry pc vm"
  "ic_entry pc (vm\<lparr>vheap := h\<rparr>) = ic_entry pc vm"
  by (simp_all add: ic_entry_def top_frame_def)

lemma string_key: "str_of h key = Some s \<Longrightarrow> IS_POINTER key \<and> \<not> IS_INTEGER key"
  by (auto simp: str_of_def deref_def kind_simps split: if_splits)

lemma own_lookup_cached:
  assumes "cached i key ps" "distinct (map fst ps)"
  shows "own_lookup h ps key = Some (Some (snd (ps ! unat i)))"
  using map_of_nth_key [of "unat i" ps key] cachedD [OF assms(1)] assms(2)
  by (simp add: own_lookup_def prop_by_identity_def)

lemma load_cached:
  assumes "object_at obj vm = Some (OObject ps cap)" "props_ok (vheap vm) ps" "str_of (vheap vm) key = Some s"
    and "ic_entry pc vm = Some i" "cached i key ps" "plain_value (vheap vm) (snd (ps ! unat i))"
  shows "general_load a obj key pc vm = put_next a (snd (ps ! unat i)) pc vm"
proof -
  have d: "distinct (map fst ps)" using assms(2) by (rule props_ok_distinct)
  have key: "IS_POINTER key" "\<not> IS_INTEGER key" using string_key [OF assms(3)] by simp_all
  have "vm_get obj key vm = Some (snd (ps ! unat i), vm)"
    using object_get_own [OF assms(1) [unfolded object_at_def] key(1) own_lookup_cached [OF assms(5) d] assms(6)]
    by (simp add: vm_get_def)
  moreover have "ic_refresh pc obj key vm' = vm'" if "reg_set a v vm = Some vm'" for v vm'
  proof -
    from that have vm': "vm' = vm\<lparr>registers := (registers vm)[reg_base (top_frame vm) + a := v]\<rparr>"
      by (auto simp: reg_set_def Let_def split: if_splits)
    show ?thesis unfolding vm'
      by (rule ic_refresh_same) (use assms d in \<open>simp_all add: object_at_def\<close>)
  qed
  ultimately show ?thesis
    using key by (auto simp: general_load_def put_next_def map_conv_bind_option intro!: Option.bind_cong)
qed

lemma props_update_nth:
  assumes "i < length ps" "fst (ps ! i) = key" "props_ok h ps" "str_of h key = Some s"
  shows "props_update h ps key v = Some (ps[i := (key, v)])"
  using assms
proof (induction ps arbitrary: i)
  case (Cons p ps)
  obtain k w where p: "p = (k, w)" by (cases p)
  show ?case
  proof (cases i)
    case 0
    with Cons.prems p show ?thesis by (simp add: same_key_def)
  next
    case (Suc j)
    then have j: "j < length ps" "fst (ps ! j) = key" using Cons.prems by auto
    have "(key, snd (ps ! j)) \<in> set ps" using j by (metis nth_mem prod.collapse)
    then have "the (str_of h k) \<noteq> s"
      using Cons.prems(3,4) p by (force simp: props_ok_def)
    then have "\<not> same_key h k key"
      using Cons.prems(3,4) p by (auto simp: props_ok_def string_keys_def same_key_def)
    moreover have "props_ok h ps" using Cons.prems(3) by (auto simp: props_ok_def string_keys_def)
    ultimately show ?thesis using Cons.IH [OF j] Cons.prems(4) Suc p by simp
  qed
qed simp

lemma store_cached:
  assumes "object_at obj vm = Some (OObject ps cap)" "props_ok (vheap vm) ps" "str_of (vheap vm) key = Some s"
    and "ic_entry pc vm = Some i" "cached i key ps"
  shows "map_option (ic_refresh pc obj key) (vm_set obj key v vm) =
    Some (vm\<lparr>vheap := put_obj obj (OObject (ps[unat i := (key, v)]) cap) (vheap vm)\<rparr>)"
proof -
  let ?ps = "ps[unat i := (key, v)]"
  let ?vm = "vm\<lparr>vheap := put_obj obj (OObject ?ps cap) (vheap vm)\<rparr>"
  have i: "unat i < length ps" "fst (ps ! unat i) = key" using cachedD [OF assms(5)] by simp_all
  have "props_set (vheap vm) ps cap key v = (?ps, cap)"
    using props_update_nth [OF i assms(2,3)] by (simp add: props_set_def)
  then have "vm_set obj key v vm = Some ?vm"
    using object_set_object [OF assms(1) [unfolded object_at_def], of key v] string_key [OF assms(3)]
    by (simp add: vm_set_def)
  moreover have "ic_refresh pc obj key ?vm = ?vm"
  proof (rule ic_refresh_same)
    show "object_at obj ?vm = Some (OObject ?ps cap)"
      using assms(1) by (simp add: object_at_def put_obj_deref) (auto simp: deref_def split: if_splits)
    have "map fst ?ps = map fst ps" using i by (simp add: map_update list_update_same_conv)
    then show "distinct (map fst ?ps)" using props_ok_distinct [OF assms(2)] by simp
  qed (use i assms(4,5) in \<open>simp_all add: cached_def\<close>)
  ultimately show ?thesis by simp
qed

text \<open>A machine whose register 1 holds an object with the property \<open>a\<close>, register 2 the key, and whose first
  instruction has seen that property at position 0.\<close>

definition demo_method :: JSFunction where
  "demo_method =
     \<lparr>prog = 100, bytecode_offset = 7, register_count = 3, param_count = 1, is_async = False, f_env = VAL_NULL,
      f_name = VAL_UNDEFINED, native_ptr = 0, f_props = [], f_capacity = 0, user_data = 0\<rparr>"

definition cache_heap :: "Value \<Rightarrow> heap" where
  "cache_heap v =
     \<lparr>objs = [8 \<mapsto> OObject [(make_pointer 16, v)] 4, 16 \<mapsto> OString ''a'', 24 \<mapsto> OFunction demo_method], brk = 32,
      interned = [make_pointer 16], next_symbol = 1\<rparr>"

definition cache_vm :: "Value \<Rightarrow> VM" where
  "cache_vm v = demo_vm ((demo_program [] [])\<lparr>p_ic_table := [0]\<rparr>) (cache_heap v)
     [make_integer 5, make_pointer 8, make_pointer 16]"

lemma cache_vm_simps [simp]:
  "reg_get 0 (cache_vm v) = Some (make_integer 5)" "reg_get (Suc 0) (cache_vm v) = Some (make_pointer 8)"
  "reg_get 2 (cache_vm v) = Some (make_pointer 16)" "ic_entry 0 (cache_vm v) = Some 0" "vheap (cache_vm v) = cache_heap v"
  by (simp_all add: cache_vm_def demo_vm_def reg_get_def top_frame_def demo_frame_def ic_entry_def demo_program_def
      numeral_2_eq_2)

lemma cache_heap_simps [simp]:
  "deref (cache_heap v) (make_pointer 8) = Some (OObject [(make_pointer 16, v)] 4)"
  "deref (cache_heap v) (make_pointer 24) = Some (OFunction demo_method)"
  "object_at (make_pointer 8) (cache_vm v) = Some (OObject [(make_pointer 16, v)] 4)"
  "str_of (cache_heap v) (make_pointer 16) = Some ''a''"
  "props_ok (cache_heap v) [(make_pointer 16, w)]" "cached 0 (make_pointer 16) [(make_pointer 16, w)]"
  by (simp_all add: object_at_def str_of_def deref_make_pointer cache_heap_def props_ok_def string_keys_def cached_def
      del: get_make)



text \<open>
  cached_method_unbound (error): the inline cache skips \<open>maybe_bind_method\<close>. Reading a method through the
  search gives a function bound to the receiver; the same instruction, when it hits the cache, gives the
  bare function, so that a call of it runs without its receiver as \<open>this\<close>.
\<close>

theorem cached_method_unbound:
  assumes "reg_get b vm = Some obj" "reg_get c vm = Some key"
    and "object_at obj vm = Some (OObject ps cap)" "props_ok (vheap vm) ps" "str_of (vheap vm) key = Some s"
    and "ic_entry pc vm = Some i" "cached i key ps"
    and "deref (vheap vm) (snd (ps ! unat i)) = Some (OFunction f)" "bytecode_offset f \<noteq> NATIVE" "native_ptr f = 0"
    and "heap_ok (vheap vm)" "room (vheap vm) 1"
  shows "do_load_prop a b c pc vm = put_next a (snd (ps ! unat i)) pc vm \<and>
    (\<exists>w h g. vm_get obj key vm = Some (w, vm\<lparr>vheap := h\<rparr>) \<and> w \<noteq> snd (ps ! unat i) \<and> deref h w = Some (OFunction g) \<and>
       native_ptr g = get_pointer (snd (ps ! unat i)) \<and> f_env g = obj)"
proof -
  let ?v = "snd (ps ! unat i)"
  have p: "IS_POINTER obj" using assms(3) by (auto simp: object_at_def deref_def split: if_splits)
  have d: "distinct (map fst ps)" using assms(4) by (rule props_ok_distinct)
  obtain w h where wh: "create_bound_bytecode_function (get_pointer ?v) f obj (vheap vm) = (w, h)" by force
  note al = heap_alloc_laws [OF assms(11,12) wh [unfolded create_bound_bytecode_function_def]]
  have "object_get (builtin_protos vm) obj key (vheap vm) = Some (w, h)"
    using object_get_own_method [OF assms(3) [unfolded object_at_def] _ own_lookup_cached [OF assms(7) d]]
      string_key [OF assms(5)] assms(8-10) wh by (simp add: maybe_bind_method_def)
  then have "vm_get obj key vm = Some (w, vm\<lparr>vheap := h\<rparr>)" by (simp add: vm_get_def)
  moreover have "w \<noteq> ?v" using al(4) assms(8) by auto
  moreover have "do_load_prop a b c pc vm = put_next a ?v pc vm" using assms p by (simp add: do_load_prop_def)
  ultimately show ?thesis using al(1) by fastforce
qed

theorem cached_method_unbound_witness:
  "do_load_prop 3 1 2 0 (cache_vm (make_pointer 24)) = put_next 3 (make_pointer 24) 0 (cache_vm (make_pointer 24)) \<and>
   (\<exists>w h. vm_get (make_pointer 8) (make_pointer 16) (cache_vm (make_pointer 24)) =
       Some (w, (cache_vm (make_pointer 24))\<lparr>vheap := h\<rparr>) \<and> w \<noteq> make_pointer 24)"
proof -
  have "heap_ok (cache_heap (make_pointer 24))" "room (cache_heap (make_pointer 24)) 1"
    "deref (cache_heap (make_pointer 24)) (make_pointer 24) = Some (OFunction demo_method)"
    by (simp_all add: heap_ok_def room_def cache_heap_def str_of_def deref_make_pointer MAX_INTERNED_STRINGS_def del: get_make)
  then show ?thesis
    using cached_method_unbound [of 1 "cache_vm (make_pointer 24)" "make_pointer 8" 2 "make_pointer 16"
        "[(make_pointer 16, make_pointer 24)]" 4 "''a''" 0 0 demo_method 3]
    by (simp add: demo_method_def NATIVE_def) blast
qed

section \<open>Calls and returns\<close>

definition frames_ok :: "VM \<Rightarrow> bool" where
  "frames_ok vm \<longleftrightarrow> 0 < frame_count vm \<and> frame_count vm \<le> length (frames vm)"

text \<open>The frames of \<open>vm\<close>, its top one waiting at \<open>pc\<close>, under one more frame of \<open>w\<close>; the code of the waiting
  function and the room for its registers are there.\<close>

definition suspended :: "VM \<Rightarrow> int \<Rightarrow> VM \<Rightarrow> bool" where
  "suspended vm pc w \<longleftrightarrow>
     frame_count w = frame_count vm + 1 \<and> frame_count w \<le> length (frames w) \<and>
     take (frame_count vm) (frames w) = (take (frame_count vm) (frames vm))[frame_count vm - 1 := (top_frame vm)\<lparr>ip := pc\<rparr>] \<and>
     map_option p_bytecode (programs w (current_prog vm)) = map_option p_bytecode (programs vm (current_prog vm)) \<and>
     length (registers vm) \<le> length (registers w)"

lemma suspendedD:
  assumes "suspended vm pc w" "frames_ok vm"
  shows "frames w ! (frame_count vm - 1) = (top_frame vm)\<lparr>ip := pc\<rparr>"
proof -
  have "take (frame_count vm) (frames w) ! (frame_count vm - 1) = (top_frame vm)\<lparr>ip := pc\<rparr>"
    using assms by (auto simp: suspended_def frames_ok_def)
  then show ?thesis using assms(2) by (simp add: frames_ok_def)
qed

lemma code_at_cong:
  "map_option p_bytecode (programs w (current_prog w)) = map_option p_bytecode (programs vm (current_prog vm)) \<Longrightarrow>
   code_at pc w = code_at pc vm"
  by (cases "programs w (current_prog w)"; cases "programs vm (current_prog vm)") (simp_all add: code_at_def)

lemma push_frame_simps [simp]:
  "frame_count (push_frame f vm) = frame_count vm + 1" "registers (push_frame f vm) = registers vm"
  "programs (push_frame f vm) = programs vm" "vheap (push_frame f vm) = vheap vm"
  "current_prog (push_frame f vm) = current_prog vm" "error_handler (push_frame f vm) = error_handler vm"
  by (simp_all add: push_frame_def Let_def)

lemma push_frame_frames:
  assumes "frame_count vm \<le> length (frames vm)"
  shows "top_frame (push_frame f vm) = f" "frame_count vm < length (frames (push_frame f vm))"
    "take (frame_count vm) (frames (push_frame f vm)) = take (frame_count vm) (frames vm)"
  using assms by (auto simp: push_frame_def Let_def top_frame_def nth_append)

lemma set_top_frame_simps [simp]:
  "frame_count (set_top_frame f vm) = frame_count vm" "registers (set_top_frame f vm) = registers vm"
  "programs (set_top_frame f vm) = programs vm" "vheap (set_top_frame f vm) = vheap vm"
  "current_prog (set_top_frame f vm) = current_prog vm" "error_handler (set_top_frame f vm) = error_handler vm"
  "length (frames (set_top_frame f vm)) = length (frames vm)"
  "take n (frames (set_top_frame f vm)) = (take n (frames vm))[frame_count vm - 1 := f]"
  by (simp_all add: set_top_frame_def take_update_swap)

lemma top_set_top_frame [simp]: "frames_ok vm \<Longrightarrow> top_frame (set_top_frame f vm) = f"
  by (auto simp: frames_ok_def top_frame_def set_top_frame_def)

lemma switch_simps [simp]:
  "frame_count (vm_switch_program p vm) = frame_count vm" "registers (vm_switch_program p vm) = registers vm"
  "programs (vm_switch_program p vm) = programs vm" "vheap (vm_switch_program p vm) = vheap vm"
  "frames (vm_switch_program p vm) = frames vm" "top_frame (vm_switch_program p vm) = top_frame vm"
  "error_handler (vm_switch_program p vm) = error_handler vm"
  by (simp_all add: vm_switch_program_def top_frame_def)

lemma registers_simps [simp]:
  "frame_count (vm\<lparr>registers := rs\<rparr>) = frame_count vm" "top_frame (vm\<lparr>registers := rs\<rparr>) = top_frame vm"
  by (simp_all add: top_frame_def)

lemma grow_registers_simps [simp]:
  "frame_count (grow_registers n vm) = frame_count vm" "frames (grow_registers n vm) = frames vm"
  "programs (grow_registers n vm) = programs vm" "vheap (grow_registers n vm) = vheap vm"
  "top_frame (grow_registers n vm) = top_frame vm" "error_handler (grow_registers n vm) = error_handler vm"
  by (simp_all add: grow_registers_def top_frame_def)

lemma grow_registers_room: "n \<le> length (registers (grow_registers n vm))" "length (registers vm) \<le> length (registers (grow_registers n vm))"
  "i < length (registers vm) \<Longrightarrow> registers (grow_registers n vm) ! i = registers vm ! i"
  by (auto simp: grow_registers_def nth_append)

lemma clear_registers_simps [simp]:
  "frame_count (clear_registers i j vm) = frame_count vm" "frames (clear_registers i j vm) = frames vm"
  "programs (clear_registers i j vm) = programs vm" "vheap (clear_registers i j vm) = vheap vm"
  "top_frame (clear_registers i j vm) = top_frame vm" "length (registers (clear_registers i j vm)) = length (registers vm)"
  "k < length (registers vm) \<Longrightarrow>
     registers (clear_registers i j vm) ! k = (if i \<le> k \<and> k < j then VAL_UNDEFINED else registers vm ! k)"
  "error_handler (clear_registers i j vm) = error_handler vm"
  by (simp_all add: clear_registers_def top_frame_def)

text \<open>The state in which a function starts.\<close>

lemma enter_function_state:
  assumes ok: "frames_ok vm" and room: "reg_base (top_frame vm) + b + 1 + c \<le> length (registers vm)"
  shows "\<exists>vm'. enter_function fv f b c nt this pc vm = Some (Next (uint (bytecode_offset f)) vm') \<and>
    suspended vm pc vm' \<and> (prog f \<noteq> 0 \<longrightarrow> current_prog vm' = prog f) \<and> vheap vm' = vheap vm \<and>
    top_frame vm' = \<lparr>cf_prog = prog f, func = fv, ip = uint (bytecode_offset f), reg_base = reg_base (top_frame vm) + b + 1,
       cf_reg_count = unat (register_count f), env = f_env f, new_target = nt, old_this = this\<rparr> \<and>
    (\<forall>i < c. reg_get i vm' = reg_get (b + 1 + i) vm) \<and>
    (\<forall>i. c \<le> i \<and> i < unat (register_count f) \<longrightarrow> reg_get i vm' = Some VAL_UNDEFINED)"
proof -
  let ?base = "reg_base (top_frame vm) + b + 1" and ?n = "unat (register_count f)"
  let ?f = "\<lparr>cf_prog = prog f, func = fv, ip = uint (bytecode_offset f), reg_base = ?base,
       cf_reg_count = ?n, env = f_env f, new_target = nt, old_this = this\<rparr>"
  let ?v1 = "set_top_frame ((top_frame vm)\<lparr>ip := pc\<rparr>) vm"
  let ?v2 = "push_frame ?f ?v1"
  let ?v3 = "grow_registers (?base + ?n) ?v2"
  let ?v4 = "clear_registers (?base + c) (?base + ?n) ?v3"
  let ?v5 = "vm_switch_program (prog f) ?v4"
  have le: "frame_count ?v1 \<le> length (frames ?v1)" using ok by (simp add: frames_ok_def)
  note push = push_frame_frames [OF le, of ?f]
  have len: "?base + ?n \<le> length (registers ?v3)" "length (registers vm) \<le> length (registers ?v3)"
    using grow_registers_room(1,2) [where vm = ?v2 and n = "?base + ?n"] by simp_all
  have old: "registers ?v3 ! j = registers vm ! j" if "j < length (registers vm)" for j
    using grow_registers_room(3) [where vm = ?v2] that by simp
  have top: "top_frame ?v5 = ?f" using push by simp
  have reg: "reg_get i ?v5 = (if ?base + i < length (registers ?v5) then Some (registers ?v5 ! (?base + i)) else None)" for i
    by (simp only: reg_get_def top Let_def CallFrame.simps)
  have args: "reg_get i ?v5 = reg_get (b + 1 + i) vm" if "i < c" for i
    unfolding reg using that room len old [of "?base + i"] by (simp add: reg_get_def add.assoc)
  have rest: "reg_get i ?v5 = Some VAL_UNDEFINED" if "c \<le> i \<and> i < ?n" for i
    unfolding reg using that len by simp
  show ?thesis
  proof (intro exI [of _ ?v5] conjI allI impI)
    show "enter_function fv f b c nt this pc vm = Some (Next (uint (bytecode_offset f)) ?v5)"
      using ok by (simp add: enter_function_def Let_def)
    show "suspended vm pc ?v5" using push len by (simp add: suspended_def)
    show "prog f \<noteq> 0 \<Longrightarrow> current_prog ?v5 = prog f" by (simp add: vm_switch_program_def)
  qed (use top args rest in simp_all)
qed

text \<open>Returning a value to a waiting caller.\<close>

lemma return_resumes:
  assumes ok: "frames_ok vm" and prog: "current_prog vm = cf_prog (top_frame vm)" "current_prog vm \<noteq> 0"
    and inst: "code_at pc vm = Some inst" and room: "reg_base (top_frame vm) + unat (INST_A inst) < length (registers vm)"
    and w: "suspended vm pc w" "new_target (top_frame w) = VAL_UNDEFINED" "old_this (top_frame w) = VAL_UNDEFINED"
    and v: "reg_get r w = Some v" and stop: "stop \<noteq> frame_count vm"
  shows "\<exists>w'. do_return stop r w = Some (Next (pc + 1) w') \<and> frame_count w' = frame_count vm \<and>
    current_prog w' = current_prog vm \<and> top_frame w' = (top_frame vm)\<lparr>ip := pc + 1\<rparr> \<and>
    registers w' = (registers w)[reg_base (top_frame vm) + unat (INST_A inst) := v] \<and>
    vheap w' = vheap w \<and> error_handler w' = error_handler w \<and> frames w' ! frame_count vm = top_frame w"
proof -
  let ?w1 = "w\<lparr>frame_count := frame_count vm\<rparr>"
  let ?w2 = "vm_switch_program (current_prog vm) ?w1"
  let ?i = "reg_base (top_frame vm) + unat (INST_A inst)"
  have top: "top_frame ?w1 = (top_frame vm)\<lparr>ip := pc\<rparr>"
    using suspendedD [OF w(1) ok] by (simp add: top_frame_def)
  have ok1: "frames_ok (?w2\<lparr>registers := rs\<rparr>)" for rs using w(1) ok by (auto simp: frames_ok_def suspended_def)
  have cur: "current_prog ?w2 = current_prog vm" using prog(2) by (simp add: vm_switch_program_def)
  have "code_at pc ?w2 = code_at pc vm"
    by (rule code_at_cong) (use w(1) cur in \<open>simp add: suspended_def\<close>)
  then have inst': "code_at pc ?w2 = Some inst" using inst by simp
  have set: "reg_set (unat (INST_A inst)) v ?w2 = Some (?w2\<lparr>registers := (registers w)[?i := v]\<rparr>)"
    using w(1) room by (simp add: reg_set_def top suspended_def)
  have "resume_caller v ?w1 = Some (Next (pc + 1)
      (set_top_frame ((top_frame vm)\<lparr>ip := pc + 1\<rparr>) (?w2\<lparr>registers := (registers w)[?i := v]\<rparr>)))"
    using ok1 by (simp add: resume_caller_def top prog(1) [symmetric] inst' set Let_def)
  moreover have "IS_POINTER (VAL_UNDEFINED) = False" by code_simp
  then have "do_return stop r w = resume_caller v ?w1"
    using v w stop by (simp add: do_return_def return_value_def restore_this_def suspended_def)
  moreover have "frames (set_top_frame x (?w2\<lparr>registers := rs\<rparr>)) ! frame_count vm = top_frame w" for x rs
    using ok w(1) by (auto simp: set_top_frame_def top_frame_def frames_ok_def suspended_def)
  ultimately show ?thesis using ok1 cur by auto
qed

lemma call_enters:
  assumes "code_at pc vm = Some inst" "INST_OP inst = opcode_num OP_CALL" "reg_get (unat (INST_B inst)) vm = Some fv"
    and "object_at fv vm = Some (OFunction f)" "bytecode_offset f \<noteq> NATIVE" "native_ptr f = 0" "\<not> is_async f"
  shows "vm_step host n acts stop call pc vm =
    enter_function fv f (unat (INST_B inst)) (unat (INST_C inst)) VAL_UNDEFINED VAL_UNDEFINED pc vm"
proof -
  have "IS_POINTER fv" using assms(4) by (auto simp: object_at_def deref_def split: if_splits)
  then show ?thesis
    using assms by (simp add: vm_step_def execute_def do_call_def is_bound_def actual_function_def)
qed

text \<open>
  C5 (functional): a call instruction on a plain bytecode function starts it with the arguments
  as its first registers and \<open>undefined\<close> in all its others, in its closure environment and program, while
  the caller waits. Whatever the function then does to the heap, to its own frame and to the registers, as long as the
  frames below stay, a return instruction puts the returned value into the register the call
  instruction names and goes on behind it in the caller's program, with no other register touched.
\<close>

theorem call_return_protocol:
  assumes "frames_ok vm" "current_prog vm = cf_prog (top_frame vm)" "current_prog vm \<noteq> 0"
    and "code_at pc vm = Some inst" "INST_OP inst = opcode_num OP_CALL" "reg_get (unat (INST_B inst)) vm = Some fv"
    and "object_at fv vm = Some (OFunction f)" "bytecode_offset f \<noteq> NATIVE" "native_ptr f = 0" "\<not> is_async f" "prog f \<noteq> 0"
    and "reg_base (top_frame vm) + unat (INST_B inst) + 1 + unat (INST_C inst) \<le> length (registers vm)"
    and "reg_base (top_frame vm) + unat (INST_A inst) < length (registers vm)"
    and "stop \<noteq> frame_count vm"
  shows "\<exists>vm'. vm_step host n acts stop call pc vm = Some (Next (uint (bytecode_offset f)) vm') \<and>
    suspended vm pc vm' \<and> current_prog vm' = prog f \<and> env (top_frame vm') = f_env f \<and> vheap vm' = vheap vm \<and>
    new_target (top_frame vm') = VAL_UNDEFINED \<and> old_this (top_frame vm') = VAL_UNDEFINED \<and>
    (\<forall>i < unat (INST_C inst). reg_get i vm' = reg_get (unat (INST_B inst) + 1 + i) vm) \<and>
    (\<forall>i. unat (INST_C inst) \<le> i \<and> i < unat (register_count f) \<longrightarrow> reg_get i vm' = Some VAL_UNDEFINED) \<and>
    (\<forall>w r v. suspended vm pc w \<and> new_target (top_frame w) = VAL_UNDEFINED \<and> old_this (top_frame w) = VAL_UNDEFINED \<and>
       reg_get r w = Some v \<longrightarrow>
       (\<exists>w'. do_return stop r w = Some (Next (pc + 1) w') \<and> frame_count w' = frame_count vm \<and>
          current_prog w' = current_prog vm \<and> top_frame w' = (top_frame vm)\<lparr>ip := pc + 1\<rparr> \<and>
          registers w' = (registers w)[reg_base (top_frame vm) + unat (INST_A inst) := v] \<and> vheap w' = vheap w))"
proof -
  obtain vm' where s:
    "enter_function fv f (unat (INST_B inst)) (unat (INST_C inst)) VAL_UNDEFINED VAL_UNDEFINED pc vm =
       Some (Next (uint (bytecode_offset f)) vm')"
    "suspended vm pc vm'" "prog f \<noteq> 0 \<longrightarrow> current_prog vm' = prog f" "vheap vm' = vheap vm"
    "top_frame vm' = \<lparr>cf_prog = prog f, func = fv, ip = uint (bytecode_offset f),
       reg_base = reg_base (top_frame vm) + unat (INST_B inst) + 1, cf_reg_count = unat (register_count f), env = f_env f,
       new_target = VAL_UNDEFINED, old_this = VAL_UNDEFINED\<rparr>"
    "\<forall>i < unat (INST_C inst). reg_get i vm' = reg_get (unat (INST_B inst) + 1 + i) vm"
    "\<forall>i. unat (INST_C inst) \<le> i \<and> i < unat (register_count f) \<longrightarrow> reg_get i vm' = Some VAL_UNDEFINED"
    using enter_function_state [OF assms(1,12), of fv f VAL_UNDEFINED VAL_UNDEFINED pc] by blast
  have "vm_step host n acts stop call pc vm = Some (Next (uint (bytecode_offset f)) vm')"
    using call_enters [OF assms(4-10)] s(1) by simp
  then show ?thesis
    using s(2-7) assms(11) return_resumes [OF assms(1-4,13) _ _ _ _ assms(14)]
    by (intro exI [of _ vm'] conjI) (simp_all, blast)
qed

definition call_vm :: VM where
  "call_vm = demo_vm (demo_program [make_abc OP_CALL 0 1 1] []) (cache_heap VAL_NULL)
     [VAL_UNDEFINED, make_pointer 24, make_integer 9]"

lemma call_vm_simps [simp]:
  "frames_ok call_vm" "current_prog call_vm = 100" "top_frame call_vm = demo_frame" "length (registers call_vm) = 16"
  "code_at 0 call_vm = Some (make_abc OP_CALL 0 1 1)" "reg_get (Suc 0) call_vm = Some (make_pointer 24)"
  "reg_get 2 call_vm = Some (make_integer 9)" "vheap call_vm = cache_heap VAL_NULL" "frame_count call_vm = 1"
  by (simp_all add: call_vm_def demo_vm_def frames_ok_def top_frame_def code_at_def demo_program_def reg_get_def
      demo_frame_def numeral_2_eq_2)

lemma call_vm_function [simp]: "object_at (make_pointer 24) call_vm = Some (OFunction demo_method)"
  by (simp add: object_at_def)

theorem call_return_protocol_witness:
  "\<exists>vm' w'. vm_step demo_host 0 [] 0 (\<lambda>_ _ _. None) 0 call_vm = Some (Next 7 vm') \<and>
     reg_get 0 vm' = Some (make_integer 9) \<and> reg_get 2 vm' = Some VAL_UNDEFINED \<and>
     do_return 0 0 vm' = Some (Next 1 w') \<and> reg_get 0 w' = Some (make_integer 9)"
proof -
  let ?inst = "make_abc OP_CALL 0 1 1"
  have f: "unat (INST_A ?inst) = 0" "unat (INST_B ?inst) = 1" "unat (INST_C ?inst) = 1" "INST_OP ?inst = opcode_num OP_CALL"
    by (simp_all add: laws)
  have m: "bytecode_offset demo_method = 7" "native_ptr demo_method = 0" "\<not> is_async demo_method" "prog demo_method = 100"
    "unat (register_count demo_method) = 3" "(7 :: u32) \<noteq> NATIVE" by (simp_all add: demo_method_def NATIVE_def)
  obtain vm' where vm': "vm_step demo_host 0 [] 0 (\<lambda>_ _ _. None) 0 call_vm = Some (Next 7 vm')" "suspended call_vm 0 vm'"
    "new_target (top_frame vm') = VAL_UNDEFINED" "old_this (top_frame vm') = VAL_UNDEFINED"
    "\<forall>i < 1. reg_get i vm' = reg_get (1 + 1 + i) call_vm"
    "\<forall>i. 1 \<le> i \<and> i < 3 \<longrightarrow> reg_get i vm' = Some VAL_UNDEFINED"
    "\<forall>w r v. suspended call_vm 0 w \<and> new_target (top_frame w) = VAL_UNDEFINED \<and> old_this (top_frame w) = VAL_UNDEFINED \<and>
       reg_get r w = Some v \<longrightarrow>
       (\<exists>w'. do_return 0 r w = Some (Next 1 w') \<and> frame_count w' = 1 \<and> current_prog w' = 100 \<and>
          top_frame w' = demo_frame\<lparr>ip := 1\<rparr> \<and> registers w' = (registers w)[reg_base demo_frame := v] \<and> vheap w' = vheap w)"
    using call_return_protocol [of call_vm 0 ?inst "make_pointer 24" demo_method 0 demo_host 0 "[]" "\<lambda>_ _ _. None"] f m
    by (auto simp: demo_frame_def)
  have arg: "reg_get 0 vm' = Some (make_integer 9)" using vm'(5) by (simp add: numeral_2_eq_2 [symmetric])
  with vm'(2-4,7) obtain w' where w': "do_return 0 0 vm' = Some (Next 1 w')" "top_frame w' = demo_frame\<lparr>ip := 1\<rparr>"
    "registers w' = (registers vm')[reg_base demo_frame := make_integer 9]" by blast
  have "reg_base demo_frame < length (registers vm')"
    using vm'(2) by (auto simp: suspended_def demo_frame_def)
  then have "reg_get 0 w' = Some (make_integer 9)" by (simp add: reg_get_def w')
  with vm'(1,6) arg w'(1) show ?thesis by (intro exI [of _ vm'] exI [of _ w']) simp
qed

section \<open>Exceptions\<close>

definition handler :: "VM \<Rightarrow> int \<Rightarrow> nat \<Rightarrow> VMErrorHandler" where
  "handler vm target act = \<lparr>saved_frame_count = frame_count vm, saved_reg_count = reg_count vm, catch_ip = target, activation = act\<rparr>"

lemma do_try_begin_handler:
  "do_try_begin (act # acts) sbx pc vm =
     Some (Next (pc + 1) (vm\<lparr>error_handler := handler vm (pc + sbx + 1) act # error_handler vm\<rparr>))"
  by (simp add: do_try_begin_def handler_def)

lemma throw_caught:
  assumes "error_handler w = eh # ehs" "activation eh = act" "saved_reg_count eh < length (registers w)"
    and "f = frames w ! (saved_frame_count eh - 1)" "cf_prog f \<noteq> 0"
  shows "vm_throw_error (act # acts) err w = Some (Next (catch_ip eh)
    (w\<lparr>frame_count := saved_frame_count eh, reg_count := saved_reg_count eh, error_handler := ehs, current_prog := cf_prog f,
       registers := (registers w)[saved_reg_count eh := err]\<rparr>))"
  using assms by (simp add: vm_throw_error_def catch_error_def vm_switch_program_def top_frame_def)

text \<open>
  C26 (error): after \<open>OP_TRY_BEGIN\<close>, an exception thrown anywhere below while its handler is the
  innermost one, from the same frame or from functions it called, goes on at the catch block with the stacks
  as they were at the start of the try block, the handler removed and the program of the function active,
  and \<open>OP_CATCH_BEGIN\<close> gives the thrown value. Without a handler the process ends.
\<close>

theorem throw_reaches_catch:
  assumes "do_try_begin (act # acts) sbx pc vm = Some (Next (pc + 1) vm')"
    and "error_handler w = error_handler vm'" "frames w ! (frame_count vm - 1) = f"
    and "cf_prog f = cf_prog (top_frame vm)" "reg_base f = reg_base (top_frame vm)" "cf_prog f \<noteq> 0"
    and "reg_get r w = Some err" "reg_count vm < length (registers w)" "reg_base f + a < length (registers w)"
  shows "(\<exists>w'. do_throw (act # acts) r w = Some (Next (pc + sbx + 1) w') \<and> frame_count w' = frame_count vm \<and>
      reg_count w' = reg_count vm \<and> error_handler w' = error_handler vm \<and> current_prog w' = cf_prog (top_frame vm) \<and>
      (\<exists>w''. do_catch_begin a (pc + sbx + 1) w' = Some (Next (pc + sbx + 2) w'') \<and> reg_get a w'' = Some err)) \<and>
    do_throw acts r (w\<lparr>error_handler := []\<rparr>) = Some (Exited err)"
proof -
  let ?eh = "handler vm (pc + sbx + 1) act"
  let ?w = "w\<lparr>frame_count := frame_count vm, reg_count := reg_count vm, error_handler := error_handler vm,
    current_prog := cf_prog f, registers := (registers w)[reg_count vm := err]\<rparr>"
  have eh: "error_handler w = ?eh # error_handler vm" using assms(1,2) by (auto simp: do_try_begin_handler)
  have "do_throw (act # acts) r w = Some (Next (pc + sbx + 1) ?w)"
    using throw_caught [OF eh, of act f acts err] assms(3-8) by (simp add: do_throw_def handler_def)
  moreover have top: "top_frame ?w = f" using assms(3) by (simp add: top_frame_def)
  then have "\<exists>w''. do_catch_begin a (pc + sbx + 1) ?w = Some (Next (pc + sbx + 2) w'') \<and> reg_get a w'' = Some err"
    using assms(8,9) by (simp add: do_catch_begin_def put_next_def reg_set_def reg_get_def)
  moreover have "reg_get r (w\<lparr>error_handler := []\<rparr>) = Some err" using assms(7) by (simp add: reg_get_def top_frame_def Let_def split: if_splits)
  then have "do_throw acts r (w\<lparr>error_handler := []\<rparr>) = Some (Exited err)" by (simp add: do_throw_def vm_throw_error_def)
  ultimately show ?thesis using assms(4) by simp
qed

definition try_vm :: VM where
  "try_vm = call_vm\<lparr>reg_count := 3\<rparr>"

lemma try_vm_simps [simp]:
  "reg_count try_vm = 3" "frame_count try_vm = 1" "error_handler try_vm = []" "top_frame try_vm = demo_frame"
  "frames try_vm ! 0 = demo_frame" "length (registers try_vm) = 16" "registers try_vm ! Suc (Suc 0) = make_integer 9"
  by (simp_all add: try_vm_def call_vm_def demo_vm_def top_frame_def)

theorem throw_reaches_catch_witness:
  "\<exists>w'. do_throw [1] 2 (try_vm\<lparr>error_handler := [handler try_vm 6 1]\<rparr>) = Some (Next 6 w') \<and> error_handler w' = [] \<and>
     (\<exists>w''. do_catch_begin 0 6 w' = Some (Next 7 w'') \<and> reg_get 0 w'' = Some (make_integer 9))"
proof -
  let ?w = "try_vm\<lparr>error_handler := [handler try_vm 6 1]\<rparr>"
  have "do_try_begin [1] 1 4 try_vm = Some (Next 5 ?w)" by (simp add: do_try_begin_handler)
  moreover have "reg_get 2 ?w = Some (make_integer 9)" by (simp add: reg_get_def top_frame_def) (simp add: demo_frame_def)
  ultimately show ?thesis
    using throw_reaches_catch [of 1 "[]" 1 4 try_vm ?w ?w demo_frame 2 "make_integer 9" 0]
    by (auto simp: demo_frame_def)
qed

text \<open>
  return_leaves_handler (error): \<open>OP_RETURN\<close> does not remove the handlers of its function. A function that
  returns from inside a try block leaves its handler behind, and the next exception in the caller goes to
  the catch block of the function that has already returned, with its dead frame on top of the stack again.
\<close>

theorem return_leaves_handler:
  assumes "frames_ok vm" "current_prog vm = cf_prog (top_frame vm)" "current_prog vm \<noteq> 0"
    and "code_at pc vm = Some inst" "reg_base (top_frame vm) + unat (INST_A inst) < length (registers vm)"
    and "suspended vm pc w" "new_target (top_frame w) = VAL_UNDEFINED" "old_this (top_frame w) = VAL_UNDEFINED"
    and "reg_get r w = Some v" "stop \<noteq> frame_count vm"
    and "do_try_begin (act # acts) sbx tpc w0 = Some (Next (tpc + 1) w)" "frame_count w0 = frame_count w"
    and "cf_prog (top_frame w) \<noteq> 0" "reg_count w0 < length (registers w)"
  shows "\<exists>w' w''. do_return stop r w = Some (Next (pc + 1) w') \<and> frame_count w' = frame_count vm \<and>
    vm_throw_error (act # acts) err w' = Some (Next (tpc + sbx + 1) w'') \<and> frame_count w'' = frame_count vm + 1"
proof -
  obtain w' where w': "do_return stop r w = Some (Next (pc + 1) w')" "frame_count w' = frame_count vm"
    "registers w' = (registers w)[reg_base (top_frame vm) + unat (INST_A inst) := v]" "error_handler w' = error_handler w"
    "frames w' ! frame_count vm = top_frame w"
    using return_resumes [OF assms(1-10)] by blast
  let ?eh = "handler w0 (tpc + sbx + 1) act"
  have "error_handler w' = ?eh # error_handler w0" using assms(11) w'(4) by (auto simp: do_try_begin_handler)
  from throw_caught [OF this, of act "top_frame w" acts err] w' assms(12-14) assms(6)
  show ?thesis by (auto simp: handler_def suspended_def)
qed

definition left_vm :: VM where
  "left_vm = try_vm\<lparr>frames := [demo_frame, demo_frame\<lparr>reg_base := 2\<rparr>], frame_count := 2\<rparr>"

theorem return_leaves_handler_witness:
  "\<exists>w' w''. do_return 0 0 (left_vm\<lparr>error_handler := [handler left_vm 9 1]\<rparr>) = Some (Next 1 w') \<and> frame_count w' = 1 \<and>
     vm_throw_error [1] VAL_NULL w' = Some (Next 9 w'') \<and> frame_count w'' = 2"
proof -
  let ?w = "left_vm\<lparr>error_handler := [handler left_vm 9 1]\<rparr>"
  let ?inst = "make_abc OP_CALL 0 1 1"
  have t: "do_try_begin [1] 2 6 left_vm = Some (Next (6 + 1) ?w)"
    by (simp add: do_try_begin_handler left_vm_def try_vm_def call_vm_def demo_vm_def)
  have f: "unat (INST_A ?inst) = 0" by (simp add: laws)
  have s: "suspended call_vm 0 ?w"
    by (simp add: suspended_def left_vm_def try_vm_def) (simp add: call_vm_def demo_vm_def demo_frame_def)
  have top: "top_frame ?w = demo_frame\<lparr>reg_base := 2\<rparr>" by (simp add: left_vm_def top_frame_def)
  have v: "reg_get 0 ?w = Some (make_integer 9)"
    unfolding reg_get_def top by (simp add: left_vm_def numeral_2_eq_2)
  show ?thesis
    using return_leaves_handler [OF _ _ _ _ _ s _ _ v _ t, of ?inst 0 VAL_NULL] f top
    by (auto simp: demo_frame_def left_vm_def)
qed

end
