(* ===== verification/Collector.thy ===== *)
theory Collector
  imports Interpreter_Laws
begin

text \<open>
  The garbage collector of \<open>src/src/alloc.c\<close> above the block level: \<open>gc_mark_value\<close> and the roots of \<open>gc_major\<close>, and the
  copying collection of the nursery (\<open>minor_copy_value\<close>, \<open>minor_trace_object\<close>, \<open>gc_minor\<close>). A block is its object type
  with the pointers in its payload; arrays, objects, sets and functions point to separate data blocks; \<open>GBufferData\<close> stands for every block of raw bytes. The sweep
  of \<open>gc_major\<close> is in \<open>Arena\<close>.
\<close>

section \<open>Blocks\<close>

datatype block =
  GString string
| GArray nat u64
| GArrayData "Value list"
| GObject nat u64
| GObjectData "(Value \<times> Value) list"
| GSet nat u64
| GFloat16 nat u64
| GPromise Value Value
| GFunction Value Value u32 u64 u64
| GEnv Value "Value list"
| GIterator Value Value Value
| GSymbol Value
| GRegExp Value Value
| GError Value Value Value u64
| GBuffer Value
| GBufferData

text \<open>The arena: the blocks by the addresses of their payloads, and the bounds of the two spaces.\<close>

record gc_heap =
  blocks :: "u64 \<rightharpoonup> block"
  nursery_lo :: u64
  nursery_hi :: u64
  old_lo :: u64
  old_hi :: u64

definition in_nursery :: "gc_heap \<Rightarrow> u64 \<Rightarrow> bool" where
  "in_nursery h p \<longleftrightarrow> nursery_lo h \<le> p \<and> p < nursery_hi h"

definition in_old :: "gc_heap \<Rightarrow> u64 \<Rightarrow> bool" where
  "in_old h p \<longleftrightarrow> old_lo h \<le> p \<and> p < old_hi h"

definition in_arena :: "gc_heap \<Rightarrow> u64 \<Rightarrow> bool" where
  "in_arena h p \<longleftrightarrow> in_nursery h p \<or> in_old h p"

text \<open>The first \<open>n\<close> cells of a data block. Without such a block memory of another kind is read.\<close>

definition values_at :: "gc_heap \<Rightarrow> u64 \<Rightarrow> nat \<Rightarrow> Value list option" where
  "values_at h p n =
     (if n = 0 then Some []
      else case blocks h p of Some (GArrayData vs) \<Rightarrow> if n \<le> length vs then Some (take n vs) else None | _ \<Rightarrow> None)"

definition flat :: "(Value \<times> Value) list \<Rightarrow> Value list" where
  "flat ps = concat (map (\<lambda>(k, v). [k, v]) ps)"

definition props_at :: "gc_heap \<Rightarrow> u64 \<Rightarrow> nat \<Rightarrow> (Value \<times> Value) list option" where
  "props_at h p n =
     (if n = 0 then Some []
      else case blocks h p of Some (GObjectData ps) \<Rightarrow> if n \<le> length ps then Some (take n ps) else None | _ \<Rightarrow> None)"

section \<open>Marking\<close>

text \<open>The values \<open>gc_mark_value\<close> is called on for a block, in order.\<close>

definition traced :: "gc_heap \<Rightarrow> block \<Rightarrow> Value list option" where
  "traced h b =
     (case b of
        GString _ \<Rightarrow> Some []
      | GArray n p \<Rightarrow> map_option ((#) (make_pointer p)) (values_at h p n)
      | GArrayData vs \<Rightarrow> Some vs
      | GObject n p \<Rightarrow> map_option (\<lambda>ps. make_pointer p # flat ps) (props_at h p n)
      | GSet n p \<Rightarrow> map_option ((#) (make_pointer p)) (values_at h p n)
      | GFloat16 n p \<Rightarrow> Some [make_pointer p]
      | GPromise r cb \<Rightarrow> Some [r, cb]
      | GObjectData ps \<Rightarrow> Some (flat ps)
      | GFunction e n off nat_ptr props \<Rightarrow>
          Some ([e, n] @ (if off \<noteq> NATIVE \<and> nat_ptr \<noteq> 0 then [make_pointer nat_ptr] else []) @
            (if props \<noteq> 0 then [make_pointer props] else []))
      | GEnv p vs \<Rightarrow> Some (p # vs)
      | GIterator s cb i \<Rightarrow> Some [s, cb, i]
      | GSymbol d \<Rightarrow> Some [d]
      | GRegExp s f \<Rightarrow> Some [s, f]
      | GError n m st props \<Rightarrow> Some ([n, m, st] @ (if props \<noteq> 0 then [make_pointer props] else []))
      | GBuffer slab \<Rightarrow> Some (if slab \<noteq> VAL_UNDEFINED then [slab] else [])
      | GBufferData \<Rightarrow> Some [])"

text \<open>\<open>gc_mark_value\<close>. The marks are the set of marked blocks; the fuel is the depth of the recursion.\<close>

fun gc_mark_value :: "gc_heap \<Rightarrow> nat \<Rightarrow> Value \<Rightarrow> u64 set \<Rightarrow> u64 set option" where
  "gc_mark_value h 0 v marks = None"
| "gc_mark_value h (Suc n) v marks =
     (if \<not> IS_POINTER v then Some marks
      else let p = get_pointer v
           in if \<not> in_arena h p then Some marks
              else if p \<in> marks then Some marks
              else do {
                b \<leftarrow> blocks h p;
                vs \<leftarrow> traced h b;
                opt_fold (gc_mark_value h n) vs (insert p marks)
              })"

text \<open>The roots of the VM that \<open>gc_major\<close> marks and \<open>gc_minor\<close> copies; \<open>queued\<close> are the callbacks and arguments of the task
  queues. The module cache and the prototypes and symbols that are no fields of the modelled VM are \<open>protos\<close>.\<close>

definition vm_gc_roots :: "Value list \<Rightarrow> Value list \<Rightarrow> VM \<Rightarrow> Value list" where
  "vm_gc_roots protos queued vm =
     [global_obj vm, set_prototype (builtin_protos vm), array_prototype (builtin_protos vm),
      string_prototype (builtin_protos vm), regexp_prototype (builtin_protos vm), symbol_iterator vm,
      symbol_async_iterator vm] @ protos @
     take (reg_count vm) (registers vm) @
     (case programs vm (current_prog vm) of Some p \<Rightarrow> p_const_pool p | None \<Rightarrow> []) @
     queued @
     concat (map (\<lambda>f. [func f, env f]) (take (frame_count vm) (frames vm))) @
     gc_roots vm"

text \<open>The mark phase: the roots, the table of interned strings, which is weak, and the roots \<open>natives\<close> that the native modules
  and the event loop report.\<close>

definition gc_mark_phase :: "gc_heap \<Rightarrow> nat \<Rightarrow> Value list \<Rightarrow> Value list \<Rightarrow> Value list \<Rightarrow> (u64 set \<times> Value list) option" where
  "gc_mark_phase h n roots strs natives =
     do {
       marks \<leftarrow> opt_fold (gc_mark_value h n) roots {};
       let strs = filter (\<lambda>v. get_pointer v \<in> marks) strs;
       marks \<leftarrow> opt_fold (gc_mark_value h n) natives marks;
       Some (marks, strs)
     }"

section \<open>Copying\<close>

text \<open>The state of a minor collection: the heap and the forwarding pointers that the copied blocks leave in the nursery.
  \<open>alloc\<close> is \<open>arena_alloc_old_space\<close> for a copy of a block; without room in old space the process ends.\<close>

record minor =
  heap_of :: gc_heap
  forward :: "u64 \<rightharpoonup> Value"

type_synonym old_alloc = "gc_heap \<Rightarrow> block \<Rightarrow> u64 option"

definition block_at :: "u64 \<Rightarrow> minor \<Rightarrow> block option" where
  "block_at p g = blocks (heap_of g) p"

definition set_block :: "u64 \<Rightarrow> block \<Rightarrow> minor \<Rightarrow> minor" where
  "set_block p b g = g\<lparr>heap_of := (heap_of g)\<lparr>blocks := (blocks (heap_of g))(p \<mapsto> b)\<rparr>\<rparr>"

text \<open>The cells of a block that \<open>minor_trace_object\<close> copies, in order. Blocks of the other types have none.\<close>

definition cells :: "block \<Rightarrow> Value list" where
  "cells b =
     (case b of
        GArrayData vs \<Rightarrow> vs
      | GObjectData ps \<Rightarrow> flat ps
      | GFunction e n _ _ _ \<Rightarrow> [e, n]
      | GEnv p vs \<Rightarrow> p # vs
      | GPromise r cb \<Rightarrow> [r, cb]
      | GIterator s cb i \<Rightarrow> [s, cb, i]
      | GError _ m st _ \<Rightarrow> [m, st]
      | _ \<Rightarrow> [])"

definition put_cell :: "nat \<Rightarrow> Value \<Rightarrow> block \<Rightarrow> block" where
  "put_cell i v b =
     (case b of
        GArrayData vs \<Rightarrow> GArrayData (vs[i := v])
      | GObjectData ps \<Rightarrow>
          GObjectData (ps[i div 2 := (if even i then (v, snd (ps ! (i div 2))) else (fst (ps ! (i div 2)), v))])
      | GFunction e n off nat_ptr props \<Rightarrow>
          if i = 0 then GFunction v n off nat_ptr props else GFunction e v off nat_ptr props
      | GEnv p vs \<Rightarrow> if i = 0 then GEnv v vs else GEnv p (vs[i - 1 := v])
      | GPromise r cb \<Rightarrow> if i = 0 then GPromise v cb else GPromise r v
      | GIterator s cb h \<Rightarrow> if i = 0 then GIterator v cb h else if i = 1 then GIterator s v h else GIterator s cb v
      | GError n m st props \<Rightarrow> if i = 0 then GError n v st props else GError n m v props
      | _ \<Rightarrow> b)"

text \<open>The raw pointers of a block: the target of a bound function and the data block.\<close>

definition target_ptr :: "block \<Rightarrow> u64 option" where
  "target_ptr b =
     (case b of GFunction _ _ off nat_ptr _ \<Rightarrow> if off \<noteq> NATIVE \<and> nat_ptr \<noteq> 0 then Some nat_ptr else None | _ \<Rightarrow> None)"

definition put_target :: "u64 \<Rightarrow> block \<Rightarrow> block" where
  "put_target p b = (case b of GFunction e n off nat_ptr props \<Rightarrow> GFunction e n off (if off \<noteq> NATIVE then p else nat_ptr) props | _ \<Rightarrow> b)"

definition data_ptr :: "block \<Rightarrow> u64 option" where
  "data_ptr b =
     (case b of
        GObject _ p \<Rightarrow> Some p
      | GArray _ p \<Rightarrow> Some p
      | GSet _ p \<Rightarrow> Some p
      | GFunction _ _ _ _ p \<Rightarrow> if p \<noteq> 0 then Some p else None
      | GError _ _ _ p \<Rightarrow> if p \<noteq> 0 then Some p else None
      | _ \<Rightarrow> None)"

definition put_data :: "u64 \<Rightarrow> block \<Rightarrow> block" where
  "put_data p b =
     (case b of
        GObject n _ \<Rightarrow> GObject n p
      | GArray n _ \<Rightarrow> GArray n p
      | GSet n _ \<Rightarrow> GSet n p
      | GFunction e n off nat_ptr _ \<Rightarrow> GFunction e n off nat_ptr p
      | GError n m st _ \<Rightarrow> GError n m st p
      | _ \<Rightarrow> b)"

text \<open>\<open>minor_copy_value\<close> on a cell: the block is read again, since copying may have changed it.\<close>

definition copy_cell ::
  "(Value \<Rightarrow> minor \<Rightarrow> (Value \<times> minor) option) \<Rightarrow> u64 \<Rightarrow> nat \<Rightarrow> minor \<Rightarrow> minor option" where
  "copy_cell cp q i g =
     do {
       b \<leftarrow> block_at q g;
       if i < length (cells b)
       then do { (w, g) \<leftarrow> cp (cells b ! i) g; b \<leftarrow> block_at q g; Some (set_block q (put_cell i w b) g) }
       else None
     }"

definition copy_raw ::
  "(Value \<Rightarrow> minor \<Rightarrow> (Value \<times> minor) option) \<Rightarrow> (u64 \<Rightarrow> block \<Rightarrow> block) \<Rightarrow> u64 \<Rightarrow> u64 option \<Rightarrow> minor \<Rightarrow> (u64 \<times> minor) option"
where
  "copy_raw cp put q ptr g =
     (case ptr of
        None \<Rightarrow> Some (0, g)
      | Some p \<Rightarrow>
          do {
            (w, g) \<leftarrow> cp (make_pointer p) g;
            b \<leftarrow> block_at q g;
            Some (get_pointer w, set_block q (put (get_pointer w) b) g)
          })"

definition trace_block ::
  "(Value \<Rightarrow> minor \<Rightarrow> (Value \<times> minor) option) \<Rightarrow> (u64 \<Rightarrow> minor \<Rightarrow> minor option) \<Rightarrow> u64 \<Rightarrow> minor \<Rightarrow> minor option" where
  "trace_block cp tr q g =
     do {
       b \<leftarrow> block_at q g;
       g \<leftarrow> opt_fold (copy_cell cp q) [0..<length (cells b)] g;
       b \<leftarrow> block_at q g;
       (_, g) \<leftarrow> copy_raw cp put_target q (target_ptr b) g;
       b \<leftarrow> block_at q g;
       (p, g) \<leftarrow> copy_raw cp put_data q (data_ptr b) g;
       if p \<noteq> 0 \<and> in_old (heap_of g) p then tr p g else Some g
     }"

fun minor_copy_value :: "old_alloc \<Rightarrow> nat \<Rightarrow> Value \<Rightarrow> minor \<Rightarrow> (Value \<times> minor) option"
  and minor_trace_object :: "old_alloc \<Rightarrow> nat \<Rightarrow> u64 \<Rightarrow> minor \<Rightarrow> minor option" where
  "minor_copy_value alloc 0 v g = None"
| "minor_copy_value alloc (Suc n) v g =
     (if \<not> IS_POINTER v then Some (v, g)
      else let p = get_pointer v
           in if in_nursery (heap_of g) p
              then (case forward g p of
                      Some w \<Rightarrow> Some (w, g)
                    | None \<Rightarrow>
                        do {
                          b \<leftarrow> block_at p g;
                          q \<leftarrow> alloc (heap_of g) b;
                          let g = set_block q b g;
                          let g = g\<lparr>forward := (forward g)(p \<mapsto> make_pointer q)\<rparr>;
                          g \<leftarrow> minor_trace_object alloc n q g;
                          Some (make_pointer q, g)
                        })
              else Some (v, g))"
| "minor_trace_object alloc 0 q g = None"
| "minor_trace_object alloc (Suc n) q g =
     trace_block (minor_copy_value alloc n) (minor_trace_object alloc n) q g"

text \<open>The roots are copied and updated one after the other.\<close>

fun copy_all :: "(Value \<Rightarrow> minor \<Rightarrow> (Value \<times> minor) option) \<Rightarrow> Value list \<Rightarrow> minor \<Rightarrow> (Value list \<times> minor) option" where
  "copy_all cp [] g = Some ([], g)"
| "copy_all cp (v # vs) g = do { (w, g) \<leftarrow> cp v g; (ws, g) \<leftarrow> copy_all cp vs g; Some (w # ws, g) }"

definition trace_remembered :: "old_alloc \<Rightarrow> nat \<Rightarrow> Value \<Rightarrow> minor \<Rightarrow> minor option" where
  "trace_remembered alloc n v g = (if IS_POINTER v then minor_trace_object alloc n (get_pointer v) g else Some g)"

definition keep_interned :: "minor \<Rightarrow> Value list \<Rightarrow> Value list" where
  "keep_interned g vs =
     concat (map (\<lambda>v. if in_nursery (heap_of g) (get_pointer v)
                     then (case forward g (get_pointer v) of Some w \<Rightarrow> [w] | None \<Rightarrow> []) else [v]) vs)"

definition empty_nursery :: "gc_heap \<Rightarrow> gc_heap" where
  "empty_nursery h = h\<lparr>blocks := (\<lambda>p. if in_nursery h p then None else blocks h p)\<rparr>"

text \<open>\<open>gc_minor\<close>: the roots of the VM, the remembered set, the interned strings, the roots of the native modules. The
  result has the updated roots and tables.\<close>

definition gc_minor ::
  "old_alloc \<Rightarrow> nat \<Rightarrow> Value list \<Rightarrow> Value list \<Rightarrow> Value list \<Rightarrow> Value list \<Rightarrow> gc_heap \<Rightarrow>
   (Value list \<times> Value list \<times> Value list \<times> gc_heap) option" where
  "gc_minor alloc n roots remembered strs natives h =
     do {
       let g = \<lparr>heap_of = h, forward = Map.empty\<rparr>;
       (roots, g) \<leftarrow> copy_all (minor_copy_value alloc n) roots g;
       g \<leftarrow> opt_fold (trace_remembered alloc n) remembered g;
       let strs = keep_interned g strs;
       (natives, g) \<leftarrow> copy_all (minor_copy_value alloc n) natives g;
       Some (roots, strs, natives, empty_nursery (heap_of g))
     }"

section \<open>Marking is reachability\<close>

text \<open>The blocks that values point to, and the edges of the object graph: the values and non-null pointers in the payload
  of a block. The pointer of a native function is one to code.\<close>

definition targets :: "gc_heap \<Rightarrow> Value list \<Rightarrow> u64 set" where
  "targets h vs = {get_pointer v | v. v \<in> set vs \<and> IS_POINTER v \<and> in_arena h (get_pointer v)}"

definition pointer_val :: "u64 \<Rightarrow> Value list" where
  "pointer_val p = (if p = 0 then [] else [make_pointer p])"

fun payload :: "block \<Rightarrow> Value list" where
  "payload (GString _) = []"
| "payload (GArray _ p) = pointer_val p"
| "payload (GArrayData vs) = vs"
| "payload (GObject _ p) = pointer_val p"
| "payload (GObjectData ps) = flat ps"
| "payload (GSet _ p) = pointer_val p"
| "payload (GFloat16 _ p) = pointer_val p"
| "payload (GPromise r cbs) = [r, cbs]"
| "payload (GFunction e nm off c ps) =
     [e, nm] @ (if off = NATIVE then [] else pointer_val c) @ pointer_val ps"
| "payload (GEnv e vs) = e # vs"
| "payload (GIterator src cb it) = [src, cb, it]"
| "payload (GSymbol d) = [d]"
| "payload (GRegExp src f) = [src, f]"
| "payload (GError nm m st ps) = [nm, m, st] @ pointer_val ps"
| "payload (GBuffer v) = [v]"
| "payload GBufferData = []"

definition succs :: "gc_heap \<Rightarrow> u64 \<Rightarrow> u64 set" where
  "succs h p = (case blocks h p of Some b \<Rightarrow> targets h (payload b) | None \<Rightarrow> {})"

inductive reachable :: "gc_heap \<Rightarrow> Value list \<Rightarrow> u64 \<Rightarrow> bool" for h vs where
  reach_root: "p \<in> targets h vs \<Longrightarrow> reachable h vs p"
| reach_edge: "reachable h vs p \<Longrightarrow> q \<in> succs h p \<Longrightarrow> reachable h vs q"

text \<open>The blocks are in the arena at addresses of 48 bits, every one can be traced, and every pointer into the arena is
  one to a block.\<close>

definition graph_ok :: "gc_heap \<Rightarrow> bool" where
  "graph_ok h \<longleftrightarrow> finite (dom (blocks h)) \<and> (\<forall>p\<in>dom (blocks h). p \<noteq> 0 \<and> in_arena h p \<and> get_pointer (make_pointer p) = p) \<and>
     (\<forall>p b. blocks h p = Some b \<longrightarrow> (\<exists>ws. traced h b = Some ws \<and> targets h ws \<subseteq> dom (blocks h)))"

text \<open>What marking a list of values has to achieve, from \<open>M\<close> to \<open>M'\<close>.\<close>

definition marks_ok :: "gc_heap \<Rightarrow> Value list \<Rightarrow> u64 set \<Rightarrow> u64 set \<Rightarrow> bool" where
  "marks_ok h vs M M' \<longleftrightarrow> M \<subseteq> M' \<and> targets h vs \<subseteq> M' \<and>
     (\<forall>p \<in> M' - M. reachable h vs p \<and> p \<in> dom (blocks h) \<and> succs h p \<subseteq> M')"

lemma targets_Nil [simp]: "targets h [] = {}"
  by (simp add: targets_def)

lemma targets_Cons: "targets h (v # vs) = targets h [v] \<union> targets h vs"
  by (auto simp: targets_def)

lemma targets_one:
  "targets h [v] = (if IS_POINTER v \<and> in_arena h (get_pointer v) then {get_pointer v} else {})"
  by (auto simp: targets_def)

lemma reachable_mono: "reachable h vs p \<Longrightarrow> targets h vs \<subseteq> Collect (reachable h ws) \<Longrightarrow> reachable h ws p"
  by (induction rule: reachable.induct) (auto intro: reach_edge)

lemma marks_okD:
  assumes "marks_ok h vs M M'"
  shows "M \<subseteq> M'" "targets h vs \<subseteq> M'" "p \<in> M' \<Longrightarrow> p \<notin> M \<Longrightarrow> reachable h vs p"
    "p \<in> M' \<Longrightarrow> p \<notin> M \<Longrightarrow> p \<in> dom (blocks h)" "p \<in> M' \<Longrightarrow> p \<notin> M \<Longrightarrow> succs h p \<subseteq> M'"
  using assms by (simp_all add: marks_ok_def)

lemma marks_okI:
  assumes "M \<subseteq> M'" "targets h vs \<subseteq> M'"
    and "\<And>p. p \<in> M' \<Longrightarrow> p \<notin> M \<Longrightarrow> reachable h vs p \<and> p \<in> dom (blocks h) \<and> succs h p \<subseteq> M'"
  shows "marks_ok h vs M M'"
  using assms by (simp add: marks_ok_def)

lemma marks_ok_Cons:
  assumes "marks_ok h [v] M M1" "marks_ok h vs M1 M2"
  shows "marks_ok h (v # vs) M M2"
proof (rule marks_okI)
  note a = marks_okD [OF assms(1)] and b = marks_okD [OF assms(2)]
  show "M \<subseteq> M2" "targets h (v # vs) \<subseteq> M2" unfolding targets_Cons [of h v vs] using a(1,2) b(1,2) by auto
  have t: "targets h [v] \<subseteq> Collect (reachable h (v # vs))" "targets h vs \<subseteq> Collect (reachable h (v # vs))"
    using reach_root [of _ h "v # vs"] unfolding targets_Cons [of h v vs] by auto
  fix p assume p: "p \<in> M2" "p \<notin> M"
  show "reachable h (v # vs) p \<and> p \<in> dom (blocks h) \<and> succs h p \<subseteq> M2"
  proof (cases "p \<in> M1")
    case True
    then show ?thesis using a(3-5) [OF True p(2)] reachable_mono [OF _ t(1)] b(1) by auto
  next
    case False
    then show ?thesis using b(3-5) [OF p(1) False] reachable_mono [OF _ t(2)] by auto
  qed
qed

text \<open>What is traced for a block contains its payload. The rest are elements of its data block.\<close>

lemma flat_simps [simp]: "flat [] = []" "flat (p # ps) = fst p # snd p # flat ps"
  by (simp_all add: flat_def split: prod.split)

lemma flat_take: "v \<in> set (flat (take n ps)) \<Longrightarrow> v \<in> set (flat ps)"
  by (induction ps arbitrary: n) (auto simp: take_Cons' split: if_splits)

lemma targets_mono: "set vs \<subseteq> set ws \<Longrightarrow> targets h vs \<subseteq> targets h ws"
  by (auto simp: targets_def)

lemma payload_traced:
  assumes "traced h b = Some ws"
  shows "targets h (payload b) \<subseteq> targets h ws"
proof -
  have "v \<in> set ws" if "v \<in> set (payload b)" "IS_POINTER v" for v
    using that assms by (cases b) (auto simp: traced_def pointer_val_def split: if_splits)
  then show ?thesis by (auto simp: targets_def)
qed

definition at_data :: "gc_heap \<Rightarrow> u64 \<Rightarrow> Value \<Rightarrow> bool" where
  "at_data h p v \<longleftrightarrow> (\<exists>d. blocks h p = Some d \<and> v \<in> set (payload d))"

lemma values_at_data:
  "values_at h p n = Some vs \<Longrightarrow> v \<in> set vs \<Longrightarrow> at_data h p v"
  "props_at h p n = Some ps \<Longrightarrow> v \<in> set (flat ps) \<Longrightarrow> at_data h p v"
  by (fastforce simp: at_data_def values_at_def props_at_def split: if_splits option.splits block.splits dest: in_set_takeD flat_take)+

lemma traced_payload:
  assumes "traced h b = Some ws" "v \<in> set ws"
  shows "v \<in> set (payload b) \<or> v = make_pointer 0 \<or> (\<exists>p. (p = 0 \<or> make_pointer p \<in> set (payload b)) \<and> at_data h p v)"
proof (cases b)
  case (GArray n p)
  then show ?thesis using assms values_at_data(1) [of h p n _ v] by (auto simp: traced_def pointer_val_def)
next
  case (GObject n p)
  then show ?thesis using assms values_at_data(2) [of h p n _ v] by (auto simp: traced_def pointer_val_def)
next
  case (GSet n p)
  then show ?thesis using assms values_at_data(1) [of h p n _ v] by (auto simp: traced_def pointer_val_def)
qed (use assms in \<open>auto simp: traced_def pointer_val_def split: if_splits\<close>)

lemma traced_reach:
  assumes g: "graph_ok h" and b: "blocks h p = Some b" "traced h b = Some ws" and p: "reachable h vs p"
  shows "targets h ws \<subseteq> Collect (reachable h vs)"
proof
  fix q assume "q \<in> targets h ws"
  then obtain v where v: "v \<in> set ws" "IS_POINTER v" "in_arena h (get_pointer v)" "q = get_pointer v"
    by (auto simp: targets_def)
  have step: "reachable h vs (get_pointer w)"
    if "reachable h vs r" "blocks h r = Some d" "w \<in> set (payload d)" "IS_POINTER w" "in_arena h (get_pointer w)" for r d w
    using that by (intro reach_edge [OF that(1)]) (auto simp: succs_def targets_def)
  have null: "blocks h 0 = None" using g unfolding graph_ok_def by blast
  have "q \<in> dom (blocks h)" using g b \<open>q \<in> targets h ws\<close> unfolding graph_ok_def by fastforce
  then have "v \<noteq> make_pointer 0" using null v(4) by auto
  then consider "v \<in> set (payload b)"
    | r d where "make_pointer r \<in> set (payload b)" "blocks h r = Some d" "v \<in> set (payload d)"
    using traced_payload [OF b(2) v(1)] null unfolding at_data_def by auto
  then show "q \<in> Collect (reachable h vs)"
  proof cases
    case 1
    then show ?thesis using step [OF p b(1)] v by simp
  next
    case 2
    have r: "in_arena h r" "get_pointer (make_pointer r) = r" using g 2(2) unfolding graph_ok_def by blast+
    then have "reachable h vs r" using step [OF p b(1) 2(1)] by simp
    then show ?thesis using step [OF _ 2(2,3)] v by simp
  qed
qed

text \<open>A block that is marked, with its values.\<close>

lemma marks_ok_block:
  assumes g: "graph_ok h" and "targets h [v] = {p}" "blocks h p = Some b" "traced h b = Some ws" "marks_ok h ws (insert p M) M'"
  shows "marks_ok h [v] M M'"
proof (rule marks_okI)
  note a = marks_okD [OF assms(5)]
  show "M \<subseteq> M'" "targets h [v] \<subseteq> M'" using a(1) assms(2) by auto
  have root: "reachable h [v] p" using assms(2) by (auto intro: reach_root)
  have succs: "succs h p \<subseteq> targets h ws" using assms(3) payload_traced [OF assms(4)] by (simp add: succs_def)
  have t: "targets h ws \<subseteq> Collect (reachable h [v])" using traced_reach [OF g assms(3,4) root] .
  fix q assume q: "q \<in> M'" "q \<notin> M"
  show "reachable h [v] q \<and> q \<in> dom (blocks h) \<and> succs h q \<subseteq> M'"
  proof (cases "q = p")
    case True
    then show ?thesis using root assms(3) succs a(2) by auto
  next
    case False
    then show ?thesis using a(3-5) [OF q(1)] q(2) reachable_mono [OF _ t] by auto
  qed
qed

lemma mark_list:
  assumes step: "\<And>v M. card (dom (blocks h) - M) < n \<Longrightarrow> targets h [v] \<subseteq> dom (blocks h) \<Longrightarrow>
      \<exists>M'. gc_mark_value h n v M = Some M' \<and> marks_ok h [v] M M'"
    and fin: "finite (dom (blocks h))"
  shows "card (dom (blocks h) - M) < n \<Longrightarrow> targets h vs \<subseteq> dom (blocks h) \<Longrightarrow>
    \<exists>M'. opt_fold (gc_mark_value h n) vs M = Some M' \<and> marks_ok h vs M M'"
proof (induction vs arbitrary: M)
  case Nil
  then show ?case by (simp add: marks_ok_def)
next
  case (Cons v vs)
  have t: "targets h [v] \<subseteq> dom (blocks h)" "targets h vs \<subseteq> dom (blocks h)"
    using Cons.prems(2) unfolding targets_Cons [of h v vs] by auto
  obtain M1 where M1: "gc_mark_value h n v M = Some M1" "marks_ok h [v] M M1"
    using step [OF Cons.prems(1) t(1)] by blast
  have "dom (blocks h) - M1 \<subseteq> dom (blocks h) - M" using M1(2) by (auto simp: marks_ok_def)
  then have "card (dom (blocks h) - M1) \<le> card (dom (blocks h) - M)" using fin by (intro card_mono) simp_all
  then have "card (dom (blocks h) - M1) < n" using Cons.prems(1) by simp
  from Cons.IH [OF this t(2)] obtain M2 where "opt_fold (gc_mark_value h n) vs M1 = Some M2" "marks_ok h vs M1 M2"
    by blast
  with M1 marks_ok_Cons [OF M1(2)] show ?case by simp
qed

lemma gc_mark_value_ok:
  assumes "graph_ok h"
  shows "card (dom (blocks h) - M) < n \<Longrightarrow> targets h [v] \<subseteq> dom (blocks h) \<Longrightarrow>
    \<exists>M'. gc_mark_value h n v M = Some M' \<and> marks_ok h [v] M M'"
proof (induction n arbitrary: v M)
  case (Suc n)
  have fin: "finite (dom (blocks h))" using assms by (simp add: graph_ok_def)
  show ?case
  proof (cases "IS_POINTER v \<and> in_arena h (get_pointer v) \<and> get_pointer v \<notin> M")
    case False
    then show ?thesis by (auto simp: marks_ok_def targets_one Let_def)
  next
    case True
    let ?p = "get_pointer v"
    have v: "targets h [v] = {?p}" using True by (simp add: targets_one)
    obtain b where b: "blocks h ?p = Some b" using Suc.prems(2) v by auto
    obtain ws where ws: "traced h b = Some ws" "targets h ws \<subseteq> dom (blocks h)"
      using assms b unfolding graph_ok_def by blast
    have "dom (blocks h) - insert ?p M \<subset> dom (blocks h) - M" using True b by auto
    then have "card (dom (blocks h) - insert ?p M) < card (dom (blocks h) - M)" using fin by (intro psubset_card_mono) auto
    then have "card (dom (blocks h) - insert ?p M) < n" using Suc.prems(1) by simp
    from mark_list [OF Suc.IH fin this ws(2)]
    obtain M' where M': "opt_fold (gc_mark_value h n) ws (insert ?p M) = Some M'" "marks_ok h ws (insert ?p M) M'" by blast
    have "marks_ok h [v] M M'" using marks_ok_block [OF assms v b ws(1) M'(2)] .
    with True b ws(1) M'(1) show ?thesis by (simp add: Let_def)
  qed
qed simp

lemma marks_are_reachable:
  assumes "graph_ok h" "targets h roots \<subseteq> dom (blocks h)"
  shows "opt_fold (gc_mark_value h (card (dom (blocks h)) + 1)) roots {} = Some (Collect (reachable h roots))"
proof -
  have fin: "finite (dom (blocks h))" using assms(1) by (simp add: graph_ok_def)
  obtain M where M: "opt_fold (gc_mark_value h (card (dom (blocks h)) + 1)) roots {} = Some M" "marks_ok h roots {} M"
    using mark_list [OF gc_mark_value_ok [OF assms(1)] fin _ assms(2), of "card (dom (blocks h)) + 1" "{}"] by auto
  have "p \<in> M" if "reachable h roots p" for p
    using that M(2) by (induction rule: reachable.induct) (auto simp: marks_ok_def)
  with M show ?thesis by (auto simp: marks_ok_def)
qed


text \<open>An array of the nursery that holds itself and a string, beside a string that nothing refers to.\<close>

definition demo_gc :: gc_heap where
  "demo_gc =
     \<lparr>blocks = [64 \<mapsto> GArray 2 128, 128 \<mapsto> GArrayData [make_pointer 64, make_pointer 192, VAL_UNDEFINED],
                192 \<mapsto> GString ''a'', 256 \<mapsto> GString ''b''],
      nursery_lo = 32, nursery_hi = 160, old_lo = 160, old_hi = 512\<rparr>"

lemma get_make_pointer_small:
  "get_pointer (make_pointer 64) = 64" "get_pointer (make_pointer 128) = 128" "get_pointer (make_pointer 192) = 192"
  by code_simp+

lemmas demo_gc_simps = demo_gc_def graph_ok_def targets_def traced_def values_at_def in_arena_def in_nursery_def
  in_old_def get_make_pointer_small

lemma demo_gc_ok: "graph_ok demo_gc" "targets demo_gc [make_pointer 64] \<subseteq> dom (blocks demo_gc)"
  by (auto simp: demo_gc_simps split: if_splits)

lemma demo_gc_card: "card (dom (blocks demo_gc)) = 4"
  by (simp add: demo_gc_def)


section \<open>A minor collection relocates the heap\<close>

text \<open>The values and pointers of a block that have to follow a minor collection, and the rest of the block. Half-float
  arrays, symbols, regular expressions, buffers and the names of errors are missing here as they are in the code.\<close>

definition target_vals :: "block \<Rightarrow> Value list" where
  "target_vals b = (case b of GFunction _ _ off p _ \<Rightarrow> if off \<noteq> NATIVE then [make_pointer p] else [] | _ \<Rightarrow> [])"

definition data_vals :: "block \<Rightarrow> Value list" where
  "data_vals b =
     (case b of GObject _ p \<Rightarrow> [make_pointer p] | GArray _ p \<Rightarrow> [make_pointer p] | GSet _ p \<Rightarrow> [make_pointer p]
      | GFunction _ _ _ _ p \<Rightarrow> [make_pointer p] | GError _ _ _ p \<Rightarrow> [make_pointer p] | _ \<Rightarrow> [])"

fun links :: "block \<Rightarrow> Value list" where
  "links (GArray _ p) = [make_pointer p]"
| "links (GArrayData vs) = vs"
| "links (GObject _ p) = [make_pointer p]"
| "links (GObjectData ps) = flat ps"
| "links (GSet _ p) = [make_pointer p]"
| "links (GPromise r cbs) = [r, cbs]"
| "links (GFunction e nm off c ps) = [e, nm] @ (if off = NATIVE then [] else [make_pointer c]) @ [make_pointer ps]"
| "links (GEnv e vs) = e # vs"
| "links (GIterator src cb it) = [src, cb, it]"
| "links (GError nm m st ps) = [m, st, make_pointer ps]"
| "links (GString _) = []"
| "links (GFloat16 _ _) = []"
| "links (GSymbol _) = []"
| "links (GRegExp _ _) = []"
| "links (GBuffer _) = []"
| "links GBufferData = []"

lemma links_views: "links b = cells b @ target_vals b @ data_vals b"
  by (cases b) (simp_all add: cells_def target_vals_def data_vals_def)

definition shape :: "block \<Rightarrow> block" where
  "shape b =
     (case b of
        GArray n _ \<Rightarrow> GArray n 0
      | GArrayData vs \<Rightarrow> GArrayData (map (\<lambda>_. 0) vs)
      | GObject n _ \<Rightarrow> GObject n 0
      | GObjectData ps \<Rightarrow> GObjectData (map (\<lambda>_. (0, 0)) ps)
      | GSet n _ \<Rightarrow> GSet n 0
      | GFunction _ _ off p _ \<Rightarrow> GFunction 0 0 off (if off \<noteq> NATIVE then 0 else p) 0
      | GEnv _ vs \<Rightarrow> GEnv 0 (map (\<lambda>_. 0) vs)
      | GPromise _ _ \<Rightarrow> GPromise 0 0
      | GIterator _ _ _ \<Rightarrow> GIterator 0 0 0
      | GError n _ _ _ \<Rightarrow> GError n 0 0 0
      | _ \<Rightarrow> b)"

text \<open>Where a value is after the collection, when \<open>F\<close> are the forwarding pointers: the values that do not point into
  the nursery stay as they are. During the collection a value may or may not have been replaced.\<close>

definition reloc :: "gc_heap \<Rightarrow> (u64 \<rightharpoonup> Value) \<Rightarrow> Value \<Rightarrow> Value option" where
  "reloc h F v = (if IS_POINTER v \<and> in_nursery h (get_pointer v) then F (get_pointer v) else Some v)"

definition moved :: "gc_heap \<Rightarrow> (u64 \<rightharpoonup> Value) \<Rightarrow> Value \<Rightarrow> Value \<Rightarrow> bool" where
  "moved h F v w \<longleftrightarrow> w = v \<or> reloc h F v = Some w"

definition tidied :: "gc_heap \<Rightarrow> (u64 \<rightharpoonup> Value) \<Rightarrow> block \<Rightarrow> block \<Rightarrow> bool" where
  "tidied h F b b' \<longleftrightarrow> shape b' = shape b \<and> list_all2 (moved h F) (cells b) (cells b') \<and>
     list_all2 (moved h F) (target_vals b) (target_vals b') \<and> list_all2 (moved h F) (data_vals b) (data_vals b')"

definition left :: "gc_heap \<Rightarrow> Value \<Rightarrow> bool" where
  "left h v \<longleftrightarrow> \<not> (IS_POINTER v \<and> in_nursery h (get_pointer v))"

definition clean :: "gc_heap \<Rightarrow> block \<Rightarrow> bool" where
  "clean h b \<longleftrightarrow> list_all (left h) (links b)"

definition targets_left :: "gc_heap \<Rightarrow> (u64 \<rightharpoonup> Value) \<Rightarrow> bool" where
  "targets_left h F \<longleftrightarrow> (\<forall>p w. F p = Some w \<longrightarrow> in_nursery h p \<and> IS_POINTER w \<and> \<not> in_nursery h (get_pointer w))"

lemma reloc_left: "left h v \<Longrightarrow> reloc h F v = Some v"
  by (auto simp: left_def reloc_def)

lemma left_reloc: "targets_left h F \<Longrightarrow> reloc h F v = Some w \<Longrightarrow> left h w"
  by (auto simp: left_def reloc_def targets_left_def split: if_splits)

lemma moved_refl [simp]: "moved h F v v"
  by (simp add: moved_def)

lemma moved_left: "targets_left h F \<Longrightarrow> moved h F v w \<Longrightarrow> left h v \<Longrightarrow> left h w"
  unfolding moved_def using left_reloc by blast

lemma moved_reloc: "moved h F v w \<Longrightarrow> left h w \<Longrightarrow> reloc h F v = Some w"
  unfolding moved_def using reloc_left by auto

lemma moved_trans: "targets_left h F \<Longrightarrow> moved h F v w \<Longrightarrow> moved h F w x \<Longrightarrow> moved h F v x"
  using left_reloc reloc_left by (fastforce simp: moved_def)

lemma moved_step: "moved h F v v' \<Longrightarrow> reloc h F v = Some w \<Longrightarrow> moved h F v' w"
  by (auto simp: moved_def)

lemma reloc_mono: "F \<subseteq>\<^sub>m F' \<Longrightarrow> reloc h F v = Some w \<Longrightarrow> reloc h F' v = Some w"
  by (auto simp: reloc_def map_le_def dom_def split: if_splits)

lemma moved_mono: "F \<subseteq>\<^sub>m F' \<Longrightarrow> moved h F v w \<Longrightarrow> moved h F' v w"
  by (auto simp: moved_def reloc_def map_le_def dom_def split: if_splits)

lemma tidied_refl: "tidied h F b b"
  by (simp add: tidied_def list_all2_same)

lemma tidied_trans: "targets_left h F \<Longrightarrow> tidied h F a b \<Longrightarrow> tidied h F b c \<Longrightarrow> tidied h F a c"
  unfolding tidied_def by (auto intro: list_all2_trans [OF moved_trans])

lemma tidied_mono: "F \<subseteq>\<^sub>m F' \<Longrightarrow> tidied h F a b \<Longrightarrow> tidied h F' a b"
  unfolding tidied_def by (metis list_all2_mono moved_mono)

lemma tidied_links: "tidied h F b b' \<Longrightarrow> list_all2 (moved h F) (links b) (links b')"
  by (simp add: tidied_def links_views list_all2_appendI)

lemma tidied_clean: "targets_left h F \<Longrightarrow> tidied h F b b' \<Longrightarrow> clean h b \<Longrightarrow> clean h b'"
  using tidied_links [of h F b b'] moved_left unfolding clean_def list_all2_conv_all_nth list_all_length by metis

text \<open>What writing one of the values does to the views of a block.\<close>

lemma length_flat [simp]: "length (flat ps) = 2 * length ps"
  by (induction ps) simp_all

lemma flat_update:
  "i < 2 * length ps \<Longrightarrow>
   flat (ps[i div 2 := (if even i then (v, snd (ps ! (i div 2))) else (fst (ps ! (i div 2)), v))]) = (flat ps)[i := v]"
proof (induction ps arbitrary: i)
  case (Cons p ps)
  show ?case
  proof (cases "i < 2")
    case True
    then have "i = 0 \<or> i = 1" by auto
    then show ?thesis by auto
  next
    case False
    then obtain j where j: "i = Suc (Suc j)" by (metis less_2_cases_iff not0_implies_Suc One_nat_def)
    have "flat (ps[j div 2 := (if even j then (v, snd (ps ! (j div 2))) else (fst (ps ! (j div 2)), v))]) = (flat ps)[j := v]"
      using Cons.prems j by (intro Cons.IH) simp
    then show ?thesis by (auto simp: j)
  qed
qed simp

lemma put_cell_views:
  "i < length (cells b) \<Longrightarrow> cells (put_cell i w b) = (cells b)[i := w]"
  "target_vals (put_cell i w b) = target_vals b" "data_vals (put_cell i w b) = data_vals b"
  "i < length (cells b) \<Longrightarrow> shape (put_cell i w b) = shape b"
proof -
  show "i < length (cells b) \<Longrightarrow> cells (put_cell i w b) = (cells b)[i := w]"
    using flat_update [of i _ w]
    by (cases b) (auto simp: cells_def put_cell_def nth_Cons list_update.simps less_Suc_eq split: nat.splits)
  show "i < length (cells b) \<Longrightarrow> shape (put_cell i w b) = shape b"
    by (cases b) (auto simp: cells_def put_cell_def shape_def map_update nth_list_update intro!: nth_equalityI)
qed (cases b; simp add: target_vals_def data_vals_def put_cell_def)+

lemma put_target_views:
  "cells (put_target p b) = cells b" "data_vals (put_target p b) = data_vals b" "shape (put_target p b) = shape b"
  "target_vals (put_target p b) = map (\<lambda>_. make_pointer p) (target_vals b)"
  by (cases b; simp add: cells_def target_vals_def data_vals_def put_target_def shape_def)+

lemma put_data_views:
  "cells (put_data p b) = cells b" "target_vals (put_data p b) = target_vals b" "shape (put_data p b) = shape b"
  "data_vals (put_data p b) = map (\<lambda>_. make_pointer p) (data_vals b)"
  by (cases b; simp add: cells_def target_vals_def data_vals_def put_data_def shape_def)+

lemma target_ptr_vals:
  "target_ptr b = Some p \<Longrightarrow> target_vals b = [make_pointer p]"
  "target_ptr b = None \<Longrightarrow> target_vals b = [] \<or> target_vals b = [make_pointer 0]"
  by (cases b; auto simp: target_vals_def target_ptr_def split: if_splits; fail)+

lemma data_ptr_vals:
  "data_ptr b = Some p \<Longrightarrow> data_vals b = [make_pointer p]"
  "data_ptr b = None \<Longrightarrow> data_vals b = [] \<or> data_vals b = [make_pointer 0]"
  by (cases b; auto simp: data_vals_def data_ptr_def split: if_splits; fail)+

text \<open>What is asked of \<open>arena_alloc_old_space\<close>: the copy is at an address outside the nursery, of at most 48 bits, where
  no block is.\<close>

definition same_spaces :: "gc_heap \<Rightarrow> gc_heap \<Rightarrow> bool" where
  "same_spaces h h' \<longleftrightarrow> (\<forall>p. in_nursery h' p = in_nursery h p) \<and> (\<forall>p. in_old h' p = in_old h p)"

definition allocates_old :: "old_alloc \<Rightarrow> bool" where
  "allocates_old alloc \<longleftrightarrow>
     (\<forall>h b q. alloc h b = Some q \<longrightarrow> \<not> in_nursery h q \<and> blocks h q = None \<and> get_pointer (make_pointer q) = q)"

text \<open>The state during a collection of \<open>h\<close>, and what a step of it achieves: blocks outside the nursery are only tidied,
  and the copies made in between are clean.\<close>

definition copied_from :: "gc_heap \<Rightarrow> minor \<Rightarrow> u64 \<Rightarrow> u64 \<Rightarrow> bool" where
  "copied_from h g p q \<longleftrightarrow> (\<exists>b b'. blocks h p = Some b \<and> block_at q g = Some b' \<and> tidied h (forward g) b b')"

definition minor_inv :: "gc_heap \<Rightarrow> minor \<Rightarrow> bool" where
  "minor_inv h g \<longleftrightarrow> same_spaces h (heap_of g) \<and> targets_left h (forward g) \<and>
     (\<forall>p. in_nursery h p \<longrightarrow> block_at p g = blocks h p) \<and>
     (\<forall>p w. forward g p = Some w \<longrightarrow> blocks h (get_pointer w) = None \<and> copied_from h g p (get_pointer w)) \<and>
     (\<forall>q. \<not> in_nursery h q \<longrightarrow> blocks h q \<noteq> None \<longrightarrow> copied_from h g q q) \<and>
     (\<forall>q b. block_at q g = Some b \<longrightarrow> blocks h q \<noteq> None \<or> (\<exists>p w. forward g p = Some w \<and> get_pointer w = q)) \<and>
     inj_on (\<lambda>p. map_option get_pointer (forward g p)) (dom (forward g))"

definition clean_at :: "gc_heap \<Rightarrow> u64 \<Rightarrow> minor \<Rightarrow> bool" where
  "clean_at h q g \<longleftrightarrow> (\<exists>b. block_at q g = Some b \<and> clean h b)"

definition progress :: "gc_heap \<Rightarrow> minor \<Rightarrow> minor \<Rightarrow> bool" where
  "progress h g g' \<longleftrightarrow> minor_inv h g' \<and> forward g \<subseteq>\<^sub>m forward g' \<and>
     (\<forall>q b. \<not> in_nursery h q \<longrightarrow> block_at q g = Some b \<longrightarrow>
        (\<exists>b'. block_at q g' = Some b' \<and> tidied h (forward g') b b')) \<and>
     (\<forall>p w. forward g' p = Some w \<longrightarrow> forward g p = None \<longrightarrow> clean_at h (get_pointer w) g')"

lemma progress_refl: "minor_inv h g \<Longrightarrow> progress h g g"
  by (auto simp: progress_def intro: tidied_refl)

lemma progress_inv: "progress h g g' \<Longrightarrow> minor_inv h g'"
  by (simp add: progress_def)

lemma minor_inv_left: "minor_inv h g \<Longrightarrow> targets_left h (forward g)"
  by (simp add: minor_inv_def)

lemma minor_inv_forward:
  "minor_inv h g \<Longrightarrow> forward g p = Some w \<Longrightarrow> in_nursery h p \<and> IS_POINTER w \<and> \<not> in_nursery h (get_pointer w)"
  by (simp add: minor_inv_def targets_left_def)

lemma progress_block:
  "progress h g g' \<Longrightarrow> \<not> in_nursery h q \<Longrightarrow> block_at q g = Some b \<Longrightarrow>
   \<exists>b'. block_at q g' = Some b' \<and> tidied h (forward g') b b'"
  by (simp add: progress_def)

lemma progress_clean:
  assumes "progress h g g'" "\<not> in_nursery h q" "clean_at h q g"
  shows "clean_at h q g'"
  using progress_block [OF assms(1,2)] assms(3) tidied_clean [OF minor_inv_left [OF progress_inv [OF assms(1)]]]
  unfolding clean_at_def by blast

lemma progress_trans:
  assumes "progress h g g1" "progress h g1 g2"
  shows "progress h g g2"
proof -
  note inv = progress_inv [OF assms(1)] progress_inv [OF assms(2)]
  have sub: "forward g1 \<subseteq>\<^sub>m forward g2" "forward g \<subseteq>\<^sub>m forward g1" using assms by (auto simp: progress_def)
  have "clean_at h (get_pointer w) g2" if "forward g2 p = Some w" "forward g p = None" for p w
  proof (cases "forward g1 p")
    case None
    then show ?thesis using assms(2) that(1) by (auto simp: progress_def)
  next
    case (Some w')
    then have "w' = w" using sub(1) that(1) by (auto simp: map_le_def dom_def)
    with Some that(2) assms(1) have "clean_at h (get_pointer w) g1" by (auto simp: progress_def)
    then show ?thesis using progress_clean [OF assms(2)] minor_inv_forward [OF inv(1) Some] \<open>w' = w\<close> by blast
  qed
  moreover have "\<exists>b'. block_at q g2 = Some b' \<and> tidied h (forward g2) b b'"
    if "\<not> in_nursery h q" "block_at q g = Some b" for q b
    using progress_block [OF assms(1) that] progress_block [OF assms(2) that(1)] tidied_mono [OF sub(1)]
      tidied_trans [OF minor_inv_left [OF inv(2)]] by blast
  moreover have "forward g \<subseteq>\<^sub>m forward g2" using sub map_le_trans by blast
  ultimately show ?thesis using inv(2) unfolding progress_def by blast
qed

lemma set_block_views [simp]:
  "block_at p (set_block q b g) = (if p = q then Some b else block_at p g)" "forward (set_block q b g) = forward g"
  "same_spaces h (heap_of (set_block q b g)) = same_spaces h (heap_of g)"
  by (simp_all add: block_at_def set_block_def same_spaces_def in_nursery_def in_old_def)

lemma copied_from_set_block:
  assumes "minor_inv h g" "block_at q g = Some b" "tidied h (forward g) b b'" "copied_from h g p r"
  shows "copied_from h (set_block q b' g) p r"
  using assms(2-4) tidied_trans [OF minor_inv_left [OF assms(1)]] unfolding copied_from_def by auto

lemma progress_set_block:
  assumes "minor_inv h g" "block_at q g = Some b" "tidied h (forward g) b b'" "\<not> in_nursery h q"
  shows "progress h g (set_block q b' g)"
proof -
  have "minor_inv h (set_block q b' g)"
    using assms(1,2,4) copied_from_set_block [OF assms(1-3)] unfolding minor_inv_def by (auto split: if_splits)
  then show ?thesis using assms(2,3) tidied_refl by (auto simp: progress_def)
qed

text \<open>What the two functions have to satisfy.\<close>

definition copies :: "gc_heap \<Rightarrow> (Value \<Rightarrow> minor \<Rightarrow> (Value \<times> minor) option) \<Rightarrow> bool" where
  "copies h cp \<longleftrightarrow>
     (\<forall>v g w g'. minor_inv h g \<longrightarrow> cp v g = Some (w, g') \<longrightarrow> progress h g g' \<and> reloc h (forward g') v = Some w)"

definition traces :: "gc_heap \<Rightarrow> (u64 \<Rightarrow> minor \<Rightarrow> minor option) \<Rightarrow> bool" where
  "traces h tr \<longleftrightarrow>
     (\<forall>q g g'. minor_inv h g \<longrightarrow> \<not> in_nursery h q \<longrightarrow> tr q g = Some g' \<longrightarrow> progress h g g' \<and> clean_at h q g')"

lemma copiesD:
  assumes "copies h cp" "minor_inv h g" "cp v g = Some (w, g')"
  shows "progress h g g'" "reloc h (forward g') v = Some w" "left h w"
proof -
  show p: "progress h g g'" "reloc h (forward g') v = Some w" using assms by (auto simp: copies_def)
  show "left h w" using left_reloc [OF minor_inv_left [OF progress_inv [OF p(1)]] p(2)] .
qed

text \<open>Writing a block whose values are those of the block before the copy, or relocated.\<close>

lemma copied_block:
  assumes g: "progress h g g1" and q: "\<not> in_nursery h q" "block_at q g = Some b" "block_at q g1 = Some b1"
    and t: "tidied h (forward g1) b b1 \<Longrightarrow> tidied h (forward g1) b1 b'"
  shows "progress h g (set_block q b' g1)" "tidied h (forward g1) b b'"
proof -
  have t1: "tidied h (forward g1) b b1" using progress_block [OF g q(1,2)] q(3) by auto
  show "progress h g (set_block q b' g1)"
    using g progress_set_block [OF progress_inv [OF g] q(3) t [OF t1] q(1)] progress_trans by blast
  show "tidied h (forward g1) b b'"
    using t1 t [OF t1] tidied_trans [OF minor_inv_left [OF progress_inv [OF g]]] by blast
qed

lemma copy_cell_ok:
  assumes cp: "copies h cp" and inv: "minor_inv h g" and q: "\<not> in_nursery h q" "block_at q g = Some b"
    and step: "copy_cell cp q i g = Some g'"
  obtains b' where "progress h g g'" "block_at q g' = Some b'" "tidied h (forward g') b b'" "left h (cells b' ! i)"
proof -
  obtain w g1 b1 where s: "i < length (cells b)" "cp (cells b ! i) g = Some (w, g1)" "block_at q g1 = Some b1"
    "g' = set_block q (put_cell i w b1) g1"
    using step q(2) by (auto simp: copy_cell_def split: if_splits bind_splits prod.splits)
  note c = copiesD [OF cp inv s(2)]
  have i: "i < length (cells b1)"
    using progress_block [OF c(1) q] s(1,3) by (auto simp: tidied_def dest: list_all2_lengthD)
  have t: "tidied h (forward g1) b1 (put_cell i w b1)" if "tidied h (forward g1) b b1"
    using that moved_step [OF _ c(2)] s(1) i
    by (auto simp: tidied_def put_cell_views list_all2_conv_all_nth nth_list_update)
  show ?thesis
  proof (rule that)
    show "progress h g g'" using copied_block(1) [OF c(1) q s(3) t] s(4) by simp
    show "block_at q g' = Some (put_cell i w b1)" by (simp add: s(4))
    show "tidied h (forward g') b (put_cell i w b1)" using copied_block(2) [OF c(1) q s(3) t] s(4) by simp
    show "left h (cells (put_cell i w b1) ! i)" using c(3) i by (simp add: put_cell_views)
  qed
qed

lemma copy_cells_ok:
  assumes cp: "copies h cp" and q: "\<not> in_nursery h q"
  shows "minor_inv h g \<Longrightarrow> block_at q g = Some b \<Longrightarrow> k + m = length (cells b) \<Longrightarrow> (\<forall>i<k. left h (cells b ! i)) \<Longrightarrow>
    opt_fold (copy_cell cp q) [k..<k + m] g = Some g' \<Longrightarrow>
    progress h g g' \<and> (\<exists>b'. block_at q g' = Some b' \<and> list_all (left h) (cells b'))"
proof (induction m arbitrary: k g b)
  case 0
  then show ?case using progress_refl by (auto simp: list_all_length)
next
  case (Suc m)
  have "[k..<k + Suc m] = k # [Suc k..<Suc k + m]" by (simp add: upt_conv_Cons del: upt_Suc)
  then obtain g1 where g1: "copy_cell cp q k g = Some g1" "opt_fold (copy_cell cp q) [Suc k..<Suc k + m] g1 = Some g'"
    using Suc.prems(5) by (cases "copy_cell cp q k g") (simp_all del: upt_Suc)
  obtain b1 where b1: "progress h g g1" "block_at q g1 = Some b1" "tidied h (forward g1) b b1" "left h (cells b1 ! k)"
    using copy_cell_ok [OF cp Suc.prems(1) q Suc.prems(2) g1(1)] .
  have len: "length (cells b1) = length (cells b)" using b1(3) by (auto simp: tidied_def dest: list_all2_lengthD)
  have "\<forall>i<length (cells b). moved h (forward g1) (cells b ! i) (cells b1 ! i)"
    using b1(3) by (simp add: tidied_def list_all2_conv_all_nth)
  then have "left h (cells b1 ! i)" if "i < k" for i
    using that Suc.prems(3,4) moved_left [OF minor_inv_left [OF progress_inv [OF b1(1)]], of "cells b ! i" "cells b1 ! i"] by simp
  then have "\<forall>i<Suc k. left h (cells b1 ! i)" using b1(4) by (simp add: less_Suc_eq)
  then have "progress h g1 g' \<and> (\<exists>b'. block_at q g' = Some b' \<and> list_all (left h) (cells b'))"
    using Suc.IH [OF progress_inv [OF b1(1)] b1(2) _ _ g1(2)] Suc.prems(3) len by simp
  then show ?case using b1(1) progress_trans by blast
qed

lemma make_get_pointer:
  assumes "IS_POINTER w"
  shows "make_pointer (get_pointer w) = w"
proof -
  have "drop_bit 48 w = TAG_POINTER" using assms by (simp add: kind_iff GET_TAG_def)
  then have "bit TAG_POINTER k = bit w (48 + k)" for k using bit_drop_bit_eq [of 48 w] by (simp add: comp_def)
  then show ?thesis
    unfolding make_pointer_def get_pointer_def value_masks
    by (simp only: flip: take_bit_eq_mask) (auto intro!: bit_word_eqI simp: bit_simps)
qed

text \<open>The raw pointers: \<open>sel\<close> is the view of the pointer that \<open>put\<close> writes.\<close>

definition raw_view :: "gc_heap \<Rightarrow> (block \<Rightarrow> Value list) \<Rightarrow> (u64 \<Rightarrow> block \<Rightarrow> block) \<Rightarrow> bool" where
  "raw_view h sel put \<longleftrightarrow>
     (\<forall>F b w. IS_POINTER w \<longrightarrow> list_all2 (moved h F) (sel b) [w] \<longrightarrow> tidied h F b (put (get_pointer w) b)) \<and>
     (\<forall>p b. sel (put p b) = map (\<lambda>_. make_pointer p) (sel b)) \<and>
     (\<forall>F b b'. tidied h F b b' \<longrightarrow> list_all2 (moved h F) (sel b) (sel b'))"

lemma copy_raw_ok:
  assumes cp: "copies h cp" and inv: "minor_inv h g" and q: "\<not> in_nursery h q" "block_at q g = Some b"
    and step: "copy_raw cp put q ptr g = Some (p, g')"
    and sel: "\<And>r. ptr = Some r \<Longrightarrow> sel b = [make_pointer r]"
    and view: "raw_view h sel put"
    and none: "ptr = None \<Longrightarrow> list_all (left h) (sel b)"
  shows "progress h g g'" "\<exists>b'. block_at q g' = Some b' \<and> tidied h (forward g') b b' \<and> list_all (left h) (sel b')"
    "p \<noteq> 0 \<Longrightarrow> \<not> in_nursery h p"
proof -
  have "progress h g g' \<and> (\<exists>b'. block_at q g' = Some b' \<and> tidied h (forward g') b b' \<and> list_all (left h) (sel b')) \<and>
    (p \<noteq> 0 \<longrightarrow> \<not> in_nursery h p)"
  proof (cases ptr)
    case None
    then show ?thesis using step q(2) none progress_refl [OF inv] tidied_refl by (auto simp: copy_raw_def)
  next
    case (Some r)
    then obtain w g1 b1 where s: "cp (make_pointer r) g = Some (w, g1)" "block_at q g1 = Some b1" "p = get_pointer w"
      "g' = set_block q (put p b1) g1"
      using step by (auto simp: copy_raw_def split: bind_splits)
    note c = copiesD [OF cp inv s(1)]
    have w: "IS_POINTER w"
      using c(2) minor_inv_forward [OF progress_inv [OF c(1)]] by (auto simp: reloc_def split: if_splits)
    have t: "tidied h (forward g1) b1 (put p b1)" if "tidied h (forward g1) b b1"
    proof -
      have "list_all2 (moved h (forward g1)) [make_pointer r] (sel b1)"
        using view that sel [OF Some] unfolding raw_view_def by metis
      then obtain v where "sel b1 = [v]" "moved h (forward g1) (make_pointer r) v" by (auto simp: list_all2_Cons1)
      then have "list_all2 (moved h (forward g1)) (sel b1) [w]" using moved_step [OF _ c(2)] by simp
      then show ?thesis using view w s(3) by (simp add: raw_view_def)
    qed
    have "list_all (left h) (sel (put p b1))"
      using c(3) w view by (simp add: raw_view_def s(3) make_get_pointer list_all_length)
    moreover have "\<not> in_nursery h p" using c(3) w s(3) by (simp add: left_def)
    ultimately show ?thesis using copied_block [OF c(1) q s(2) t] s(4) by simp
  qed
  then show "progress h g g'" "\<exists>b'. block_at q g' = Some b' \<and> tidied h (forward g') b b' \<and> list_all (left h) (sel b')"
    "p \<noteq> 0 \<Longrightarrow> \<not> in_nursery h p" by auto
qed

lemma target_view: "raw_view h target_vals put_target"
  unfolding raw_view_def
proof (intro conjI allI impI)
  fix F b w assume "IS_POINTER w" "list_all2 (moved h F) (target_vals b) [w]"
  then show "tidied h F b (put_target (get_pointer w) b)"
    by (auto simp: tidied_def put_target_views list_all2_same make_get_pointer list_all2_Cons2)
qed (simp_all add: put_target_views tidied_def)

lemma data_view: "raw_view h data_vals put_data"
  unfolding raw_view_def
proof (intro conjI allI impI)
  fix F b w assume "IS_POINTER w" "list_all2 (moved h F) (data_vals b) [w]"
  then show "tidied h F b (put_data (get_pointer w) b)"
    by (auto simp: tidied_def put_data_views list_all2_same make_get_pointer list_all2_Cons2)
qed (simp_all add: put_data_views tidied_def)

lemma null_vals_left:
  assumes "\<not> in_nursery h 0"
  shows "target_ptr b = None \<Longrightarrow> list_all (left h) (target_vals b)" "data_ptr b = None \<Longrightarrow> list_all (left h) (data_vals b)"
  using target_ptr_vals(2) [of b] data_ptr_vals(2) [of b] assms by (auto simp: left_def)

lemma moved_list_left:
  assumes "targets_left h F"
  shows "list_all2 (moved h F) vs ws \<Longrightarrow> list_all (left h) vs \<Longrightarrow> list_all (left h) ws"
  by (induction rule: list_all2_induct) (auto intro: moved_left [OF assms])

lemma trace_block_ok:
  assumes cp: "copies h cp" and tr: "traces h tr" and null: "\<not> in_nursery h 0"
  shows "traces h (trace_block cp tr)"
  unfolding traces_def
proof (intro allI impI)
  fix q g g'
  assume inv: "minor_inv h g" and q: "\<not> in_nursery h q" and step: "trace_block cp tr q g = Some g'"
  obtain b g1 b1 x g2 b2 p g3 where s: "block_at q g = Some b"
    "opt_fold (copy_cell cp q) [0..<length (cells b)] g = Some g1" "block_at q g1 = Some b1"
    "copy_raw cp put_target q (target_ptr b1) g1 = Some (x, g2)" "block_at q g2 = Some b2"
    "copy_raw cp put_data q (data_ptr b2) g2 = Some (p, g3)"
    "(if p \<noteq> 0 \<and> in_old (heap_of g3) p then tr p g3 else Some g3) = Some g'"
    using step by (auto simp: trace_block_def split: bind_splits)
  have 1: "progress h g g1" "list_all (left h) (cells b1)"
    using copy_cells_ok [OF cp q inv s(1), of 0 "length (cells b)" g1] s(2,3) by auto
  note t = copy_raw_ok [OF cp progress_inv [OF 1(1)] q s(3,4) target_ptr_vals(1) target_view null_vals_left(1) [OF null]]
  have 2: "progress h g1 g2" "tidied h (forward g2) b1 b2" "list_all (left h) (target_vals b2)"
    using t s(5) by auto
  note d = copy_raw_ok [OF cp progress_inv [OF 2(1)] q s(5,6) data_ptr_vals(1) data_view null_vals_left(2) [OF null]]
  obtain b3 where 3: "progress h g2 g3" "block_at q g3 = Some b3" "tidied h (forward g3) b2 b3"
    "list_all (left h) (data_vals b3)" "p \<noteq> 0 \<Longrightarrow> \<not> in_nursery h p"
    using d by auto
  have "list_all (left h) (cells b3)" "list_all (left h) (target_vals b3)"
    using 1(2) 2(2,3) 3(3) moved_list_left [OF minor_inv_left [OF progress_inv [OF 2(1)]]]
      moved_list_left [OF minor_inv_left [OF progress_inv [OF 3(1)]]] by (auto simp: tidied_def)
  with 3(2,4) have "clean_at h q g3" by (simp add: clean_at_def clean_def links_views)
  moreover have "progress h g3 g'"
    using s(7) tr 3(5) progress_inv [OF 3(1)] progress_refl unfolding traces_def by (auto split: if_splits)
  ultimately show "progress h g g' \<and> clean_at h q g'"
    using 1(1) 2(1) 3(1) progress_trans progress_clean [OF _ q] by blast
qed

lemma map_leD: "F \<subseteq>\<^sub>m G \<Longrightarrow> F x = Some y \<Longrightarrow> G x = Some y"
  by (auto simp: map_le_def dom_def)

lemma minor_inv_copy:
  assumes inv: "minor_inv h g" and p: "in_nursery h p" "forward g p = None" "block_at p g = Some b"
    and q: "\<not> in_nursery h q" "block_at q g = None" "get_pointer (make_pointer q) = q"
  shows "minor_inv h ((set_block q b g)\<lparr>forward := (forward g)(p \<mapsto> make_pointer q)\<rparr>)" (is "minor_inv h ?g")
proof -
  have at: "block_at r ?g = (if r = q then Some b else block_at r g)" for r
    using set_block_views(1) [of r q b g] by (simp add: block_at_def)
  have sub: "forward g \<subseteq>\<^sub>m forward ?g" using p(2) by (auto simp: map_le_def)
  have from_mono: "copied_from h ?g r s" if "copied_from h g r s" for r s
    using that q(2) tidied_mono [OF sub] unfolding copied_from_def by (auto simp: at)
  have from_block: "block_at s g \<noteq> None" if "copied_from h g r s" for r s
    using that by (auto simp: copied_from_def)
  have hq: "blocks h q = None" using inv q(1,2) from_block unfolding minor_inv_def by blast
  have "blocks h p = Some b" using inv p(1,3) by (simp add: minor_inv_def)
  then have new: "copied_from h ?g p q" using tidied_refl unfolding copied_from_def by (auto simp: at)
  have "same_spaces h (heap_of ?g)" using inv set_block_views(3) [of h q b g] by (simp add: minor_inv_def)
  moreover have "targets_left h (forward ?g)" using inv p(1) q(1,3) by (auto simp: minor_inv_def targets_left_def)
  moreover have "block_at r ?g = blocks h r" if "in_nursery h r" for r
    using that inv q(1) unfolding minor_inv_def by (auto simp: at)
  moreover have "blocks h (get_pointer w) = None \<and> copied_from h ?g r (get_pointer w)" if "forward ?g r = Some w" for r w
    using that inv new hq q(3) from_mono unfolding minor_inv_def by (auto split: if_splits)
  moreover have "copied_from h ?g r r" if "\<not> in_nursery h r" "blocks h r \<noteq> None" for r
    using that inv from_mono unfolding minor_inv_def by blast
  moreover have "blocks h r \<noteq> None \<or> (\<exists>s w. forward ?g s = Some w \<and> get_pointer w = r)" if "block_at r ?g = Some c" for r c
  proof (cases "r = q")
    case True
    then show ?thesis using q(3) by (auto intro!: exI [of _ p])
  next
    case False
    then have "blocks h r \<noteq> None \<or> (\<exists>s w. forward g s = Some w \<and> get_pointer w = r)"
      using that inv unfolding minor_inv_def at by simp
    then show ?thesis using map_leD [OF sub] by blast
  qed
  moreover have "inj_on (\<lambda>r. map_option get_pointer (forward ?g r)) (dom (forward ?g))"
  proof -
    have "get_pointer w \<noteq> q" if "forward g r = Some w" for r w
    proof
      assume "get_pointer w = q"
      then have "copied_from h g r q" using that inv unfolding minor_inv_def by blast
      then show False using from_block q(2) by blast
    qed
    moreover have "inj_on (\<lambda>r. map_option get_pointer (forward g r)) (dom (forward g))" using inv by (simp add: minor_inv_def)
    ultimately show ?thesis using q(3) p(2) unfolding inj_on_def by (simp add: dom_def) force
  qed
  ultimately show ?thesis unfolding minor_inv_def by blast
qed

lemma progress_after_copy:
  assumes t: "progress h ((set_block q b g)\<lparr>forward := (forward g)(p \<mapsto> w)\<rparr>) g'" (is "progress h ?g g'")
    and p: "forward g p = None" and q: "block_at q g = None" "get_pointer w = q" "clean_at h q g'"
  shows "progress h g g'"
proof -
  have at: "block_at r ?g = (if r = q then Some b else block_at r g)" for r
    using set_block_views(1) [of r q b g] by (simp add: block_at_def)
  have sub: "forward ?g \<subseteq>\<^sub>m forward g'" using t by (simp add: progress_def)
  then have w: "forward g' p = Some w" by (auto simp: map_le_def)
  have "forward g \<subseteq>\<^sub>m forward g'" using sub p by (auto simp: map_le_def dom_def split: if_splits)
  moreover have "\<exists>b'. block_at r g' = Some b' \<and> tidied h (forward g') c b'" if "\<not> in_nursery h r" "block_at r g = Some c" for r c
  proof (rule progress_block [OF t that(1)])
    show "block_at r ?g = Some c" using that(2) q(1) unfolding at by auto
  qed
  moreover have "clean_at h (get_pointer v) g'" if "forward g' r = Some v" "forward g r = None" for r v
    using that t q(2,3) w unfolding progress_def by (cases "r = p") auto
  ultimately show ?thesis using progress_inv [OF t] unfolding progress_def by blast
qed

lemma minor_functions_ok:
  assumes alloc: "allocates_old alloc" and null: "\<not> in_nursery h 0"
  shows "copies h (minor_copy_value alloc n) \<and> traces h (minor_trace_object alloc n)"
proof (induction n)
  case 0
  then show ?case by (simp add: copies_def traces_def)
next
  case (Suc n)
  have "traces h (minor_trace_object alloc (Suc n))"
    using trace_block_ok [OF _ _ null] Suc unfolding traces_def minor_trace_object.simps by blast
  moreover have "copies h (minor_copy_value alloc (Suc n))"
    unfolding copies_def
  proof (intro allI impI)
    fix v g w g'
    assume inv: "minor_inv h g" and step: "minor_copy_value alloc (Suc n) v g = Some (w, g')"
    let ?p = "get_pointer v"
    have space: "in_nursery (heap_of g) r = in_nursery h r" for r using inv by (simp add: minor_inv_def same_spaces_def)
    show "progress h g g' \<and> reloc h (forward g') v = Some w"
    proof (cases "IS_POINTER v \<and> in_nursery h ?p \<and> forward g ?p = None")
      case False
      then have "g' = g \<and> reloc h (forward g) v = Some w"
        using step by (auto simp: reloc_def Let_def space split: if_splits option.splits)
      then show ?thesis using progress_refl [OF inv] by simp
    next
      case True
      then obtain b q where s: "block_at ?p g = Some b" "alloc (heap_of g) b = Some q" "w = make_pointer q"
        "minor_trace_object alloc n q ((set_block q b g)\<lparr>forward := (forward g)(?p \<mapsto> w)\<rparr>) = Some g'"
        using step by (auto simp: Let_def space split: if_splits bind_splits)
      have q: "\<not> in_nursery h q" "block_at q g = None" "get_pointer w = q"
        using alloc s(2,3) space unfolding allocates_old_def block_at_def by auto
      let ?g = "(set_block q b g)\<lparr>forward := (forward g)(?p \<mapsto> w)\<rparr>"
      have "minor_inv h ?g" using minor_inv_copy [OF inv _ _ s(1) q(1,2)] True q(3) s(3) by simp
      then have t: "progress h ?g g'" "clean_at h q g'" using Suc s(4) q(1) unfolding traces_def by blast+
      have "forward g' ?p = Some w" using t(1) by (auto simp: progress_def map_le_def)
      moreover have "progress h g g'"
        using progress_after_copy [OF t(1) _ q(2) _ t(2)] True q(3) by simp
      ultimately show ?thesis using True by (simp add: reloc_def)
    qed
  qed
  ultimately show ?case by blast
qed

lemma copy_all_ok:
  assumes cp: "copies h cp"
  shows "minor_inv h g \<Longrightarrow> copy_all cp vs g = Some (ws, g') \<Longrightarrow> progress h g g' \<and> map (reloc h (forward g')) vs = map Some ws"
proof (induction vs arbitrary: g ws)
  case (Cons v vs)
  then obtain w g1 us where s: "cp v g = Some (w, g1)" "copy_all cp vs g1 = Some (us, g')" "ws = w # us"
    by (auto split: bind_splits)
  note c = copiesD [OF cp Cons.prems(1) s(1)]
  have i: "progress h g1 g'" "map (reloc h (forward g')) vs = map Some us" using Cons.IH [OF progress_inv [OF c(1)] s(2)] by auto
  have "reloc h (forward g') v = Some w"
    using c(2) i(1) by (auto simp: reloc_def progress_def intro: map_leD split: if_splits)
  then show ?case using c(1) i progress_trans s(3) by simp
qed (auto intro: progress_refl)

lemma trace_remembered_ok:
  assumes tr: "traces h (minor_trace_object alloc n)"
  shows "minor_inv h g \<Longrightarrow> opt_fold (trace_remembered alloc n) vs g = Some g' \<Longrightarrow>
    (\<forall>v\<in>set vs. IS_POINTER v \<longrightarrow> \<not> in_nursery h (get_pointer v)) \<Longrightarrow>
    progress h g g' \<and> (\<forall>v\<in>set vs. IS_POINTER v \<longrightarrow> clean_at h (get_pointer v) g')"
proof (induction vs arbitrary: g)
  case (Cons v vs)
  then obtain g1 where s: "trace_remembered alloc n v g = Some g1" "opt_fold (trace_remembered alloc n) vs g1 = Some g'"
    by (auto split: option.splits)
  have 1: "progress h g g1 \<and> (IS_POINTER v \<longrightarrow> clean_at h (get_pointer v) g1)"
    using s(1) tr Cons.prems(1,3) progress_refl by (auto simp: trace_remembered_def traces_def split: if_splits)
  have 2: "progress h g1 g'" "\<forall>v\<in>set vs. IS_POINTER v \<longrightarrow> clean_at h (get_pointer v) g'"
    using Cons.IH [OF progress_inv [OF conjunct1 [OF 1]] s(2)] Cons.prems(3) by simp_all
  have "IS_POINTER v \<longrightarrow> clean_at h (get_pointer v) g'" using 1 progress_clean [OF 2(1)] Cons.prems(3) by simp
  moreover have "progress h g g'" using 1 2(1) progress_trans by blast
  ultimately show ?case using 2(2) by simp
qed (auto intro: progress_refl)

text \<open>
  The heap after a collection is the heap before it with the pointers replaced: \<open>F\<close> maps the blocks of the
  nursery that survive to their copies, which are distinct, new and outside the nursery. Every block outside
  the nursery keeps its address. All of them have the contents they had, with the relocated values, and there are no
  other blocks.
\<close>

definition relocated_block :: "gc_heap \<Rightarrow> (u64 \<rightharpoonup> Value) \<Rightarrow> gc_heap \<Rightarrow> u64 \<Rightarrow> u64 \<Rightarrow> bool" where
  "relocated_block h F h' p q \<longleftrightarrow>
     (\<exists>b b'. blocks h p = Some b \<and> blocks h' q = Some b' \<and> shape b' = shape b \<and> map Some (links b') = map (reloc h F) (links b))"

definition relocated :: "gc_heap \<Rightarrow> (u64 \<rightharpoonup> Value) \<Rightarrow> gc_heap \<Rightarrow> bool" where
  "relocated h F h' \<longleftrightarrow> same_spaces h h' \<and> targets_left h F \<and>
     inj_on (\<lambda>p. map_option get_pointer (F p)) (dom F) \<and>
     (\<forall>p w. F p = Some w \<longrightarrow> blocks h (get_pointer w) = None \<and> relocated_block h F h' p (get_pointer w)) \<and>
     (\<forall>q. \<not> in_nursery h q \<longrightarrow> blocks h q \<noteq> None \<longrightarrow> relocated_block h F h' q q) \<and>
     (\<forall>q. blocks h' q \<noteq> None \<longrightarrow> \<not> in_nursery h q \<and> (blocks h q \<noteq> None \<or> (\<exists>p w. F p = Some w \<and> get_pointer w = q)))"

lemma clean_relocated:
  assumes "tidied h F b b'" "clean h b'"
  shows "shape b' = shape b \<and> map Some (links b') = map (reloc h F) (links b)"
proof -
  have "map Some (links b') = map (reloc h F) (links b)"
    using tidied_links [OF assms(1)] assms(2) moved_reloc
    by (auto simp: clean_def list_all2_conv_all_nth list_all_length intro!: nth_equalityI)
  then show ?thesis using assms(1) by (simp add: tidied_def)
qed

lemma relocated_at:
  assumes "copied_from h g p q" "clean_at h q g" "\<not> in_nursery (heap_of g) q"
  shows "relocated_block h (forward g) (empty_nursery (heap_of g)) p q"
  using assms clean_relocated unfolding relocated_block_def copied_from_def clean_at_def block_at_def empty_nursery_def by fastforce

lemma minor_done:
  assumes inv: "minor_inv h g" and new: "\<And>p w. forward g p = Some w \<Longrightarrow> clean_at h (get_pointer w) g"
    and old: "\<And>q. \<not> in_nursery h q \<Longrightarrow> blocks h q \<noteq> None \<Longrightarrow> clean_at h q g"
  shows "relocated h (forward g) (empty_nursery (heap_of g))"
proof -
  have space: "in_nursery (heap_of g) r = in_nursery h r" for r using inv by (simp add: minor_inv_def same_spaces_def)
  have "same_spaces h (empty_nursery (heap_of g))"
    using inv by (simp add: minor_inv_def same_spaces_def empty_nursery_def in_nursery_def in_old_def)
  moreover have "blocks h (get_pointer w) = None \<and> relocated_block h (forward g) (empty_nursery (heap_of g)) p (get_pointer w)"
    if "forward g p = Some w" for p w
    using relocated_at [of h g p "get_pointer w"] new [OF that] minor_inv_forward [OF inv that] inv that
    by (simp add: space minor_inv_def)
  moreover have "relocated_block h (forward g) (empty_nursery (heap_of g)) q q" if "\<not> in_nursery h q" "blocks h q \<noteq> None" for q
    using relocated_at [of h g q q] old [OF that] inv that by (simp add: space minor_inv_def)
  moreover have "\<not> in_nursery h q \<and> (blocks h q \<noteq> None \<or> (\<exists>p w. forward g p = Some w \<and> get_pointer w = q))"
    if "blocks (empty_nursery (heap_of g)) q \<noteq> None" for q
    using that inv by (auto simp: empty_nursery_def space minor_inv_def block_at_def split: if_splits)
  ultimately show ?thesis using inv unfolding relocated_def minor_inv_def by blast
qed

text \<open>The write barrier: a block outside the nursery that has a pointer into it is in the remembered set.\<close>

definition barrier_ok :: "gc_heap \<Rightarrow> Value list \<Rightarrow> bool" where
  "barrier_ok h remembered \<longleftrightarrow>
     (\<forall>v\<in>set remembered. IS_POINTER v \<longrightarrow> \<not> in_nursery h (get_pointer v)) \<and>
     (\<forall>q b. blocks h q = Some b \<longrightarrow> \<not> in_nursery h q \<longrightarrow>
        clean h b \<or> (\<exists>v\<in>set remembered. IS_POINTER v \<and> get_pointer v = q))"

lemma minor_inv_start: "minor_inv h \<lparr>heap_of = h, forward = Map.empty\<rparr>"
  using tidied_refl by (auto simp: minor_inv_def same_spaces_def targets_left_def block_at_def copied_from_def)

lemma keep_interned_ok:
  assumes "minor_inv h g" "w \<in> set (keep_interned g strs)"
  shows "left h w \<and> (\<exists>v\<in>set strs. w = v \<or> forward g (get_pointer v) = Some w)"
proof -
  obtain v where v: "v \<in> set strs" "if in_nursery (heap_of g) (get_pointer v) then forward g (get_pointer v) = Some w else w = v"
    using assms(2) by (auto simp: keep_interned_def split: if_splits option.splits)
  then have "left h w" using assms(1) minor_inv_forward [OF assms(1)]
    by (auto simp: left_def minor_inv_def same_spaces_def split: if_splits)
  with v show ?thesis by (auto split: if_splits)
qed


text \<open>A bump allocator of the old space serves the demonstration heap.\<close>

definition demo_alloc :: old_alloc where
  "demo_alloc h b =
     find (\<lambda>q. \<not> in_nursery h q \<and> blocks h q = None) [320, 384, 448]"

definition demo_regexp :: gc_heap where
  "demo_regexp = \<lparr>blocks = [64 \<mapsto> GRegExp (make_pointer 128) VAL_UNDEFINED, 128 \<mapsto> GString ''a''],
     nursery_lo = 32, nursery_hi = 160, old_lo = 160, old_hi = 512\<rparr>"

lemma demo_alloc_old: "allocates_old demo_alloc"
  unfolding allocates_old_def demo_alloc_def
proof (intro allI impI)
  fix h b q
  assume "find (\<lambda>q. \<not> in_nursery h q \<and> blocks h q = None) [320, 384, 448] = Some q"
  then have "\<not> in_nursery h q \<and> blocks h q = None" "q \<in> set [320, 384, 448]" by (auto simp: find_Some_iff split: if_splits)
  then show "\<not> in_nursery h q \<and> blocks h q = None \<and> get_pointer (make_pointer q) = q" by auto
qed

lemma demo_barrier: "barrier_ok demo_gc []" "\<not> in_nursery demo_gc 0"
  by (auto simp: barrier_ok_def demo_gc_def in_nursery_def clean_def links_views cells_def target_vals_def data_vals_def split: if_splits)


text \<open>The trace of the minor collection has no case for regular expressions, symbols and buffers: the copy of a regular
  expression keeps the address its source text had in the nursery, which is then empty.\<close>

lemma regexp_source_dangles:
  "map_option (\<lambda>(roots, _, _, h). (roots, blocks h 320, in_nursery h 128, blocks h 128))
     (gc_minor demo_alloc 6 [make_pointer 64] [] [] [] demo_regexp) =
   Some ([make_pointer 320], Some (GRegExp (make_pointer 128) VAL_UNDEFINED), True, None)"
  by code_simp

end
