(* ===== verification/String_Builtins.thy ===== *)
theory String_Builtins
  imports JS_Values "HOL-Library.Monad_Syntax"
begin

text \<open>
  The string methods of \<open>src/src/builtins.c\<close>. A method takes the bound on the depth of \<open>value_to_string\<close> where it
  converts an argument, the receiver, the arguments and the heap. \<open>None\<close> is what C leaves undefined: a receiver that
  is no string where the method does not check it, a double outside the range of \<open>int\<close>, a copy past the end of a
  buffer or a read of bytes never written. Allocation in the C heap succeeds. The root pushes around calls are left
  out, as in the object layer.
\<close>

section \<open>Arguments and C strings\<close>

definition i32 :: "int \<Rightarrow> int" where
  "i32 x = sint (word_of_int x :: u32)"

definition int_or :: "int \<Rightarrow> Value \<Rightarrow> int option" where
  "int_or dflt v =
     (if IS_INTEGER v then Some (sint (get_integer v))
      else if IS_DOUBLE v then f64_to_int32 (get_double v) else Some dflt)"

definition int_arg :: "Value list \<Rightarrow> nat \<Rightarrow> int \<Rightarrow> int option" where
  "int_arg args k dflt = (if k < length args then int_or dflt (args ! k) else Some dflt)"

text \<open>Only integer values count: \<open>arg_count > k && IS_INTEGER(args[k])\<close>.\<close>

definition given_int :: "Value list \<Rightarrow> nat \<Rightarrow> int option" where
  "given_int args k = (if k < length args \<and> IS_INTEGER (args ! k) then Some (sint (get_integer (args ! k))) else None)"

definition text_of :: "nat \<Rightarrow> Value \<Rightarrow> heap \<Rightarrow> (string \<times> heap) option" where
  "text_of depth v h = do { (sv, h) \<leftarrow> value_to_string depth v h; s \<leftarrow> str_of h sv; Some (s, h) }"

fun texts_of :: "nat \<Rightarrow> Value list \<Rightarrow> heap \<Rightarrow> (string list \<times> heap) option" where
  "texts_of depth [] h = Some ([], h)"
| "texts_of depth (v # vs) h = do { (s, h) \<leftarrow> text_of depth v h; (ss, h) \<leftarrow> texts_of depth vs h; Some (s # ss, h) }"

text \<open>The receiver: \<open>dflt\<close> unless it is a pointer to a string.\<close>

definition on_string :: "Value \<Rightarrow> Value \<Rightarrow> heap \<Rightarrow> (string \<Rightarrow> (Value \<times> heap) option) \<Rightarrow> (Value \<times> heap) option" where
  "on_string dflt this h body =
     (if \<not> IS_POINTER this then Some (dflt, h)
      else case deref h this of None \<Rightarrow> None | Some (OString s) \<Rightarrow> body s | Some _ \<Rightarrow> Some (dflt, h))"

text \<open>\<open>strstr\<close>: the first place where \<open>w\<close> stands in \<open>s\<close>.\<close>

fun find_sub :: "string \<Rightarrow> string \<Rightarrow> nat option" where
  "find_sub [] w = (if w = [] then Some 0 else None)"
| "find_sub (c # s) w = (if take (length w) (c # s) = w then Some 0 else map_option Suc (find_sub s w))"

definition strstr :: "string \<Rightarrow> string \<Rightarrow> nat option" where
  "strstr s w = find_sub (c_text s) (c_text w)"

text \<open>\<open>memcmp(p, w, n) == 0\<close> where \<open>p\<close> has the bytes \<open>xs\<close> before it leaves its string: the comparison stops at the first
  difference.\<close>

fun mem_eq :: "string \<Rightarrow> string \<Rightarrow> bool option" where
  "mem_eq xs [] = Some True"
| "mem_eq [] (w # ws) = None"
| "mem_eq (x # xs) (w # ws) = (if x = w then mem_eq xs ws else Some False)"

definition bool_value :: "bool \<Rightarrow> Value" where
  "bool_value b = (if b then VAL_TRUE else VAL_FALSE)"

section \<open>Characters and concatenation\<close>

definition js_string_at :: "Value \<Rightarrow> Value list \<Rightarrow> heap \<Rightarrow> (Value \<times> heap) option" where
  "js_string_at this args h =
     (if \<not> IS_POINTER this \<or> args = [] then Some (VAL_UNDEFINED, h)
      else do {
        s \<leftarrow> str_of h this;
        idx \<leftarrow> int_or 0 (args ! 0);
        let idx = (if idx < 0 then i32 (int (length s) + idx) else idx);
        if idx < 0 \<or> idx \<ge> i32 (int (length s)) then Some (VAL_UNDEFINED, h) else Some (create_string [s ! nat idx] h)
      })"

definition js_string_char_at :: "Value \<Rightarrow> Value list \<Rightarrow> heap \<Rightarrow> (Value \<times> heap) option" where
  "js_string_char_at this args h =
     (if \<not> IS_POINTER this then Some (create_string [] h)
      else do {
        s \<leftarrow> str_of h this;
        let idx = (case given_int args 0 of Some i \<Rightarrow> i | None \<Rightarrow> 0);
        Some (create_string (if idx < 0 \<or> idx \<ge> i32 (int (length s)) then [] else [s ! nat idx]) h)
      })"

definition js_string_char_code_at :: "Value \<Rightarrow> Value list \<Rightarrow> heap \<Rightarrow> (Value \<times> heap) option" where
  "js_string_char_code_at this args h =
     (if \<not> IS_POINTER this then Some (make_integer (-1), h)
      else do {
        s \<leftarrow> str_of h this;
        let idx = (case given_int args 0 of Some i \<Rightarrow> i | None \<Rightarrow> 0);
        Some (make_integer (if idx < 0 \<or> idx \<ge> i32 (int (length s)) then -1 else of_nat (of_char (s ! nat idx))), h)
      })"

text \<open>The arguments are converted once for their lengths and once for \<open>strcat\<close>, which stops at a terminator; then the
  buffer is not filled up to the length.\<close>

definition js_string_concat_method :: "nat \<Rightarrow> Value \<Rightarrow> Value list \<Rightarrow> heap \<Rightarrow> (Value \<times> heap) option" where
  "js_string_concat_method depth this args h =
     (if \<not> IS_POINTER this then Some (VAL_UNDEFINED, h)
      else do {
        s \<leftarrow> str_of h this;
        (ss, h) \<leftarrow> texts_of depth args h;
        let total = length s + sum_list (map length ss);
        (ss, h) \<leftarrow> texts_of depth args h;
        let buf = c_text s @ concat (map c_text ss);
        if length buf = total then Some (create_string buf h) else None
      })"

definition js_string_constructor :: "nat \<Rightarrow> Value list \<Rightarrow> heap \<Rightarrow> (Value \<times> heap) option" where
  "js_string_constructor depth args h =
     (case args of [] \<Rightarrow> Some (create_string [] h) | v # _ \<Rightarrow> value_to_string depth v h)"

definition js_string_to_string :: "nat \<Rightarrow> Value \<Rightarrow> heap \<Rightarrow> (Value \<times> heap) option" where
  "js_string_to_string depth this h =
     (if \<not> IS_POINTER this then Some (VAL_UNDEFINED, h)
      else case deref h this of None \<Rightarrow> None | Some (OString _) \<Rightarrow> Some (this, h) | Some _ \<Rightarrow> value_to_string depth this h)"

text \<open>The conversion of a value to \<open>char\<close>.\<close>

definition char_code :: "Value \<Rightarrow> char option" where
  "char_code v =
     (if IS_INTEGER v then Some (char_of (unat (ucast (get_integer v) :: u8)))
      else if IS_DOUBLE v
      then map_option (\<lambda>i. char_of (unat (word_of_int i :: u8))) (f64_to_range (- 128) 128 (get_double v))
      else Some NUL)"

fun char_codes :: "Value list \<Rightarrow> string option" where
  "char_codes [] = Some []"
| "char_codes (v # vs) = do { c \<leftarrow> char_code v; cs \<leftarrow> char_codes vs; Some (c # cs) }"

definition js_string_from_char_code :: "Value list \<Rightarrow> heap \<Rightarrow> (Value \<times> heap) option" where
  "js_string_from_char_code args h = map_option (\<lambda>s. create_string s h) (char_codes args)"

section \<open>Searching\<close>

definition js_string_ends_with :: "nat \<Rightarrow> Value \<Rightarrow> Value list \<Rightarrow> heap \<Rightarrow> (Value \<times> heap) option" where
  "js_string_ends_with depth this args h =
     (if args = [] then Some (VAL_FALSE, h)
      else on_string VAL_FALSE this h (\<lambda>s. do {
        (w, h) \<leftarrow> text_of depth (args ! 0) h;
        let len = i32 (int (length s));
        let end_pos = (case given_int args 1 of
             Some e \<Rightarrow> (let e = (if e > len then len else e) in if e < 0 then 0 else e) | None \<Rightarrow> len);
        if w = [] then Some (VAL_TRUE, h)
        else if int (length w) > end_pos mod 2 ^ 32 then Some (VAL_FALSE, h)
        else do {
          m \<leftarrow> mem_eq (drop (nat end_pos - length w) (s @ [NUL])) w;
          Some (bool_value m, h)
        }
      }))"

definition js_string_starts_with :: "nat \<Rightarrow> Value \<Rightarrow> Value list \<Rightarrow> heap \<Rightarrow> (Value \<times> heap) option" where
  "js_string_starts_with depth this args h =
     (if args = [] then Some (VAL_FALSE, h)
      else on_string VAL_FALSE this h (\<lambda>s. do {
        (w, h) \<leftarrow> text_of depth (args ! 0) h;
        let len = i32 (int (length s));
        let start_pos = (case given_int args 1 of
             Some e \<Rightarrow> (let e = (if e < 0 then 0 else e) in if e > len then len else e) | None \<Rightarrow> 0);
        if w = [] then Some (VAL_TRUE, h)
        else if (start_pos + int (length w)) mod 2 ^ 32 > int (length s) then Some (VAL_FALSE, h)
        else do {
          m \<leftarrow> mem_eq (drop (nat start_pos) (s @ [NUL])) w;
          Some (bool_value m, h)
        }
      }))"

text \<open>Both arguments of a search have to be strings.\<close>

definition both_strings ::
  "Value \<Rightarrow> Value \<Rightarrow> Value list \<Rightarrow> heap \<Rightarrow> (string \<Rightarrow> string \<Rightarrow> (Value \<times> heap) option) \<Rightarrow> (Value \<times> heap) option" where
  "both_strings dflt this args h body =
     (if \<not> IS_POINTER this \<or> args = [] \<or> \<not> IS_POINTER (args ! 0) then Some (dflt, h)
      else case (deref h this, deref h (args ! 0)) of
             (Some (OString s), Some (OString w)) \<Rightarrow> body s w
           | (Some _, Some _) \<Rightarrow> Some (dflt, h)
           | _ \<Rightarrow> None)"

definition js_string_includes :: "Value \<Rightarrow> Value list \<Rightarrow> heap \<Rightarrow> (Value \<times> heap) option" where
  "js_string_includes this args h =
     both_strings VAL_FALSE this args h (\<lambda>s w. Some (bool_value (strstr s w \<noteq> None), h))"

definition js_string_index_of :: "Value \<Rightarrow> Value list \<Rightarrow> heap \<Rightarrow> (Value \<times> heap) option" where
  "js_string_index_of this args h =
     both_strings (make_integer (-1)) this args h (\<lambda>s w.
       Some (make_integer
         (if w = [] then 0 else if length w > length s then -1
          else case strstr s w of Some k \<Rightarrow> of_nat k | None \<Rightarrow> -1), h))"

text \<open>The loop from \<open>i\<close> down to zero.\<close>

fun last_match :: "string \<Rightarrow> string \<Rightarrow> nat \<Rightarrow> nat option" where
  "last_match s w 0 = (if take (length w) s = w then Some 0 else None)"
| "last_match s w (Suc i) = (if take (length w) (drop (Suc i) s) = w then Some (Suc i) else last_match s w i)"

definition js_string_last_index_of :: "nat \<Rightarrow> Value \<Rightarrow> Value list \<Rightarrow> heap \<Rightarrow> (Value \<times> heap) option" where
  "js_string_last_index_of depth this args h =
     (if args = [] then Some (make_integer (-1), h)
      else on_string (make_integer (-1)) this h (\<lambda>s. do {
        (w, h) \<leftarrow> text_of depth (args ! 0) h;
        let len = i32 (int (length s));
        pos \<leftarrow> int_arg args 1 len;
        let pos = (if pos > len then len else pos);
        let pos = (if pos < 0 then 0 else pos);
        if w = [] then Some (make_integer (word_of_int pos), h)
        else if length w > length s then Some (make_integer (-1), h)
        else let gap = i32 (int (length s) - int (length w)); start = (if pos > gap then gap else pos)
             in Some (make_integer (if start < 0 then -1
                  else case last_match s w (nat start) of Some i \<Rightarrow> of_nat i | None \<Rightarrow> -1), h)
      }))"

section \<open>Padding, repeating and replacing\<close>

function pad_fill :: "string \<Rightarrow> nat \<Rightarrow> string" where
  "pad_fill pad n = (if pad = [] then [] else if n > length pad then pad @ pad_fill pad (n - length pad) else take n pad)"
  by pat_completeness auto
termination
  by (relation "measure snd") auto

declare pad_fill.simps [simp del]

text \<open>The two paddings up to the last copy: \<open>build\<close> joins the string and the filling.\<close>

definition js_string_pad ::
  "(string \<Rightarrow> string \<Rightarrow> string) \<Rightarrow> nat \<Rightarrow> Value \<Rightarrow> Value list \<Rightarrow> heap \<Rightarrow> (Value \<times> heap) option" where
  "js_string_pad build depth this args h =
     on_string VAL_UNDEFINED this h (\<lambda>s. do {
       target_len \<leftarrow> int_arg args 0 0;
       if target_len \<le> i32 (int (length s)) then Some (this, h)
       else do {
         (pad, h) \<leftarrow> (if length args > 1 \<and> args ! 1 \<noteq> VAL_UNDEFINED then text_of depth (args ! 1) h else Some ('' '', h));
         if pad = [] then Some (this, h)
         else Some (create_string (build s (pad_fill pad (nat target_len - length s))) h)
       }
     })"

definition js_string_pad_end :: "nat \<Rightarrow> Value \<Rightarrow> Value list \<Rightarrow> heap \<Rightarrow> (Value \<times> heap) option" where
  "js_string_pad_end = js_string_pad (\<lambda>s fill. s @ fill)"

definition js_string_pad_start :: "nat \<Rightarrow> Value \<Rightarrow> Value list \<Rightarrow> heap \<Rightarrow> (Value \<times> heap) option" where
  "js_string_pad_start = js_string_pad (\<lambda>s fill. fill @ s)"

text \<open>\<open>str->length * count\<close> is a product of 32 bits: when it wraps around, the copies leave the buffer.\<close>

definition js_string_repeat :: "Value \<Rightarrow> Value list \<Rightarrow> heap \<Rightarrow> (Value \<times> heap) option" where
  "js_string_repeat this args h =
     on_string VAL_UNDEFINED this h (\<lambda>s. do {
       n \<leftarrow> int_arg args 0 0;
       if n \<le> 0 then Some (create_string [] h)
       else if s = [] then Some (this, h)
       else if int (length s) * n < 2 ^ 32 then Some (create_string (concat (replicate (nat n) s)) h)
       else None
     })"

text \<open>\<open>re_exec\<close> stands for \<open>regexec\<close> on the pattern compiled for a regular expression object: \<open>None\<close> for an object without a
  compiled pattern, else the bounds of the first match.\<close>

type_synonym re_exec = "Value \<Rightarrow> (string \<Rightarrow> (nat \<times> nat) option) option"

definition splice_text :: "string \<Rightarrow> nat \<Rightarrow> nat \<Rightarrow> string \<Rightarrow> string" where
  "splice_text s so eo rep = take so s @ rep @ drop eo s"

definition replace_text :: "nat \<Rightarrow> Value \<Rightarrow> string \<Rightarrow> Value list \<Rightarrow> heap \<Rightarrow> (Value \<times> heap) option" where
  "replace_text depth this s args h =
     do {
       (w, h) \<leftarrow> text_of depth (args ! 0) h;
       (rep, h) \<leftarrow> text_of depth (args ! 1) h;
       case strstr s w of
         None \<Rightarrow> Some (this, h)
       | Some k \<Rightarrow> if k + length w \<le> length s then Some (create_string (splice_text s k (k + length w) rep) h) else None
     }"

definition js_string_replace :: "re_exec \<Rightarrow> nat \<Rightarrow> Value \<Rightarrow> Value list \<Rightarrow> heap \<Rightarrow> (Value \<times> heap) option" where
  "js_string_replace re_exec depth this args h =
     (if \<not> IS_POINTER this \<or> length args < 2 then Some (this, h)
      else do {
        s \<leftarrow> str_of h this;
        if \<not> IS_POINTER (args ! 0) then replace_text depth this s args h
        else do {
          ob \<leftarrow> deref h (args ! 0);
          case (ob, re_exec (args ! 0)) of
            (ORegExp _ _ _ _ _ _, Some match) \<Rightarrow>
              (case match (c_text s) of
                 None \<Rightarrow> Some (this, h)
               | Some (so, eo) \<Rightarrow>
                   do { (rep, h) \<leftarrow> text_of depth (args ! 1) h; Some (create_string (splice_text s so eo rep) h) })
          | _ \<Rightarrow> replace_text depth this s args h
        }
      })"

text \<open>
  The loop of \<open>replaceAll\<close>: \<open>pos\<close> is \<open>cur - str->data\<close>, \<open>buf\<close> the bytes written and \<open>cap\<close> the size of the buffer. The capacity
  is doubled once if the next copy does not fit; when that is not enough, the copy leaves the buffer.
\<close>

function replace_loop :: "string \<Rightarrow> string \<Rightarrow> string \<Rightarrow> nat \<Rightarrow> nat \<Rightarrow> string \<Rightarrow> (string \<times> nat) option" where
  "replace_loop s w rep cap pos buf =
     (if w = [] \<or> pos > length s then None
      else case strstr (drop pos s) w of
             None \<Rightarrow> Some (buf, pos)
           | Some k \<Rightarrow>
               let cap = (if length buf + k + length rep + 1 > cap then cap * 2 else cap)
               in if length buf + k + length rep > cap then None
                  else replace_loop s w rep cap (pos + k + length w) (buf @ take k (drop pos s) @ rep))"
  by pat_completeness auto
termination
  by (relation "measure (\<lambda>(s, w, rep, cap, pos, buf). length s + 1 - pos)") (auto intro!: diff_less_mono2)

declare replace_loop.simps [simp del]

definition js_string_replace_all :: "nat \<Rightarrow> Value \<Rightarrow> Value list \<Rightarrow> heap \<Rightarrow> (Value \<times> heap) option" where
  "js_string_replace_all depth this args h =
     (if \<not> IS_POINTER this \<or> length args < 2 then Some (this, h)
      else do {
        s \<leftarrow> str_of h this;
        (w, h) \<leftarrow> text_of depth (args ! 0) h;
        (rep, h) \<leftarrow> text_of depth (args ! 1) h;
        if w = [] then Some (this, h)
        else do {
          (buf, pos) \<leftarrow> replace_loop s w rep (length s * 2 + 1) 0 [];
          Some (create_string (buf @ c_text (drop pos s)) h)
        }
      })"

section \<open>Parts of a string\<close>

definition js_string_slice :: "Value \<Rightarrow> Value list \<Rightarrow> heap \<Rightarrow> (Value \<times> heap) option" where
  "js_string_slice this args h =
     on_string VAL_UNDEFINED this h (\<lambda>s. do {
       let len = i32 (int (length s));
       start \<leftarrow> int_arg args 0 0;
       fin \<leftarrow> int_arg args 1 len;
       let start = (if start < 0 then i32 (int (length s) + start) else start);
       let fin = (if fin < 0 then i32 (int (length s) + fin) else fin);
       let start = (if start < 0 then 0 else start);
       let fin = (if fin < 0 then 0 else fin);
       let start = (if start > len then len else start);
       let fin = (if fin > len then len else fin);
       if start \<ge> fin then Some (create_string [] h)
       else Some (create_string (take (nat (fin - start)) (drop (nat start) s)) h)
     })"

definition js_string_substring :: "Value \<Rightarrow> Value list \<Rightarrow> heap \<Rightarrow> (Value \<times> heap) option" where
  "js_string_substring this args h =
     on_string VAL_UNDEFINED this h (\<lambda>s.
       if args = [] then Some (this, h)
       else do {
         let len = i32 (int (length s));
         start \<leftarrow> int_arg args 0 0;
         fin \<leftarrow> int_arg args 1 len;
         let start = (if start < 0 then 0 else start);
         let fin = (if fin < 0 then 0 else fin);
         let start = (if start > len then len else start);
         let fin = (if fin > len then len else fin);
         let (start, fin) = (if start > fin then (fin, start) else (start, fin));
         if fin - start \<le> 0 then Some (create_string [] h)
         else Some (create_string (take (nat (fin - start)) (drop (nat start) s)) h)
       })"

text \<open>
  The scan of \<open>split\<close>: the parts and whether a trailing delimiter adds the empty string. The test
  \<open>i <= str->length - delim->length\<close> is one of 32 bits without sign.
\<close>

function split_loop :: "string \<Rightarrow> string \<Rightarrow> nat \<Rightarrow> nat \<Rightarrow> string list \<Rightarrow> (string list \<times> bool) option" where
  "split_loop s d i start parts =
     (if d = [] \<or> i > length s then Some (parts, False)
      else do {
        m \<leftarrow> (if int i \<le> (int (length s) - int (length d)) mod 2 ^ 32 then mem_eq (drop i (s @ [NUL])) d else Some False);
        if m \<or> i = length s
        then let parts = parts @ [take (i - start) (drop start s)]
             in if m then if i + length d = length s then Some (parts, True)
                          else split_loop s d (i + length d) (i + length d) parts
                else Some (parts, False)
        else split_loop s d (i + 1) start parts
      })"
  by pat_completeness auto
termination
  by (relation "measure (\<lambda>(s, d, i, start, parts). length s + 1 - i)") (auto intro!: diff_less_mono2)

declare split_loop.simps [simp del]

fun alloc_parts :: "string list \<Rightarrow> heap \<Rightarrow> Value list \<times> heap" where
  "alloc_parts [] h = ([], h)"
| "alloc_parts (s # ss) h =
     (let (v, h) = create_string_from_chars s h; (vs, h) = alloc_parts ss h in (v # vs, h))"

text \<open>The capacity after writing \<open>n\<close> elements, doubled whenever it is reached.\<close>

function grown :: "nat \<Rightarrow> nat \<Rightarrow> nat" where
  "grown cap n = (if cap > 0 \<and> n > cap then grown (cap * 2) n else cap)"
  by pat_completeness auto
termination
  by (relation "measure (\<lambda>(cap, n). n - cap)") auto

declare grown.simps [simp del]

definition js_string_split :: "Value \<Rightarrow> Value list \<Rightarrow> heap \<Rightarrow> (Value \<times> heap) option" where
  "js_string_split this args h =
     both_strings VAL_UNDEFINED this args h (\<lambda>s d.
       let (arr, h) = create_array 16 h
       in if d = [] then Some (arr, put_obj arr (OArray [this] 16) h)
          else do {
            (parts, trailing) \<leftarrow> split_loop s d 0 0 [];
            let (vs, h) = alloc_parts parts h;
            let (vs, h) = (if trailing then (case create_string [] h of (v, h) \<Rightarrow> (vs @ [v], h)) else (vs, h));
            Some (arr, put_obj arr (OArray vs (grown 16 (length vs))) h)
          })"

section \<open>Case and blanks\<close>

definition to_lower :: "char \<Rightarrow> char" where
  "to_lower c = (if is_upper c then char_of ((of_char c :: nat) + 32) else c)"

definition to_upper :: "char \<Rightarrow> char" where
  "to_upper c = (if is_lower c then char_of ((of_char c :: nat) - 32) else c)"

definition js_string_to_lower :: "Value \<Rightarrow> heap \<Rightarrow> (Value \<times> heap) option" where
  "js_string_to_lower this h = on_string VAL_UNDEFINED this h (\<lambda>s. Some (create_string (map to_lower s) h))"

definition js_string_to_upper :: "Value \<Rightarrow> heap \<Rightarrow> (Value \<times> heap) option" where
  "js_string_to_upper this h = on_string VAL_UNDEFINED this h (\<lambda>s. Some (create_string (map to_upper s) h))"

text \<open>\<open>while (end >= start && isspace(data[end])) end--\<close>; the result is the last index plus one.\<close>

fun blank_end :: "string \<Rightarrow> nat \<Rightarrow> nat \<Rightarrow> nat" where
  "blank_end s start 0 = 0"
| "blank_end s start (Suc e) = (if e \<ge> start \<and> is_space (s ! e) then blank_end s start e else Suc e)"

definition js_string_trim :: "Value \<Rightarrow> heap \<Rightarrow> (Value \<times> heap) option" where
  "js_string_trim this h =
     on_string VAL_UNDEFINED this h (\<lambda>s.
       let start = skip_while is_space s 0; e = blank_end s start (length s)
       in Some (create_string (if start \<ge> e then [] else take (e - start) (drop start s)) h))"

definition js_string_trim_end :: "Value \<Rightarrow> heap \<Rightarrow> (Value \<times> heap) option" where
  "js_string_trim_end this h =
     on_string VAL_UNDEFINED this h (\<lambda>s. Some (create_string (take (blank_end s 0 (length s)) s) h))"

definition js_string_trim_start :: "Value \<Rightarrow> heap \<Rightarrow> (Value \<times> heap) option" where
  "js_string_trim_start this h =
     on_string VAL_UNDEFINED this h (\<lambda>s. Some (create_string (drop (skip_while is_space s 0) s) h))"

end
