(* ===== verification/Array_Builtins.thy ===== *)
theory Array_Builtins
  imports Interpreter String_Builtins
begin

text \<open>
  The array methods of \<open>src/src/builtins.c\<close> and \<open>src/src/vm.c\<close>. The methods that call no function work on the heap, the
  others on the VM, with \<open>call\<close> for \<open>vm_call_function\<close>. An array is its elements up to its length; its memory goes on to
  the capacity, with contents that do not matter. \<open>None\<close> is what C leaves undefined, here also an element that
  a callback has removed and a sort whose callback moved the elements.
\<close>

section \<open>Receivers\<close>

definition on_array ::
  "Value \<Rightarrow> Value \<Rightarrow> heap \<Rightarrow> (Value list \<Rightarrow> nat \<Rightarrow> (Value \<times> heap) option) \<Rightarrow> (Value \<times> heap) option" where
  "on_array dflt this h body =
     (if \<not> IS_POINTER this then Some (dflt, h)
      else case deref h this of None \<Rightarrow> None | Some (OArray es cap) \<Rightarrow> body es cap | Some _ \<Rightarrow> Some (dflt, h))"

definition push_all :: "Value \<Rightarrow> Value list \<Rightarrow> heap \<Rightarrow> heap option" where
  "push_all arr vs h = opt_fold (\<lambda>v h. map_option snd (array_push arr v h)) vs h"

text \<open>The elements an argument contributes to \<open>concat\<close> and an element to \<open>flat\<close>.\<close>

definition spread :: "heap \<Rightarrow> Value \<Rightarrow> Value list option" where
  "spread h v =
     (if IS_POINTER v then case deref h v of None \<Rightarrow> None | Some (OArray es _) \<Rightarrow> Some es | Some _ \<Rightarrow> Some [v]
      else Some [v])"

definition push_spread :: "Value \<Rightarrow> Value \<Rightarrow> heap \<Rightarrow> heap option" where
  "push_spread arr v h = do { vs \<leftarrow> spread h v; push_all arr vs h }"

section \<open>Methods on the heap\<close>

definition js_array_at :: "Value \<Rightarrow> Value list \<Rightarrow> heap \<Rightarrow> (Value \<times> heap) option" where
  "js_array_at this args h =
     (if args = [] then Some (VAL_UNDEFINED, h)
      else on_array VAL_UNDEFINED this h (\<lambda>es cap. do {
        idx \<leftarrow> int_or 0 (args ! 0);
        let idx = (if idx < 0 then i32 (int (length es) + idx) else idx);
        Some (if idx < 0 \<or> idx \<ge> i32 (int (length es)) then VAL_UNDEFINED else es ! nat idx, h)
      }))"

definition js_array_concat_method :: "Value \<Rightarrow> Value list \<Rightarrow> heap \<Rightarrow> (Value \<times> heap) option" where
  "js_array_concat_method this args h =
     on_array VAL_UNDEFINED this h (\<lambda>es cap. do {
       let (res, h) = create_array 8 h;
       h \<leftarrow> push_all res es h;
       h \<leftarrow> opt_fold (push_spread res) args h;
       Some (res, h)
     })"

definition js_array_of :: "Value list \<Rightarrow> heap \<Rightarrow> (Value \<times> heap) option" where
  "js_array_of args h =
     do {
       let (res, h) = create_array (if args \<noteq> [] then length args else 1) h;
       h \<leftarrow> push_all res args h;
       Some (res, h)
     }"

definition js_array_constructor :: "Value list \<Rightarrow> heap \<Rightarrow> (Value \<times> heap) option" where
  "js_array_constructor args h =
     (if length args = 1 \<and> (IS_INTEGER (args ! 0) \<or> IS_DOUBLE (args ! 0))
      then do {
        len \<leftarrow> int_or 0 (args ! 0);
        let len = (if len < 0 then 0 else len);
        let (arr, h) = create_array (nat len) h;
        Some (arr, put_obj arr (OArray (replicate (nat len) VAL_UNDEFINED) (if len > 0 then nat len else 4)) h)
      }
      else js_array_of args h)"

definition js_array_fill :: "Value \<Rightarrow> Value list \<Rightarrow> heap \<Rightarrow> (Value \<times> heap) option" where
  "js_array_fill this args h =
     (if args = [] then Some (this, h)
      else on_array this this h (\<lambda>es cap.
        let start = (case given_int args 1 of Some i \<Rightarrow> i | None \<Rightarrow> 0);
            fin = (case given_int args 2 of Some i \<Rightarrow> i | None \<Rightarrow> i32 (int (length es)));
            start = (if start < 0 then 0 else start);
            fin = (if fin > i32 (int (length es)) then i32 (int (length es)) else fin)
        in Some (this, put_obj this (OArray (fold (\<lambda>i es. es[i := args ! 0]) [nat start..<nat fin] es) cap) h)))"

definition js_array_flat :: "Value \<Rightarrow> heap \<Rightarrow> (Value \<times> heap) option" where
  "js_array_flat this h =
     on_array VAL_UNDEFINED this h (\<lambda>es cap. do {
       let (res, h) = create_array 8 h;
       h \<leftarrow> opt_fold (push_spread res) es h;
       Some (res, h)
     })"

fun find_equal :: "heap \<Rightarrow> Value \<Rightarrow> Value list \<Rightarrow> nat list \<Rightarrow> nat option" where
  "find_equal h v es [] = None"
| "find_equal h v es (i # is) = (if values_strict_equal h (es ! i) v then Some i else find_equal h v es is)"

definition index_result :: "nat option \<Rightarrow> Value" where
  "index_result r = make_integer (case r of Some i \<Rightarrow> of_nat i | None \<Rightarrow> -1)"

definition js_array_includes :: "Value \<Rightarrow> Value list \<Rightarrow> heap \<Rightarrow> (Value \<times> heap) option" where
  "js_array_includes this args h =
     (if args = [] then Some (VAL_FALSE, h)
      else on_array VAL_FALSE this h (\<lambda>es cap.
        Some (bool_value (find_equal h (args ! 0) es [0..<length es] \<noteq> None), h)))"

definition js_array_index_of :: "Value \<Rightarrow> Value list \<Rightarrow> heap \<Rightarrow> (Value \<times> heap) option" where
  "js_array_index_of this args h =
     (if args = [] then Some (make_integer (-1), h)
      else on_array (make_integer (-1)) this h (\<lambda>es cap.
        let start = (case given_int args 1 of Some i \<Rightarrow> i | None \<Rightarrow> 0);
            start = (if start < 0 then let st = i32 (int (length es) + start) in if st < 0 then 0 else st else start)
        in Some (index_result (find_equal h (args ! 0) es [nat start..<length es]), h)))"

definition js_array_last_index_of :: "Value \<Rightarrow> Value list \<Rightarrow> heap \<Rightarrow> (Value \<times> heap) option" where
  "js_array_last_index_of this args h =
     (if args = [] then Some (make_integer (-1), h)
      else on_array (make_integer (-1)) this h (\<lambda>es cap.
        if es = [] then Some (make_integer (-1), h)
        else let len = i32 (int (length es));
                 start = (case given_int args 1 of Some i \<Rightarrow> i | None \<Rightarrow> len - 1);
                 start = (if start < 0 then i32 (int (length es) + start) else start);
                 start = (if start \<ge> len then len - 1 else start)
             in Some (index_result (find_equal h (args ! 0) es (rev [0..<nat (start + 1)])), h)))"

definition js_array_is_array :: "Value list \<Rightarrow> heap \<Rightarrow> (Value \<times> heap) option" where
  "js_array_is_array args h =
     (if args = [] then Some (VAL_FALSE, h) else on_array VAL_FALSE (args ! 0) h (\<lambda>es cap. Some (VAL_TRUE, h)))"

text \<open>\<open>join\<close>: the texts of the elements, then the copies with the separator between them.\<close>

fun element_texts :: "nat \<Rightarrow> Value list \<Rightarrow> heap \<Rightarrow> (string list \<times> heap) option" where
  "element_texts depth [] h = Some ([], h)"
| "element_texts depth (v # vs) h =
     do {
       (s, h) \<leftarrow> (if v \<in> {VAL_UNDEFINED, VAL_NULL, VAL_EMPTY} then Some ([], h) else text_of depth v h);
       (ss, h) \<leftarrow> element_texts depth vs h;
       Some (s # ss, h)
     }"

fun join_with :: "string \<Rightarrow> string list \<Rightarrow> string" where
  "join_with sep [] = []"
| "join_with sep [s] = s"
| "join_with sep (s # t # ss) = s @ sep @ join_with sep (t # ss)"

definition js_array_join :: "nat \<Rightarrow> Value \<Rightarrow> Value list \<Rightarrow> heap \<Rightarrow> (Value \<times> heap) option" where
  "js_array_join depth this args h =
     on_array VAL_UNDEFINED this h (\<lambda>es cap. do {
       sep \<leftarrow> (if args \<noteq> [] \<and> IS_POINTER (args ! 0)
              then case deref h (args ! 0) of None \<Rightarrow> None | Some (OString s) \<Rightarrow> Some (c_text s) | Some _ \<Rightarrow> Some '',''
              else Some '','');
       (ss, h) \<leftarrow> element_texts depth es h;
       Some (create_string (join_with sep ss) h)
     })"

definition js_array_to_string :: "nat \<Rightarrow> Value \<Rightarrow> heap \<Rightarrow> (Value \<times> heap) option" where
  "js_array_to_string depth this h = js_array_join depth this [] h"

definition js_array_pop :: "Value \<Rightarrow> heap \<Rightarrow> (Value \<times> heap) option" where
  "js_array_pop this h =
     on_array VAL_UNDEFINED this h (\<lambda>es cap.
       if es = [] then Some (VAL_UNDEFINED, h) else Some (last es, put_obj this (OArray (butlast es) cap) h))"

definition js_array_push_method :: "Value \<Rightarrow> Value list \<Rightarrow> heap \<Rightarrow> (Value \<times> heap) option" where
  "js_array_push_method this args h =
     (if \<not> IS_POINTER this then Some (VAL_UNDEFINED, h)
      else do {
        h \<leftarrow> push_all this args h;
        case deref h this of Some (OArray es _) \<Rightarrow> Some (make_integer (of_nat (length es)), h) | _ \<Rightarrow> None
      })"

text \<open>Swapping the elements from both ends.\<close>

definition swap :: "nat \<Rightarrow> nat \<Rightarrow> 'a list \<Rightarrow> 'a list" where
  "swap i j es = es[i := es ! j, j := es ! i]"

definition js_array_reverse :: "Value \<Rightarrow> heap \<Rightarrow> (Value \<times> heap) option" where
  "js_array_reverse this h =
     on_array this this h (\<lambda>es cap.
       Some (this, put_obj this (OArray (fold (\<lambda>i es. swap i (length es - 1 - i) es) [0..<length es div 2] es) cap) h))"

definition js_array_shift :: "Value \<Rightarrow> heap \<Rightarrow> (Value \<times> heap) option" where
  "js_array_shift this h =
     on_array VAL_UNDEFINED this h (\<lambda>es cap.
       if es = [] then Some (VAL_UNDEFINED, h)
       else Some (es ! 0, put_obj this
              (OArray (butlast (fold (\<lambda>i es. es[i - 1 := es ! i]) [1..<length es] es)) cap) h))"

text \<open>Moving the elements from \<open>lo\<close> on up by \<open>d\<close>, last first, and down by \<open>d\<close>, first first.\<close>

definition move_up :: "nat \<Rightarrow> nat \<Rightarrow> nat \<Rightarrow> 'a list \<Rightarrow> 'a list" where
  "move_up lo len d m = fold (\<lambda>i m. m[i + d := m ! i]) (rev [lo..<len]) m"

definition move_down :: "nat \<Rightarrow> nat \<Rightarrow> nat \<Rightarrow> 'a list \<Rightarrow> 'a list" where
  "move_down lo len d m = fold (\<lambda>i m. m[i - d := m ! i]) [lo..<len] m"

definition write_at :: "nat \<Rightarrow> 'a list \<Rightarrow> 'a list \<Rightarrow> 'a list" where
  "write_at start vs m = fold (\<lambda>i m. m[start + i := vs ! i]) [0..<length vs] m"

definition js_array_unshift :: "Value \<Rightarrow> Value list \<Rightarrow> heap \<Rightarrow> (Value \<times> heap) option" where
  "js_array_unshift this args h =
     (if args = [] then Some (VAL_UNDEFINED, h)
      else on_array VAL_UNDEFINED this h (\<lambda>es cap. do {
        h \<leftarrow> push_all this (replicate (length args) VAL_UNDEFINED) h;
        case deref h this of
          Some (OArray es cap) \<Rightarrow>
            Some (make_integer (of_nat (length es)),
                  put_obj this (OArray (write_at 0 args (move_up 0 (length es - length args) (length args) es)) cap) h)
        | _ \<Rightarrow> None
      }))"

text \<open>The clamping of \<open>slice\<close>.\<close>

definition slice_bound :: "Value list \<Rightarrow> nat \<Rightarrow> int \<Rightarrow> int \<Rightarrow> int" where
  "slice_bound args k len dflt =
     (case given_int args k of
        Some i \<Rightarrow>
          (let i = (if i < 0 then i32 (len + i) else i); i = (if i < 0 then 0 else i) in if i > len then len else i)
      | None \<Rightarrow> dflt)"

fun object_elements :: "protos \<Rightarrow> Value \<Rightarrow> nat list \<Rightarrow> heap \<Rightarrow> (Value list \<times> heap) option" where
  "object_elements pr obj [] h = Some ([], h)"
| "object_elements pr obj (i # is) h =
     do {
       let (key, h) = create_string (show_int (int i)) h;
       (v, h) \<leftarrow> object_get pr obj key h;
       (vs, h) \<leftarrow> object_elements pr obj is h;
       Some (v # vs, h)
     }"

definition js_array_slice :: "protos \<Rightarrow> Value \<Rightarrow> Value list \<Rightarrow> heap \<Rightarrow> (Value \<times> heap) option" where
  "js_array_slice pr this args h =
     (if \<not> IS_POINTER this then Some (VAL_UNDEFINED, h)
      else do {
        ob \<leftarrow> deref h this;
        case ob of
          OArray es cap \<Rightarrow>
            (let len = i32 (int (length es)); start = slice_bound args 0 len 0; fin = slice_bound args 1 len len;
                 start = (if start > fin then fin else start); n = nat (fin - start);
                 (res, h) = create_array (if n > 0 then n else 1) h
             in Some (res, put_obj res (OArray (take n (drop (nat start) es)) (if n > 0 then n else 1)) h))
        | OObject _ _ \<Rightarrow>
            do {
              let (key, h) = create_string ''length'' h;
              (len_val, h) \<leftarrow> object_get pr this key h;
              len \<leftarrow> int_or 0 len_val;
              let start = slice_bound args 0 len 0;
              let fin = slice_bound args 1 len len;
              let start = (if start > fin then fin else start);
              let n = nat (fin - start);
              let (res, h) = create_array (if n > 0 then n else 1) h;
              (vs, h) \<leftarrow> object_elements pr this [nat start..<nat start + n] h;
              Some (res, put_obj res (OArray vs (if n > 0 then n else 1)) h)
            }
        | _ \<Rightarrow> Some (VAL_UNDEFINED, h)
      })"

text \<open>
  \<open>splice\<close>. Growing the array past its capacity passes the elements, a block of the arena, to \<open>realloc\<close>, which is undefined.
  \<open>start + del_count\<close> is a sum of 32 bits with sign.
\<close>

definition splice_elems :: "nat \<Rightarrow> nat \<Rightarrow> Value list \<Rightarrow> nat \<Rightarrow> Value list \<Rightarrow> Value list" where
  "splice_elems start del add cap es =
     (let m = es @ replicate (cap - length es) VAL_EMPTY; n = length add;
          m = (if n > del then move_up (start + del) (length es) (n - del) m
               else if n < del then move_down (start + del) (length es) (del - n) m else m)
      in take (length es + n - del) (write_at start add m))"

definition splice_start :: "nat \<Rightarrow> int \<Rightarrow> int" where
  "splice_start n start =
     (let start = (if start < 0 then i32 (int n + start) else start); start = (if start < 0 then 0 else start)
      in if start > i32 (int n) then i32 (int n) else start)"

definition splice_count :: "Value list \<Rightarrow> nat \<Rightarrow> int \<Rightarrow> int option" where
  "splice_count args n start =
     (if length args < 2 then Some (i32 (int n - start))
      else do {
        del \<leftarrow> int_or 0 (args ! 1);
        let del = (if del < 0 then 0 else del);
        if \<not> in_int32 (start + del) then None
        else Some (if start + del > i32 (int n) then i32 (int n - start) else del)
      })"

definition js_array_splice :: "Value \<Rightarrow> Value list \<Rightarrow> heap \<Rightarrow> (Value \<times> heap) option" where
  "js_array_splice this args h =
     on_array VAL_UNDEFINED this h (\<lambda>es cap.
       let (del_arr, h) = create_array 0 h
       in if args = [] then Some (del_arr, h)
          else do {
            start \<leftarrow> int_or 0 (args ! 0);
            let start = splice_start (length es) start;
            del \<leftarrow> splice_count args (length es) start;
            h \<leftarrow> push_all del_arr (take (nat del) (drop (nat start) es)) h;
            let add = drop 2 args;
            if int (length es) + int (length add) - del > int cap then None
            else Some (del_arr, put_obj this (OArray (splice_elems (nat start) (nat del) add cap es) cap) h)
          })"

section \<open>Methods that call functions\<close>

definition call_then :: "outcome option \<Rightarrow> (Value \<Rightarrow> VM \<Rightarrow> outcome option) \<Rightarrow> outcome option" where
  "call_then r cont =
     (case r of None \<Rightarrow> None | Some (Finished v vm) \<Rightarrow> cont v vm | Some ot \<Rightarrow> Some ot)"

definition element :: "Value \<Rightarrow> nat \<Rightarrow> VM \<Rightarrow> Value option" where
  "element this i vm =
     (case object_at this vm of Some (OArray es _) \<Rightarrow> if i < length es then Some (es ! i) else None | _ \<Rightarrow> None)"

definition index_value :: "nat \<Rightarrow> Value" where
  "index_value i = make_integer (of_nat i)"

text \<open>The receiver and the callback of the methods that root them; the result of a loop is returned without the roots.\<close>

definition rooted ::
  "Value \<Rightarrow> Value \<Rightarrow> Value list \<Rightarrow> VM \<Rightarrow> (nat \<Rightarrow> Value \<Rightarrow> VM \<Rightarrow> outcome option) \<Rightarrow> outcome option" where
  "rooted dflt this args vm body =
     (if \<not> IS_POINTER this \<or> args = [] \<or> \<not> IS_POINTER (args ! 0) then Some (Finished dflt vm)
      else case object_at this vm of
             None \<Rightarrow> None
           | Some (OArray es _) \<Rightarrow>
               call_then (body (length es) (args ! 0) (vm_push_root (args ! 0) (vm_push_root this vm)))
                 (\<lambda>v vm. Some (Finished v (vm_pop_root (vm_pop_root vm))))
           | Some _ \<Rightarrow> Some (Finished dflt vm))"

fun every_loop :: "caller \<Rightarrow> Value \<Rightarrow> Value \<Rightarrow> nat list \<Rightarrow> VM \<Rightarrow> outcome option" where
  "every_loop call this cb [] vm = Some (Finished VAL_TRUE vm)"
| "every_loop call this cb (i # is) vm =
     do {
       el \<leftarrow> element this i vm;
       call_then (call cb [el, index_value i, this] vm)
         (\<lambda>res vm. if is_truthy res then every_loop call this cb is vm else Some (Finished VAL_FALSE vm))
     }"

definition js_array_every :: "caller \<Rightarrow> Value \<Rightarrow> Value list \<Rightarrow> VM \<Rightarrow> outcome option" where
  "js_array_every call this args vm = rooted VAL_TRUE this args vm (\<lambda>len cb. every_loop call this cb [0..<len])"

fun find_index_loop :: "caller \<Rightarrow> Value \<Rightarrow> Value \<Rightarrow> nat list \<Rightarrow> VM \<Rightarrow> outcome option" where
  "find_index_loop call this cb [] vm = Some (Finished (make_integer (-1)) vm)"
| "find_index_loop call this cb (i # is) vm =
     do {
       el \<leftarrow> element this i vm;
       call_then (call cb [el, index_value i, this] vm)
         (\<lambda>res vm. if is_truthy res then Some (Finished (index_value i) vm) else find_index_loop call this cb is vm)
     }"

definition js_array_find_index :: "caller \<Rightarrow> Value \<Rightarrow> Value list \<Rightarrow> VM \<Rightarrow> outcome option" where
  "js_array_find_index call this args vm =
     rooted (make_integer (-1)) this args vm (\<lambda>len cb. find_index_loop call this cb [0..<len])"

fun for_each_loop :: "caller \<Rightarrow> Value \<Rightarrow> Value \<Rightarrow> nat list \<Rightarrow> VM \<Rightarrow> outcome option" where
  "for_each_loop call this cb [] vm = Some (Finished VAL_UNDEFINED vm)"
| "for_each_loop call this cb (i # is) vm =
     do {
       el \<leftarrow> element this i vm;
       call_then (call cb [el, index_value i, this] vm) (\<lambda>res vm. for_each_loop call this cb is vm)
     }"

definition js_array_for_each :: "caller \<Rightarrow> Value \<Rightarrow> Value list \<Rightarrow> VM \<Rightarrow> outcome option" where
  "js_array_for_each call this args vm = rooted VAL_UNDEFINED this args vm (\<lambda>len cb. for_each_loop call this cb [0..<len])"

text \<open>The results of \<open>map\<close>, \<open>filter\<close> and \<open>flatMap\<close> are built in an array of their own.\<close>

definition in_heap :: "(heap \<Rightarrow> heap option) \<Rightarrow> VM \<Rightarrow> VM option" where
  "in_heap f vm = map_option (\<lambda>h. vm\<lparr>vheap := h\<rparr>) (f (vheap vm))"

definition store_element :: "Value \<Rightarrow> nat \<Rightarrow> Value \<Rightarrow> VM \<Rightarrow> VM option" where
  "store_element arr i v vm =
     (case object_at arr vm of
        Some (OArray es cap) \<Rightarrow>
          if i < length es then Some (vm\<lparr>vheap := put_obj arr (OArray (es[i := v]) cap) (vheap vm)\<rparr>) else None
      | _ \<Rightarrow> None)"

fun map_loop :: "caller \<Rightarrow> Value \<Rightarrow> Value \<Rightarrow> Value \<Rightarrow> nat list \<Rightarrow> VM \<Rightarrow> outcome option" where
  "map_loop call this cb res [] vm = Some (Finished res vm)"
| "map_loop call this cb res (i # is) vm =
     do {
       el \<leftarrow> element this i vm;
       call_then (call cb [el, index_value i, this] vm)
         (\<lambda>mapped vm. do { vm \<leftarrow> store_element res i mapped vm; map_loop call this cb res is vm })
     }"

text \<open>The new array of \<open>map\<close> has its length before it has its elements: they are the \<open>VAL_EMPTY\<close> of a fresh array.\<close>

definition js_array_map :: "caller \<Rightarrow> Value \<Rightarrow> Value list \<Rightarrow> VM \<Rightarrow> outcome option" where
  "js_array_map call this args vm =
     rooted VAL_UNDEFINED this args vm (\<lambda>len cb vm.
       let (res, vm) = alloc_in (create_array len) vm;
           vm = vm_push_root res (vm\<lparr>vheap :=
                  put_obj res (OArray (replicate len VAL_EMPTY) (if len > 0 then len else 4)) (vheap vm)\<rparr>)
       in call_then (map_loop call this cb res [0..<len] vm) (\<lambda>v vm. Some (Finished v (vm_pop_root vm))))"

fun filter_elems_loop :: "caller \<Rightarrow> Value \<Rightarrow> Value \<Rightarrow> Value \<Rightarrow> nat list \<Rightarrow> VM \<Rightarrow> outcome option" where
  "filter_elems_loop call this cb res [] vm = Some (Finished res vm)"
| "filter_elems_loop call this cb res (i # is) vm =
     do {
       el \<leftarrow> element this i vm;
       call_then (call cb [el, index_value i, this] vm)
         (\<lambda>match vm. if is_truthy match
            then do {
              el \<leftarrow> element this i vm;
              vm \<leftarrow> in_heap (push_all res [el]) vm;
              filter_elems_loop call this cb res is vm
            }
            else filter_elems_loop call this cb res is vm)
     }"

definition js_array_filter :: "caller \<Rightarrow> Value \<Rightarrow> Value list \<Rightarrow> VM \<Rightarrow> outcome option" where
  "js_array_filter call this args vm =
     rooted VAL_UNDEFINED this args vm (\<lambda>len cb vm.
       let (res, vm) = alloc_in (create_array 0) vm
       in call_then (filter_elems_loop call this cb res [0..<len] (vm_push_root res vm)) (\<lambda>v vm. Some (Finished v (vm_pop_root vm))))"

fun flat_map_loop :: "caller \<Rightarrow> Value \<Rightarrow> Value \<Rightarrow> Value \<Rightarrow> nat list \<Rightarrow> VM \<Rightarrow> outcome option" where
  "flat_map_loop call this cb res [] vm = Some (Finished res vm)"
| "flat_map_loop call this cb res (i # is) vm =
     do {
       el \<leftarrow> element this i vm;
       call_then (call cb [el, index_value i, this] vm)
         (\<lambda>mapped vm. do { vm \<leftarrow> in_heap (push_spread res mapped) vm; flat_map_loop call this cb res is vm })
     }"

definition js_array_flat_map :: "caller \<Rightarrow> Value \<Rightarrow> Value list \<Rightarrow> VM \<Rightarrow> outcome option" where
  "js_array_flat_map call this args vm =
     rooted VAL_UNDEFINED this args vm (\<lambda>len cb vm.
       let (res, vm) = alloc_in (create_array 8) vm
       in call_then (flat_map_loop call this cb res [0..<len] (vm_push_root res vm)) (\<lambda>v vm. Some (Finished v (vm_pop_root vm))))"

text \<open>\<open>acc\<close> is the root that holds the accumulator; the callback may read it there.\<close>

definition set_last_root :: "Value \<Rightarrow> VM \<Rightarrow> VM" where
  "set_last_root v vm = vm\<lparr>gc_roots := butlast (gc_roots vm) @ [v]\<rparr>"

fun reduce_loop :: "caller \<Rightarrow> Value \<Rightarrow> Value \<Rightarrow> Value \<Rightarrow> nat list \<Rightarrow> VM \<Rightarrow> outcome option" where
  "reduce_loop call this cb acc [] vm = Some (Finished acc vm)"
| "reduce_loop call this cb acc (i # is) vm =
     do {
       el \<leftarrow> element this i vm;
       call_then (call cb [acc, el, index_value i, this] vm)
         (\<lambda>acc vm. reduce_loop call this cb acc is (set_last_root acc vm))
     }"

definition js_array_reduce :: "caller \<Rightarrow> Value \<Rightarrow> Value list \<Rightarrow> VM \<Rightarrow> outcome option" where
  "js_array_reduce call this args vm =
     rooted VAL_UNDEFINED this args vm (\<lambda>len cb vm.
       if length args < 2 \<and> len = 0 then Some (Finished VAL_UNDEFINED vm)
       else do {
         acc \<leftarrow> (if length args \<ge> 2 then Some (args ! 1) else element this 0 vm);
         call_then (reduce_loop call this cb acc [if length args \<ge> 2 then 0 else 1..<len] (vm_push_root acc vm))
           (\<lambda>v vm. Some (Finished v (vm_pop_root vm)))
       })"

text \<open>\<open>from\<close>: one loop per kind of source, each with the mapping function if there is one.\<close>

definition mapped :: "caller \<Rightarrow> Value option \<Rightarrow> Value \<Rightarrow> nat \<Rightarrow> VM \<Rightarrow> outcome option" where
  "mapped call map_fn el i vm =
     (case map_fn of Some f \<Rightarrow> call f [el, index_value i] vm | None \<Rightarrow> Some (Finished el vm))"

fun from_loop ::
  "caller \<Rightarrow> Value option \<Rightarrow> Value \<Rightarrow> (nat \<Rightarrow> VM \<Rightarrow> (Value \<times> VM) option) \<Rightarrow> nat list \<Rightarrow> VM \<Rightarrow> outcome option" where
  "from_loop call map_fn res read_el [] vm = Some (Finished res vm)"
| "from_loop call map_fn res read_el (i # is) vm =
     do {
       (el, vm) \<leftarrow> read_el i vm;
       call_then (mapped call map_fn el i vm) (\<lambda>el vm. do {
         vm \<leftarrow> in_heap (push_all res [el]) vm;
         from_loop call map_fn res read_el is vm
       })
     }"

definition source_element :: "Value \<Rightarrow> nat \<Rightarrow> VM \<Rightarrow> (Value \<times> VM) option" where
  "source_element src i vm = map_option (\<lambda>el. (el, vm)) (element src i vm)"

definition object_element :: "Value \<Rightarrow> nat \<Rightarrow> VM \<Rightarrow> (Value \<times> VM) option" where
  "object_element src i vm = (let (key, vm) = alloc_in (create_string (show_int (int i))) vm in vm_get src key vm)"

definition string_element :: "string \<Rightarrow> nat \<Rightarrow> VM \<Rightarrow> (Value \<times> VM) option" where
  "string_element s i vm = Some (alloc_in (create_string [s ! i]) vm)"

text \<open>The slots of a set: \<open>idx\<close> counts the elements. A set that the mapping function makes grow is read up to its new
  capacity.\<close>

partial_function (option) from_set_loop ::
  "caller \<Rightarrow> Value option \<Rightarrow> Value \<Rightarrow> Value \<Rightarrow> nat \<Rightarrow> nat \<Rightarrow> VM \<Rightarrow> outcome option" where
  "from_set_loop call map_fn res src i idx vm =
     (case object_at src vm of
        Some (OSet s) \<Rightarrow>
          if \<not> i < unat (capacity s) then Some (Finished res vm)
          else if \<not> i < length (elements s) then None
          else if elements s ! i = VAL_UNDEFINED then from_set_loop call map_fn res src (i + 1) idx vm
          else (case mapped call map_fn (elements s ! i) idx vm of
                  None \<Rightarrow> None
                | Some (Finished el vm) \<Rightarrow>
                    Option.bind (in_heap (push_all res [el]) vm) (from_set_loop call map_fn res src (i + 1) (idx + 1))
                | Some ot \<Rightarrow> Some ot)
      | _ \<Rightarrow> None)"

definition js_array_from :: "caller \<Rightarrow> Value list \<Rightarrow> VM \<Rightarrow> outcome option" where
  "js_array_from call args vm =
     (if args = [] \<or> \<not> IS_POINTER (args ! 0)
      then let (res, vm) = alloc_in (create_array 0) vm in Some (Finished res vm)
      else let src = args ! 0; fn = (if length args \<ge> 2 then args ! 1 else VAL_UNDEFINED);
               map_fn = (if IS_POINTER fn then Some fn else None);
               (res, vm) = alloc_in (create_array 8) (vm_push_root fn (vm_push_root src vm));
               vm = vm_push_root res vm
           in call_then
                (case object_at src vm of
                   None \<Rightarrow> None
                 | Some (OArray es _) \<Rightarrow> from_loop call map_fn res (source_element src) [0..<length es] vm
                 | Some (OObject _ _) \<Rightarrow>
                     do {
                       let (key, vm) = alloc_in (create_string ''length'') vm;
                       (len_val, vm) \<leftarrow> vm_get src key vm;
                       len \<leftarrow> int_or 0 len_val;
                       from_loop call map_fn res (object_element src) [0..<nat len] vm
                     }
                 | Some (OString s) \<Rightarrow> from_loop call map_fn res (string_element s) [0..<length s] vm
                 | Some (OSet _) \<Rightarrow> from_set_loop call map_fn res src 0 0 vm
                 | Some _ \<Rightarrow> Some (Finished res vm))
                (\<lambda>v vm. Some (Finished v (vm_pop_root (vm_pop_root (vm_pop_root vm))))))"

text \<open>\<open>find\<close> and \<open>some\<close> root nothing and read the length again in every round, so they may go on for ever.\<close>

partial_function (option) find_loop ::
  "caller \<Rightarrow> Value \<Rightarrow> Value \<Rightarrow> (Value \<Rightarrow> Value) \<Rightarrow> Value \<Rightarrow> nat \<Rightarrow> VM \<Rightarrow> outcome option" where
  "find_loop call this cb found missing i vm =
     (case object_at this vm of
        Some (OArray es _) \<Rightarrow>
          if i < length es
          then (case call cb [es ! i, index_value i, this] vm of
                  None \<Rightarrow> None
                | Some (Finished res vm) \<Rightarrow>
                    if is_truthy res then Some (Finished (found (es ! i)) vm)
                    else find_loop call this cb found missing (i + 1) vm
                | Some ot \<Rightarrow> Some ot)
          else Some (Finished missing vm)
      | _ \<Rightarrow> None)"

definition with_function ::
  "Value \<Rightarrow> Value \<Rightarrow> Value list \<Rightarrow> VM \<Rightarrow> (Value \<Rightarrow> outcome option) \<Rightarrow> outcome option" where
  "with_function dflt this args vm body =
     (if \<not> IS_POINTER this \<or> args = [] then Some (Finished dflt vm)
      else case object_at this vm of
             None \<Rightarrow> None
           | Some (OArray _ _) \<Rightarrow>
               if \<not> IS_POINTER (args ! 0) then Some (Finished dflt vm)
               else (case object_at (args ! 0) vm of
                       None \<Rightarrow> None
                     | Some (OFunction _) \<Rightarrow> body (args ! 0)
                     | Some _ \<Rightarrow> Some (Finished dflt vm))
           | Some _ \<Rightarrow> Some (Finished dflt vm))"

definition js_array_find :: "caller \<Rightarrow> Value \<Rightarrow> Value list \<Rightarrow> VM \<Rightarrow> outcome option" where
  "js_array_find call this args vm =
     with_function VAL_UNDEFINED this args vm (\<lambda>cb. find_loop call this cb (\<lambda>el. el) VAL_UNDEFINED 0 vm)"

definition js_array_some :: "caller \<Rightarrow> Value \<Rightarrow> Value list \<Rightarrow> VM \<Rightarrow> outcome option" where
  "js_array_some call this args vm =
     with_function VAL_FALSE this args vm (\<lambda>cb. find_loop call this cb (\<lambda>_. VAL_TRUE) VAL_FALSE 0 vm)"

section \<open>Sorting\<close>

text \<open>
  One comparison: with a function the sign of its result, else the order of the texts. \<open>arr\<close> points into the data block that
  the array had at the start; when a callback has made the array move to another one, which shows in its
  capacity, the rest of the sort works on memory that is no longer the array.
\<close>

definition number_negative :: "Value \<Rightarrow> bool" where
  "number_negative v \<longleftrightarrow>
     (IS_INTEGER v \<and> sint (get_integer v) < 0) \<or> (IS_DOUBLE v \<and> f64_lt (get_double v) (f64_zero False))"

definition sort_less ::
  "caller \<Rightarrow> nat \<Rightarrow> Value \<Rightarrow> Value \<Rightarrow> Value \<Rightarrow> VM \<Rightarrow> (bool \<Rightarrow> VM \<Rightarrow> outcome option) \<Rightarrow> outcome option" where
  "sort_less call depth cmp a b vm cont =
     (if IS_POINTER cmp then call_then (call cmp [a, b] vm) (\<lambda>res vm. cont (number_negative res) vm)
      else do {
        (s, h) \<leftarrow> text_of depth a (vheap vm);
        (t, h) \<leftarrow> text_of depth b h;
        cont (c_strcmp (c_text s) (c_text t) < 0) (vm\<lparr>vheap := h\<rparr>)
      })"

definition sort_elems :: "Value \<Rightarrow> nat \<Rightarrow> VM \<Rightarrow> Value list option" where
  "sort_elems this cap vm =
     (case object_at this vm of Some (OArray es c) \<Rightarrow> if c = cap then Some es else None | _ \<Rightarrow> None)"

definition sort_swap :: "Value \<Rightarrow> nat \<Rightarrow> nat \<Rightarrow> nat \<Rightarrow> VM \<Rightarrow> VM option" where
  "sort_swap this cap i j vm =
     do {
       es \<leftarrow> sort_elems this cap vm;
       if i < length es \<and> j < length es
       then Some (vm\<lparr>vheap := put_obj this (OArray (swap i j es) cap) (vheap vm)\<rparr>)
       else None
     }"

text \<open>The loop over \<open>j\<close>; \<open>k\<close> is the index \<open>i + 1\<close> of the source.\<close>

fun partition_loop ::
  "caller \<Rightarrow> nat \<Rightarrow> Value \<Rightarrow> Value \<Rightarrow> nat \<Rightarrow> Value \<Rightarrow> nat list \<Rightarrow> nat \<Rightarrow> VM \<Rightarrow> (nat \<Rightarrow> VM \<Rightarrow> outcome option) \<Rightarrow> outcome option"
where
  "partition_loop call depth cmp this cap pivot [] k vm cont = cont k vm"
| "partition_loop call depth cmp this cap pivot (j # js) k vm cont =
     do {
       es \<leftarrow> sort_elems this cap vm;
       if j < length es
       then sort_less call depth cmp (es ! j) pivot vm (\<lambda>less vm.
         if less then do {
           vm \<leftarrow> sort_swap this cap k j vm;
           partition_loop call depth cmp this cap pivot js (k + 1) vm cont
         }
         else partition_loop call depth cmp this cap pivot js k vm cont)
       else None
     }"

text \<open>\<open>js_array_sort_quick\<close> on the elements from \<open>low\<close> up to, but without, \<open>stop\<close>; the fuel is the depth of the recursion.\<close>

fun js_array_sort_quick ::
  "nat \<Rightarrow> caller \<Rightarrow> nat \<Rightarrow> Value \<Rightarrow> Value \<Rightarrow> nat \<Rightarrow> nat \<Rightarrow> nat \<Rightarrow> VM \<Rightarrow> (VM \<Rightarrow> outcome option) \<Rightarrow> outcome option" where
  "js_array_sort_quick 0 call depth cmp this cap low stop vm cont =
     (if low + 1 < stop then Some Out_of_fuel else cont vm)"
| "js_array_sort_quick (Suc n) call depth cmp this cap low stop vm cont =
     (if low + 1 < stop
      then do {
        es \<leftarrow> sort_elems this cap vm;
        if stop \<le> length es
        then partition_loop call depth cmp this cap (es ! (stop - 1)) [low..<stop - 1] low vm (\<lambda>pi vm. do {
          vm \<leftarrow> sort_swap this cap pi (stop - 1) vm;
          js_array_sort_quick n call depth cmp this cap low pi vm (\<lambda>vm.
            js_array_sort_quick n call depth cmp this cap (pi + 1) stop vm cont)
        })
        else None
      }
      else cont vm)"

definition js_array_sort :: "caller \<Rightarrow> nat \<Rightarrow> Value \<Rightarrow> Value list \<Rightarrow> VM \<Rightarrow> outcome option" where
  "js_array_sort call depth this args vm =
     (if \<not> IS_POINTER this then Some (Finished VAL_UNDEFINED vm)
      else case object_at this vm of
             None \<Rightarrow> None
           | Some (OArray es cap) \<Rightarrow>
               if length es \<le> 1 then Some (Finished this vm)
               else let cmp = (if args \<noteq> [] \<and> IS_POINTER (args ! 0) then args ! 0 else VAL_UNDEFINED)
                    in js_array_sort_quick (length es) call depth cmp this cap 0 (length es) vm (\<lambda>vm. Some (Finished this vm))
           | Some _ \<Rightarrow> Some (Finished VAL_UNDEFINED vm))"

end
