(* ===== verification/Array_Laws.thy ===== *)
theory Array_Laws
  imports Array_Builtins Demo_Machine "HOL-Library.Multiset"
begin

text \<open>
  The array methods against lists: the quicksort of \<open>sort\<close> sorts, the element moves of \<open>splice\<close>, \<open>reverse\<close>, \<open>shift\<close> and \<open>unshift\<close>
  are the list operations, and the methods with a callback are the list functions when the callback only computes.
\<close>

section \<open>Rearranging a part of a list\<close>

text \<open>\<open>es'\<close> is \<open>es\<close> with the elements from \<open>lo\<close> up to \<open>hi\<close> rearranged.\<close>

definition rearranged :: "nat \<Rightarrow> nat \<Rightarrow> 'a list \<Rightarrow> 'a list \<Rightarrow> bool" where
  "rearranged lo hi es es' \<longleftrightarrow> length es' = length es \<and> mset es' = mset es \<and>
     (\<forall>i < length es. i < lo \<or> hi \<le> i \<longrightarrow> es' ! i = es ! i)"

lemma rearranged_refl [simp]: "rearranged lo hi es es"
  by (simp add: rearranged_def)

lemma rearranged_trans: "rearranged lo hi a b \<Longrightarrow> rearranged lo hi b c \<Longrightarrow> rearranged lo hi a c"
  by (simp add: rearranged_def)

lemma rearranged_mono: "rearranged lo hi a b \<Longrightarrow> lo' \<le> lo \<Longrightarrow> hi \<le> hi' \<Longrightarrow> rearranged lo' hi' a b"
  by (auto simp: rearranged_def)

lemma length_swap [simp]: "length (swap i j es) = length es"
  by (simp add: swap_def)

lemma nth_swap: "i < length es \<Longrightarrow> j < length es \<Longrightarrow> x < length es \<Longrightarrow>
   swap i j es ! x = (if x = j then es ! i else if x = i then es ! j else es ! x)"
  by (auto simp: swap_def nth_list_update)

lemma mset_swap_elems: "i < length es \<Longrightarrow> j < length es \<Longrightarrow> mset (swap i j es) = mset es"
  unfolding swap_def by (rule mset_swap)

lemma rearranged_swap:
  "lo \<le> i \<Longrightarrow> i < hi \<Longrightarrow> lo \<le> j \<Longrightarrow> j < hi \<Longrightarrow> hi \<le> length es \<Longrightarrow> rearranged lo hi es (swap i j es)"
  by (auto simp: rearranged_def mset_swap_elems nth_swap)

text \<open>A rearranged part has the elements it had.\<close>

lemma rearranged_part:
  assumes r: "rearranged lo hi es es'" and b: "lo \<le> hi" "hi \<le> length es"
  shows "mset (take (hi - lo) (drop lo es')) = mset (take (hi - lo) (drop lo es))"
proof -
  have len: "length es' = length es" using r by (simp add: rearranged_def)
  have t: "take lo es' = take lo es" "drop hi es' = drop hi es"
    using r b by (auto simp: rearranged_def intro!: nth_equalityI)
  have split: "mset xs = mset (take lo xs) + mset (take (hi - lo) (drop lo xs)) + mset (drop hi xs)" if "length xs = length es" for xs :: "'a list"
  proof -
    have "xs = take lo xs @ take (hi - lo) (drop lo xs) @ drop hi xs"
      using b that by (metis append_take_drop_id drop_drop le_add_diff_inverse2)
    then show ?thesis by (metis mset_append add.assoc)
  qed
  show ?thesis using split [of es] split [of es'] len t r by (simp add: rearranged_def)
qed

lemma rearranged_nth:
  assumes "rearranged lo hi es es'" "hi \<le> length es" "lo \<le> i" "i < hi"
  obtains j where "lo \<le> j" "j < hi" "es' ! i = es ! j"
proof -
  have len: "length es' = length es" using assms(1) by (simp add: rearranged_def)
  have "es' ! i \<in> set (take (hi - lo) (drop lo es'))"
    using assms(2-4) len by (auto simp: in_set_conv_nth intro!: exI [of _ "i - lo"])
  then have "es' ! i \<in> set (take (hi - lo) (drop lo es))"
    using rearranged_part [OF assms(1)] assms(2-4) by (metis le_less_trans less_imp_le_nat mset_eq_setD)
  then obtain k where "k < hi - lo" "es' ! i = es ! (lo + k)"
    using assms(2) by (auto simp: in_set_conv_nth)
  then show ?thesis using that [of "lo + k"] by simp
qed

section \<open>Sorting\<close>

text \<open>The partition on a list.\<close>

fun part :: "('a \<Rightarrow> 'a \<Rightarrow> bool) \<Rightarrow> 'a \<Rightarrow> nat list \<Rightarrow> nat \<Rightarrow> 'a list \<Rightarrow> nat \<times> 'a list" where
  "part L p [] k es = (k, es)"
| "part L p (j # js) k es = (if L (es ! j) p then part L p js (k + 1) (swap k j es) else part L p js k es)"

lemma part_ok:
  assumes "part L p [j..<hi] k es = (k', es')" "lo \<le> k" "k \<le> j" "j \<le> hi" "hi \<le> length es"
    and "\<forall>x. lo \<le> x \<and> x < k \<longrightarrow> L (es ! x) p" "\<forall>x. k \<le> x \<and> x < j \<longrightarrow> \<not> L (es ! x) p"
  shows "lo \<le> k' \<and> k' \<le> hi \<and> rearranged lo hi es es' \<and>
    (\<forall>x. lo \<le> x \<and> x < k' \<longrightarrow> L (es' ! x) p) \<and> (\<forall>x. k' \<le> x \<and> x < hi \<longrightarrow> \<not> L (es' ! x) p)"
  using assms
proof (induction "hi - j" arbitrary: j k es)
  case 0
  then show ?case by simp
next
  case (Suc n)
  then have j: "[j..<hi] = j # [Suc j..<hi]" "j < hi" by (simp_all add: upt_conv_Cons)
  show ?case
  proof (cases "L (es ! j) p")
    case True
    have r: "rearranged lo hi es (swap k j es)" using Suc.prems j(2) by (intro rearranged_swap) auto
    have "lo \<le> k' \<and> k' \<le> hi \<and> rearranged lo hi (swap k j es) es' \<and>
      (\<forall>x. lo \<le> x \<and> x < k' \<longrightarrow> L (es' ! x) p) \<and> (\<forall>x. k' \<le> x \<and> x < hi \<longrightarrow> \<not> L (es' ! x) p)"
      using Suc.prems Suc.hyps(2) j True by (intro Suc.hyps(1) [of "Suc j" "k + 1"]) (auto simp: nth_swap)
    then show ?thesis using r rearranged_trans by blast
  next
    case False
    then show ?thesis using Suc.prems Suc.hyps(2) j by (intro Suc.hyps(1) [of "Suc j" k]) (auto simp: less_Suc_eq)
  qed
qed

text \<open>The array during a sort that only rearranges its elements: \<open>es\<close> at \<open>this\<close>, all else as it was.\<close>

definition with_elems :: "Value \<Rightarrow> nat \<Rightarrow> VM \<Rightarrow> Value list \<Rightarrow> VM" where
  "with_elems this cap vm es = vm\<lparr>vheap := put_obj this (OArray es cap) (vheap vm)\<rparr>"

lemma with_elems_laws:
  assumes "IS_POINTER this"
  shows "object_at this (with_elems this cap vm es) = Some (OArray es cap)"
    "sort_elems this cap (with_elems this cap vm es) = Some es"
    "i < length es \<Longrightarrow> j < length es \<Longrightarrow>
      sort_swap this cap i j (with_elems this cap vm es) = Some (with_elems this cap vm (swap i j es))"
  using assms
  by (simp_all add: with_elems_def object_at_def deref_def put_obj_def sort_elems_def sort_swap_def)

lemma with_elems_same:
  assumes "object_at this vm = Some (OArray es cap)"
  shows "with_elems this cap vm es = vm"
proof -
  have "objs (vheap vm) (get_pointer this) = Some (OArray es cap)"
    using assms by (simp add: object_at_def deref_def split: if_splits)
  then have "(objs (vheap vm))(get_pointer this \<mapsto> OArray es cap) = objs (vheap vm)" by (intro fun_upd_idem) simp
  then show ?thesis by (simp add: with_elems_def put_obj_def)
qed

text \<open>A comparison that answers \<open>L\<close> and changes nothing.\<close>

definition compares :: "caller \<Rightarrow> nat \<Rightarrow> Value \<Rightarrow> Value \<Rightarrow> nat \<Rightarrow> VM \<Rightarrow> Value set \<Rightarrow> (Value \<Rightarrow> Value \<Rightarrow> bool) \<Rightarrow> bool" where
  "compares call depth cmp this cap vm S L \<longleftrightarrow>
     (\<forall>a\<in>S. \<forall>b\<in>S. \<forall>es cont. sort_less call depth cmp a b (with_elems this cap vm es) cont =
        cont (L a b) (with_elems this cap vm es))"

lemma partition_loop_ok:
  assumes "IS_POINTER this" "compares call depth cmp this cap vm (set es) L" "p \<in> set es"
  shows "\<forall>j\<in>set js. j < length es \<Longrightarrow> k + length js \<le> length es \<Longrightarrow>
    partition_loop call depth cmp this cap p js k (with_elems this cap vm es) cont =
      (case part L p js k es of (k', es') \<Rightarrow> cont k' (with_elems this cap vm es'))"
  using assms(2,3)
proof (induction js arbitrary: k es)
  case (Cons j js)
  then have j: "j < length es" "k < length es" by auto
  have cmp: "sort_less call depth cmp (es ! j) p (with_elems this cap vm es) c =
      c (L (es ! j) p) (with_elems this cap vm es)" for c
    using Cons.prems(3,4) j by (auto simp: compares_def)
  have set: "set (swap k j es) = set es" using mset_swap_elems [OF j(2,1)] by (metis set_mset_mset)
  show ?case
  proof (cases "L (es ! j) p")
    case True
    have "partition_loop call depth cmp this cap p js (k + 1) (with_elems this cap vm (swap k j es)) cont =
        (case part L p js (k + 1) (swap k j es) of (k', es') \<Rightarrow> cont k' (with_elems this cap vm es'))"
      using Cons.prems set by (intro Cons.IH) auto
    then show ?thesis using True j cmp by (simp add: with_elems_laws [OF assms(1)])
  next
    case False
    have "partition_loop call depth cmp this cap p js k (with_elems this cap vm es) cont =
        (case part L p js k es of (k', es') \<Rightarrow> cont k' (with_elems this cap vm es'))"
      using Cons.prems by (intro Cons.IH) auto
    then show ?thesis using False j cmp by (simp add: with_elems_laws [OF assms(1)])
  qed
qed simp

definition part_sorted :: "('a \<Rightarrow> 'a \<Rightarrow> bool) \<Rightarrow> nat \<Rightarrow> nat \<Rightarrow> 'a list \<Rightarrow> bool" where
  "part_sorted L lo hi es \<longleftrightarrow> (\<forall>i j. lo \<le> i \<and> i < j \<and> j < hi \<longrightarrow> \<not> L (es ! j) (es ! i))"

text \<open>What a comparison has to be for sorting: asymmetric and transitive on the elements.\<close>

definition strict_on :: "'a set \<Rightarrow> ('a \<Rightarrow> 'a \<Rightarrow> bool) \<Rightarrow> bool" where
  "strict_on S L \<longleftrightarrow> (\<forall>a\<in>S. \<forall>b\<in>S. L a b \<longrightarrow> \<not> L b a) \<and> (\<forall>a\<in>S. \<forall>b\<in>S. \<forall>c\<in>S. L a b \<longrightarrow> L b c \<longrightarrow> L a c)"

text \<open>Two sorted parts around a pivot are sorted.\<close>

lemma part_sorted_join:
  assumes order: "strict_on (set es) L"
    and hi: "lo \<le> k" "k < hi" "hi \<le> length es"
    and s: "part_sorted L lo k es" "part_sorted L (k + 1) hi es"
    and l: "\<forall>x. lo \<le> x \<and> x < k \<longrightarrow> L (es ! x) (es ! k)" and g: "\<forall>x. k < x \<and> x < hi \<longrightarrow> \<not> L (es ! x) (es ! k)"
  shows "part_sorted L lo hi es"
  unfolding part_sorted_def
proof (intro allI impI)
  fix i j assume ij: "lo \<le> i \<and> i < j \<and> j < hi"
  have mem: "es ! i \<in> set es" "es ! j \<in> set es" "es ! k \<in> set es" using ij hi by auto
  consider "j < k" | "j = k" | "k < i" | "i = k" | "i < k" "k < j" using ij by linarith
  then show "\<not> L (es ! j) (es ! i)"
  proof cases
    case 5
    then have "L (es ! i) (es ! k)" "\<not> L (es ! j) (es ! k)" using l g ij by auto
    then show ?thesis using order mem unfolding strict_on_def by blast
  next
    case 2
    then show ?thesis using order mem l ij unfolding strict_on_def by blast
  qed (use s g ij in \<open>auto simp: part_sorted_def\<close>)
qed

lemma pivot_sorted:
  assumes order: "strict_on S L"
    and S: "set es4 = S" and k: "lo \<le> k" "k < stop" "stop \<le> length es2"
    and 3: "rearranged lo k es2 es3" "part_sorted L lo k es3"
    and 4: "rearranged (k + 1) stop es3 es4" "part_sorted L (k + 1) stop es4"
    and l: "\<forall>x. lo \<le> x \<and> x < k \<longrightarrow> L (es2 ! x) (es2 ! k)" and g: "\<forall>x. k < x \<and> x < stop \<longrightarrow> \<not> L (es2 ! x) (es2 ! k)"
  shows "part_sorted L lo stop es4"
proof -
  have len: "length es3 = length es2" "length es4 = length es2" using 3(1) 4(1) by (auto simp: rearranged_def)
  have low: "es4 ! x = es3 ! x" if "x \<le> k" for x using that 4(1) k len by (auto simp: rearranged_def)
  have high: "es3 ! x = es2 ! x" if "k \<le> x" "x < stop" for x using that 3(1) k by (auto simp: rearranged_def)
  have piv: "es4 ! k = es2 ! k" using low high k by simp
  have "L (es4 ! x) (es4 ! k)" if x: "lo \<le> x" "x < k" for x
  proof -
    obtain j where "lo \<le> j" "j < k" "es3 ! x = es2 ! j" using rearranged_nth [OF 3(1) _ x] k by auto
    then show ?thesis using l low [of x] piv x by simp
  qed
  moreover have "\<not> L (es4 ! x) (es4 ! k)" if x: "k < x" "x < stop" for x
  proof -
    obtain j where "k + 1 \<le> j" "j < stop" "es4 ! x = es3 ! j" using rearranged_nth [OF 4(1), of x] x k len by auto
    then show ?thesis using g high [of j] piv by simp
  qed
  moreover have "part_sorted L lo k es4" using 3(2) low by (simp add: part_sorted_def)
  ultimately show ?thesis using part_sorted_join [OF order [folded S] k(1,2) _ _ 4(2)] k(3) len by simp
qed

lemma partition_step:
  assumes ptr: "IS_POINTER this" and cmp: "compares call depth cmp this cap vm (set es) L"
    and b: "lo + 1 < stop" "stop \<le> length es"
  obtains k es2 where "lo \<le> k" "k < stop" "rearranged lo stop es es2"
    "\<forall>x. lo \<le> x \<and> x < k \<longrightarrow> L (es2 ! x) (es2 ! k)" "\<forall>x. k < x \<and> x < stop \<longrightarrow> \<not> L (es2 ! x) (es2 ! k)"
    "\<And>n cont. js_array_sort_quick (Suc n) call depth cmp this cap lo stop (with_elems this cap vm es) cont =
      js_array_sort_quick n call depth cmp this cap lo k (with_elems this cap vm es2)
        (\<lambda>vm. js_array_sort_quick n call depth cmp this cap (k + 1) stop vm cont)"
proof -
  note w = with_elems_laws [OF ptr]
  let ?hi = "stop - 1" let ?p = "es ! (stop - 1)"
  obtain k es1 where pt: "part L ?p [lo..<?hi] lo es = (k, es1)" by force
  have 1: "lo \<le> k \<and> k \<le> ?hi \<and> rearranged lo ?hi es es1 \<and> (\<forall>x. lo \<le> x \<and> x < k \<longrightarrow> L (es1 ! x) ?p) \<and>
      (\<forall>x. k \<le> x \<and> x < ?hi \<longrightarrow> \<not> L (es1 ! x) ?p)"
    using b by (intro part_ok [OF pt order_refl order_refl]) auto
  then have len: "length es1 = length es" "es1 ! ?hi = ?p" using b by (auto simp: rearranged_def)
  let ?es2 = "swap k ?hi es1"
  have "rearranged lo stop es1 ?es2" using 1 len b by (intro rearranged_swap) auto
  then have r: "rearranged lo stop es ?es2" using 1 rearranged_mono [of lo ?hi es es1 lo stop] rearranged_trans by auto
  have nth: "?es2 ! k = ?p" "x < stop \<Longrightarrow> x \<noteq> k \<Longrightarrow> ?es2 ! x = (if x = ?hi then es1 ! k else es1 ! x)" for x
    using 1 len b by (auto simp: nth_swap)
  have g: "\<not> L (?es2 ! x) (?es2 ! k)" if "k < x" "x < stop" for x
    using that 1 nth(2) [of x] unfolding nth(1) by (cases "x = ?hi") auto
  have l: "L (?es2 ! x) (?es2 ! k)" if "lo \<le> x" "x < k" for x
    using that 1 nth(2) [of x] b unfolding nth(1) by (cases "x = ?hi") auto
  have "partition_loop call depth cmp this cap ?p [lo..<?hi] lo (with_elems this cap vm es) c = c k (with_elems this cap vm es1)" for c
    using partition_loop_ok [OF ptr cmp, of ?p "[lo..<?hi]" lo c] b pt by auto
  moreover have "sort_swap this cap k ?hi (with_elems this cap vm es1) = Some (with_elems this cap vm ?es2)"
    using 1 len b by (intro w(3)) auto
  ultimately have "js_array_sort_quick (Suc n) call depth cmp this cap lo stop (with_elems this cap vm es) cont =
      js_array_sort_quick n call depth cmp this cap lo k (with_elems this cap vm ?es2)
        (\<lambda>vm. js_array_sort_quick n call depth cmp this cap (k + 1) stop vm cont)" for n cont
    using b by (simp add: w(2))
  then show ?thesis using that [of k ?es2] 1 b r g l by auto
qed

lemma sort_quick_ok:
  assumes ptr: "IS_POINTER this"
    and order: "strict_on S L"
    and cmp: "compares call depth cmp this cap vm S L"
  shows "stop - lo \<le> n \<Longrightarrow> stop \<le> length es \<Longrightarrow> set es = S \<Longrightarrow>
    \<exists>es'. rearranged lo stop es es' \<and> part_sorted L lo stop es' \<and>
      js_array_sort_quick n call depth cmp this cap lo stop (with_elems this cap vm es) cont = cont (with_elems this cap vm es')"
proof (induction n arbitrary: lo stop es cont)
  case 0
  then show ?case by (auto simp: part_sorted_def intro!: exI [of _ es])
next
  case (Suc n)
  have same: "set b = S \<and> length b = length a" if "rearranged i j a b" "set a = S" for i j a b
    using that by (metis rearranged_def set_mset_mset)
  show ?case
  proof (cases "lo + 1 < stop")
    case False
    then show ?thesis by (auto simp: part_sorted_def intro!: exI [of _ es])
  next
    case True
    obtain k es2 where 2: "lo \<le> k" "k < stop" "rearranged lo stop es es2"
      "\<forall>x. lo \<le> x \<and> x < k \<longrightarrow> L (es2 ! x) (es2 ! k)" "\<forall>x. k < x \<and> x < stop \<longrightarrow> \<not> L (es2 ! x) (es2 ! k)"
      "\<And>n cont. js_array_sort_quick (Suc n) call depth cmp this cap lo stop (with_elems this cap vm es) cont =
        js_array_sort_quick n call depth cmp this cap lo k (with_elems this cap vm es2)
          (\<lambda>vm. js_array_sort_quick n call depth cmp this cap (k + 1) stop vm cont)"
      using partition_step [OF ptr cmp [folded Suc.prems(3)] True Suc.prems(2)] by blast
    note s2 = same [OF 2(3) Suc.prems(3)]
    have fuel: "k - lo \<le> n" "stop - (k + 1) \<le> n" using Suc.prems(1) 2(1,2) by auto
    define cont2 where "cont2 = (\<lambda>vm. js_array_sort_quick n call depth cmp this cap (k + 1) stop vm cont)"
    obtain es3 where 3: "rearranged lo k es2 es3" "part_sorted L lo k es3"
      "js_array_sort_quick n call depth cmp this cap lo k (with_elems this cap vm es2) cont2 = cont2 (with_elems this cap vm es3)"
      using Suc.IH [where lo = lo and stop = k and es = es2 and cont = cont2] fuel(1) 2(2) s2 Suc.prems(2) by auto
    note s3 = same [OF 3(1) conjunct1 [OF s2]]
    obtain es4 where 4: "rearranged (k + 1) stop es3 es4" "part_sorted L (k + 1) stop es4"
      "js_array_sort_quick n call depth cmp this cap (k + 1) stop (with_elems this cap vm es3) cont = cont (with_elems this cap vm es4)"
      using Suc.IH [where lo = "k + 1" and stop = stop and es = es3 and cont = cont] fuel(2) s2 s3 Suc.prems(2) by auto
    note s4 = same [OF 4(1) conjunct1 [OF s3]]
    have r: "rearranged lo stop es es4"
      using rearranged_trans [OF rearranged_trans [OF 2(3) rearranged_mono [OF 3(1), of lo stop]] rearranged_mono [OF 4(1), of lo stop]] 2(1,2) by simp
    have "stop \<le> length es2" using s2 Suc.prems(2) by simp
    then have "part_sorted L lo stop es4" using pivot_sorted [OF order conjunct1 [OF s4] 2(1,2) _ 3(1,2) 4(1,2) 2(4,5)] by blast
    then show ?thesis using r 2(6) 3(3) 4(3) unfolding cont2_def by auto
  qed
qed

lemma sort_ok:
  assumes arr: "object_at this vm = Some (OArray es cap)" and order: "strict_on (set es) L"
    and cmp: "compares call depth (if args \<noteq> [] \<and> IS_POINTER (args ! 0) then args ! 0 else VAL_UNDEFINED) this cap vm (set es) L"
  shows "\<exists>es'. js_array_sort call depth this args vm = Some (Finished this (with_elems this cap vm es')) \<and>
    mset es' = mset es \<and> sorted_wrt (\<lambda>x y. \<not> L y x) es'"
proof -
  have ptr: "IS_POINTER this" using arr by (auto simp: object_at_def deref_def split: if_splits)
  show ?thesis
  proof (cases "length es \<le> 1")
    case True
    then have "sorted_wrt (\<lambda>x y. \<not> L y x) es" by (simp add: sorted_wrt_iff_nth_less)
    with True arr ptr with_elems_same [OF arr] show ?thesis by (auto simp: js_array_sort_def intro!: exI [of _ es])
  next
    case False
    obtain es' where "rearranged 0 (length es) es es'" "part_sorted L 0 (length es) es'"
      "js_array_sort_quick (length es) call depth (if args \<noteq> [] \<and> IS_POINTER (args ! 0) then args ! 0 else VAL_UNDEFINED)
        this cap 0 (length es) vm (\<lambda>vm. Some (Finished this vm)) = Some (Finished this (with_elems this cap vm es'))"
      using sort_quick_ok [OF ptr order cmp, of "length es" 0 "length es" es] with_elems_same [OF arr] by auto
    then show ?thesis using False arr ptr
      by (auto simp: js_array_sort_def Let_def rearranged_def part_sorted_def sorted_wrt_iff_nth_less)
  qed
qed


text \<open>The order of texts.\<close>

lemma c_strcmp_lex: "c_strcmp s t < 0 \<longleftrightarrow> (map of_char s, map of_char t) \<in> lexord {(x, y :: nat). x < y}"
  by (induction s t rule: c_strcmp.induct) auto

lemma strcmp_strict: "strict_on S (\<lambda>a b. c_strcmp (key a) (key b) < 0)"
proof -
  have tr: "trans (lexord {(x, y :: nat). x < y})" by (rule lexord_transI) (auto simp: trans_def)
  have ir: "(x, x) \<notin> lexord {(x, y :: nat). x < y}" for x by (rule lexord_irreflexive) auto
  show ?thesis unfolding strict_on_def c_strcmp_lex
  proof (intro conjI ballI impI)
    show "(b, a) \<notin> lexord {(x, y :: nat). x < y}" if "(a, b) \<in> lexord {(x, y :: nat). x < y}" for a b
      using transD [OF tr that, of a] ir by blast
  qed (rule transD [OF tr])
qed

lemma text_of_string:
  assumes "str_of h v = Some s" "get_pointer v \<noteq> 0"
  shows "text_of (Suc depth) v h = Some (s, h)"
proof -
  have d: "deref h v = Some (OString s)" using assms(1) by (simp add: str_of_def split: option.splits hobj.splits)
  then have "IS_POINTER v" by (simp add: deref_def split: if_splits)
  with d assms show ?thesis by (simp add: text_of_def)
qed

text \<open>
  sort_strings (functional): without a function \<open>sort\<close> puts an array of strings into the order of their bytes, up to the first
  terminator, and keeps the multiset of its elements.
\<close>

theorem sort_strings:
  assumes arr: "object_at this vm = Some (OArray es cap)"
    and strs: "\<forall>v\<in>set es. str_of (vheap vm) v = Some (txt v) \<and> get_pointer v \<noteq> 0"
  shows "\<exists>es'. js_array_sort call (Suc depth) this [] vm = Some (Finished this (with_elems this cap vm es')) \<and>
    mset es' = mset es \<and> sorted_wrt (\<lambda>x y. 0 \<le> c_strcmp (c_text (txt y)) (c_text (txt x))) es'"
proof -
  let ?L = "\<lambda>a b. c_strcmp (c_text (txt a)) (c_text (txt b)) < 0"
  have keep: "str_of (vheap (with_elems this cap vm es')) v = Some (txt v)" if "v \<in> set es" for v es'
    using put_obj_str [of "vheap vm" this "OArray es cap" "OArray es' cap" v] strs that arr
    by (simp add: with_elems_def object_at_def)
  have "compares call (Suc depth) VAL_UNDEFINED this cap vm (set es) ?L"
    unfolding compares_def
  proof (intro ballI allI)
    fix a b es' cont assume "a \<in> set es" "b \<in> set es"
    then show "sort_less call (Suc depth) VAL_UNDEFINED a b (with_elems this cap vm es') cont =
        cont (?L a b) (with_elems this cap vm es')"
      using text_of_string [OF keep] strs by (simp add: sort_less_def)
  qed
  then show ?thesis using sort_ok [OF arr strcmp_strict [of _ "\<lambda>v. c_text (txt v)"], of call "Suc depth" "[]"]
    by (simp add: not_less)
qed

section \<open>Moving elements\<close>

lemma nth_move_up:
  "len + d \<le> length m \<Longrightarrow> length (move_up lo len d m) = length m \<and>
   (\<forall>i<length m. move_up lo len d m ! i = (if lo + d \<le> i \<and> i < len + d then m ! (i - d) else m ! i))"
proof (induction len arbitrary: m)
  case (Suc n)
  show ?case
  proof (cases "lo \<le> n")
    case True
    let ?m = "m[n + d := m ! n]"
    have "move_up lo (Suc n) d m = move_up lo n d ?m" using True by (simp add: move_up_def)
    then show ?thesis using Suc.IH [of ?m] Suc.prems True by (auto simp: nth_list_update less_Suc_eq)
  next
    case False
    then show ?thesis by (auto simp: move_up_def)
  qed
qed (auto simp: move_up_def)

lemma nth_move_down:
  "d \<le> lo \<Longrightarrow> len \<le> length m \<Longrightarrow> length (move_down lo len d m) = length m \<and>
   (\<forall>i<length m. move_down lo len d m ! i = (if lo - d \<le> i \<and> i < len - d then m ! (i + d) else m ! i))"
proof (induction len)
  case (Suc n)
  show ?case
  proof (cases "lo \<le> n")
    case True
    have "move_down lo (Suc n) d m = (move_down lo n d m)[n - d := move_down lo n d m ! n]"
      using True by (simp add: move_down_def)
    then show ?thesis using Suc True by (auto simp: nth_list_update less_Suc_eq)
  next
    case False
    then show ?thesis using Suc.prems by (auto simp: move_down_def)
  qed
qed (simp add: move_down_def)

lemma nth_write_at:
  assumes "start + length vs \<le> length m"
  shows "length (write_at start vs m) = length m \<and>
   (\<forall>i<length m. write_at start vs m ! i = (if start \<le> i \<and> i < start + length vs then vs ! (i - start) else m ! i))"
proof -
  have "k \<le> length vs \<Longrightarrow> length (fold (\<lambda>i m. m[start + i := vs ! i]) [0..<k] m) = length m \<and>
     (\<forall>i<length m. fold (\<lambda>i m. m[start + i := vs ! i]) [0..<k] m ! i =
        (if start \<le> i \<and> i < start + k then vs ! (i - start) else m ! i))" for k
    using assms by (induction k) (auto simp: nth_list_update less_Suc_eq)
  from this [of "length vs"] show ?thesis by (simp add: write_at_def)
qed

lemma splice_elems_ok:
  assumes "start + del \<le> length es" "length es + length add - del \<le> cap" "length es \<le> cap"
  shows "splice_elems start del add cap es = take start es @ add @ drop (start + del) es"
proof -
  let ?n = "length add" and ?m = "es @ replicate (cap - length es) VAL_EMPTY"
  define m' where "m' = (if ?n > del then move_up (start + del) (length es) (?n - del) ?m
    else if ?n < del then move_down (start + del) (length es) (del - ?n) ?m else ?m)"
  have m': "length m' = cap" "\<forall>i < start. m' ! i = es ! i"
    "\<forall>i. start + ?n \<le> i \<and> i < length es + ?n - del \<longrightarrow> m' ! i = es ! (i + del - ?n)"
    using assms nth_move_up [of "length es" "?n - del" ?m "start + del"] nth_move_down [of "del - ?n" "start + del" "length es" ?m]
    by (auto simp: m'_def nth_append)
  have w: "length (write_at start add m') = cap"
    "\<forall>i<cap. write_at start add m' ! i = (if start \<le> i \<and> i < start + ?n then add ! (i - start) else m' ! i)"
    using nth_write_at [of start add m'] assms m'(1) by auto
  have "splice_elems start del add cap es = take (length es + ?n - del) (write_at start add m')"
    by (simp add: splice_elems_def m'_def Let_def)
  also have "\<dots> = take start es @ add @ drop (start + del) es"
  proof (rule nth_equalityI)
    show "length (take (length es + ?n - del) (write_at start add m')) = length (take start es @ add @ drop (start + del) es)"
      using assms w(1) by auto
    fix i assume "i < length (take (length es + ?n - del) (write_at start add m'))"
    then have i: "i < length es + ?n - del" "i < cap" using assms w(1) by auto
    consider "i < start" | "start \<le> i" "i < start + ?n" | "start + ?n \<le> i" by linarith
    then show "take (length es + ?n - del) (write_at start add m') ! i = (take start es @ add @ drop (start + del) es) ! i"
      using i w(2) m' assms by cases (auto simp: nth_append intro!: arg_cong [of _ _ "(!) es"])
  qed
  finally show ?thesis .
qed

lemma reverse_swaps: "fold (\<lambda>i es. swap i (length es - 1 - i) es) [0..<length es div 2] es = rev es"
proof -
  let ?f = "\<lambda>k. fold (\<lambda>i es. swap i (length es - 1 - i) es) [0..<k] es" and ?n = "length es"
  have f: "length (?f k) = ?n \<and> (\<forall>i<?n. ?f k ! i = (if i < k \<or> ?n - k \<le> i then es ! (?n - 1 - i) else es ! i))"
    if "k \<le> ?n div 2" for k
    using that
  proof (induction k)
    case (Suc k)
    let ?l = "?n - 1 - k"
    have k: "k < ?l" "?l < ?n - k" "?l < ?n" "?n - 1 - ?l = k" using Suc.prems by linarith+
    note IH = Suc.IH [OF Suc_leD [OF Suc.prems]]
    have step: "?f (Suc k) = swap k ?l (?f k)" using IH by simp
    have "?f (Suc k) ! i = (if i < Suc k \<or> ?n - Suc k \<le> i then es ! (?n - 1 - i) else es ! i)" if "i < ?n" for i
    proof -
      have a: "?f (Suc k) ! i = (if i = ?l then ?f k ! k else if i = k then ?f k ! ?l else ?f k ! i)"
        unfolding step using IH that k by (intro nth_swap) auto
      have b: "?f k ! k = es ! k" "?f k ! ?l = es ! ?l" using IH k by auto
      have c: "?f k ! i = (if i < k \<or> ?n - k \<le> i then es ! (?n - 1 - i) else es ! i)" using IH that by blast
      have d: "i = ?l \<or> i = k \<or> (i < k \<or> ?n - k \<le> i) = (i < Suc k \<or> ?n - Suc k \<le> i)" by linarith
      show ?thesis unfolding a b c using d k by auto
    qed
    moreover have "length (?f (Suc k)) = ?n" using IH step by simp
    ultimately show ?case by blast
  qed simp
  have "?f (?n div 2) ! i = rev es ! i" if "i < ?n" for i
  proof (cases "i < ?n div 2 \<or> ?n - ?n div 2 \<le> i")
    case True
    then show ?thesis using f [of "?n div 2"] that by (simp add: rev_nth)
  next
    case False
    then have "?n - 1 - i = i" by linarith
    then show ?thesis using f [of "?n div 2"] that False by (simp add: rev_nth)
  qed
  then show ?thesis using f [of "?n div 2"] by (intro nth_equalityI) simp_all
qed

section \<open>Pushing and splicing\<close>

lemma put_obj_twice [simp]: "put_obj v a (put_obj v b h) = put_obj v a h"
  by (simp add: put_obj_def)

lemma put_obj_same:
  assumes "deref h v = Some ob"
  shows "put_obj v ob h = h"
proof -
  have "(objs h)(get_pointer v \<mapsto> ob) = objs h"
    using assms by (intro fun_upd_idem) (simp add: deref_def split: if_splits)
  then show ?thesis by (simp add: put_obj_def)
qed

lemma put_obj_views:
  assumes "deref h v = Some ob"
  shows "deref (put_obj v ob' h) v = Some ob'" "deref h w = Some x \<Longrightarrow> deref (put_obj v ob' h) w \<noteq> None"
    "deref h w = None \<or> get_pointer w \<noteq> get_pointer v \<Longrightarrow> deref (put_obj v ob' h) w = deref h w"
  using assms by (auto simp: deref_def put_obj_def split: if_splits)

lemma push_all_ok:
  "deref h a = Some (OArray es cap) \<Longrightarrow> length es \<le> cap \<Longrightarrow> 0 < cap \<Longrightarrow>
   \<exists>cap'. push_all a vs h = Some (put_obj a (OArray (es @ vs) cap') h) \<and> length (es @ vs) \<le> cap' \<and> 0 < cap'"
proof (induction vs arbitrary: es cap h)
  case Nil
  then show ?case by (auto simp: push_all_def put_obj_same intro!: exI [of _ cap])
next
  case (Cons v vs)
  let ?cap = "if length es \<ge> cap then cap * 2 else cap"
  let ?h = "put_obj a (OArray (es @ [v]) ?cap) h"
  have "array_push a v h = Some (make_integer (of_nat (length es + 1)), ?h)"
    using Cons.prems by (auto simp: array_push_def Let_def)
  moreover have "\<exists>cap'. push_all a vs ?h = Some (put_obj a (OArray ((es @ [v]) @ vs) cap') ?h) \<and>
      length ((es @ [v]) @ vs) \<le> cap' \<and> 0 < cap'"
    using Cons.prems by (intro Cons.IH [OF put_obj_views(1) [OF Cons.prems(1)]]) auto
  ultimately show ?case by (auto simp: push_all_def)
qed

lemma create_array_ok:
  assumes "heap_ok h" "room h 1" "create_array n h = (v, h1)"
  shows "deref h1 v = Some (OArray [] (if n > 0 then n else 4))" "extends h h1" "deref h v = None" "IS_POINTER v" "heap_ok h1"
  using heap_alloc_laws [OF assms(1,2), of "OArray [] (if n > 0 then n else 4)" v h1] assms(3)
  by (auto simp: create_array_def)

lemma i32_small: "- (2 ^ 31) \<le> x \<Longrightarrow> x < 2 ^ 31 \<Longrightarrow> i32 x = x"
  unfolding i32_def by (subst sint_sbintrunc') (simp add: signed_take_bit_int_eq_self)

text \<open>The start and the number of removed elements that the language prescribes for \<open>splice(start, count, ...)\<close>.\<close>

definition js_start :: "nat \<Rightarrow> int \<Rightarrow> nat" where
  "js_start len i = nat (if i < 0 then max 0 (int len + i) else min (int len) i)"

definition js_count :: "nat \<Rightarrow> nat \<Rightarrow> int \<Rightarrow> nat" where
  "js_count len start n = nat (min (int len - int start) (max 0 n))"

lemma sint_bounds: "- (2 ^ 31) \<le> sint (w :: u32)" "sint (w :: u32) < 2 ^ 31"
  using sint_range_size [of w] by (auto simp: word_size)

lemma int_or_integer [simp]: "int_or dflt (make_integer i) = Some (sint i)"
  by (simp add: int_or_def)

lemma splice_start_ok:
  assumes "n < 2 ^ 31" "- (2 ^ 31) \<le> x" "x < 2 ^ 31"
  shows "splice_start n x = int (js_start n x)"
proof -
  have "i32 (int n) = int n" "x < 0 \<Longrightarrow> i32 (int n + x) = int n + x" using assms by (auto intro!: i32_small)
  then show ?thesis by (auto simp: splice_start_def js_start_def Let_def)
qed

lemma splice_count_ok:
  assumes "n < 2 ^ 31" "start \<le> n" "int start + sint dl < 2 ^ 31"
  shows "splice_count (v # make_integer dl # vs) n (int start) = Some (int (js_count n start (sint dl)))"
proof -
  have "i32 (int n) = int n" "i32 (int n - int start) = int n - int start" using assms by (auto intro!: i32_small)
  moreover have "in_int32 (int start + max 0 (sint dl))" using assms by (auto simp: in_int32_def)
  moreover have "(if sint dl < 0 then 0 else sint dl) = max 0 (sint dl)" by auto
  ultimately show ?thesis using assms(2) by (auto simp: splice_count_def js_count_def min_def Let_def)
qed


section \<open>Callbacks\<close>

text \<open>A function that only computes.\<close>

definition pure_call :: "caller \<Rightarrow> Value \<Rightarrow> (Value list \<Rightarrow> Value) \<Rightarrow> bool" where
  "pure_call call cb f \<longleftrightarrow> (\<forall>args vm. call cb args vm = Some (Finished (f args) vm))"

definition cb_args :: "Value \<Rightarrow> Value list \<Rightarrow> nat \<Rightarrow> Value list" where
  "cb_args this es i = [es ! i, index_value i, this]"

lemma pop_push [simp]: "vm_pop_root (vm_push_root v vm) = vm"
  by (simp add: vm_pop_root_def vm_push_root_def)

lemma object_at_roots [simp]:
  "object_at v (vm_push_root w vm) = object_at v vm" "vheap (vm_push_root w vm) = vheap vm"
  "object_at v (vm_pop_root vm) = object_at v vm" "vheap (vm_pop_root vm) = vheap vm"
  by (simp_all add: vm_push_root_def vm_pop_root_def object_at_def)

lemma element_at: "object_at this vm = Some (OArray es cap) \<Longrightarrow> i < length es \<Longrightarrow> element this i vm = Some (es ! i)"
  by (simp add: element_def)

lemma every_loop_ok:
  assumes "pure_call call cb f" "object_at this vm = Some (OArray es cap)"
  shows "\<forall>i\<in>set is. i < length es \<Longrightarrow>
    every_loop call this cb is vm = Some (Finished (bool_value (\<forall>i\<in>set is. is_truthy (f (cb_args this es i)))) vm)"
  using assms by (induction "is") (auto simp: element_at pure_call_def call_then_def bool_value_def cb_args_def)

lemma reduce_loop_ok:
  assumes "pure_call call cb f"
  shows "\<forall>i\<in>set is. i < length es \<Longrightarrow> object_at this vm = Some (OArray es cap) \<Longrightarrow>
    \<exists>v'. reduce_loop call this cb acc is (vm_push_root v vm) =
      Some (Finished (fold (\<lambda>i acc. f (acc # cb_args this es i)) is acc) (vm_push_root v' vm))"
proof (induction "is" arbitrary: acc v)
  case (Cons i "is")
  have "set_last_root w (vm_push_root v vm) = vm_push_root w vm" for w
    by (simp add: set_last_root_def vm_push_root_def)
  with Cons assms show ?case by (simp add: element_at pure_call_def call_then_def cb_args_def)
qed auto

lemma map_loop_ok:
  assumes f: "pure_call call cb f" and neq: "get_pointer this \<noteq> get_pointer res"
  shows "object_at this vm = Some (OArray es cap) \<Longrightarrow> object_at res vm = Some (OArray rs c) \<Longrightarrow>
    length rs = length es \<Longrightarrow> k + m = length es \<Longrightarrow>
    \<exists>rs'. map_loop call this cb res [k..<k + m] vm =
        Some (Finished res (vm\<lparr>vheap := put_obj res (OArray rs' c) (vheap vm)\<rparr>)) \<and>
      rs' = take k rs @ map (\<lambda>i. f (cb_args this es i)) [k..<k + m]"
proof (induction m arbitrary: k rs vm)
  case 0
  then show ?case by (auto simp: object_at_def put_obj_same)
next
  case (Suc m)
  let ?v = "f (cb_args this es k)"
  let ?vm = "vm\<lparr>vheap := put_obj res (OArray (rs[k := ?v]) c) (vheap vm)\<rparr>"
  have k: "[k..<k + Suc m] = k # [Suc k..<Suc k + m]" "k < length es" using Suc.prems(4) by (simp_all add: upt_conv_Cons del: upt_Suc)
  have "object_at this ?vm = Some (OArray es cap)" "object_at res ?vm = Some (OArray (rs[k := ?v]) c)"
    using Suc.prems(1,2) neq put_obj_views(1,3) [of "vheap vm" res] by (auto simp: object_at_def)
  from Suc.IH [OF this, of "Suc k"] Suc.prems(3,4)
  have "map_loop call this cb res [Suc k..<Suc k + m] ?vm =
      Some (Finished res (?vm\<lparr>vheap := put_obj res (OArray (take (Suc k) (rs[k := ?v]) @
        map (\<lambda>i. f (cb_args this es i)) [Suc k..<Suc k + m]) c) (vheap ?vm)\<rparr>))" by (simp del: upt_Suc)
  moreover have "take (Suc k) (rs[k := ?v]) = take k rs @ [?v]" using k(2) Suc.prems(3) by (simp add: take_Suc_conv_app_nth)
  ultimately show ?case using Suc.prems f k
    by (simp add: element_at pure_call_def call_then_def store_element_def cb_args_def del: upt_Suc)
qed

lemma filter_elems_loop_ok:
  assumes f: "pure_call call cb f" and neq: "get_pointer this \<noteq> get_pointer res"
  shows "object_at this vm = Some (OArray es cap) \<Longrightarrow> object_at res vm = Some (OArray rs c) \<Longrightarrow> length rs \<le> c \<Longrightarrow> 0 < c \<Longrightarrow>
    \<forall>i\<in>set is. i < length es \<Longrightarrow>
    \<exists>c'. filter_elems_loop call this cb res is vm =
      Some (Finished res (vm\<lparr>vheap := put_obj res (OArray (rs @ map ((!) es)
        (filter (\<lambda>i. is_truthy (f (cb_args this es i))) is)) c') (vheap vm)\<rparr>))"
proof (induction "is" arbitrary: rs c vm)
  case Nil
  then show ?case by (auto simp: object_at_def put_obj_same intro!: exI [of _ c])
next
  case (Cons i "is")
  show ?case
  proof (cases "is_truthy (f (cb_args this es i))")
    case True
    obtain c1 where c1: "push_all res [es ! i] (vheap vm) = Some (put_obj res (OArray (rs @ [es ! i]) c1) (vheap vm))"
      "length (rs @ [es ! i]) \<le> c1" "0 < c1"
      using push_all_ok [OF Cons.prems(2) [unfolded object_at_def] Cons.prems(3,4)] by blast
    let ?vm = "vm\<lparr>vheap := put_obj res (OArray (rs @ [es ! i]) c1) (vheap vm)\<rparr>"
    have "object_at this ?vm = Some (OArray es cap)" "object_at res ?vm = Some (OArray (rs @ [es ! i]) c1)"
      using Cons.prems(1,2) neq put_obj_views(1,3) [of "vheap vm" res] by (auto simp: object_at_def)
    from Cons.IH [OF this c1(2,3)] Cons.prems(5) show ?thesis
      using Cons.prems True f c1(1) by (auto simp: element_at pure_call_def call_then_def in_heap_def cb_args_def)
  next
    case False
    then show ?thesis using Cons.IH [OF Cons.prems(1-4)] Cons.prems f
      by (auto simp: element_at pure_call_def call_then_def cb_args_def)
  qed
qed

lemma fresh_array:
  assumes "heap_ok (vheap vm)" "room (vheap vm) 1" "object_at this vm = Some ob" "alloc_in (create_array n) vm = (res, vm1)"
  shows "object_at res vm1 = Some (OArray [] (if n > 0 then n else 4))" "object_at this vm1 = Some ob"
    "get_pointer this \<noteq> get_pointer res" "vm1 = vm\<lparr>vheap := vheap vm1\<rparr>"
proof -
  obtain h1 where h1: "create_array n (vheap vm) = (res, h1)" "vm1 = vm\<lparr>vheap := h1\<rparr>"
    using assms(4) by (auto simp: alloc_in_def split: prod.splits)
  note c = create_array_ok [OF assms(1,2) h1(1)]
  show "object_at res vm1 = Some (OArray [] (if n > 0 then n else 4))" using c(1) h1(2) by (simp add: object_at_def)
  show "object_at this vm1 = Some ob" using c(2) assms(3) h1(2) by (simp add: object_at_def extends_def)
  show "get_pointer this \<noteq> get_pointer res" using c(3,4) assms(3) by (auto simp: object_at_def deref_def split: if_splits)
  show "vm1 = vm\<lparr>vheap := vheap vm1\<rparr>" using h1(2) by simp
qed

lemma rooted_array:
  assumes "object_at this vm = Some (OArray es cap)" "IS_POINTER cb"
    and "body (length es) cb (vm_push_root cb (vm_push_root this vm)) = Some (Finished v (vm_push_root cb (vm_push_root this vm')))"
  shows "rooted dflt this (cb # args) vm body = Some (Finished v vm')"
  using assms by (auto simp: rooted_def call_then_def object_at_def deref_def split: if_splits)

lemma push_root_heap: "(vm_push_root a vm)\<lparr>vheap := h\<rparr> = vm_push_root a (vm\<lparr>vheap := h\<rparr>)"
  by (simp add: vm_push_root_def)

lemma js_array_map_ok:
  assumes f: "pure_call call cb f" "IS_POINTER cb" and h: "heap_ok (vheap vm)" "room (vheap vm) 1"
    and arr: "object_at this vm = Some (OArray es cap)"
  shows "\<exists>v c h'. js_array_map call this [cb] vm = Some (Finished v (vm\<lparr>vheap := h'\<rparr>)) \<and>
    deref h' v = Some (OArray (map (\<lambda>i. f (cb_args this es i)) [0..<length es]) c) \<and> deref h' this = Some (OArray es cap)"
proof -
  let ?vm = "vm_push_root cb (vm_push_root this vm)" and ?c = "if length es > 0 then length es else 4"
  obtain res vm1 where r: "alloc_in (create_array (length es)) ?vm = (res, vm1)" by force
  have arr': "heap_ok (vheap ?vm)" "room (vheap ?vm) 1" "object_at this ?vm = Some (OArray es cap)" using h arr by simp_all
  note a = fresh_array [OF arr' r]
  let ?h2 = "put_obj res (OArray (replicate (length es) VAL_EMPTY) ?c) (vheap vm1)"
  let ?vm2 = "vm_push_root res (vm1\<lparr>vheap := ?h2\<rparr>)"
  have o2: "object_at this ?vm2 = Some (OArray es cap)" "object_at res ?vm2 = Some (OArray (replicate (length es) VAL_EMPTY) ?c)"
    using a(1-3) put_obj_views(1,3) [OF a(1) [unfolded object_at_def]] by (auto simp: object_at_def)
  let ?rs = "map (\<lambda>i. f (cb_args this es i)) [0..<length es]"
  let ?h3 = "put_obj res (OArray ?rs ?c) (vheap vm1)"
  have "map_loop call this cb res [0..<length es] ?vm2 = Some (Finished res (?vm2\<lparr>vheap := put_obj res (OArray ?rs ?c) (vheap ?vm2)\<rparr>))"
    using map_loop_ok [OF f(1) a(3) o2, of 0 "length es"] by simp
  moreover have "?vm2\<lparr>vheap := put_obj res (OArray ?rs ?c) (vheap ?vm2)\<rparr> = vm_push_root res (?vm\<lparr>vheap := ?h3\<rparr>)"
    using arg_cong [OF a(4), of "\<lambda>v. v\<lparr>vheap := ?h3\<rparr>"] by (simp add: push_root_heap)
  ultimately have "js_array_map call this [cb] vm = Some (Finished res (vm\<lparr>vheap := ?h3\<rparr>))"
    unfolding js_array_map_def
    by (intro rooted_array [OF arr f(2)]) (simp add: r call_then_def push_root_heap)
  moreover have "deref ?h3 res = Some (OArray ?rs ?c)" "deref ?h3 this = Some (OArray es cap)"
    using a(2,3) put_obj_views(1,3) [OF a(1) [unfolded object_at_def]] by (auto simp: object_at_def)
  ultimately show ?thesis by blast
qed

lemma js_array_filter_ok:
  assumes f: "pure_call call cb f" "IS_POINTER cb" and h: "heap_ok (vheap vm)" "room (vheap vm) 1"
    and arr: "object_at this vm = Some (OArray es cap)"
  shows "\<exists>v c h'. js_array_filter call this [cb] vm = Some (Finished v (vm\<lparr>vheap := h'\<rparr>)) \<and>
    deref h' v = Some (OArray (map ((!) es) (filter (\<lambda>i. is_truthy (f (cb_args this es i))) [0..<length es])) c) \<and>
    deref h' this = Some (OArray es cap)"
proof -
  let ?vm = "vm_push_root cb (vm_push_root this vm)"
  obtain res vm1 where r: "alloc_in (create_array 0) ?vm = (res, vm1)" by force
  have arr': "heap_ok (vheap ?vm)" "room (vheap ?vm) 1" "object_at this ?vm = Some (OArray es cap)" using h arr by simp_all
  note a = fresh_array [OF arr' r]
  let ?vm2 = "vm_push_root res vm1"
  have o2: "object_at this ?vm2 = Some (OArray es cap)" "object_at res ?vm2 = Some (OArray [] 4)" using a(1,2) by simp_all
  let ?rs = "map ((!) es) (filter (\<lambda>i. is_truthy (f (cb_args this es i))) [0..<length es])"
  obtain c where "filter_elems_loop call this cb res [0..<length es] ?vm2 =
      Some (Finished res (?vm2\<lparr>vheap := put_obj res (OArray ?rs c) (vheap ?vm2)\<rparr>))"
    using filter_elems_loop_ok [OF f(1) a(3) o2, of "[0..<length es]"] by auto
  moreover have "?vm2\<lparr>vheap := put_obj res (OArray ?rs c) (vheap ?vm2)\<rparr> =
      vm_push_root res (?vm\<lparr>vheap := put_obj res (OArray ?rs c) (vheap vm1)\<rparr>)"
    using arg_cong [OF a(4), of "\<lambda>v. v\<lparr>vheap := put_obj res (OArray ?rs c) (vheap vm1)\<rparr>"] by (simp add: push_root_heap)
  ultimately have "js_array_filter call this [cb] vm = Some (Finished res (vm\<lparr>vheap := put_obj res (OArray ?rs c) (vheap vm1)\<rparr>))"
    unfolding js_array_filter_def
    by (intro rooted_array [OF arr f(2)]) (simp add: r call_then_def push_root_heap)
  moreover have "deref (put_obj res (OArray ?rs c) (vheap vm1)) res = Some (OArray ?rs c)"
    "deref (put_obj res (OArray ?rs c) (vheap vm1)) this = Some (OArray es cap)"
    using a(2,3) put_obj_views(1,3) [OF a(1) [unfolded object_at_def]] by (auto simp: object_at_def)
  ultimately show ?thesis by blast
qed

lemma js_array_reduce_ok:
  assumes f: "pure_call call cb f" "IS_POINTER cb" and arr: "object_at this vm = Some (OArray es cap)"
  shows "js_array_reduce call this [cb, init] vm =
    Some (Finished (fold (\<lambda>i acc. f (acc # cb_args this es i)) [0..<length es] init) vm)"
proof -
  let ?vm = "vm_push_root cb (vm_push_root this vm)"
  have "object_at this ?vm = Some (OArray es cap)" using arr by simp
  then obtain v' where "reduce_loop call this cb init [0..<length es] (vm_push_root init ?vm) =
      Some (Finished (fold (\<lambda>i acc. f (acc # cb_args this es i)) [0..<length es] init) (vm_push_root v' ?vm))"
    using reduce_loop_ok [OF f(1), of "[0..<length es]" es this ?vm cap init init] by auto
  then show ?thesis
    unfolding js_array_reduce_def by (intro rooted_array [OF arr f(2)]) (simp add: call_then_def)
qed

lemma js_array_every_ok:
  assumes f: "pure_call call cb f" "IS_POINTER cb" and arr: "object_at this vm = Some (OArray es cap)"
  shows "js_array_every call this [cb] vm =
    Some (Finished (bool_value (\<forall>i<length es. is_truthy (f (cb_args this es i)))) vm)"
  unfolding js_array_every_def using every_loop_ok [OF f(1), of this _ es cap "[0..<length es]"] arr
  by (intro rooted_array [OF arr f(2)]) (simp add: Ball_def)


section \<open>A heap with two arrays\<close>

definition array_heap :: heap where
  "array_heap =
     \<lparr>objs = [8 \<mapsto> OObject [] 4, 16 \<mapsto> OArray [make_integer 3, make_integer 1, make_integer 2] 4, 24 \<mapsto> OString ''b'',
        32 \<mapsto> OString ''a'', 40 \<mapsto> OArray [make_pointer 24, make_pointer 32] 4],
      brk = 48, interned = [], next_symbol = 0\<rparr>"

definition array_vm :: VM where
  "array_vm = demo_vm (demo_program [] []) array_heap []"

definition diff_call :: caller where
  "diff_call f args vm = Some (Finished (make_integer (get_integer (args ! 0) - get_integer (args ! 1))) vm)"

lemma array_heap_deref:
  "deref array_heap (make_pointer 16) = Some (OArray [make_integer 3, make_integer 1, make_integer 2] 4)"
  "deref array_heap (make_pointer 40) = Some (OArray [make_pointer 24, make_pointer 32] 4)"
  "str_of array_heap (make_pointer 24) = Some ''b''" "str_of array_heap (make_pointer 32) = Some ''a''"
  by (simp_all add: str_of_def deref_make_pointer array_heap_def del: get_make)

lemma array_vm_heap [simp]: "vheap array_vm = array_heap"
  by (simp add: array_vm_def demo_vm_def)

lemma array_heap_ok: "heap_ok array_heap" "room array_heap 1"
  by (auto simp: heap_ok_def room_def array_heap_def split: if_splits)


theorem sort_strings_witness:
  "\<exists>es'. js_array_sort diff_call (Suc 0) (make_pointer 40) [] array_vm =
      Some (Finished (make_pointer 40) (with_elems (make_pointer 40) 4 array_vm es')) \<and>
    mset es' = mset [make_pointer 24, make_pointer 32] \<and>
    sorted_wrt (\<lambda>x y. 0 \<le> c_strcmp (c_text (the (str_of array_heap y))) (c_text (the (str_of array_heap x)))) es'"
proof (rule sort_strings)
  show "object_at (make_pointer 40) array_vm = Some (OArray [make_pointer 24, make_pointer 32] 4)"
    by (simp add: object_at_def array_heap_deref(2))
  show "\<forall>v\<in>set [make_pointer 24, make_pointer 32].
      str_of (vheap array_vm) v = Some (the (str_of array_heap v)) \<and> get_pointer v \<noteq> 0"
    by (simp add: array_heap_deref)
qed



end
