(* ===== verification/String_Laws.thy ===== *)
theory String_Laws
  imports Array_Laws
begin

text \<open>
  The string methods against a reference: \<open>split\<close> and \<open>replaceAll\<close>, which search in different ways, both follow the
  occurrences of a word from left to right, so that \<open>join\<close> undoes \<open>split\<close> and \<open>replaceAll\<close> is \<open>split\<close> and \<open>join\<close>.
\<close>

section \<open>Occurrences\<close>

definition occurs :: "string \<Rightarrow> string \<Rightarrow> nat \<Rightarrow> bool" where
  "occurs w s k \<longleftrightarrow> k + length w \<le> length s \<and> take (length w) (drop k s) = w"

lemma find_sub_first:
  "find_sub s w = (if \<exists>k. occurs w s k then Some (LEAST k. occurs w s k) else None)"
proof (induction s w rule: find_sub.induct)
  case (1 w)
  have "w = [] \<Longrightarrow> (LEAST k. occurs w [] k) = 0" by (intro Least_equality) (auto simp: occurs_def)
  then show ?case by (auto simp: occurs_def)
next
  case (2 c s w)
  have suc: "occurs w (c # s) (Suc k) = occurs w s k" for k by (simp add: occurs_def)
  have zero: "occurs w (c # s) 0 \<longleftrightarrow> take (length w) (c # s) = w"
    by (auto simp: occurs_def dest: arg_cong [of _ _ length])
  show ?case
  proof (cases "occurs w (c # s) 0")
    case True
    then have "(LEAST k. occurs w (c # s) k) = 0" by (intro Least_equality) auto
    with True zero show ?thesis by auto
  next
    case False
    have ex: "(\<exists>k. occurs w (c # s) k) \<longleftrightarrow> (\<exists>k. occurs w s k)"
      using False suc by (metis not0_implies_Suc)
    have "(LEAST k. occurs w (c # s) k) = Suc (LEAST k. occurs w s k)" if "occurs w s k" for k
      using Least_Suc [of "occurs w (c # s)" "Suc k"] that False suc by simp
    with False zero ex 2 show ?thesis by auto
  qed
qed

lemma find_sub_None: "find_sub s w = None \<longleftrightarrow> (\<forall>k. \<not> occurs w s k)"
  by (simp add: find_sub_first)

lemma find_sub_Some: "find_sub s w = Some k \<longleftrightarrow> occurs w s k \<and> (\<forall>j<k. \<not> occurs w s j)"
proof -
  have "(LEAST j. occurs w s j) = k \<longleftrightarrow> occurs w s k \<and> (\<forall>j<k. \<not> occurs w s j)" if "occurs w s i" for i
    using LeastI [of "occurs w s", OF that] not_less_Least [of _ "occurs w s"] Least_equality [of "occurs w s" k]
    by (metis not_le_imp_less)
  then show ?thesis by (auto simp: find_sub_first)
qed

lemma occurs_drop: "start \<le> length s \<Longrightarrow> occurs w (drop start s) k = occurs w s (start + k)"
  by (auto simp: occurs_def add.commute)

section \<open>The reference\<close>

function split_on :: "string \<Rightarrow> string \<Rightarrow> string list" where
  "split_on w s =
     (if w = [] then [s]
      else case find_sub s w of None \<Rightarrow> [s] | Some k \<Rightarrow> take k s # split_on w (drop (k + length w) s))"
  by pat_completeness auto
termination
proof (relation "measure (\<lambda>(w, s). length s)")
  fix w s k assume "w \<noteq> []" "find_sub s w = Some k"
  then show "((w, drop (k + length w) s), w, s) \<in> measure (\<lambda>(w, s). length s)"
    by (auto simp: find_sub_Some occurs_def intro!: diff_less)
qed simp

declare split_on.simps [simp del]

lemma split_on_Nil: "split_on w s \<noteq> []"
  by (subst split_on.simps) (simp split: option.split)

lemma join_with_Cons: "ss \<noteq> [] \<Longrightarrow> join_with sep (s # ss) = s @ sep @ join_with sep ss"
  by (cases ss) simp_all

lemma join_split: "join_with w (split_on w s) = s"
proof (induction w s rule: split_on.induct)
  case (1 w s)
  show ?case
  proof (cases "w = [] \<or> find_sub s w = None")
    case True
    then show ?thesis by (subst split_on.simps) auto
  next
    case False
    then obtain k where k: "find_sub s w = Some k" "w \<noteq> []" by auto
    then have "take (length w) (drop k s) = w" by (simp add: find_sub_Some occurs_def)
    then have "take k s @ w @ drop (k + length w) s = s"
      by (metis append_take_drop_id drop_drop add.commute)
    then show ?thesis using 1 [OF k(2,1)] k
      by (subst split_on.simps) (simp add: join_with_Cons split_on_Nil)
  qed
qed

section \<open>The scan of \<open>split\<close>\<close>

lemma mem_eq_enough: "length w \<le> length xs \<Longrightarrow> mem_eq xs w = Some (take (length w) xs = w)"
  by (induction xs w rule: mem_eq.induct) auto

lemma split_test:
  assumes "length d \<le> length s" "length s < 2 ^ 32" "i \<le> length s"
  shows "(if int i \<le> (int (length s) - int (length d)) mod 2 ^ 32 then mem_eq (drop i (s @ [NUL])) d else Some False) =
    Some (occurs d s i)"
proof -
  have "(int (length s) - int (length d)) mod 2 ^ 32 = int (length s) - int (length d)" using assms by (intro mod_pos_pos_trivial) auto
  then have "int i \<le> (int (length s) - int (length d)) mod 2 ^ 32 \<longleftrightarrow> i + length d \<le> length s" by linarith
  moreover have "mem_eq (drop i (s @ [NUL])) d = Some (take (length d) (drop i s) = d)" if "i + length d \<le> length s"
    using that by (subst mem_eq_enough) auto
  ultimately show ?thesis by (auto simp: occurs_def)
qed

lemma split_loop_ok:
  assumes d: "d \<noteq> []" "length d \<le> length s" "length s < 2 ^ 32"
  shows "start \<le> i \<Longrightarrow> i \<le> length s \<Longrightarrow> (\<forall>j. start \<le> j \<and> j < i \<longrightarrow> \<not> occurs d s j) \<Longrightarrow>
    \<exists>ps tr. split_loop s d i start parts = Some (ps, tr) \<and>
      ps @ (if tr then [[]] else []) = parts @ split_on d (drop start s)"
proof (induction "length s - i" arbitrary: i start parts rule: less_induct)
  case less
  note step = split_loop.simps [of s d i start parts, unfolded split_test [OF d(2,3) less.prems(2)]]
  have find: "find_sub (drop start s) d = Some (i - start)" if "occurs d s i"
    using that less.prems unfolding find_sub_Some by (auto simp: occurs_drop)
  consider "occurs d s i" | "\<not> occurs d s i" "i = length s" | "\<not> occurs d s i" "i < length s" using less.prems(2) by linarith
  then show ?case
  proof cases
    case 1
    have on: "split_on d (drop start s) = take (i - start) (drop start s) # split_on d (drop (i + length d) s)"
      using find [OF 1] d(1) less.prems(1) by (subst split_on.simps) simp
    show ?thesis
    proof (cases "i + length d = length s")
      case True
      have "split_on d [] = [[]]" using d(1) by (subst split_on.simps) simp
      then show ?thesis using step 1 True on d(1) less.prems(2) by auto
    next
      case False
      have le: "i + length d \<le> length s" using 1 by (simp add: occurs_def)
      have vac: "\<forall>j. i + length d \<le> j \<and> j < i + length d \<longrightarrow> \<not> occurs d s j" by auto
      have lt: "length s - (i + length d) < length s - i" using le d(1) by (cases d) auto
      obtain ps tr where "split_loop s d (i + length d) (i + length d) (parts @ [take (i - start) (drop start s)]) = Some (ps, tr)"
        "ps @ (if tr then [[]] else []) = (parts @ [take (i - start) (drop start s)]) @ split_on d (drop (i + length d) s)"
        using less.hyps [OF lt order_refl le vac, of "parts @ [take (i - start) (drop start s)]"] by blast
      then show ?thesis using step 1 False on d(1) less.prems(2) by simp
    qed
  next
    case 2
    have "\<not> occurs d (drop start s) k" for k
      using 2 less.prems d(1) occurs_drop [of start s d k] by (cases "start + k < i") (auto simp: occurs_def)
    then have "find_sub (drop start s) d = None" by (simp add: find_sub_None)
    then have "split_on d (drop start s) = [drop start s]" using d(1) by (subst split_on.simps) simp
    then show ?thesis using step 2 d(1) by auto
  next
    case 3
    have "\<forall>j. start \<le> j \<and> j < i + 1 \<longrightarrow> \<not> occurs d s j" using less.prems(3) 3(1) by (auto simp: less_Suc_eq)
    moreover have "length s - (i + 1) < length s - i" using 3(2) by simp
    ultimately obtain ps tr where
      "split_loop s d (i + 1) start parts = Some (ps, tr)"
      "ps @ (if tr then [[]] else []) = parts @ split_on d (drop start s)"
      using less.hyps [of "i + 1" start parts] 3 less.prems(1) by auto
    then show ?thesis using step 3 d(1) by simp
  qed
qed

section \<open>The loop of \<open>replaceAll\<close>\<close>

lemma c_text_id: "NUL \<notin> set s \<Longrightarrow> c_text s = s"
  by (auto simp: c_text_def takeWhile_eq_all_conv)

text \<open>As long as the replacement is at most twice as long as the word, the buffer is never too small.\<close>

lemma replace_loop_ok:
  assumes w: "w \<noteq> []" "NUL \<notin> set s" "NUL \<notin> set w" and rep: "length rep \<le> 2 * length w" and cap: "2 * length s < cap"
  shows "pos \<le> length s \<Longrightarrow> length buf \<le> 2 * pos \<Longrightarrow>
    \<exists>buf' pos'. replace_loop s w rep cap pos buf = Some (buf', pos') \<and> pos' \<le> length s \<and>
      buf' @ drop pos' s = buf @ join_with rep (split_on w (drop pos s))"
proof (induction "length s - pos" arbitrary: pos buf rule: less_induct)
  case less
  have "NUL \<notin> set (drop pos s)" using w(2) by (meson in_set_dropD)
  then have find: "strstr (drop pos s) w = find_sub (drop pos s) w" using w(3) by (simp add: strstr_def c_text_id)
  note step = replace_loop.simps [of s w rep cap pos buf, unfolded find]
  show ?case
  proof (cases "find_sub (drop pos s) w")
    case None
    then have "split_on w (drop pos s) = [drop pos s]" by (subst split_on.simps) simp
    then show ?thesis using step None w(1) less.prems by simp
  next
    case (Some k)
    then have k: "pos + k + length w \<le> length s" by (simp add: find_sub_Some occurs_drop [OF less.prems(1)]) (simp add: occurs_def)
    let ?pos = "pos + k + length w" and ?buf = "buf @ take k (drop pos s) @ rep"
    have fits: "length buf + k + length rep + 1 \<le> cap" using less.prems(2) k rep cap by linarith
    have on: "split_on w (drop pos s) = take k (drop pos s) # split_on w (drop ?pos s)"
      using Some w(1) by (subst split_on.simps) (simp add: add.commute add.left_commute)
    have "\<exists>buf' pos'. replace_loop s w rep cap ?pos ?buf = Some (buf', pos') \<and> pos' \<le> length s \<and>
        buf' @ drop pos' s = ?buf @ join_with rep (split_on w (drop ?pos s))"
    proof (rule less.hyps)
      have "0 < length w" using w(1) by simp
      then show "length s - ?pos < length s - pos" using k by linarith
      show "length ?buf \<le> 2 * ?pos" using less.prems(2) rep by simp
    qed (rule k)
    then show ?thesis using step Some w(1) less.prems fits on by (auto simp: Let_def join_with_Cons split_on_Nil)
  qed
qed

section \<open>On the heap\<close>

text \<open>A heap with room for \<open>n\<close> more objects, none of which is at the null pointer.\<close>

definition roomy :: "heap \<Rightarrow> nat \<Rightarrow> bool" where
  "roomy h n \<longleftrightarrow> heap_ok h \<and> room h n \<and> 0 < brk h"

lemma roomy_alloc:
  assumes "roomy h (Suc n)" "heap_alloc ob h = (v, h')"
  shows "roomy h' n" "get_pointer v \<noteq> 0" "deref h' v = Some ob" "extends h h'" "deref h v = None" "IS_POINTER v"
proof -
  have h: "heap_ok h" "room h 1" "0 < brk h" "unat (brk h) + 8 * Suc n < 2 ^ 48"
    using assms(1) by (auto simp: roomy_def room_def)
  note a = heap_alloc_laws [OF h(1,2) assms(2)]
  have v: "v = make_pointer (brk h)" "brk h' = brk h + 8" using assms(2) by (auto simp: heap_alloc_def)
  have up: "unat (brk h + 8) = unat (brk h) + 8" using h(4) by (subst unat_add_lem [THEN iffD1]) auto
  show "roomy h' n" using a(3) h(4) up by (auto simp: roomy_def room_def v(2) word_less_nat_alt)
  have "brk h < 2 ^ 48" using h(1) by (simp add: heap_ok_def)
  then show "get_pointer v \<noteq> 0" unfolding v(1) using get_make_pointer [of "brk h"] h(3) by auto
  show "deref h' v = Some ob" "extends h h'" "deref h v = None" "IS_POINTER v" using a by auto
qed

lemma roomy_less: "roomy h (Suc n) \<Longrightarrow> roomy h n"
  by (simp add: roomy_def room_def)

lemma str_deref: "str_of h v = Some s \<longleftrightarrow> deref h v = Some (OString s)"
  by (simp add: str_of_def split: option.split hobj.split)

lemma roomy_string:
  assumes "roomy h (Suc n)" "create_string s h = (v, h')"
  shows "roomy h' n" "str_of h' v = Some s" "extends h h'" "(\<forall>w\<in>set (interned h). get_pointer w \<noteq> 0) \<Longrightarrow> get_pointer v \<noteq> 0"
proof -
  have h: "heap_ok h" "room h 1" using assms(1) by (auto simp: roomy_def room_def)
  note c = create_string_laws [OF h assms(2)]
  show "str_of h' v = Some s" "extends h h'" using c by auto
  show "roomy h' n"
  proof (cases "find_interned h (interned h) s")
    case (Some w)
    then show ?thesis using assms roomy_less by (auto simp: create_string_def)
  next
    case None
    obtain w g where a: "heap_alloc (OString s) h = (w, g)" by force
    have "brk h' = brk g" using assms(2) None a by (auto simp: create_string_def)
    then show ?thesis using roomy_alloc(1) [OF assms(1) a] c(3) by (simp add: roomy_def room_def)
  qed
  show "get_pointer v \<noteq> 0" if "\<forall>w\<in>set (interned h). get_pointer w \<noteq> 0"
  proof (cases "find_interned h (interned h) s")
    case (Some w)
    then show ?thesis using assms(2) that find_interned_sound [OF Some] by (auto simp: create_string_def)
  next
    case None
    obtain w g where a: "heap_alloc (OString s) h = (w, g)" by force
    have "v = w" using assms(2) None a by (auto simp: create_string_def)
    then show ?thesis using roomy_alloc(2) [OF assms(1) a] by simp
  qed
qed

lemma alloc_parts_ok:
  "roomy h (length ss + n) \<Longrightarrow> alloc_parts ss h = (vs, h') \<Longrightarrow>
   roomy h' n \<and> extends h h' \<and> map (str_of h') vs = map Some ss \<and> (\<forall>v\<in>set vs. get_pointer v \<noteq> 0) \<and> interned h' = interned h"
proof (induction ss arbitrary: h vs)
  case (Cons s ss)
  obtain v h1 where v: "heap_alloc (OString s) h = (v, h1)" by force
  obtain ws where ws: "alloc_parts ss h1 = (ws, h')" "vs = v # ws"
    using Cons.prems(2) v by (auto simp: create_string_from_chars_def split: prod.splits)
  note a = roomy_alloc [of h "length ss + n", OF _ v]
  have r: "roomy h (Suc (length ss + n))" using Cons.prems(1) by simp
  have IH: "roomy h' n \<and> extends h1 h' \<and> map (str_of h') ws = map Some ss \<and> (\<forall>v\<in>set ws. get_pointer v \<noteq> 0) \<and>
      interned h' = interned h1"
    using Cons.IH [OF a(1) [OF r] ws(1)] .
  have "str_of h1 v = Some s" using a(3) [OF r] by (simp add: str_of_def)
  moreover have "interned h1 = interned h" using v by (auto simp: heap_alloc_def)
  ultimately show ?case using IH a(2,4) [OF r] ws(2) extends_str extends_trans by auto
qed simp

lemma element_texts_strings:
  "map (str_of h) vs = map Some ss \<Longrightarrow> \<forall>v\<in>set vs. get_pointer v \<noteq> 0 \<Longrightarrow> element_texts (Suc depth) vs h = Some (ss, h)"
proof (induction vs arbitrary: ss)
  case (Cons v vs)
  then obtain s ss' where s: "ss = s # ss'" "str_of h v = Some s" by (cases ss) auto
  then have "IS_POINTER v" by (auto simp: str_of_def deref_def split: if_splits)
  then have "v \<notin> {VAL_UNDEFINED, VAL_NULL, VAL_EMPTY}" by auto
  then show ?case using Cons s text_of_string [OF s(2)] by simp
qed auto

lemma length_split_on: "length (split_on w s) \<le> length s + 1"
proof (induction w s rule: split_on.induct)
  case (1 w s)
  show ?case
  proof (cases "w = [] \<or> find_sub s w = None")
    case True
    then show ?thesis by (subst split_on.simps) auto
  next
    case False
    then obtain k where k: "find_sub s w = Some k" "w \<noteq> []" by auto
    then have "k + length w \<le> length s" "0 < length w" by (simp_all add: find_sub_Some occurs_def)
    then have "Suc (length s - (k + length w)) \<le> length s" by linarith
    then show ?thesis using 1 [OF k(2,1)] k by (subst split_on.simps) simp
  qed
qed

lemma roomy_put: "roomy h n \<Longrightarrow> deref h v = Some (OArray es c) \<Longrightarrow> roomy (put_obj v (OArray es' c') h) n"
  using put_obj_str [of h v "OArray es c" "OArray es' c'"]
  by (auto simp: roomy_def room_def heap_ok_def put_obj_def deref_def split: if_splits)

lemma roomy_mono: "roomy h n \<Longrightarrow> m \<le> n \<Longrightarrow> roomy h m"
  by (auto simp: roomy_def room_def)

text \<open>The array that \<open>split\<close> builds.\<close>

lemma split_parts:
  assumes r: "roomy h (length s + 4)" "\<forall>w\<in>set (interned h). get_pointer w \<noteq> 0"
    and str: "str_of h this = Some s" "str_of h sep = Some d"
    and d: "d \<noteq> []" "length d \<le> length s" "length s < 2 ^ 32"
  obtains arr vs c h' where "js_string_split this [sep] h = Some (arr, h')" "deref h' arr = Some (OArray vs c)"
    "map (str_of h') vs = map Some (split_on d s)" "\<forall>v\<in>set vs. get_pointer v \<noteq> 0" "roomy h' 1" "extends h h'"
proof -
  obtain arr h1 where a: "create_array 16 h = (arr, h1)" by force
  then have a': "heap_alloc (OArray [] 16) h = (arr, h1)" by (simp add: create_array_def)
  note a1 = roomy_alloc [OF _ a', of "length s + 3"]
  have r0: "roomy h (Suc (length s + 3))" using r(1) by (simp add: add.commute)
  have i1: "interned h1 = interned h" using a' by (auto simp: heap_alloc_def)
  obtain ps tr where sp: "split_loop s d 0 0 [] = Some (ps, tr)" "ps @ (if tr then [[]] else []) = split_on d s"
    using split_loop_ok [OF d, of 0 0 "[]"] by auto
  have len: "length ps + (if tr then 1 else 0) \<le> length s + 1" using length_split_on [of d s] sp(2) by (auto dest: arg_cong [of _ _ length])
  obtain ws h2 where w: "alloc_parts ps h1 = (ws, h2)" by force
  have r1: "roomy h1 (length ps + (length s + 3 - length ps))" using a1(1) [OF r0] len by simp
  have p: "roomy h2 (length s + 3 - length ps)" "extends h1 h2" "map (str_of h2) ws = map Some ps"
      "\<forall>v\<in>set ws. get_pointer v \<noteq> 0" "interned h2 = interned h1"
    using alloc_parts_ok [OF r1 w] by auto
  obtain vs h3 where v: "(if tr then (case create_string [] h2 of (v, h) \<Rightarrow> (ws @ [v], h)) else (ws, h2)) = (vs, h3)"
    by (cases "if tr then (case create_string [] h2 of (v, h) \<Rightarrow> (ws @ [v], h)) else (ws, h2)")
  have q: "roomy h3 1 \<and> extends h2 h3 \<and> map (str_of h3) vs = map Some (split_on d s) \<and> (\<forall>v\<in>set vs. get_pointer v \<noteq> 0)"
  proof (cases tr)
    case False
    then show ?thesis using v p sp(2) len roomy_mono [OF p(1), of 1] by auto
  next
    case True
    obtain e g where e: "create_string [] h2 = (e, g)" by force
    have n: "Suc 1 \<le> length s + 3 - length ps" using len True by simp
    note c = roomy_string [OF roomy_mono [OF p(1) n] e]
    have eq: "vs = ws @ [e]" "h3 = g" using v True e by simp_all
    have "map (str_of g) ws = map Some ps" using p(3) extends_str [OF c(3)] by (simp add: list_eq_iff_nth_eq)
    moreover have "split_on d s = ps @ [[]]" using sp(2) True by simp
    ultimately show ?thesis using c p(4,5) i1 r(2) eq by auto
  qed
  have arr: "deref h3 arr = Some (OArray [] 16)" using a1(3) [OF r0] p(2) q by (auto simp: extends_def)
  let ?h = "put_obj arr (OArray vs (grown 16 (length vs))) h3"
  have keep: "str_of ?h = str_of h3" using put_obj_str [OF arr] by (simp add: fun_eq_iff)
  have "extends h ?h"
    unfolding extends_def
  proof (intro allI impI)
    fix v ob assume v: "deref h v = Some ob"
    have "extends h h3" using a1(4) [OF r0] p(2) q extends_trans by blast
    moreover have "get_pointer v \<noteq> get_pointer arr" using v a1(5,6) [OF r0] by (auto simp: deref_def split: if_splits)
    ultimately show "deref ?h v = Some ob" using put_obj_views(3) [OF arr, of v] v by (auto simp: extends_def)
  qed
  moreover have "js_string_split this [sep] h = Some (arr, ?h)"
    using str d(1) a sp(1) w v by (simp add: js_string_split_def both_strings_def str_deref deref_def split: if_splits)
  moreover have "roomy ?h 1" using roomy_put [OF _ arr] q by blast
  moreover have "map (str_of ?h) vs = map Some (split_on d s)" using q by (simp add: keep)
  ultimately show ?thesis using that put_obj_views(1) [OF arr] q by blast
qed

text \<open>
  C21 (roundtrip): \<open>split\<close> makes an array of the parts between the occurrences of the separator, and \<open>join\<close> with the
  same separator gives the string back, for a separator without a terminator that is not longer than the string.
\<close>

theorem split_join_roundtrip:
  assumes "roomy h (length s + 4)" "\<forall>w\<in>set (interned h). get_pointer w \<noteq> 0"
    and "str_of h this = Some s" "str_of h sep = Some d" "d \<noteq> []" "length d \<le> length s" "length s < 2 ^ 32" "NUL \<notin> set d"
  shows "\<exists>arr vs c h1 r h2. js_string_split this [sep] h = Some (arr, h1) \<and> deref h1 arr = Some (OArray vs c) \<and>
    map (str_of h1) vs = map Some (split_on d s) \<and>
    js_array_join (Suc depth) arr [sep] h1 = Some (r, h2) \<and> str_of h2 r = Some s"
proof -
  obtain arr vs c h1 where sp: "js_string_split this [sep] h = Some (arr, h1)" "deref h1 arr = Some (OArray vs c)"
    "map (str_of h1) vs = map Some (split_on d s)" "\<forall>v\<in>set vs. get_pointer v \<noteq> 0" "roomy h1 1" "extends h h1"
    using split_parts [OF assms(1-7)] by metis
  obtain r h2 where r: "create_string s h1 = (r, h2)" by force
  have "deref h1 sep = Some (OString d)" using extends_str [OF sp(6) assms(4)] by (simp add: str_deref)
  moreover have "IS_POINTER sep" "IS_POINTER arr" using assms(4) sp(2) by (auto simp: str_deref deref_def split: if_splits)
  ultimately have "js_array_join (Suc depth) arr [sep] h1 = Some (r, h2)"
    using sp(2) element_texts_strings [OF sp(3,4)] c_text_id [OF assms(8)] r
    by (simp add: js_array_join_def on_array_def join_split)
  moreover have "str_of h2 r = Some s" using roomy_string(2) [OF _ r, of 0] sp(5) by simp
  ultimately show ?thesis using sp by blast
qed

lemma two_texts:
  assumes "str_of h a = Some w" "str_of h b = Some rep" "get_pointer a \<noteq> 0" "get_pointer b \<noteq> 0" "str_of h this = Some s" "w \<noteq> []"
  shows "js_string_replace_all (Suc depth) this [a, b] h =
    (case replace_loop s w rep (length s * 2 + 1) 0 [] of None \<Rightarrow> None
     | Some (buf, pos) \<Rightarrow> Some (create_string (buf @ c_text (drop pos s)) h))"
proof -
  have "IS_POINTER this" using assms(5) by (simp add: str_deref deref_def split: if_splits)
  then show ?thesis using assms(5,6) text_of_string [OF assms(1,3)] text_of_string [OF assms(2,4)]
    by (simp add: js_string_replace_all_def split: option.split)
qed

text \<open>
  C34 (equivalence): \<open>replaceAll\<close> is \<open>split\<close> at the word and \<open>join\<close> with the replacement, as long as the replacement is
  at most twice as long as the word.
\<close>

theorem replace_all_is_split_join:
  assumes "roomy h 1" "str_of h this = Some s" "str_of h a = Some w" "str_of h b = Some rep" "get_pointer a \<noteq> 0" "get_pointer b \<noteq> 0"
    and "w \<noteq> []" "NUL \<notin> set s" "NUL \<notin> set w" "length rep \<le> 2 * length w"
  shows "\<exists>r h'. js_string_replace_all (Suc depth) this [a, b] h = Some (r, h') \<and>
    str_of h' r = Some (join_with rep (split_on w s)) \<and> extends h h'"
proof -
  obtain buf pos where l: "replace_loop s w rep (length s * 2 + 1) 0 [] = Some (buf, pos)"
      "buf @ drop pos s = join_with rep (split_on w s)"
    using replace_loop_ok [OF assms(7-10), of "length s * 2 + 1" 0 "[]"] by auto
  have "NUL \<notin> set (drop pos s)" using assms(8) by (meson in_set_dropD)
  then have "buf @ c_text (drop pos s) = join_with rep (split_on w s)" using l(2) by (simp add: c_text_id)
  moreover obtain r h' where r: "create_string (join_with rep (split_on w s)) h = (r, h')" by force
  ultimately show ?thesis using two_texts [OF assms(3-6,2,7)] l(1) roomy_string(2,3) [OF _ r, of 0] assms(1) by auto
qed

text \<open>
  replace_all_overflows (error): a replacement of more than four times the string (and two bytes) leaves the buffer, which is
  doubled only once, at the first occurrence.
\<close>

theorem replace_all_overflows:
  assumes "str_of h this = Some s" "str_of h a = Some w" "str_of h b = Some rep" "get_pointer a \<noteq> 0" "get_pointer b \<noteq> 0"
    and "occurs w s k" "w \<noteq> []" "NUL \<notin> set s" "NUL \<notin> set w" "4 * length s + 2 < length rep"
  shows "js_string_replace_all (Suc depth) this [a, b] h = None"
proof -
  obtain j where "find_sub s w = Some j" using assms(6) find_sub_None [of s w] by blast
  then have "strstr (drop 0 s) w = Some j" using assms(8,9) by (simp add: strstr_def c_text_id)
  then have "replace_loop s w rep (length s * 2 + 1) 0 [] = None"
    using assms(7,10) by (subst replace_loop.simps) (simp add: Let_def)
  then show ?thesis using two_texts [OF assms(2-5,1,7)] by simp
qed

section \<open>Witnesses\<close>

definition text_heap :: heap where
  "text_heap =
     \<lparr>objs = [8 \<mapsto> OString ''a,b,,c'', 16 \<mapsto> OString '','', 24 \<mapsto> OString ''; '',
        32 \<mapsto> OString ''0123456789012345678901234567890''],
      brk = 40, interned = [make_pointer 16], next_symbol = 0\<rparr>"

lemma text_heap_strs:
  "str_of text_heap (make_pointer 8) = Some ''a,b,,c''" "str_of text_heap (make_pointer 16) = Some '',''"
  "str_of text_heap (make_pointer 24) = Some ''; ''"
  "str_of text_heap (make_pointer 32) = Some ''0123456789012345678901234567890''"
  by (simp_all add: str_of_def deref_make_pointer text_heap_def del: get_make)

lemma text_heap_roomy: "n < 1000 \<Longrightarrow> roomy text_heap n"
  using text_heap_strs(2) by (auto simp: roomy_def heap_ok_def room_def text_heap_def MAX_INTERNED_STRINGS_def split: if_splits)

lemma split_comma: "split_on '','' ''a,b,,c'' = [''a'', ''b'', [], ''c'']"
  by (simp add: split_on.simps)

theorem split_join_roundtrip_witness:
  "\<exists>arr vs c h1 r h2. js_string_split (make_pointer 8) [make_pointer 16] text_heap = Some (arr, h1) \<and>
    deref h1 arr = Some (OArray vs c) \<and> map (str_of h1) vs = [Some ''a'', Some ''b'', Some [], Some ''c''] \<and>
    js_array_join (Suc 0) arr [make_pointer 16] h1 = Some (r, h2) \<and> str_of h2 r = Some ''a,b,,c''"
  using split_join_roundtrip [OF text_heap_roomy _ text_heap_strs(1,2), of 0] by (simp add: split_comma text_heap_def NUL_def)

theorem replace_all_is_split_join_witness:
  "\<exists>r h'. js_string_replace_all (Suc 0) (make_pointer 8) [make_pointer 16, make_pointer 24] text_heap = Some (r, h') \<and>
    str_of h' r = Some ''a; b; ; c'' \<and> extends text_heap h'"
  using replace_all_is_split_join [OF text_heap_roomy text_heap_strs(1-3), of 0] by (simp add: split_comma NUL_def)

theorem replace_all_overflows_witness:
  "js_string_replace_all (Suc 0) (make_pointer 8) [make_pointer 16, make_pointer 32] text_heap = None"
  by (rule replace_all_overflows [OF text_heap_strs(1,2,4), of 1]) (simp_all add: occurs_def NUL_def)

end
