(* ===== verification/Set_Builtins.thy ===== *)
theory Set_Builtins
  imports String_Laws
begin

text \<open>
  The methods of sets of \<open>src/src/vm.c\<close> and \<open>src/src/builtins.c\<close>, on a heap that holds the hash tables of \<^theory_text>\<open>JS_Set\<close>, and the
  set algebra they implement. \<open>None\<close> is an access to an object of another kind, and a probe or a loop that does not end.
\<close>

section \<open>Sets on the heap\<close>

definition new_set :: "heap \<Rightarrow> Value \<times> heap" where
  "new_set h = heap_alloc (OSet create_set) h"

definition set_at :: "Value \<Rightarrow> heap \<Rightarrow> JSSet option" where
  "set_at v h = (case deref h v of Some (OSet s) \<Rightarrow> Some s | _ \<Rightarrow> None)"

definition set_add_at :: "Value \<Rightarrow> Value \<Rightarrow> heap \<Rightarrow> heap option" where
  "set_add_at st val h = do { s \<leftarrow> set_at st h; (s, _) \<leftarrow> set_add s val; Some (put_obj st (OSet s) h) }"

definition set_has_at :: "Value \<Rightarrow> Value \<Rightarrow> heap \<Rightarrow> bool option" where
  "set_has_at st val h = do { s \<leftarrow> set_at st h; set_has s val }"

text \<open>The checks of the receiver, and of the receiver and the first argument.\<close>

definition on_set :: "Value \<Rightarrow> Value \<Rightarrow> heap \<Rightarrow> (JSSet \<Rightarrow> (Value \<times> heap) option) \<Rightarrow> (Value \<times> heap) option" where
  "on_set dflt this h body =
     (if \<not> IS_POINTER this then Some (dflt, h)
      else case deref h this of None \<Rightarrow> None | Some (OSet s) \<Rightarrow> body s | Some _ \<Rightarrow> Some (dflt, h))"

definition both_sets ::
  "Value \<Rightarrow> Value \<Rightarrow> Value list \<Rightarrow> heap \<Rightarrow> (JSSet \<Rightarrow> JSSet \<Rightarrow> (Value \<times> heap) option) \<Rightarrow> (Value \<times> heap) option" where
  "both_sets dflt this args h body =
     (if \<not> IS_POINTER this \<or> args = [] \<or> \<not> IS_POINTER (args ! 0) then Some (dflt, h)
      else case (deref h this, deref h (args ! 0)) of
             (Some (OSet s1), Some (OSet s2)) \<Rightarrow> body s1 s2
           | (Some _, Some _) \<Rightarrow> Some (dflt, h)
           | _ \<Rightarrow> None)"

definition first_arg :: "Value list \<Rightarrow> Value" where
  "first_arg args = (case args of [] \<Rightarrow> VAL_UNDEFINED | v # _ \<Rightarrow> v)"

section \<open>The methods\<close>

definition js_set_constructor :: "Value list \<Rightarrow> heap \<Rightarrow> (Value \<times> heap) option" where
  "js_set_constructor args h =
     (let (st, h) = new_set h
      in if args = [] \<or> \<not> IS_POINTER (args ! 0) then Some (st, h)
         else case deref h (args ! 0) of
                None \<Rightarrow> None
              | Some (OArray es _) \<Rightarrow> map_option (Pair st) (opt_fold (set_add_at st) es h)
              | Some _ \<Rightarrow> Some (st, h))"

definition js_set_add :: "Value \<Rightarrow> Value list \<Rightarrow> heap \<Rightarrow> (Value \<times> heap) option" where
  "js_set_add this args h = on_set VAL_UNDEFINED this h (\<lambda>s. map_option (Pair this) (set_add_at this (first_arg args) h))"

definition js_set_has :: "Value \<Rightarrow> Value list \<Rightarrow> heap \<Rightarrow> (Value \<times> heap) option" where
  "js_set_has this args h = on_set VAL_FALSE this h (\<lambda>s. map_option (\<lambda>b. (bool_value b, h)) (set_has s (first_arg args)))"

definition js_set_delete :: "Value \<Rightarrow> Value list \<Rightarrow> heap \<Rightarrow> (Value \<times> heap) option" where
  "js_set_delete this args h =
     on_set VAL_FALSE this h (\<lambda>s. do {
       (s, b) \<leftarrow> set_delete s (first_arg args);
       Some (bool_value b, put_obj this (OSet s) h)
     })"

text \<open>The loop that adds to \<open>res\<close> the occupied slots of a table that a test keeps.\<close>

definition select_into :: "(Value \<Rightarrow> heap \<Rightarrow> bool option) \<Rightarrow> Value \<Rightarrow> Value list \<Rightarrow> heap \<Rightarrow> heap option" where
  "select_into keep res =
     opt_fold (\<lambda>v h. if v = VAL_UNDEFINED then Some h
                     else do { b \<leftarrow> keep v h; if b then set_add_at res v h else Some h })"

definition lacks :: "Value \<Rightarrow> Value \<Rightarrow> heap \<Rightarrow> bool option" where
  "lacks other v h = map_option Not (set_has_at other v h)"

definition js_set_intersection :: "Value \<Rightarrow> Value list \<Rightarrow> heap \<Rightarrow> (Value \<times> heap) option" where
  "js_set_intersection this args h =
     both_sets VAL_UNDEFINED this args h (\<lambda>s1 s2.
       let (res, h) = new_set h
       in map_option (Pair res) (select_into (set_has_at (args ! 0)) res (elements s1) h))"

definition js_set_union :: "Value \<Rightarrow> Value list \<Rightarrow> heap \<Rightarrow> (Value \<times> heap) option" where
  "js_set_union this args h =
     both_sets VAL_UNDEFINED this args h (\<lambda>s1 s2. do {
       let (res, h) = new_set h;
       h \<leftarrow> select_into (\<lambda>v h. Some True) res (elements s1) h;
       h \<leftarrow> select_into (\<lambda>v h. Some True) res (elements s2) h;
       Some (res, h)
     })"

definition js_set_difference :: "Value \<Rightarrow> Value list \<Rightarrow> heap \<Rightarrow> (Value \<times> heap) option" where
  "js_set_difference this args h =
     both_sets VAL_UNDEFINED this args h (\<lambda>s1 s2.
       let (res, h) = new_set h
       in map_option (Pair res) (select_into (lacks (args ! 0)) res (elements s1) h))"

text \<open>This one does not look at the kinds of its operands.\<close>

definition js_set_symmetric_difference :: "Value \<Rightarrow> Value list \<Rightarrow> heap \<Rightarrow> (Value \<times> heap) option" where
  "js_set_symmetric_difference this args h =
     (if \<not> IS_POINTER this \<or> args = [] \<or> \<not> IS_POINTER (args ! 0) then Some (VAL_UNDEFINED, h)
      else do {
        let (res, h) = new_set h;
        s1 \<leftarrow> set_at this h;
        h \<leftarrow> select_into (lacks (args ! 0)) res (elements s1) h;
        s2 \<leftarrow> set_at (args ! 0) h;
        h \<leftarrow> select_into (lacks this) res (elements s2) h;
        Some (res, h)
      })"

text \<open>The tests stop at the first slot that decides them.\<close>

fun slots_all :: "(Value \<Rightarrow> bool option) \<Rightarrow> Value list \<Rightarrow> bool option" where
  "slots_all test [] = Some True"
| "slots_all test (v # vs) =
     (if v = VAL_UNDEFINED then slots_all test vs
      else do { b \<leftarrow> test v; if b then slots_all test vs else Some False })"

definition js_set_is_disjoint_from :: "Value \<Rightarrow> Value list \<Rightarrow> heap \<Rightarrow> (Value \<times> heap) option" where
  "js_set_is_disjoint_from this args h =
     both_sets VAL_FALSE this args h (\<lambda>s1 s2.
       map_option (\<lambda>b. (bool_value b, h)) (slots_all (\<lambda>v. map_option Not (set_has s2 v)) (elements s1)))"

definition js_set_is_subset_of :: "Value \<Rightarrow> Value list \<Rightarrow> heap \<Rightarrow> (Value \<times> heap) option" where
  "js_set_is_subset_of this args h =
     both_sets VAL_FALSE this args h (\<lambda>s1 s2. map_option (\<lambda>b. (bool_value b, h)) (slots_all (set_has s2) (elements s1)))"

definition js_set_is_superset_of :: "Value \<Rightarrow> Value list \<Rightarrow> heap \<Rightarrow> (Value \<times> heap) option" where
  "js_set_is_superset_of this args h =
     both_sets VAL_FALSE this args h (\<lambda>s1 s2. map_option (\<lambda>b. (bool_value b, h)) (slots_all (set_has s1) (elements s2)))"

definition js_set_values :: "Value \<Rightarrow> heap \<Rightarrow> (Value \<times> heap) option" where
  "js_set_values this h =
     on_set VAL_UNDEFINED this h (\<lambda>s.
       let (res, h) = create_array (unat (JSSet.count s)) h
       in map_option (Pair res) (push_all res (filter (\<lambda>v. v \<noteq> VAL_UNDEFINED) (elements s)) h))"

text \<open>The callback may change the set, whose capacity is read again in every round.\<close>

partial_function (option) set_for_each_loop :: "caller \<Rightarrow> Value \<Rightarrow> Value \<Rightarrow> nat \<Rightarrow> VM \<Rightarrow> outcome option" where
  "set_for_each_loop call this cb i vm =
     (case object_at this vm of
        Some (OSet s) \<Rightarrow>
          if \<not> i < unat (capacity s) then Some (Finished VAL_UNDEFINED vm)
          else if \<not> i < length (elements s) then None
          else if elements s ! i = VAL_UNDEFINED then set_for_each_loop call this cb (i + 1) vm
          else (case call cb [elements s ! i, elements s ! i, this] vm of
                  None \<Rightarrow> None
                | Some (Finished _ vm) \<Rightarrow> set_for_each_loop call this cb (i + 1) vm
                | Some ot \<Rightarrow> Some ot)
      | _ \<Rightarrow> None)"

definition js_set_for_each :: "caller \<Rightarrow> Value \<Rightarrow> Value list \<Rightarrow> VM \<Rightarrow> outcome option" where
  "js_set_for_each call this args vm =
     (if \<not> IS_POINTER this \<or> args = [] \<or> \<not> IS_POINTER (args ! 0) then Some (Finished VAL_UNDEFINED vm)
      else case object_at this vm of
             None \<Rightarrow> None
           | Some (OSet _) \<Rightarrow>
               call_then (set_for_each_loop call this (args ! 0) 0 (vm_push_root (args ! 0) (vm_push_root this vm)))
                 (\<lambda>v vm. Some (Finished v (vm_pop_root (vm_pop_root vm))))
           | Some _ \<Rightarrow> Some (Finished VAL_UNDEFINED vm))"

section \<open>Set algebra\<close>

lemma set_at_deref: "set_at v h = Some s \<longleftrightarrow> deref h v = Some (OSet s)"
  by (simp add: set_at_def split: option.split hobj.split)

text \<open>A loop over the slots on the heap is the loop of the interface on the table of the result.\<close>

lemma select_into_fold:
  assumes "deref h res = Some (OSet r)" and keep: "\<And>v r'. keep v (put_obj res (OSet r') h) = test v"
  shows "select_into keep res vs h = map_option (\<lambda>r'. put_obj res (OSet r') h)
    (opt_fold (\<lambda>v r. Option.bind (test v) (\<lambda>b. if b then map_option fst (set_add r v) else Some r))
       (filter (\<lambda>v. v \<noteq> VAL_UNDEFINED) vs) r)"
  using assms
proof (induction vs arbitrary: h r)
  case Nil
  then show ?case by (simp add: select_into_def put_obj_same)
next
  case (Cons v vs)
  note IH = Cons.IH [OF Cons.prems]
  have k: "keep v h = test v" using Cons.prems(2) [of v r] put_obj_same [OF Cons.prems(1)] by simp
  show ?case
  proof (cases "v = VAL_UNDEFINED \<or> test v \<noteq> Some True")
    case True
    then show ?thesis using IH k by (cases "test v") (auto simp: select_into_def)
  next
    case False
    show ?thesis
    proof (cases "set_add r v")
      case None
      then show ?thesis using False k Cons.prems(1) by (simp add: select_into_def set_add_at_def set_at_def)
    next
      case (Some p)
      let ?h = "put_obj res (OSet (fst p)) h"
      have "deref ?h res = Some (OSet (fst p))" using put_obj_views(1) [OF Cons.prems(1)] .
      from Cons.IH [OF this] Cons.prems(2)
      show ?thesis using False Some k Cons.prems(1)
        by (simp add: select_into_def set_add_at_def set_at_def split_beta)
    qed
  qed
qed

lemma slots_abs: "set (filter (\<lambda>v. v \<noteq> VAL_UNDEFINED) (elements s)) = set_abs s"
  by (auto simp: set_abs_def tab_set_def)

lemma card_set_abs: "set_inv s \<Longrightarrow> card (set_abs s) = unat (JSSet.count s)"
  by (auto simp: set_inv_def table_ok_def set_abs_def card_tab_set)

lemma length_slots: "set_inv s \<Longrightarrow> length (filter (\<lambda>v. v \<noteq> VAL_UNDEFINED) (elements s)) = card (set_abs s)"
  by (simp add: card_set_abs) (simp add: set_inv_def tab_count_def)

lemma select_into_ok:
  assumes "deref h res = Some (OSet r)" "set_inv r" "set_inv s" "card (set_abs r) + card (set_abs s) \<le> 187904819"
    and "\<And>v r'. keep v (put_obj res (OSet r') h) = test v" "\<And>v. v \<in> set_abs s \<Longrightarrow> test v = Some (sel v)"
  shows "\<exists>r'. select_into keep res (elements s) h = Some (put_obj res (OSet r') h) \<and> set_inv r' \<and>
    set_abs r' = set_abs r \<union> {v \<in> set_abs s. sel v}"
proof -
  let ?vs = "filter (\<lambda>v. v \<noteq> VAL_UNDEFINED) (elements s)"
  have fits: "set_fits r (length ?vs)" using assms(2-4) by (simp add: set_fits_def length_slots card_set_abs)
  obtain r' where "opt_fold (\<lambda>v r. Option.bind (test v) (\<lambda>b. if b then map_option fst (set_add r v) else Some r)) ?vs r = Some r'"
      "set_inv r'" "set_abs r' = set_abs r \<union> {v \<in> set_abs s. sel v}"
    using js_set.add_selected [OF assms(2) fits, of test sel] assms(6) unfolding slots_abs by (auto simp: set_abs_def tab_set_def)
  then show ?thesis using select_into_fold [OF assms(1), of keep test "elements s"] assms(5) by auto
qed

text \<open>Two sets on a heap with room for a third one, which is made at \<open>res\<close>.\<close>

definition two_sets :: "Value \<Rightarrow> JSSet \<Rightarrow> Value \<Rightarrow> JSSet \<Rightarrow> heap \<Rightarrow> bool" where
  "two_sets a s1 b s2 h \<longleftrightarrow> heap_ok h \<and> room h 1 \<and> deref h a = Some (OSet s1) \<and> deref h b = Some (OSet s2) \<and>
     set_inv s1 \<and> set_inv s2 \<and> card (set_abs s1) + card (set_abs s2) \<le> 187904819"

lemma new_set_ok:
  assumes "two_sets a s1 b s2 h" "new_set h = (res, h1)"
  shows "deref h1 res = Some (OSet create_set)" "set_at a (put_obj res ob h1) = Some s1" "set_at b (put_obj res ob h1) = Some s2"
    "set_at a h1 = Some s1" "IS_POINTER a" "IS_POINTER b"
proof -
  have h: "heap_ok h" "room h 1" "deref h a = Some (OSet s1)" "deref h b = Some (OSet s2)" using assms(1) by (auto simp: two_sets_def)
  note al = heap_alloc_laws [OF h(1,2) assms(2) [unfolded new_set_def]]
  have ne: "get_pointer v \<noteq> get_pointer res" if "deref h v = Some x" for v x
    using that al by (auto simp: deref_def split: if_splits)
  have ext: "deref h1 v = Some x" if "deref h v = Some x" for v x using that al by (auto simp: extends_def)
  show res: "deref h1 res = Some (OSet create_set)" using al by simp
  show "set_at a (put_obj res ob h1) = Some s1" "set_at b (put_obj res ob h1) = Some s2" "set_at a h1 = Some s1"
    using put_obj_views(3) [OF res] ne ext h(3,4) by (auto simp: set_at_deref)
  show "IS_POINTER a" "IS_POINTER b" using h(3,4) by (auto simp: deref_def split: if_splits)
qed

lemma two_setsD:
  assumes "two_sets a s1 b s2 h"
  shows "deref h a = Some (OSet s1)" "deref h b = Some (OSet s2)" "set_inv s1" "set_inv s2"
    "card (set_abs s1) + card (set_abs s2) \<le> 187904819"
    "v \<in> set_abs s1 \<Longrightarrow> set_has s2 v = Some (v \<in> set_abs s2)" "v \<in> set_abs s2 \<Longrightarrow> set_has s1 v = Some (v \<in> set_abs s1)"
  using assms js_set.has_law [of s1 v] js_set.has_law [of s2 v] by (auto simp: two_sets_def set_abs_def tab_set_def)

text \<open>The new set \<open>v\<close> of \<open>h'\<close> has the elements \<open>A\<close>; the operands are as before.\<close>

definition made_set :: "Value \<Rightarrow> JSSet \<Rightarrow> Value \<Rightarrow> JSSet \<Rightarrow> Value set \<Rightarrow> (Value \<times> heap) option \<Rightarrow> bool" where
  "made_set a s1 b s2 A r \<longleftrightarrow> (\<exists>v h' s. r = Some (v, h') \<and> deref h' v = Some (OSet s) \<and> set_inv s \<and> set_abs s = A \<and>
     deref h' a = Some (OSet s1) \<and> deref h' b = Some (OSet s2))"

lemma made_setI:
  assumes "two_sets a s1 b s2 h" "new_set h = (res, h1)" "set_inv s" "set_abs s = A"
  shows "made_set a s1 b s2 A (Some (res, put_obj res (OSet s) h1))"
  using new_set_ok [OF assms(1,2)] put_obj_views(1) [OF new_set_ok(1) [OF assms(1,2)]] assms(3,4)
  by (auto simp: made_set_def set_at_deref)

lemma intersection_ok:
  assumes "two_sets a s1 b s2 h"
  shows "made_set a s1 b s2 (set_abs s1 \<inter> set_abs s2) (js_set_intersection a [b] h)"
    "made_set a s1 b s2 (set_abs s1 - set_abs s2) (js_set_difference a [b] h)"
proof -
  obtain res h1 where n: "new_set h = (res, h1)" by force
  note o = new_set_ok [OF assms n] and t = two_setsD [OF assms]
  have k: "set_has_at b v (put_obj res (OSet r') h1) = set_has s2 v" "lacks b v (put_obj res (OSet r') h1) = map_option Not (set_has s2 v)" for v r'
    using o(3) by (simp_all add: set_has_at_def lacks_def)
  have c: "card (set_abs create_set) + card (set_abs s1) \<le> 187904819" using t(5) by (simp add: js_set.new_abs)
  note sel = select_into_ok [OF o(1) js_set.new_inv t(3) c]
  obtain r1 where "select_into (set_has_at b) res (elements s1) h1 = Some (put_obj res (OSet r1) h1)" "set_inv r1"
      "set_abs r1 = set_abs s1 \<inter> set_abs s2"
    using sel [of "set_has_at b" "set_has s2" "\<lambda>v. v \<in> set_abs s2"] k(1) t(6) by (auto simp: js_set.new_abs Int_def)
  then show "made_set a s1 b s2 (set_abs s1 \<inter> set_abs s2) (js_set_intersection a [b] h)"
    using made_setI [OF assms n] t(1,2) o(5,6) n by (simp add: js_set_intersection_def both_sets_def)
  obtain r2 where "select_into (lacks b) res (elements s1) h1 = Some (put_obj res (OSet r2) h1)" "set_inv r2"
      "set_abs r2 = set_abs s1 - set_abs s2"
    using sel [of "lacks b" "\<lambda>v. map_option Not (set_has s2 v)" "\<lambda>v. v \<notin> set_abs s2"] k(2) t(6) by (auto simp: js_set.new_abs set_diff_eq)
  then show "made_set a s1 b s2 (set_abs s1 - set_abs s2) (js_set_difference a [b] h)"
    using made_setI [OF assms n] t(1,2) o(5,6) n by (simp add: js_set_difference_def both_sets_def)
qed

lemma union_ok:
  assumes "two_sets a s1 b s2 h"
  shows "made_set a s1 b s2 (set_abs s1 \<union> set_abs s2) (js_set_union a [b] h)"
proof -
  obtain res h1 where n: "new_set h = (res, h1)" by force
  note o = new_set_ok [OF assms n] and t = two_setsD [OF assms]
  have c: "card (set_abs create_set) + card (set_abs s1) \<le> 187904819" using t(5) by (simp add: js_set.new_abs)
  obtain r1 where r1: "select_into (\<lambda>v h. Some True) res (elements s1) h1 = Some (put_obj res (OSet r1) h1)" "set_inv r1"
      "set_abs r1 = set_abs s1"
    using select_into_ok [OF o(1) js_set.new_inv t(3) c, of "\<lambda>v h. Some True" "\<lambda>v. Some True" "\<lambda>v. True"]
    by (auto simp: js_set.new_abs)
  have d: "deref (put_obj res (OSet r1) h1) res = Some (OSet r1)" using put_obj_views(1) [OF o(1)] .
  obtain r2 where "select_into (\<lambda>v h. Some True) res (elements s2) (put_obj res (OSet r1) h1) = Some (put_obj res (OSet r2) h1)"
      "set_inv r2" "set_abs r2 = set_abs s1 \<union> set_abs s2"
    using select_into_ok [OF d r1(2) t(4), of "\<lambda>v h. Some True" "\<lambda>v. Some True" "\<lambda>v. True"] t(5) r1(3) by auto
  then show ?thesis using made_setI [OF assms n] t(1,2) o(5,6) n r1(1) by (simp add: js_set_union_def both_sets_def)
qed

lemma symmetric_difference_ok:
  assumes "two_sets a s1 b s2 h"
  shows "made_set a s1 b s2 ((set_abs s1 - set_abs s2) \<union> (set_abs s2 - set_abs s1)) (js_set_symmetric_difference a [b] h)"
proof -
  obtain res h1 where n: "new_set h = (res, h1)" by force
  note o = new_set_ok [OF assms n] and t = two_setsD [OF assms]
  have k: "lacks b v (put_obj res (OSet r') h1) = map_option Not (set_has s2 v)"
    "lacks a v (put_obj res (OSet r') h1) = map_option Not (set_has s1 v)" for v r'
    using o(2,3) by (simp_all add: set_has_at_def lacks_def)
  have c: "card (set_abs create_set) + card (set_abs s1) \<le> 187904819" using t(5) by (simp add: js_set.new_abs)
  obtain r1 where r1: "select_into (lacks b) res (elements s1) h1 = Some (put_obj res (OSet r1) h1)" "set_inv r1"
      "set_abs r1 = set_abs s1 - set_abs s2"
    using select_into_ok [OF o(1) js_set.new_inv t(3) c, of "lacks b" "\<lambda>v. map_option Not (set_has s2 v)" "\<lambda>v. v \<notin> set_abs s2"] k(1) t(6)
    by (auto simp: js_set.new_abs set_diff_eq)
  have d: "deref (put_obj res (OSet r1) h1) res = Some (OSet r1)" using put_obj_views(1) [OF o(1)] .
  have "card (set_abs r1) \<le> card (set_abs s1)" unfolding r1(3) by (intro card_mono) (auto simp: set_abs_def tab_set_def)
  then have c2: "card (set_abs r1) + card (set_abs s2) \<le> 187904819" using t(5) by linarith
  have k2: "lacks a v (put_obj res (OSet r') (put_obj res (OSet r1) h1)) = map_option Not (set_has s1 v)" for v r'
    using k(2) by simp
  obtain r2 where "select_into (lacks a) res (elements s2) (put_obj res (OSet r1) h1) = Some (put_obj res (OSet r2) h1)"
      "set_inv r2" "set_abs r2 = (set_abs s1 - set_abs s2) \<union> (set_abs s2 - set_abs s1)"
    using select_into_ok [OF d r1(2) t(4) c2, of "lacks a" "\<lambda>v. map_option Not (set_has s1 v)" "\<lambda>v. v \<notin> set_abs s1"] k2 t(7) r1(3) by (auto simp: set_diff_eq)
  then show ?thesis using made_setI [OF assms n] o(3-6) n r1(1)
    by (simp add: js_set_symmetric_difference_def)
qed

text \<open>
  C11 (refinement): the four methods that combine two sets return a new set, well-formed, with the elements that the
  mathematical operation gives, and leave both operands as they were.
\<close>

theorem set_algebra:
  assumes "two_sets a s1 b s2 h"
  shows "made_set a s1 b s2 (set_abs s1 \<inter> set_abs s2) (js_set_intersection a [b] h) \<and>
    made_set a s1 b s2 (set_abs s1 \<union> set_abs s2) (js_set_union a [b] h) \<and>
    made_set a s1 b s2 (set_abs s1 - set_abs s2) (js_set_difference a [b] h) \<and>
    made_set a s1 b s2 ((set_abs s1 - set_abs s2) \<union> (set_abs s2 - set_abs s1)) (js_set_symmetric_difference a [b] h)"
  using intersection_ok [OF assms] union_ok [OF assms] symmetric_difference_ok [OF assms] by simp

lemma slots_all_ok:
  "(\<And>v. v \<in> set vs \<Longrightarrow> v \<noteq> VAL_UNDEFINED \<Longrightarrow> test v = Some (P v)) \<Longrightarrow>
   slots_all test vs = Some (\<forall>v \<in> set vs. v \<noteq> VAL_UNDEFINED \<longrightarrow> P v)"
  by (induction vs) auto

text \<open>
  set_comparisons (functional): the three comparisons answer as the sets do.
\<close>

theorem set_comparisons:
  assumes "two_sets a s1 b s2 h"
  shows "js_set_is_subset_of a [b] h = Some (bool_value (set_abs s1 \<subseteq> set_abs s2), h) \<and>
    js_set_is_superset_of a [b] h = Some (bool_value (set_abs s2 \<subseteq> set_abs s1), h) \<and>
    js_set_is_disjoint_from a [b] h = Some (bool_value (set_abs s1 \<inter> set_abs s2 = {}), h)"
proof -
  note t = two_setsD [OF assms]
  have m: "v \<in> set_abs s \<longleftrightarrow> v \<in> set (elements s) \<and> v \<noteq> VAL_UNDEFINED" for v s by (auto simp: set_abs_def tab_set_def)
  have "slots_all (set_has s2) (elements s1) = Some (set_abs s1 \<subseteq> set_abs s2)"
    using t(6) m by (subst slots_all_ok [where P = "\<lambda>v. v \<in> set_abs s2"]) auto
  moreover have "slots_all (set_has s1) (elements s2) = Some (set_abs s2 \<subseteq> set_abs s1)"
    using t(7) m by (subst slots_all_ok [where P = "\<lambda>v. v \<in> set_abs s1"]) auto
  moreover have "slots_all (\<lambda>v. map_option Not (set_has s2 v)) (elements s1) = Some (set_abs s1 \<inter> set_abs s2 = {})"
    using t(6) m by (subst slots_all_ok [where P = "\<lambda>v. v \<notin> set_abs s2"]) auto
  moreover have "IS_POINTER a" "IS_POINTER b" using t(1,2) by (auto simp: deref_def split: if_splits)
  ultimately show ?thesis using t(1,2)
    by (simp add: js_set_is_subset_of_def js_set_is_superset_of_def js_set_is_disjoint_from_def both_sets_def)
qed

lemma put_obj_heap_ok:
  assumes "heap_ok h" "deref h v = Some ob" "\<And>s. ob \<noteq> OString s" "\<And>s. ob' \<noteq> OString s"
  shows "heap_ok (put_obj v ob' h)"
proof -
  have "str_of (put_obj v ob' h) = str_of h" using put_obj_str [OF assms(2-4)] by (simp add: fun_eq_iff)
  moreover have "get_pointer v \<in> dom (objs h)" using assms(2) by (auto simp: deref_def split: if_splits)
  moreover have "dom (objs (put_obj v ob' h)) = insert (get_pointer v) (dom (objs h))" by (simp add: put_obj_def)
  moreover have "interned (put_obj v ob' h) = interned h" "brk (put_obj v ob' h) = brk h" by (simp_all add: put_obj_def)
  ultimately show ?thesis using assms(1) by (simp add: heap_ok_def insert_absorb)
qed

lemma create_array_deref:
  assumes "heap_ok h" "create_array n h = (v, k)"
  shows "deref k v = Some (OArray [] (if n > 0 then n else 4))"
proof -
  have "brk h < 2 ^ 48" using assms(1) by (simp add: heap_ok_def)
  then show ?thesis using assms(2) by (auto simp: create_array_def heap_alloc_def deref_make_pointer simp del: get_make)
qed

lemma fold_is_select: "VAL_UNDEFINED \<notin> set es \<Longrightarrow> opt_fold (set_add_at st) es h = select_into (\<lambda>_ _. Some True) st es h"
  by (induction es arbitrary: h) (auto simp: select_into_def split: option.split)

text \<open>
  set_of_array (functional): \<open>new Set(array).values()\<close> has each element of the array once and nothing else, for an array without
  \<open>undefined\<close>, which is the mark of a free slot.
\<close>

theorem set_of_array:
  assumes h: "heap_ok h" "room h 1" and arr: "deref h arr = Some (OArray es c)" "VAL_UNDEFINED \<notin> set es" "length es \<le> 187904819"
  shows "\<exists>st h1 v h2 vs c'. js_set_constructor [arr] h = Some (st, h1) \<and> js_set_values st h1 = Some (v, h2) \<and>
    deref h2 v = Some (OArray vs c') \<and> distinct vs \<and> set vs = set es"
proof -
  obtain st g where n: "new_set h = (st, g)" by force
  note al = heap_alloc_laws [OF h n [unfolded new_set_def]]
  have id: "filter (\<lambda>v. v \<noteq> VAL_UNDEFINED) es = es" using arr(2) by (auto simp: filter_id_conv)
  have proper: "v \<noteq> VAL_UNDEFINED" if "v \<in> set es" for v using that arr(2) by auto
  obtain s where s: "opt_fold (\<lambda>v r. Option.bind (Some True) (\<lambda>b. if b then map_option fst (set_add r v) else Some r)) es create_set = Some s"
      "set_inv s" "set_abs s = set es"
    using js_set.add_selected [OF js_set.new_inv js_set.new_fits [OF arr(3)], of "\<lambda>_. Some True" "\<lambda>_. True"] proper
    by (auto simp: js_set.new_abs)
  let ?h1 = "put_obj st (OSet s) g"
  have st: "deref g st = Some (OSet create_set)" using al by simp
  have "select_into (\<lambda>_ _. Some True) st es g = Some ?h1"
    using select_into_fold [OF st, of "\<lambda>_ _. Some True" "\<lambda>_. Some True" es] s(1) id by simp
  moreover have "deref g arr = Some (OArray es c)" using al arr(1) by (auto simp: extends_def)
  moreover have ptr: "IS_POINTER arr" "IS_POINTER st" using arr(1) al by (auto simp: deref_def split: if_splits)
  ultimately have con: "js_set_constructor [arr] h = Some (st, ?h1)"
    using n fold_is_select [OF arr(2)] by (simp add: js_set_constructor_def)
  have d1: "deref ?h1 st = Some (OSet s)" using put_obj_views(1) [OF st] .
  obtain v k where a: "create_array (unat (JSSet.count s)) ?h1 = (v, k)" by force
  have k: "deref k v = Some (OArray [] (if unat (JSSet.count s) > 0 then unat (JSSet.count s) else 4))"
    using create_array_deref [OF put_obj_heap_ok [OF al(3) st] a] by simp
  have pos: "0 < (if unat (JSSet.count s) > 0 then unat (JSSet.count s) else (4 :: nat))" by simp
  obtain c' where "push_all v (filter (\<lambda>v. v \<noteq> VAL_UNDEFINED) (elements s)) k =
      Some (put_obj v (OArray (filter (\<lambda>v. v \<noteq> VAL_UNDEFINED) (elements s)) c') k)"
    using push_all_ok [OF k _ pos, of "filter (\<lambda>v. v \<noteq> VAL_UNDEFINED) (elements s)"] by auto
  then have "js_set_values st ?h1 = Some (v, put_obj v (OArray (filter (\<lambda>v. v \<noteq> VAL_UNDEFINED) (elements s)) c') k)"
    using a d1 ptr(2) by (simp add: js_set_values_def on_set_def)
  moreover have "distinct (filter (\<lambda>v. v \<noteq> VAL_UNDEFINED) (elements s))"
    using s(2) by (simp add: set_inv_def table_ok_def probe_inv_def)
  ultimately show ?thesis using con put_obj_views(1) [OF k] slots_abs [of s] s(3) by blast
qed

section \<open>Witnesses\<close>

definition added :: "JSSet \<Rightarrow> Value \<Rightarrow> JSSet" where
  "added s v = (case set_add s v of Some (s', _) \<Rightarrow> s' | None \<Rightarrow> s)"

definition set_heap :: heap where
  "set_heap =
     \<lparr>objs = [8 \<mapsto> OSet (added (added create_set VAL_NULL) VAL_TRUE), 16 \<mapsto> OSet (added create_set VAL_NULL),
        24 \<mapsto> OArray [VAL_NULL, VAL_TRUE, VAL_NULL] 4], brk = 32, interned = [], next_symbol = 0\<rparr>"

lemma added_ok:
  assumes "set_inv s" "set_fits s (Suc n)" "v \<noteq> VAL_UNDEFINED"
  shows "set_inv (added s v)" "set_abs (added s v) = insert v (set_abs s)" "set_fits (added s v) n"
proof -
  obtain s' where "set_add s v = Some (s', v \<notin> set_abs s)" "set_inv s'" "set_abs s' = insert v (set_abs s)" "set_fits s' n"
    using js_set.add_law [OF assms] by blast
  then show "set_inv (added s v)" "set_abs (added s v) = insert v (set_abs s)" "set_fits (added s v) n" by (simp_all add: added_def)
qed

lemma demo_sets:
  "two_sets (make_pointer 8) (added (added create_set VAL_NULL) VAL_TRUE) (make_pointer 16) (added create_set VAL_NULL) set_heap"
  "set_abs (added (added create_set VAL_NULL) VAL_TRUE) = {VAL_TRUE, VAL_NULL}" "set_abs (added create_set VAL_NULL) = {VAL_NULL}"
proof -
  have v: "VAL_NULL \<noteq> VAL_UNDEFINED" "VAL_TRUE \<noteq> VAL_UNDEFINED" by (simp_all add: val_defs tag_defs)
  have f: "set_fits create_set (Suc 1)" by (rule js_set.new_fits) simp
  note a = added_ok [OF js_set.new_inv f v(1)]
  note b = added_ok [OF a(1), of 0, simplified, OF a(3) [simplified] v(2)]
  show abs: "set_abs (added (added create_set VAL_NULL) VAL_TRUE) = {VAL_TRUE, VAL_NULL}" "set_abs (added create_set VAL_NULL) = {VAL_NULL}"
    using a(2) b(2) by (simp_all add: js_set.new_abs)
  have "heap_ok set_heap" "room set_heap 1" by (auto simp: heap_ok_def room_def set_heap_def split: if_splits)
  moreover have "deref set_heap (make_pointer 8) = Some (OSet (added (added create_set VAL_NULL) VAL_TRUE))"
    "deref set_heap (make_pointer 16) = Some (OSet (added create_set VAL_NULL))"
    by (simp_all add: deref_make_pointer set_heap_def del: get_make)
  moreover have "card {VAL_TRUE, VAL_NULL} + card {VAL_NULL} \<le> 187904819" by (simp add: card_insert_if)
  ultimately show "two_sets (make_pointer 8) (added (added create_set VAL_NULL) VAL_TRUE) (make_pointer 16) (added create_set VAL_NULL) set_heap"
    using a(1) b(1) abs by (simp add: two_sets_def)
qed

theorem set_algebra_witness:
  "\<exists>v h' s. js_set_difference (make_pointer 8) [make_pointer 16] set_heap = Some (v, h') \<and> deref h' v = Some (OSet s) \<and>
     set_inv s \<and> set_abs s = {VAL_TRUE}"
proof -
  have "{VAL_TRUE, VAL_NULL} - {VAL_NULL} = {VAL_TRUE}" by (auto simp: val_defs tag_defs)
  then show ?thesis using set_algebra [OF demo_sets(1)] demo_sets(2,3) by (auto simp: made_set_def)
qed

theorem set_comparisons_witness:
  "js_set_is_subset_of (make_pointer 8) [make_pointer 16] set_heap = Some (VAL_FALSE, set_heap) \<and>
   js_set_is_superset_of (make_pointer 8) [make_pointer 16] set_heap = Some (VAL_TRUE, set_heap)"
proof -
  have "VAL_TRUE \<noteq> VAL_NULL" by (simp add: val_defs tag_defs)
  then show ?thesis using set_comparisons [OF demo_sets(1)] demo_sets(2,3) by (simp add: bool_value_def)
qed

theorem set_of_array_witness:
  "\<exists>st h1 v h2 vs c'. js_set_constructor [make_pointer 24] set_heap = Some (st, h1) \<and> js_set_values st h1 = Some (v, h2) \<and>
    deref h2 v = Some (OArray vs c') \<and> distinct vs \<and> set vs = {VAL_NULL, VAL_TRUE}"
proof -
  have "heap_ok set_heap" "room set_heap 1" by (auto simp: heap_ok_def room_def set_heap_def split: if_splits)
  moreover have "deref set_heap (make_pointer 24) = Some (OArray [VAL_NULL, VAL_TRUE, VAL_NULL] 4)"
    by (simp add: deref_make_pointer set_heap_def del: get_make)
  moreover have "VAL_UNDEFINED \<notin> set [VAL_NULL, VAL_TRUE, VAL_NULL]" by (simp add: val_defs tag_defs)
  moreover have "set [VAL_NULL, VAL_TRUE, VAL_NULL] = {VAL_NULL, VAL_TRUE}" by auto
  ultimately show ?thesis using set_of_array [of set_heap "make_pointer 24" "[VAL_NULL, VAL_TRUE, VAL_NULL]" 4] by simp
qed

end
