(* ===== verification/Json.thy ===== *)
theory Json
  imports Set_Builtins C_Format
begin

text \<open>
  JSON: \<open>JSON.parse\<close> and \<open>JSON.stringify\<close> of \<open>src/src/builtins.c\<close>, and the second parser, which \<open>src/src/vm.c\<close> uses for
  imported files. A text being read is what is left of it, with the terminator as its last character, so that the
  empty list is a pointer behind the terminator; reading there is \<open>Undefined\<close>, as is a conversion of a double out of
  range. The parsers take a bound on the nesting of calls and the rounds of their loops; \<open>Running\<close> is a run that the bound cut off.
\<close>

section \<open>Runs\<close>

datatype 'a run = Got 'a | Undefined | Running

definition and_then :: "'a run \<Rightarrow> ('a \<Rightarrow> 'b run) \<Rightarrow> 'b run" where
  "and_then r f = (case r of Got x \<Rightarrow> f x | Undefined \<Rightarrow> Undefined | Running \<Rightarrow> Running)"

lemma and_then_simps [simp]:
  "and_then (Got x) f = f x" "and_then Undefined f = Undefined" "and_then Running f = Running"
  by (simp_all add: and_then_def)

definition given :: "'a option \<Rightarrow> 'a run" where
  "given x = (case x of None \<Rightarrow> Undefined | Some y \<Rightarrow> Got y)"

lemma given_simps [simp]: "given (Some x) = Got x" "given None = Undefined"
  by (simp_all add: given_def)

definition json_blank :: "char \<Rightarrow> bool" where
  "json_blank c \<longleftrightarrow> c \<in> {CHR '' '', NL, CR, TAB}"

text \<open>The value that \<open>strtod\<close> reads, and where it stops.\<close>

definition read_double :: "string \<Rightarrow> double \<times> string" where
  "read_double s = (let (d, k) = strtod (c_text s) in (d, drop k s))"

definition push_run :: "Value \<Rightarrow> Value \<Rightarrow> heap \<Rightarrow> heap run" where
  "push_run arr v h = given (map_option snd (array_push arr v h))"

section \<open>\<open>JSON.parse\<close>\<close>

text \<open>\<open>parse_json_value\<close> and its two loops, over the members of an object and the elements of an array.\<close>

fun parse_json_value :: "nat \<Rightarrow> string \<Rightarrow> heap \<Rightarrow> (Value \<times> string \<times> heap) run"
  and json_members :: "nat \<Rightarrow> Value \<Rightarrow> string \<Rightarrow> heap \<Rightarrow> (string \<times> heap) run"
  and json_elements :: "nat \<Rightarrow> Value \<Rightarrow> string \<Rightarrow> heap \<Rightarrow> (string \<times> heap) run" where
  "parse_json_value 0 s h = Running"
| "parse_json_value (Suc n) s h =
     (case dropWhile json_blank s of
        [] \<Rightarrow> Undefined
      | c # t \<Rightarrow>
          if c = CHR ''{''
          then let (obj, h) = create_object h in and_then (json_members n obj t h) (\<lambda>(s, h). Got (obj, s, h))
          else if c = CHR ''[''
          then let (arr, h) = create_array 8 h in and_then (json_elements n arr t h) (\<lambda>(s, h). Got (arr, s, h))
          else if c = DQUOTE
          then let w = takeWhile (\<lambda>c. c \<noteq> NUL \<and> c \<noteq> DQUOTE) t; t = drop (length w) t; (v, h) = create_string w h
               in (case t of [] \<Rightarrow> Undefined | c # t' \<Rightarrow> Got (v, if c = DQUOTE then t' else t, h))
          else if take 4 (c # t) = ''true'' then Got (VAL_TRUE, drop 4 (c # t), h)
          else if take 5 (c # t) = ''false'' then Got (VAL_FALSE, drop 5 (c # t), h)
          else if take 4 (c # t) = ''null'' then Got (VAL_NULL, drop 4 (c # t), h)
          else if is_digit c \<or> c = CHR ''-'' then let (d, s) = read_double (c # t) in Got (make_double d, s, h)
          else Got (VAL_UNDEFINED, c # t, h))"
| "json_members 0 obj s h = Running"
| "json_members (Suc n) obj s h =
     (case s of
        [] \<Rightarrow> Undefined
      | c # _ \<Rightarrow>
          if c = NUL then Got (s, h)
          else case dropWhile json_blank s of
                 [] \<Rightarrow> Undefined
               | c # t \<Rightarrow>
                   if c = CHR ''}'' then Got (t, h)
                   else if c = CHR '','' then json_members n obj t h
                   else if c = DQUOTE
                   then let w = takeWhile (\<lambda>c. c \<noteq> NUL \<and> c \<noteq> DQUOTE) t; t = drop (length w) t; (key, h) = create_string w h
                        in (case t of
                              [] \<Rightarrow> Undefined
                            | c # t' \<Rightarrow>
                                let s = dropWhile (\<lambda>c. c \<in> {CHR '' '', CHR '':''}) (if c = DQUOTE then t' else t)
                                in and_then (parse_json_value n s h) (\<lambda>(v, s, h).
                                     and_then (given (object_set obj key v h)) (\<lambda>h. json_members n obj s h)))
                   else json_members n obj t h)"
| "json_elements 0 arr s h = Running"
| "json_elements (Suc n) arr s h =
     (case s of
        [] \<Rightarrow> Undefined
      | c # _ \<Rightarrow>
          if c = NUL then Got (s, h)
          else case dropWhile json_blank s of
                 [] \<Rightarrow> Undefined
               | c # t \<Rightarrow>
                   if c = CHR '']'' then Got (t, h)
                   else if c = CHR '','' then json_elements n arr t h
                   else and_then (parse_json_value n (c # t) h) (\<lambda>(v, s, h).
                          and_then (push_run arr v h) (\<lambda>h. json_elements n arr s h)))"

definition js_json_parse :: "nat \<Rightarrow> Value list \<Rightarrow> heap \<Rightarrow> (Value \<times> heap) run" where
  "js_json_parse n args h =
     (if args = [] \<or> \<not> IS_POINTER (args ! 0) then Got (VAL_UNDEFINED, h)
      else case str_of h (args ! 0) of
             None \<Rightarrow> Undefined
           | Some s \<Rightarrow> and_then (parse_json_value n (s @ [NUL]) h) (\<lambda>(v, _, h). Got (v, h)))"

section \<open>\<open>JSON.stringify\<close>\<close>

text \<open>
  What \<open>json_stringify_value\<close> appends to the buffer, which always grows enough. \<open>depth\<close> bounds the nesting; \<open>None\<close> is a
  value nested deeper (a cyclic one is, for every bound) or a key that is no string. \<open>strcpy\<close> copies up to the first terminator.
\<close>

definition json_quote :: "string \<Rightarrow> string" where
  "json_quote s = [DQUOTE] @ c_text s @ [DQUOTE]"

fun opt_map :: "('a \<Rightarrow> 'b option) \<Rightarrow> 'a list \<Rightarrow> 'b list option" where
  "opt_map f [] = Some []"
| "opt_map f (x # xs) = do { y \<leftarrow> f x; ys \<leftarrow> opt_map f xs; Some (y # ys) }"

text \<open>The members are the slots of the table with a key; the slots behind the last property have none.\<close>

fun json_stringify_value :: "nat \<Rightarrow> Value \<Rightarrow> heap \<Rightarrow> string option" where
  "json_stringify_value 0 v h = None"
| "json_stringify_value (Suc n) v h =
     (if v = VAL_NULL \<or> v = VAL_UNDEFINED then Some ''null''
      else if v = VAL_TRUE then Some ''true''
      else if v = VAL_FALSE then Some ''false''
      else if IS_INTEGER v then Some (show_int (sint (get_integer v)))
      else if IS_DOUBLE v then Some (fmt_g (get_double v))
      else if IS_POINTER v
      then do {
        ob \<leftarrow> deref h v;
        case ob of
          OString s \<Rightarrow> Some (json_quote s)
        | OObject ps cap \<Rightarrow>
            do {
              ms \<leftarrow> opt_map (\<lambda>(k, w). do { s \<leftarrow> str_of h k; t \<leftarrow> json_stringify_value n w h; Some (json_quote s @ '':'' @ t) })
                      (filter (\<lambda>(k, w). k \<noteq> 0) ps);
              Some (''{'' @ join_with '','' ms @ ''}'')
            }
        | OArray es cap \<Rightarrow> do { ts \<leftarrow> opt_map (\<lambda>w. json_stringify_value n w h) es; Some (''['' @ join_with '','' ts @ '']'') }
        | _ \<Rightarrow> Some ''null''
      }
      else Some [])"

definition js_json_stringify :: "nat \<Rightarrow> Value list \<Rightarrow> heap \<Rightarrow> (Value \<times> heap) option" where
  "js_json_stringify n args h =
     (if args = [] then Some (VAL_UNDEFINED, h)
      else do { s \<leftarrow> json_stringify_value n (args ! 0) h; Some (create_string s h) })"

section \<open>The parser of imported files\<close>

definition with_next :: "string \<Rightarrow> (char \<Rightarrow> string \<Rightarrow> 'a run) \<Rightarrow> 'a run" where
  "with_next s f = (case dropWhile json_blank s of [] \<Rightarrow> Undefined | c # t \<Rightarrow> f c t)"

text \<open>The raw characters of a string literal, and what starts with the closing quote or the terminator.\<close>

fun json_scan :: "string \<Rightarrow> (string \<times> string) option" where
  "json_scan [] = None"
| "json_scan (c # s) =
     (if c = DQUOTE \<or> c = NUL then Some ([], c # s)
      else if c = BSLASH
      then (case s of [] \<Rightarrow> None | d # s' \<Rightarrow> map_option (\<lambda>(w, r). (c # d # w, r)) (json_scan s'))
      else map_option (\<lambda>(w, r). (c # w, r)) (json_scan s))"

definition json_escape :: "char \<Rightarrow> char" where
  "json_escape c = (if c = CHR ''n'' then NL else if c = CHR ''r'' then CR else if c = CHR ''t'' then TAB else c)"

fun json_unescape :: "string \<Rightarrow> string" where
  "json_unescape [] = []"
| "json_unescape [c] = [c]"
| "json_unescape (c # d # s) = (if c = BSLASH then json_escape d # json_unescape s else c # json_unescape (d # s))"

definition json_parse_string :: "string \<Rightarrow> heap \<Rightarrow> (Value \<times> string \<times> heap) run" where
  "json_parse_string t h =
     (case json_scan t of
        None \<Rightarrow> Undefined
      | Some (w, r) \<Rightarrow> let (v, h) = create_string (json_unescape w) h in Got (v, drop 1 r, h))"

definition json_number_char :: "char \<Rightarrow> bool" where
  "json_number_char c \<longleftrightarrow> is_digit c \<or> c \<in> {CHR ''.'', CHR ''e'', CHR ''E'', CHR ''+'', CHR ''-''}"

definition json_parse_number :: "string \<Rightarrow> heap \<Rightarrow> (Value \<times> string \<times> heap) run" where
  "json_parse_number s h =
     (let k = (if s \<noteq> [] \<and> hd s = CHR ''-'' then 1 else 0); w = takeWhile json_number_char (drop k s);
          val = fst (strtod (take k s @ w)); rest = drop (k + length w) s
      in if \<exists>c\<in>set w. c \<in> {CHR ''.'', CHR ''e'', CHR ''E''} then Got (make_double val, rest, h)
         else case f64_to_int32 val of None \<Rightarrow> Undefined | Some i \<Rightarrow> Got (make_integer (word_of_int i), rest, h))"

text \<open>A malformed object or array gives null and leaves the cursor where the fault is.\<close>

fun json_parse_value :: "nat \<Rightarrow> string \<Rightarrow> heap \<Rightarrow> (Value \<times> string \<times> heap) run"
  and json_parse_object :: "nat \<Rightarrow> Value \<Rightarrow> string \<Rightarrow> heap \<Rightarrow> (Value \<times> string \<times> heap) run"
  and json_parse_array :: "nat \<Rightarrow> Value \<Rightarrow> string \<Rightarrow> heap \<Rightarrow> (Value \<times> string \<times> heap) run" where
  "json_parse_value 0 s h = Running"
| "json_parse_value (Suc n) s h =
     with_next s (\<lambda>c t.
       if c = CHR ''{'' then let (obj, h) = create_object h in json_parse_object n obj t h
       else if c = CHR ''['' then let (arr, h) = create_array 0 h in json_parse_array n arr t h
       else if c = DQUOTE then json_parse_string t h
       else if is_digit c \<or> c = CHR ''-'' then json_parse_number (c # t) h
       else if take 4 (c # t) = ''true'' then Got (VAL_TRUE, drop 4 (c # t), h)
       else if take 5 (c # t) = ''false'' then Got (VAL_FALSE, drop 5 (c # t), h)
       else if take 4 (c # t) = ''null'' then Got (VAL_NULL, drop 4 (c # t), h)
       else Got (VAL_UNDEFINED, c # t, h))"
| "json_parse_object 0 obj s h = Running"
| "json_parse_object (Suc n) obj s h =
     with_next s (\<lambda>c t.
       if c = CHR ''}'' then Got (obj, t, h)
       else if c \<noteq> DQUOTE then Got (VAL_NULL, c # t, h)
       else and_then (json_parse_string t h) (\<lambda>(key, s, h).
         with_next s (\<lambda>c t.
           if c \<noteq> CHR '':'' then Got (VAL_NULL, c # t, h)
           else and_then (json_parse_value n t h) (\<lambda>(v, s, h).
             and_then (given (object_set obj key v h)) (\<lambda>h.
               with_next s (\<lambda>c t.
                 if c = CHR '','' then json_parse_object n obj t h
                 else if c = CHR ''}'' then Got (obj, t, h)
                 else Got (VAL_NULL, c # t, h)))))))"
| "json_parse_array 0 arr s h = Running"
| "json_parse_array (Suc n) arr s h =
     with_next s (\<lambda>c t.
       if c = CHR '']'' then Got (arr, t, h)
       else and_then (json_parse_value n (c # t) h) (\<lambda>(v, s, h).
         and_then (push_run arr v h) (\<lambda>h.
           with_next s (\<lambda>c t.
             if c = CHR '','' then json_parse_array n arr t h
             else if c = CHR '']'' then Got (arr, t, h)
             else Got (VAL_NULL, c # t, h)))))"

text \<open>
  \<open>read_file\<close> stands for the C library's file access: the content of a file, or none when it cannot be opened. The first
  message is passed with a length of 54, one byte more than its literal has with its terminator.
\<close>

definition js_import_module :: "(string \<Rightarrow> string option) \<Rightarrow> nat \<Rightarrow> nat list \<Rightarrow> Value list \<Rightarrow> VM \<Rightarrow> outcome run" where
  "js_import_module read_file n acts args vm =
     (if length args < 2 \<or> \<not> IS_POINTER (args ! 0) \<or> \<not> IS_POINTER (args ! 1) then Undefined
      else case (str_of (vheap vm) (args ! 0), str_of (vheap vm) (args ! 1)) of
             (Some path, Some type_str) \<Rightarrow>
               if c_text type_str \<noteq> ''json''
               then given (throw_string acts ''TypeError: import attribute type must be json'' vm)
               else (case read_file (c_text path) of
                       None \<Rightarrow>
                         given (throw_string acts
                           (take 255 (''Error: Failed to open JSON module file '' @ [QUOTE] @ c_text path @ [QUOTE])) vm)
                     | Some content \<Rightarrow>
                         and_then (json_parse_value n (content @ [NUL]) (vheap vm))
                           (\<lambda>(v, _, h). Got (Finished v (vm\<lparr>vheap := h\<rparr>))))
           | _ \<Rightarrow> Undefined)"

end
