(* ===== verification/KV_Store.thy ===== *)
theory KV_Store
  imports Json
begin

text \<open>
  The persistent key-value store of \<open>src/src/kv_store.c\<close>: an in-memory list of keys and values, and a log file to which
  every change is appended and from which \<open>open\<close> rebuilds the list. Files are modelled as the C library shows them: names
  lead to file numbers, file numbers to contents, and an open stream holds a file number, so that it still writes
  to a file whose name \<open>rename\<close> has given to another one. Writes to an open stream succeed; whether a file can
  be opened, and whether \<open>rename\<close> succeeds, are parameters.
\<close>

section \<open>State\<close>

type_synonym kv_nodes = "(string \<times> string option) list"

datatype kv_stream = KOpen nat | KNull | KClosed

record KVStoreContext =
  filepath :: string
  file_handle :: kv_stream
  head :: kv_nodes

record kv_world =
  contexts :: "u64 \<rightharpoonup> KVStoreContext"
  names :: "string \<rightharpoonup> nat"
  contents :: "nat \<Rightarrow> string"
  next_file :: nat

record kv_host =
  may_append :: "string \<Rightarrow> bool"
  may_create :: "string \<Rightarrow> bool"
  may_rename :: "string \<Rightarrow> string \<Rightarrow> bool"

text \<open>\<open>fopen\<close> for appending and reading, and for writing from scratch; \<open>fwrite\<close>; \<open>rename\<close>.\<close>

definition open_append :: "string \<Rightarrow> kv_world \<Rightarrow> nat \<times> kv_world" where
  "open_append path w =
     (case names w path of
        Some i \<Rightarrow> (i, w)
      | None \<Rightarrow> (next_file w, w\<lparr>names := (names w)(path \<mapsto> next_file w), contents := (contents w)(next_file w := []),
                               next_file := next_file w + 1\<rparr>))"

definition open_create :: "string \<Rightarrow> kv_world \<Rightarrow> nat \<times> kv_world" where
  "open_create path w = (let (i, w) = open_append path w in (i, w\<lparr>contents := (contents w)(i := [])\<rparr>))"

definition append_to :: "nat \<Rightarrow> string \<Rightarrow> kv_world \<Rightarrow> kv_world" where
  "append_to i s w = w\<lparr>contents := (contents w)(i := contents w i @ s)\<rparr>"

definition rename_file :: "kv_host \<Rightarrow> string \<Rightarrow> string \<Rightarrow> kv_world \<Rightarrow> kv_world" where
  "rename_file host a b w =
     (if may_rename host a b \<and> a \<noteq> b then w\<lparr>names := (names w)(b := names w a, a := None)\<rparr> else w)"

section \<open>The list in memory\<close>

fun kv_replace :: "string \<Rightarrow> string option \<Rightarrow> kv_nodes \<Rightarrow> kv_nodes option" where
  "kv_replace key val [] = None"
| "kv_replace key val ((k, v) # m) = (if k = key then Some ((k, val) # m) else map_option ((#) (k, v)) (kv_replace key val m))"

definition kv_set_mem :: "string \<Rightarrow> string option \<Rightarrow> kv_nodes \<Rightarrow> kv_nodes" where
  "kv_set_mem key val m =
     (case kv_replace key val m of
        Some m' \<Rightarrow> m'
      | None \<Rightarrow> if val \<noteq> None then (key, val) # m else m)"

fun kv_get_mem :: "kv_nodes \<Rightarrow> string \<Rightarrow> string option" where
  "kv_get_mem [] key = None"
| "kv_get_mem ((k, v) # m) key = (if k = key then v else kv_get_mem m key)"

section \<open>Records of the log\<close>

definition set_record :: "int \<Rightarrow> int \<Rightarrow> string \<Rightarrow> string \<Rightarrow> string" where
  "set_record klen vlen key val = ''S '' @ show_int klen @ '' '' @ show_int vlen @ '' '' @ key @ val @ [NL]"

definition delete_record :: "int \<Rightarrow> string \<Rightarrow> string" where
  "delete_record klen key = ''D '' @ show_int klen @ '' 0 '' @ key @ [NL]"

text \<open>The lengths are 32 bits wide and printed as signed numbers.\<close>

definition len_int :: "string \<Rightarrow> int" where
  "len_int s = sint (of_nat (length s) :: u32)"

text \<open>
  \<open>fscanf\<close> with \<open>%d\<close>: blanks, a sign and digits. A number that does not fit into an \<open>int\<close> is undefined behaviour. The
  blank behind the second \<open>%d\<close> of the format skips all the blanks there are.
\<close>

definition scan_int :: "string \<Rightarrow> (int \<times> string) option" where
  "scan_int s =
     (let s = dropWhile is_space s; (neg, k) = sign_part s; ds = takeWhile is_digit (drop k s)
      in if ds = [] then None else Some (if neg then - digits_val 10 ds else digits_val 10 ds, drop (k + length ds) s))"

definition int_range :: "int \<Rightarrow> bool" where
  "int_range i \<longleftrightarrow> - (2 ^ 31) \<le> i \<and> i < 2 ^ 31"

definition scan_lengths :: "string \<Rightarrow> (int \<times> int \<times> string) option run" where
  "scan_lengths s =
     (case scan_int s of
        None \<Rightarrow> Got None
      | Some (k, s) \<Rightarrow>
          if \<not> int_range k then Undefined
          else (case scan_int s of
                  None \<Rightarrow> Got None
                | Some (v, s) \<Rightarrow> if int_range v then Got (Some (k, v, dropWhile is_space s)) else Undefined))"

text \<open>\<open>malloc(n + 1)\<close> and \<open>fread\<close> of \<open>n\<close> bytes; a negative or the largest \<open>n\<close> overruns the block.\<close>

definition read_block :: "int \<Rightarrow> string \<Rightarrow> (string \<times> string) option run" where
  "read_block n s =
     (if n < 0 \<or> n = 2 ^ 31 - 1 then Undefined
      else Got (if length s < nat n then None else Some (take (nat n) s, drop (nat n) s)))"

text \<open>One record behind its first letter: what it does to the list, and the rest; none where the loop of \<open>kv_open\<close> ends.\<close>

definition load_record :: "char \<Rightarrow> string \<Rightarrow> ((string \<times> string option) \<times> string) option run" where
  "load_record type s =
     and_then (scan_lengths s) (\<lambda>r. case r of
       None \<Rightarrow> Got None
     | Some (k_len, v_len, s) \<Rightarrow>
         and_then (read_block k_len s) (\<lambda>r. case r of
           None \<Rightarrow> Got None
         | Some (key, s) \<Rightarrow>
             if type = CHR ''S''
             then and_then (read_block v_len s) (\<lambda>r. case r of
                    None \<Rightarrow> Got None
                  | Some (val, s) \<Rightarrow> Got (Some ((c_text key, Some (c_text val)), s)))
             else Got (Some ((c_text key, None), s))))"

lemma and_then_Got: "and_then r f = Got x \<Longrightarrow> \<exists>y. r = Got y \<and> f y = Got x"
  by (cases r) auto

lemma scan_int_shorter: "scan_int s = Some (i, r) \<Longrightarrow> length r \<le> length s"
  using length_dropWhile_le [of is_space s] by (auto simp: scan_int_def Let_def split: prod.splits if_splits)

lemma load_record_shorter: "load_record c s = Got (Some (p, r)) \<Longrightarrow> length r \<le> length s"
  by (auto dest!: and_then_Got scan_int_shorter
      simp: load_record_def scan_lengths_def read_block_def order_trans [OF length_dropWhile_le] split: option.splits if_splits)
    (meson diff_le_self length_dropWhile_le order_trans)+

function kv_load :: "string \<Rightarrow> kv_nodes \<Rightarrow> kv_nodes run" where
  "kv_load s m =
     (case s of
        [] \<Rightarrow> Got m
      | c # s \<Rightarrow>
          if c = NL then kv_load s m
          else if c \<noteq> CHR ''S'' \<and> c \<noteq> CHR ''D'' then Got m
          else (case load_record c s of
                  Got (Some ((key, val), s)) \<Rightarrow> kv_load s (kv_set_mem key val m)
                | Got None \<Rightarrow> Got m
                | Undefined \<Rightarrow> Undefined
                | Running \<Rightarrow> Running))"
  by pat_completeness auto
termination
  by (relation "measure (length \<circ> fst)") (auto dest: load_record_shorter)

declare kv_load.simps [simp del]

section \<open>The built-ins\<close>

text \<open>
  A built-in returns a value or throws an error of a kind with a message. The context is a block of raw bytes of the heap, where
  property access finds nothing, as in the data block of a buffer.
\<close>

datatype kv_answer = Returns Value | Throws string string

type_synonym kv_result = "(kv_answer \<times> heap \<times> kv_world) run"

definition kv_open :: "kv_host \<Rightarrow> Value list \<Rightarrow> heap \<Rightarrow> kv_world \<Rightarrow> kv_result" where
  "kv_open host args h w =
     (if args = [] \<or> \<not> IS_POINTER (args ! 0) then Got (Throws ''TypeError'' ''open expects a file path'', h, w)
      else and_then (given (str_of h (args ! 0))) (\<lambda>path.
        let (ctx, h) = heap_alloc OBufferData h; path = take 255 (c_text path)
        in if \<not> may_append host path
           then Got (Throws ''SystemError'' ''Failed to open KV store file'', h, w)
           else let (i, w) = open_append path w
                in and_then (kv_load (contents w i) []) (\<lambda>m.
                     let w = w\<lparr>contexts := (contexts w)(get_pointer ctx \<mapsto> \<lparr>filepath = path, file_handle = KOpen i, head = m\<rparr>)\<rparr>;
                         (js_kv, h) = create_object h; (key, h) = create_string ''_ctx'' h
                     in and_then (given (object_set js_kv key ctx h)) (\<lambda>h. Got (Returns js_kv, h, w)))))"

text \<open>The context that the first argument of the other operations leads to; without one they return undefined.\<close>

definition with_context :: "protos \<Rightarrow> Value \<Rightarrow> heap \<Rightarrow> kv_world \<Rightarrow> (u64 \<Rightarrow> KVStoreContext \<Rightarrow> heap \<Rightarrow> kv_result) \<Rightarrow> kv_result" where
  "with_context pr kv h w f =
     (let (key, h) = create_string ''_ctx'' h
      in and_then (given (object_get pr kv key h)) (\<lambda>(v, h).
           if \<not> IS_POINTER v then Got (Returns VAL_UNDEFINED, h, w)
           else and_then (given (contexts w (get_pointer v))) (\<lambda>ctx. f (get_pointer v) ctx h)))"

definition to_stream :: "kv_stream \<Rightarrow> string \<Rightarrow> kv_world \<Rightarrow> kv_world run" where
  "to_stream f s w = (case f of KOpen i \<Rightarrow> Got (append_to i s w) | _ \<Rightarrow> Undefined)"

definition update_context :: "u64 \<Rightarrow> KVStoreContext \<Rightarrow> kv_world \<Rightarrow> kv_world" where
  "update_context a ctx w = w\<lparr>contexts := (contexts w)(a \<mapsto> ctx)\<rparr>"

text \<open>Appending a record and changing the list, in \<open>kv_set\<close> and \<open>kv_delete\<close>.\<close>

definition kv_store :: "u64 \<Rightarrow> KVStoreContext \<Rightarrow> string \<Rightarrow> string \<Rightarrow> kv_world \<Rightarrow> kv_world run" where
  "kv_store a ctx key val w =
     and_then (to_stream (file_handle ctx) (set_record (len_int key) (len_int val) key val) w) (\<lambda>w.
       Got (update_context a (ctx\<lparr>head := kv_set_mem (c_text key) (Some (c_text val)) (head ctx)\<rparr>) w))"

definition kv_erase :: "u64 \<Rightarrow> KVStoreContext \<Rightarrow> string \<Rightarrow> kv_world \<Rightarrow> kv_world run" where
  "kv_erase a ctx key w =
     and_then (to_stream (file_handle ctx) (delete_record (len_int key) key) w) (\<lambda>w.
       Got (update_context a (ctx\<lparr>head := kv_set_mem (c_text key) None (head ctx)\<rparr>) w))"

definition kv_set :: "protos \<Rightarrow> nat \<Rightarrow> Value list \<Rightarrow> heap \<Rightarrow> kv_world \<Rightarrow> kv_result" where
  "kv_set pr n args h w =
     (if length args < 3 \<or> \<not> IS_POINTER (args ! 0) \<or> \<not> IS_POINTER (args ! 1) then Got (Returns VAL_UNDEFINED, h, w)
      else with_context pr (args ! 0) h w (\<lambda>a ctx h.
        and_then (given (js_json_stringify n [args ! 2] h)) (\<lambda>(sv, h).
          if \<not> IS_POINTER sv then Got (Returns VAL_UNDEFINED, h, w)
          else and_then (given (str_of h (args ! 1))) (\<lambda>key.
            and_then (given (str_of h sv)) (\<lambda>val.
              and_then (kv_store a ctx key val w) (\<lambda>w. Got (Returns VAL_TRUE, h, w)))))))"

definition kv_get :: "protos \<Rightarrow> nat \<Rightarrow> Value list \<Rightarrow> heap \<Rightarrow> kv_world \<Rightarrow> kv_result" where
  "kv_get pr n args h w =
     (if length args < 2 \<or> \<not> IS_POINTER (args ! 0) \<or> \<not> IS_POINTER (args ! 1) then Got (Returns VAL_UNDEFINED, h, w)
      else with_context pr (args ! 0) h w (\<lambda>a ctx h.
        and_then (given (str_of h (args ! 1))) (\<lambda>key.
          case kv_get_mem (head ctx) (c_text key) of
            None \<Rightarrow> Got (Returns VAL_NULL, h, w)
          | Some val \<Rightarrow>
              let (sv, h) = create_string val h
              in and_then (js_json_parse n [sv] h) (\<lambda>(v, h). Got (Returns v, h, w)))))"

definition kv_delete :: "protos \<Rightarrow> Value list \<Rightarrow> heap \<Rightarrow> kv_world \<Rightarrow> kv_result" where
  "kv_delete pr args h w =
     (if length args < 2 \<or> \<not> IS_POINTER (args ! 0) \<or> \<not> IS_POINTER (args ! 1) then Got (Returns VAL_UNDEFINED, h, w)
      else with_context pr (args ! 0) h w (\<lambda>a ctx h.
        and_then (given (str_of h (args ! 1))) (\<lambda>key.
          and_then (kv_erase a ctx key w) (\<lambda>w. Got (Returns VAL_TRUE, h, w)))))"

text \<open>What compaction writes: the keys with a value, in the order of the list.\<close>

definition compacted :: "kv_nodes \<Rightarrow> string" where
  "compacted m = concat (map (\<lambda>(k, v). case v of None \<Rightarrow> [] | Some t \<Rightarrow> set_record (len_int k) (len_int t) k t) m)"

definition kv_rewrite :: "kv_host \<Rightarrow> u64 \<Rightarrow> KVStoreContext \<Rightarrow> kv_world \<Rightarrow> (kv_answer \<times> kv_world) run" where
  "kv_rewrite host a ctx w =
     (if file_handle ctx = KClosed then Undefined
      else let ctx = (if file_handle ctx = KNull then ctx else ctx\<lparr>file_handle := KClosed\<rparr>);
               tmp = take 511 (filepath ctx @ ''.tmp'')
           in if \<not> may_create host tmp
              then Got (Throws ''SystemError'' ''Failed to open temp file for compaction'', update_context a ctx w)
              else let (t, w) = open_create tmp w; w = append_to t (compacted (head ctx)) w;
                       w = rename_file host tmp (filepath ctx) w
                   in if may_append host (filepath ctx)
                      then let (i, w) = open_append (filepath ctx) w
                           in Got (Returns VAL_TRUE, update_context a (ctx\<lparr>file_handle := KOpen i\<rparr>) w)
                      else Got (Throws ''SystemError'' ''Failed to reopen KV file'', update_context a (ctx\<lparr>file_handle := KNull\<rparr>) w))"

definition kv_compact :: "kv_host \<Rightarrow> protos \<Rightarrow> Value list \<Rightarrow> heap \<Rightarrow> kv_world \<Rightarrow> kv_result" where
  "kv_compact host pr args h w =
     (if args = [] \<or> \<not> IS_POINTER (args ! 0) then Got (Returns VAL_UNDEFINED, h, w)
      else with_context pr (args ! 0) h w (\<lambda>a ctx h.
        and_then (kv_rewrite host a ctx w) (\<lambda>(r, w). Got (r, h, w))))"

end
