(* ===== verification/Float64_Laws.thy ===== *)
theory Float64_Laws
  imports Float64
begin

text \<open>
  The conversion of an integer to a double is exact below \<open>2 ^ 53\<close>: the double has the value of the integer, and
  converting it back gives the integer.
\<close>

lemma bitlen_bounds: "0 < n \<Longrightarrow> 2 ^ (bitlen n - 1) \<le> n \<and> n < 2 ^ bitlen n \<and> 0 < bitlen n"
proof (induction n rule: bitlen.induct)
  case (1 n)
  show ?case
  proof (cases "n = 1")
    case True
    then show ?thesis by (simp add: bitlen.simps)
  next
    case False
    then have IH: "2 ^ (bitlen (n div 2) - 1) \<le> n div 2" "n div 2 < 2 ^ bitlen (n div 2)" "0 < bitlen (n div 2)"
      using 1 by auto
    obtain k where k: "bitlen (n div 2) = Suc k" using IH(3) gr0_implies_Suc by blast
    have b: "bitlen n = Suc (Suc k)" using 1(2) k by (subst bitlen.simps) simp
    have "2 * P \<le> n \<and> n < 4 * P" if "P \<le> n div 2" "n div 2 < 2 * P" for P using that by linarith
    then show ?thesis using IH(1,2) unfolding b k by simp
  qed
qed

lemma bitlen_unique: "2 ^ k \<le> n \<Longrightarrow> n < 2 ^ Suc k \<Longrightarrow> bitlen n = Suc k"
proof -
  assume n: "2 ^ k \<le> n" "n < 2 ^ Suc k"
  then have pos: "0 < n" by (meson less_le_trans zero_less_numeral zero_less_power)
  note b = bitlen_bounds [OF pos]
  have "(2 :: int) ^ (bitlen n - 1) < 2 ^ Suc k" "(2 :: int) ^ k < 2 ^ bitlen n" using n b by linarith+
  then have "bitlen n - 1 < Suc k" "k < bitlen n" by (simp_all only: power_strict_increasing_iff one_less_numeral_iff semiring_norm)
  then show ?thesis by simp
qed

lemma bitlen_shift: "0 < n \<Longrightarrow> bitlen (n * 2 ^ k) = bitlen n + k"
proof -
  assume n: "0 < n"
  note b = bitlen_bounds [OF n]
  obtain l where l: "bitlen n = Suc l" using b gr0_implies_Suc by blast
  have "2 ^ (l + k) \<le> n * 2 ^ k" "n * 2 ^ k < 2 ^ Suc (l + k)"
    using b l by (simp_all add: power_add)
  then show ?thesis using bitlen_unique l by simp
qed

lemma bit_unat: "bit w 63 \<longleftrightarrow> 2 ^ 63 \<le> unat (w :: double)"
proof -
  have "unat w < 2 ^ 64" using unsigned_less [of w] by simp
  then have "odd (unat w div 2 ^ 63) \<longleftrightarrow> 2 ^ 63 \<le> unat w" by (cases "unat w < 2 ^ 63") (auto simp: div_nat_eqI [of _ 1])
  moreover have "bit (unat w) 63 \<longleftrightarrow> bit w 63" by (simp add: bit_unsigned_iff)
  ultimately show ?thesis by (simp add: bit_iff_odd [of "unat w"])
qed

lemma signed_word:
  assumes "0 \<le> m" "m < 2 ^ 63"
  shows "unat ((if neg then 0x8000000000000000 else 0) OR word_of_int m :: double) = (if neg then 2 ^ 63 else 0) + nat m"
proof -
  have m: "unat (word_of_int m :: double) = nat m" using assms by (simp add: unat_eq_nat_uint uint_word_of_int)
  have low: "\<not> bit (word_of_int m :: double) 63" using m assms by (simp add: bit_unat)
  have high: "bit (0x8000000000000000 :: double) n \<longleftrightarrow> n = 63" for n
  proof -
    have "(0x8000000000000000 :: double) = 2 ^ 63" by simp
    then show ?thesis by (simp only: bit_exp_iff) auto
  qed
  have "\<not> bit ((0x8000000000000000 :: double) AND word_of_int m) n" for n
    using low by (cases "n = 63") (simp_all only: bit_and_iff high simp_thms)
  then have "(0x8000000000000000 :: double) AND word_of_int m = 0" by (intro bit_eqI) (simp only: bit_0_eq bot_apply bot_bool_def)
  then have "(0x8000000000000000 :: double) OR word_of_int m = 0x8000000000000000 + word_of_int m"
    by (simp add: disjunctive_add_eq_or)
  moreover have "unat (0x8000000000000000 + word_of_int m :: double) = 2 ^ 63 + nat m"
    using m assms by (subst unat_add_lem [THEN iffD1]) auto
  ultimately show ?thesis using m by simp
qed

lemma round_exact: "0 < d \<Longrightarrow> round_half_even (q * d) d = q"
  by (simp add: round_half_even_def)

lemma double_fields:
  assumes "unat w = (if neg then 2 ^ 63 else 0) + (e * 2 ^ 52 + f)" "e < 2 ^ 11" "f < 2 ^ 52"
  shows "f64_sign w = neg" "f64_exp w = e" "f64_frac w = int f"
proof -
  have "e * 2 ^ 52 + f < 2 ^ 63" using assms(2,3) by simp
  then show "f64_sign w = neg" using assms(1) by (auto simp: f64_sign_def bit_unat)
  have "unat w div 2 ^ 52 = (if neg then 2 ^ 11 else 0) + e"
    using assms(1,3) by (intro div_nat_eqI) (auto simp: algebra_simps)
  then show "f64_exp w = e" unfolding f64_fields using assms(2) by (auto simp del: power_numeral)
  have "unat w = ((if neg then 2 ^ 11 else 0) + e) * 2 ^ 52 + f" using assms(1) by simp
  then show "f64_frac w = int f" unfolding f64_fields using assms(3) by (simp only: mod_mult_self3 mod_less)
qed

text \<open>The double of an integer: the exponent field and the significand that the rounding gives, here exact.\<close>

lemma f64_of_int_fields:
  assumes "i \<noteq> 0" "\<bar>i\<bar> < 2 ^ 53"
  obtains s q where "\<bar>i\<bar> * 2 ^ 1074 = q * 2 ^ s" "2 ^ 52 \<le> q" "q < 2 ^ 53" "s \<le> 1074"
    "unat (f64_of_int i) = (if i < 0 then 2 ^ 63 else 0) + ((s + 1) * 2 ^ 52 + nat (q - 2 ^ 52))"
proof -
  define K :: nat where "K = 1074"
  define L where "L = bitlen \<bar>i\<bar>"
  have b: "2 ^ (L - 1) \<le> \<bar>i\<bar>" "\<bar>i\<bar> < 2 ^ L" "0 < L" using bitlen_bounds [of "\<bar>i\<bar>"] assms(1) by (simp_all add: L_def)
  have "(2 :: int) ^ (L - 1) < 2 ^ 53" using b(1) assms(2) by linarith
  then have L: "L \<le> 53" by (simp only: power_strict_increasing_iff one_less_numeral_iff semiring_norm)
  define s where "s = L + 1021"
  define q where "q = \<bar>i\<bar> * 2 ^ (53 - L)"
  have K: "K = (53 - L) + s" using L by (simp add: K_def s_def)
  have n: "\<bar>i\<bar> * 2 ^ K = q * 2 ^ s" unfolding K power_add q_def by (simp add: mult.assoc)
  have "(2 :: int) ^ 52 = 2 ^ (L - 1) * 2 ^ (53 - L)" "(2 :: int) ^ 53 = 2 ^ L * 2 ^ (53 - L)"
    using L b(3) by (simp_all flip: power_add)
  then have q: "2 ^ 52 \<le> q" "q < 2 ^ 53" using b by (simp_all only: q_def mult_right_mono mult_strict_right_mono zero_less_power zero_le_power zero_less_numeral zero_le_numeral)
  have "bitlen (\<bar>i\<bar> * 2 ^ K) - 53 = s" using bitlen_shift [of "\<bar>i\<bar>" K] assms(1) by (simp add: L_def [symmetric] s_def K_def)
  moreover have "round_half_even (\<bar>i\<bar> * 2 ^ K) (1 * 2 ^ s) = q" unfolding n mult_1 by (rule round_exact) simp
  moreover have "int s * 2 ^ 52 + q < 2047 * 2 ^ 52" using q(2) L by (simp add: s_def)
  ultimately have w: "f64_of_int i = (if i < 0 then 0x8000000000000000 else 0) OR word_of_int (int s * 2 ^ 52 + q)"
    unfolding f64_of_int_def f64_round_def K_def [symmetric] by (simp add: Let_def)
  have "nat (int s * 2 ^ 52 + q) = (s + 1) * 2 ^ 52 + nat (q - 2 ^ 52)" using q(1) by simp
  then have "unat (f64_of_int i) = (if i < 0 then 2 ^ 63 else 0) + ((s + 1) * 2 ^ 52 + nat (q - 2 ^ 52))"
    unfolding w using q L by (subst signed_word) (auto simp: s_def)
  then show ?thesis using that n q L unfolding K_def s_def by simp
qed

lemma f64_of_int_zero: "f64_of_int 0 = 0"
  by (simp add: f64_of_int_def f64_round_def round_half_even_def bitlen.simps)

lemma f64_of_int_parts:
  assumes "\<bar>i\<bar> < 2 ^ 53"
  shows "f64_sign (f64_of_int i) \<longleftrightarrow> i < 0" "f64_is_finite (f64_of_int i)" "f64_scaled (f64_of_int i) = i * 2 ^ 1074"
proof -
  have "(f64_sign (f64_of_int i) \<longleftrightarrow> i < 0) \<and> f64_is_finite (f64_of_int i) \<and> f64_scaled (f64_of_int i) = i * 2 ^ 1074"
  proof (cases "i = 0")
    case True
    then show ?thesis
      by (simp add: f64_of_int_zero f64_sign_def f64_is_finite_def f64_exp_def f64_scaled_def f64_frac_def)
  next
    case False
    obtain s q where f: "\<bar>i\<bar> * 2 ^ 1074 = q * 2 ^ s" "2 ^ 52 \<le> q" "q < 2 ^ 53" "s \<le> 1074"
      "unat (f64_of_int i) = (if i < 0 then 2 ^ 63 else 0) + ((s + 1) * 2 ^ 52 + nat (q - 2 ^ 52))"
      using f64_of_int_fields [OF False assms] by blast
    have "nat (q - 2 ^ 52) < 2 ^ 52" "s + 1 < 2 ^ 11" using f(2-4) by auto
    note w = double_fields [OF f(5) this(2,1)]
    have "(2 ^ 52 + f64_frac (f64_of_int i)) * 2 ^ (f64_exp (f64_of_int i) - 1) = \<bar>i\<bar> * 2 ^ 1074"
      unfolding w f(1) using f(2) by (simp del: power_numeral)
    then show ?thesis using w f(4) by (auto simp: f64_scaled_def f64_is_finite_def Let_def abs_if simp del: power_numeral)
  qed
  then show "f64_sign (f64_of_int i) \<longleftrightarrow> i < 0" "f64_is_finite (f64_of_int i)" "f64_scaled (f64_of_int i) = i * 2 ^ 1074" by auto
qed

text \<open>Converting the double back.\<close>

lemma f64_trunc_of_int: "\<bar>i\<bar> < 2 ^ 53 \<Longrightarrow> f64_trunc (f64_of_int i) = i"
  using f64_of_int_parts [of i] by (simp add: f64_trunc_def Let_def abs_mult del: power_numeral)

lemma f64_to_int32_of_int: "- (2 ^ 31) \<le> i \<Longrightarrow> i < 2 ^ 31 \<Longrightarrow> f64_to_int32 (f64_of_int i) = Some i"
proof -
  assume i: "- (2 ^ 31) \<le> i" "i < 2 ^ 31"
  then have small: "\<bar>i\<bar> < 2 ^ 53" by simp
  show ?thesis using i f64_trunc_of_int [OF small] f64_of_int_parts(2) [OF small] by (simp add: f64_to_int32_def f64_to_range_def)
qed

lemma f64_of_int_not_nan: "\<bar>i\<bar> < 2 ^ 53 \<Longrightarrow> \<not> f64_is_nan (f64_of_int i)"
  using f64_of_int_parts(2) by (auto simp: f64_is_finite_def f64_is_nan_def)

end
