(* ===== verification/Json_Laws.thy ===== *)
theory Json_Laws
  imports Json Float64_Laws
begin

text \<open>
  JSON on the heap: what the printer writes for a value both parsers read back, the parser of imported files always
  ends, and \<open>JSON.parse\<close> does not.
\<close>

section \<open>Decimal numbers\<close>

lemma digit_char_laws: "d < 10 \<Longrightarrow> is_digit (digit_char d)" "d < 10 \<Longrightarrow> digit_val (digit_char d) = int d"
proof -
  have "of_char (char_of (48 + d)) = int (of_char (char_of (48 + d)))" by (simp only: of_nat_of_char)
  then show "d < 10 \<Longrightarrow> is_digit (digit_char d)" "d < 10 \<Longrightarrow> digit_val (digit_char d) = int d"
    by (simp_all add: digit_char_def digit_val_def char_class_defs)
qed

lemma show_nat_digits: "\<forall>c\<in>set (show_nat n). is_digit c"
proof (induction n rule: show_nat.induct)
  case (1 n)
  then show ?case using digit_char_laws(1) [of n] digit_char_laws(1) [of "n mod 10"]
    by (subst show_nat.simps) auto
qed

lemma show_nat_Nil: "show_nat n \<noteq> []"
  by (subst show_nat.simps) simp

lemma digits_val_snoc: "digits_val b (ds @ [c]) = digits_val b ds * b + digit_val c"
  by (simp add: digits_val_def)

lemma digits_val_show: "digits_val 10 (show_nat n) = int n"
proof (induction n rule: show_nat.induct)
  case (1 n)
  show ?case
  proof (cases "n < 10")
    case True
    then show ?thesis using digits_val_snoc [of 10 "[]"] by (subst show_nat.simps) (simp add: digit_char_laws(2) digits_val_def)
  next
    case False
    then have "digits_val 10 (show_nat (n div 10)) = int (n div 10)" by (rule 1)
    then show ?thesis using False by (subst show_nat.simps) (simp add: digits_val_snoc digit_char_laws(2) zdiv_int zmod_int)
  qed
qed

text \<open>What may follow a number in a printed document.\<close>

definition closes :: "string \<Rightarrow> bool" where
  "closes r \<longleftrightarrow> r = [] \<or> hd r \<in> {CHR '','', CHR '']'', CHR ''}''}"

lemma takeWhile_digits: "\<forall>c\<in>set w. P c \<Longrightarrow> r = [] \<or> \<not> P (hd r) \<Longrightarrow> takeWhile P (w @ r) = w"
  by (cases r) (auto simp: takeWhile_append2 takeWhile_eq_all_conv)

lemma digit_not: "is_digit c \<Longrightarrow> lower_char c = c \<and> c \<noteq> CHR ''x'' \<and> c \<noteq> CHR ''i'' \<and> c \<noteq> CHR ''n'' \<and> \<not> is_space c \<and> c \<noteq> CHR ''-'' \<and> c \<noteq> CHR ''+''"
  by (auto simp: lower_char_def char_class_defs is_space_def)

lemma closes_at: "closes r \<Longrightarrow> at r 0 \<notin> {CHR ''.'', CHR ''e'', CHR ''E'', CHR ''x'', CHR ''X''} \<and> (r = [] \<or> \<not> is_digit (hd r)) \<and>
    (r = [] \<or> lower_char (hd r) \<noteq> CHR ''x'')"
  by (cases r) (auto simp: closes_def at_def NUL_def char_class_defs lower_char_def)

lemma strtod_digits:
  assumes "closes r"
  shows "strtod_unsigned neg (show_nat n @ r) = (scale 10 neg (int n) 0, length (show_nat n))"
proof -
  let ?w = "show_nat n"
  obtain c w where w: "?w = c # w" using show_nat_Nil by (cases "show_nat n") auto
  have c: "is_digit c" "\<forall>c\<in>set w. is_digit c" using show_nat_digits [of n] w by auto
  have x: "\<not> has_prefix_ci ''0x'' (?w @ r)"
    using digit_not c closes_at [OF assms] by (cases w; cases r) (auto simp: has_prefix_ci_def w)
  have i: "\<not> has_prefix_ci ''infinity'' (?w @ r)" "\<not> has_prefix_ci ''inf'' (?w @ r)" "\<not> has_prefix_ci ''nan'' (?w @ r)"
    using digit_not [OF c(1)] by (auto simp: has_prefix_ci_def w)
  have tw: "takeWhile is_digit (?w @ r) = ?w" using takeWhile_digits [OF show_nat_digits] closes_at [OF assms] by blast
  have "at (?w @ r) (length ?w) = at r 0" by (simp add: at_def nth_append)
  then have m: "mantissa is_digit (?w @ r) = (?w, 0, length ?w)"
    using tw closes_at [OF assms] by (simp add: mantissa_def Let_def)
  have e: "exponent_part [CHR ''e'', CHR ''E''] r = (0, 0)"
    using closes_at [OF assms] by (simp add: exponent_part_def split: prod.split)
  show ?thesis unfolding strtod_unsigned_def using x i m e w
    by (simp add: digits_val_show [of n, unfolded w])
qed

lemma strtod_int:
  assumes "closes r"
  shows "strtod (show_int i @ r) = (f64_of_int i, length (show_int i))"
proof -
  obtain n where n: "show_int i = (if i < 0 then CHR ''-'' # show_nat n else show_nat n)" "int n = \<bar>i\<bar>"
    by (metis abs_if abs_ge_zero int_nat_eq nat_0_le show_int_def)
  obtain c w where w: "show_nat n = c # w" using show_nat_Nil by (cases "show_nat n") auto
  have c: "is_digit c" using show_nat_digits [of n] w by auto
  have ws: "takeWhile is_space (show_int i @ r) = []" using n(1) w digit_not [OF c] by (auto simp: is_space_def char_class_defs)
  have sg: "sign_part (show_int i @ r) = (i < 0, if i < 0 then 1 else 0)"
    using n(1) w digit_not [OF c] by (simp add: sign_part_def at_def)
  have "drop (if i < 0 then 1 else 0) (show_int i @ r) = show_nat n @ r" using n(1) by simp
  moreover have "scale 10 (i < 0) (int n) 0 = f64_of_int i" by (simp add: scale_def f64_of_int_def n(2))
  ultimately show ?thesis using ws sg strtod_digits [OF assms, of "i < 0" n] show_nat_Nil [of n] n(1) unfolding strtod_def
    by (simp add: Let_def)
qed

section \<open>Documents and their heap representation\<close>

datatype json = JNull | JBool bool | JNum int | JStr string | JArr "json list" | JObj "(string \<times> json) list"

fun json_text :: "json \<Rightarrow> string" where
  "json_text JNull = ''null''"
| "json_text (JBool b) = (if b then ''true'' else ''false'')"
| "json_text (JNum i) = show_int i"
| "json_text (JStr s) = DQUOTE # s @ [DQUOTE]"
| "json_text (JArr js) = ''['' @ join_with '','' (map json_text js) @ '']''"
| "json_text (JObj kvs) = ''{'' @ join_with '','' (map (\<lambda>(k, j). DQUOTE # k @ DQUOTE # '':'' @ json_text j) kvs) @ ''}''"

text \<open>Neither terminators, quotes nor backslashes in strings, no repeated keys, integers of 32 bits.\<close>

definition plain :: "string \<Rightarrow> bool" where
  "plain s \<longleftrightarrow> NUL \<notin> set s \<and> DQUOTE \<notin> set s \<and> BSLASH \<notin> set s"

fun plain_json :: "json \<Rightarrow> bool" where
  "plain_json JNull = True"
| "plain_json (JBool b) = True"
| "plain_json (JNum i) = (- (2 ^ 31) \<le> i \<and> i < 2 ^ 31)"
| "plain_json (JStr s) = plain s"
| "plain_json (JArr js) = list_all plain_json js"
| "plain_json (JObj kvs) = (distinct (map fst kvs) \<and> list_all (\<lambda>(k, j). plain k \<and> plain_json j) kvs)"

text \<open>The nesting, the bound that is enough to read a document, and the objects that reading it allocates at most.\<close>

fun json_depth :: "json \<Rightarrow> nat" where
  "json_depth (JArr js) = Suc (sum_list (map json_depth js))"
| "json_depth (JObj kvs) = Suc (sum_list (map (\<lambda>(k, j). json_depth j) kvs))"
| "json_depth _ = 1"

fun json_fuel :: "json \<Rightarrow> nat" where
  "json_fuel (JArr js) = 2 + sum_list (map (\<lambda>j. 2 + json_fuel j) js)"
| "json_fuel (JObj kvs) = 2 + sum_list (map (\<lambda>(k, j). 2 + json_fuel j) kvs)"
| "json_fuel _ = 1"

fun json_cells :: "json \<Rightarrow> nat" where
  "json_cells (JStr s) = 1"
| "json_cells (JArr js) = 1 + sum_list (map json_cells js)"
| "json_cells (JObj kvs) = 1 + sum_list (map (\<lambda>(k, j). 1 + json_cells j) kvs)"
| "json_cells _ = 0"

text \<open>The values that stand for a document; \<open>num\<close> says how numbers do, since the two parsers differ in that.\<close>

inductive rep :: "(int \<Rightarrow> Value) \<Rightarrow> heap \<Rightarrow> json \<Rightarrow> Value \<Rightarrow> bool" for num h where
  rep_null: "rep num h JNull VAL_NULL"
| rep_bool: "rep num h (JBool b) (bool_value b)"
| rep_num: "rep num h (JNum i) (num i)"
| rep_str: "str_of h v = Some s \<Longrightarrow> rep num h (JStr s) v"
| rep_arr: "deref h v = Some (OArray es c) \<Longrightarrow> list_all2 (rep num h) js es \<Longrightarrow> rep num h (JArr js) v"
| rep_obj: "deref h v = Some (OObject ps c) \<Longrightarrow>
    list_all2 (\<lambda>p q. str_of h (fst q) = Some (fst p) \<and> rep num h (snd p) (snd q)) kvs ps \<Longrightarrow> rep num h (JObj kvs) v"

inductive_cases rep_cases:
  "rep num h JNull v" "rep num h (JBool b) v" "rep num h (JNum i) v" "rep num h (JStr s) v" "rep num h (JArr js) v" "rep num h (JObj kvs) v"

definition int_value :: "int \<Rightarrow> Value" where
  "int_value i = make_integer (word_of_int i)"

definition double_value :: "int \<Rightarrow> Value" where
  "double_value i = make_double (f64_of_int i)"

lemma rep_extends: "rep num h j v \<Longrightarrow> extends h h' \<Longrightarrow> rep num h' j v"
proof (induction rule: rep.induct)
  case (rep_arr v es c js)
  then show ?case by (intro rep.rep_arr [of _ _ es c]) (auto simp: extends_def elim: list.rel_mono_strong)
next
  case (rep_obj v ps c kvs)
  have "list_all2 (\<lambda>p q. str_of h' (fst q) = Some (fst p) \<and> rep num h' (snd p) (snd q)) kvs ps"
    using rep_obj(2,3) extends_str by (auto elim!: list.rel_mono_strong)
  then show ?case using rep_obj(1,3) by (intro rep.rep_obj [of _ _ ps c]) (auto simp: extends_def)
qed (auto intro: rep.intros extends_str)

section \<open>Printing\<close>

lemma opt_map_all2: "list_all2 (\<lambda>x y. f y = Some (g x)) xs ys \<Longrightarrow> opt_map f ys = Some (map g xs)"
  by (induction rule: list_all2_induct) auto

lemma const_kinds:
  "VAL_TRUE \<noteq> VAL_NULL" "VAL_TRUE \<noteq> VAL_UNDEFINED" "VAL_TRUE \<noteq> VAL_FALSE" "VAL_FALSE \<noteq> VAL_NULL" "VAL_FALSE \<noteq> VAL_UNDEFINED"
  by (simp_all add: val_defs tag_defs)

lemma value_kinds:
  "int_value i \<notin> {VAL_NULL, VAL_UNDEFINED, VAL_TRUE, VAL_FALSE}" "IS_INTEGER (int_value i)"
  "IS_POINTER v \<Longrightarrow> v \<notin> {VAL_NULL, VAL_UNDEFINED, VAL_TRUE, VAL_FALSE}"
  "IS_POINTER v \<Longrightarrow> \<not> IS_INTEGER v \<and> \<not> IS_DOUBLE v \<and> v \<noteq> 0"
proof -
  show "int_value i \<notin> {VAL_NULL, VAL_UNDEFINED, VAL_TRUE, VAL_FALSE}"
    unfolding int_value_def by (metis insertE empty_iff kind_of_make)
  show "IS_POINTER v \<Longrightarrow> v \<notin> {VAL_NULL, VAL_UNDEFINED, VAL_TRUE, VAL_FALSE}" by auto
  have "\<not> IS_POINTER 0" by code_simp
  then show "IS_POINTER v \<Longrightarrow> \<not> IS_INTEGER v \<and> \<not> IS_DOUBLE v \<and> v \<noteq> 0" by (auto simp: kind_simps)
qed (simp add: int_value_def)

lemma member_le_sum: "x \<in> set xs \<Longrightarrow> f x \<le> sum_list (map f xs)" for f :: "'a \<Rightarrow> nat"
  by (induction xs) auto

lemma stringify_ok:
  "plain_json j \<Longrightarrow> rep int_value h j v \<Longrightarrow> json_depth j \<le> n \<Longrightarrow> json_stringify_value n v h = Some (json_text j)"
proof (induction j arbitrary: v n)
  case JNull
  then show ?case by (cases n) (auto elim: rep_cases)
next
  case (JBool b)
  then show ?case by (cases n; cases b) (auto elim!: rep_cases simp: bool_value_def const_kinds const_kinds [symmetric])
next
  case (JNum i)
  then have "v = int_value i" "sint (word_of_int i :: u32) = i" by (auto elim: rep_cases simp: sint_sbintrunc' signed_take_bit_int_eq_self)
  then show ?case using JNum(3) value_kinds(1,2) [of i] by (cases n) (simp_all add: int_value_def)
next
  case (JStr s)
  then have d: "deref h v = Some (OString s)" by (auto elim: rep_cases simp: str_deref)
  then have "IS_POINTER v" by (simp add: deref_def split: if_splits)
  then show ?case using JStr d value_kinds(3,4) [of v] by (cases n) (simp_all add: json_quote_def plain_def c_text_id)
next
  case (JArr js)
  obtain es c where d: "deref h v = Some (OArray es c)" "list_all2 (rep int_value h) js es" using JArr(3) by (auto elim: rep_cases)
  obtain k where n: "n = Suc k" "sum_list (map json_depth js) \<le> k" using JArr(4) by (cases n) auto
  have "list_all2 (\<lambda>j w. json_stringify_value k w h = Some (json_text j)) js es"
    using d(2) JArr(1,2) member_le_sum [of _ js json_depth] n(2)
    by (auto elim!: list.rel_mono_strong simp: list_all_iff) (meson le_trans)
  then have "opt_map (\<lambda>w. json_stringify_value k w h) es = Some (map json_text js)" by (rule opt_map_all2)
  moreover have "IS_POINTER v" using d by (simp add: deref_def split: if_splits)
  ultimately show ?case using d(1) value_kinds(3,4) [of v] by (simp add: n(1))
next
  case (JObj kvs)
  obtain ps c where d: "deref h v = Some (OObject ps c)"
      "list_all2 (\<lambda>p q. str_of h (fst q) = Some (fst p) \<and> rep int_value h (snd p) (snd q)) kvs ps"
    using JObj(3) by (auto elim: rep_cases)
  obtain k where n: "n = Suc k" "sum_list (map (\<lambda>(k, j). json_depth j) kvs) \<le> k" using JObj(4) by (cases n) auto
  let ?f = "\<lambda>(k', w). Option.bind (str_of h k') (\<lambda>s. Option.bind (json_stringify_value k w h) (\<lambda>t. Some (json_quote s @ '':'' @ t)))"
  have "?f q = Some (DQUOTE # fst p @ DQUOTE # '':'' @ json_text (snd p))"
    if "p \<in> set kvs" "str_of h (fst q) = Some (fst p)" "rep int_value h (snd p) (snd q)" for p q
  proof -
    have "plain (fst p)" "plain_json (snd p)" using JObj(2) that(1) by (auto simp: list_all_iff)
    moreover have "json_depth (snd p) \<le> k" using member_le_sum [OF that(1), of "\<lambda>(k, j). json_depth j"] n(2) by (simp add: split_beta)
    ultimately show ?thesis using JObj(1) [OF that(1), of "snd p" "snd q" k] that(2,3)
      by (simp add: split_beta snds.simps json_quote_def plain_def c_text_id)
  qed
  then have "list_all2 (\<lambda>p q. ?f q = Some (DQUOTE # fst p @ DQUOTE # '':'' @ json_text (snd p))) kvs ps"
    using d(2) by (auto elim!: list.rel_mono_strong)
  then have "opt_map ?f ps = Some (map (\<lambda>p. DQUOTE # fst p @ DQUOTE # '':'' @ json_text (snd p)) kvs)" by (rule opt_map_all2)
  moreover have "filter (\<lambda>(k, w). k \<noteq> 0) ps = ps"
  proof -
    have "k \<noteq> 0" if "(k, w) \<in> set ps" for k w
      using d(2) that value_kinds(4) [of k] by (auto simp: list_all2_conv_all_nth in_set_conv_nth str_deref deref_def split: if_splits)
    then show ?thesis by (auto simp: filter_id_conv)
  qed
  moreover have "IS_POINTER v" using d by (simp add: deref_def split: if_splits)
  ultimately show ?case using d(1) value_kinds(3,4) [of v] by (simp add: n(1) case_prod_unfold)
qed

section \<open>Building structures on the heap\<close>

text \<open>
  What was made after \<open>h\<close>: the strings of \<open>h'\<close> and its other objects that \<open>h\<close> does not have. A parsed value is represented there, so
  that storing into an older object does not change it.
\<close>

definition made_since :: "heap \<Rightarrow> heap \<Rightarrow> heap" where
  "made_since h h' = h'\<lparr>objs := (\<lambda>a. case objs h' a of
     Some (OString s) \<Rightarrow> Some (OString s) | x \<Rightarrow> if objs h a = None then x else None)\<rparr>"

lemma made_since_deref:
  "deref (made_since h h') v =
     (case deref h' v of Some (OString s) \<Rightarrow> Some (OString s) | x \<Rightarrow> if objs h (get_pointer v) = None then x else None)"
  by (simp add: made_since_def deref_def)

lemma made_since_str: "str_of (made_since h h') v = str_of h' v"
  by (simp add: str_of_def made_since_deref split: option.split hobj.split)

lemma made_since_le: "extends (made_since h h') h'"
  by (auto simp: extends_def made_since_deref split: option.splits hobj.splits if_splits)

lemma made_since_mono: "dom (objs h0) \<subseteq> dom (objs h) \<Longrightarrow> extends (made_since h h') (made_since h0 h')"
  by (auto simp: extends_def made_since_deref split: option.splits hobj.splits if_splits)

lemma made_since_extends: "extends h h' \<Longrightarrow> extends (made_since h0 h) (made_since h0 h')"
  by (fastforce simp: extends_def made_since_deref split: option.splits hobj.splits if_splits)

lemma made_since_put:
  assumes "objs h0 (get_pointer a) \<noteq> None" "deref h a = Some ob" "\<And>s. ob \<noteq> OString s" "\<And>s. ob' \<noteq> OString s"
  shows "made_since h0 (put_obj a ob' h) = made_since h0 h"
proof -
  have "objs h (get_pointer a) = Some ob" using assms(2) by (simp add: deref_def split: if_splits)
  then show ?thesis using assms(1,3,4) by (auto simp: made_since_def put_obj_def fun_eq_iff split: option.split hobj.split)
qed

lemma extends_dom:
  assumes "extends h h'" "heap_ok h"
  shows "dom (objs h) \<subseteq> dom (objs h')"
proof
  fix a assume a: "a \<in> dom (objs h)"
  then have "a < brk h" "brk h < 2 ^ 48" using assms(2) unfolding heap_ok_def by blast+
  then have "a < 2 ^ 48" by (rule less_trans)
  note p = deref_make_pointer [OF this]
  obtain ob where "objs h a = Some ob" using a by blast
  then have "objs h' a = Some ob" using assms(1) p [of h] p [of h'] unfolding extends_def by simp
  then show "a \<in> dom (objs h')" by blast
qed

text \<open>A container \<open>a\<close> under construction: it is not part of the heap \<open>hb\<close> before it, but of \<open>h0\<close> right after its allocation.\<close>

definition under_way :: "heap \<Rightarrow> heap \<Rightarrow> Value \<Rightarrow> heap \<Rightarrow> bool" where
  "under_way hb h0 a h \<longleftrightarrow> extends hb h \<and> deref hb a = None \<and> IS_POINTER a \<and> objs h0 (get_pointer a) \<noteq> None \<and>
     dom (objs hb) \<subseteq> dom (objs h0) \<and> dom (objs h0) \<subseteq> dom (objs h)"

lemma under_way_start:
  assumes "roomy hb (Suc m)" "heap_alloc ob hb = (a, h0)"
  shows "under_way hb h0 a h0" "deref h0 a = Some ob" "roomy h0 m"
proof -
  note al = roomy_alloc [OF assms]
  show "deref h0 a = Some ob" "roomy h0 m" using al by auto
  have "heap_ok hb" using assms(1) by (simp add: roomy_def)
  then show "under_way hb h0 a h0" using al extends_dom [OF al(4)] by (auto simp: under_way_def deref_def split: if_splits)
qed

lemma under_way_step:
  assumes "under_way hb h0 a h" "extends h h'" "heap_ok h"
  shows "under_way hb h0 a h'"
  using assms(1,2) extends_dom [OF assms(2,3)] unfolding under_way_def by (meson extends_trans subset_trans)

lemma under_way_put:
  assumes "under_way hb h0 a h" "deref h a = Some ob"
  shows "under_way hb h0 a (put_obj a ob' h)"
proof -
  have "extends hb (put_obj a ob' h)"
    unfolding extends_def
  proof (intro allI impI)
    fix v x assume v: "deref hb v = Some x"
    then have "get_pointer v \<noteq> get_pointer a" using assms(1) by (auto simp: under_way_def deref_def split: if_splits)
    then show "deref (put_obj a ob' h) v = Some x"
      using v assms put_obj_views(3) [OF assms(2)] by (auto simp: under_way_def extends_def)
  qed
  moreover have "dom (objs h) \<subseteq> dom (objs (put_obj a ob' h))" by (auto simp: put_obj_def)
  ultimately show ?thesis using assms(1) unfolding under_way_def by (meson subset_trans)
qed

lemma roomy_put_obj:
  assumes "roomy h m" "deref h a = Some ob" "\<And>s. ob \<noteq> OString s" "\<And>s. ob' \<noteq> OString s"
  shows "roomy (put_obj a ob' h) m"
  using assms put_obj_heap_ok [OF _ assms(2-4)] by (auto simp: roomy_def room_def put_obj_def)

section \<open>Arrays and objects under construction\<close>

definition array_so_far :: "(int \<Rightarrow> Value) \<Rightarrow> heap \<Rightarrow> heap \<Rightarrow> Value \<Rightarrow> json list \<Rightarrow> heap \<Rightarrow> bool" where
  "array_so_far num hb h0 a js h \<longleftrightarrow> under_way hb h0 a h \<and>
     (\<exists>es c. deref h a = Some (OArray es c) \<and> length es \<le> c \<and> 0 < c \<and> list_all2 (rep num (made_since h0 h)) js es)"

lemma array_start:
  assumes "roomy hb (Suc m)" "create_array n hb = (a, h0)"
  shows "array_so_far num hb h0 a [] h0" "roomy h0 m"
  using under_way_start [OF assms [unfolded create_array_def]] by (auto simp: array_so_far_def)

lemma array_more:
  assumes "array_so_far num hb h0 a js h" "heap_ok h" "extends h h'" "roomy h' m" "rep num (made_since h h') j v"
  obtains h'' where "push_run a v h' = Got h''" "array_so_far num hb h0 a (js @ [j]) h''" "roomy h'' m"
proof -
  obtain es c where a: "under_way hb h0 a h" "deref h a = Some (OArray es c)" "length es \<le> c" "0 < c"
      "list_all2 (rep num (made_since h0 h)) js es"
    using assms(1) by (auto simp: array_so_far_def)
  let ?c = "if length es \<ge> c then c * 2 else c"
  let ?h = "put_obj a (OArray (es @ [v]) ?c) h'"
  have d: "deref h' a = Some (OArray es c)" using a(2) assms(3) by (simp add: extends_def)
  have u: "under_way hb h0 a h'" using under_way_step [OF a(1) assms(3,2)] .
  have eq: "made_since h0 ?h = made_since h0 h'" using made_since_put [OF _ d] u by (auto simp: under_way_def)
  have "list_all2 (rep num (made_since h0 h')) js es"
    using a(5) rep_extends [OF _ made_since_extends [OF assms(3)]] by (auto elim: list.rel_mono_strong)
  moreover have "rep num (made_since h0 h') j v"
    using rep_extends [OF assms(5) made_since_mono] a(1) by (auto simp: under_way_def)
  ultimately have "list_all2 (rep num (made_since h0 ?h)) (js @ [j]) (es @ [v])" unfolding eq by (simp add: list_all2_appendI)
  moreover have "push_run a v h' = Got ?h" using d a(3,4) by (auto simp: push_run_def array_push_def Let_def)
  moreover have "roomy ?h m" using roomy_put_obj [OF assms(4) d] by simp
  moreover have "deref ?h a = Some (OArray (es @ [v]) ?c)" using put_obj_views(1) [OF d] .
  moreover have "length (es @ [v]) \<le> ?c" "0 < ?c" using a(3,4) by auto
  ultimately show ?thesis using that [of ?h] under_way_put [OF u d] unfolding array_so_far_def by blast
qed

lemma array_done:
  assumes "array_so_far num hb h0 a js h"
  shows "rep num (made_since hb h) (JArr js) a" "extends hb h"
proof -
  obtain es c where a: "under_way hb h0 a h" "deref h a = Some (OArray es c)" "list_all2 (rep num (made_since h0 h)) js es"
    using assms by (auto simp: array_so_far_def)
  then have "list_all2 (rep num (made_since hb h)) js es"
    using rep_extends [OF _ made_since_mono] by (auto elim!: list.rel_mono_strong simp: under_way_def)
  moreover have "objs hb (get_pointer a) = None" using a(1) by (auto simp: under_way_def deref_def)
  then have "deref (made_since hb h) a = Some (OArray es c)" using a(2) by (simp add: made_since_deref)
  ultimately show "rep num (made_since hb h) (JArr js) a" by (auto intro: rep_arr)
  show "extends hb h" using a(1) by (simp add: under_way_def)
qed

definition object_so_far :: "(int \<Rightarrow> Value) \<Rightarrow> heap \<Rightarrow> heap \<Rightarrow> Value \<Rightarrow> (string \<times> json) list \<Rightarrow> heap \<Rightarrow> bool" where
  "object_so_far num hb h0 a kvs h \<longleftrightarrow> under_way hb h0 a h \<and>
     (\<exists>ps c. deref h a = Some (OObject ps c) \<and>
       list_all2 (\<lambda>p q. str_of h (fst q) = Some (fst p) \<and> rep num (made_since h0 h) (snd p) (snd q)) kvs ps)"

lemma object_start:
  assumes "roomy hb (Suc m)" "create_object hb = (a, h0)"
  shows "object_so_far num hb h0 a [] h0" "roomy h0 m"
  using under_way_start [OF assms [unfolded create_object_def]] by (auto simp: object_so_far_def)

lemma props_set_new:
  assumes "\<forall>q\<in>set ps. \<exists>t. str_of h (fst q) = Some t \<and> t \<noteq> s" "str_of h key = Some s"
  shows "fst (props_set h ps c key v) = ps @ [(key, v)]"
proof -
  have "props_update h ps key v = None"
    using assms(1)
  proof (induction ps)
    case (Cons q ps)
    then have "\<not> same_key h (fst q) key" using assms(2) by (auto simp: same_key_def)
    then show ?case using Cons by (cases q) simp
  qed simp
  then show ?thesis by (simp add: props_set_def)
qed

lemma object_more:
  assumes "object_so_far num hb h0 a kvs h" "heap_ok h" "extends h h'" "roomy h' m" "rep num (made_since h h') j v"
    and key: "str_of h' key = Some s" "s \<notin> fst ` set kvs"
  obtains h'' where "object_set a key v h' = Some h''" "object_so_far num hb h0 a (kvs @ [(s, j)]) h''" "roomy h'' m"
proof -
  obtain ps c where a: "under_way hb h0 a h" "deref h a = Some (OObject ps c)"
      "list_all2 (\<lambda>p q. str_of h (fst q) = Some (fst p) \<and> rep num (made_since h0 h) (snd p) (snd q)) kvs ps"
    using assms(1) by (auto simp: object_so_far_def)
  have d: "deref h' a = Some (OObject ps c)" using a(2) assms(3) by (simp add: extends_def)
  have u: "under_way hb h0 a h'" using under_way_step [OF a(1) assms(3,2)] .
  have old: "list_all2 (\<lambda>p q. str_of h' (fst q) = Some (fst p) \<and> rep num (made_since h0 h') (snd p) (snd q)) kvs ps"
    using a(3) rep_extends [OF _ made_since_extends [OF assms(3)]] extends_str [OF assms(3)] by (auto elim: list.rel_mono_strong)
  have "\<forall>q\<in>set ps. \<exists>t. str_of h' (fst q) = Some t \<and> t \<noteq> s"
    using old key(2) by (fastforce simp: list_all2_conv_all_nth in_set_conv_nth image_iff)
  from props_set_new [OF this key(1)] obtain c' where ps: "props_set h' ps c key v = (ps @ [(key, v)], c')"
    by (metis prod.collapse)
  let ?h = "put_obj a (OObject (ps @ [(key, v)]) c') h'"
  have eq: "made_since h0 ?h = made_since h0 h'" "str_of ?h = str_of h'"
    using made_since_put [OF _ d] u put_obj_str [OF d] by (auto simp: under_way_def fun_eq_iff)
  have "rep num (made_since h0 h') j v" using rep_extends [OF assms(5) made_since_mono] a(1) by (auto simp: under_way_def)
  then have "list_all2 (\<lambda>p q. str_of ?h (fst q) = Some (fst p) \<and> rep num (made_since h0 ?h) (snd p) (snd q))
      (kvs @ [(s, j)]) (ps @ [(key, v)])"
    unfolding eq using old key(1) by (simp add: list_all2_appendI)
  moreover have "object_set a key v h' = Some ?h"
    using object_set_object [OF d, of key v] key(1) ps by (simp add: str_deref deref_def split: if_splits)
  moreover have "roomy ?h m" using roomy_put_obj [OF assms(4) d] by simp
  ultimately show ?thesis
    using that [of ?h] under_way_put [OF u d] put_obj_views(1) [OF d] unfolding object_so_far_def by blast
qed

lemma object_done:
  assumes "object_so_far num hb h0 a kvs h"
  shows "rep num (made_since hb h) (JObj kvs) a" "extends hb h"
proof -
  obtain ps c where a: "under_way hb h0 a h" "deref h a = Some (OObject ps c)"
      "list_all2 (\<lambda>p q. str_of h (fst q) = Some (fst p) \<and> rep num (made_since h0 h) (snd p) (snd q)) kvs ps"
    using assms by (auto simp: object_so_far_def)
  then have "list_all2 (\<lambda>p q. str_of (made_since hb h) (fst q) = Some (fst p) \<and> rep num (made_since hb h) (snd p) (snd q)) kvs ps"
    using rep_extends [OF _ made_since_mono] by (auto elim!: list.rel_mono_strong simp: under_way_def made_since_str)
  moreover have "objs hb (get_pointer a) = None" using a(1) by (auto simp: under_way_def deref_def)
  then have "deref (made_since hb h) a = Some (OObject ps c)" using a(2) by (simp add: made_since_deref)
  ultimately show "rep num (made_since hb h) (JObj kvs) a" by (auto intro: rep_obj)
  show "extends hb h" using a(1) by (simp add: under_way_def)
qed

section \<open>Reading what was printed\<close>

definition ends :: "string \<Rightarrow> bool" where
  "ends r \<longleftrightarrow> r \<noteq> [] \<and> hd r \<in> {NUL, CHR '','', CHR '']'', CHR ''}''}"

text \<open>A parser reads a document when, with enough fuel and room, it takes the printed text and makes a value for it.\<close>

definition reads :: "(nat \<Rightarrow> string \<Rightarrow> heap \<Rightarrow> (Value \<times> string \<times> heap) run) \<Rightarrow> (int \<Rightarrow> Value) \<Rightarrow> json \<Rightarrow> bool" where
  "reads P num j \<longleftrightarrow> (\<forall>n h m r. json_fuel j \<le> n \<longrightarrow> roomy h (json_cells j + m) \<longrightarrow> ends r \<longrightarrow>
     (\<exists>v h'. P n (json_text j @ r) h = Got (v, r, h') \<and> roomy h' m \<and> extends h h' \<and> rep num (made_since h h') j v))"

lemma array_item:
  assumes "reads P num j" "array_so_far num hb h0 a js h" "roomy h (json_cells j + m)" "json_fuel j \<le> n" "ends r"
  obtains v h1 h2 where "P n (json_text j @ r) h = Got (v, r, h1)" "push_run a v h1 = Got h2"
    "array_so_far num hb h0 a (js @ [j]) h2" "roomy h2 m"
proof -
  obtain v h1 where v: "P n (json_text j @ r) h = Got (v, r, h1)" "roomy h1 m" "extends h h1" "rep num (made_since h h1) j v"
    using assms(1,3-5) unfolding reads_def by blast
  have "heap_ok h" using assms(3) by (simp add: roomy_def)
  then obtain h2 where "push_run a v h1 = Got h2" "array_so_far num hb h0 a (js @ [j]) h2" "roomy h2 m"
    using array_more [OF assms(2) _ v(3,2,4)] by blast
  then show ?thesis using that v(1) by blast
qed

lemma object_member:
  assumes "reads P num j" "object_so_far num hb h0 a kvs h" "roomy h (Suc (json_cells j + m))" "json_fuel j \<le> n" "ends r"
    and "k \<notin> fst ` set kvs" "create_string k h = (key, hk)"
  obtains v h1 h2 where "P n (json_text j @ r) hk = Got (v, r, h1)" "object_set a key v h1 = Some h2"
    "object_so_far num hb h0 a (kvs @ [(k, j)]) h2" "roomy h2 m"
proof -
  note c = roomy_string [OF assms(3,7)]
  obtain v h1 where v: "P n (json_text j @ r) hk = Got (v, r, h1)" "roomy h1 m" "extends hk h1" "rep num (made_since hk h1) j v"
    using assms(1,4,5) c(1) unfolding reads_def by blast
  have ok: "heap_ok h" using assms(3) by (simp add: roomy_def)
  have r: "rep num (made_since h h1) j v" using rep_extends [OF v(4) made_since_mono [OF extends_dom [OF c(3) ok]]] .
  have key: "str_of h1 key = Some k" using extends_str [OF v(3) c(2)] .
  obtain h2 where "object_set a key v h1 = Some h2" "object_so_far num hb h0 a (kvs @ [(k, j)]) h2" "roomy h2 m"
    using object_more [OF assms(2) ok extends_trans [OF c(3) v(3)] v(2) r key assms(6)] by blast
  then show ?thesis using that v(1) by blast
qed

definition rest_text :: "('a \<Rightarrow> string) \<Rightarrow> 'a list \<Rightarrow> string" where
  "rest_text f xs = concat (map (\<lambda>x. CHR '','' # f x) xs)"

lemma rest_text_simps [simp]: "rest_text f [] = []" "rest_text f (x # xs) = CHR '','' # f x @ rest_text f xs"
  by (simp_all add: rest_text_def)

lemma join_rest: "join_with '','' (map f (x # xs)) = f x @ rest_text f xs"
  by (induction xs arbitrary: x) auto

lemma ends_rest: "c \<in> {CHR '']'', CHR ''}''} \<Longrightarrow> ends (rest_text f xs @ c # r)"
  by (cases xs) (auto simp: ends_def)

lemma show_int_start: "\<exists>c t. show_int i = c # t \<and> (is_digit c \<or> c = CHR ''-'')"
  using show_nat_Nil [of "nat i"] show_nat_digits [of "nat i"] by (cases "show_nat (nat i)") (auto simp: show_int_def)

lemma char_kinds:
  "is_digit c \<or> c = CHR ''-'' \<Longrightarrow> c \<notin> {NUL, DQUOTE, CHR '','', CHR '']'', CHR ''}'', CHR ''['', CHR ''{'', CHR '' '', CHR '':'', CHR ''t'', CHR ''f'', CHR ''n''} \<and> \<not> json_blank c"
  by (auto simp: char_class_defs json_blank_def char_defs)

lemma text_start:
  obtains c t where "json_text j = c # t" "\<not> json_blank c" "c \<notin> {NUL, CHR '','', CHR '']'', CHR ''}'', CHR '' '', CHR '':''}"
proof -
  have "\<exists>c t. json_text j = c # t \<and> \<not> json_blank c \<and> c \<notin> {NUL, CHR '','', CHR '']'', CHR ''}'', CHR '' '', CHR '':''}"
  proof (cases j)
    case (JNum i)
    then show ?thesis using show_int_start [of i] char_kinds by fastforce
  qed (auto simp: json_blank_def char_defs)
  then show ?thesis using that by blast
qed

lemma skip_text: "dropWhile json_blank (json_text j @ r) = json_text j @ r"
  "dropWhile (\<lambda>c. c \<in> {CHR '' '', CHR '':''}) (json_text j @ r) = json_text j @ r"
proof -
  obtain c t where "json_text j = c # t" "\<not> json_blank c" "c \<notin> {NUL, CHR '','', CHR '']'', CHR ''}'', CHR '' '', CHR '':''}"
    by (rule text_start)
  then show "dropWhile json_blank (json_text j @ r) = json_text j @ r"
    "dropWhile (\<lambda>c. c \<in> {CHR '' '', CHR '':''}) (json_text j @ r) = json_text j @ r" by simp_all
qed

lemma c_text_ends: "ends r \<Longrightarrow> closes (c_text r)"
  by (cases r) (auto simp: ends_def closes_def c_text_def)

lemma show_int_chars: "c \<in> set (show_int i) \<Longrightarrow> is_digit c \<or> c = CHR ''-''"
  using show_nat_digits by (auto simp: show_int_def split: if_splits)

lemma read_int: "ends r \<Longrightarrow> read_double (show_int i @ r) = (f64_of_int i, r)"
proof -
  assume r: "ends r"
  have "NUL \<notin> set (show_int i)" using show_int_chars char_kinds by blast
  then have "c_text (show_int i @ r) = show_int i @ c_text r"
    unfolding c_text_def by (subst takeWhile_append2) auto
  then show ?thesis using strtod_int [OF c_text_ends [OF r]] by (simp add: read_double_def)
qed

subsection \<open>\<open>JSON.parse\<close>\<close>

lemma parse_leaf:
  "reads parse_json_value double_value JNull" "reads parse_json_value double_value (JBool b)" "reads parse_json_value double_value (JNum i)"
proof -
  have nb: "\<not> json_blank CHR ''n''" "\<not> json_blank CHR ''t''" "\<not> json_blank CHR ''f''" "CHR ''n'' \<noteq> DQUOTE" "CHR ''t'' \<noteq> DQUOTE" "CHR ''f'' \<noteq> DQUOTE"
    by (simp_all add: json_blank_def char_defs)
  show "reads parse_json_value double_value JNull"
    unfolding reads_def
  proof (intro allI impI)
    fix n h m r assume "json_fuel JNull \<le> n" "roomy h (json_cells JNull + m)"
    then show "\<exists>v h'. parse_json_value n (json_text JNull @ r) h = Got (v, r, h') \<and> roomy h' m \<and> extends h h' \<and> rep double_value (made_since h h') JNull v"
      using nb by (cases n) (auto intro: rep.intros)
  qed
  show "reads parse_json_value double_value (JBool b)"
    unfolding reads_def
  proof (intro allI impI)
    fix n h m r assume "json_fuel (JBool b) \<le> n" "roomy h (json_cells (JBool b) + m)"
    then show "\<exists>v h'. parse_json_value n (json_text (JBool b) @ r) h = Got (v, r, h') \<and> roomy h' m \<and> extends h h' \<and> rep double_value (made_since h h') (JBool b) v"
      using nb rep_bool [of double_value "made_since h h" b] by (cases n; cases b) (auto simp: bool_value_def)
  qed
  show "reads parse_json_value double_value (JNum i)"
    unfolding reads_def
  proof (intro allI impI)
    fix n h m r assume n: "json_fuel (JNum i) \<le> n" "roomy h (json_cells (JNum i) + m)" "ends r"
    obtain c t where c: "show_int i = c # t" "is_digit c \<or> c = CHR ''-''" using show_int_start by blast
    have "read_double (c # t @ r) = (f64_of_int i, r)" using read_int [OF n(3), of i] c(1) by simp
    then have "parse_json_value n (json_text (JNum i) @ r) h = Got (double_value i, r, h)"
      using n(1) c char_kinds [OF c(2)] by (cases n) (auto simp: double_value_def)
    then show "\<exists>v h'. parse_json_value n (json_text (JNum i) @ r) h = Got (v, r, h') \<and> roomy h' m \<and> extends h h' \<and> rep double_value (made_since h h') (JNum i) v"
      using n(2) by (auto intro: rep.intros)
  qed
qed

lemma quoted: "plain w \<Longrightarrow> takeWhile (\<lambda>c. c \<noteq> NUL \<and> c \<noteq> DQUOTE) (w @ DQUOTE # r) = w"
  by (subst takeWhile_append2) (auto simp: plain_def)

lemma parse_string: "plain s \<Longrightarrow> reads parse_json_value num (JStr s)"
  unfolding reads_def
proof (intro allI impI)
  fix n h m r assume s: "plain s" and n: "json_fuel (JStr s) \<le> n" "roomy h (json_cells (JStr s) + m)"
  obtain v h' where v: "create_string s h = (v, h')" by force
  have "roomy h (Suc m)" using n(2) by simp
  note c = roomy_string [OF this v]
  have "parse_json_value n (json_text (JStr s) @ r) h = Got (v, r, h')"
    using n(1) v quoted [OF s, of r] by (cases n) (auto simp: json_blank_def char_defs Let_def)
  then show "\<exists>v h'. parse_json_value n (json_text (JStr s) @ r) h = Got (v, r, h') \<and> roomy h' m \<and> extends h h' \<and> rep num (made_since h h') (JStr s) v"
    using c by (auto intro!: rep_str simp: made_since_str)
qed

lemma json_elements_item:
  "json_elements (Suc n) a (json_text j @ r) h =
     and_then (parse_json_value n (json_text j @ r) h) (\<lambda>(v, s, h). and_then (push_run a v h) (\<lambda>h. json_elements n a s h))"
proof -
  obtain c t where "json_text j = c # t" "\<not> json_blank c" "c \<notin> {NUL, CHR '','', CHR '']'', CHR ''}'', CHR '' '', CHR '':''}"
    by (rule text_start)
  then show ?thesis by simp
qed

lemma elements_rest:
  "\<forall>j\<in>set js. reads parse_json_value num j \<Longrightarrow> array_so_far num hb h0 a xs h \<Longrightarrow> roomy h (sum_list (map json_cells js) + m) \<Longrightarrow>
   1 + sum_list (map (\<lambda>j. 2 + json_fuel j) js) \<le> n \<Longrightarrow>
   \<exists>h'. json_elements n a (rest_text json_text js @ CHR '']'' # r) h = Got (r, h') \<and> array_so_far num hb h0 a (xs @ js) h' \<and> roomy h' m"
proof (induction js arbitrary: xs h n)
  case Nil
  then show ?case by (cases n) (auto simp: json_blank_def char_defs)
next
  case (Cons j js)
  obtain k where k: "n = Suc (Suc k)" "json_fuel j \<le> k" "1 + sum_list (map (\<lambda>j. 2 + json_fuel j) js) \<le> k"
    using Cons.prems(4) by (cases n; cases "n - 1") auto
  let ?r = "rest_text json_text js @ CHR '']'' # r"
  have j: "reads parse_json_value num j" "roomy h (json_cells j + (sum_list (map json_cells js) + m))" "ends ?r"
    using Cons.prems ends_rest by (auto simp: add.assoc)
  obtain v h1 h2 where v: "parse_json_value k (json_text j @ ?r) h = Got (v, ?r, h1)" "push_run a v h1 = Got h2"
      "array_so_far num hb h0 a (xs @ [j]) h2" "roomy h2 (sum_list (map json_cells js) + m)"
    using array_item [OF j(1) Cons.prems(2) j(2) k(2) j(3)] by blast
  have "json_elements n a (rest_text json_text (j # js) @ CHR '']'' # r) h = json_elements (Suc k) a (json_text j @ ?r) h"
    by (simp add: k(1) json_blank_def char_defs)
  also have "\<dots> = json_elements k a ?r h2" using v(1,2) by (simp add: json_elements_item del: json_elements.simps)
  finally show ?case using Cons.IH [OF _ v(3,4) k(3)] Cons.prems(1) by simp
qed

lemma parse_array:
  assumes "\<forall>j\<in>set js. reads parse_json_value num j"
  shows "reads parse_json_value num (JArr js)"
  unfolding reads_def
proof (intro allI impI)
  fix n h m r assume n: "json_fuel (JArr js) \<le> n" "roomy h (json_cells (JArr js) + m)"
  obtain a h0 where a: "create_array 8 h = (a, h0)" by force
  obtain k where k: "n = Suc k" "1 + sum_list (map (\<lambda>j. 2 + json_fuel j) js) \<le> k" using n(1) by (cases n) auto
  have "roomy h (Suc (sum_list (map json_cells js) + m))" using n(2) by simp
  note st = array_start [OF this a]
  have "\<exists>h'. json_elements k a (join_with '','' (map json_text js) @ CHR '']'' # r) h0 = Got (r, h') \<and>
      array_so_far num h h0 a js h' \<and> roomy h' m"
  proof (cases js)
    case Nil
    then show ?thesis using elements_rest [OF assms st k(2), of r] by simp
  next
    case (Cons j js')
    obtain i where i: "k = Suc i" "json_fuel j \<le> i" "1 + sum_list (map (\<lambda>j. 2 + json_fuel j) js') \<le> i" using k(2) Cons by (cases k) auto
    let ?r = "rest_text json_text js' @ CHR '']'' # r"
    have j: "reads parse_json_value num j" "roomy h0 (json_cells j + (sum_list (map json_cells js') + m))" "ends ?r"
      using assms st(2) Cons ends_rest by (auto simp: add.assoc)
    obtain v h1 h2 where v: "parse_json_value i (json_text j @ ?r) h0 = Got (v, ?r, h1)" "push_run a v h1 = Got h2"
        "array_so_far num h h0 a ([] @ [j]) h2" "roomy h2 (sum_list (map json_cells js') + m)"
      using array_item [OF j(1) st(1) j(2) i(2) j(3)] by blast
    have "json_elements k a (join_with '','' (map json_text js) @ CHR '']'' # r) h0 = json_elements i a ?r h2"
      unfolding Cons join_rest using v(1,2) by (simp add: i(1) json_elements_item del: json_elements.simps)
    then show ?thesis using elements_rest [OF _ v(3,4) i(3), of r] assms Cons by simp
  qed
  then obtain h' where h': "json_elements k a (join_with '','' (map json_text js) @ CHR '']'' # r) h0 = Got (r, h')"
      "array_so_far num h h0 a js h'" "roomy h' m" by blast
  have "parse_json_value n (json_text (JArr js) @ r) h = Got (a, r, h')"
    using h'(1) a by (simp add: k(1) json_blank_def char_defs)
  then show "\<exists>v h'. parse_json_value n (json_text (JArr js) @ r) h = Got (v, r, h') \<and> roomy h' m \<and> extends h h' \<and> rep num (made_since h h') (JArr js) v"
    using h'(3) array_done [OF h'(2)] by blast
qed

definition member_text :: "string \<times> json \<Rightarrow> string" where
  "member_text p = DQUOTE # fst p @ DQUOTE # CHR '':'' # json_text (snd p)"

lemma json_text_object: "json_text (JObj kvs) = ''{'' @ join_with '','' (map member_text kvs) @ ''}''"
  by (simp add: member_text_def [abs_def] case_prod_unfold)

lemma json_members_item:
  assumes "plain (fst p)" "create_string (fst p) h = (key, hk)"
  shows "json_members (Suc n) a (member_text p @ r) h =
     and_then (parse_json_value n (json_text (snd p) @ r) hk) (\<lambda>(v, s, h). and_then (given (object_set a key v h)) (\<lambda>h. json_members n a s h))"
proof -
  have "dropWhile (\<lambda>c. c \<in> {CHR '' '', CHR '':''}) (CHR '':'' # json_text (snd p) @ r) = json_text (snd p) @ r"
    using skip_text(2) by simp
  moreover have "DQUOTE \<noteq> NUL" "\<not> json_blank DQUOTE" "DQUOTE \<noteq> CHR ''}''" "DQUOTE \<noteq> CHR '',''" by (simp_all add: json_blank_def char_defs)
  ultimately show ?thesis using quoted [OF assms(1)] assms(2) by (simp add: member_text_def Let_def)
qed

lemma members_rest:
  "\<forall>p\<in>set kvs. plain (fst p) \<and> reads parse_json_value num (snd p) \<Longrightarrow> distinct (map fst (xs @ kvs)) \<Longrightarrow>
   object_so_far num hb h0 a xs h \<Longrightarrow> roomy h (sum_list (map (\<lambda>p. 1 + json_cells (snd p)) kvs) + m) \<Longrightarrow>
   1 + sum_list (map (\<lambda>p. 2 + json_fuel (snd p)) kvs) \<le> n \<Longrightarrow>
   \<exists>h'. json_members n a (rest_text member_text kvs @ CHR ''}'' # r) h = Got (r, h') \<and> object_so_far num hb h0 a (xs @ kvs) h' \<and> roomy h' m"
proof (induction kvs arbitrary: xs h n)
  case Nil
  then show ?case by (cases n) (auto simp: json_blank_def char_defs)
next
  case (Cons p kvs)
  obtain k where k: "n = Suc (Suc k)" "json_fuel (snd p) \<le> k" "1 + sum_list (map (\<lambda>p. 2 + json_fuel (snd p)) kvs) \<le> k"
    using Cons.prems(5) by (cases n; cases "n - 1") auto
  let ?r = "rest_text member_text kvs @ CHR ''}'' # r" and ?m = "sum_list (map (\<lambda>p. 1 + json_cells (snd p)) kvs) + m"
  obtain key hk where key: "create_string (fst p) h = (key, hk)" by force
  have j: "reads parse_json_value num (snd p)" "roomy h (Suc (json_cells (snd p) + ?m))" "ends ?r" "fst p \<notin> fst ` set xs" "plain (fst p)"
    using Cons.prems ends_rest by (auto simp: add.assoc)
  obtain v h1 h2 where v: "parse_json_value k (json_text (snd p) @ ?r) hk = Got (v, ?r, h1)" "object_set a key v h1 = Some h2"
      "object_so_far num hb h0 a (xs @ [(fst p, snd p)]) h2" "roomy h2 ?m"
    using object_member [OF j(1) Cons.prems(3) j(2) k(2) j(3,4) key] by blast
  have "json_members n a (rest_text member_text (p # kvs) @ CHR ''}'' # r) h = json_members (Suc k) a (member_text p @ ?r) h"
    by (simp add: k(1) json_blank_def char_defs)
  also have "\<dots> = json_members k a ?r h2" using v(1,2) by (simp add: json_members_item [OF j(5) key] del: json_members.simps)
  finally show ?case using Cons.IH [OF _ _ v(3,4) k(3)] Cons.prems(1,2) by simp
qed

lemma parse_object:
  assumes "\<forall>p\<in>set kvs. plain (fst p) \<and> reads parse_json_value num (snd p)" "distinct (map fst kvs)"
  shows "reads parse_json_value num (JObj kvs)"
  unfolding reads_def
proof (intro allI impI)
  fix n h m r assume n: "json_fuel (JObj kvs) \<le> n" "roomy h (json_cells (JObj kvs) + m)"
  obtain a h0 where a: "create_object h = (a, h0)" by force
  obtain k where k: "n = Suc k" "1 + sum_list (map (\<lambda>p. 2 + json_fuel (snd p)) kvs) \<le> k"
    using n(1) by (cases n) (auto simp: case_prod_unfold)
  have "roomy h (Suc (sum_list (map (\<lambda>p. 1 + json_cells (snd p)) kvs) + m))" using n(2) by (simp add: case_prod_unfold)
  note st = object_start [OF this a]
  have "\<exists>h'. json_members k a (join_with '','' (map member_text kvs) @ CHR ''}'' # r) h0 = Got (r, h') \<and>
      object_so_far num h h0 a kvs h' \<and> roomy h' m"
  proof (cases kvs)
    case Nil
    then show ?thesis using members_rest [OF assms(1) _ st k(2), of r] by simp
  next
    case (Cons p kvs')
    obtain i where i: "k = Suc i" "json_fuel (snd p) \<le> i" "1 + sum_list (map (\<lambda>p. 2 + json_fuel (snd p)) kvs') \<le> i"
      using k(2) Cons by (cases k) auto
    let ?r = "rest_text member_text kvs' @ CHR ''}'' # r" and ?m = "sum_list (map (\<lambda>p. 1 + json_cells (snd p)) kvs') + m"
    obtain key hk where key: "create_string (fst p) h0 = (key, hk)" by force
    have j: "reads parse_json_value num (snd p)" "roomy h0 (Suc (json_cells (snd p) + ?m))" "ends ?r" "fst p \<notin> fst ` set []" "plain (fst p)"
      using assms st(2) Cons ends_rest by (auto simp: add.assoc)
    obtain v h1 h2 where v: "parse_json_value i (json_text (snd p) @ ?r) hk = Got (v, ?r, h1)" "object_set a key v h1 = Some h2"
        "object_so_far num h h0 a ([] @ [(fst p, snd p)]) h2" "roomy h2 ?m"
      using object_member [OF j(1) st(1) j(2) i(2) j(3,4) key] by blast
    have "json_members k a (join_with '','' (map member_text kvs) @ CHR ''}'' # r) h0 = json_members i a ?r h2"
      unfolding Cons join_rest using v(1,2) by (simp add: i(1) json_members_item [OF j(5) key] del: json_members.simps)
    then show ?thesis using members_rest [OF _ _ v(3,4) i(3), of r] assms Cons by simp
  qed
  then obtain h' where h': "json_members k a (join_with '','' (map member_text kvs) @ CHR ''}'' # r) h0 = Got (r, h')"
      "object_so_far num h h0 a kvs h'" "roomy h' m" by blast
  have "parse_json_value n (json_text (JObj kvs) @ r) h = Got (a, r, h')"
    unfolding json_text_object using h'(1) a by (simp add: k(1) json_blank_def char_defs)
  then show "\<exists>v h'. parse_json_value n (json_text (JObj kvs) @ r) h = Got (v, r, h') \<and> roomy h' m \<and> extends h h' \<and> rep num (made_since h h') (JObj kvs) v"
    using h'(3) object_done [OF h'(2)] by blast
qed

lemma parse_reads: "plain_json j \<Longrightarrow> reads parse_json_value double_value j"
proof (induction j)
  case (JArr js)
  then show ?case by (intro parse_array) (auto simp: list_all_iff)
next
  case (JObj kvs)
  have "\<forall>p\<in>set kvs. plain (fst p) \<and> reads parse_json_value double_value (snd p)"
    using JObj by (auto simp: list_all_iff snds.simps)
  then show ?case using JObj(2) by (intro parse_object) auto
qed (auto intro: parse_leaf parse_string)

subsection \<open>Imported files\<close>

lemma scan_plain: "plain s \<Longrightarrow> json_scan (s @ DQUOTE # r) = Some (s, DQUOTE # r)"
  by (induction s) (auto simp: plain_def)

lemma unescape_plain: "plain s \<Longrightarrow> json_unescape s = s"
  by (induction s rule: json_unescape.induct) (auto simp: plain_def)

lemma import_text: "plain s \<Longrightarrow> create_string s h = (v, h') \<Longrightarrow> json_parse_string (s @ DQUOTE # r) h = Got (v, r, h')"
  by (simp add: json_parse_string_def scan_plain unescape_plain)

lemma with_next_text: "with_next (json_text j @ r) f = f (hd (json_text j)) (tl (json_text j) @ r)"
proof -
  obtain c t where "json_text j = c # t" "\<not> json_blank c" by (rule text_start)
  then show ?thesis by (simp add: with_next_def)
qed

lemma with_next_char: "\<not> json_blank c \<Longrightarrow> with_next (c # r) f = f c r"
  by (simp add: with_next_def)

lemma import_int:
  assumes "- (2 ^ 31) \<le> i" "i < 2 ^ 31" "ends r"
  shows "json_parse_number (show_int i @ r) h = Got (int_value i, r, h)"
proof -
  obtain c t where c: "show_int i = c # t" "is_digit c \<or> c = CHR ''-''" using show_int_start by blast
  let ?k = "if c = CHR ''-'' then 1 else 0 :: nat"
  let ?w = "drop ?k (show_int i)"
  have w: "\<forall>x\<in>set ?w. is_digit x"
  proof (cases "i < 0")
    case True
    then show ?thesis using c show_nat_digits by (auto simp: show_int_def)
  next
    case False
    then have "\<forall>x\<in>set (show_int i). is_digit x" using show_nat_digits by (auto simp: show_int_def)
    then show ?thesis by (meson in_set_dropD)
  qed
  have "takeWhile json_number_char (?w @ r) = ?w"
    using w assms(3) by (intro takeWhile_digits) (auto simp: json_number_char_def ends_def char_class_defs char_defs)
  then have tw: "takeWhile json_number_char (drop ?k (show_int i @ r)) = ?w" using c(1) by (cases "c = CHR ''-''") simp_all
  have token: "take ?k (show_int i @ r) @ ?w = show_int i" using c(1) by simp
  have "strtod (show_int i) = (f64_of_int i, length (show_int i))" using strtod_int [of "[]" i] by (simp add: closes_def)
  moreover have "\<not> (\<exists>x\<in>set ?w. x \<in> {CHR ''.'', CHR ''e'', CHR ''E''})"
  proof -
    have "is_digit x \<Longrightarrow> x \<notin> {CHR ''.'', CHR ''e'', CHR ''E''}" for x by (auto simp: char_class_defs)
    then show ?thesis using w by blast
  qed
  moreover have "drop (?k + length ?w) (show_int i @ r) = r" using c(1) by simp
  moreover have "(if show_int i @ r \<noteq> [] \<and> hd (show_int i @ r) = CHR ''-'' then 1 else 0) = ?k" using c(1) by simp
  ultimately show ?thesis using f64_to_int32_of_int [OF assms(1,2)] tw token
    by (simp add: json_parse_number_def int_value_def Let_def del: drop_append)
qed

lemma import_leaf:
  "reads json_parse_value int_value JNull" "reads json_parse_value int_value (JBool b)"
  "- (2 ^ 31) \<le> i \<Longrightarrow> i < 2 ^ 31 \<Longrightarrow> reads json_parse_value int_value (JNum i)" "plain s \<Longrightarrow> reads json_parse_value int_value (JStr s)"
proof -
  have nb: "\<not> json_blank CHR ''n''" "\<not> json_blank CHR ''t''" "\<not> json_blank CHR ''f''" "CHR ''n'' \<noteq> DQUOTE" "CHR ''t'' \<noteq> DQUOTE" "CHR ''f'' \<noteq> DQUOTE"
    "\<not> is_digit CHR ''n''" "\<not> is_digit CHR ''t''" "\<not> is_digit CHR ''f''" "\<not> json_blank DQUOTE" "DQUOTE \<noteq> CHR ''{''" "DQUOTE \<noteq> CHR ''[''"
    by (simp_all add: json_blank_def char_defs char_class_defs)
  show "reads json_parse_value int_value JNull"
    unfolding reads_def
  proof (intro allI impI)
    fix n h m r assume "json_fuel JNull \<le> n" "roomy h (json_cells JNull + m)"
    then show "\<exists>v h'. json_parse_value n (json_text JNull @ r) h = Got (v, r, h') \<and> roomy h' m \<and> extends h h' \<and> rep int_value (made_since h h') JNull v"
      using nb by (cases n) (auto intro: rep.intros simp: with_next_char)
  qed
  show "reads json_parse_value int_value (JBool b)"
    unfolding reads_def
  proof (intro allI impI)
    fix n h m r assume "json_fuel (JBool b) \<le> n" "roomy h (json_cells (JBool b) + m)"
    then show "\<exists>v h'. json_parse_value n (json_text (JBool b) @ r) h = Got (v, r, h') \<and> roomy h' m \<and> extends h h' \<and> rep int_value (made_since h h') (JBool b) v"
      using nb rep_bool [of int_value "made_since h h" b] by (cases n; cases b) (auto simp: bool_value_def with_next_char)
  qed
  show "reads json_parse_value int_value (JNum i)" if i: "- (2 ^ 31) \<le> i" "i < 2 ^ 31"
    unfolding reads_def
  proof (intro allI impI)
    fix n h m r assume n: "json_fuel (JNum i) \<le> n" "roomy h (json_cells (JNum i) + m)" "ends r"
    obtain c t where c: "show_int i = c # t" "is_digit c \<or> c = CHR ''-''" using show_int_start by blast
    have "json_parse_value n (json_text (JNum i) @ r) h = json_parse_number (show_int i @ r) h"
      using n(1) c char_kinds [OF c(2)] by (cases n) (auto simp: with_next_char)
    then show "\<exists>v h'. json_parse_value n (json_text (JNum i) @ r) h = Got (v, r, h') \<and> roomy h' m \<and> extends h h' \<and> rep int_value (made_since h h') (JNum i) v"
      using n(2) import_int [OF i n(3)] by (auto intro: rep.intros)
  qed
  show "reads json_parse_value int_value (JStr s)" if s: "plain s"
    unfolding reads_def
  proof (intro allI impI)
    fix n h m r assume n: "json_fuel (JStr s) \<le> n" "roomy h (json_cells (JStr s) + m)"
    obtain v h' where v: "create_string s h = (v, h')" by force
    have "roomy h (Suc m)" using n(2) by simp
    note c = roomy_string [OF this v]
    have "json_parse_value n (json_text (JStr s) @ r) h = Got (v, r, h')"
      using n(1) nb import_text [OF s v, of r] by (cases n) (auto simp: with_next_char)
    then show "\<exists>v h'. json_parse_value n (json_text (JStr s) @ r) h = Got (v, r, h') \<and> roomy h' m \<and> extends h h' \<and> rep int_value (made_since h h') (JStr s) v"
      using c by (auto intro!: rep_str simp: made_since_str)
  qed
qed

lemma close_kinds: "\<not> json_blank CHR '']''" "\<not> json_blank CHR ''}''" "\<not> json_blank CHR '',''" "\<not> json_blank CHR '':''"
  "\<not> json_blank CHR ''[''" "\<not> json_blank CHR ''{''" "\<not> json_blank DQUOTE" "DQUOTE \<noteq> CHR ''}''" "CHR ''['' \<noteq> DQUOTE" "CHR ''{'' \<noteq> DQUOTE"
  by (simp_all add: json_blank_def char_defs)

lemma json_parse_array_item:
  "json_parse_array (Suc n) a (json_text j @ r) h =
     and_then (json_parse_value n (json_text j @ r) h) (\<lambda>(v, s, h). and_then (push_run a v h) (\<lambda>h.
       with_next s (\<lambda>c t. if c = CHR '','' then json_parse_array n a t h else if c = CHR '']'' then Got (a, t, h) else Got (VAL_NULL, c # t, h))))"
proof -
  obtain c t where "json_text j = c # t" "\<not> json_blank c" "c \<notin> {NUL, CHR '','', CHR '']'', CHR ''}'', CHR '' '', CHR '':''}"
    by (rule text_start)
  then show ?thesis by (simp add: with_next_char)
qed

lemma import_items:
  "\<forall>j\<in>set (j # js). reads json_parse_value num j \<Longrightarrow> array_so_far num hb h0 a xs h \<Longrightarrow>
   roomy h (sum_list (map json_cells (j # js)) + m) \<Longrightarrow> 1 + sum_list (map (\<lambda>j. 2 + json_fuel j) (j # js)) \<le> n \<Longrightarrow>
   \<exists>h'. json_parse_array n a (json_text j @ rest_text json_text js @ CHR '']'' # r) h = Got (a, r, h') \<and>
     array_so_far num hb h0 a (xs @ j # js) h' \<and> roomy h' m"
proof (induction js arbitrary: j xs h n)
  case Nil
  obtain k where k: "n = Suc k" "json_fuel j \<le> k" using Nil.prems(4) by (cases n) auto
  have j: "reads json_parse_value num j" "roomy h (json_cells j + m)" "ends (CHR '']'' # r)" using Nil.prems by (auto simp: ends_def)
  obtain v h1 h2 where v: "json_parse_value k (json_text j @ CHR '']'' # r) h = Got (v, CHR '']'' # r, h1)" "push_run a v h1 = Got h2"
      "array_so_far num hb h0 a (xs @ [j]) h2" "roomy h2 m"
    using array_item [OF j(1) Nil.prems(2) j(2) k(2) j(3)] by blast
  have "json_parse_array n a (json_text j @ CHR '']'' # r) h = Got (a, r, h2)"
    using v(1,2) by (simp add: k(1) json_parse_array_item with_next_char close_kinds del: json_parse_array.simps)
  then show ?case using v(3,4) by simp
next
  case (Cons i js)
  obtain k where k: "n = Suc k" "json_fuel j \<le> k" "1 + sum_list (map (\<lambda>j. 2 + json_fuel j) (i # js)) \<le> k"
    using Cons.prems(4) by (cases n) auto
  let ?r = "rest_text json_text (i # js) @ CHR '']'' # r"
  have j: "reads json_parse_value num j" "roomy h (json_cells j + (sum_list (map json_cells (i # js)) + m))" "ends ?r"
    using Cons.prems ends_rest by (auto simp: add.assoc ends_def)
  obtain v h1 h2 where v: "json_parse_value k (json_text j @ ?r) h = Got (v, ?r, h1)" "push_run a v h1 = Got h2"
      "array_so_far num hb h0 a (xs @ [j]) h2" "roomy h2 (sum_list (map json_cells (i # js)) + m)"
    using array_item [OF j(1) Cons.prems(2) j(2) k(2) j(3)] by blast
  have "json_parse_array n a (json_text j @ ?r) h = json_parse_array k a (json_text i @ rest_text json_text js @ CHR '']'' # r) h2"
    using v(1,2) by (simp add: k(1) json_parse_array_item with_next_char close_kinds del: json_parse_array.simps)
  then show ?case using Cons.IH [OF _ v(3,4) k(3)] Cons.prems(1) by simp
qed

lemma import_array:
  assumes "\<forall>j\<in>set js. reads json_parse_value num j"
  shows "reads json_parse_value num (JArr js)"
  unfolding reads_def
proof (intro allI impI)
  fix n h m r assume n: "json_fuel (JArr js) \<le> n" "roomy h (json_cells (JArr js) + m)"
  obtain a h0 where a: "create_array 0 h = (a, h0)" by force
  obtain k where k: "n = Suc k" "1 + sum_list (map (\<lambda>j. 2 + json_fuel j) js) \<le> k" using n(1) by (cases n) auto
  have "roomy h (Suc (sum_list (map json_cells js) + m))" using n(2) by simp
  note st = array_start [OF this a]
  have "\<exists>h'. json_parse_array k a (join_with '','' (map json_text js) @ CHR '']'' # r) h0 = Got (a, r, h') \<and>
      array_so_far num h h0 a js h' \<and> roomy h' m"
  proof (cases js)
    case Nil
    then show ?thesis using st k(2) by (cases k) (auto simp: with_next_char close_kinds)
  next
    case (Cons j js')
    show ?thesis using import_items [OF assms [unfolded Cons] st(1) st(2) [unfolded Cons] k(2) [unfolded Cons], of r]
      unfolding Cons join_rest by simp
  qed
  then obtain h' where h': "json_parse_array k a (join_with '','' (map json_text js) @ CHR '']'' # r) h0 = Got (a, r, h')"
      "array_so_far num h h0 a js h'" "roomy h' m" by blast
  have "json_parse_value n (json_text (JArr js) @ r) h = Got (a, r, h')"
    using h'(1) a by (simp add: k(1) with_next_char close_kinds)
  then show "\<exists>v h'. json_parse_value n (json_text (JArr js) @ r) h = Got (v, r, h') \<and> roomy h' m \<and> extends h h' \<and> rep num (made_since h h') (JArr js) v"
    using h'(3) array_done [OF h'(2)] by blast
qed

lemma json_parse_object_item:
  assumes "plain (fst p)" "create_string (fst p) h = (key, hk)"
  shows "json_parse_object (Suc n) a (member_text p @ r) h =
     and_then (json_parse_value n (json_text (snd p) @ r) hk) (\<lambda>(v, s, h). and_then (given (object_set a key v h)) (\<lambda>h.
       with_next s (\<lambda>c t. if c = CHR '','' then json_parse_object n a t h else if c = CHR ''}'' then Got (a, t, h) else Got (VAL_NULL, c # t, h))))"
  using import_text [OF assms] by (simp add: member_text_def with_next_char close_kinds)

lemma import_members:
  "\<forall>q\<in>set (p # kvs). plain (fst q) \<and> reads json_parse_value num (snd q) \<Longrightarrow> distinct (map fst (xs @ p # kvs)) \<Longrightarrow>
   object_so_far num hb h0 a xs h \<Longrightarrow> roomy h (sum_list (map (\<lambda>q. 1 + json_cells (snd q)) (p # kvs)) + m) \<Longrightarrow>
   1 + sum_list (map (\<lambda>q. 2 + json_fuel (snd q)) (p # kvs)) \<le> n \<Longrightarrow>
   \<exists>h'. json_parse_object n a (member_text p @ rest_text member_text kvs @ CHR ''}'' # r) h = Got (a, r, h') \<and>
     object_so_far num hb h0 a (xs @ p # kvs) h' \<and> roomy h' m"
proof (induction kvs arbitrary: p xs h n)
  case Nil
  obtain k where k: "n = Suc k" "json_fuel (snd p) \<le> k" using Nil.prems(5) by (cases n) auto
  obtain key hk where key: "create_string (fst p) h = (key, hk)" by force
  have j: "reads json_parse_value num (snd p)" "roomy h (Suc (json_cells (snd p) + m))" "ends (CHR ''}'' # r)" "fst p \<notin> fst ` set xs" "plain (fst p)"
    using Nil.prems by (auto simp: ends_def)
  obtain v h1 h2 where v: "json_parse_value k (json_text (snd p) @ CHR ''}'' # r) hk = Got (v, CHR ''}'' # r, h1)" "object_set a key v h1 = Some h2"
      "object_so_far num hb h0 a (xs @ [(fst p, snd p)]) h2" "roomy h2 m"
    using object_member [OF j(1) Nil.prems(3) j(2) k(2) j(3,4) key] by blast
  have "json_parse_object n a (member_text p @ CHR ''}'' # r) h = Got (a, r, h2)"
    using v(1,2) by (simp add: k(1) json_parse_object_item [OF j(5) key] with_next_char close_kinds del: json_parse_object.simps)
  then show ?case using v(3,4) by simp
next
  case (Cons q kvs)
  obtain k where k: "n = Suc k" "json_fuel (snd p) \<le> k" "1 + sum_list (map (\<lambda>q. 2 + json_fuel (snd q)) (q # kvs)) \<le> k"
    using Cons.prems(5) by (cases n) auto
  let ?r = "rest_text member_text (q # kvs) @ CHR ''}'' # r" and ?m = "sum_list (map (\<lambda>q. 1 + json_cells (snd q)) (q # kvs)) + m"
  obtain key hk where key: "create_string (fst p) h = (key, hk)" by force
  have j: "reads json_parse_value num (snd p)" "roomy h (Suc (json_cells (snd p) + ?m))" "ends ?r" "fst p \<notin> fst ` set xs" "plain (fst p)"
    using Cons.prems by (auto simp: add.assoc ends_def)
  obtain v h1 h2 where v: "json_parse_value k (json_text (snd p) @ ?r) hk = Got (v, ?r, h1)" "object_set a key v h1 = Some h2"
      "object_so_far num hb h0 a (xs @ [(fst p, snd p)]) h2" "roomy h2 ?m"
    using object_member [OF j(1) Cons.prems(3) j(2) k(2) j(3,4) key] by blast
  have "json_parse_object n a (member_text p @ ?r) h = json_parse_object k a (member_text q @ rest_text member_text kvs @ CHR ''}'' # r) h2"
    using v(1,2) by (simp add: k(1) json_parse_object_item [OF j(5) key] with_next_char close_kinds del: json_parse_object.simps)
  then show ?case using Cons.IH [OF _ _ v(3,4) k(3)] Cons.prems(1,2) by simp
qed

lemma import_object:
  assumes "\<forall>p\<in>set kvs. plain (fst p) \<and> reads json_parse_value num (snd p)" "distinct (map fst kvs)"
  shows "reads json_parse_value num (JObj kvs)"
  unfolding reads_def
proof (intro allI impI)
  fix n h m r assume n: "json_fuel (JObj kvs) \<le> n" "roomy h (json_cells (JObj kvs) + m)"
  obtain a h0 where a: "create_object h = (a, h0)" by force
  obtain k where k: "n = Suc k" "1 + sum_list (map (\<lambda>p. 2 + json_fuel (snd p)) kvs) \<le> k"
    using n(1) by (cases n) (auto simp: case_prod_unfold)
  have "roomy h (Suc (sum_list (map (\<lambda>p. 1 + json_cells (snd p)) kvs) + m))" using n(2) by (simp add: case_prod_unfold)
  note st = object_start [OF this a]
  have "\<exists>h'. json_parse_object k a (join_with '','' (map member_text kvs) @ CHR ''}'' # r) h0 = Got (a, r, h') \<and>
      object_so_far num h h0 a kvs h' \<and> roomy h' m"
  proof (cases kvs)
    case Nil
    then show ?thesis using st k(2) by (cases k) (auto simp: with_next_char close_kinds)
  next
    case (Cons p kvs')
    have "distinct (map fst ([] @ p # kvs'))" using assms(2) Cons by simp
    then show ?thesis using import_members [OF assms(1) [unfolded Cons] _ st(1) st(2) [unfolded Cons] k(2) [unfolded Cons], of r]
      unfolding Cons join_rest by simp
  qed
  then obtain h' where h': "json_parse_object k a (join_with '','' (map member_text kvs) @ CHR ''}'' # r) h0 = Got (a, r, h')"
      "object_so_far num h h0 a kvs h'" "roomy h' m" by blast
  have "json_parse_value n (json_text (JObj kvs) @ r) h = Got (a, r, h')"
    unfolding json_text_object using h'(1) a by (simp add: k(1) with_next_char close_kinds)
  then show "\<exists>v h'. json_parse_value n (json_text (JObj kvs) @ r) h = Got (v, r, h') \<and> roomy h' m \<and> extends h h' \<and> rep num (made_since h h') (JObj kvs) v"
    using h'(3) object_done [OF h'(2)] by blast
qed

lemma import_reads: "plain_json j \<Longrightarrow> reads json_parse_value int_value j"
proof (induction j)
  case (JArr js)
  then show ?case by (intro import_array) (auto simp: list_all_iff)
next
  case (JObj kvs)
  have "\<forall>p\<in>set kvs. plain (fst p) \<and> reads json_parse_value int_value (snd p)"
    using JObj by (auto simp: list_all_iff snds.simps)
  then show ?case using JObj(2) by (intro import_object) auto
qed (auto intro: import_leaf)

section \<open>Properties\<close>



lemma json_scan_length: "json_scan t = Some (w, r) \<Longrightarrow> length r \<le> length t"
proof (induction t arbitrary: w r rule: json_scan.induct)
  case (2 c s)
  consider "c = DQUOTE \<or> c = NUL" | "\<not> (c = DQUOTE \<or> c = NUL)" "c = BSLASH" | "\<not> (c = DQUOTE \<or> c = NUL)" "c \<noteq> BSLASH" by blast
  then show ?case
  proof cases
    case 2
    then obtain d s' w' where "s = d # s'" "json_scan s' = Some (w', r)" using "2.prems" by (cases s) auto
    then show ?thesis using "2.IH"(1) [OF 2] by fastforce
  next
    case 3
    then obtain w' where "json_scan s = Some (w', r)" using "2.prems" by auto
    then show ?thesis using "2.IH"(2) [OF 3] by fastforce
  qed (use "2.prems" in auto)
qed simp

lemma json_parse_string_length: "json_parse_string t h = Got (v, r, h') \<Longrightarrow> length r \<le> length t"
  using json_scan_length by (fastforce simp: json_parse_string_def split: option.splits prod.splits)

lemma json_parse_number_form:
  "\<exists>b w i k. json_parse_number s h =
     (if b then Got (w, drop k s, h) else case i of None \<Rightarrow> Undefined | Some x \<Rightarrow> Got (make_integer (word_of_int x), drop k s, h))"
  unfolding json_parse_number_def Let_def by blast

lemma json_parse_number_length: "json_parse_number s h = Got (v, r, h') \<Longrightarrow> length r \<le> length s"
  using json_parse_number_form [of s h] by (auto split: if_splits option.splits)

lemma never_running: "json_parse_string t h \<noteq> Running" "json_parse_number s h \<noteq> Running" "given x \<noteq> Running" "push_run a v h \<noteq> Running"
  using json_parse_number_form [of s h]
  by (auto simp: json_parse_string_def given_def push_run_def Let_def split: option.splits prod.splits if_splits)

text \<open>A run that ends, and a result that is not longer than the text.\<close>

definition settles :: "nat \<Rightarrow> ('a \<times> string \<times> 'b) run \<Rightarrow> bool" where
  "settles k r \<longleftrightarrow> r \<noteq> Running \<and> (\<forall>v s h. r = Got (v, s, h) \<longrightarrow> length s \<le> k)"

lemma settles_simps [simp]:
  "settles k (Got (v, s, h)) \<longleftrightarrow> length s \<le> k" "settles k Undefined" "\<not> settles k Running"
  by (simp_all add: settles_def)

lemma settles_then:
  assumes "settles k r" "\<And>v s h. r = Got (v, s, h) \<Longrightarrow> length s \<le> k \<Longrightarrow> settles k' (f (v, s, h))"
  shows "settles k' (and_then r f)"
  using assms by (cases r) auto

lemma settles_given: "r \<noteq> Running \<Longrightarrow> (\<And>x. r = Got x \<Longrightarrow> settles k (f x)) \<Longrightarrow> settles k (and_then r f)"
  by (cases r) auto

lemma settles_next:
  assumes "\<And>c t. length (c # t) \<le> length s \<Longrightarrow> settles k (f c t)"
  shows "settles k (with_next s f)"
proof (cases "dropWhile json_blank s")
  case (Cons c t)
  then have "length (c # t) \<le> length s" by (metis length_dropWhile_le)
  then show ?thesis using assms Cons by (simp add: with_next_def)
next
  case Nil
  then show ?thesis unfolding with_next_def Nil by simp
qed

text \<open>With two units of fuel for each character that is left, every function of the parser comes to an end.\<close>

lemma import_settles:
  "(\<forall>s h. 2 * length s + 1 \<le> n \<longrightarrow> settles (length s) (json_parse_value n s h)) \<and>
   (\<forall>obj s h. 2 * length s + 2 \<le> n \<longrightarrow> settles (length s) (json_parse_object n obj s h)) \<and>
   (\<forall>arr s h. 2 * length s + 2 \<le> n \<longrightarrow> settles (length s) (json_parse_array n arr s h))"
proof (induction n)
  case (Suc n)
  have V: "settles (length s) (json_parse_value n s h)" if "2 * length s + 1 \<le> n" for s h using Suc that by blast
  have O: "settles k (json_parse_object n a s h)" if "2 * length s + 2 \<le> n" "length s \<le> k" for a s h k
    using Suc that unfolding settles_def by (meson le_trans)
  have A: "settles k (json_parse_array n a s h)" if "2 * length s + 2 \<le> n" "length s \<le> k" for a s h k
    using Suc that unfolding settles_def by (meson le_trans)
  have S: "settles (length t) (json_parse_string t h)" "settles (length t) (json_parse_number t h)" for t h
    using never_running json_parse_string_length json_parse_number_length by (auto simp: settles_def)
  have weak: "settles k r" if "settles k' r" "k' \<le> k" for k k' and r :: "(Value \<times> string \<times> heap) run"
    using that by (cases r) (auto simp: settles_def)
  have val: "settles (length s) (json_parse_value (Suc n) s h)" if n: "2 * length s + 1 \<le> Suc n" for s h
    unfolding json_parse_value.simps
  proof (rule settles_next)
    fix c :: char and t assume l: "length (c # t) \<le> length s"
    have "settles (length s) (json_parse_string t h)" "settles (length s) (json_parse_number (c # t) h)"
      using weak [OF S(1), of t] weak [OF S(2), of "c # t"] l by auto
    moreover have "settles (length s) (json_parse_object n a t g)" "settles (length s) (json_parse_array n a t g)" for a g
      using O [of t] A [of t] l n by auto
    ultimately show "settles (length s) (if c = CHR ''{'' then let (obj, h) = create_object h in json_parse_object n obj t h
       else if c = CHR ''['' then let (arr, h) = create_array 0 h in json_parse_array n arr t h
       else if c = DQUOTE then json_parse_string t h
       else if is_digit c \<or> c = CHR ''-'' then json_parse_number (c # t) h
       else if take 4 (c # t) = ''true'' then Got (VAL_TRUE, drop 4 (c # t), h)
       else if take 5 (c # t) = ''false'' then Got (VAL_FALSE, drop 5 (c # t), h)
       else if take 4 (c # t) = ''null'' then Got (VAL_NULL, drop 4 (c # t), h)
       else Got (VAL_UNDEFINED, c # t, h))"
      using l by (auto simp: split_beta Let_def)
  qed
  have array: "settles (length s) (json_parse_array (Suc n) a s h)" if n: "2 * length s + 2 \<le> Suc n" for a s h
    unfolding json_parse_array.simps
  proof (rule settles_next, goal_cases)
    case (1 c t)
    have "settles (length s) (and_then (json_parse_value n (c # t) h) (\<lambda>(v, s, h). and_then (push_run a v h) (\<lambda>h.
        with_next s (\<lambda>c t. if c = CHR '','' then json_parse_array n a t h else if c = CHR '']'' then Got (a, t, h) else Got (VAL_NULL, c # t, h)))))"
    proof (rule settles_then [OF V], goal_cases)
      case (2 v s' g)
      have "settles (length s) (with_next s' (\<lambda>c t. if c = CHR '','' then json_parse_array n a t k else if c = CHR '']'' then Got (a, t, k) else Got (VAL_NULL, c # t, k)))" for k
      proof (rule settles_next, goal_cases)
        case (1 c' t')
        then show ?case using A [of t' "length s" a k] n \<open>length (c # t) \<le> length s\<close> 2(2) by auto
      qed
      then show ?case by (auto intro!: settles_given simp: never_running)
    qed (use 1 n in auto)
    then show ?case using 1 by auto
  qed
  have object: "settles (length s) (json_parse_object (Suc n) a s h)" if n: "2 * length s + 2 \<le> Suc n" for a s h
    unfolding json_parse_object.simps
  proof (rule settles_next, goal_cases)
    case (1 c t)
    have after: "settles (length s) (and_then (json_parse_value n t2 g) (\<lambda>(v, s, h). and_then (given (object_set a key v h)) (\<lambda>h.
        with_next s (\<lambda>c t. if c = CHR '','' then json_parse_object n a t h else if c = CHR ''}'' then Got (a, t, h) else Got (VAL_NULL, c # t, h)))))"
      if t2: "Suc (length t2) \<le> length s" for t2 g key
    proof (rule settles_then [OF V], goal_cases)
      case (2 v s' g')
      have "settles (length s) (with_next s' (\<lambda>c t. if c = CHR '','' then json_parse_object n a t k else if c = CHR ''}'' then Got (a, t, k) else Got (VAL_NULL, c # t, k)))" for k
      proof (rule settles_next, goal_cases)
        case (1 c' t')
        then show ?case using O [of t' "length s" a k] n t2 2(2) by auto
      qed
      then show ?case by (auto intro!: settles_given simp: never_running)
    qed (use t2 n in auto)
    have "settles (length s) (and_then (json_parse_string t h) (\<lambda>(key, s, h). with_next s (\<lambda>c t. if c \<noteq> CHR '':'' then Got (VAL_NULL, c # t, h)
        else and_then (json_parse_value n t h) (\<lambda>(v, s, h). and_then (given (object_set a key v h)) (\<lambda>h.
          with_next s (\<lambda>c t. if c = CHR '','' then json_parse_object n a t h else if c = CHR ''}'' then Got (a, t, h) else Got (VAL_NULL, c # t, h)))))))"
    proof (rule settles_then [OF S(1)], goal_cases)
      case (1 key s' g)
      then show ?case using after \<open>length (c # t) \<le> length s\<close> by (auto intro!: settles_next)
    qed
    then show ?case using 1 by auto
  qed
  show ?case using val object array by blast
qed simp

text \<open>
  C31 (termination): the parser of imported files ends on every file, well-formed or not.
\<close>

theorem json_import_terminates:
  assumes "2 * length content + 3 \<le> n"
  shows "json_parse_value n (content @ [NUL]) h \<noteq> Running"
  using import_settles [of n] assms by (auto simp: settles_def)

text \<open>What \<open>JSON.parse\<close> does not take as the start of a value.\<close>

definition no_value :: "string \<Rightarrow> bool" where
  "no_value s \<longleftrightarrow> s \<noteq> [] \<and> \<not> json_blank (hd s) \<and> \<not> is_digit (hd s) \<and>
     hd s \<notin> {NUL, CHR '']'', CHR '','', CHR ''{'', CHR ''['', DQUOTE, CHR ''-''} \<and>
     take 4 s \<noteq> ''true'' \<and> take 5 s \<noteq> ''false'' \<and> take 4 s \<noteq> ''null''"

lemma elements_stuck:
  assumes "no_value s"
  shows "deref h a = Some (OArray es c) \<Longrightarrow> length es \<le> c \<Longrightarrow> 0 < c \<Longrightarrow> json_elements n a s h = Running"
proof (induction n arbitrary: h es c)
  case (Suc n)
  obtain x t where s: "s = x # t" "\<not> json_blank x" "x \<notin> {NUL, CHR '']'', CHR '',''}" using assms by (cases s) (auto simp: no_value_def)
  let ?c = "if length es \<ge> c then c * 2 else c"
  let ?h = "put_obj a (OArray (es @ [VAL_UNDEFINED]) ?c) h"
  have push: "push_run a VAL_UNDEFINED h = Got ?h" using Suc.prems by (auto simp: push_run_def array_push_def Let_def)
  have step: "json_elements (Suc n) a s h =
      and_then (parse_json_value n s h) (\<lambda>(v, s, h). and_then (push_run a v h) (\<lambda>h. json_elements n a s h))"
    using s by simp
  show ?case
  proof (cases n)
    case 0
    then show ?thesis using step by simp
  next
    case (Suc k)
    have "parse_json_value n s h = Got (VAL_UNDEFINED, s, h)" using assms s by (auto simp: Suc no_value_def)
    moreover have "json_elements n a s ?h = Running"
      using Suc.prems Suc.IH [OF put_obj_views(1) [OF Suc.prems(1)], of "es @ [VAL_UNDEFINED]" ?c] by auto
    ultimately show ?thesis using step push by simp
  qed
qed simp

lemma take_snoc_neq:
  assumes "take n s \<noteq> w" "x \<notin> set w" "length w = n"
  shows "take n (s @ [x]) \<noteq> w"
proof
  assume w: "take n (s @ [x]) = w"
  show False
  proof (cases "n \<le> length s")
    case True
    then show False using w assms(1) by simp
  next
    case False
    then have "take n (s @ [x]) = s @ [x]" by simp
    from trans [OF sym [OF this] w] assms(2) show False by auto
  qed
qed

lemma no_value_snoc:
  assumes "no_value s"
  shows "no_value (s @ [NUL])"
proof -
  have "s \<noteq> []" "hd (s @ [NUL]) = hd s" using assms by (auto simp: no_value_def)
  moreover have "take 4 (s @ [NUL]) \<noteq> ''true''" "take 5 (s @ [NUL]) \<noteq> ''false''" "take 4 (s @ [NUL]) \<noteq> ''null''"
    using assms by (intro take_snoc_neq; simp add: no_value_def NUL_def)+
  ultimately show ?thesis using assms unfolding no_value_def by simp
qed

text \<open>
  C32 (error): \<open>JSON.parse\<close> of an array whose first element is no JSON value never returns: it goes on appending
  undefined to the array without moving forward.
\<close>

theorem json_parse_diverges:
  assumes "roomy h 1" "str_of h sv = Some (CHR ''['' # s)" "no_value s"
  shows "js_json_parse n [sv] h = Running"
proof (cases n)
  case (Suc k)
  obtain a h0 where a: "create_array 8 h = (a, h0)" by force
  have "deref h0 a = Some (OArray [] 8)" using create_array_deref [OF _ a] assms(1) by (auto simp: roomy_def)
  moreover have "no_value (s @ [NUL])" using no_value_snoc [OF assms(3)] .
  ultimately have "json_elements k a (s @ [NUL]) h0 = Running" using elements_stuck [of "s @ [NUL]" h0 a "[]" 8] by simp
  moreover have "IS_POINTER sv" using assms(2) by (simp add: str_deref deref_def split: if_splits)
  ultimately show ?thesis using assms(2) a by (simp add: js_json_parse_def Suc json_blank_def char_defs)
next
  case 0
  have "IS_POINTER sv" using assms(2) by (simp add: str_deref deref_def split: if_splits)
  then show ?thesis using assms(2) by (simp add: js_json_parse_def 0)
qed

text \<open>An unterminated object with a blank at its end takes \<open>JSON.parse\<close> behind the terminator.\<close>

lemma json_object_overruns:
  assumes "str_of h sv = Some ''{ ''"
  shows "js_json_parse (Suc (Suc (Suc n))) [sv] h = Undefined"
proof -
  have "IS_POINTER sv" using assms by (simp add: str_deref deref_def split: if_splits)
  then show ?thesis using assms
    by (cases "create_object h") (simp add: js_json_parse_def json_blank_def char_defs)
qed

section \<open>Witnesses\<close>

definition json_heap :: heap where
  "json_heap =
     \<lparr>objs = [8 \<mapsto> OString ''ok'', 16 \<mapsto> OArray [int_value 7, make_pointer 8] 4,
        24 \<mapsto> OObject [(make_pointer 8, make_pointer 16)] 4, 32 \<mapsto> OString ''json'', 40 \<mapsto> OString ''[x]''],
      brk = 48, interned = [], next_symbol = 0\<rparr>"

definition json_doc :: json where
  "json_doc = JObj [(''ok'', JArr [JNum 7, JStr ''ok''])]"

lemma json_heap_views:
  "deref json_heap (make_pointer 16) = Some (OArray [int_value 7, make_pointer 8] 4)"
  "deref json_heap (make_pointer 24) = Some (OObject [(make_pointer 8, make_pointer 16)] 4)"
  "str_of json_heap (make_pointer 8) = Some ''ok''" "str_of json_heap (make_pointer 32) = Some ''json''"
  "str_of json_heap (make_pointer 40) = Some ''[x]''"
  by (simp_all add: str_of_def deref_make_pointer json_heap_def del: get_make)

lemma json_heap_roomy: "n < 1000 \<Longrightarrow> roomy json_heap n"
  by (auto simp: roomy_def heap_ok_def room_def json_heap_def split: if_splits)

lemma json_doc_rep: "rep int_value json_heap json_doc (make_pointer 24)" "plain_json json_doc"
proof -
  have "rep int_value json_heap (JArr [JNum 7, JStr ''ok'']) (make_pointer 16)"
    by (rule rep_arr [OF json_heap_views(1)]) (auto intro: rep.intros json_heap_views(3))
  then show "rep int_value json_heap json_doc (make_pointer 24)"
    unfolding json_doc_def by (intro rep_obj [OF json_heap_views(2)]) (simp add: json_heap_views(3))
qed (simp add: json_doc_def plain_def char_defs)


definition json_vm :: VM where
  "json_vm = demo_vm (demo_program [] []) json_heap []"


theorem json_import_terminates_witness: "json_parse_value 13 (''[1,x'' @ [NUL]) json_heap \<noteq> Running"
  by (rule json_import_terminates) simp

theorem json_parse_diverges_witness: "js_json_parse 100 [make_pointer 40] json_heap = Running"
  by (rule json_parse_diverges [OF json_heap_roomy, of _ "''x]''"])
    (simp_all add: json_heap_views(5) no_value_def json_blank_def char_defs char_class_defs)

end
