(* ===== verification/KV_Laws.thy ===== *)
theory KV_Laws
  imports KV_Store Json_Laws "HOL-Library.Sublist"
begin

text \<open>
  The key-value store refines a map from keys to texts: the list in memory, the log read back, and the log of a
  compacted store all stand for the same map, an append that a crash cuts off is all or nothing, and a
  document that was stored is read back after the store is opened again.
\<close>

section \<open>The list in memory\<close>

lemma kv_replace_get:
  "case kv_replace key val m of
     None \<Rightarrow> kv_get_mem m key = None \<and> (\<forall>p\<in>set m. fst p \<noteq> key)
   | Some m' \<Rightarrow> kv_get_mem m' = (kv_get_mem m)(key := val) \<and> map fst m' = map fst m"
proof (induction key val m rule: kv_replace.induct)
  case (2 key val k v m)
  then show ?case by (cases "k = key"; cases "kv_replace key val m") (auto simp: fun_eq_iff)
qed simp

lemma kv_set_mem_get [laws]: "kv_get_mem (kv_set_mem key val m) = (kv_get_mem m)(key := val)"
  using kv_replace_get [where key = key and val = val and m = m] by (fastforce simp: kv_set_mem_def fun_eq_iff split: option.splits)

lemma kv_set_mem_distinct: "distinct (map fst m) \<Longrightarrow> distinct (map fst (kv_set_mem key val m))"
  using kv_replace_get [where key = key and val = val and m = m] by (fastforce simp: kv_set_mem_def split: option.splits)

lemma kv_replace_set: "kv_replace key val m = Some m' \<Longrightarrow> set m' \<subseteq> insert (key, val) (set m)"
  by (induction key val m arbitrary: m' rule: kv_replace.induct) (auto split: if_splits)

lemma kv_set_mem_set: "set (kv_set_mem key val m) \<subseteq> insert (key, val) (set m)"
  using kv_replace_set [of key val m] by (auto simp: kv_set_mem_def split: option.splits)

section \<open>Logs\<close>

type_synonym kv_op = "string \<times> string option"

definition good_key :: "string \<Rightarrow> bool" where
  "good_key k \<longleftrightarrow> NUL \<notin> set k \<and> (k = [] \<or> \<not> is_space (hd k)) \<and> length k < 2 ^ 31 - 1"

definition good_val :: "string \<Rightarrow> bool" where
  "good_val t \<longleftrightarrow> NUL \<notin> set t \<and> t \<noteq> [] \<and> \<not> is_space (hd t) \<and> length t < 2 ^ 31 - 1"

definition good_op :: "kv_op \<Rightarrow> bool" where
  "good_op p \<longleftrightarrow> good_key (fst p) \<and> (case snd p of None \<Rightarrow> True | Some t \<Rightarrow> good_val t)"

definition op_text :: "kv_op \<Rightarrow> string" where
  "op_text p = (case snd p of Some t \<Rightarrow> set_record (len_int (fst p)) (len_int t) (fst p) t | None \<Rightarrow> delete_record (len_int (fst p)) (fst p))"

definition log_text :: "kv_op list \<Rightarrow> string" where
  "log_text ops = concat (map op_text ops)"

definition kv_map :: "kv_op list \<Rightarrow> string \<Rightarrow> string option" where
  "kv_map ops = fold (\<lambda>(k, v) m. m(k := v)) ops (\<lambda>_. None)"

lemma log_text_simps [simp]: "log_text [] = []" "log_text (p # ops) = op_text p @ log_text ops" "log_text (xs @ ys) = log_text xs @ log_text ys"
  by (simp_all add: log_text_def)

lemma kv_map_snoc [simp]: "kv_map (ops @ [(k, v)]) = (kv_map ops)(k := v)" "kv_map [] = (\<lambda>_. None)"
  by (simp_all add: kv_map_def)

text \<open>The numbers of a record.\<close>

lemma len_int_nat: "length s < 2 ^ 31 - 1 \<Longrightarrow> len_int s = int (length s)"
  by (simp add: len_int_def signed_of_nat signed_take_bit_int_eq_self)

lemma show_int_nat [simp]: "show_int (int n) = show_nat n"
  by (simp add: show_int_def)

definition non_digit :: "string \<Rightarrow> bool" where
  "non_digit r \<longleftrightarrow> r = [] \<or> \<not> is_digit (hd r)"

lemma scan_int_space [simp]: "scan_int (CHR '' '' # s) = scan_int s"
  by (simp add: scan_int_def is_space_def)

lemma scan_int_Nil [simp]: "scan_int [] = None"
  by (simp add: scan_int_def sign_part_def at_def NUL_def)

lemma scan_digits:
  assumes "ds \<noteq> []" "\<forall>c\<in>set ds. is_digit c" "non_digit r"
  shows "scan_int (ds @ r) = Some (digits_val 10 ds, r)"
proof -
  obtain c cs where ds: "ds = c # cs" using assms(1) by (cases ds) auto
  have c: "\<not> is_space c" "c \<noteq> CHR ''-''" "c \<noteq> CHR ''+''" using digit_not assms(2) ds by auto
  have "takeWhile is_digit (ds @ r) = ds" using takeWhile_digits [OF assms(2)] assms(3) by (auto simp: non_digit_def)
  then show ?thesis using c ds by (simp add: scan_int_def sign_part_def at_def)
qed

lemma scan_show: "non_digit r \<Longrightarrow> scan_int (show_nat n @ r) = Some (int n, r)"
  using scan_digits [OF show_nat_Nil show_nat_digits] by (simp add: digits_val_show)

lemma digits_val_prefix:
  assumes "prefix ds (show_nat n)"
  shows "0 \<le> digits_val 10 ds \<and> digits_val 10 ds \<le> int n \<and> (ds \<noteq> [] \<longrightarrow> 0 < n \<longrightarrow> 0 < digits_val 10 ds)"
  using assms
proof (induction n rule: show_nat.induct)
  case (1 n)
  have whole: "ds = show_nat n \<Longrightarrow> ?case" by (simp add: digits_val_show)
  show ?case
  proof (cases "n < 10")
    case True
    then have "ds = [] \<or> ds = show_nat n" using 1(2) by (auto simp: show_nat.simps [of n] prefix_Cons)
    then show ?thesis using whole by (auto simp: digits_val_def)
  next
    case False
    then have "prefix ds (show_nat (n div 10)) \<or> ds = show_nat n" using 1(2) show_nat.simps [of n] by auto
    moreover have "int (n div 10) \<le> int n" "0 < n div 10" using False by auto
    ultimately show ?thesis using 1(1) [OF False] whole by force
  qed
qed


text \<open>Reading a whole record, and one that a prefix cuts off.\<close>

definition unspaced :: "string \<Rightarrow> bool" where
  "unspaced r \<longleftrightarrow> r = [] \<or> \<not> is_space (hd r)"

lemma unspaced_drop: "unspaced r \<Longrightarrow> dropWhile is_space r = r"
  by (cases r) (auto simp: unspaced_def)

lemma c_text_plain: "NUL \<notin> set s \<Longrightarrow> c_text s = s"
  unfolding c_text_def by (rule takeWhile_eq_all_conv [THEN iffD2]) auto

definition type_char :: "kv_op \<Rightarrow> char" where
  "type_char p = (case snd p of None \<Rightarrow> CHR ''D'' | Some _ \<Rightarrow> CHR ''S'')"

definition body_text :: "kv_op \<Rightarrow> string" where
  "body_text p = fst p @ (case snd p of None \<Rightarrow> [] | Some t \<Rightarrow> t)"

definition val_len :: "kv_op \<Rightarrow> nat" where
  "val_len p = (case snd p of None \<Rightarrow> 0 | Some t \<Rightarrow> length t)"

lemma op_text_parts:
  assumes "good_op p"
  shows "op_text p = type_char p # CHR '' '' # show_nat (length (fst p)) @ CHR '' '' # show_nat (val_len p) @ CHR '' '' # body_text p @ [NL]"
proof -
  have "show_nat 0 = ''0''" by code_simp
  then show ?thesis using assms
    by (auto simp: op_text_def set_record_def delete_record_def type_char_def body_text_def val_len_def good_op_def good_key_def good_val_def
        len_int_nat split: option.splits)
qed

lemma non_digit_Cons [simp]: "non_digit (CHR '' '' # r)" "non_digit []"
  by (simp_all add: non_digit_def char_class_defs)

lemma good_lengths:
  assumes "good_op p"
  shows "int_range (int (length (fst p)))" "int_range (int (val_len p))" "length (fst p) < 2 ^ 31 - 1" "val_len p < 2 ^ 31 - 1"
  using assms by (auto simp: good_op_def good_key_def good_val_def val_len_def int_range_def split: option.splits)

lemma read_block_ok: "n < 2 ^ 31 - 1 \<Longrightarrow> read_block (int n) s = Got (if length s < n then None else Some (take n s, drop n s))"
  by (simp add: read_block_def)

text \<open>A record behind its two numbers.\<close>

definition load_body :: "kv_op \<Rightarrow> string \<Rightarrow> ((string \<times> string option) \<times> string) option run" where
  "load_body p s =
     (if length s < length (fst p) then Got None
      else if snd p = None then Got (Some ((c_text (take (length (fst p)) s), None), drop (length (fst p)) s))
      else if length s < length (fst p) + val_len p then Got None
      else Got (Some ((c_text (take (length (fst p)) s), Some (c_text (take (val_len p) (drop (length (fst p)) s)))),
             drop (length (fst p) + val_len p) s)))"

lemma load_record_body:
  assumes "good_op p" "non_digit r"
  shows "load_record (type_char p) (CHR '' '' # show_nat (length (fst p)) @ CHR '' '' # show_nat (val_len p) @ r) = load_body p (dropWhile is_space r)"
proof -
  have "scan_lengths (CHR '' '' # show_nat (length (fst p)) @ CHR '' '' # show_nat (val_len p) @ r) =
      Got (Some (int (length (fst p)), int (val_len p), dropWhile is_space r))"
    using good_lengths [OF assms(1)] scan_show assms(2) by (simp add: scan_lengths_def)
  then show ?thesis using good_lengths(3,4) [OF assms(1)]
    by (cases "snd p") (auto simp: load_record_def load_body_def read_block_ok type_char_def val_len_def add.commute)
qed

lemma load_body_whole:
  assumes "good_op p" "r = body_text p @ t"
  shows "load_body p r = Got (Some (p, t))"
  using assms by (cases p) (auto simp: load_body_def body_text_def val_len_def good_op_def good_key_def good_val_def c_text_plain split: option.splits)

lemma load_body_short:
  assumes "prefix b (body_text p)" "b \<noteq> body_text p"
  shows "load_body p b = Got None"
proof -
  have "length b < length (body_text p)" using assms by (metis prefix_length_less prefix_order.le_less)
  then show ?thesis by (auto simp: load_body_def body_text_def val_len_def split: option.splits)
qed

lemma body_unspaced:
  assumes "good_op p" "prefix b (body_text p @ [NL])" "b \<noteq> [NL]"
  shows "dropWhile is_space (CHR '' '' # b @ r) = (if b = [] then dropWhile is_space r else b @ r)"
proof (cases b)
  case (Cons c b')
  then have "body_text p \<noteq> []" using assms(2,3) by auto
  then have "c = hd (body_text p)" using assms(2) Cons by (auto simp: prefix_Cons neq_Nil_conv)
  then have "\<not> is_space c" using \<open>body_text p \<noteq> []\<close> assms(1)
    by (cases "fst p") (auto simp: body_text_def good_op_def good_key_def good_val_def split: option.splits)
  then show ?thesis using Cons by (simp add: is_space_def)
qed (simp add: is_space_def)

lemma type_char_laws: "type_char p \<noteq> NL" "type_char p = CHR ''S'' \<or> type_char p = CHR ''D''"
  by (auto simp: type_char_def NL_def split: option.splits)

lemma kv_load_NL [simp]: "kv_load (NL # r) m = kv_load r m"
  by (simp add: kv_load.simps [of "NL # r"])

lemma kv_load_record:
  "kv_load (type_char p # s) m =
     (case load_record (type_char p) s of Got (Some ((key, val), s)) \<Rightarrow> kv_load s (kv_set_mem key val m) | Got None \<Rightarrow> Got m
      | Undefined \<Rightarrow> Undefined | Running \<Rightarrow> Running)"
  using type_char_laws [of p] by (auto simp: kv_load.simps [of "type_char p # s"])

lemma load_op:
  assumes "good_op p" "unspaced r"
  shows "kv_load (op_text p @ r) m = kv_load r (kv_set_mem (fst p) (snd p) m)"
proof -
  obtain t where t: "dropWhile is_space (CHR '' '' # (body_text p @ [NL]) @ r) = body_text p @ t" "kv_load t m = kv_load r m" for m
  proof (cases "body_text p = []")
    case True
    then have "dropWhile is_space (CHR '' '' # (body_text p @ [NL]) @ r) = body_text p @ r"
      using unspaced_drop [OF assms(2)] by (simp add: is_space_def char_in_def NL_def)
    then show ?thesis using that by blast
  next
    case False
    then have "dropWhile is_space (CHR '' '' # (body_text p @ [NL]) @ r) = body_text p @ NL # r"
      using body_unspaced [OF assms(1), of "body_text p @ [NL]" r] by simp
    then show ?thesis using that [of "NL # r"] by simp
  qed
  then show ?thesis using load_record_body [OF assms(1), of "CHR '' '' # body_text p @ NL # r"] load_body_whole [OF assms(1) refl, of t]
      op_text_parts [OF assms(1)]
    by (cases p) (simp add: kv_load_record)
qed

lemma log_unspaced:
  assumes "list_all good_op ops" "prefix q (log_text ops)"
  shows "unspaced q"
proof (cases ops)
  case (Cons p ops')
  then have "log_text ops = type_char p # tl (log_text ops)" using assms(1) op_text_parts [of p] by simp
  then have "q = [] \<or> hd q = type_char p" using assms(2) by (metis hd_Cons_tl hd_append2 list.sel(1) prefix_def)
  then show ?thesis using type_char_laws(2) [of p] by (auto simp: unspaced_def is_space_def char_in_def)
qed (use assms in \<open>auto simp: unspaced_def\<close>)

lemma log_append_unspaced: "list_all good_op ops \<Longrightarrow> unspaced r \<Longrightarrow> unspaced (log_text ops @ r)"
  using log_unspaced [of ops "log_text ops"] by (cases "log_text ops") (auto simp: unspaced_def)

lemma load_log_append:
  "list_all good_op ops \<Longrightarrow> unspaced r \<Longrightarrow> kv_load (log_text ops @ r) m = kv_load r (fold (\<lambda>p. kv_set_mem (fst p) (snd p)) ops m)"
  by (induction ops arbitrary: m) (simp_all add: load_op log_append_unspaced)

lemma fold_set_mem:
  "kv_get_mem (fold (\<lambda>p. kv_set_mem (fst p) (snd p)) ops m) = fold (\<lambda>(k, v) m. m(k := v)) ops (kv_get_mem m)"
  "distinct (map fst m) \<Longrightarrow> distinct (map fst (fold (\<lambda>p. kv_set_mem (fst p) (snd p)) ops m))"
  "set (fold (\<lambda>p. kv_set_mem (fst p) (snd p)) ops m) \<subseteq> set ops \<union> set m"
proof (induction ops arbitrary: m)
  case (Cons p ops)
  { case 1 then show ?case using Cons(1) by (simp add: laws case_prod_unfold) }
  { case 2 then show ?case using Cons(2) kv_set_mem_distinct by simp }
  { case 3 then show ?case using Cons(3) [of "kv_set_mem (fst p) (snd p) m"] kv_set_mem_set [of "fst p" "snd p" m] by auto }
qed auto

lemma load_log:
  assumes "list_all good_op ops" "unspaced r"
  obtains m where "kv_load (log_text ops @ r) [] = kv_load r m" "kv_get_mem m = kv_map ops" "distinct (map fst m)" "list_all good_op m"
proof (rule that)
  let ?m = "fold (\<lambda>p. kv_set_mem (fst p) (snd p)) ops []"
  show "kv_load (log_text ops @ r) [] = kv_load r ?m" by (rule load_log_append [OF assms])
  have "kv_get_mem [] = (\<lambda>_. None)" by (simp add: fun_eq_iff)
  then show "kv_get_mem ?m = kv_map ops" by (simp add: fold_set_mem(1) kv_map_def)
  show "distinct (map fst ?m)" using fold_set_mem(2) [of "[]"] by simp
  show "list_all good_op ?m" using fold_set_mem(3) [of ops "[]"] assms(1) by (auto simp: list_all_iff)
qed

text \<open>A record that is cut off is read as if it were whole, or not at all.\<close>

lemma prefix_parts: "prefix q (a @ b) \<Longrightarrow> (prefix q a \<and> q \<noteq> a) \<or> (\<exists>q'. q = a @ q' \<and> prefix q' b)"
  by (metis append_eq_append_conv2 prefix_append prefix_def self_append_conv)

lemma scan_short:
  assumes "prefix ds (show_nat n)"
  shows "scan_int ds = (if ds = [] then None else Some (digits_val 10 ds, []))"
  using scan_digits [of ds "[]"] show_nat_digits [of n] set_mono_prefix [OF assms] by auto

lemma load_body_torn:
  assumes "good_op p" "prefix b (body_text p @ [NL])"
  shows "load_body p b = Got None \<or> (\<exists>t\<in>{[], [NL]}. load_body p b = Got (Some (p, t)))"
  using prefix_parts [OF assms(2)]
proof
  assume "prefix b (body_text p) \<and> b \<noteq> body_text p"
  then show ?thesis using load_body_short by blast
next
  assume "\<exists>q'. b = body_text p @ q' \<and> prefix q' [NL]"
  then show ?thesis using load_body_whole [OF assms(1)] by (auto simp: prefix_Cons)
qed

lemma torn_body:
  assumes "good_op p" "prefix r (CHR '' '' # body_text p @ [NL])"
  shows "prefix (dropWhile is_space r) (body_text p @ [NL])"
proof (cases r)
  case (Cons c b)
  then have b: "c = CHR '' ''" "prefix b (body_text p @ [NL])" using assms(2) by (auto simp: prefix_Cons)
  have "b = [NL] \<Longrightarrow> dropWhile is_space r = []" using Cons b(1) by (simp add: is_space_def char_in_def NL_def)
  moreover have "b \<noteq> [NL] \<Longrightarrow> dropWhile is_space r = b" using body_unspaced [OF assms(1) b(2), of "[]"] Cons b(1) by (simp split: if_splits)
  ultimately show ?thesis using b(2) by (metis Nil_prefix)
qed simp

lemma scan_torn_key:
  assumes "good_op p" "prefix s (show_nat (length (fst p)))"
  shows "scan_lengths s = Got None"
proof (cases "s = []")
  case False
  have "int_range (digits_val 10 s)" using digits_val_prefix [OF assms(2)] good_lengths(1) [OF assms(1)] by (auto simp: int_range_def)
  then show ?thesis using scan_short [OF assms(2)] False by (simp add: scan_lengths_def)
qed (simp add: scan_lengths_def)

lemma load_torn_length:
  assumes "good_op p" "prefix s (show_nat (val_len p))" "s \<noteq> show_nat (val_len p)"
  shows "load_record (type_char p) (CHR '' '' # show_nat (length (fst p)) @ CHR '' '' # s) = Got None"
proof (cases "s = []")
  case True
  then show ?thesis using scan_show [of "'' ''" "length (fst p)"] by (simp add: load_record_def scan_lengths_def good_lengths(1) [OF assms(1)])
next
  case False
  let ?d = "digits_val 10 s"
  note d = digits_val_prefix [OF assms(2)]
  have "show_nat 0 = ''0''" by code_simp
  then have "0 < val_len p" using assms(2,3) False by (cases "val_len p") (auto simp: prefix_Cons)
  then have pos: "0 < ?d" "snd p \<noteq> None" using d False by (auto simp: val_len_def split: option.splits)
  have r: "int_range ?d" "?d < 2 ^ 31 - 1" using d good_lengths(2,4) [OF assms(1)] by (auto simp: int_range_def)
  have "scan_lengths (CHR '' '' # show_nat (length (fst p)) @ CHR '' '' # s) = Got (Some (int (length (fst p)), ?d, []))"
    using scan_show [of "CHR '' '' # s" "length (fst p)"] scan_short [OF assms(2)] False good_lengths(1) [OF assms(1)] r(1) by (simp add: scan_lengths_def)
  moreover have "read_block ?d [] = Got None" using r(2) pos(1) by (simp add: read_block_def)
  ultimately show ?thesis using good_lengths(3) [OF assms(1)] pos(2)
    by (auto simp: load_record_def read_block_ok type_char_def split: option.splits)
qed

lemma load_torn:
  assumes "good_op p" "prefix q (op_text p)"
  shows "kv_load q m = Got m \<or> kv_load q m = Got (kv_set_mem (fst p) (snd p) m)"
proof (cases q)
  case Nil
  then show ?thesis by (simp add: kv_load.simps)
next
  case (Cons c s)
  let ?k = "show_nat (length (fst p))" and ?v = "show_nat (val_len p)"
  have c: "c = type_char p" and s: "prefix s (CHR '' '' # ?k @ CHR '' '' # ?v @ CHR '' '' # body_text p @ [NL])"
    using assms(2) Cons by (auto simp: op_text_parts [OF assms(1)])
  have none: "load_record (type_char p) s = Got None \<Longrightarrow> ?thesis" using Cons c by (simp add: kv_load_record)
  have one: "scan_lengths s = Got None \<Longrightarrow> ?thesis" using none by (simp add: load_record_def)
  consider "s = []" | t where "s = CHR '' '' # t" "prefix t ?k"
    | "s = CHR '' '' # ?k" | t where "s = CHR '' '' # ?k @ CHR '' '' # t" "prefix t (?v @ CHR '' '' # body_text p @ [NL])"
    using s by (auto simp: prefix_Cons dest!: prefix_parts)
  then show ?thesis
  proof cases
    case 1
    then show ?thesis using one by (simp add: scan_lengths_def)
  next
    case (2 t)
    then show ?thesis using one scan_torn_key [OF assms(1) 2(2)] by (simp add: scan_lengths_def)
  next
    case 3
    then show ?thesis using one scan_torn_key [OF assms(1), of ?k] by (simp add: scan_lengths_def)
  next
    case (4 t)
    show ?thesis using prefix_parts [OF 4(2)]
    proof
      assume "prefix t ?v \<and> t \<noteq> ?v"
      then show ?thesis using load_torn_length [OF assms(1)] 4(1) none by blast
    next
      assume "\<exists>q'. t = ?v @ q' \<and> prefix q' (CHR '' '' # body_text p @ [NL])"
      then obtain r where r: "t = ?v @ r" "prefix r (CHR '' '' # body_text p @ [NL])" by blast
      have "prefix (dropWhile is_space r) (body_text p @ [NL])" using torn_body [OF assms(1) r(2)] .
      moreover have "load_record (type_char p) s = load_body p (dropWhile is_space r)"
        using load_record_body [OF assms(1), of r] r(2) 4(1) r(1) by (auto simp: prefix_Cons)
      ultimately show ?thesis using load_body_torn [OF assms(1)] none Cons c
        by (cases p) (fastforce simp: kv_load_record kv_load.simps [of "[]"])
    qed
  qed
qed

section \<open>Requests on an open store\<close>

datatype kv_request = KPut string string | KDel string | KCompact

definition kv_do :: "kv_host \<Rightarrow> u64 \<Rightarrow> kv_request \<Rightarrow> kv_world \<Rightarrow> kv_world run" where
  "kv_do host a r w =
     (case contexts w a of
        None \<Rightarrow> Undefined
      | Some ctx \<Rightarrow>
          (case r of
             KPut key val \<Rightarrow> kv_store a ctx key val w
           | KDel key \<Rightarrow> kv_erase a ctx key w
           | KCompact \<Rightarrow> and_then (kv_rewrite host a ctx w) (\<lambda>(_, w). Got w)))"

fun kv_dos :: "kv_host \<Rightarrow> u64 \<Rightarrow> kv_request list \<Rightarrow> kv_world \<Rightarrow> kv_world run" where
  "kv_dos host a [] w = Got w"
| "kv_dos host a (r # rs) w = and_then (kv_do host a r w) (kv_dos host a rs)"

text \<open>What the requests mean.\<close>

fun kv_spec :: "kv_request \<Rightarrow> (string \<Rightarrow> string option) \<Rightarrow> string \<Rightarrow> string option" where
  "kv_spec (KPut k t) m = m(k := Some t)"
| "kv_spec (KDel k) m = m(k := None)"
| "kv_spec KCompact m = m"

fun good_request :: "kv_request \<Rightarrow> bool" where
  "good_request (KPut k t) = (good_key k \<and> good_val t)"
| "good_request (KDel k) = good_key k"
| "good_request KCompact = True"

definition file_text :: "kv_world \<Rightarrow> string \<Rightarrow> string" where
  "file_text w path = (case names w path of None \<Rightarrow> [] | Some i \<Rightarrow> contents w i)"

definition files_ok :: "kv_world \<Rightarrow> bool" where
  "files_ok w \<longleftrightarrow> (\<forall>p q i. names w p = Some i \<longrightarrow> names w q = Some i \<longrightarrow> p = q) \<and> (\<forall>p i. names w p = Some i \<longrightarrow> i < next_file w)"

text \<open>The store of a context serves a map: the list stands for it, and so does the log behind the context's file name.\<close>

definition kv_serves :: "kv_world \<Rightarrow> u64 \<Rightarrow> string \<Rightarrow> (string \<Rightarrow> string option) \<Rightarrow> bool" where
  "kv_serves w a path M \<longleftrightarrow> files_ok w \<and> length path \<le> 255 \<and>
     (\<exists>i m ops. contexts w a = Some \<lparr>filepath = path, file_handle = KOpen i, head = m\<rparr> \<and> names w path = Some i \<and>
        contents w i = log_text ops \<and> list_all good_op ops \<and> kv_map ops = M \<and>
        kv_get_mem m = M \<and> list_all good_op m \<and> distinct (map fst m))"

definition host_ok :: "kv_host \<Rightarrow> string \<Rightarrow> bool" where
  "host_ok host path \<longleftrightarrow> may_append host path \<and> may_create host (path @ ''.tmp'') \<and> may_rename host (path @ ''.tmp'') path"

lemma serves_append:
  assumes "kv_serves w a path M" "good_op p"
    and "contexts w a = Some ctx" "file_handle ctx = KOpen i"
  shows "kv_serves (update_context a (ctx\<lparr>head := kv_set_mem (fst p) (snd p) (head ctx)\<rparr>) (append_to i (op_text p) w)) a path (M(fst p := snd p))"
proof -
  obtain m ops where s: "ctx = \<lparr>filepath = path, file_handle = KOpen i, head = m\<rparr>" "names w path = Some i"
      "contents w i = log_text ops" "list_all good_op ops" "kv_map ops = M" "kv_get_mem m = M" "list_all good_op m" "distinct (map fst m)"
      "files_ok w" "length path \<le> 255"
    using assms(1,3,4) by (auto simp: kv_serves_def)
  have "list_all good_op (kv_set_mem (fst p) (snd p) m)" using kv_set_mem_set [of "fst p" "snd p" m] s(7) assms(2) by (auto simp: list_all_iff)
  moreover have "contents w i @ op_text p = log_text (ops @ [p])" "list_all good_op (ops @ [p])" "kv_map (ops @ [p]) = M(fst p := snd p)"
    using s(3,4,5) assms(2) by (simp_all add: kv_map_def case_prod_unfold)
  ultimately show ?thesis
    using s kv_set_mem_distinct [OF s(8)]
    by (auto simp: kv_serves_def update_context_def append_to_def files_ok_def laws intro!: exI [of _ "ops @ [p]"])
qed

lemma request_appends:
  assumes "kv_serves w a path M" "good_request r" "r \<noteq> KCompact"
  obtains p w' where "good_op p" "kv_do host a r w = Got w'" "kv_serves w' a path (kv_spec r M)" "kv_spec r M = M(fst p := snd p)"
    "file_text w' path = file_text w path @ op_text p"
proof -
  obtain ctx i where c: "contexts w a = Some ctx" "file_handle ctx = KOpen i" "names w path = Some i" using assms(1) by (auto simp: kv_serves_def)
  obtain p where p: "good_op p" "kv_spec r M = M(fst p := snd p)"
      "kv_do host a r w = Got (update_context a (ctx\<lparr>head := kv_set_mem (fst p) (snd p) (head ctx)\<rparr>) (append_to i (op_text p) w))"
  proof (cases r)
    case (KPut k t)
    then show ?thesis using assms(2) c that [of "(k, Some t)"]
      by (simp add: good_op_def good_key_def good_val_def kv_do_def kv_store_def to_stream_def op_text_def c_text_plain)
  next
    case (KDel k)
    then show ?thesis using assms(2) c that [of "(k, None)"]
      by (simp add: good_op_def good_key_def kv_do_def kv_erase_def to_stream_def op_text_def c_text_plain)
  qed (use assms(3) in simp)
  show ?thesis using that [OF p(1,3) _ p(2)] serves_append [OF assms(1) p(1) c(1,2)] p(2) c(3)
    by (simp add: file_text_def update_context_def append_to_def)
qed

text \<open>Compaction.\<close>

lemma compacted_log: "compacted m = log_text (filter (\<lambda>p. snd p \<noteq> None) m)"
  by (induction m) (auto simp: compacted_def op_text_def split: option.splits)

lemma compacted_map:
  assumes "distinct (map fst m)"
  shows "kv_map (filter (\<lambda>p. snd p \<noteq> None) m) = kv_get_mem m"
proof -
  have "fold (\<lambda>(k, v) m. m(k := v)) (filter (\<lambda>p. snd p \<noteq> None) m) f k = (if kv_get_mem m k = None then f k else kv_get_mem m k)" for f k
    using assms
  proof (induction m arbitrary: f)
    case (Cons p m)
    have "p = (k, v) \<Longrightarrow> kv_get_mem m k = None" for v using Cons.prems
      by (induction m) auto
    then show ?case using Cons by (cases p) auto
  qed simp
  then show ?thesis by (auto simp: kv_map_def fun_eq_iff)
qed

lemma files_ok_contents [simp]: "files_ok (w\<lparr>contents := c\<rparr>) = files_ok w" "files_ok (w\<lparr>contexts := x\<rparr>) = files_ok w"
  by (simp_all add: files_ok_def)

lemma open_append_laws:
  assumes "files_ok w" "open_append path w = (i, w')"
  shows "names w' = (names w)(path \<mapsto> i)" "contexts w' = contexts w" "contents w' i = file_text w path" "files_ok w'"
proof -
  show l: "names w' = (names w)(path \<mapsto> i)" "contexts w' = contexts w" "contents w' i = file_text w path"
    using assms(2) by (auto simp: open_append_def file_text_def split: option.splits)
  have n: "next_file w \<le> next_file w'" "i < next_file w'" "names w path = Some i \<or> i = next_file w"
    using assms by (auto simp: open_append_def files_ok_def split: option.splits)
  have less: "\<And>p j. names w p = Some j \<Longrightarrow> j < next_file w" using assms(1) by (auto simp: files_ok_def)
  have other: "q = path" if "names w q = Some i" for q
    using n(3) less [OF that] that assms(1) unfolding files_ok_def by auto
  show "files_ok w'" unfolding files_ok_def l(1)
  proof (intro conjI allI impI)
    fix p q j assume "((names w)(path \<mapsto> i)) p = Some j" "((names w)(path \<mapsto> i)) q = Some j"
    then show "p = q" using other assms(1) unfolding files_ok_def by (metis fun_upd_apply option.inject)
  next
    fix p j assume "((names w)(path \<mapsto> i)) p = Some j"
    then show "j < next_file w'" using n less by (metis fun_upd_apply option.inject order_less_le_trans)
  qed
qed

lemma replace_file:
  assumes "files_ok w" "host_ok host path"
  obtains t w1 w2 where "open_create (path @ ''.tmp'') w = (t, w1)"
    "rename_file host (path @ ''.tmp'') path (append_to t s w1) = w2" "files_ok w2" "names w2 path = Some t" "contents w2 t = s" "contexts w2 = contexts w"
proof -
  obtain t w1 where t: "open_create (path @ ''.tmp'') w = (t, w1)" by force
  obtain w0 where w0: "open_append (path @ ''.tmp'') w = (t, w0)" "w1 = w0\<lparr>contents := (contents w0)(t := [])\<rparr>"
    using t by (auto simp: open_create_def split: prod.splits)
  note l = open_append_laws [OF assms(1) w0(1)]
  have w1: "names w1 = (names w)(path @ ''.tmp'' \<mapsto> t)" "contents w1 t = []" "contexts w1 = contexts w" "files_ok w1"
    using l(1,2,4) by (simp_all add: w0(2) files_ok_contents)
  let ?w = "rename_file host (path @ ''.tmp'') path (append_to t s w1)"
  have w2: "names ?w = (names w1)(path \<mapsto> t, path @ ''.tmp'' := None)" "contents ?w t = s" "contexts ?w = contexts w" "next_file ?w = next_file w1"
    using assms(2) w1 by (auto simp: rename_file_def append_to_def host_ok_def)
  have mine: "p = path @ ''.tmp''" if "names w1 p = Some t" for p using that w1(1,4) unfolding files_ok_def by (metis fun_upd_same)
  have less: "t < next_file w1" using w1(1,4) unfolding files_ok_def by (metis fun_upd_same)
  have "files_ok ?w" unfolding files_ok_def w2(1,4)
  proof (intro conjI allI impI)
    fix p q j assume "((names w1)(path \<mapsto> t, path @ ''.tmp'' := None)) p = Some j" "((names w1)(path \<mapsto> t, path @ ''.tmp'' := None)) q = Some j"
    then show "p = q" using mine w1(4) unfolding files_ok_def by (simp split: if_splits)
  next
    fix p j assume "((names w1)(path \<mapsto> t, path @ ''.tmp'' := None)) p = Some j"
    then show "j < next_file w1" using less w1(4) unfolding files_ok_def by (simp split: if_splits)
  qed
  then show ?thesis using that [OF t refl] w2 by simp
qed

lemma compact_serves:
  assumes "kv_serves w a path M" "host_ok host path"
  obtains w' where "kv_do host a KCompact w = Got w'" "kv_serves w' a path M"
proof -
  obtain i m where c: "contexts w a = Some \<lparr>filepath = path, file_handle = KOpen i, head = m\<rparr>" "names w path = Some i"
      "kv_get_mem m = M" "list_all good_op m" "distinct (map fst m)" "files_ok w" "length path \<le> 255"
    using assms(1) by (auto simp: kv_serves_def)
  obtain t w1 w2 where t: "open_create (path @ ''.tmp'') w = (t, w1)"
      "rename_file host (path @ ''.tmp'') path (append_to t (compacted m) w1) = w2" "files_ok w2" "names w2 path = Some t"
      "contents w2 t = compacted m" "contexts w2 = contexts w"
    by (rule replace_file [OF c(6) assms(2)])
  let ?w = "update_context a \<lparr>filepath = path, file_handle = KOpen t, head = m\<rparr> w2"
  have "kv_do host a KCompact w = Got ?w"
    using assms(2) c(1,7) t(1,2,4) by (simp add: kv_do_def kv_rewrite_def host_ok_def open_append_def)
  moreover have "kv_serves ?w a path M"
    using c t(3-5) compacted_map [OF c(5)]
    by (auto simp: kv_serves_def update_context_def files_ok_def compacted_log list_all_iff intro!: exI [of _ "filter (\<lambda>p. snd p \<noteq> None) m"])
  ultimately show ?thesis using that by blast
qed

lemma request_serves:
  assumes "kv_serves w a path M" "host_ok host path" "good_request r"
  obtains w' where "kv_do host a r w = Got w'" "kv_serves w' a path (kv_spec r M)"
proof (cases "r = KCompact")
  case True
  then show ?thesis using compact_serves [OF assms(1,2)] that by (metis kv_spec.simps(3))
next
  case False
  show ?thesis by (rule request_appends [OF assms(1,3) False, of host]) (rule that)
qed

lemma requests_serve:
  assumes "kv_serves w a path M" "host_ok host path" "list_all good_request rs"
  obtains w' where "kv_dos host a rs w = Got w'" "kv_serves w' a path (fold kv_spec rs M)"
  using assms(1,3)
proof (induction rs arbitrary: w M thesis)
  case (Cons r rs)
  obtain w1 where w1: "kv_do host a r w = Got w1" "kv_serves w1 a path (kv_spec r M)"
    using request_serves [OF Cons.prems(2) assms(2), of r] Cons.prems(3) by auto
  show ?case by (rule Cons.IH [OF _ w1(2)]) (use Cons.prems w1(1) in auto)
qed auto

lemma serves_file: "kv_serves w a path M \<Longrightarrow> \<exists>ops. file_text w path = log_text ops \<and> list_all good_op ops \<and> kv_map ops = M"
  by (auto simp: kv_serves_def file_text_def)

lemma serves_reload:
  assumes "kv_serves w a path M"
  obtains m where "kv_load (file_text w path) [] = Got m" "kv_get_mem m = M" "distinct (map fst m)" "list_all good_op m"
proof -
  obtain ops where o: "file_text w path = log_text ops" "list_all good_op ops" "kv_map ops = M" using serves_file [OF assms] by blast
  show ?thesis by (rule load_log [OF o(2), of "[]"]) (use that o in \<open>auto simp: unspaced_def kv_load.simps [of "[]"]\<close>)
qed



section \<open>Storing documents\<close>

lemma text_unspaced: "json_text j \<noteq> []" "\<not> is_space (hd (json_text j))"
proof -
  have "json_text j \<noteq> [] \<and> \<not> is_space (hd (json_text j))"
  proof (cases j)
    case (JNum i)
    then show ?thesis using show_int_start [of i] digit_not by (auto simp: is_space_def char_in_def)
  qed (auto simp: is_space_def char_in_def DQUOTE_def)
  then show "json_text j \<noteq> []" "\<not> is_space (hd (json_text j))" by auto
qed

lemma set_join_with: "set (join_with sep ss) \<subseteq> set sep \<union> \<Union> (set ` set ss)"
  by (induction sep ss rule: join_with.induct) auto

lemma NUL_not_shown: "NUL \<notin> set (show_int i)"
proof
  assume "NUL \<in> set (show_int i)"
  then show False using char_kinds [OF show_int_chars] by blast
qed

lemma text_no_NUL: "plain_json j \<Longrightarrow> NUL \<notin> set (json_text j)"
proof (induction j)
  case (JArr js)
  have "NUL \<notin> set (join_with '','' (map json_text js))"
    using set_join_with [of "'',''" "map json_text js"] JArr by (auto simp: list_all_iff NUL_def)
  then show ?case by (simp add: NUL_def)
next
  case (JObj kvs)
  let ?f = "\<lambda>(k, j). DQUOTE # k @ DQUOTE # '':'' @ json_text j"
  have "NUL \<notin> set (?f p)" if "p \<in> set kvs" for p
    using JObj(1) [OF that, of "snd p"] JObj(2) that by (cases p) (auto simp: list_all_iff plain_def char_defs snds.simps)
  then have "NUL \<notin> set (join_with '','' (map ?f kvs))"
    using set_join_with [of "'',''" "map ?f kvs"] by (fastforce simp: NUL_def)
  then show ?case by (simp add: NUL_def)
qed (use NUL_not_shown in \<open>auto simp: plain_def char_defs\<close>)

lemma text_good: "plain_json j \<Longrightarrow> length (json_text j) < 2 ^ 31 - 1 \<Longrightarrow> good_val (json_text j)"
  using text_unspaced text_no_NUL by (simp add: good_val_def)

text \<open>An object that holds a context.\<close>

definition kv_object :: "heap \<Rightarrow> Value \<Rightarrow> u64 \<Rightarrow> bool" where
  "kv_object h kv a \<longleftrightarrow> (\<exists>ps c v. deref h kv = Some (OObject ps c) \<and> props_ok h ps \<and> table h ps ''_ctx'' = Some v \<and>
     deref h v = Some OBufferData \<and> get_pointer v = a)"

lemma with_context_ok:
  assumes "roomy h (Suc m)" "kv_object h kv a" "contexts w a = Some ctx"
  obtains h' where "with_context pr kv h w f = f a ctx h'" "roomy h' m" "extends h h'"
proof -
  obtain ps c v where o: "deref h kv = Some (OObject ps c)" "props_ok h ps" "table h ps ''_ctx'' = Some v" "deref h v = Some OBufferData"
      "get_pointer v = a"
    using assms(2) by (auto simp: kv_object_def)
  obtain key h' where k: "create_string ''_ctx'' h = (key, h')" by force
  note c = roomy_string [OF assms(1) k]
  have e: "extends h h'" "str_of h' key = Some ''_ctx''" "IS_POINTER key" "roomy h' m"
    using c by (auto simp: str_deref deref_def split: if_splits)
  have d: "deref h' kv = Some (OObject ps c)" "deref h' v = Some OBufferData" using e(1) o by (auto simp: extends_def)
  have "own_lookup h' ps key = Some (Some v)" using own_lookup_table props_ok_extends [OF e(1) o(2)] e(2) o(3) by simp
  then have "object_get pr kv key h' = Some (v, h')" using object_get_own [OF d(1) e(3)] d(2) by (simp add: plain_value_def)
  moreover have "IS_POINTER v" using o(4) by (simp add: deref_def split: if_splits)
  ultimately have "with_context pr kv h w f = f a ctx h'" using k o(5) assms(3) by (simp add: with_context_def)
  then show ?thesis using that e by blast
qed

lemma kv_set_ok:
  assumes "kv_serves w a path M" "kv_object h kv a" "str_of h key = Some k" "good_key k"
    "plain_json j" "rep int_value h j v" "length (json_text j) < 2 ^ 31 - 1" "roomy h (Suc (Suc m))" "json_depth j \<le> d"
  obtains h' w' where "kv_set pr d [kv, key, v] h w = Got (Returns VAL_TRUE, h', w')" "kv_serves w' a path (M(k := Some (json_text j)))"
    "roomy h' m" "extends h h'"
proof -
  obtain ctx where ctx: "contexts w a = Some ctx" using assms(1) by (auto simp: kv_serves_def)
  have ptr: "IS_POINTER kv" "IS_POINTER key" using assms(2,3) by (auto simp: kv_object_def str_deref deref_def split: if_splits)
  have req: "good_request (KPut k (json_text j))" using assms(4) text_good [OF assms(5,7)] by simp
  obtain w' where w': "kv_do undefined a (KPut k (json_text j)) w = Got w'" "kv_serves w' a path (kv_spec (KPut k (json_text j)) M)"
    by (rule request_appends [OF assms(1) req, of undefined]) simp_all
  define f where "f = (\<lambda>a ctx h. and_then (given (js_json_stringify d [v] h)) (\<lambda>(sv, h).
      if \<not> IS_POINTER sv then Got (Returns VAL_UNDEFINED, h, w)
      else and_then (given (str_of h key)) (\<lambda>key. and_then (given (str_of h sv)) (\<lambda>val.
        and_then (kv_store a ctx key val w) (\<lambda>w. Got (Returns VAL_TRUE, h, w))))))"
  obtain h1 where h1: "with_context pr kv h w f = f a ctx h1" "roomy h1 (Suc m)" "extends h h1" by (rule with_context_ok [OF assms(8,2) ctx])
  obtain sv h2 where sv: "create_string (json_text j) h1 = (sv, h2)" by force
  note c = roomy_string [OF h1(2) sv]
  have "js_json_stringify d [v] h1 = Some (sv, h2)"
    using stringify_ok [OF assms(5) rep_extends [OF assms(6) h1(3)] assms(9)] sv by (simp add: js_json_stringify_def)
  moreover have "str_of h2 key = Some k" using extends_str [OF extends_trans [OF h1(3) c(3)] assms(3)] .
  moreover have "IS_POINTER sv" using c(2) by (simp add: str_deref deref_def split: if_splits)
  ultimately have "f a ctx h1 = Got (Returns VAL_TRUE, h2, w')" using c(2) w'(1) ctx by (simp add: f_def kv_do_def)
  then have "kv_set pr d [kv, key, v] h w = Got (Returns VAL_TRUE, h2, w')" using ptr h1(1) by (simp add: kv_set_def f_def cong: if_cong)
  then show ?thesis using that w'(2) c(1) extends_trans [OF h1(3) c(3)] by simp
qed

lemma kv_open_ok:
  assumes "kv_serves w a path M" "may_append host path" "str_of h pathv = Some path" "NUL \<notin> set path" "roomy h (Suc (Suc (Suc m)))"
  obtains kv h' w' b ctx where "kv_open host [pathv] h w = Got (Returns kv, h', w')" "roomy h' m" "extends h h'" "kv_object h' kv b"
    "contexts w' b = Some ctx" "kv_get_mem (head ctx) = M"
proof -
  have path: "take 255 (c_text path) = path" using assms(1,4) by (simp add: kv_serves_def c_text_plain)
  have ptr: "IS_POINTER pathv" using assms(3) by (simp add: str_deref deref_def split: if_splits)
  obtain i where i: "names w path = Some i" using assms(1) by (auto simp: kv_serves_def)
  obtain mem where mem: "kv_load (contents w i) [] = Got mem" "kv_get_mem mem = M"
    by (rule serves_reload [OF assms(1)]) (use that i in \<open>simp add: file_text_def\<close>)
  obtain cv h1 where cv: "heap_alloc OBufferData h = (cv, h1)" by force
  note a1 = roomy_alloc [OF assms(5) cv]
  obtain kv h2 where kv: "create_object h1 = (kv, h2)" by force
  note a2 = roomy_alloc [OF a1(1) kv [unfolded create_object_def]]
  obtain key h3 where key: "create_string ''_ctx'' h2 = (key, h3)" by force
  note a3 = roomy_string [OF a2(1) key]
  let ?w = "w\<lparr>contexts := (contexts w)(get_pointer cv \<mapsto> \<lparr>filepath = path, file_handle = KOpen i, head = mem\<rparr>)\<rparr>"
  have d: "deref h3 kv = Some (OObject [] 4)" "deref h3 cv = Some OBufferData" using a1(3) a2(3,4) a3(3) by (auto simp: extends_def)
  have kp: "IS_POINTER key" using a3(2) by (simp add: str_deref deref_def split: if_splits)
  obtain ps c where ps: "props_set h3 [] 4 key cv = (ps, c)" by force
  let ?h = "put_obj kv (OObject ps c) h3"
  have set: "object_set kv key cv h3 = Some ?h" using object_set_object [OF d(1) kp] ps by simp
  have st: "str_of ?h = str_of h3" using put_obj_str [OF d(1)] by (simp add: fun_eq_iff)
  have "props_ok h3 []" by (simp add: props_ok_def string_keys_def)
  note p = props_set_table [OF this _ a3(2) kp ps, simplified]
  have "props_ok ?h ps" "table ?h ps ''_ctx'' = Some cv"
    using p(1,2) by (simp_all add: props_ok_def string_keys_def table_def st)
  moreover have dd: "deref ?h kv = Some (OObject ps c)" "deref ?h cv = Some OBufferData"
    using d by (auto simp: deref_def put_obj_def split: if_splits)
  ultimately have obj: "kv_object ?h kv (get_pointer cv)" by (auto simp: kv_object_def)
  have "extends h ?h" unfolding extends_def
  proof (intro allI impI)
    fix v ob assume v: "deref h v = Some ob"
    then have v1: "deref h1 v = Some ob" "deref h3 v = Some ob" using a1(4) a2(4) a3(3) by (auto simp: extends_def)
    then have "\<not> (IS_POINTER v \<and> get_pointer v = get_pointer kv)" using a2(5,6) by (auto simp: deref_def split: if_splits)
    then show "deref ?h v = Some ob" using v1(2) put_obj_deref [OF d(1), of "OObject ps c" v] by auto
  qed
  moreover have "kv_open host [pathv] h w = Got (Returns kv, ?h, ?w)"
    using ptr assms(2,3) path cv i mem(1) kv key set by (simp add: kv_open_def open_append_def)
  moreover have "roomy ?h m" by (rule roomy_put_obj [OF a3(1) d(1)]) auto
  ultimately show ?thesis using that [of kv ?h ?w "get_pointer cv"] obj mem(2) by simp
qed


section \<open>Examples\<close>

definition demo_host :: kv_host where
  "demo_host = \<lparr>may_append = (\<lambda>_. True), may_create = (\<lambda>_. True), may_rename = (\<lambda>_ _. True)\<rparr>"

definition demo_world :: kv_world where
  "demo_world = \<lparr>contexts = [16 \<mapsto> \<lparr>filepath = ''kv'', file_handle = KOpen 0, head = []\<rparr>], names = [''kv'' \<mapsto> 0],
     contents = (\<lambda>_. []), next_file = 1\<rparr>"

lemma demo_serves: "kv_serves demo_world 16 ''kv'' (\<lambda>_. None)" "host_ok demo_host ''kv''"
  by (auto simp: kv_serves_def demo_world_def files_ok_def fun_eq_iff host_ok_def demo_host_def kv_map_def intro: exI [of _ "[]"] split: if_splits)

lemma demo_good: "good_key ''a''" "good_key ''b''" "good_key ''k''" "good_val ''1''" "good_val ''2''"
  by (simp_all add: good_key_def good_val_def is_space_def char_in_def NUL_def)



definition kv_heap :: heap where
  "kv_heap = \<lparr>objs = [8 \<mapsto> OString ''_ctx'', 16 \<mapsto> OBufferData, 24 \<mapsto> OObject [(make_pointer 8, make_pointer 16)] 4,
     32 \<mapsto> OString ''k'', 40 \<mapsto> OString ''kv''], brk = 48, interned = [], next_symbol = 1\<rparr>"

lemma kv_heap_laws:
  "str_of kv_heap (make_pointer 8) = Some ''_ctx''" "str_of kv_heap (make_pointer 32) = Some ''k''" "str_of kv_heap (make_pointer 40) = Some ''kv''"
  "kv_object kv_heap (make_pointer 24) 16" "roomy kv_heap (7 + json_cells (JNum 5))"
proof -
  show s: "str_of kv_heap (make_pointer 8) = Some ''_ctx''" "str_of kv_heap (make_pointer 32) = Some ''k''" "str_of kv_heap (make_pointer 40) = Some ''kv''"
    by (simp_all add: str_of_def deref_make_pointer kv_heap_def del: get_make)
  have "deref kv_heap (make_pointer 24) = Some (OObject [(make_pointer 8, make_pointer 16)] 4)" "deref kv_heap (make_pointer 16) = Some OBufferData"
    by (simp_all add: deref_make_pointer kv_heap_def del: get_make)
  then show "kv_object kv_heap (make_pointer 24) 16" using s(1) get_make_pointer [of 16]
    by (auto simp: kv_object_def props_ok_def string_keys_def table_def simp del: get_make)
  show "roomy kv_heap (7 + json_cells (JNum 5))" by (auto simp: roomy_def room_def heap_ok_def kv_heap_def split: if_splits)
qed


text \<open>
  What the log does not survive: a key that starts with a blank comes back as another key, and the first record appended after a crash is
  swallowed by the one that the crash cut off.
\<close>

lemma kv_log_damage:
  "kv_load (op_text ('' a'', Some ''1'')) [] = Got [(''a1'', Some [NL])]"
  "kv_load (take 9 (op_text (''a'', Some ''123'')) @ op_text (''b'', Some ''7'')) [] = Got [(''a'', Some ''12S'')]"
  by code_simp+

end
