(* ===== verification/VFS.thy ===== *)
theory VFS
  imports String_Builtins
begin

text \<open>
  The virtual file system of \<open>src/src/vfs_module.c\<close>: the files in memory under \<open>/tmp\<close>, \<open>/proc\<close> and \<open>/sys\<close>, the devices, the translation of
  paths to disks and overlays, and the routing of every file operation to one of these or to the operating
  system. The operating system's calls are parameters on a state of their own.

  Sizes and offsets are 64-bit words, file descriptors 32-bit words. The bytes of a file in memory are those of its block, with
  those that nothing has written marked by \<open>None\<close>. A \<open>None\<close> result is a read or write outside a block, or a loop that never ends.
\<close>

section \<open>State\<close>

definition MAX_TMPFS_FILES :: nat where "MAX_TMPFS_FILES = 256"
definition MAX_TMPFS_FDS :: nat where "MAX_TMPFS_FDS = 512"
definition VFS_FD_VIRTUAL_MASK :: u32 where "VFS_FD_VIRTUAL_MASK = 0x40000000"
definition VFS_FD_TMPFS_MASK :: u32 where "VFS_FD_TMPFS_MASK = 0x20000000"
definition MAX_DISKS :: nat where "MAX_DISKS = 16"
definition MAX_DISK_NAME :: nat where "MAX_DISK_NAME = 64"

definition VFS_FD_NULL :: u32 where "VFS_FD_NULL = VFS_FD_VIRTUAL_MASK OR 1"
definition VFS_FD_ZERO :: u32 where "VFS_FD_ZERO = VFS_FD_VIRTUAL_MASK OR 2"
definition VFS_FD_STDOUT :: u32 where "VFS_FD_STDOUT = VFS_FD_VIRTUAL_MASK OR 3"
definition VFS_FD_STDERR :: u32 where "VFS_FD_STDERR = VFS_FD_VIRTUAL_MASK OR 4"
definition VFS_FD_DSP :: u32 where "VFS_FD_DSP = VFS_FD_VIRTUAL_MASK OR 5"
definition VFS_FD_RANDOM :: u32 where "VFS_FD_RANDOM = VFS_FD_VIRTUAL_MASK OR 6"
definition VFS_FD_STDIN :: u32 where "VFS_FD_STDIN = VFS_FD_VIRTUAL_MASK OR 7"
definition VFS_FD_TTY :: u32 where "VFS_FD_TTY = VFS_FD_VIRTUAL_MASK OR 8"

type_synonym bytes = "u8 option list"

record TmpfsFile =
  f_path :: string
  f_data :: bytes
  f_size :: u64
  f_cap :: u64
  f_used :: bool

record TmpfsFd =
  file_idx :: nat
  fd_offset :: u64
  fd_used :: bool

record tmpfs =
  tmpfs_files :: "TmpfsFile list"
  tmpfs_fds :: "TmpfsFd list"

text \<open>The bits of the flags of \<open>open\<close> that are looked at, and the directions of a seek.\<close>

record open_flags =
  O_CREAT :: bool
  O_TRUNC :: bool
  O_APPEND :: bool

datatype whence = SEEK_SET | SEEK_CUR | SEEK_END | Other_whence

section \<open>Files in memory\<close>

fun find_index :: "('a \<Rightarrow> bool) \<Rightarrow> 'a list \<Rightarrow> nat option" where
  "find_index P [] = None"
| "find_index P (x # xs) = (if P x then Some 0 else map_option Suc (find_index P xs))"

definition find_file :: "string \<Rightarrow> tmpfs \<Rightarrow> nat option" where
  "find_file path s = find_index (\<lambda>f. f_used f \<and> f_path f = path) (tmpfs_files s)"

definition update_file :: "nat \<Rightarrow> (TmpfsFile \<Rightarrow> TmpfsFile) \<Rightarrow> tmpfs \<Rightarrow> tmpfs" where
  "update_file i g s = s\<lparr>tmpfs_files := (tmpfs_files s)[i := g (tmpfs_files s ! i)]\<rparr>"

definition update_fd :: "nat \<Rightarrow> (TmpfsFd \<Rightarrow> TmpfsFd) \<Rightarrow> tmpfs \<Rightarrow> tmpfs" where
  "update_fd i g s = s\<lparr>tmpfs_fds := (tmpfs_fds s)[i := g (tmpfs_fds s ! i)]\<rparr>"

text \<open>The file that a path names, made or cut to nothing as the flags say.\<close>

definition open_file :: "string \<Rightarrow> open_flags \<Rightarrow> tmpfs \<Rightarrow> (nat \<times> tmpfs) option" where
  "open_file path fl s =
     (case find_file path s of
        Some i \<Rightarrow> Some (i, if O_TRUNC fl then update_file i (\<lambda>f. f\<lparr>f_size := 0\<rparr>) s else s)
      | None \<Rightarrow>
          if \<not> O_CREAT fl then None
          else map_option (\<lambda>i. (i, update_file i (\<lambda>f. \<lparr>f_path = take 255 path, f_data = [], f_size = 0, f_cap = 0, f_used = True\<rparr>) s))
                 (find_index (\<lambda>f. \<not> f_used f) (tmpfs_files s)))"

definition tmpfs_open :: "string \<Rightarrow> open_flags \<Rightarrow> tmpfs \<Rightarrow> u32 \<times> tmpfs" where
  "tmpfs_open path fl s =
     (case open_file path fl s of
        None \<Rightarrow> (- 1, s)
      | Some (i, s) \<Rightarrow>
          (case find_index (\<lambda>d. \<not> fd_used d) (tmpfs_fds s) of
             None \<Rightarrow> (- 1, s)
           | Some d \<Rightarrow>
               (VFS_FD_VIRTUAL_MASK OR VFS_FD_TMPFS_MASK OR of_nat d,
                update_fd d (\<lambda>_. \<lparr>file_idx = i, fd_offset = (if O_APPEND fl then f_size (tmpfs_files s ! i) else 0), fd_used = True\<rparr>) s)))"

text \<open>An operation on an open descriptor gets the index of the descriptor and the descriptor; on any other it fails.\<close>

definition on_fd :: "u32 \<Rightarrow> tmpfs \<Rightarrow> 'a \<Rightarrow> (nat \<Rightarrow> TmpfsFd \<Rightarrow> TmpfsFile \<Rightarrow> 'a) \<Rightarrow> 'a" where
  "on_fd i s bad f =
     (if sint i < 0 \<or> sint i \<ge> int MAX_TMPFS_FDS \<or> \<not> fd_used (tmpfs_fds s ! unat i) then bad
      else let d = tmpfs_fds s ! unat i in f (unat i) d (tmpfs_files s ! file_idx d))"

definition tmpfs_read :: "u32 \<Rightarrow> u64 \<Rightarrow> tmpfs \<Rightarrow> ((int \<times> bytes) \<times> tmpfs) option" where
  "tmpfs_read i cnt s =
     on_fd i s (Some ((- 1, []), s)) (\<lambda>n d f.
       if fd_offset d \<ge> f_size f then Some ((0, []), s)
       else let available = f_size f - fd_offset d; to_read = (if cnt < available then cnt else available);
                off = unat (fd_offset d); k = unat to_read
            in if off + k \<le> length (f_data f)
               then Some ((sint to_read, take k (drop off (f_data f))), update_fd n (\<lambda>d. d\<lparr>fd_offset := fd_offset d + to_read\<rparr>) s)
               else None)"

text \<open>\<open>while (new_cap < need) new_cap *= 2\<close>, which never ends once \<open>new_cap\<close> has become zero.\<close>

partial_function (option) grow_cap :: "u64 \<Rightarrow> u64 \<Rightarrow> u64 option" where
  "grow_cap need cap = (if cap < need then grow_cap need (cap * 2) else Some cap)"

text \<open>\<open>alloc\<close> says whether \<open>realloc\<close> finds a block of the size.\<close>

definition ensure_cap :: "(u64 \<Rightarrow> bool) \<Rightarrow> u64 \<Rightarrow> TmpfsFile \<Rightarrow> TmpfsFile option option" where
  "ensure_cap alloc need f =
     (if need > f_cap f
      then map_option (\<lambda>cap.
             if alloc cap then Some (f\<lparr>f_data := take (unat cap) (f_data f) @ replicate (unat cap - length (f_data f)) None, f_cap := cap\<rparr>) else None)
             (grow_cap need (if f_cap f = 0 then 1024 else f_cap f * 2))
      else Some (Some f))"

definition tmpfs_write :: "(u64 \<Rightarrow> bool) \<Rightarrow> u32 \<Rightarrow> bytes \<Rightarrow> tmpfs \<Rightarrow> (int \<times> tmpfs) option" where
  "tmpfs_write alloc i buf s =
     on_fd i s (Some (- 1, s)) (\<lambda>n d f.
       let cnt = of_nat (length buf); off = fd_offset d; end = off + cnt
       in Option.bind (ensure_cap alloc end f) (\<lambda>r. case r of
            None \<Rightarrow> Some (- 1, s)
          | Some f \<Rightarrow>
              if unat off + length buf \<le> length (f_data f)
              then let f = f\<lparr>f_data := take (unat off) (f_data f) @ buf @ drop (unat off + length buf) (f_data f),
                             f_size := (if end > f_size f then end else f_size f)\<rparr>
                   in Some (int (length buf), update_fd n (\<lambda>d. d\<lparr>fd_offset := end\<rparr>) (update_file (file_idx d) (\<lambda>_. f) s))
              else None))"

definition tmpfs_lseek :: "u32 \<Rightarrow> u64 \<Rightarrow> whence \<Rightarrow> tmpfs \<Rightarrow> int \<times> tmpfs" where
  "tmpfs_lseek i offset wh s =
     on_fd i s (- 1, s) (\<lambda>n d f.
       let to = (\<lambda>off. (sint off, update_fd n (\<lambda>d. d\<lparr>fd_offset := off\<rparr>) s))
       in case wh of
            SEEK_SET \<Rightarrow> to offset
          | SEEK_CUR \<Rightarrow> to (fd_offset d + offset)
          | SEEK_END \<Rightarrow> to (f_size f + offset)
          | Other_whence \<Rightarrow> (- 1, s))"

definition tmpfs_close :: "u32 \<Rightarrow> tmpfs \<Rightarrow> int \<times> tmpfs" where
  "tmpfs_close i s = on_fd i s (- 1, s) (\<lambda>n d f. (0, update_fd n (\<lambda>d. d\<lparr>fd_used := False\<rparr>) s))"

text \<open>The branch of \<open>vfs_unlink\<close> for files in memory. The capacity stays.\<close>

definition tmpfs_unlink :: "string \<Rightarrow> tmpfs \<Rightarrow> int \<times> tmpfs" where
  "tmpfs_unlink path s =
     (case find_file path s of
        None \<Rightarrow> (- 1, s)
      | Some i \<Rightarrow> (0, update_file i (\<lambda>f. f\<lparr>f_used := False, f_data := [], f_size := 0\<rparr>) s))"

section \<open>Disks and paths\<close>

datatype DiskMode = DISK_READONLY | DISK_WRITABLE

record VFSDisk =
  d_name :: string
  d_mode :: DiskMode

record VFSOverlay =
  host_path :: string
  vfs_path :: string

definition starts_with :: "string \<Rightarrow> string \<Rightarrow> bool" where
  "starts_with w s \<longleftrightarrow> take (length w) s = w"

definition vfs_is_vfs_path :: "string \<Rightarrow> bool" where
  "vfs_is_vfs_path path \<longleftrightarrow> starts_with ''/disk/'' path"

definition vfs_mount_overlay :: "string \<Rightarrow> string \<Rightarrow> VFSOverlay list \<Rightarrow> int \<times> VFSOverlay list" where
  "vfs_mount_overlay hp vp ovs =
     (if length ovs \<ge> 16 then (- 1, ovs) else (0, ovs @ [\<lparr>host_path = take 255 hp, vfs_path = take 255 vp\<rparr>]))"

definition disk_dir :: "VFSDisk \<Rightarrow> string" where
  "disk_dir d =
     (if d_mode d = DISK_READONLY then ''/zip/'' @ d_name d
      else if d_name d = ''packages'' then ''./packages'' else ''./.curica_disks/'' @ d_name d)"

text \<open>\<open>n\<close> is the size of the buffer.\<close>

definition vfs_resolve_path :: "VFSOverlay list \<Rightarrow> VFSDisk list \<Rightarrow> nat \<Rightarrow> string \<Rightarrow> string" where
  "vfs_resolve_path ovs disks n path =
     take (n - 1)
       (case find (\<lambda>ov. starts_with (vfs_path ov) path) ovs of
          Some ov \<Rightarrow> host_path ov @ drop (length (vfs_path ov)) path
        | None \<Rightarrow>
            if \<not> vfs_is_vfs_path path then path
            else let name = takeWhile (\<lambda>c. c \<noteq> CHR ''/'') (drop 6 path); rest = drop (6 + length name) path
                 in (case find (\<lambda>d. d_name d = take (MAX_DISK_NAME - 1) name) disks of
                       None \<Rightarrow> path
                     | Some d \<Rightarrow> disk_dir d @ rest))"

text \<open>The directories that \<open>create_dir_recursive\<close> makes, in order.\<close>

definition create_dir_recursive :: "string \<Rightarrow> string list" where
  "create_dir_recursive dir =
     (let tmp = take 1023 dir
      in if tmp = [] then []
         else let tmp = (if last tmp = CHR ''/'' then butlast tmp else tmp)
              in map (\<lambda>i. take i tmp) (filter (\<lambda>i. tmp ! i = CHR ''/'') [1..<length tmp]) @ [tmp])"

text \<open>\<open>fgets\<close> with a buffer of \<open>n + 1\<close> bytes: a line with its end, or \<open>n\<close> bytes of a longer one.\<close>

function fgets_lines :: "nat \<Rightarrow> string \<Rightarrow> string list" where
  "fgets_lines n s =
     (if s = [] \<or> n = 0 then []
      else let w = takeWhile (\<lambda>c. c \<noteq> NL) s; k = min n (length w + 1) in take k s # fgets_lines n (drop k s))"
  by pat_completeness auto
termination
  by (relation "measure (length \<circ> snd)") auto

definition fhs_dirs :: "string list" where
  "fhs_dirs = [''/bin'', ''/usr'', ''/etc'', ''/var'', ''/tmp'', ''/lib'', ''/home'', ''/home/user'', ''/dev'', ''/proc'', ''/sys'']"

text \<open>One line of the configuration: the disk it adds, and the directories made for it.\<close>

definition disk_line :: "string \<Rightarrow> (VFSDisk \<times> string list) option" where
  "disk_line raw =
     (let line = takeWhile (\<lambda>c. c \<noteq> CR \<and> c \<noteq> NL) (c_text raw); name = takeWhile (\<lambda>c. c \<noteq> CHR '':'') line
      in if line = [] \<or> length name = length line then None
         else if drop (length name + 1) line = ''rw''
         then let dir = take 255 (if name = ''packages'' then ''./packages'' else ''./.curica_disks/'' @ name)
              in Some (\<lparr>d_name = take (MAX_DISK_NAME - 1) name, d_mode = DISK_WRITABLE\<rparr>,
                       create_dir_recursive dir @
                       (if name = ''root'' then concat (map (\<lambda>d. create_dir_recursive (take 511 (dir @ d))) fhs_dirs) else []))
         else Some (\<lparr>d_name = take (MAX_DISK_NAME - 1) name, d_mode = DISK_READONLY\<rparr>, []))"

text \<open>\<open>vfs_init\<close> on the text of the configuration file, if there is one.\<close>

definition vfs_init :: "string option \<Rightarrow> VFSDisk list \<times> string list" where
  "vfs_init config =
     (case config of
        None \<Rightarrow> ([], [])
      | Some text \<Rightarrow>
          let ds = take MAX_DISKS (List.map_filter disk_line (fgets_lines 255 text)) in (map fst ds, concat (map snd ds)))"

section \<open>Routing\<close>

text \<open>The calls of the operating system, on a state of its own.\<close>

record vstat =
  st_mode :: u32
  st_size :: u64
  st_nlink :: u64

record 'w os =
  os_open :: "string \<Rightarrow> open_flags \<Rightarrow> u32 \<Rightarrow> 'w \<Rightarrow> u32 \<times> 'w"
  os_read :: "u32 \<Rightarrow> u64 \<Rightarrow> 'w \<Rightarrow> (int \<times> bytes) \<times> 'w"
  os_write :: "u32 \<Rightarrow> bytes \<Rightarrow> 'w \<Rightarrow> int \<times> 'w"
  os_lseek :: "u32 \<Rightarrow> u64 \<Rightarrow> whence \<Rightarrow> 'w \<Rightarrow> int \<times> 'w"
  os_close :: "u32 \<Rightarrow> 'w \<Rightarrow> int \<times> 'w"
  os_pread :: "u32 \<Rightarrow> u64 \<Rightarrow> u64 \<Rightarrow> 'w \<Rightarrow> (int \<times> bytes) \<times> 'w"
  os_pwrite :: "u32 \<Rightarrow> bytes \<Rightarrow> u64 \<Rightarrow> 'w \<Rightarrow> int \<times> 'w"
  os_stat :: "string \<Rightarrow> 'w \<Rightarrow> (int \<times> vstat) \<times> 'w"
  os_lstat :: "string \<Rightarrow> 'w \<Rightarrow> (int \<times> vstat) \<times> 'w"
  os_fstat :: "u32 \<Rightarrow> 'w \<Rightarrow> (int \<times> vstat) \<times> 'w"
  os_mkdir :: "string \<Rightarrow> u32 \<Rightarrow> 'w \<Rightarrow> int \<times> 'w"
  os_unlink :: "string \<Rightarrow> 'w \<Rightarrow> int \<times> 'w"
  os_rename :: "string \<Rightarrow> string \<Rightarrow> 'w \<Rightarrow> int \<times> 'w"
  os_opendir :: "string \<Rightarrow> 'w \<Rightarrow> u64 \<times> 'w"
  os_rand :: "'w \<Rightarrow> u32 \<times> 'w"
  os_alloc :: "u64 \<Rightarrow> bool"

record 'w vfs =
  vfs_overlays :: "VFSOverlay list"
  vfs_disks :: "VFSDisk list"
  vfs_tmpfs :: tmpfs
  vfs_world :: 'w

definition resolved :: "'w vfs \<Rightarrow> string \<Rightarrow> string" where
  "resolved v path = vfs_resolve_path (vfs_overlays v) (vfs_disks v) 1024 path"

text \<open>A call of the operating system, and an operation on the files in memory.\<close>

definition host_call :: "('w \<Rightarrow> 'a \<times> 'w) \<Rightarrow> 'w vfs \<Rightarrow> 'a \<times> 'w vfs" where
  "host_call f v = (let (r, w) = f (vfs_world v) in (r, v\<lparr>vfs_world := w\<rparr>))"

definition with_tmpfs :: "'w vfs \<Rightarrow> 'a \<times> tmpfs \<Rightarrow> 'a \<times> 'w vfs" where
  "with_tmpfs v p = (fst p, v\<lparr>vfs_tmpfs := snd p\<rparr>)"

definition device :: "string \<Rightarrow> u32 option" where
  "device p = map_of [(''/dev/null'', VFS_FD_NULL), (''/dev/zero'', VFS_FD_ZERO), (''/dev/stdout'', VFS_FD_STDOUT), (''/dev/stderr'', VFS_FD_STDERR),
     (''/dev/dsp'', VFS_FD_DSP), (''/dev/random'', VFS_FD_RANDOM), (''/dev/urandom'', VFS_FD_RANDOM), (''/dev/stdin'', VFS_FD_STDIN),
     (''/dev/tty'', VFS_FD_TTY)] p"

definition pseudo_text :: "string \<Rightarrow> string" where
  "pseudo_text p =
     (if p = ''/proc/self/stat'' then ''1 (curica) R 0 1 1 0 -1 0 0 0 0 0 0 0 0 0 20 0 1 0 0 0 0 0 0 0 0 0 0 0 0 0 0 0 0 0 0 0 0 0 0 0'' @ [NL]
      else if p = ''/sys/cpu/count'' then ''8'' @ [NL]
      else if p = ''/sys/memory/limit'' then ''1073741824'' @ [NL]
      else ''unsupported pseudo-file'' @ [NL])"

definition is_pseudo :: "string \<Rightarrow> bool" where
  "is_pseudo p \<longleftrightarrow> starts_with ''/proc/'' p \<or> starts_with ''/sys/'' p"

definition text_bytes :: "string \<Rightarrow> bytes" where
  "text_bytes s = map (\<lambda>c. Some (of_nat (of_char c))) s"

text \<open>The index part of a descriptor.\<close>

definition internal_fd :: "u32 \<Rightarrow> u32" where
  "internal_fd fd = fd AND NOT VFS_FD_VIRTUAL_MASK AND NOT VFS_FD_TMPFS_MASK"

definition open_pseudo :: "(u64 \<Rightarrow> bool) \<Rightarrow> string \<Rightarrow> tmpfs \<Rightarrow> (u32 \<times> tmpfs) option" where
  "open_pseudo alloc p s =
     (let (fd, s) = tmpfs_open p \<lparr>O_CREAT = True, O_TRUNC = True, O_APPEND = False\<rparr> s
      in if sint fd \<ge> 0
         then map_option (\<lambda>(_, s). (fd, snd (tmpfs_lseek (internal_fd fd) 0 SEEK_SET s)))
                (tmpfs_write alloc (internal_fd fd) (text_bytes (pseudo_text p)) s)
         else Some (fd, s))"

definition host_file :: "string \<Rightarrow> bool" where
  "host_file path \<longleftrightarrow> path \<in> {''/etc/resolv.conf'', ''/etc/hosts'', ''/etc/ssl/certs/ca-certificates.crt''}"

definition vfs_open :: "'w os \<Rightarrow> string \<Rightarrow> open_flags \<Rightarrow> u32 \<Rightarrow> 'w vfs \<Rightarrow> (u32 \<times> 'w vfs) option" where
  "vfs_open os path fl mode v =
     (let p = resolved v path
      in case device p of
           Some fd \<Rightarrow> Some (fd, v)
         | None \<Rightarrow>
             if is_pseudo p then map_option (with_tmpfs v) (open_pseudo (os_alloc os) p (vfs_tmpfs v))
             else if starts_with ''/tmp/'' path \<or> starts_with ''./.curica_disks/root/tmp/'' p
             then Some (with_tmpfs v (tmpfs_open path fl (vfs_tmpfs v)))
             else if host_file path then Some (host_call (os_open os path fl mode) v)
             else Some (host_call (os_open os p fl mode) v))"

definition is_virtual :: "u32 \<Rightarrow> bool" where
  "is_virtual fd \<longleftrightarrow> fd AND VFS_FD_VIRTUAL_MASK \<noteq> 0"

definition is_tmpfs :: "u32 \<Rightarrow> bool" where
  "is_tmpfs fd \<longleftrightarrow> fd AND VFS_FD_TMPFS_MASK \<noteq> 0"

fun random_bytes :: "'w os \<Rightarrow> nat \<Rightarrow> 'w \<Rightarrow> bytes \<times> 'w" where
  "random_bytes os 0 w = ([], w)"
| "random_bytes os (Suc n) w = (let (r, w) = os_rand os w; (bs, w) = random_bytes os n w in (Some (ucast r) # bs, w))"

definition vfs_read :: "'w os \<Rightarrow> u32 \<Rightarrow> u64 \<Rightarrow> 'w vfs \<Rightarrow> ((int \<times> bytes) \<times> 'w vfs) option" where
  "vfs_read os fd cnt v =
     (if is_virtual fd
      then if is_tmpfs fd then map_option (with_tmpfs v) (tmpfs_read (internal_fd fd) cnt (vfs_tmpfs v))
           else if fd = VFS_FD_NULL then Some ((0, []), v)
           else if fd = VFS_FD_ZERO then Some ((sint cnt, replicate (unat cnt) (Some 0)), v)
           else if fd = VFS_FD_RANDOM then Some (host_call (\<lambda>w. let (bs, w) = random_bytes os (unat cnt) w in ((sint cnt, bs), w)) v)
           else if fd \<in> {VFS_FD_DSP, VFS_FD_STDOUT, VFS_FD_STDERR} then Some ((0, []), v)
           else if fd \<in> {VFS_FD_STDIN, VFS_FD_TTY} then Some (host_call (os_read os 0 cnt) v)
           else Some ((- 1, []), v)
      else Some (host_call (os_read os fd cnt) v))"

definition vfs_write :: "'w os \<Rightarrow> u32 \<Rightarrow> bytes \<Rightarrow> 'w vfs \<Rightarrow> (int \<times> 'w vfs) option" where
  "vfs_write os fd buf v =
     (if is_virtual fd
      then if is_tmpfs fd then map_option (with_tmpfs v) (tmpfs_write (os_alloc os) (internal_fd fd) buf (vfs_tmpfs v))
           else if fd \<in> {VFS_FD_NULL, VFS_FD_ZERO, VFS_FD_RANDOM, VFS_FD_STDIN} then Some (int (length buf), v)
           else if fd \<in> {VFS_FD_STDOUT, VFS_FD_TTY} then Some (host_call (os_write os 1 buf) v)
           else if fd = VFS_FD_STDERR then Some (host_call (os_write os 2 buf) v)
           else if fd = VFS_FD_DSP then Some (int (length buf), v)
           else Some (- 1, v)
      else Some (host_call (os_write os fd buf) v))"

definition vfs_lseek :: "'w os \<Rightarrow> u32 \<Rightarrow> u64 \<Rightarrow> whence \<Rightarrow> 'w vfs \<Rightarrow> int \<times> 'w vfs" where
  "vfs_lseek os fd offset wh v =
     (if is_virtual fd
      then if is_tmpfs fd then with_tmpfs v (tmpfs_lseek (internal_fd fd) offset wh (vfs_tmpfs v))
           else if fd \<in> {VFS_FD_NULL, VFS_FD_ZERO} then (0, v)
           else (- 1, v)
      else host_call (os_lseek os fd offset wh) v)"

definition vfs_close :: "'w os \<Rightarrow> u32 \<Rightarrow> 'w vfs \<Rightarrow> int \<times> 'w vfs" where
  "vfs_close os fd v =
     (if is_virtual fd
      then if is_tmpfs fd then with_tmpfs v (tmpfs_close (internal_fd fd) (vfs_tmpfs v)) else (0, v)
      else host_call (os_close os fd) v)"

definition S_IFCHR :: u32 where "S_IFCHR = 0x2000"
definition S_IFREG :: u32 where "S_IFREG = 0x8000"

definition populate_dev_stat :: vstat where
  "populate_dev_stat = \<lparr>st_mode = S_IFCHR OR 0x1B6, st_size = 0, st_nlink = 1\<rparr>"

definition mapped_path :: "'w vfs \<Rightarrow> string \<Rightarrow> string" where
  "mapped_path v path = (if host_file path then path else resolved v path)"

definition no_flags :: open_flags where
  "no_flags = \<lparr>O_CREAT = False, O_TRUNC = False, O_APPEND = False\<rparr>"

definition vfs_stat :: "'w os \<Rightarrow> string \<Rightarrow> 'w vfs \<Rightarrow> ((int \<times> vstat) \<times> 'w vfs) option" where
  "vfs_stat os path v =
     Option.bind
       (if is_pseudo path
        then map_option (\<lambda>(fd, v). if sint fd \<ge> 0 then snd (vfs_close os fd v) else v) (vfs_open os path no_flags 0x1B6 v)
        else Some v)
       (\<lambda>v. case (if starts_with ''/tmp/'' path \<or> is_pseudo path then find_file path (vfs_tmpfs v) else None) of
          Some i \<Rightarrow> Some ((0, \<lparr>st_mode = S_IFREG OR 0x1FF, st_size = f_size (tmpfs_files (vfs_tmpfs v) ! i), st_nlink = 1\<rparr>), v)
        | None \<Rightarrow>
            if starts_with ''/dev/'' (mapped_path v path) then Some ((0, populate_dev_stat), v)
            else Some (host_call (os_stat os (mapped_path v path)) v))"

definition vfs_lstat :: "'w os \<Rightarrow> string \<Rightarrow> 'w vfs \<Rightarrow> (int \<times> vstat) \<times> 'w vfs" where
  "vfs_lstat os path v =
     (if starts_with ''/dev/'' (mapped_path v path) then ((0, populate_dev_stat), v)
      else host_call (os_lstat os (mapped_path v path)) v)"

definition vfs_fstat :: "'w os \<Rightarrow> u32 \<Rightarrow> 'w vfs \<Rightarrow> (int \<times> vstat) \<times> 'w vfs" where
  "vfs_fstat os fd v = (if is_virtual fd then ((0, populate_dev_stat), v) else host_call (os_fstat os fd) v)"

definition vfs_mkdir :: "'w os \<Rightarrow> string \<Rightarrow> u32 \<Rightarrow> 'w vfs \<Rightarrow> int \<times> 'w vfs" where
  "vfs_mkdir os path mode v = host_call (os_mkdir os (resolved v path) mode) v"

definition vfs_unlink :: "'w os \<Rightarrow> string \<Rightarrow> 'w vfs \<Rightarrow> int \<times> 'w vfs" where
  "vfs_unlink os path v =
     (if starts_with ''/tmp/'' path then with_tmpfs v (tmpfs_unlink path (vfs_tmpfs v))
      else host_call (os_unlink os (resolved v path)) v)"

definition vfs_rename :: "'w os \<Rightarrow> string \<Rightarrow> string \<Rightarrow> 'w vfs \<Rightarrow> int \<times> 'w vfs" where
  "vfs_rename os oldpath newpath v = host_call (os_rename os (resolved v oldpath) (resolved v newpath)) v"

definition vfs_opendir :: "'w os \<Rightarrow> string \<Rightarrow> 'w vfs \<Rightarrow> u64 \<times> 'w vfs" where
  "vfs_opendir os path v = host_call (os_opendir os (resolved v path)) v"

definition vfs_pread :: "'w os \<Rightarrow> u32 \<Rightarrow> u64 \<Rightarrow> u64 \<Rightarrow> 'w vfs \<Rightarrow> ((int \<times> bytes) \<times> 'w vfs) option" where
  "vfs_pread os fd cnt offset v =
     (if is_virtual fd then vfs_read os fd cnt v else Some (host_call (os_pread os fd cnt offset) v))"

definition vfs_pwrite :: "'w os \<Rightarrow> u32 \<Rightarrow> bytes \<Rightarrow> u64 \<Rightarrow> 'w vfs \<Rightarrow> (int \<times> 'w vfs) option" where
  "vfs_pwrite os fd buf offset v =
     (if is_virtual fd then vfs_write os fd buf v else Some (host_call (os_pwrite os fd buf offset) v))"

end
