(* ===== verification/VFS_Laws.thy ===== *)
theory VFS_Laws
  imports VFS
begin

text \<open>
  The files in memory keep to their blocks, implement files as lists of bytes, and what is written under \<open>/tmp\<close> is
  read back; what happens when a descriptor outlives its file, and when a seek goes below zero.
\<close>

section \<open>Invariant\<close>

definition power_cap :: "u64 \<Rightarrow> bool" where
  "power_cap c \<longleftrightarrow> c = 0 \<or> (\<exists>k\<le>63. c = 2 ^ k)"

definition file_ok :: "TmpfsFile \<Rightarrow> bool" where
  "file_ok f \<longleftrightarrow> length (f_data f) = unat (f_cap f) \<and> f_size f \<le> f_cap f \<and> power_cap (f_cap f) \<and> unat (f_size f) < 2 ^ 62"

definition fd_ok :: "tmpfs \<Rightarrow> TmpfsFd \<Rightarrow> bool" where
  "fd_ok s d \<longleftrightarrow> file_idx d < length (tmpfs_files s) \<and> f_used (tmpfs_files s ! file_idx d) \<and> unat (fd_offset d) < 2 ^ 62"

definition paths_distinct :: "TmpfsFile list \<Rightarrow> bool" where
  "paths_distinct fs \<longleftrightarrow> (\<forall>i j. i < length fs \<longrightarrow> j < length fs \<longrightarrow> f_used (fs ! i) \<longrightarrow> f_used (fs ! j) \<longrightarrow> f_path (fs ! i) = f_path (fs ! j) \<longrightarrow> i = j)"

definition tmpfs_ok :: "tmpfs \<Rightarrow> bool" where
  "tmpfs_ok s \<longleftrightarrow> length (tmpfs_files s) = MAX_TMPFS_FILES \<and> length (tmpfs_fds s) = MAX_TMPFS_FDS \<and>
     (\<forall>f\<in>set (tmpfs_files s). f_used f \<longrightarrow> file_ok f) \<and> (\<forall>d\<in>set (tmpfs_fds s). fd_used d \<longrightarrow> fd_ok s d) \<and> paths_distinct (tmpfs_files s)"

definition no_file :: TmpfsFile where
  "no_file = \<lparr>f_path = [], f_data = [], f_size = 0, f_cap = 0, f_used = False\<rparr>"

definition no_fd :: TmpfsFd where
  "no_fd = \<lparr>file_idx = 0, fd_offset = 0, fd_used = False\<rparr>"

definition tmpfs_init :: tmpfs where
  "tmpfs_init = \<lparr>tmpfs_files = replicate MAX_TMPFS_FILES no_file, tmpfs_fds = replicate MAX_TMPFS_FDS no_fd\<rparr>"

lemma tmpfs_init_ok: "tmpfs_ok tmpfs_init"
  by (auto simp: tmpfs_ok_def tmpfs_init_def no_file_def no_fd_def paths_distinct_def)

text \<open>Open descriptors.\<close>

definition valid_fd :: "u32 \<Rightarrow> tmpfs \<Rightarrow> bool" where
  "valid_fd i s \<longleftrightarrow> sint i \<ge> 0 \<and> sint i < int MAX_TMPFS_FDS \<and> fd_used (tmpfs_fds s ! unat i)"

lemma on_fd_if: "on_fd i s bad f = (if valid_fd i s then f (unat i) (tmpfs_fds s ! unat i) (tmpfs_files s ! file_idx (tmpfs_fds s ! unat i)) else bad)"
  by (auto simp: on_fd_def valid_fd_def Let_def)

lemma sint_unat: "sint (i :: u32) \<ge> 0 \<Longrightarrow> unat i = nat (sint i)"
proof -
  assume p: "sint i \<ge> 0"
  have u: "uint i < 2 ^ 32" using unsigned_less [of i] by simp
  have "sint i = take_bit 32 (uint i) - 2 ^ 32 * of_bool (bit (uint i) 31)"
    using signed_take_bit_eq_take_bit_minus [of 31 "uint i"] by (simp add: sint_uint)
  moreover have "take_bit 32 (uint i) = uint i" using u by (simp add: take_bit_int_eq_self)
  ultimately have "sint i = uint i" using p u by (cases "bit (uint i) 31") auto
  then show ?thesis by simp
qed

lemma sint_unat64: "sint (i :: u64) \<ge> 0 \<Longrightarrow> unat i = nat (sint i)"
proof -
  assume p: "sint i \<ge> 0"
  have u: "uint i < 2 ^ 64" using unsigned_less [of i] by simp
  have "sint i = take_bit 64 (uint i) - 2 ^ 64 * of_bool (bit (uint i) 63)"
    using signed_take_bit_eq_take_bit_minus [of 63 "uint i"] by (simp add: sint_uint)
  moreover have "take_bit 64 (uint i) = uint i" using u by (simp add: take_bit_int_eq_self)
  ultimately have "sint i = uint i" using p u by (cases "bit (uint i) 63") auto
  then show ?thesis by simp
qed

lemma valid_fd_laws:
  assumes "tmpfs_ok s" "valid_fd i s"
  shows "unat i < length (tmpfs_fds s)" "fd_ok s (tmpfs_fds s ! unat i)" "file_ok (tmpfs_files s ! file_idx (tmpfs_fds s ! unat i))"
proof -
  show u: "unat i < length (tmpfs_fds s)" using assms sint_unat [of i] by (auto simp: tmpfs_ok_def valid_fd_def)
  have "tmpfs_fds s ! unat i \<in> set (tmpfs_fds s)" using u by simp
  then show d: "fd_ok s (tmpfs_fds s ! unat i)" using assms by (simp add: tmpfs_ok_def valid_fd_def)
  then have "tmpfs_files s ! file_idx (tmpfs_fds s ! unat i) \<in> set (tmpfs_files s)" by (simp add: fd_ok_def)
  then show "file_ok (tmpfs_files s ! file_idx (tmpfs_fds s ! unat i))" using assms(1) d by (simp add: tmpfs_ok_def fd_ok_def)
qed

section \<open>Growing\<close>

lemma unat_power: "k \<le> 63 \<Longrightarrow> unat (2 ^ k :: u64) = 2 ^ k"
proof -
  assume "k \<le> 63"
  then have "(2 :: nat) ^ k < 2 ^ 64" by (intro power_strict_increasing) auto
  then have "unat (of_nat (2 ^ k) :: u64) = 2 ^ k" by (subst unat_of_nat) simp
  then show ?thesis by simp
qed

lemma grow_cap_ok:
  assumes "j \<le> 63" "unat need \<le> 2 ^ 63"
  obtains k where "j \<le> k" "k \<le> 63" "grow_cap need (2 ^ j) = Some (2 ^ k)" "need \<le> 2 ^ k"
  using assms(1)
proof (induction "63 - j" arbitrary: j thesis rule: less_induct)
  case less
  show ?case
  proof (cases "2 ^ j < need")
    case True
    then have "unat (2 ^ j :: u64) < unat need" by (simp add: word_less_nat_alt)
    then have "(2 :: nat) ^ j < 2 ^ 63" using assms(2) unat_power [OF less.prems(2)] by linarith
    then have j: "j < 63" by (rule power_less_imp_less_exp [rotated]) simp
    have step: "grow_cap need (2 ^ j) = grow_cap need (2 ^ Suc j)" using True by (subst grow_cap.simps) (simp add: mult.commute)
    show ?thesis by (rule less.hyps [of "Suc j"]) (use j step less.prems(1) in \<open>auto intro: Suc_leD\<close>)
  next
    case False
    then have "grow_cap need (2 ^ j) = Some (2 ^ j)" by (subst grow_cap.simps) simp
    then show ?thesis using less.prems False by (auto simp: not_less)
  qed
qed

lemma ensure_cap_ok:
  assumes "file_ok f" "unat need \<le> 2 ^ 63"
  obtains "ensure_cap alloc need f = Some None"
    | f' where "ensure_cap alloc need f = Some (Some f')" "file_ok f'" "need \<le> f_cap f'" "f_size f' = f_size f" "f_path f' = f_path f" "f_used f' = f_used f"
        "take (length (f_data f)) (f_data f') = f_data f"
proof (cases "need > f_cap f")
  case False
  then have "ensure_cap alloc need f = Some (Some f)" by (simp add: ensure_cap_def)
  then show ?thesis using that(2) [of f] assms(1) False by (auto simp: not_less file_ok_def)
next
  case True
  obtain j where j: "j \<le> 63" "(if f_cap f = 0 then 1024 else f_cap f * 2) = 2 ^ j" "f_cap f \<le> 2 ^ j"
  proof (cases "f_cap f = 0")
    case True
    then show ?thesis using that [of 10] by simp
  next
    case False
    then obtain i where i: "i \<le> 63" "f_cap f = 2 ^ i" using assms(1) by (auto simp: file_ok_def power_cap_def)
    then have "(2 :: nat) ^ i < 2 ^ 63" using True assms(2) unat_power [OF i(1)] by (simp add: word_less_nat_alt)
    then have "i < 63" by (rule power_less_imp_less_exp [rotated]) simp
    moreover have "(2 ^ i :: u64) \<le> 2 ^ Suc i" using calculation unat_power [of i] unat_power [of "Suc i"] by (simp add: word_le_nat_alt)
    ultimately show ?thesis using that [of "Suc i"] i False by (simp add: mult.commute)
  qed
  obtain k where k: "j \<le> k" "k \<le> 63" "grow_cap need (2 ^ j) = Some (2 ^ k)" "need \<le> 2 ^ k"
    by (rule grow_cap_ok [OF j(1) assms(2)])
  have jk: "(2 ^ j :: u64) \<le> 2 ^ k" using k(1,2) j(1) by (simp add: word_le_nat_alt unat_power)
  let ?f = "f\<lparr>f_data := take (unat (2 ^ k :: u64)) (f_data f) @ replicate (unat (2 ^ k :: u64) - length (f_data f)) None, f_cap := 2 ^ k\<rparr>"
  have e: "ensure_cap alloc need f = Some (if alloc (2 ^ k) then Some ?f else None)" using True j(2) k(3) by (simp add: ensure_cap_def)
  have le: "f_cap f \<le> 2 ^ k" using j(3) jk by (rule order_trans)
  then have len: "length (f_data f) \<le> unat (2 ^ k :: u64)" using assms(1) by (simp add: file_ok_def word_le_nat_alt)
  have "file_ok ?f" using assms(1) le len k(2) unfolding file_ok_def power_cap_def by (auto intro: order_trans)
  then show ?thesis using that e k(4) len by (cases "alloc (2 ^ k)") auto
qed

section \<open>Files as lists of bytes\<close>

definition f_text :: "TmpfsFile \<Rightarrow> bytes" where
  "f_text f = take (unat (f_size f)) (f_data f)"

lemma f_text_length: "file_ok f \<Longrightarrow> length (f_text f) = unat (f_size f)"
  by (simp add: f_text_def file_ok_def word_le_nat_alt)

text \<open>Writing a block at an offset; bytes between the old end and the offset are whatever the block holds there.\<close>

definition splice_bytes :: "nat \<Rightarrow> bytes \<Rightarrow> bytes \<Rightarrow> bytes" where
  "splice_bytes off buf bs = take off bs @ buf @ drop (off + length buf) bs"

lemma take_splice:
  assumes "off \<le> n" "off + length buf \<le> length bs"
  shows "take (max (off + length buf) n) (take off bs @ buf @ drop (off + length buf) bs) = splice_bytes off buf (take n bs)"
proof -
  let ?l = "take off bs @ buf"
  have l: "length ?l = off + length buf" using assms(2) by simp
  have "take (max (off + length buf) n) (?l @ drop (off + length buf) bs) = ?l @ take (n - (off + length buf)) (drop (off + length buf) bs)"
    unfolding take_append using l assms(2) by (auto simp: max_def)
  then show ?thesis using assms(1) by (simp add: splice_bytes_def drop_take min_def)
qed

lemma write_file_ok:
  assumes "file_ok f" "unat off + length buf < 2 ^ 62"
  obtains "ensure_cap alloc (off + of_nat (length buf)) f = Some None"
    | f' where "ensure_cap alloc (off + of_nat (length buf)) f = Some (Some f')" "file_ok f'" "unat off + length buf \<le> length (f_data f')"
        "f_size f' = f_size f" "f_path f' = f_path f" "f_used f' = f_used f" "take (length (f_data f)) (f_data f') = f_data f"
proof -
  have u: "unat (off + of_nat (length buf)) = unat off + length buf"
    using assms(2) by (simp add: unat_word_ariths unat_of_nat)
  then have n: "unat (off + of_nat (length buf)) \<le> 2 ^ 63" using assms(2) by simp
  show ?thesis
  proof (rule ensure_cap_ok [OF assms(1) n, of alloc])
    fix f' assume f': "ensure_cap alloc (off + of_nat (length buf)) f = Some (Some f')" "file_ok f'" "off + of_nat (length buf) \<le> f_cap f'"
      "f_size f' = f_size f" "f_path f' = f_path f" "f_used f' = f_used f" "take (length (f_data f)) (f_data f') = f_data f"
    then have "unat off + length buf \<le> length (f_data f')" using u by (simp add: file_ok_def word_le_nat_alt)
    then show ?thesis using that(2) f' by blast
  qed (use that(1) in blast)
qed

section \<open>Every operation keeps the invariant\<close>

lemma ok_update_fd:
  assumes "tmpfs_ok s" "fd_used (g (tmpfs_fds s ! n)) \<Longrightarrow> fd_ok s (g (tmpfs_fds s ! n))"
  shows "tmpfs_ok (update_fd n g s)"
proof -
  let ?s = "update_fd n g s"
  have "fd_ok ?s d = fd_ok s d" for d by (simp add: fd_ok_def update_fd_def)
  moreover have "set (tmpfs_fds ?s) \<subseteq> insert (g (tmpfs_fds s ! n)) (set (tmpfs_fds s))"
    using set_update_subset_insert by (simp add: update_fd_def)
  ultimately show ?thesis using assms by (auto simp: tmpfs_ok_def) (auto simp: update_fd_def)
qed

lemma ok_update_file:
  assumes "tmpfs_ok s" "i < length (tmpfs_files s)" "f_used (g (tmpfs_files s ! i)) \<Longrightarrow> file_ok (g (tmpfs_files s ! i))"
    and "\<forall>d\<in>set (tmpfs_fds s). fd_used d \<longrightarrow> file_idx d = i \<longrightarrow> f_used (g (tmpfs_files s ! i))"
    and "\<And>j. f_used (g (tmpfs_files s ! i)) \<Longrightarrow> j < length (tmpfs_files s) \<Longrightarrow> j \<noteq> i \<Longrightarrow> f_used (tmpfs_files s ! j) \<Longrightarrow>
       f_path (tmpfs_files s ! j) \<noteq> f_path (g (tmpfs_files s ! i))"
  shows "tmpfs_ok (update_file i g s)"
proof -
  let ?s = "update_file i g s"
  have "set (tmpfs_files ?s) \<subseteq> insert (g (tmpfs_files s ! i)) (set (tmpfs_files s))"
    using set_update_subset_insert by (simp add: update_file_def)
  then have "\<forall>f\<in>set (tmpfs_files ?s). f_used f \<longrightarrow> file_ok f" using assms(1,3) by (auto simp: tmpfs_ok_def)
  moreover have "\<forall>d\<in>set (tmpfs_fds ?s). fd_used d \<longrightarrow> fd_ok ?s d"
  proof (intro ballI impI)
    fix d assume "d \<in> set (tmpfs_fds ?s)" "fd_used d"
    then have d: "d \<in> set (tmpfs_fds s)" "fd_used d" by (simp_all add: update_file_def)
    then have "fd_ok s d" using assms(1) by (simp add: tmpfs_ok_def)
    then show "fd_ok ?s d" using d assms(2,4) by (cases "file_idx d = i") (simp_all add: fd_ok_def update_file_def)
  qed
  moreover have "paths_distinct (tmpfs_files ?s)" unfolding paths_distinct_def
  proof (intro allI impI)
    fix j k assume *: "j < length (tmpfs_files ?s)" "k < length (tmpfs_files ?s)" "f_used (tmpfs_files ?s ! j)" "f_used (tmpfs_files ?s ! k)"
      "f_path (tmpfs_files ?s ! j) = f_path (tmpfs_files ?s ! k)"
    have l: "length (tmpfs_files ?s) = length (tmpfs_files s)" "\<And>j. tmpfs_files ?s ! j = (if j = i then g (tmpfs_files s ! i) else tmpfs_files s ! j)"
      using assms(2) by (simp_all add: update_file_def nth_list_update)
    show "j = k"
    proof (rule ccontr)
      assume n: "j \<noteq> k"
      consider "j = i" | "k = i" | "j \<noteq> i" "k \<noteq> i" by blast
      then show False
      proof cases
        case 1
        then show False using assms(5) [of k] * n unfolding l by auto
      next
        case 2
        then show False using assms(5) [of j] * n unfolding l by auto
      next
        case 3
        then show False using assms(1) * n unfolding l tmpfs_ok_def paths_distinct_def by auto
      qed
    qed
  qed
  ultimately show ?thesis using assms(1) by (auto simp: tmpfs_ok_def) (auto simp: update_file_def)
qed

lemma find_index_Some: "find_index P xs = Some i \<Longrightarrow> i < length xs \<and> P (xs ! i)"
  by (induction xs arbitrary: i) (auto split: if_splits)

lemma find_index_None: "find_index P xs = None \<Longrightarrow> \<forall>x\<in>set xs. \<not> P x"
  by (induction xs) (auto split: if_splits)

lemma open_file_ok:
  assumes "tmpfs_ok s" "length path \<le> 255" "open_file path fl s = Some (i, s')"
  shows "tmpfs_ok s'" "i < length (tmpfs_files s')" "f_used (tmpfs_files s' ! i)" "f_path (tmpfs_files s' ! i) = path"
    "tmpfs_fds s' = tmpfs_fds s"
proof -
  have paths: "\<And>j. j < length (tmpfs_files s) \<Longrightarrow> f_used (tmpfs_files s ! j) \<Longrightarrow> f_path (tmpfs_files s ! j) = f_path (tmpfs_files s ! i) \<Longrightarrow>
      i < length (tmpfs_files s) \<Longrightarrow> f_used (tmpfs_files s ! i) \<Longrightarrow> j = i"
    using assms(1) by (auto simp: tmpfs_ok_def paths_distinct_def)
  have "tmpfs_ok s' \<and> i < length (tmpfs_files s') \<and> f_used (tmpfs_files s' ! i) \<and> f_path (tmpfs_files s' ! i) = path \<and> tmpfs_fds s' = tmpfs_fds s"
  proof (cases "find_file path s")
    case (Some j)
    then have j: "j = i" "i < length (tmpfs_files s)" "f_used (tmpfs_files s ! i)" "f_path (tmpfs_files s ! i) = path"
      using assms(3) find_index_Some by (auto simp: open_file_def find_file_def)
    have "file_ok (tmpfs_files s ! i)" using assms(1) j(2,3) by (auto simp: tmpfs_ok_def)
    then have "tmpfs_ok (update_file i (\<lambda>f. f\<lparr>f_size := 0\<rparr>) s)"
      by (intro ok_update_file [OF assms(1) j(2)]) (use j(3) paths [OF _ _ _ j(2,3)] in \<open>auto simp: file_ok_def\<close>)
    then show ?thesis using Some assms(1,3) j by (auto simp: open_file_def update_file_def split: if_splits)
  next
    case None
    then have new: "find_index (\<lambda>f. \<not> f_used f) (tmpfs_files s) = Some i"
        "s' = update_file i (\<lambda>f. \<lparr>f_path = take 255 path, f_data = [], f_size = 0, f_cap = 0, f_used = True\<rparr>) s"
      using assms(3) by (auto simp: open_file_def split: if_splits)
    have "\<forall>j<length (tmpfs_files s). f_used (tmpfs_files s ! j) \<longrightarrow> f_path (tmpfs_files s ! j) \<noteq> path"
      using find_index_None [OF None [unfolded find_file_def]] by auto
    then have "tmpfs_ok s'" unfolding new(2)
      using assms(2) find_index_Some [OF new(1)] by (intro ok_update_file [OF assms(1)]) (auto simp: file_ok_def power_cap_def)
    then show ?thesis using new(2) find_index_Some [OF new(1)] assms(2) by (simp add: update_file_def)
  qed
  then show "tmpfs_ok s'" "i < length (tmpfs_files s')" "f_used (tmpfs_files s' ! i)" "f_path (tmpfs_files s' ! i) = path"
    "tmpfs_fds s' = tmpfs_fds s" by auto
qed

lemma tmpfs_open_ok:
  assumes "tmpfs_ok s" "length path \<le> 255"
  shows "tmpfs_ok (snd (tmpfs_open path fl s))"
proof (cases "open_file path fl s")
  case (Some p)
  then obtain i s' where p: "open_file path fl s = Some (i, s')" by (cases p) auto
  note o = open_file_ok [OF assms p]
  have "file_ok (tmpfs_files s' ! i)" using o(1-3) by (auto simp: tmpfs_ok_def)
  then have "fd_ok s' \<lparr>file_idx = i, fd_offset = (if O_APPEND fl then f_size (tmpfs_files s' ! i) else 0), fd_used = True\<rparr>"
    using o(2,3) by (simp add: fd_ok_def file_ok_def)
  then show ?thesis using o(1) p by (auto simp: tmpfs_open_def intro!: ok_update_fd split: option.splits)
qed (use assms in \<open>simp add: tmpfs_open_def\<close>)

lemma tmpfs_read_form:
  fixes cnt :: u64
  assumes "tmpfs_ok s" "valid_fd i s"
  defines "d \<equiv> tmpfs_fds s ! unat i"
  defines "bs \<equiv> take (unat cnt) (drop (unat (fd_offset d)) (f_text (tmpfs_files s ! file_idx d)))"
  shows "\<exists>s'. tmpfs_read i cnt s = Some ((int (length bs), bs), s') \<and> tmpfs_ok s' \<and> tmpfs_files s' = tmpfs_files s \<and>
    tmpfs_fds s' = (tmpfs_fds s)[unat i := d\<lparr>fd_offset := fd_offset d + of_nat (length bs)\<rparr>]"
proof -
  let ?f = "tmpfs_files s ! file_idx d"
  note v = valid_fd_laws [OF assms(1,2), folded d_def]
  have f: "length (f_data ?f) = unat (f_cap ?f)" "unat (f_size ?f) \<le> unat (f_cap ?f)" "unat (f_size ?f) < 2 ^ 62" using v(3) by (auto simp: file_ok_def word_le_nat_alt)
  have r: "tmpfs_read i cnt s = (if fd_offset d \<ge> f_size ?f then Some ((0, []), s)
       else let available = f_size ?f - fd_offset d; to_read = (if cnt < available then cnt else available);
                off = unat (fd_offset d); k = unat to_read
            in if off + k \<le> length (f_data ?f)
               then Some ((sint to_read, take k (drop off (f_data ?f))), update_fd (unat i) (\<lambda>d. d\<lparr>fd_offset := fd_offset d + to_read\<rparr>) s)
               else None)"
    using assms(2) unfolding tmpfs_read_def on_fd_if d_def by (simp only: if_True)
  show ?thesis
  proof (cases "fd_offset d \<ge> f_size ?f")
    case True
    then have "bs = []" by (simp add: bs_def f_text_def word_le_nat_alt)
    moreover have "(tmpfs_fds s)[unat i := d] = tmpfs_fds s" using v(1) by (simp add: d_def)
    ultimately show ?thesis using True assms(1) r by simp
  next
    case False
    let ?a = "f_size ?f - fd_offset d" and ?o = "unat (fd_offset d)"
    define t where "t = (if cnt < ?a then cnt else ?a)"
    have a: "unat ?a = unat (f_size ?f) - ?o" using False by (intro unat_sub) simp
    have k: "unat t = min (unat cnt) (unat (f_size ?f) - ?o)" using a by (auto simp: t_def word_less_nat_alt)
    have off: "?o < unat (f_size ?f)" using False by (simp add: word_le_nat_alt)
    have bs: "take (unat t) (drop ?o (f_data ?f)) = bs" "length bs = unat t"
      using k f off by (auto simp: bs_def f_text_def drop_take min_def)
    have small: "unat t < 2 ^ 62" using k f(3) by linarith
    have "uint t = int (unat t)" by simp
    moreover have "unat t < 2 ^ 63" using small by simp
    ultimately have "uint t < 2 ^ 63" by (metis of_nat_less_iff of_nat_numeral of_nat_power)
    moreover have "- (2 ^ 63) \<le> uint t" by (rule order_trans [OF _ uint_ge_0]) simp
    ultimately have st: "sint t = int (unat t)" using signed_take_bit_int_eq_self [of 63 "uint t"] by (simp add: sint_uint)
    have "?o + unat t < 2 ^ 62" using k f(3) off by linarith
    then have "unat (fd_offset d + t) < 2 ^ 62" by (simp add: unat_word_ariths)
    then have "tmpfs_ok (update_fd (unat i) (\<lambda>d. d\<lparr>fd_offset := fd_offset d + t\<rparr>) s)"
      using v(2) by (intro ok_update_fd [OF assms(1)]) (simp add: fd_ok_def d_def)
    moreover have "?o + unat t \<le> length (f_data ?f)" using k f off by linarith
    moreover have "tmpfs_read i cnt s = (if ?o + unat t \<le> length (f_data ?f)
        then Some ((sint t, take (unat t) (drop ?o (f_data ?f))), update_fd (unat i) (\<lambda>d. d\<lparr>fd_offset := fd_offset d + t\<rparr>) s) else None)"
      using r [unfolded Let_def, folded t_def] False by (simp only: if_False)
    ultimately show ?thesis using bs st by (simp add: update_fd_def d_def)
  qed
qed

lemma tmpfs_write_form:
  assumes "tmpfs_ok s" "valid_fd i s"
  defines "d \<equiv> tmpfs_fds s ! unat i"
  assumes "unat (fd_offset d) + length buf < 2 ^ 62"
  obtains "tmpfs_write alloc i buf s = Some (- 1, s)" "\<exists>c. \<not> alloc c"
    | f' s' where "tmpfs_write alloc i buf s = Some (int (length buf), s')" "tmpfs_ok s'" "tmpfs_files s' = (tmpfs_files s)[file_idx d := f']"
      "tmpfs_fds s' = (tmpfs_fds s)[unat i := d\<lparr>fd_offset := fd_offset d + of_nat (length buf)\<rparr>]"
      "f_path f' = f_path (tmpfs_files s ! file_idx d)" "f_used f'"
      "fd_offset d \<le> f_size (tmpfs_files s ! file_idx d) \<Longrightarrow>
         f_text f' = splice_bytes (unat (fd_offset d)) buf (f_text (tmpfs_files s ! file_idx d))"
proof -
  let ?f = "tmpfs_files s ! file_idx d" and ?o = "unat (fd_offset d)" and ?e = "fd_offset d + of_nat (length buf) :: u64"
  note v = valid_fd_laws [OF assms(1,2), folded d_def]
  have e: "unat ?e = ?o + length buf" using assms(4) by (simp add: unat_word_ariths unat_of_nat)
  have w: "tmpfs_write alloc i buf s = Option.bind (ensure_cap alloc ?e ?f) (\<lambda>r. case r of
            None \<Rightarrow> Some (- 1, s)
          | Some f \<Rightarrow>
              if ?o + length buf \<le> length (f_data f)
              then let f = f\<lparr>f_data := take ?o (f_data f) @ buf @ drop (?o + length buf) (f_data f),
                             f_size := (if ?e > f_size f then ?e else f_size f)\<rparr>
                   in Some (int (length buf), update_fd (unat i) (\<lambda>d. d\<lparr>fd_offset := ?e\<rparr>) (update_file (file_idx d) (\<lambda>_. f) s))
              else None)"
    using assms(2) unfolding tmpfs_write_def on_fd_if d_def Let_def by (simp only: if_True)
  show ?thesis
  proof (rule write_file_ok [OF v(3) assms(4), of alloc])
    assume "ensure_cap alloc ?e ?f = Some None"
    moreover have "ensure_cap alloc ?e ?f = Some None \<Longrightarrow> \<exists>c. \<not> alloc c" by (auto simp: ensure_cap_def split: if_splits)
    ultimately show ?thesis using w that(1) by simp
  next
    fix f assume f: "ensure_cap alloc ?e ?f = Some (Some f)" "file_ok f" "?o + length buf \<le> length (f_data f)"
      "f_size f = f_size ?f" "f_path f = f_path ?f" "f_used f = f_used ?f" "take (length (f_data ?f)) (f_data f) = f_data ?f"
    define g where "g = f\<lparr>f_data := take ?o (f_data f) @ buf @ drop (?o + length buf) (f_data f), f_size := (if ?e > f_size f then ?e else f_size f)\<rparr>"
    have used: "f_used ?f" "file_idx d < length (tmpfs_files s)" using v(2) by (auto simp: fd_ok_def)
    have "?e \<le> f_cap f" using f(2,3) e by (simp add: file_ok_def word_le_nat_alt)
    then have g: "file_ok g" using f(2,3) e assms(4) by (auto simp: g_def file_ok_def)
    let ?s = "update_file (file_idx d) (\<lambda>_. g) s" and ?d = "\<lambda>d. d\<lparr>fd_offset := ?e\<rparr>"
    have same: "f_path g = f_path ?f" "f_used g" using f(5,6) used by (simp_all add: g_def)
    have "tmpfs_ok ?s" using same g used assms(1)
      by (intro ok_update_file [OF assms(1) used(2)]) (auto simp: tmpfs_ok_def paths_distinct_def)
    moreover have "fd_ok ?s (?d d)" using v(2) same e assms(4) used(2) by (simp add: fd_ok_def update_file_def)
    ultimately have "tmpfs_ok (update_fd (unat i) ?d ?s)" by (intro ok_update_fd) (simp_all add: update_file_def d_def)
    moreover have "f_text g = splice_bytes ?o buf (f_text ?f)" if "fd_offset d \<le> f_size ?f"
    proof -
      have n: "?o \<le> unat (f_size ?f)" using that by (simp add: word_le_nat_alt)
      have t: "f_text ?f = take (unat (f_size ?f)) (f_data f)"
        using f(7) v(3) by (simp add: f_text_def file_ok_def word_le_nat_alt) (metis min.absorb1 take_take)
      have m: "unat (f_size g) = max (?o + length buf) (unat (f_size ?f))" using e f(4) by (simp add: g_def word_less_nat_alt)
      show ?thesis unfolding f_text_def [of g] m using take_splice [OF n f(3)] by (simp add: g_def t)
    qed
    moreover have "tmpfs_write alloc i buf s = Some (int (length buf), update_fd (unat i) ?d ?s)" using w f(1,3) by (simp add: g_def Let_def)
    ultimately show ?thesis using that(2) [of "update_fd (unat i) ?d ?s" g] same by (simp add: update_fd_def update_file_def d_def)
  qed
qed

lemma tmpfs_lseek_ok:
  assumes "tmpfs_ok s" "tmpfs_lseek i off wh s = (r, s')" "0 \<le> r" "r < 2 ^ 62"
  shows "tmpfs_ok s'"
proof (cases "s' = s")
  case False
  then have v: "valid_fd i s" using assms(2) by (auto simp: tmpfs_lseek_def on_fd_if split: if_splits)
  obtain t where t: "r = sint t" "s' = update_fd (unat i) (\<lambda>d. d\<lparr>fd_offset := t\<rparr>) s"
    using assms(2) v False by (auto simp: tmpfs_lseek_def on_fd_if split: whence.splits)
  have "int (unat t) = r" using assms(3) t(1) sint_unat64 [of t] by simp
  then have "unat t < 2 ^ 62" using assms(4) by (metis of_nat_less_iff of_nat_numeral of_nat_power)
  then show ?thesis unfolding t(2) using valid_fd_laws(2) [OF assms(1) v] by (intro ok_update_fd [OF assms(1)]) (simp add: fd_ok_def)
qed (use assms in simp)

lemma tmpfs_close_ok: "tmpfs_ok s \<Longrightarrow> tmpfs_ok (snd (tmpfs_close i s))"
  by (auto simp: tmpfs_close_def on_fd_if intro: ok_update_fd)

definition is_open :: "string \<Rightarrow> tmpfs \<Rightarrow> bool" where
  "is_open path s \<longleftrightarrow> (\<exists>d\<in>set (tmpfs_fds s). fd_used d \<and> f_path (tmpfs_files s ! file_idx d) = path)"

lemma tmpfs_unlink_ok:
  assumes "tmpfs_ok s" "\<not> is_open path s"
  shows "tmpfs_ok (snd (tmpfs_unlink path s))"
proof (cases "find_file path s")
  case (Some i)
  then have i: "i < length (tmpfs_files s)" "f_path (tmpfs_files s ! i) = path" using find_index_Some by (auto simp: find_file_def)
  then have "tmpfs_ok (update_file i (\<lambda>f. f\<lparr>f_used := False, f_data := [], f_size := 0\<rparr>) s)"
    using assms(2) by (intro ok_update_file [OF assms(1)]) (auto simp: is_open_def)
  then show ?thesis using Some by (simp add: tmpfs_unlink_def)
qed (use assms in \<open>simp add: tmpfs_unlink_def\<close>)

section \<open>Runs\<close>

definition small_write :: "u32 \<Rightarrow> bytes \<Rightarrow> tmpfs \<Rightarrow> bool" where
  "small_write i buf s \<longleftrightarrow> on_fd i s True (\<lambda>n d f. unat (fd_offset d) + length buf < 2 ^ 62)"

text \<open>
  The operations in any order, with seeks to offsets from 0 on, files below 4 EiB, paths that fit their field, and no removal of a file that
  is open.
\<close>

inductive tmpfs_step :: "(u64 \<Rightarrow> bool) \<Rightarrow> tmpfs \<Rightarrow> tmpfs \<Rightarrow> bool" for alloc where
  step_open: "length path \<le> 255 \<Longrightarrow> tmpfs_open path fl s = (fd, s') \<Longrightarrow> tmpfs_step alloc s s'"
| step_read: "tmpfs_read i cnt s = Some (r, s') \<Longrightarrow> tmpfs_step alloc s s'"
| step_write: "small_write i buf s \<Longrightarrow> tmpfs_write alloc i buf s = Some (r, s') \<Longrightarrow> tmpfs_step alloc s s'"
| step_lseek: "tmpfs_lseek i off wh s = (r, s') \<Longrightarrow> 0 \<le> r \<Longrightarrow> r < 2 ^ 62 \<Longrightarrow> tmpfs_step alloc s s'"
| step_close: "tmpfs_close i s = (r, s') \<Longrightarrow> tmpfs_step alloc s s'"
| step_unlink: "\<not> is_open path s \<Longrightarrow> tmpfs_unlink path s = (r, s') \<Longrightarrow> tmpfs_step alloc s s'"

lemma tmpfs_read_ok: "tmpfs_ok s \<Longrightarrow> \<exists>r s'. tmpfs_read i cnt s = Some (r, s') \<and> tmpfs_ok s'"
  using tmpfs_read_form [of s i cnt] by (cases "valid_fd i s") (auto simp: tmpfs_read_def on_fd_if)

lemma tmpfs_write_ok:
  assumes "tmpfs_ok s" "small_write i buf s"
  shows "\<exists>r s'. tmpfs_write alloc i buf s = Some (r, s') \<and> tmpfs_ok s'"
proof (cases "valid_fd i s")
  case True
  then have "unat (fd_offset (tmpfs_fds s ! unat i)) + length buf < 2 ^ 62" using assms(2) by (simp add: small_write_def on_fd_if)
  then show ?thesis using tmpfs_write_form [OF assms(1) True, of buf alloc] assms(1) by metis
qed (use assms in \<open>simp add: tmpfs_write_def on_fd_if\<close>)

lemma tmpfs_step_ok: "tmpfs_step alloc s s' \<Longrightarrow> tmpfs_ok s \<Longrightarrow> tmpfs_ok s'"
proof (induction rule: tmpfs_step.induct)
  case (step_open path fl s fd s')
  then show ?case using tmpfs_open_ok [of s path fl] by simp
next
  case (step_read i cnt s r s')
  then show ?case using tmpfs_read_ok [of s i cnt] by auto
next
  case (step_write i buf s r s')
  then show ?case using tmpfs_write_ok [of s i buf alloc] by auto
next
  case (step_close i s r s')
  then show ?case using tmpfs_close_ok [of s i] by simp
next
  case (step_unlink path s r s')
  then show ?case using tmpfs_unlink_ok [of s path] by simp
qed (rule tmpfs_lseek_ok)

lemma tmpfs_reachable_ok: "(tmpfs_step alloc)\<^sup>*\<^sup>* tmpfs_init s \<Longrightarrow> tmpfs_ok s"
  by (induction rule: rtranclp_induct) (auto intro: tmpfs_init_ok tmpfs_step_ok)

text \<open>
  C17 (safety): after any run of operations from the empty file system every used file has its size within its block, every open descriptor
  leads to a used file, no two files have one path, and reads and writes stay inside the blocks and end.
\<close>

theorem tmpfs_memory_safe:
  assumes "(tmpfs_step alloc)\<^sup>*\<^sup>* tmpfs_init s"
  shows "(\<forall>f\<in>set (tmpfs_files s). f_used f \<longrightarrow> unat (f_size f) \<le> length (f_data f)) \<and>
    (\<forall>d\<in>set (tmpfs_fds s). fd_used d \<longrightarrow> f_used (tmpfs_files s ! file_idx d)) \<and> paths_distinct (tmpfs_files s) \<and>
    tmpfs_read i cnt s \<noteq> None \<and> (small_write i buf s \<longrightarrow> tmpfs_write alloc i buf s \<noteq> None)"
  using tmpfs_reachable_ok [OF assms] tmpfs_read_ok [of s i cnt] tmpfs_write_ok [of s i buf alloc]
  by (auto simp: tmpfs_ok_def file_ok_def fd_ok_def word_le_nat_alt)

section \<open>Refinement of files as lists of bytes\<close>

text \<open>The abstract state: the bytes of the file with a path, and the path and position of a descriptor.\<close>

type_synonym files_spec = "(string \<rightharpoonup> bytes) \<times> (nat \<rightharpoonup> string \<times> nat)"

definition files_of :: "tmpfs \<Rightarrow> files_spec" where
  "files_of s = (\<lambda>p. map_option (\<lambda>i. f_text (tmpfs_files s ! i)) (find_file p s),
     \<lambda>n. if n < length (tmpfs_fds s) \<and> fd_used (tmpfs_fds s ! n)
         then Some (f_path (tmpfs_files s ! file_idx (tmpfs_fds s ! n)), unat (fd_offset (tmpfs_fds s ! n))) else None)"

definition spec_read :: "nat \<Rightarrow> nat \<Rightarrow> files_spec \<Rightarrow> bytes \<times> files_spec" where
  "spec_read n cnt = (\<lambda>(F, D). case D n of
     Some (p, off) \<Rightarrow> let bs = take cnt (drop off (the (F p))) in (bs, (F, D(n \<mapsto> (p, off + length bs)))) | None \<Rightarrow> ([], (F, D)))"

definition spec_write :: "nat \<Rightarrow> bytes \<Rightarrow> files_spec \<Rightarrow> files_spec" where
  "spec_write n buf = (\<lambda>(F, D). case D n of
     Some (p, off) \<Rightarrow> (F(p \<mapsto> splice_bytes off buf (the (F p))), D(n \<mapsto> (p, off + length buf))) | None \<Rightarrow> (F, D))"

lemma find_index_iff:
  assumes "\<And>i j. i < length xs \<Longrightarrow> j < length xs \<Longrightarrow> P (xs ! i) \<Longrightarrow> P (xs ! j) \<Longrightarrow> i = j"
  shows "find_index P xs = Some i \<longleftrightarrow> i < length xs \<and> P (xs ! i)"
proof
  assume "i < length xs \<and> P (xs ! i)"
  then have "find_index P xs \<noteq> None" using find_index_None [of P xs] nth_mem by blast
  then obtain j where "find_index P xs = Some j" by blast
  then show "find_index P xs = Some i" using find_index_Some [of P xs j] assms [of i j] \<open>i < length xs \<and> P (xs ! i)\<close> by auto
qed (rule find_index_Some)

lemma find_file_iff:
  "tmpfs_ok s \<Longrightarrow> find_file p s = Some i \<longleftrightarrow> i < length (tmpfs_files s) \<and> f_used (tmpfs_files s ! i) \<and> f_path (tmpfs_files s ! i) = p"
  unfolding find_file_def by (subst find_index_iff) (auto simp: tmpfs_ok_def paths_distinct_def)

lemma option_eqI: "(\<And>x. a = Some x \<longleftrightarrow> b = Some x) \<Longrightarrow> a = b"
  by (cases a; cases b) auto

lemma find_file_same:
  assumes "tmpfs_ok s" "tmpfs_ok s'" "length (tmpfs_files s') = length (tmpfs_files s)"
    and "\<And>i. i < length (tmpfs_files s) \<Longrightarrow> f_used (tmpfs_files s' ! i) = f_used (tmpfs_files s ! i) \<and> f_path (tmpfs_files s' ! i) = f_path (tmpfs_files s ! i)"
  shows "find_file p s' = find_file p s"
  by (rule option_eqI) (use assms find_file_iff [OF assms(1)] find_file_iff [OF assms(2)] in auto)

lemma valid_position:
  assumes "tmpfs_ok s" "valid_fd i s"
  defines "d \<equiv> tmpfs_fds s ! unat i"
  shows "snd (files_of s) (unat i) = Some (f_path (tmpfs_files s ! file_idx d), unat (fd_offset d))"
    "fst (files_of s) (f_path (tmpfs_files s ! file_idx d)) = Some (f_text (tmpfs_files s ! file_idx d))"
proof -
  note v = valid_fd_laws [OF assms(1,2), folded d_def]
  show "snd (files_of s) (unat i) = Some (f_path (tmpfs_files s ! file_idx d), unat (fd_offset d))"
    using v(1) assms(2) by (simp add: files_of_def valid_fd_def d_def)
  have "find_file (f_path (tmpfs_files s ! file_idx d)) s = Some (file_idx d)"
    using v(2) by (simp add: find_file_iff [OF assms(1)] fd_ok_def)
  then show "fst (files_of s) (f_path (tmpfs_files s ! file_idx d)) = Some (f_text (tmpfs_files s ! file_idx d))" by (simp add: files_of_def)
qed

lemma read_refines:
  assumes "tmpfs_ok s" "valid_fd i s"
  shows "\<exists>bs s'. tmpfs_read i cnt s = Some ((int (length bs), bs), s') \<and> tmpfs_ok s' \<and> (bs, files_of s') = spec_read (unat i) (unat cnt) (files_of s)"
proof -
  let ?d = "tmpfs_fds s ! unat i"
  let ?f = "tmpfs_files s ! file_idx ?d"
  let ?bs = "take (unat cnt) (drop (unat (fd_offset ?d)) (f_text ?f))"
  obtain s' where s': "tmpfs_read i cnt s = Some ((int (length ?bs), ?bs), s')" "tmpfs_ok s'" "tmpfs_files s' = tmpfs_files s"
      "tmpfs_fds s' = (tmpfs_fds s)[unat i := ?d\<lparr>fd_offset := fd_offset ?d + of_nat (length ?bs)\<rparr>]"
    using tmpfs_read_form [OF assms, of cnt] by blast
  note v = valid_fd_laws [OF assms]
  have fd: "unat (fd_offset ?d) < 2 ^ 62" "length (f_text ?f) < 2 ^ 62" using v(2,3) by (auto simp: fd_ok_def file_ok_def f_text_def)
  then have "length ?bs < 2 ^ 62" by (auto intro: le_less_trans)
  then have "unat (fd_offset ?d + of_nat (length ?bs)) = unat (fd_offset ?d) + length ?bs"
    using fd(1) by (simp add: unat_word_ariths unat_of_nat)
  moreover have "find_file p s' = find_file p s" for p by (simp add: find_file_def s'(3))
  ultimately have "files_of s' = (fst (files_of s), (snd (files_of s))(unat i \<mapsto> (f_path ?f, unat (fd_offset ?d) + length ?bs)))"
    using v(1) assms(2) s'(3,4) by (auto simp: files_of_def fun_eq_iff valid_fd_def nth_list_update)
  then have "(?bs, files_of s') = spec_read (unat i) (unat cnt) (files_of s)"
    using valid_position [OF assms] by (simp add: spec_read_def split_beta Let_def)
  then show ?thesis using s'(1,2) by blast
qed

lemma write_refines:
  assumes "tmpfs_ok s" "valid_fd i s" "\<forall>c. alloc c" "small_write i buf s"
    "fd_offset (tmpfs_fds s ! unat i) \<le> f_size (tmpfs_files s ! file_idx (tmpfs_fds s ! unat i))"
  shows "\<exists>s'. tmpfs_write alloc i buf s = Some (int (length buf), s') \<and> tmpfs_ok s' \<and> files_of s' = spec_write (unat i) buf (files_of s)"
proof -
  let ?d = "tmpfs_fds s ! unat i"
  let ?f = "tmpfs_files s ! file_idx ?d"
  note v = valid_fd_laws [OF assms(1,2)]
  have small: "unat (fd_offset ?d) + length buf < 2 ^ 62" using assms(2,4) by (simp add: small_write_def on_fd_if)
  obtain f' s' where s': "tmpfs_write alloc i buf s = Some (int (length buf), s')" "tmpfs_ok s'" "tmpfs_files s' = (tmpfs_files s)[file_idx ?d := f']"
      "tmpfs_fds s' = (tmpfs_fds s)[unat i := ?d\<lparr>fd_offset := fd_offset ?d + of_nat (length buf)\<rparr>]"
      "f_path f' = f_path ?f" "f_used f'" "f_text f' = splice_bytes (unat (fd_offset ?d)) buf (f_text ?f)"
  proof (rule tmpfs_write_form [OF assms(1,2) small, of alloc])
    assume "\<exists>c. \<not> alloc c"
    then show ?thesis using assms(3) by simp
  qed (use that assms(5) in blast)
  have idx: "file_idx ?d < length (tmpfs_files s)" "f_used ?f" using v(2) by (auto simp: fd_ok_def)
  have e: "unat (fd_offset ?d + of_nat (length buf)) = unat (fd_offset ?d) + length buf"
    using small by (simp add: unat_word_ariths unat_of_nat)
  have path: "f_path (tmpfs_files s' ! j) = f_path (tmpfs_files s ! j)" for j using s'(3,5) idx by (cases "j = file_idx ?d") simp_all
  have find: "find_file p s' = find_file p s" for p
    using s'(3,5,6) idx path by (intro find_file_same [OF assms(1) s'(2)]) (auto simp: nth_list_update)
  have "fst (files_of s') = (fst (files_of s))(f_path ?f \<mapsto> f_text f')"
  proof
    fix p
    have "find_file p s = Some (file_idx ?d) \<longleftrightarrow> p = f_path ?f" using find_file_iff [OF assms(1)] idx by auto
    then show "fst (files_of s') p = ((fst (files_of s))(f_path ?f \<mapsto> f_text f')) p"
      using find [of p] s'(3) idx by (cases "find_file p s") (auto simp: files_of_def nth_list_update)
  qed
  moreover have "snd (files_of s') = (snd (files_of s))(unat i \<mapsto> (f_path ?f, unat (fd_offset ?d) + length buf))"
    using v(1) assms(2) s'(4) e path by (auto simp: files_of_def fun_eq_iff valid_fd_def nth_list_update)
  ultimately have "files_of s' = spec_write (unat i) buf (files_of s)"
    using valid_position [OF assms(1,2)] s'(7) by (simp add: spec_write_def split_beta prod_eq_iff)
  then show ?thesis using s'(1,2) by blast
qed

text \<open>
  C27 (refinement): on an open descriptor, a read returns the bytes at the position and moves on, and a write at a position within the
  file puts the bytes there, lengthening the file when it ends before; all other files and descriptors stay.
\<close>

theorem tmpfs_refines:
  assumes "tmpfs_ok s" "valid_fd i s" "\<forall>c. alloc c" "small_write i buf s"
    "fd_offset (tmpfs_fds s ! unat i) \<le> f_size (tmpfs_files s ! file_idx (tmpfs_fds s ! unat i))"
  shows "(\<exists>bs s'. tmpfs_read i cnt s = Some ((int (length bs), bs), s') \<and> (bs, files_of s') = spec_read (unat i) (unat cnt) (files_of s)) \<and>
    (\<exists>s'. tmpfs_write alloc i buf s = Some (int (length buf), s') \<and> files_of s' = spec_write (unat i) buf (files_of s))"
  using read_refines [OF assms(1,2)] write_refines [OF assms] by blast

section \<open>Files under \<open>/tmp\<close>\<close>

lemma masks: "VFS_FD_VIRTUAL_MASK = 2 ^ 30" "VFS_FD_TMPFS_MASK = 2 ^ 29"
  by (simp_all add: VFS_FD_VIRTUAL_MASK_def VFS_FD_TMPFS_MASK_def)

lemma mask_bits: "bit VFS_FD_VIRTUAL_MASK i \<longleftrightarrow> i = 30" "bit VFS_FD_TMPFS_MASK i \<longleftrightarrow> i = 29"
  unfolding masks bit_exp_iff by auto

lemma small_bits: "n < MAX_TMPFS_FDS \<Longrightarrow> bit (of_nat n :: u32) i \<Longrightarrow> i < 9"
proof -
  assume n: "n < MAX_TMPFS_FDS" and b: "bit (of_nat n :: u32) i"
  then have "bit n i" by (simp add: bit_simps)
  moreover have "take_bit 9 n = n" using n by (simp add: take_bit_nat_eq_self MAX_TMPFS_FDS_def)
  ultimately show ?thesis by (metis bit_take_bit_iff)
qed

definition fd_word :: "nat \<Rightarrow> u32" where
  "fd_word n = VFS_FD_VIRTUAL_MASK OR VFS_FD_TMPFS_MASK OR of_nat n"

lemma fd_word_laws:
  assumes "n < MAX_TMPFS_FDS"
  shows "internal_fd (fd_word n) = of_nat n" "is_virtual (fd_word n)" "is_tmpfs (fd_word n)" "sint (of_nat n :: u32) = int n" "unat (of_nat n :: u32) = n"
proof -
  show "internal_fd (fd_word n) = of_nat n"
    by (rule bit_word_eqI) (auto simp: internal_fd_def fd_word_def bit_and_iff bit_or_iff bit_not_iff mask_bits dest: small_bits [OF assms])
  have "bit (fd_word n AND VFS_FD_VIRTUAL_MASK) 30" "bit (fd_word n AND VFS_FD_TMPFS_MASK) 29"
    by (simp_all add: fd_word_def bit_and_iff bit_or_iff mask_bits)
  then show "is_virtual (fd_word n)" "is_tmpfs (fd_word n)" unfolding is_virtual_def is_tmpfs_def by (metis bit_0_eq bot_apply bot_bool_def)+
  show "sint (of_nat n :: u32) = int n" "unat (of_nat n :: u32) = n"
    using assms by (simp_all add: signed_of_nat signed_take_bit_int_eq_self unat_of_nat MAX_TMPFS_FDS_def)
qed

lemma vfs_open_tmp:
  assumes "vfs_overlays v = []" "starts_with ''/tmp/'' path" "length path \<le> 255"
  shows "vfs_open os path fl m v = Some (with_tmpfs v (tmpfs_open path fl (vfs_tmpfs v)))"
proof -
  obtain r where p: "path = ''/tmp/'' @ r" using assms(2) by (metis append_take_drop_id starts_with_def)
  have "resolved v path = path" using assms(1,3) by (simp add: resolved_def vfs_resolve_path_def vfs_is_vfs_path_def starts_with_def p)
  moreover have "device path = None" by (simp add: device_def p)
  moreover have "\<not> is_pseudo path" by (simp add: is_pseudo_def starts_with_def p)
  ultimately show ?thesis using assms(2) by (simp add: vfs_open_def)
qed

lemma tmpfs_open_new:
  assumes "tmpfs_ok s" "length path \<le> 255" "open_file path fl s = Some (j, s1)" "\<exists>d\<in>set (tmpfs_fds s). \<not> fd_used d" "\<not> O_APPEND fl"
  obtains n s' where "n < MAX_TMPFS_FDS" "tmpfs_open path fl s = (fd_word n, s')" "tmpfs_ok s'" "valid_fd (of_nat n) s'"
    "tmpfs_fds s' ! n = \<lparr>file_idx = j, fd_offset = 0, fd_used = True\<rparr>" "tmpfs_files s' = tmpfs_files s1" "tmpfs_fds s' = (tmpfs_fds s)[n := tmpfs_fds s' ! n]"
proof -
  note o = open_file_ok [OF assms(1-3)]
  obtain n where n: "find_index (\<lambda>d. \<not> fd_used d) (tmpfs_fds s1) = Some n" using assms(4) find_index_None [of "\<lambda>d. \<not> fd_used d" "tmpfs_fds s1"] o(5) by fastforce
  have len: "n < length (tmpfs_fds s)" "length (tmpfs_fds s) = MAX_TMPFS_FDS" using find_index_Some [OF n] o(5) assms(1) by (auto simp: tmpfs_ok_def)
  let ?s = "update_fd n (\<lambda>_. \<lparr>file_idx = j, fd_offset = 0, fd_used = True\<rparr>) s1"
  have "tmpfs_open path fl s = (fd_word n, ?s)" using n assms(3,5) by (simp add: tmpfs_open_def fd_word_def)
  moreover have "tmpfs_ok ?s" using tmpfs_open_ok [OF assms(1,2), of fl] calculation by simp
  moreover have nth: "tmpfs_fds ?s ! n = \<lparr>file_idx = j, fd_offset = 0, fd_used = True\<rparr>" using len o(5) by (simp add: update_fd_def)
  moreover have "valid_fd (of_nat n) ?s" using fd_word_laws [of n] len nth by (simp add: valid_fd_def)
  ultimately show ?thesis using that [of n ?s] len o(5) by (simp add: update_fd_def)
qed

definition creating :: open_flags where
  "creating = \<lparr>O_CREAT = True, O_TRUNC = True, O_APPEND = False\<rparr>"

lemma open_file_creating:
  assumes "find_file path s \<noteq> None \<or> (\<exists>f\<in>set (tmpfs_files s). \<not> f_used f)"
  obtains j s1 where "open_file path creating s = Some (j, s1)" "f_size (tmpfs_files s1 ! j) = 0"
proof (cases "find_file path s")
  case (Some j)
  then have "j < length (tmpfs_files s)" using find_index_Some by (auto simp: find_file_def)
  then show ?thesis using that Some by (simp add: open_file_def creating_def update_file_def)
next
  case None
  then obtain j where j: "find_index (\<lambda>f. \<not> f_used f) (tmpfs_files s) = Some j"
    using assms find_index_None [of "\<lambda>f. \<not> f_used f" "tmpfs_files s"] by fastforce
  then have "j < length (tmpfs_files s)" using find_index_Some by blast
  then show ?thesis using that None j by (simp add: open_file_def creating_def update_file_def)
qed

lemma tmpfs_close_view:
  assumes "tmpfs_ok s" "n < MAX_TMPFS_FDS" "snd (files_of s) n \<noteq> None"
  obtains s' where "tmpfs_close (of_nat n) s = (0, s')" "tmpfs_ok s'" "fst (files_of s') = fst (files_of s)" "\<exists>d\<in>set (tmpfs_fds s'). \<not> fd_used d"
proof -
  let ?s = "update_fd n (\<lambda>d. d\<lparr>fd_used := False\<rparr>) s"
  have n: "n < length (tmpfs_fds s)" "valid_fd (of_nat n) s" using assms fd_word_laws [OF assms(2)] by (auto simp: files_of_def valid_fd_def split: if_splits)
  then have c: "tmpfs_close (of_nat n) s = (0, ?s)" using fd_word_laws [OF assms(2)] by (simp add: tmpfs_close_def on_fd_if)
  moreover have "tmpfs_ok ?s" using tmpfs_close_ok [OF assms(1), of "of_nat n"] c by simp
  moreover have "fst (files_of ?s) = fst (files_of s)" by (simp add: files_of_def find_file_def update_fd_def)
  moreover have "(tmpfs_fds s ! n)\<lparr>fd_used := False\<rparr> \<in> set (tmpfs_fds ?s)" using n(1) by (simp add: update_fd_def set_update_memI)
  ultimately show ?thesis using that by fastforce
qed

text \<open>Writing a new file, and reading a file from its start.\<close>

lemma write_new:
  assumes "tmpfs_ok s" "length path \<le> 255" "find_file path s \<noteq> None \<or> (\<exists>f\<in>set (tmpfs_files s). \<not> f_used f)" "\<exists>d\<in>set (tmpfs_fds s). \<not> fd_used d"
    and "\<forall>c. alloc c" "length buf < 2 ^ 62"
  obtains n s1 s2 s3 where "n < MAX_TMPFS_FDS" "tmpfs_open path creating s = (fd_word n, s1)" "tmpfs_write alloc (of_nat n) buf s1 = Some (int (length buf), s2)"
    "tmpfs_close (of_nat n) s2 = (0, s3)" "tmpfs_ok s3" "fst (files_of s3) path = Some buf" "\<exists>d\<in>set (tmpfs_fds s3). \<not> fd_used d"
proof -
  obtain j s0 where j: "open_file path creating s = Some (j, s0)" "f_size (tmpfs_files s0 ! j) = 0" by (rule open_file_creating [OF assms(3)])
  note o = open_file_ok [OF assms(1,2) j(1)]
  obtain n s1 where n: "n < MAX_TMPFS_FDS" "tmpfs_open path creating s = (fd_word n, s1)" "tmpfs_ok s1" "valid_fd (of_nat n) s1"
      "tmpfs_fds s1 ! n = \<lparr>file_idx = j, fd_offset = 0, fd_used = True\<rparr>" "tmpfs_files s1 = tmpfs_files s0"
    by (rule tmpfs_open_new [OF assms(1,2) j(1) assms(4)]) (auto simp: creating_def)
  note u = fd_word_laws [OF n(1)]
  have p: "snd (files_of s1) n = Some (path, 0)" "fst (files_of s1) path = Some []"
    using valid_position [OF n(3,4)] j(2) n(5,6) o(4) u(5) by (simp_all add: f_text_def)
  have "small_write (of_nat n) buf s1" using assms(6) n(5) u(5) by (simp add: small_write_def on_fd_if)
  then obtain s2 where s2: "tmpfs_write alloc (of_nat n) buf s1 = Some (int (length buf), s2)" "tmpfs_ok s2" "files_of s2 = spec_write n buf (files_of s1)"
    using write_refines [OF n(3,4) assms(5)] n(5) u(5) by (auto simp: n(6) j(2))
  have "snd (files_of s2) n \<noteq> None" "fst (files_of s2) path = Some buf"
    using s2(3) p by (auto simp: spec_write_def split_beta splice_bytes_def)
  then show ?thesis using tmpfs_close_view [OF s2(2) n(1)] that [OF n(1,2) s2(1)] by metis
qed

lemma read_whole:
  assumes "tmpfs_ok s" "length path \<le> 255" "fst (files_of s) path = Some buf" "\<exists>d\<in>set (tmpfs_fds s). \<not> fd_used d" "length buf \<le> unat cnt"
  obtains n s1 s2 where "n < MAX_TMPFS_FDS" "tmpfs_open path no_flags s = (fd_word n, s1)" "tmpfs_read (of_nat n) cnt s1 = Some ((int (length buf), buf), s2)"
proof -
  obtain j where j: "find_file path s = Some j" "f_text (tmpfs_files s ! j) = buf" using assms(3) by (auto simp: files_of_def)
  have o: "open_file path no_flags s = Some (j, s)" using j(1) by (simp add: open_file_def no_flags_def)
  obtain n s1 where n: "n < MAX_TMPFS_FDS" "tmpfs_open path no_flags s = (fd_word n, s1)" "tmpfs_ok s1" "valid_fd (of_nat n) s1"
      "tmpfs_fds s1 ! n = \<lparr>file_idx = j, fd_offset = 0, fd_used = True\<rparr>" "tmpfs_files s1 = tmpfs_files s"
    by (rule tmpfs_open_new [OF assms(1,2) o assms(4)]) (auto simp: no_flags_def)
  note u = fd_word_laws [OF n(1)]
  have p: "snd (files_of s1) n = Some (f_path (tmpfs_files s ! j), 0)" "fst (files_of s1) (f_path (tmpfs_files s ! j)) = Some buf"
    using valid_position [OF n(3,4)] j(2) n(5,6) u(5) by simp_all
  obtain bs s2 where r: "tmpfs_read (of_nat n) cnt s1 = Some ((int (length bs), bs), s2)" "(bs, files_of s2) = spec_read n (unat cnt) (files_of s1)"
    using read_refines [OF n(3,4), of cnt] u(5) by auto
  then have "bs = buf" using p assms(5) by (simp add: spec_read_def split_beta Let_def)
  then show ?thesis using that [OF n(1,2)] r(1) by blast
qed

text \<open>
  C18 (roundtrip): what is written to a file under \<open>/tmp\<close> that was opened for writing is read back after the file has been closed and
  opened again.
\<close>

theorem vfs_tmp_roundtrip:
  assumes "tmpfs_ok (vfs_tmpfs v)" "vfs_overlays v = []" "starts_with ''/tmp/'' path" "length path \<le> 255"
    and "find_file path (vfs_tmpfs v) \<noteq> None \<or> (\<exists>f\<in>set (tmpfs_files (vfs_tmpfs v)). \<not> f_used f)" "\<exists>d\<in>set (tmpfs_fds (vfs_tmpfs v)). \<not> fd_used d"
    and "\<forall>c. os_alloc os c" "length buf < 2 ^ 62" "length buf \<le> unat cnt"
  shows "\<exists>fd v1 v2 v3 fd' v4 v5. vfs_open os path creating m v = Some (fd, v1) \<and> vfs_write os fd buf v1 = Some (int (length buf), v2) \<and>
    vfs_close os fd v2 = (0, v3) \<and> vfs_open os path no_flags m v3 = Some (fd', v4) \<and> vfs_read os fd' cnt v4 = Some ((int (length buf), buf), v5)"
proof -
  obtain n s1 s2 s3 where w: "n < MAX_TMPFS_FDS" "tmpfs_open path creating (vfs_tmpfs v) = (fd_word n, s1)"
      "tmpfs_write (os_alloc os) (of_nat n) buf s1 = Some (int (length buf), s2)" "tmpfs_close (of_nat n) s2 = (0, s3)" "tmpfs_ok s3"
      "fst (files_of s3) path = Some buf" "\<exists>d\<in>set (tmpfs_fds s3). \<not> fd_used d"
    by (rule write_new [OF assms(1,4-8)])
  obtain k s4 s5 where r: "k < MAX_TMPFS_FDS" "tmpfs_open path no_flags s3 = (fd_word k, s4)" "tmpfs_read (of_nat k) cnt s4 = Some ((int (length buf), buf), s5)"
    by (rule read_whole [OF w(5) assms(4) w(6,7) assms(9)])
  let ?v = "\<lambda>s. v\<lparr>vfs_tmpfs := s\<rparr>"
  have "vfs_open os path creating m v = Some (fd_word n, ?v s1)" using vfs_open_tmp [OF assms(2-4)] w(2) by (simp add: with_tmpfs_def)
  moreover have "vfs_write os (fd_word n) buf (?v s1) = Some (int (length buf), ?v s2)" "vfs_close os (fd_word n) (?v s2) = (0, ?v s3)"
    using fd_word_laws [OF w(1)] w(3,4) by (simp_all add: vfs_write_def vfs_close_def with_tmpfs_def)
  moreover have "vfs_open os path no_flags m (?v s3) = Some (fd_word k, ?v s4)" using vfs_open_tmp [of "?v s3"] assms(2-4) r(2) by (simp add: with_tmpfs_def)
  moreover have "vfs_read os (fd_word k) cnt (?v s4) = Some ((int (length buf), buf), ?v s5)"
    using fd_word_laws [OF r(1)] r(3) by (simp add: vfs_read_def with_tmpfs_def)
  ultimately show ?thesis by blast
qed

section \<open>Examples\<close>

definition demo_os :: "unit os" where
  "demo_os = \<lparr>os_open = (\<lambda>_ _ _ w. (- 1, w)), os_read = (\<lambda>_ _ w. ((- 1, []), w)), os_write = (\<lambda>_ _ w. (- 1, w)), os_lseek = (\<lambda>_ _ _ w. (- 1, w)),
     os_close = (\<lambda>_ w. (- 1, w)), os_pread = (\<lambda>_ _ _ w. ((- 1, []), w)), os_pwrite = (\<lambda>_ _ _ w. (- 1, w)),
     os_stat = (\<lambda>_ w. ((- 1, populate_dev_stat), w)), os_lstat = (\<lambda>_ w. ((- 1, populate_dev_stat), w)), os_fstat = (\<lambda>_ w. ((- 1, populate_dev_stat), w)),
     os_mkdir = (\<lambda>_ _ w. (- 1, w)), os_unlink = (\<lambda>_ w. (- 1, w)), os_rename = (\<lambda>_ _ w. (- 1, w)), os_opendir = (\<lambda>_ w. (0, w)),
     os_rand = (\<lambda>w. (0, w)), os_alloc = (\<lambda>_. True)\<rparr>"

definition demo_vfs :: "unit vfs" where
  "demo_vfs = \<lparr>vfs_overlays = [], vfs_disks = [\<lparr>d_name = ''root'', d_mode = DISK_WRITABLE\<rparr>], vfs_tmpfs = tmpfs_init, vfs_world = ()\<rparr>"

lemma tmpfs_init_free: "\<exists>f\<in>set (tmpfs_files tmpfs_init). \<not> f_used f" "\<exists>d\<in>set (tmpfs_fds tmpfs_init). \<not> fd_used d"
  by (simp_all add: tmpfs_init_def no_file_def no_fd_def MAX_TMPFS_FILES_def MAX_TMPFS_FDS_def)

theorem vfs_tmp_roundtrip_witness:
  "\<exists>fd v1 v2 v3 fd' v4 v5. vfs_open demo_os ''/tmp/a'' creating 0 demo_vfs = Some (fd, v1) \<and> vfs_write demo_os fd [Some 1, Some 2] v1 = Some (2, v2) \<and>
     vfs_close demo_os fd v2 = (0, v3) \<and> vfs_open demo_os ''/tmp/a'' no_flags 0 v3 = Some (fd', v4) \<and>
     vfs_read demo_os fd' 8 v4 = Some ((2, [Some 1, Some 2]), v5)"
  using vfs_tmp_roundtrip [of demo_vfs "''/tmp/a''" demo_os "[Some 1, Some 2]" 8 0] tmpfs_init_ok tmpfs_init_free
  by (simp add: demo_vfs_def demo_os_def starts_with_def)

text \<open>The first file and descriptor of an empty file system.\<close>

lemma tmpfs_init_Cons:
  "tmpfs_files tmpfs_init = no_file # replicate 255 no_file" "tmpfs_fds tmpfs_init = no_fd # no_fd # replicate 510 no_fd"
  using replicate_Suc [of 255 no_file] replicate_Suc [of 511 no_fd] replicate_Suc [of 510 no_fd]
  by (simp_all add: tmpfs_init_def MAX_TMPFS_FILES_def MAX_TMPFS_FDS_def del: replicate_Suc)

lemma find_index_replicate: "\<not> P x \<Longrightarrow> find_index P (replicate n x) = None"
  by (induction n) auto

definition new_file :: "string \<Rightarrow> TmpfsFile" where
  "new_file path = \<lparr>f_path = path, f_data = [], f_size = 0, f_cap = 0, f_used = True\<rparr>"

definition at_start :: TmpfsFd where
  "at_start = \<lparr>file_idx = 0, fd_offset = 0, fd_used = True\<rparr>"

lemma no_find: "find_file path s = None" if "\<And>f. f \<in> set (tmpfs_files s) \<Longrightarrow> \<not> f_used f"
proof (rule ccontr)
  assume "find_file path s \<noteq> None"
  then obtain i where "find_file path s = Some i" by blast
  then have "i < length (tmpfs_files s) \<and> f_used (tmpfs_files s ! i)" using find_index_Some by (auto simp: find_file_def)
  then show False using that nth_mem by blast
qed

lemma first_open:
  assumes "length path \<le> 255"
  shows "tmpfs_open path creating tmpfs_init =
    (fd_word 0, \<lparr>tmpfs_files = new_file path # replicate 255 no_file, tmpfs_fds = at_start # no_fd # replicate 510 no_fd\<rparr>)"
proof -
  have "find_file path tmpfs_init = None" by (rule no_find) (auto simp: tmpfs_init_Cons no_file_def)
  then have "open_file path creating tmpfs_init = Some (0, \<lparr>tmpfs_files = new_file path # replicate 255 no_file, tmpfs_fds = no_fd # no_fd # replicate 510 no_fd\<rparr>)"
    using assms by (simp add: open_file_def creating_def update_file_def tmpfs_init_Cons new_file_def no_file_def [THEN arg_cong [of _ _ f_used]]
        tmpfs.equality)
  then show ?thesis by (simp add: tmpfs_open_def no_fd_def creating_def update_fd_def fd_word_def at_start_def)
qed

text \<open>After its file is removed, a descriptor still names the file's slot, and the next new file takes the slot.\<close>

definition stale_state :: "string \<Rightarrow> tmpfs" where
  "stale_state q = \<lparr>tmpfs_files = new_file q # replicate 255 no_file, tmpfs_fds = at_start # at_start # replicate 510 no_fd\<rparr>"

lemma stale_open:
  assumes "length p \<le> 255" "length q \<le> 255"
  shows "tmpfs_open q creating (snd (tmpfs_unlink p (snd (tmpfs_open p creating tmpfs_init)))) = (fd_word 1, stale_state q)"
proof -
  let ?s = "\<lparr>tmpfs_files = new_file p # replicate 255 no_file, tmpfs_fds = at_start # no_fd # replicate 510 no_fd\<rparr>"
  let ?t = "\<lparr>tmpfs_files = (new_file p)\<lparr>f_used := False\<rparr> # replicate 255 no_file, tmpfs_fds = at_start # no_fd # replicate 510 no_fd\<rparr>"
  have "find_file p ?s = Some 0" by (simp add: find_file_def new_file_def)
  then have u: "snd (tmpfs_unlink p ?s) = ?t" by (simp add: tmpfs_unlink_def update_file_def new_file_def)
  have "find_file q ?t = None" by (rule no_find) (auto simp: no_file_def)
  then have "open_file q creating ?t = Some (0, \<lparr>tmpfs_files = new_file q # replicate 255 no_file, tmpfs_fds = at_start # no_fd # replicate 510 no_fd\<rparr>)"
    using assms(2) by (simp add: open_file_def creating_def update_file_def new_file_def)
  then have "tmpfs_open q creating ?t = (fd_word 1, stale_state q)"
    by (simp add: tmpfs_open_def no_fd_def creating_def update_fd_def fd_word_def at_start_def stale_state_def)
  then show ?thesis using first_open [OF assms(1)] u by simp
qed

lemma stale_ok: "tmpfs_ok (stale_state q)"
proof -
  have "paths_distinct (new_file q # replicate 255 no_file)"
    by (auto simp: paths_distinct_def nth_Cons no_file_def split: nat.splits)
  then show ?thesis
    by (auto simp: tmpfs_ok_def stale_state_def MAX_TMPFS_FILES_def MAX_TMPFS_FDS_def file_ok_def new_file_def power_cap_def fd_ok_def at_start_def
        no_file_def no_fd_def)
qed

lemma stale_fds: "valid_fd 0 (stale_state q)" "valid_fd 1 (stale_state q)"
  by (simp_all add: valid_fd_def stale_state_def at_start_def MAX_TMPFS_FDS_def)



text \<open>A seek below the start is not refused, and a write there leaves the block.\<close>

lemma seek_below_start:
  assumes "tmpfs_ok s" "valid_fd i s" "tmpfs_lseek i (- 1) SEEK_SET s = (r, s')"
  shows "tmpfs_write alloc i [b] s' = None"
proof -
  let ?d = "tmpfs_fds s ! unat i"
  note v = valid_fd_laws [OF assms(1,2)]
  have s': "s' = update_fd (unat i) (\<lambda>d. d\<lparr>fd_offset := - 1\<rparr>) s" using assms(2,3) by (simp add: tmpfs_lseek_def on_fd_if)
  have d: "tmpfs_fds s' ! unat i = ?d\<lparr>fd_offset := - 1\<rparr>" "tmpfs_files s' = tmpfs_files s" "valid_fd i s'"
    using v(1) assms(2) by (simp_all add: s' update_fd_def valid_fd_def)
  have "length (f_data (tmpfs_files s ! file_idx ?d)) < 2 ^ 64" using v(3) unsigned_less [of "f_cap (tmpfs_files s ! file_idx ?d)"] by (simp add: file_ok_def)
  moreover have "unat (- 1 :: u64) = 2 ^ 64 - 1" by (simp add: unsigned_minus_1_eq_mask mask_eq_exp_minus_1)
  ultimately show ?thesis using d by (simp add: tmpfs_write_def on_fd_if ensure_cap_def)
qed

section \<open>Paths\<close>

text \<open>A path on a disk goes to the directory of the disk.\<close>

lemma resolve_disk:
  assumes "find (\<lambda>d. d_name d = name) disks = Some d" "length name < MAX_DISK_NAME" "CHR ''/'' \<notin> set name"
    and "length (disk_dir d @ CHR ''/'' # rest) < n"
  shows "vfs_resolve_path [] disks n (''/disk/'' @ name @ CHR ''/'' # rest) = disk_dir d @ CHR ''/'' # rest"
proof -
  have "takeWhile (\<lambda>c. c \<noteq> CHR ''/'') (name @ CHR ''/'' # rest) = name" using assms(3) by (subst takeWhile_append2) auto
  moreover have "drop (6 + length name) (''/disk/'' @ name @ CHR ''/'' # rest) = CHR ''/'' # rest" by (simp add: eval_nat_numeral)
  ultimately show ?thesis using assms(1,2,4) by (simp add: vfs_resolve_path_def vfs_is_vfs_path_def starts_with_def MAX_DISK_NAME_def)
qed

text \<open>Nothing keeps a path inside the directory of its disk, and an overlay takes paths that only begin like its own.\<close>

lemma resolve_escapes:
  "vfs_resolve_path [] [\<lparr>d_name = ''root'', d_mode = DISK_WRITABLE\<rparr>] 1024 ''/disk/root/../../key'' = ''./.curica_disks/root/../../key''"
  "vfs_resolve_path [\<lparr>host_path = ''/srv/a'', vfs_path = ''/data''\<rparr>] [] 1024 ''/database'' = ''/srv/abase''"
  by code_simp+

theorem tmpfs_memory_safe_witness:
  "tmpfs_read 0 8 (snd (tmpfs_open ''/tmp/a'' creating tmpfs_init)) \<noteq> None"
proof -
  obtain fd s where s: "tmpfs_open ''/tmp/a'' creating tmpfs_init = (fd, s)" by force
  have "tmpfs_step (\<lambda>_. True) tmpfs_init s" by (rule step_open [OF _ s]) simp
  then show ?thesis using tmpfs_memory_safe [of "\<lambda>_. True" s 0 8 "[]"] s by (simp add: r_into_rtranclp)
qed

theorem tmpfs_refines_witness:
  "(\<exists>bs s'. tmpfs_read 0 8 (stale_state ''/tmp/a'') = Some ((int (length bs), bs), s')) \<and>
   (\<exists>s'. tmpfs_write (\<lambda>_. True) 0 [Some 7] (stale_state ''/tmp/a'') = Some (1, s') \<and> fst (files_of s') ''/tmp/a'' = Some [Some 7])"
proof -
  let ?s = "stale_state ''/tmp/a''"
  have w: "small_write 0 [Some 7] ?s" by (simp add: small_write_def on_fd_if stale_state_def at_start_def)
  have p: "files_of ?s = (fst (files_of ?s), snd (files_of ?s))" "snd (files_of ?s) 0 = Some (''/tmp/a'', 0)" "fst (files_of ?s) ''/tmp/a'' = Some []"
    using valid_position [OF stale_ok stale_fds(1), of "''/tmp/a''"] by (simp_all add: stale_state_def at_start_def new_file_def f_text_def)
  show ?thesis using tmpfs_refines [OF stale_ok stale_fds(1) _ w, of "\<lambda>_. True" 8] p
    by (auto simp: stale_state_def at_start_def new_file_def spec_write_def split_beta splice_bytes_def)
qed

end
