(* ===== verification/Promises.thy ===== *)
theory Promises
  imports Task_Queues Json_Laws
begin

text \<open>
  Promises: the constructor, \<open>Promise.try\<close>, \<open>then\<close>, \<open>catch\<close> and the two functions that settle a promise, of \<open>src/src/builtins.c\<close>.
  A promise is an object of the heap with its state (0 pending, 1 fulfilled, 2 rejected), its result and the array of
  what \<open>then\<close> has registered; reactions go to the microtask queue. Running a JavaScript function is a
  parameter that returns a value or an error.
\<close>

section \<open>Operations\<close>

type_synonym pstate = "heap \<times> VMQueues"

type_synonym prun = "Value \<Rightarrow> Value list \<Rightarrow> pstate \<Rightarrow> (Value + Value) \<times> pstate"

text \<open>The code addresses of the two functions that settle a promise.\<close>

record promise_code =
  resolve_code :: u64
  reject_code :: u64

definition js_promise_constructor :: "promise_code \<Rightarrow> prun \<Rightarrow> Value list \<Rightarrow> pstate \<Rightarrow> (Value + Value) \<times> pstate" where
  "js_promise_constructor pc run_fn args s =
     (case args of
        f # _ \<Rightarrow>
          if \<not> IS_POINTER f then (Inr VAL_UNDEFINED, s)
          else let (h, q) = s; (promise, h) = create_promise 0 VAL_UNDEFINED h;
                   (n1, h) = create_string ''resolve'' h; (resolve_fn, h) = create_bound_native_function (resolve_code pc) n1 promise h;
                   (n2, h) = create_string ''reject'' h; (reject_fn, h) = create_bound_native_function (reject_code pc) n2 promise h
               in (case run_fn f [resolve_fn, reject_fn] (h, q) of
                     (Inl err, s) \<Rightarrow> (Inl err, s)
                   | (Inr _, s) \<Rightarrow> (Inr promise, s))
      | [] \<Rightarrow> (Inr VAL_UNDEFINED, s))"

text \<open>
  \<open>Promise.try\<close> installs an error handler around the call. Its message is 40 characters long and passed with the length 38.
\<close>

definition js_promise_try :: "prun \<Rightarrow> Value list \<Rightarrow> pstate \<Rightarrow> Value \<times> pstate" where
  "js_promise_try run_fn args s =
     (if args = [] \<or> \<not> IS_POINTER (args ! 0)
      then let (h, q) = s; (m, h) = create_string ''Promise.try requires a function argume'' h; (err, h) = create_error ''TypeError'' m h;
               (p, h) = create_promise 2 err h
           in (p, (h, q))
      else case run_fn (args ! 0) [] s of
             (Inl err, h, q) \<Rightarrow> let (p, h) = create_promise 2 err h in (p, (h, q))
           | (Inr res, h, q) \<Rightarrow>
               (case deref h res of
                  Some (OPromise _ _ _) \<Rightarrow> (res, (h, q))
                | _ \<Rightarrow> let (p, h) = create_promise 1 res h in (p, (h, q))))"

text \<open>The array of reactions grows to twice its capacity when it is full.\<close>

definition push_reaction :: "Value \<Rightarrow> Value \<Rightarrow> heap \<Rightarrow> heap option" where
  "push_reaction cbs cb_obj h =
     (case deref h cbs of
        Some (OArray es cap) \<Rightarrow>
          let cap = (if length es \<ge> cap then cap * 2 else cap)
          in if length es < cap then Some (put_obj cbs (OArray (es @ [cb_obj]) cap) h) else None
      | _ \<Rightarrow> None)"

definition register :: "Value \<Rightarrow> u32 \<Rightarrow> Value \<Rightarrow> Value \<Rightarrow> Value \<Rightarrow> Value \<Rightarrow> heap \<Rightarrow> heap option" where
  "register prom st res cbs on_fulfilled on_rejected h =
     (let (cbs, h) = (if IS_NULL cbs then let (a, h) = create_array 2 h in (a, put_obj prom (OPromise st res a) h) else (cbs, h));
          (cb_obj, h) = create_object h; (k1, h) = create_string ''resolve'' h
      in Option.bind (object_set cb_obj k1 on_fulfilled h) (\<lambda>h.
           let (k2, h) = create_string ''reject'' h
           in Option.bind (object_set cb_obj k2 on_rejected h) (push_reaction cbs cb_obj)))"

definition enqueue_if :: "Value \<Rightarrow> Value \<Rightarrow> VMQueues \<Rightarrow> VMQueues" where
  "enqueue_if cb arg q = (if IS_POINTER cb then vm_enqueue_microtask q cb arg else q)"

definition arg_or_undefined :: "Value list \<Rightarrow> nat \<Rightarrow> Value" where
  "arg_or_undefined args i = (if i < length args then args ! i else VAL_UNDEFINED)"

definition js_promise_then :: "Value \<Rightarrow> Value list \<Rightarrow> pstate \<Rightarrow> (Value \<times> pstate) option" where
  "js_promise_then this args s =
     (let (h, q) = s; on_fulfilled = arg_or_undefined args 0; on_rejected = arg_or_undefined args 1
      in if \<not> IS_POINTER this then Some (VAL_UNDEFINED, s)
         else case deref h this of
                None \<Rightarrow> None
              | Some (OPromise st res cbs) \<Rightarrow>
                  if st = 1 then Some (this, (h, enqueue_if on_fulfilled res q))
                  else if st = 2 then Some (this, (h, enqueue_if on_rejected res q))
                  else map_option (\<lambda>h. (this, (h, q))) (register this st res cbs on_fulfilled on_rejected h)
              | Some _ \<Rightarrow> Some (VAL_UNDEFINED, s))"

definition js_promise_catch :: "Value \<Rightarrow> Value list \<Rightarrow> pstate \<Rightarrow> (Value \<times> pstate) option" where
  "js_promise_catch this args s =
     (case args of
        [] \<Rightarrow> js_promise_then this [] s
      | a # _ \<Rightarrow> js_promise_then this [VAL_UNDEFINED, a] s)"

text \<open>The loop over the reactions, with the key of the one to run.\<close>

fun react :: "protos \<Rightarrow> Value \<Rightarrow> Value \<Rightarrow> Value list \<Rightarrow> pstate \<Rightarrow> pstate option" where
  "react pr key res [] s = Some s"
| "react pr key res (cb_obj # es) s =
     (let (h, q) = s
      in Option.bind (object_get pr cb_obj key h) (\<lambda>(f, h). react pr key res es (h, enqueue_if f res q)))"

definition set_promise :: "Value \<Rightarrow> u32 \<Rightarrow> Value \<Rightarrow> Value \<Rightarrow> heap \<Rightarrow> heap" where
  "set_promise p st res cbs h = put_obj p (OPromise st res cbs) h"

definition settle :: "protos \<Rightarrow> u32 \<Rightarrow> string \<Rightarrow> Value \<Rightarrow> Value list \<Rightarrow> pstate \<Rightarrow> (Value \<times> pstate) option" where
  "settle pr st key_text this args s =
     (let (h, q) = s; res = arg_or_undefined args 0
      in if \<not> IS_POINTER this then Some (VAL_UNDEFINED, s)
         else case deref h this of
                None \<Rightarrow> None
              | Some (OPromise st0 res0 cbs) \<Rightarrow>
                  if st0 \<noteq> 0 then Some (VAL_UNDEFINED, s)
                  else let h = set_promise this st res cbs h
                       in if IS_NULL cbs then Some (VAL_UNDEFINED, (h, q))
                          else (case deref h cbs of
                                  Some (OArray es cap) \<Rightarrow>
                                    let (key, h) = create_string key_text h
                                    in map_option (\<lambda>(h, q). (VAL_UNDEFINED, (set_promise this st res VAL_NULL h, q))) (react pr key res es (h, q))
                                | _ \<Rightarrow> None)
              | Some _ \<Rightarrow> Some (VAL_UNDEFINED, s))"

definition js_promise_resolve_func :: "protos \<Rightarrow> Value \<Rightarrow> Value list \<Rightarrow> pstate \<Rightarrow> (Value \<times> pstate) option" where
  "js_promise_resolve_func pr = settle pr 1 ''resolve''"

definition js_promise_reject_func :: "protos \<Rightarrow> Value \<Rightarrow> Value list \<Rightarrow> pstate \<Rightarrow> (Value \<times> pstate) option" where
  "js_promise_reject_func pr = settle pr 2 ''reject''"

section \<open>Reactions on the heap\<close>

text \<open>An object that holds what one \<open>then\<close> has registered, and a pending promise with its registrations in order.\<close>

definition reaction :: "heap \<Rightarrow> Value \<Rightarrow> Value \<Rightarrow> Value \<Rightarrow> bool" where
  "reaction h ob f r \<longleftrightarrow> (\<exists>ps c. deref h ob = Some (OObject ps c) \<and> props_ok h ps \<and> table h ps ''resolve'' = Some f \<and> table h ps ''reject'' = Some r)"

definition pending :: "heap \<Rightarrow> Value \<Rightarrow> (Value \<times> Value) list \<Rightarrow> bool" where
  "pending h p rs \<longleftrightarrow> (\<exists>res cbs. deref h p = Some (OPromise 0 res cbs) \<and>
     (if IS_NULL cbs then rs = []
      else \<exists>es cap. deref h cbs = Some (OArray es cap) \<and> 0 < cap \<and> length es \<le> cap \<and> list_all2 (\<lambda>ob x. reaction h ob (fst x) (snd x)) es rs))"

definition settled :: "heap \<Rightarrow> Value \<Rightarrow> u32 \<Rightarrow> Value \<Rightarrow> bool" where
  "settled h p st v \<longleftrightarrow> (\<exists>cbs. deref h p = Some (OPromise st v cbs))"

lemma reaction_extends: "reaction h ob f r \<Longrightarrow> extends h h' \<Longrightarrow> reaction h' ob f r"
  unfolding reaction_def using props_ok_extends [of h h'] by (auto simp: extends_def)

lemma reaction_put:
  assumes "reaction h ob f r" "deref h a = Some x" "\<And>ps c. x \<noteq> OObject ps c" "\<And>s. x \<noteq> OString s" "\<And>s. y \<noteq> OString s"
  shows "reaction (put_obj a y h) ob f r"
proof -
  obtain ps c where o: "deref h ob = Some (OObject ps c)" "props_ok h ps" "table h ps ''resolve'' = Some f" "table h ps ''reject'' = Some r"
    using assms(1) by (auto simp: reaction_def)
  have st: "str_of (put_obj a y h) = str_of h" using put_obj_str [OF assms(2,4,5)] by (simp add: fun_eq_iff)
  have "\<not> (IS_POINTER ob \<and> get_pointer ob = get_pointer a)" using o(1) assms(2,3) by (auto simp: deref_def split: if_splits)
  then have "deref (put_obj a y h) ob = Some (OObject ps c)" using o(1) put_obj_deref [OF assms(2), of y ob] by auto
  then show ?thesis using o(2-4) by (auto simp: reaction_def props_ok_def string_keys_def table_def st)
qed

lemma object_set_fresh:
  assumes "deref h ob = Some (OObject ps c)" "props_ok h ps" "length ps \<le> c" "str_of h key = Some s"
  obtains h' ps' c' where "object_set ob key v h = Some h'" "h' = put_obj ob (OObject ps' c') h" "deref h' ob = Some (OObject ps' c')" "props_ok h' ps'"
    "table h' ps' = (table h ps)(s \<mapsto> v)" "length ps' \<le> c'"
proof -
  have key: "IS_POINTER key" using assms(4) by (auto simp: str_of_def deref_def split: if_splits)
  obtain ps' c' where set: "props_set h ps c key v = (ps', c')" by force
  let ?h = "put_obj ob (OObject ps' c') h"
  note up = props_set_table [OF assms(2,3,4) key set]
  have st: "str_of ?h = str_of h" using put_obj_str [OF assms(1)] by (simp add: fun_eq_iff)
  have "deref ?h ob = Some (OObject ps' c')"
    using assms(1) by (simp add: put_obj_deref [OF assms(1)]) (auto simp: deref_def split: if_splits)
  moreover have "props_ok ?h ps'" "table ?h ps' = (table h ps)(s \<mapsto> v)" using up by (simp_all add: props_ok_def string_keys_def table_def st)
  ultimately show ?thesis using that object_set_object [OF assms(1) key] set up(3) by simp
qed

text \<open>Storing into an object that is not in an older heap keeps what the older heap has.\<close>

lemma extends_put_fresh:
  assumes "extends h0 h" "deref h0 a = None" "deref h a = Some x" "\<And>v ob. deref h0 v = Some ob \<Longrightarrow> deref h v = Some ob"
  shows "extends h0 (put_obj a y h)"
  unfolding extends_def
proof (intro allI impI)
  fix v ob assume v: "deref h0 v = Some ob"
  then have "\<not> (IS_POINTER v \<and> get_pointer v = get_pointer a)" using assms(2,3) by (auto simp: deref_def split: if_splits)
  then show "deref (put_obj a y h) v = Some ob" using assms(1) v put_obj_deref [OF assms(3), of y v] by (auto simp: extends_def)
qed

lemma new_reaction:
  assumes "roomy h (Suc (Suc (Suc m)))" "create_object h = (ob, h1)" "create_string ''resolve'' h1 = (k1, h2)"
  obtains h3 h4 k2 h5 where "object_set ob k1 f h2 = Some h3" "create_string ''reject'' h3 = (k2, h4)" "object_set ob k2 r h4 = Some h5"
    "roomy h5 m" "extends h h5" "reaction h5 ob f r"
proof -
  note a1 = roomy_alloc [OF assms(1) assms(2) [unfolded create_object_def]]
  note a2 = roomy_string [OF a1(1) assms(3)]
  have d2: "deref h2 ob = Some (OObject [] 4)" using a1(3) a2(3) by (simp add: extends_def)
  have "props_ok h2 []" by (simp add: props_ok_def string_keys_def)
  then obtain h3 ps c where s3: "object_set ob k1 f h2 = Some h3" "h3 = put_obj ob (OObject ps c) h2" "deref h3 ob = Some (OObject ps c)" "props_ok h3 ps"
      "table h3 ps = (table h2 [])(''resolve'' \<mapsto> f)" "length ps \<le> c"
    using object_set_fresh [OF d2 _ _ a2(2)] by (metis list.size(3) zero_le)
  have r3: "roomy h3 (Suc m)" unfolding s3(2) by (rule roomy_put_obj [OF a2(1) d2]) auto
  have e3: "extends h h3" unfolding s3(2)
    by (rule extends_put_fresh [OF extends_trans [OF a1(4) a2(3)] a1(5) d2]) (use extends_trans [OF a1(4) a2(3)] in \<open>auto simp: extends_def\<close>)
  obtain k2 h4 where k2: "create_string ''reject'' h3 = (k2, h4)" by force
  note a4 = roomy_string [OF r3 k2]
  have d4: "deref h4 ob = Some (OObject ps c)" using a4(3) s3(3) by (simp add: extends_def)
  obtain h5 ps' c' where s5: "object_set ob k2 r h4 = Some h5" "h5 = put_obj ob (OObject ps' c') h4" "deref h5 ob = Some (OObject ps' c')" "props_ok h5 ps'"
      "table h5 ps' = (table h4 ps)(''reject'' \<mapsto> r)" "length ps' \<le> c'"
    by (rule object_set_fresh [OF d4 props_ok_extends(1) [OF a4(3) s3(4)] s3(6) a4(2)])
  have "table h5 ps' ''resolve'' = Some f" "table h5 ps' ''reject'' = Some r" using s5(5) s3(5) props_ok_extends(2) [OF a4(3) s3(4)] by simp_all
  then have "reaction h5 ob f r" using s5(3,4) by (auto simp: reaction_def)
  moreover have "roomy h5 m" unfolding s5(2) by (rule roomy_put_obj [OF a4(1) d4]) auto
  moreover have "extends h h5" unfolding s5(2)
    by (rule extends_put_fresh [OF extends_trans [OF e3 a4(3)] a1(5) d4]) (use extends_trans [OF e3 a4(3)] in \<open>auto simp: extends_def\<close>)
  ultimately show ?thesis using that s3(1) k2 s5(1) by blast
qed

lemma arena_roomy_mono: "roomy h n \<Longrightarrow> m \<le> n \<Longrightarrow> roomy h m"
  by (auto simp: roomy_def room_def)

lemma register_step:
  assumes "deref h p = Some (OPromise 0 res cbs)" "deref h cbs = Some (OArray es cap)" "0 < cap" "length es \<le> cap"
    "list_all2 (\<lambda>ob x. reaction h ob (fst x) (snd x)) es rs" "roomy h (Suc (Suc (Suc m)))" "create_object h = (ob, h1)" "create_string ''resolve'' h1 = (k1, h2)"
  obtains h' where "Option.bind (object_set ob k1 f h2) (\<lambda>h. let (k2, h) = create_string ''reject'' h
      in Option.bind (object_set ob k2 r h) (push_reaction cbs ob)) = Some h'" "roomy h' m" "pending h' p (rs @ [(f, r)])"
proof -
  obtain h3 h4 k2 h5 where s: "object_set ob k1 f h2 = Some h3" "create_string ''reject'' h3 = (k2, h4)" "object_set ob k2 r h4 = Some h5"
      "roomy h5 m" "extends h h5" "reaction h5 ob f r"
    by (rule new_reaction [OF assms(6-8)])
  let ?cap = "if length es \<ge> cap then cap * 2 else cap" and ?es = "es @ [ob]"
  let ?h = "put_obj cbs (OArray ?es ?cap) h5"
  have d: "deref h5 p = Some (OPromise 0 res cbs)" "deref h5 cbs = Some (OArray es cap)" using assms(1,2) s(5) by (auto simp: extends_def)
  have push: "push_reaction cbs ob h5 = Some ?h" using d(2) assms(3,4) by (auto simp: push_reaction_def)
  have "\<not> IS_NULL cbs" using d(2) by (auto simp: deref_def kind_simps split: if_splits)
  moreover have "deref ?h p = Some (OPromise 0 res cbs)" using d by (auto simp: deref_def put_obj_def split: if_splits)
  moreover have "deref ?h cbs = Some (OArray ?es ?cap)" using d(2) by (simp add: put_obj_deref [OF d(2)]) (auto simp: deref_def split: if_splits)
  moreover have "list_all2 (\<lambda>ob x. reaction ?h ob (fst x) (snd x)) es rs"
    using assms(5) by (rule list.rel_mono_strong) (use reaction_put [OF reaction_extends [OF _ s(5)] d(2)] in auto)
  moreover have "reaction ?h ob f r" by (rule reaction_put [OF s(6) d(2)]) auto
  ultimately have "pending ?h p (rs @ [(f, r)])" using assms(3,4) by (auto simp: pending_def list_all2_appendI)
  moreover have "roomy ?h m" by (rule roomy_put_obj [OF s(4) d(2)]) auto
  ultimately show ?thesis using that s(1-3) push by simp
qed

lemma then_registers:
  assumes "pending h p rs" "roomy h (4 + m)"
  obtains h' where "js_promise_then p [f, r] (h, q) = Some (p, (h', q))" "roomy h' m" "pending h' p (rs @ [(f, r)])"
proof -
  obtain res cbs where p: "deref h p = Some (OPromise 0 res cbs)" using assms(1) by (auto simp: pending_def)
  have ptr: "IS_POINTER p" using p by (simp add: deref_def split: if_splits)
  obtain h' where h': "register p 0 res cbs f r h = Some h'" "roomy h' m" "pending h' p (rs @ [(f, r)])"
  proof (cases "IS_NULL cbs")
    case True
    then have rs: "rs = []" using assms(1) p by (auto simp: pending_def)
    obtain a h1 where a: "create_array 2 h = (a, h1)" by force
    have "roomy h (Suc (Suc (Suc (Suc m))))" using assms(2) by (simp add: eval_nat_numeral)
    note al = roomy_alloc [OF this a [unfolded create_array_def]]
    let ?h = "put_obj p (OPromise 0 res a) h1"
    have p1: "deref h1 p = Some (OPromise 0 res cbs)" using al(4) p by (simp add: extends_def)
    have d: "deref ?h p = Some (OPromise 0 res a)" "deref ?h a = Some (OArray [] 2)" using p1 al(3) by (auto simp: deref_def put_obj_def split: if_splits)
    have room: "roomy ?h (Suc (Suc (Suc m)))" by (rule roomy_put_obj [OF al(1) p1]) auto
    obtain ob h2 where ob: "create_object ?h = (ob, h2)" by force
    obtain k1 h3 where k1: "create_string ''resolve'' h2 = (k1, h3)" by force
    show ?thesis by (rule register_step [OF d _ _ _ room ob k1, of "[]" f r]) (use that True a ob k1 rs in \<open>auto simp: register_def\<close>)
  next
    case False
    then obtain es cap where e: "deref h cbs = Some (OArray es cap)" "0 < cap" "length es \<le> cap" "list_all2 (\<lambda>ob x. reaction h ob (fst x) (snd x)) es rs"
      using assms(1) p by (auto simp: pending_def)
    have room: "roomy h (Suc (Suc (Suc m)))" by (rule arena_roomy_mono [OF assms(2)]) simp
    obtain ob h2 where ob: "create_object h = (ob, h2)" by force
    obtain k1 h3 where k1: "create_string ''resolve'' h2 = (k1, h3)" by force
    show ?thesis by (rule register_step [OF p e room ob k1, of f r]) (use that False ob k1 in \<open>auto simp: register_def\<close>)
  qed
  have "js_promise_then p [f, r] (h, q) = Some (p, (h', q))" using ptr p h'(1) by (simp add: js_promise_then_def arg_or_undefined_def)
  then show ?thesis using that h'(2,3) by blast
qed

section \<open>Settling\<close>

text \<open>A callback, or a bound copy of it: what \<open>object_get\<close> makes of a function it finds.\<close>

definition same_code :: "heap \<Rightarrow> Value \<Rightarrow> Value \<Rightarrow> bool" where
  "same_code h f c \<longleftrightarrow> c = f \<or> (\<exists>fn g. deref h f = Some (OFunction fn) \<and> deref h c = Some (OFunction g) \<and> bytecode_offset g = bytecode_offset fn \<and>
     (if bytecode_offset fn = NATIVE then native_ptr g = native_ptr fn \<and> user_data g = get_pointer f
      else prog g = prog fn \<and> native_ptr g = get_pointer f))"

lemma same_code_extends: "same_code h f c \<Longrightarrow> extends h h' \<Longrightarrow> same_code h' f c"
  unfolding same_code_def extends_def by blast

lemma maybe_bind_laws:
  assumes "roomy h (Suc m)" "maybe_bind_method f ob h = (c, h')"
  shows "extends h h'" "roomy h' m" "same_code h' f c" "IS_POINTER c \<longleftrightarrow> IS_POINTER f"
proof -
  have "extends h h' \<and> roomy h' m \<and> same_code h' f c \<and> (IS_POINTER c \<longleftrightarrow> IS_POINTER f)"
  proof (cases "(c, h') = (f, h)")
    case True
    then show ?thesis using arena_roomy_mono [OF assms(1), of m] by (simp add: same_code_def)
  next
    case False
    then obtain fn where fn: "deref h f = Some (OFunction fn)" using assms(2) by (auto simp: maybe_bind_method_def split: option.splits hobj.splits)
    have pf: "IS_POINTER f" using fn by (simp add: deref_def split: if_splits)
    show ?thesis
    proof (cases "bytecode_offset fn = NATIVE")
      case True
      obtain b h1 where b: "create_bound_native_function (native_ptr fn) (f_name fn) ob h = (b, h1)" by force
      note al = roomy_alloc [OF assms(1) b [unfolded create_bound_native_function_def]]
      obtain g where g: "deref h1 b = Some (OFunction g)" "bytecode_offset g = NATIVE" "native_ptr g = native_ptr fn" using al(3) by auto
      let ?g = "OFunction (g\<lparr>user_data := get_pointer f\<rparr>)"
      have c: "c = b" "h' = put_obj b ?g h1" using assms(2) False fn True b g(1) by (auto simp: maybe_bind_method_def split: if_splits)
      have "extends h h'" unfolding c(2) by (rule extends_put_fresh [OF al(4,5) g(1)]) (use al(4) in \<open>auto simp: extends_def\<close>)
      moreover have "deref h' b = Some ?g" unfolding c(2) using al(6) by (simp add: deref_def put_obj_def)
      moreover have "roomy h' m" unfolding c(2) by (rule roomy_put_obj [OF al(1) g(1)]) auto
      moreover have "deref h' f = Some (OFunction fn)" using calculation(1) fn by (simp add: extends_def)
      ultimately show ?thesis using c(1) g al(6) pf True by (auto simp: same_code_def)
    next
      case nat: False
      have b: "create_bound_bytecode_function (get_pointer f) fn ob h = (c, h')"
        using assms(2) False fn nat by (auto simp: maybe_bind_method_def split: if_splits)
      note al = roomy_alloc [OF assms(1) b [unfolded create_bound_bytecode_function_def]]
      have "deref h' f = Some (OFunction fn)" using al(4) fn by (simp add: extends_def)
      then show ?thesis using al pf nat by (auto simp: same_code_def)
    qed
  qed
  then show "extends h h'" "roomy h' m" "same_code h' f c" "IS_POINTER c \<longleftrightarrow> IS_POINTER f" by auto
qed

definition pick :: "bool \<Rightarrow> Value \<times> Value \<Rightarrow> Value" where
  "pick ok x = (if ok then fst x else snd x)"

definition key_of :: "bool \<Rightarrow> string" where
  "key_of ok = (if ok then ''resolve'' else ''reject'')"

lemma react_runs:
  assumes "list_all2 (\<lambda>ob x. reaction h ob (fst x) (snd x)) es rs" "str_of h key = Some (key_of ok)" "roomy h (length es + m)" "vmq_inv q"
  shows "\<exists>h' q' cs. react pr key v es (h, q) = Some (h', q') \<and> extends h h' \<and> roomy h' m \<and> vmq_inv q' \<and>
    microtasks_of q' = microtasks_of q @ map (\<lambda>c. (c, v)) cs \<and> list_all2 (same_code h') (filter IS_POINTER (map (pick ok) rs)) cs"
  using assms
proof (induction es arbitrary: rs h q)
  case Nil
  then show ?case by (auto intro!: exI [of _ "[]"])
next
  case (Cons ob es)
  obtain x rs' where rs: "rs = x # rs'" and hd: "reaction h ob (fst x) (snd x)" and tl: "list_all2 (\<lambda>ob x. reaction h ob (fst x) (snd x)) es rs'"
    using Cons.prems(1) by (auto simp: list_all2_Cons1)
  obtain ps c where o: "deref h ob = Some (OObject ps c)" "props_ok h ps" "table h ps ''resolve'' = Some (fst x)" "table h ps ''reject'' = Some (snd x)"
    using hd unfolding reaction_def by blast
  have key: "IS_POINTER key" using Cons.prems(2) by (auto simp: str_of_def deref_def split: if_splits)
  obtain f h1 where f: "maybe_bind_method (pick ok x) ob h = (f, h1)" by force
  have "table h ps (key_of ok) = Some (pick ok x)" using o(3,4) by (simp add: key_of_def pick_def)
  then have get: "object_get pr ob key h = Some (f, h1)"
    using object_get_own_method [OF o(1) key] own_lookup_table [OF o(2) Cons.prems(2)] f by simp
  have "roomy h (Suc (length es + m))" using Cons.prems(3) by simp
  note b = maybe_bind_laws [OF this f]
  have all: "list_all2 (\<lambda>ob x. reaction h1 ob (fst x) (snd x)) es rs'"
    using tl by (rule list.rel_mono_strong) (rule reaction_extends [OF _ b(1)])
  let ?q = "enqueue_if f v q" and ?t = "if IS_POINTER (pick ok x) then [f] else []"
  have q: "vmq_inv ?q" "microtasks_of ?q = microtasks_of q @ map (\<lambda>c. (c, v)) ?t"
    using enqueue_microtask_inv [OF Cons.prems(4), of f v] Cons.prems(4) b(4) by (auto simp: enqueue_if_def)
  obtain h' q' cs where r: "react pr key v es (h1, ?q) = Some (h', q')" "extends h1 h'" "roomy h' m" "vmq_inv q'"
      "microtasks_of q' = microtasks_of ?q @ map (\<lambda>c. (c, v)) cs" "list_all2 (same_code h') (filter IS_POINTER (map (pick ok) rs')) cs"
    using Cons.IH [OF all extends_str [OF b(1) Cons.prems(2)] b(2) q(1)] by blast
  have "list_all2 (same_code h') (filter IS_POINTER (map (pick ok) rs)) (?t @ cs)"
    using r(6) same_code_extends [OF b(3) r(2)] by (simp add: rs)
  moreover have "react pr key v (ob # es) (h, q) = Some (h', q')" using get r(1) by simp
  moreover have "microtasks_of q' = microtasks_of q @ map (\<lambda>c. (c, v)) (?t @ cs)" using r(5) q(2) by simp
  ultimately show ?case using extends_trans [OF b(1) r(2)] r(3,4) by blast
qed

definition js_settle :: "bool \<Rightarrow> protos \<Rightarrow> Value \<Rightarrow> Value list \<Rightarrow> pstate \<Rightarrow> (Value \<times> pstate) option" where
  "js_settle ok pr = (if ok then js_promise_resolve_func pr else js_promise_reject_func pr)"

definition state_of :: "bool \<Rightarrow> u32" where
  "state_of ok = (if ok then 1 else 2)"

lemma js_settle_eq: "js_settle ok pr = settle pr (state_of ok) (key_of ok)"
  by (simp add: js_settle_def js_promise_resolve_func_def js_promise_reject_func_def state_of_def key_of_def)

lemma settle_runs:
  assumes "pending h p rs" "roomy h (Suc (length rs + m))" "vmq_inv q"
  shows "\<exists>h' q' cs. js_settle ok pr p [v] (h, q) = Some (VAL_UNDEFINED, (h', q')) \<and> settled h' p (state_of ok) v \<and> roomy h' m \<and> vmq_inv q' \<and>
    microtasks_of q' = microtasks_of q @ map (\<lambda>c. (c, v)) cs \<and> list_all2 (same_code h') (filter IS_POINTER (map (pick ok) rs)) cs"
proof -
  obtain res cbs where p: "deref h p = Some (OPromise 0 res cbs)" using assms(1) by (auto simp: pending_def)
  have ptr: "IS_POINTER p" using p by (simp add: deref_def split: if_splits)
  let ?h = "set_promise p (state_of ok) v cbs h"
  have sp: "deref ?h p = Some (OPromise (state_of ok) v cbs)" using ptr by (simp add: set_promise_def put_obj_def deref_def)
  have room: "roomy ?h (Suc (length rs + m))" unfolding set_promise_def by (rule roomy_put_obj [OF assms(2) p]) auto
  show ?thesis
  proof (cases "IS_NULL cbs")
    case True
    then have "rs = []" using assms(1) p by (auto simp: pending_def)
    then show ?thesis using True p ptr sp assms(3) arena_roomy_mono [OF room, of m]
      by (auto simp: js_settle_eq settle_def arg_or_undefined_def settled_def intro!: exI [of _ "[]"])
  next
    case False
    then obtain es cap where e: "deref h cbs = Some (OArray es cap)" "list_all2 (\<lambda>ob x. reaction h ob (fst x) (snd x)) es rs"
      using assms(1) p by (auto simp: pending_def)
    have e1: "deref ?h cbs = Some (OArray es cap)" using e(1) p by (auto simp: set_promise_def deref_def put_obj_def split: if_splits)
    obtain key h1 where key: "create_string (key_of ok) ?h = (key, h1)" by force
    note a = roomy_string [OF room key]
    have "list_all2 (\<lambda>ob x. reaction h1 ob (fst x) (snd x)) es rs"
      using e(2) by (rule list.rel_mono_strong) (rule reaction_extends [OF _ a(3)], unfold set_promise_def, rule reaction_put [OF _ p], auto)
    moreover have "length es = length rs" using e(2) by (rule list_all2_lengthD)
    ultimately obtain h2 q2 cs where r: "react pr key v es (h1, q) = Some (h2, q2)" "extends h1 h2" "roomy h2 m" "vmq_inv q2"
        "microtasks_of q2 = microtasks_of q @ map (\<lambda>c. (c, v)) cs" "list_all2 (same_code h2) (filter IS_POINTER (map (pick ok) rs)) cs"
      using react_runs [OF _ a(2), of es rs m q pr v] a(1) assms(3) by auto
    have p2: "deref h2 p = Some (OPromise (state_of ok) v cbs)" using sp a(3) r(2) by (auto simp: extends_def)
    let ?h2 = "set_promise p (state_of ok) v VAL_NULL h2"
    have same: "same_code ?h2 f c" if "same_code h2 f c" for f c
      using that p2 by (auto simp: same_code_def set_promise_def deref_def put_obj_def split: if_splits)
    have "list_all2 (same_code ?h2) (filter IS_POINTER (map (pick ok) rs)) cs" using r(6) by (rule list.rel_mono_strong) (rule same)
    moreover have "settled ?h2 p (state_of ok) v" using ptr by (simp add: settled_def set_promise_def put_obj_def deref_def)
    moreover have "roomy ?h2 m" unfolding set_promise_def by (rule roomy_put_obj [OF r(3) p2]) auto
    moreover have "js_settle ok pr p [v] (h, q) = Some (VAL_UNDEFINED, (?h2, q2))"
      using ptr p False e1 key r(1) by (simp add: js_settle_eq settle_def arg_or_undefined_def Let_def)
    ultimately show ?thesis using r(4,5) by blast
  qed
qed

text \<open>A run of registrations.\<close>

fun thens :: "Value \<Rightarrow> (Value \<times> Value) list \<Rightarrow> pstate \<Rightarrow> pstate option" where
  "thens p [] s = Some s"
| "thens p ((f, r) # rs) s = Option.bind (js_promise_then p [f, r] s) (\<lambda>(_, s). thens p rs s)"

lemma thens_register:
  "pending h p xs \<Longrightarrow> roomy h (4 * length rs + m) \<Longrightarrow> \<exists>h'. thens p rs (h, q) = Some (h', q) \<and> roomy h' m \<and> pending h' p (xs @ rs)"
proof (induction rs arbitrary: h xs)
  case Nil
  then show ?case by auto
next
  case (Cons x rs)
  obtain f r where x: "x = (f, r)" by (cases x)
  have "roomy h (4 + (4 * length rs + m))" using Cons.prems(2) by (simp add: add.assoc)
  then obtain h1 where h1: "js_promise_then p [f, r] (h, q) = Some (p, (h1, q))" "roomy h1 (4 * length rs + m)" "pending h1 p (xs @ [(f, r)])"
    by (rule then_registers [OF Cons.prems(1)])
  then show ?case using Cons.IH [OF h1(3,2)] by (simp add: x)
qed

text \<open>
  C9 (functional): callbacks registered while a promise is pending are queued when it is settled and not before: each once, in the order of
  registration, the ones for the outcome only, with its value. After that the promise does not change, further
  attempts to settle it do nothing, and \<open>then\<close> queues its callback at once.
\<close>

theorem promise_protocol:
  assumes "deref h p = Some (OPromise 0 res VAL_NULL)" "roomy h (Suc (5 * length rs))" "vmq_inv q"
  shows "\<exists>h1 h2 q2 cs. thens p rs (h, q) = Some (h1, q) \<and> js_settle ok pr p [v] (h1, q) = Some (VAL_UNDEFINED, (h2, q2)) \<and>
    microtasks_of q2 = microtasks_of q @ map (\<lambda>c. (c, v)) cs \<and> list_all2 (same_code h2) (filter IS_POINTER (map (pick ok) rs)) cs \<and>
    js_settle ok' pr p [w] (h2, q2) = Some (VAL_UNDEFINED, (h2, q2)) \<and>
    js_promise_then p [f, g] (h2, q2) = Some (p, (h2, enqueue_if (pick ok (f, g)) v q2))"
proof -
  have "pending h p []" using assms(1) by (auto simp: pending_def)
  moreover have "roomy h (4 * length rs + Suc (length rs + 0))" using assms(2) by (simp add: algebra_simps)
  ultimately obtain h1 where h1: "thens p rs (h, q) = Some (h1, q)" "roomy h1 (Suc (length rs + 0))" "pending h1 p rs"
    using thens_register [of h p "[]" rs "Suc (length rs + 0)" q] by auto
  obtain h2 q2 cs where s: "js_settle ok pr p [v] (h1, q) = Some (VAL_UNDEFINED, (h2, q2))" "settled h2 p (state_of ok) v"
      "microtasks_of q2 = microtasks_of q @ map (\<lambda>c. (c, v)) cs" "list_all2 (same_code h2) (filter IS_POINTER (map (pick ok) rs)) cs"
    using settle_runs [OF h1(3,2) assms(3), of ok pr v] by blast
  have ptr: "IS_POINTER p" using assms(1) by (simp add: deref_def split: if_splits)
  have "js_settle ok' pr p [w] (h2, q2) = Some (VAL_UNDEFINED, (h2, q2))"
    using s(2) ptr by (auto simp: settled_def js_settle_eq settle_def state_of_def)
  moreover have "js_promise_then p [f, g] (h2, q2) = Some (p, (h2, enqueue_if (pick ok (f, g)) v q2))"
    using s(2) ptr by (auto simp: settled_def js_promise_then_def state_of_def arg_or_undefined_def pick_def)
  ultimately show ?thesis using h1(1) s by blast
qed

text \<open>The constructor hands the executor two native functions bound to a new pending promise, which it returns.\<close>

lemma constructor_pending:
  assumes "IS_POINTER f" "roomy h 5" "\<And>a b s. run_fn f [a, b] s = (Inr u, after a b s)"
  obtains p a b h1 na nb where "js_promise_constructor pc run_fn [f] (h, q) = (Inr p, after a b (h1, q))" "pending h1 p []" "extends h h1"
    "\<exists>fa. deref h1 a = Some (OFunction fa) \<and> native_ptr fa = resolve_code pc \<and> f_env fa = p"
    "\<exists>fb. deref h1 b = Some (OFunction fb) \<and> native_ptr fb = reject_code pc \<and> f_env fb = p"
proof -
  have r: "roomy h (Suc (Suc (Suc (Suc (Suc 0)))))" using assms(2) by (simp add: eval_nat_numeral)
  obtain p h1 where p: "create_promise 0 VAL_UNDEFINED h = (p, h1)" by force
  note a1 = roomy_alloc [OF r p [unfolded create_promise_def]]
  obtain n1 h2 where n1: "create_string ''resolve'' h1 = (n1, h2)" by force
  note a2 = roomy_string [OF a1(1) n1]
  obtain a h3 where a: "create_bound_native_function (resolve_code pc) n1 p h2 = (a, h3)" by force
  note a3 = roomy_alloc [OF a2(1) a [unfolded create_bound_native_function_def]]
  obtain n2 h4 where n2: "create_string ''reject'' h3 = (n2, h4)" by force
  note a4 = roomy_string [OF a3(1) n2]
  obtain b h5 where b: "create_bound_native_function (reject_code pc) n2 p h4 = (b, h5)" by force
  note a5 = roomy_alloc [OF a4(1) b [unfolded create_bound_native_function_def]]
  note e3 = extends_trans [OF a4(3) a5(4)]
  note e1 = extends_trans [OF extends_trans [OF a2(3) a3(4)] e3]
  have "js_promise_constructor pc run_fn [f] (h, q) = (Inr p, after a b (h5, q))"
    using assms(1,3) p n1 a n2 b by (simp add: js_promise_constructor_def)
  moreover have "pending h5 p []" using a1(3) e1 by (auto simp: pending_def extends_def)
  moreover have "\<exists>fa. deref h5 a = Some (OFunction fa) \<and> native_ptr fa = resolve_code pc \<and> f_env fa = p" using a3(3) e3 by (auto simp: extends_def)
  moreover have "\<exists>fb. deref h5 b = Some (OFunction fb) \<and> native_ptr fb = reject_code pc \<and> f_env fb = p" using a5(3) by auto
  ultimately show ?thesis using that extends_trans [OF a1(4) e1] by blast
qed

section \<open>Example\<close>

definition demo_function :: JSFunction where
  "demo_function = \<lparr>prog = 0, bytecode_offset = 0, register_count = 1, param_count = 1, is_async = False, f_env = VAL_UNDEFINED,
     f_name = VAL_UNDEFINED, native_ptr = 0, f_props = [], f_capacity = 0, user_data = 0\<rparr>"

definition promise_heap :: heap where
  "promise_heap = \<lparr>objs = [8 \<mapsto> OPromise 0 VAL_UNDEFINED VAL_NULL, 16 \<mapsto> OFunction demo_function], brk = 24, interned = [], next_symbol = 1\<rparr>"

theorem promise_protocol_witness:
  "\<exists>h1 h2 q2. thens (make_pointer 8) [(make_pointer 16, VAL_UNDEFINED), (VAL_UNDEFINED, make_pointer 16)] (promise_heap, no_tasks) = Some (h1, no_tasks) \<and>
     js_settle True no_vm (make_pointer 8) [VAL_TRUE] (h1, no_tasks) = Some (VAL_UNDEFINED, (h2, q2)) \<and> length (microtasks_of q2) = 1"
proof -
  let ?rs = "[(make_pointer 16, VAL_UNDEFINED), (VAL_UNDEFINED, make_pointer 16)]"
  have d: "deref promise_heap (make_pointer 8) = Some (OPromise 0 VAL_UNDEFINED VAL_NULL)"
    by (simp add: deref_make_pointer promise_heap_def del: get_make)
  have r: "roomy promise_heap (Suc (5 * length ?rs))" by (auto simp: roomy_def room_def heap_ok_def promise_heap_def split: if_splits)
  have q: "vmq_inv no_tasks" "microtasks_of no_tasks = []" by (simp_all add: vmq_inv_def no_tasks_def lq_inv_def lq_empty_def microtasks_of_def)
  obtain h1 h2 q2 cs where s: "thens (make_pointer 8) ?rs (promise_heap, no_tasks) = Some (h1, no_tasks)"
      "js_settle True no_vm (make_pointer 8) [VAL_TRUE] (h1, no_tasks) = Some (VAL_UNDEFINED, (h2, q2))"
      "microtasks_of q2 = microtasks_of no_tasks @ map (\<lambda>c. (c, VAL_TRUE)) cs" "list_all2 (same_code h2) (filter IS_POINTER (map (pick True) ?rs)) cs"
    using promise_protocol [OF d r q(1), of True no_vm VAL_TRUE] by blast
  have "length cs = length (filter IS_POINTER (map (pick True) ?rs))" using list_all2_lengthD [OF s(4)] by simp
  then show ?thesis using s(1-3) q(2) by (auto simp: pick_def)
qed

end
