(* ===== verification/Spec2Isabelle.thy ===== *)
theory Spec2Isabelle
  imports Value_Box Bytecode JS_Set Event_Loop Task_Queues Thread_Pool Source_Tools
    Arena JS_Heap_Laws JS_Values Half_Float Parser_Laws Scopes_Laws Bytecode_File Compiler_Correct Interpreter_Laws Collector KV_Laws VFS_Laws Promises
begin

text \<open>
  \<^bold>\<open>Verification library for the Curica runtime.\<close>

  Curica (\<open>src/src/\<close>) is a JavaScript runtime in C: a compiler from JavaScript to register bytecode, an
  interpreter with inline caches, a NaN-boxed object heap with a generational collector, an event loop with a thread pool,
  the built-in objects of the language, and system modules behind a virtual file system. This library models these parts as functions
  of HOL and proves what makes each of them correct. File names below are those of \<open>src/src/\<close>.

  \<^bold>\<open>How the parts interact.\<close> Source text goes through the type stripper, the lexer and the parser to a
  syntax tree; the resolver decorates the tree with scopes and the code generator walks it and emits
  instructions, constants and function records, which can be saved to and loaded from a bytecode file. The interpreter runs the code
  on a register file, a stack of frames, a stack of handlers and the object heap. Built-ins are
  called with a receiver and an argument list and work on the heap; those that take a callback call the interpreter
  again. Timers, I/O handlers and immediates run from the event loop, microtasks and
  next-tick callbacks from queues of the VM, and file work from the thread pool, whose completions the
  event loop drains. All objects are blocks of an arena of which the nursery is copied and
  the old space is marked and swept.

  \<^bold>\<open>Theories and sources.\<close>

  \<^item> \<open>Curica_Prelude\<close>, \<open>Char_Codes\<close>, \<open>Float64\<close>, \<open>Float64_Laws\<close>, \<open>C_Numbers\<close>, \<open>C_Format\<close>: word types, words and lists, character
    codes; IEEE double arithmetic on bit patterns, \<open>strtod\<close>, \<open>strtol\<close> and the \<open>printf\<close> conversions that the sources use.
  \<^item> \<open>Value_Box\<close> (\<open>value.h\<close>), \<open>Bytecode\<close> (\<open>bytecode.h\<close>), \<open>Half_Float\<close> (\<open>vm.c\<close>): values as 64-bit words, instructions as 32-bit words, half
    floats as 16-bit words.
  \<^item> \<open>Linear_Probing\<close>, \<open>JS_Set\<close> (\<open>alloc.c\<close>, \<open>set_*\<close>): the probe invariant of open addressing, and the hash sets.
  \<^item> \<open>Arena\<close> (\<open>alloc.c\<close>, from \<open>arena_init\<close> to \<open>arena_alloc\<close>, \<open>gc_sweep\<close>, \<open>gc_write_barrier\<close>): the block structure of the arena.
  \<^item> \<open>JS_Heap\<close>, \<open>JS_Heap_Laws\<close> (\<open>alloc.c\<close>, the \<open>create_*\<close> functions, \<open>object_get\<close>, \<open>object_set\<close>): objects by
    address, one constructor per object type; interning; property lookup along prototypes.
  \<^item> \<open>JS_Values\<close> (\<open>alloc.c\<close>, \<open>vm.c\<close>): coercions, both equalities, arithmetic and comparison.
  \<^item> \<open>Lexer\<close>, \<open>Lexer_Laws\<close>, \<open>Ast\<close>, \<open>Parser\<close>, \<open>Parser_Laws\<close>, \<open>Scopes\<close>, \<open>Scopes_Laws\<close>, \<open>Codegen\<close>, \<open>Bytecode_File\<close> (\<open>compiler.c\<close>, \<open>ast.h\<close>): the
    compiler, one function per C function, and its file format.
  \<^item> \<open>Interpreter\<close>, \<open>Interpreter_Laws\<close>, \<open>Demo_Machine\<close>, \<open>Compiler_Correct\<close> (\<open>vm.c\<close>): the dispatch loop as one function per
    group of opcodes, its protocol of calls, returns and exceptions; machines for witnesses; the compiler
    and the interpreter against a semantics of expressions.
  \<^item> \<open>Collector\<close> (\<open>alloc.c\<close>, \<open>gc_mark_*\<close>, \<open>gc_minor\<close>, \<open>gc_major\<close>): marking and copying on a graph of blocks.
  \<^item> \<open>Linked_Queue\<close>, \<open>Event_Loop\<close> (\<open>event_loop.c\<close>), \<open>Task_Queues\<close> (\<open>vm.c\<close>, \<open>worker_module.c\<close>, \<open>builtins.c\<close>), \<open>Thread_Pool\<close> (\<open>thread_pool.c\<close>): the
    queues, the phases of a tick, and the pool as a step relation in which the threads interleave.
  \<^item> \<open>String_Builtins\<close>, \<open>String_Laws\<close>, \<open>Array_Builtins\<close>, \<open>Array_Laws\<close>, \<open>Set_Builtins\<close>, \<open>Json\<close>, \<open>Json_Laws\<close>, \<open>Promises\<close> (\<open>builtins.c\<close>, \<open>vm.c\<close>): the
    built-in objects, one function per method.
  \<^item> \<open>Source_Tools\<close> (\<open>ts_stripper.c\<close>, \<open>formatter.c\<close>): the type stripper and the formatter.
  \<^item> \<open>KV_Store\<close>, \<open>KV_Laws\<close> (\<open>kv_store.c\<close>): the persistent store with its log file.
  \<^item> \<open>VFS\<close>, \<open>VFS_Laws\<close> (\<open>vfs_module.c\<close>): files in memory, devices, disks and overlays, routing of file operations.

  \<^bold>\<open>What the lemmas show.\<close> The compiler accepts every expression over locals, and the code it emits computes what the
  expression means; the parser ends on every text, the resolver gives captured variables slots of their own, literals and bytecode files are read
  back. Calls, returns and exceptions follow their protocol, and the inline caches change no result. Allocation hands out free blocks only, the
  sweep keeps what is marked, marking is reachability, and a minor collection relocates every pointer. Hash sets implement finite
  sets, and set methods the set algebra; array methods with pure callbacks are the list functions; \<open>sort\<close> sorts; \<open>splice\<close>, \<open>split\<close>, \<open>join\<close> and
  \<open>replaceAll\<close> agree with their specifications; JSON text is read back by both parsers. Timers fire when they have expired and
  in order; work items are never lost or run twice; microtasks run first in first out; promises settle once. The store refines a map,
  survives crashes during an append and restarts; files in memory refine lists of bytes and never leave their blocks. Where
  the code departs from what it means to do, the departure is a theorem too: the stale next-fit pointer, descriptors that
  outlive their file, the divergence of \<open>JSON.parse\<close> on malformed arrays and others.

  \<^bold>\<open>Modelling conventions.\<close> Integers are words of the width of the C type where they can wrap around, and natural numbers where they
  count elements of a list. \<open>None\<close> is what C leaves undefined (accesses outside a block or to an object of another type, signed overflow, conversions
  out of range) or a loop that does not end; a theorem that a function gives \<open>Some\<close> is therefore also a theorem on memory
  safety and termination. JavaScript exceptions are \<open>Inl\<close>, or a state of the machine. The object heap is a map from addresses to
  objects, and moving objects is the subject of \<open>Collector\<close> alone: root pushes and pops around allocations have no counterpart in the other
  theories. Allocation in the C heap succeeds, except in the files in memory, where it is a parameter. Code outside \<open>src/\<close> (the operating
  system, the clock, the addresses of native functions) and calls back into JavaScript from a built-in are parameters.

  \<^bold>\<open>Bounds.\<close> The parser takes a bound on recursion depth and loop rounds that \<open>parse_source\<close> computes from the length of the text;
  \<open>parser_terminates\<close> shows that it is never used up. The parser of imported JSON has a bound of the length of its text, which is enough by
  \<open>json_import_terminates\<close>; \<open>JSON.parse\<close> has none that is enough on malformed texts, by \<open>json_parse_diverges\<close>. The interpreter runs
  step by step, and a run is a number of steps, which the theorems state. Conversion of values to strings takes a depth, which cyclic arrays exhaust
  as they exhaust the C stack. All probe, search and growth loops are \<open>partial_function (option)\<close> or proved to terminate.

  \<^bold>\<open>Interfaces.\<close> \<open>finite_set_adt\<close> in \<open>JS_Set\<close> is the contract of a finite set, interpreted by the hash tables and used by the set methods;
  \<open>fifo\<close> in \<open>Linked_Queue\<close> that of a queue, interpreted by the linked queue of the event loop, the pool and the task queues; \<open>codec\<close> in
  \<open>Bytecode_File\<close> that of a binary encoding, interpreted for words and function records.

  \<^bold>\<open>Not modelled.\<close> Bindings to foreign libraries and to the operating system: \<open>napi.c\<close>, \<open>ffi_module.c\<close>, \<open>sqlite_module.c\<close>, \<open>wasm_module.c\<close>,
  \<open>wasm_ext.c\<close>, \<open>wasi_module.c\<close>, \<open>webview_module.c\<close>, \<open>zlib_module.c\<close>, \<open>crypto_module.c\<close>, \<open>net_module.c\<close>, \<open>dgram_module.c\<close>, \<open>child_process_module.c\<close>,
  \<open>os_module.c\<close>, \<open>sandbox.c\<close>: they pass arguments to code that is not in the repository. The command line and the start-up code (\<open>main.c\<close>,
  \<open>bootstrapper.c\<close>, \<open>repl.c\<close>). HTTP and WebSocket parsing over sockets (\<open>http_module.c\<close>, \<open>websocket_module.c\<close>), worker start-up
  (\<open>worker_module.c\<close> beyond its queues, \<open>worker_threads_module.c\<close>), \<open>atomics.c\<close>. The regular expression engine \<open>slre.c\<close> is third-party code.
  Of \<open>vm.c\<close> the coroutines, which switch C stacks, and the set-up of the global object; of \<open>builtins.c\<close> the methods of \<open>Math\<close>, \<open>Number\<close> and \<open>RegExp\<close>
  and the module loader.
\<close>

end
